(* ===== verification/Prelude.thy ===== *)
theory Prelude
  imports Complex_Main "HOL-Library.Sublist"
begin

text \<open>
  Shared vocabulary of the development: the errors a Python statement can raise, the
  sum type that carries them, sequencing of statements over an explicit state,
  Python's indexing of lists (negative indices included) and the generic lemmas on
  lists that the components share.
\<close>

named_theorems py_simps \<open>rewriting rules for sequenced Python statements\<close>

named_theorems frame_simps \<open>which fields an operation leaves alone\<close>

section \<open>Errors and results\<close>

datatype py_error =
    IndexError
  | KeyError
  | NameError string
  | ValueError
  | TypeError
  | AttributeError
  | ZeroDivisionError
  | RuntimeError
  | SystemExit
  | GenericException string

definition OSError :: py_error where
  "OSError = GenericException ''OSError''"

definition AssertionError :: py_error where
  "AssertionError = GenericException ''AssertionError''"

type_synonym 'a result = "py_error + 'a"

definition is_ok :: "'a result \<Rightarrow> bool" where
  "is_ok r = (case r of Inl _ \<Rightarrow> False | Inr _ \<Rightarrow> True)"

lemma is_ok_simps [simp]: "is_ok (Inr x)" "\<not> is_ok (Inl e)"
  by (simp_all add: is_ok_def)

lemma is_okE:
  assumes "is_ok r"
  obtains x where "r = Inr x"
  using assms by (cases r) auto

text \<open>Running one fallible computation after another: the first error wins.\<close>

definition ebind :: "'a result \<Rightarrow> ('a \<Rightarrow> 'b result) \<Rightarrow> 'b result" where
  "ebind r f = (case r of Inl e \<Rightarrow> Inl e | Inr x \<Rightarrow> f x)"

lemma ebind_simps [simp, py_simps]:
  "ebind (Inl e) f = Inl e"
  "ebind (Inr x) f = f x"
  by (simp_all add: ebind_def)

lemma ebind_Inr_iff: "ebind r f = Inr y \<longleftrightarrow> (\<exists>x. r = Inr x \<and> f x = Inr y)"
  by (cases r) auto

lemma ebind_assoc: "ebind (ebind r f) g = ebind r (\<lambda>x. ebind (f x) g)"
  by (cases r) auto

section \<open>Statements over a state\<close>

text \<open>
  A Python statement acts on the names of its script: it maps a state to an error or
  to the next state. A block is a list of statements; execution stops at the first
  error.
\<close>

type_synonym 's stmt = "'s \<Rightarrow> 's result"

fun block :: "'s stmt list \<Rightarrow> 's stmt" where
  "block [] s = Inr s"
| "block (c # cs) s = ebind (c s) (block cs)"

text \<open>An \<open>if\<close> statement without an \<open>else\<close> branch.\<close>

definition py_if :: "('s \<Rightarrow> bool) \<Rightarrow> 's stmt list \<Rightarrow> 's stmt" where
  "py_if p cs s = (if p s then block cs s else Inr s)"

text \<open>A statement that cannot fail.\<close>

definition assign :: "('s \<Rightarrow> 's) \<Rightarrow> 's stmt" where
  "assign f s = Inr (f s)"

lemma assign_simp [simp, py_simps]: "assign f s = Inr (f s)"
  by (simp add: assign_def)

lemma py_if_simps [simp, py_simps]:
  "p s \<Longrightarrow> py_if p cs s = block cs s"
  "\<not> p s \<Longrightarrow> py_if p cs s = Inr s"
  by (simp_all add: py_if_def)

lemma block_append: "block (as @ bs) s = ebind (block as s) (block bs)"
proof (induction as arbitrary: s)
  case Nil
  show ?case by simp
next
  case (Cons c cs)
  then show ?case by (cases "c s") simp_all
qed

text \<open>
  The rule for invariants of a block: a property that every statement of it keeps
  is kept by the block. The second rule threads a relation between the first and the
  last state.
\<close>

definition keeps :: "('s \<Rightarrow> bool) \<Rightarrow> 's stmt \<Rightarrow> bool" where
  "keeps P c \<longleftrightarrow> (\<forall>s s'. P s \<longrightarrow> c s = Inr s' \<longrightarrow> P s')"

lemma keepsI: "(\<And>s s'. P s \<Longrightarrow> c s = Inr s' \<Longrightarrow> P s') \<Longrightarrow> keeps P c"
  by (simp add: keeps_def)

lemma keepsD: "keeps P c \<Longrightarrow> c s = Inr s' \<Longrightarrow> P s \<Longrightarrow> P s'"
  by (simp add: keeps_def)

lemma keeps_block: "(\<And>c. c \<in> set cs \<Longrightarrow> keeps P c) \<Longrightarrow> keeps P (block cs)"
proof (induction cs)
  case Nil
  show ?case by (simp add: keeps_def)
next
  case (Cons c cs)
  then have c: "keeps P c" and cs: "keeps P (block cs)" by simp_all
  show ?case
  proof (rule keepsI)
    fix s s' assume "P s" and "block (c # cs) s = Inr s'"
    then obtain t where "c s = Inr t" and "block cs t = Inr s'"
      by (auto simp: ebind_Inr_iff)
    with \<open>P s\<close> show "P s'" using keepsD [OF c] keepsD [OF cs] by blast
  qed
qed

lemma keeps_if:
  assumes "\<And>c. c \<in> set cs \<Longrightarrow> keeps P c"
  shows "keeps P (py_if p cs)"
proof -
  have "keeps P (block cs)" by (rule keeps_block) (rule assms)
  then have "block cs s = Inr s' \<Longrightarrow> P s \<Longrightarrow> P s'" for s s'
    by (rule keepsD)
  then show ?thesis
    by (intro keepsI) (auto simp only: py_if_def sum.inject split: if_splits)
qed

lemma keeps_assign: "(\<And>s. P s \<Longrightarrow> P (f s)) \<Longrightarrow> keeps P (assign f)"
  by (auto simp: keeps_def)

text \<open>Total correctness: from a state with P the statement succeeds in a state with Q.\<close>

definition totally :: "('s \<Rightarrow> bool) \<Rightarrow> 's stmt \<Rightarrow> ('s \<Rightarrow> bool) \<Rightarrow> bool" where
  "totally P c Q \<longleftrightarrow> (\<forall>s. P s \<longrightarrow> (\<exists>s'. c s = Inr s' \<and> Q s'))"

lemma totallyI: "(\<And>s. P s \<Longrightarrow> \<exists>s'. c s = Inr s' \<and> Q s') \<Longrightarrow> totally P c Q"
  by (simp add: totally_def)

lemma totallyD: "totally P c Q \<Longrightarrow> P s \<Longrightarrow> \<exists>s'. c s = Inr s' \<and> Q s'"
  by (simp add: totally_def)

lemma totally_keeps: "totally P c P \<Longrightarrow> keeps P c"
  unfolding totally_def keeps_def by (metis Inr_inject)

lemma totally_block_Nil: "(\<And>s. P s \<Longrightarrow> Q s) \<Longrightarrow> totally P (block []) Q"
  by (simp add: totally_def)

lemma totally_block_Cons:
  assumes "totally P c R" and "totally R (block cs) Q"
  shows "totally P (block (c # cs)) Q"
  using assms unfolding totally_def by fastforce

lemma totally_if:
  assumes "totally (\<lambda>s. P s \<and> p s) (block cs) Q"
    and "\<And>s. P s \<Longrightarrow> \<not> p s \<Longrightarrow> Q s"
  shows "totally P (py_if p cs) Q"
  using assms unfolding totally_def py_if_def by auto

lemma totally_assign: "(\<And>s. P s \<Longrightarrow> Q (f s)) \<Longrightarrow> totally P (assign f) Q"
  by (simp add: totally_def)

lemma totally_weaken:
  assumes "totally P c Q" and "\<And>s. P' s \<Longrightarrow> P s" and "\<And>s. Q s \<Longrightarrow> Q' s"
  shows "totally P' c Q'"
  using assms unfolding totally_def by blast

text \<open>An observation of the state that a statement leaves alone.\<close>

definition preserves :: "('s \<Rightarrow> 'a) \<Rightarrow> 's stmt \<Rightarrow> bool" where
  "preserves F c \<longleftrightarrow> (\<forall>s s'. c s = Inr s' \<longrightarrow> F s' = F s)"

lemma preservesI: "(\<And>s s'. c s = Inr s' \<Longrightarrow> F s' = F s) \<Longrightarrow> preserves F c"
  by (simp add: preserves_def)

lemma preservesD: "preserves F c \<Longrightarrow> c s = Inr s' \<Longrightarrow> F s' = F s"
  by (simp add: preserves_def)

lemma preserves_Nil: "preserves F (block [])"
  by (simp add: preserves_def)

lemma preserves_Cons:
  assumes "preserves F c" and "preserves F (block cs)"
  shows "preserves F (block (c # cs))"
proof (rule preservesI)
  fix s s' assume "block (c # cs) s = Inr s'"
  then obtain t where "c s = Inr t" and "block cs t = Inr s'" by (auto simp: ebind_Inr_iff)
  then show "F s' = F s" using preservesD [OF assms(1)] preservesD [OF assms(2)] by metis
qed

lemma preserves_append:
  assumes "preserves F (block cs)" and "preserves F (block ds)"
  shows "preserves F (block (cs @ ds))"
proof (rule preservesI)
  fix s s' assume "block (cs @ ds) s = Inr s'"
  then obtain t where "block cs s = Inr t" and "block ds t = Inr s'"
    by (auto simp: ebind_Inr_iff block_append)
  then show "F s' = F s" using preservesD [OF assms(1)] preservesD [OF assms(2)] by metis
qed

lemma preserves_if: "preserves F (block cs) \<Longrightarrow> preserves F (py_if p cs)"
  unfolding preserves_def py_if_def by auto

lemmas preserves_intros = preserves_if preserves_Cons preserves_Nil preserves_append

section \<open>Python lists\<close>

text \<open>
  A Python index: \<open>i\<close> counts from the front, a negative \<open>i\<close> from the back, anything
  else raises.
\<close>

definition py_index :: "nat \<Rightarrow> int \<Rightarrow> nat option" where
  "py_index n i =
     (if 0 \<le> i \<and> i < int n then Some (nat i)
      else if - int n \<le> i \<and> i < 0 then Some (nat (int n + i))
      else None)"

lemma py_index_lt: "py_index n i = Some k \<Longrightarrow> k < n"
  by (auto simp: py_index_def split: if_splits)

lemma py_index_nat [simp]: "k < n \<Longrightarrow> py_index n (int k) = Some k"
  by (simp add: py_index_def)

lemma py_index_nonneg: "0 \<le> i \<Longrightarrow> i < int n \<Longrightarrow> py_index n i = Some (nat i)"
  by (simp add: py_index_def)

lemma py_index_None_iff: "py_index n i = None \<longleftrightarrow> i < - int n \<or> int n \<le> i"
  by (auto simp: py_index_def)

definition py_nth :: "'a list \<Rightarrow> int \<Rightarrow> 'a result" where
  "py_nth xs i = (case py_index (length xs) i of None \<Rightarrow> Inl IndexError | Some k \<Rightarrow> Inr (xs ! k))"

lemma py_nth_nat [simp]: "k < length xs \<Longrightarrow> py_nth xs (int k) = Inr (xs ! k)"
  by (simp add: py_nth_def)

lemma py_nth_in_set: "py_nth xs i = Inr x \<Longrightarrow> x \<in> set xs"
  by (auto simp: py_nth_def dest: py_index_lt split: option.splits)

lemma py_nth_ok_iff: "is_ok (py_nth xs i) \<longleftrightarrow> - int (length xs) \<le> i \<and> i < int (length xs)"
  by (auto simp: py_nth_def py_index_def is_ok_def)

text \<open>The last \<open>n\<close> elements: Python's \<open>xs[-n:]\<close> for a positive \<open>n\<close>.\<close>

definition last_n :: "nat \<Rightarrow> 'a list \<Rightarrow> 'a list" where
  "last_n n xs = drop (length xs - n) xs"

lemma length_last_n [simp]: "length (last_n n xs) = min n (length xs)"
  by (simp add: last_n_def)

lemma last_n_all: "length xs \<le> n \<Longrightarrow> last_n n xs = xs"
  by (simp add: last_n_def)

lemma set_last_n: "set (last_n n xs) \<subseteq> set xs"
  by (simp add: last_n_def set_drop_subset)

lemma last_n_snoc:
  "0 < n \<Longrightarrow> last_n n (xs @ [x]) = last_n (n - 1) xs @ [x]"
  by (simp add: last_n_def Suc_diff_le)

text \<open>Slices clamp their bounds and count negative ones from the end.\<close>

definition slice_bound :: "nat \<Rightarrow> int \<Rightarrow> nat" where
  "slice_bound n i = (if i < 0 then nat (int n + i) else min n (nat i))"

definition py_slice :: "'a list \<Rightarrow> int \<Rightarrow> int \<Rightarrow> 'a list" where
  "py_slice xs a b = drop (slice_bound (length xs) a) (take (slice_bound (length xs) b) xs)"

definition py_slice_from :: "'a list \<Rightarrow> int \<Rightarrow> 'a list" where
  "py_slice_from xs a = drop (slice_bound (length xs) a) xs"

definition py_slice_to :: "'a list \<Rightarrow> int \<Rightarrow> 'a list" where
  "py_slice_to xs b = take (slice_bound (length xs) b) xs"

lemma slice_back:
  assumes "n + d \<le> length xs" and "0 < d" and "a = - int n - int d"
  shows "py_slice xs a (- int d) = take n (drop (length xs - n - d) xs)"
proof -
  have "nat (int (length xs) + a) = length xs - n - d" using assms by simp
  moreover have "nat (int (length xs) + - int d) = length xs - d" by simp
  moreover have "a < 0" using assms by simp
  ultimately show ?thesis using assms(1,2) by (simp add: py_slice_def slice_bound_def drop_take)
qed

text \<open>Truncation towards zero, Python's \<open>int\<close> on a number.\<close>

definition trunc :: "rat \<Rightarrow> int" where
  "trunc x = (if 0 \<le> x then \<lfloor>x\<rfloor> else \<lceil>x\<rceil>)"

lemma trunc_of_int [simp]: "trunc (of_int n) = n"
  by (simp add: trunc_def)

lemma trunc_of_nat [simp]: "trunc (of_nat n) = int n"
  using trunc_of_int [of "int n"] by simp

section \<open>Lists\<close>

lemma sorted_snoc: "sorted (xs @ [x]) \<longleftrightarrow> sorted xs \<and> (\<forall>y \<in> set xs. y \<le> x)"
  by (auto simp: sorted_append)

lemma sum_list_filter_all: "(\<And>x. x \<in> set xs \<Longrightarrow> p x) \<Longrightarrow> sum_list (filter p xs) = sum_list xs"
  by (simp add: filter_True)

lemma list_update_other: "i \<noteq> j \<Longrightarrow> xs[i := v] ! j = xs ! j"
  by simp

lemma nth_update_eq_if:
  "i < length xs \<Longrightarrow> xs[i := v] ! j = (if i = j then v else xs ! j)"
  by simp

end
