(* ===== verification/Channel.thy ===== *)
theory Channel
  imports Prelude "HOL-Library.Word"
begin

text \<open>
  The shared-memory channel between the ns-3 process and a Python agent:
  \<open>py_interface.py\<close> (classes NS3Var, NS3BigVar, Ns3AIRL and Ns3AIDL) on top of the
  lock of \<open>memory-pool.c\<close>, whose two version counters are unsigned bytes. The agent's
  \<open>while not r1.isFinish(): with r1 as data: ...\<close> and the simulator's setters and
  getters run interleaved, one shared access at a time.
\<close>

section \<open>The lock\<close>

record ('e, 'a) shm =
  version :: "8 word"
  nextVersion :: "8 word"
  isFinish :: bool
  env :: 'e
  act :: 'a

text \<open>One attempt of the compare-and-swap loop of AcquireMemory.\<close>

definition AcquireMemory :: "('e, 'a) shm \<Rightarrow> ('e, 'a) shm option" where
  "AcquireMemory m =
     (if nextVersion m = version m then Some (m\<lparr>nextVersion := version m + 1\<rparr>) else None)"

definition ReleaseMemory :: "('e, 'a) shm \<Rightarrow> ('e, 'a) shm result" where
  "ReleaseMemory m =
     (if version m = nextVersion m - 1 then Inr (m\<lparr>version := nextVersion m\<rparr>) else Inl RuntimeError)"

definition ReleaseMemoryRB :: "('e, 'a) shm \<Rightarrow> ('e, 'a) shm result" where
  "ReleaseMemoryRB m =
     (if nextVersion m = version m + 1 then Inr (m\<lparr>nextVersion := version m\<rparr>) else Inl RuntimeError)"

definition GetMemoryVersion :: "('e, 'a) shm \<Rightarrow> nat" where
  "GetMemoryVersion m = unat (version m)"

definition lock_free :: "('e, 'a) shm \<Rightarrow> bool" where
  "lock_free m \<longleftrightarrow> nextVersion m = version m"

definition lock_held :: "('e, 'a) shm \<Rightarrow> bool" where
  "lock_held m \<longleftrightarrow> nextVersion m = version m + 1"

lemma free_not_held: "lock_free m \<Longrightarrow> \<not> lock_held m"
  by (simp add: lock_free_def lock_held_def)

lemma AcquireMemory_Some_iff:
  "AcquireMemory m = Some m' \<longleftrightarrow> lock_free m \<and> m' = m\<lparr>nextVersion := version m + 1\<rparr>"
  by (auto simp: AcquireMemory_def lock_free_def)

lemma ReleaseMemory_Inr_iff:
  "ReleaseMemory m = Inr m' \<longleftrightarrow> lock_held m \<and> m' = m\<lparr>version := nextVersion m\<rparr>"
  by (auto simp: ReleaseMemory_def lock_held_def)

lemma ReleaseMemoryRB_Inr_iff:
  "ReleaseMemoryRB m = Inr m' \<longleftrightarrow> lock_held m \<and> m' = m\<lparr>nextVersion := version m\<rparr>"
  by (auto simp: ReleaseMemoryRB_def lock_held_def)

text \<open>The parity of the byte survives its wrap-around from 255 to 0.\<close>

lemma even_unat_word8: "even (unat (v :: 8 word)) \<longleftrightarrow> even v"
  by transfer (simp add: even_nat_iff)

lemma unat_mod_2: "unat (v :: 8 word) mod 2 = (if odd v then 1 else 0)"
  by (simp add: mod_2_eq_odd even_unat_word8)

section \<open>The Python classes\<close>

record ns3_obj =
  m_id :: nat
  finished :: bool
  mod_by :: nat
  res_of :: nat

definition airl_init :: "nat \<Rightarrow> ns3_obj" where
  "airl_init uid = \<lparr>m_id = uid, finished = False, mod_by = 2, res_of = 1\<rparr>"

definition airl_SetCond :: "ns3_obj \<Rightarrow> nat \<Rightarrow> nat \<Rightarrow> ns3_obj" where
  "airl_SetCond r md rs = r\<lparr>mod_by := md, res_of := rs\<rparr>"

definition airl_isFinish :: "('e, 'a) shm \<Rightarrow> bool" where
  "airl_isFinish m = isFinish m"

definition airl_ready :: "ns3_obj \<Rightarrow> ('e, 'a) shm \<Rightarrow> bool" where
  "airl_ready r m \<longleftrightarrow> GetMemoryVersion m mod mod_by r = res_of r"

text \<open>
  What one attempt of Acquire gives: it spins, it returns None because the simulation
  has finished, or it returns the structure with the lock taken.
\<close>

datatype ('e, 'a) acquired =
    Spins
  | Returns_None ns3_obj
  | Returns_Memory "('e, 'a) shm"

definition airl_Acquire :: "ns3_obj \<Rightarrow> ('e, 'a) shm \<Rightarrow> ('e, 'a) acquired" where
  "airl_Acquire r m =
     (if \<not> airl_isFinish m \<and> \<not> airl_ready r m then Spins
      else if airl_isFinish m then Returns_None (r\<lparr>finished := True\<rparr>)
      else (case AcquireMemory m of None \<Rightarrow> Spins | Some m' \<Rightarrow> Returns_Memory m'))"

definition airl_Release :: "('e, 'a) shm \<Rightarrow> ('e, 'a) shm result" where
  "airl_Release m = ReleaseMemory m"

definition airl_ReleaseAndRollback :: "('e, 'a) shm \<Rightarrow> ('e, 'a) shm result" where
  "airl_ReleaseAndRollback m = ReleaseMemoryRB m"

definition airl_exit :: "ns3_obj \<Rightarrow> ('e, 'a) shm \<Rightarrow> ('e, 'a) shm result" where
  "airl_exit r m = (if finished r then Inr m else airl_Release m)"

text \<open>Ns3AIDL repeats the same methods over its own structure.\<close>

definition aidl_init :: "nat \<Rightarrow> ns3_obj" where
  "aidl_init uid = \<lparr>m_id = uid, finished = False, mod_by = 2, res_of = 1\<rparr>"

definition aidl_isFinish :: "('e, 'a) shm \<Rightarrow> bool" where
  "aidl_isFinish m = isFinish m"

definition aidl_ready :: "ns3_obj \<Rightarrow> ('e, 'a) shm \<Rightarrow> bool" where
  "aidl_ready r m \<longleftrightarrow> GetMemoryVersion m mod mod_by r = res_of r"

definition aidl_Acquire :: "ns3_obj \<Rightarrow> ('e, 'a) shm \<Rightarrow> ('e, 'a) acquired" where
  "aidl_Acquire r m =
     (if \<not> aidl_isFinish m \<and> \<not> aidl_ready r m then Spins
      else if aidl_isFinish m then Returns_None (r\<lparr>finished := True\<rparr>)
      else (case AcquireMemory m of None \<Rightarrow> Spins | Some m' \<Rightarrow> Returns_Memory m'))"

definition aidl_exit :: "ns3_obj \<Rightarrow> ('e, 'a) shm \<Rightarrow> ('e, 'a) shm result" where
  "aidl_exit r m = (if finished r then Inr m else ReleaseMemory m)"

text \<open>NS3BigVar has no finish flag: entering waits for its turn and for the lock.\<close>

definition bigvar_init :: "nat \<Rightarrow> ns3_obj" where
  "bigvar_init uid = \<lparr>m_id = uid, finished = False, mod_by = 2, res_of = 1\<rparr>"

definition bigvar_enter :: "ns3_obj \<Rightarrow> ('e, 'a) shm \<Rightarrow> ('e, 'a) acquired" where
  "bigvar_enter r m =
     (if GetMemoryVersion m mod mod_by r \<noteq> res_of r then Spins
      else (case AcquireMemory m of None \<Rightarrow> Spins | Some m' \<Rightarrow> Returns_Memory m'))"

definition bigvar_exit :: "('e, 'a) shm \<Rightarrow> ('e, 'a) shm result" where
  "bigvar_exit m = ReleaseMemory m"

text \<open>NS3Var is a mailbox with one tag per direction; a \<open>None\<close> means the method spins.\<close>

record 'd ns3var =
  tagWt :: "8 word"
  tagRd :: "8 word"
  var_data :: 'd

definition READABLE :: "8 word" where "READABLE = 0xff"

definition SETABLE :: "8 word" where "SETABLE = 0"

definition ns3var_Set :: "'d ns3var \<Rightarrow> 'd \<Rightarrow> 'd ns3var option" where
  "ns3var_Set v d =
     (if tagWt v \<noteq> SETABLE then None else Some (v\<lparr>var_data := d, tagWt := READABLE\<rparr>))"

definition ns3var_Get :: "'d ns3var \<Rightarrow> ('d \<times> 'd ns3var) option" where
  "ns3var_Get v =
     (if tagRd v \<noteq> READABLE then None else Some (var_data v, v\<lparr>tagRd := SETABLE\<rparr>))"

section \<open>Agent and simulator, interleaved\<close>

text \<open>
  The program counters. The agent evaluates the script's loop condition, then the three
  reads of Acquire (the finish flag, the version, the finish flag again), then the
  compare-and-swap, then the body of the \<open>with\<close> statement, then its exit. The simulator
  either writes the environment (EnvSetterCond ... SetCompleted), or reads the action
  (ActionGetterCond ... GetCompleted), or sets the finish flag; both getters wait for an
  even version first. The last four fields are history: the environments published by
  the simulator, those the agent acted on, the actions it published, and the reads of
  the simulator with the number of environments published before them.
\<close>

datatype agent_pc = A_Top | A_Wait | A_Ver | A_Check | A_Lock | A_Body | A_Release | A_Exit

datatype sim_pc = S_Run | S_WVer | S_WLock | S_Write | S_WRel | S_RVer | S_RLock | S_Read

record ('e, 'a) sys =
  mem :: "('e, 'a) shm"
  obj :: ns3_obj
  apc :: agent_pc
  spc :: sim_pc
  written :: "'e list"
  seen :: "'e list"
  acted :: "'a list"
  reads :: "(nat \<times> 'a) list"

definition init_sys :: "ns3_obj \<Rightarrow> 'e \<Rightarrow> 'a \<Rightarrow> ('e, 'a) sys" where
  "init_sys r e a =
     \<lparr>mem = \<lparr>version = 0, nextVersion = 0, isFinish = False, env = e, act = a\<rparr>,
      obj = r, apc = A_Top, spc = S_Run, written = [], seen = [], acted = [], reads = []\<rparr>"

inductive chan_step ::
  "(ns3_obj \<Rightarrow> ('e, 'a) shm \<Rightarrow> bool) \<Rightarrow> ('e, 'a) sys \<Rightarrow> ('e, 'a) sys \<Rightarrow> bool"
  for ready where
  top_go: "apc s = A_Top \<Longrightarrow> \<not> isFinish (mem s) \<Longrightarrow> chan_step ready s (s\<lparr>apc := A_Wait\<rparr>)"
| top_stop: "apc s = A_Top \<Longrightarrow> isFinish (mem s) \<Longrightarrow> chan_step ready s (s\<lparr>apc := A_Exit\<rparr>)"
| wait_fin: "apc s = A_Wait \<Longrightarrow> isFinish (mem s) \<Longrightarrow> chan_step ready s (s\<lparr>apc := A_Check\<rparr>)"
| wait_go: "apc s = A_Wait \<Longrightarrow> \<not> isFinish (mem s) \<Longrightarrow> chan_step ready s (s\<lparr>apc := A_Ver\<rparr>)"
| ver_spin: "apc s = A_Ver \<Longrightarrow> \<not> ready (obj s) (mem s) \<Longrightarrow> chan_step ready s (s\<lparr>apc := A_Wait\<rparr>)"
| ver_go: "apc s = A_Ver \<Longrightarrow> ready (obj s) (mem s) \<Longrightarrow> chan_step ready s (s\<lparr>apc := A_Check\<rparr>)"
| check_none: "apc s = A_Check \<Longrightarrow> isFinish (mem s) \<Longrightarrow>
    chan_step ready s (s\<lparr>apc := A_Exit, obj := (obj s)\<lparr>finished := True\<rparr>\<rparr>)"
| check_go: "apc s = A_Check \<Longrightarrow> \<not> isFinish (mem s) \<Longrightarrow> chan_step ready s (s\<lparr>apc := A_Lock\<rparr>)"
| lock: "apc s = A_Lock \<Longrightarrow> AcquireMemory (mem s) = Some m \<Longrightarrow>
    chan_step ready s (s\<lparr>apc := A_Body, mem := m, seen := seen s @ [env m]\<rparr>)"
| body: "apc s = A_Body \<Longrightarrow>
    chan_step ready s (s\<lparr>apc := A_Release, mem := (mem s)\<lparr>env := e, act := a\<rparr>\<rparr>)"
| release: "apc s = A_Release \<Longrightarrow> airl_exit (obj s) (mem s) = Inr m \<Longrightarrow>
    chan_step ready s (s\<lparr>apc := A_Top, mem := m, acted := acted s @ [act m]\<rparr>)"
| sim_write: "spc s = S_Run \<Longrightarrow> chan_step ready s (s\<lparr>spc := S_WVer\<rparr>)"
| sim_wver: "spc s = S_WVer \<Longrightarrow> GetMemoryVersion (mem s) mod 2 = 0 \<Longrightarrow>
    chan_step ready s (s\<lparr>spc := S_WLock\<rparr>)"
| sim_wlock: "spc s = S_WLock \<Longrightarrow> AcquireMemory (mem s) = Some m \<Longrightarrow>
    chan_step ready s (s\<lparr>spc := S_Write, mem := m\<rparr>)"
| sim_set: "spc s = S_Write \<Longrightarrow>
    chan_step ready s (s\<lparr>spc := S_WRel, mem := (mem s)\<lparr>env := e\<rparr>\<rparr>)"
| sim_wrel: "spc s = S_WRel \<Longrightarrow> ReleaseMemory (mem s) = Inr m \<Longrightarrow>
    chan_step ready s (s\<lparr>spc := S_Run, mem := m, written := written s @ [env m]\<rparr>)"
| sim_read: "spc s = S_Run \<Longrightarrow> chan_step ready s (s\<lparr>spc := S_RVer\<rparr>)"
| sim_rver: "spc s = S_RVer \<Longrightarrow> GetMemoryVersion (mem s) mod 2 = 0 \<Longrightarrow>
    chan_step ready s (s\<lparr>spc := S_RLock\<rparr>)"
| sim_rlock: "spc s = S_RLock \<Longrightarrow> AcquireMemory (mem s) = Some m \<Longrightarrow>
    chan_step ready s (s\<lparr>spc := S_Read, mem := m\<rparr>)"
| sim_get: "spc s = S_Read \<Longrightarrow> ReleaseMemoryRB (mem s) = Inr m \<Longrightarrow>
    chan_step ready s (s\<lparr>spc := S_Run, mem := m, reads := reads s @ [(length (written s), act m)]\<rparr>)"
| sim_finish: "spc s = S_Run \<Longrightarrow>
    chan_step ready s (s\<lparr>mem := (mem s)\<lparr>isFinish := True\<rparr>\<rparr>)"

inductive reachable ::
  "(ns3_obj \<Rightarrow> ('e, 'a) shm \<Rightarrow> bool) \<Rightarrow> ns3_obj \<Rightarrow> ('e, 'a) sys \<Rightarrow> bool"
  for ready r where
  start: "reachable ready r (init_sys r e a)"
| step: "reachable ready r s \<Longrightarrow> chan_step ready s t \<Longrightarrow> reachable ready r t"

definition agent_holds :: "('e, 'a) sys \<Rightarrow> bool" where
  "agent_holds s \<longleftrightarrow> apc s = A_Body \<or> apc s = A_Release"

definition sim_holds :: "('e, 'a) sys \<Rightarrow> bool" where
  "sim_holds s \<longleftrightarrow> spc s = S_Write \<or> spc s = S_WRel \<or> spc s = S_Read"

text \<open>The invariant of the lock: who may hold it is decided by the parity of the version.\<close>

definition lock_inv :: "('e, 'a) sys \<Rightarrow> bool" where
  "lock_inv s \<longleftrightarrow>
     (let m = mem s in
      nextVersion m = (if agent_holds s \<or> sim_holds s then version m + 1 else version m) \<and>
      (agent_holds s \<or> apc s = A_Lock \<longrightarrow> odd (version m)) \<and>
      (sim_holds s \<or> spc s = S_WLock \<or> spc s = S_RLock \<longrightarrow> even (version m)) \<and>
      (apc s = A_Check \<longrightarrow> odd (version m) \<or> isFinish m) \<and>
      mod_by (obj s) = 2 \<and> res_of (obj s) = 1 \<and>
      (finished (obj s) \<longrightarrow> apc s = A_Exit))"

text \<open>
  A read after \<open>n\<close> published environments is answered by the action the agent published
  for the last of them.
\<close>

definition answered :: "'a list \<Rightarrow> nat \<times> 'a \<Rightarrow> bool" where
  "answered as r \<longleftrightarrow> fst r \<le> length as \<and> (0 < fst r \<longrightarrow> snd r = as ! (fst r - 1))"

lemma answered_snoc: "answered as r \<Longrightarrow> answered (as @ [a]) r"
  by (auto simp: answered_def nth_append)

lemma answered_last: "as \<noteq> [] \<Longrightarrow> answered as (length as, last as)"
  by (simp add: answered_def last_conv_nth)

text \<open>The invariant of the data: the two sides take turns.\<close>

definition turn_inv :: "('e, 'a) sys \<Rightarrow> bool" where
  "turn_inv s \<longleftrightarrow>
     (let m = mem s in
      length (written s) = length (acted s) + (if odd (version m) then 1 else 0) \<and>
      length (seen s) = length (acted s) + (if agent_holds s then 1 else 0) \<and>
      prefix (seen s) (written s) \<and>
      (odd (version m) \<and> apc s \<noteq> A_Release \<longrightarrow> written s \<noteq> [] \<and> env m = last (written s)) \<and>
      (apc s \<noteq> A_Release \<and> acted s \<noteq> [] \<longrightarrow> act m = last (acted s)) \<and>
      (\<forall>r \<in> set (reads s). answered (acted s) r))"

lemma prefix_snoc_last:
  assumes "prefix xs ys" and "length ys = Suc (length xs)"
  shows "prefix (xs @ [last ys]) ys"
proof -
  from assms(1) obtain zs where "ys = xs @ zs" by (auto simp: prefix_def)
  moreover from this assms(2) obtain z where "zs = [z]" by (auto simp: length_Suc_conv)
  ultimately show ?thesis by simp
qed

text \<open>
  The interface both Python classes offer to the protocol: under the default condition
  the object is ready exactly when the version is odd.
\<close>

locale turn_taking =
  fixes ready :: "ns3_obj \<Rightarrow> ('e, 'a) shm \<Rightarrow> bool" and new :: "nat \<Rightarrow> ns3_obj"
  assumes ready_odd: "mod_by r = 2 \<Longrightarrow> res_of r = 1 \<Longrightarrow> ready r m \<longleftrightarrow> odd (version m)"
    and new_cond: "mod_by (new uid) = 2" "res_of (new uid) = 1"
    and new_unfinished: "\<not> finished (new uid)"
begin

lemma lock_inv_init: "lock_inv (init_sys (new uid) e a)"
  by (simp add: lock_inv_def init_sys_def agent_holds_def sim_holds_def new_cond new_unfinished)

lemma lock_inv_step: "chan_step ready s t \<Longrightarrow> lock_inv s \<Longrightarrow> lock_inv t"
  by (induction rule: chan_step.induct)
    (auto simp: lock_inv_def agent_holds_def sim_holds_def AcquireMemory_Some_iff
      ReleaseMemory_Inr_iff ReleaseMemoryRB_Inr_iff lock_free_def lock_held_def Let_def
      ready_odd GetMemoryVersion_def unat_mod_2 airl_exit_def airl_Release_def split: if_splits)

lemma turn_inv_init: "turn_inv (init_sys (new uid) e a)"
  by (simp add: turn_inv_def init_sys_def agent_holds_def)

lemma turn_inv_step: "chan_step ready s t \<Longrightarrow> lock_inv s \<Longrightarrow> turn_inv s \<Longrightarrow> turn_inv t"
proof (induction rule: chan_step.induct)
  case (lock s m)
  then show ?case
    by (auto simp: turn_inv_def lock_inv_def agent_holds_def AcquireMemory_Some_iff Let_def
        split: if_splits intro!: prefix_snoc_last)
next
  case (release s m)
  then show ?case
    by (auto simp: turn_inv_def lock_inv_def agent_holds_def ReleaseMemory_Inr_iff lock_held_def
        airl_exit_def airl_Release_def Let_def split: if_splits intro: answered_snoc)
next
  case (sim_get s m)
  then show ?case
    by (auto simp: turn_inv_def lock_inv_def agent_holds_def sim_holds_def ReleaseMemoryRB_Inr_iff
        Let_def answered_def last_conv_nth split: if_splits)
qed (auto simp: turn_inv_def lock_inv_def agent_holds_def sim_holds_def AcquireMemory_Some_iff
      ReleaseMemory_Inr_iff lock_held_def Let_def split: if_splits)

lemma reachable_inv: "reachable ready (new uid) s \<Longrightarrow> lock_inv s \<and> turn_inv s"
  by (induction rule: reachable.induct)
    (auto intro: lock_inv_init turn_inv_init lock_inv_step turn_inv_step)

lemma never_both: "reachable ready (new uid) s \<Longrightarrow> \<not> (agent_holds s \<and> sim_holds s)"
  by (auto simp: lock_inv_def Let_def dest!: reachable_inv)

lemma rendezvous:
  assumes "reachable ready (new uid) s"
  shows "prefix (seen s) (written s) \<and> length (written s) \<le> length (acted s) + 1 \<and>
         length (acted s) \<le> length (seen s)"
  using reachable_inv [OF assms] by (auto simp: turn_inv_def Let_def)

lemma answers_are_fresh:
  assumes "reachable ready (new uid) s" and "(n, a) \<in> set (reads s)" and "0 < n"
  shows "n \<le> length (acted s) \<and> a = acted s ! (n - 1)"
  using reachable_inv [OF assms(1)] assms(2,3) by (fastforce simp: turn_inv_def Let_def answered_def)

text \<open>Whoever holds the lock can release it: the status error of the C code never occurs.\<close>

lemma agent_release_ok:
  assumes "reachable ready (new uid) s" and "agent_holds s"
  shows "airl_exit (obj s) (mem s) = Inr ((mem s)\<lparr>version := version (mem s) + 1\<rparr>)"
  using reachable_inv [OF assms(1)] assms(2)
  by (auto simp: lock_inv_def Let_def airl_exit_def airl_Release_def ReleaseMemory_def agent_holds_def)

lemma sim_release_ok:
  assumes "reachable ready (new uid) s" and "sim_holds s"
  shows "is_ok (ReleaseMemory (mem s)) \<and> is_ok (ReleaseMemoryRB (mem s))"
  using reachable_inv [OF assms(1)] assms(2)
  by (auto simp: lock_inv_def Let_def ReleaseMemory_def ReleaseMemoryRB_def)

text \<open>A step the agent can take, whatever the state, unless it is waiting for the lock or done.\<close>

lemma agent_not_stuck:
  assumes "reachable ready (new uid) s" and "apc s \<noteq> A_Exit"
  shows "\<exists>t. chan_step ready s t \<and> apc t \<noteq> apc s"
proof (cases "apc s")
  case A_Lock
  with reachable_inv [OF assms(1)] have "lock_free (mem s)"
    by (auto simp: lock_inv_def Let_def agent_holds_def lock_free_def)
  with A_Lock show ?thesis
    using chan_step.lock [of s _ ready] by (auto simp: AcquireMemory_Some_iff)
next
  case A_Release
  then show ?thesis
    using agent_release_ok [OF assms(1)] chan_step.release [of s _ ready]
    by (auto simp: agent_holds_def)
next
  case A_Body
  then show ?thesis using chan_step.body [of s ready "act (mem s)" "env (mem s)"] by auto
next
  case A_Top
  then show ?thesis
    using chan_step.top_go [of s ready] chan_step.top_stop [of s ready]
    by (cases "isFinish (mem s)") auto
next
  case A_Wait
  then show ?thesis
    using chan_step.wait_fin [of s ready] chan_step.wait_go [of s ready]
    by (cases "isFinish (mem s)") auto
next
  case A_Ver
  then show ?thesis
    using chan_step.ver_spin [of s ready] chan_step.ver_go [of s ready]
    by (cases "ready (obj s) (mem s)") auto
next
  case A_Check
  then show ?thesis
    using chan_step.check_none [of s ready] chan_step.check_go [of s ready]
    by (cases "isFinish (mem s)") auto
qed (use assms(2) in simp)

end

section \<open>The two classes provide the interface\<close>

interpretation airl: turn_taking airl_ready airl_init
  by unfold_locales
    (simp_all add: airl_ready_def airl_init_def GetMemoryVersion_def unat_mod_2)

interpretation aidl: turn_taking aidl_ready aidl_init
  by unfold_locales
    (simp_all add: aidl_ready_def aidl_init_def GetMemoryVersion_def unat_mod_2)

section \<open>A run to evaluate the properties on\<close>

text \<open>The simulator publishes an environment, the agent takes its turn and answers.\<close>

definition ex_mem :: "8 word \<Rightarrow> 8 word \<Rightarrow> nat \<Rightarrow> nat \<Rightarrow> (nat, nat) shm" where
  "ex_mem v nv e a = \<lparr>version = v, nextVersion = nv, isFinish = False, env = e, act = a\<rparr>"

definition ex_sys :: "ns3_obj \<Rightarrow> (nat, nat) shm \<Rightarrow> agent_pc \<Rightarrow> sim_pc \<Rightarrow> nat list \<Rightarrow> nat list \<Rightarrow>
    nat list \<Rightarrow> (nat \<times> nat) list \<Rightarrow> (nat, nat) sys" where
  "ex_sys r m ap sp w sn ac rd =
     \<lparr>mem = m, obj = r, apc = ap, spc = sp, written = w, seen = sn, acted = ac, reads = rd\<rparr>"

lemma chan_step_eq: "chan_step ready s t' \<Longrightarrow> t = t' \<Longrightarrow> chan_step ready s t"
  by simp

lemma example_turn:
  fixes R :: "(nat, nat) sys \<Rightarrow> bool"
  assumes start: "R (ex_sys r (ex_mem 0 0 0 0) A_Top S_Run [] [] [] [])"
    and step: "\<And>s t. R s \<Longrightarrow> chan_step rdy s t \<Longrightarrow> R t"
    and rdy: "\<And>m. rdy r m \<longleftrightarrow> odd (version m)" and r: "\<not> finished r"
  shows "R (ex_sys r (ex_mem 1 2 7 0) A_Body S_Run [7] [7] [] [])"
    and "R (ex_sys r (ex_mem 2 2 7 9) A_Top S_Run [7] [7] [9] [(1, 9)])"
proof -
  note defs = ex_sys_def ex_mem_def GetMemoryVersion_def AcquireMemory_def ReleaseMemory_def
    ReleaseMemoryRB_def airl_exit_def airl_Release_def
  have "R (ex_sys r (ex_mem 0 0 0 0) A_Top S_WVer [] [] [] [])"
    by (rule step [OF start]) (rule chan_step_eq [OF chan_step.sim_write], auto simp: defs)
  then have "R (ex_sys r (ex_mem 0 0 0 0) A_Top S_WLock [] [] [] [])"
    by (rule step) (rule chan_step_eq [OF chan_step.sim_wver], auto simp: defs)
  then have "R (ex_sys r (ex_mem 0 1 0 0) A_Top S_Write [] [] [] [])"
    by (rule step) (rule chan_step_eq [OF chan_step.sim_wlock], auto simp: defs)
  then have "R (ex_sys r (ex_mem 0 1 7 0) A_Top S_WRel [] [] [] [])"
    by (rule step) (rule chan_step_eq [OF chan_step.sim_set [where e = 7]], auto simp: defs)
  then have "R (ex_sys r (ex_mem 1 1 7 0) A_Top S_Run [7] [] [] [])"
    by (rule step) (rule chan_step_eq [OF chan_step.sim_wrel], auto simp: defs)
  then have "R (ex_sys r (ex_mem 1 1 7 0) A_Wait S_Run [7] [] [] [])"
    by (rule step) (rule chan_step_eq [OF chan_step.top_go], auto simp: defs)
  then have "R (ex_sys r (ex_mem 1 1 7 0) A_Ver S_Run [7] [] [] [])"
    by (rule step) (rule chan_step_eq [OF chan_step.wait_go], auto simp: defs)
  then have "R (ex_sys r (ex_mem 1 1 7 0) A_Check S_Run [7] [] [] [])"
    by (rule step) (rule chan_step_eq [OF chan_step.ver_go], auto simp: defs rdy)
  then have "R (ex_sys r (ex_mem 1 1 7 0) A_Lock S_Run [7] [] [] [])"
    by (rule step) (rule chan_step_eq [OF chan_step.check_go], auto simp: defs)
  then show body: "R (ex_sys r (ex_mem 1 2 7 0) A_Body S_Run [7] [7] [] [])"
    by (rule step) (rule chan_step_eq [OF chan_step.lock], auto simp: defs)
  have "R (ex_sys r (ex_mem 1 2 7 9) A_Release S_Run [7] [7] [] [])"
    by (rule step [OF body]) (rule chan_step_eq [OF chan_step.body [where e = 7 and a = 9]], auto simp: defs)
  then have "R (ex_sys r (ex_mem 2 2 7 9) A_Top S_Run [7] [7] [9] [])"
    by (rule step) (rule chan_step_eq [OF chan_step.release], auto simp: defs r)
  then have "R (ex_sys r (ex_mem 2 2 7 9) A_Top S_RVer [7] [7] [9] [])"
    by (rule step) (rule chan_step_eq [OF chan_step.sim_read], auto simp: defs)
  then have "R (ex_sys r (ex_mem 2 2 7 9) A_Top S_RLock [7] [7] [9] [])"
    by (rule step) (rule chan_step_eq [OF chan_step.sim_rver], auto simp: defs)
  then have "R (ex_sys r (ex_mem 2 3 7 9) A_Top S_Read [7] [7] [9] [])"
    by (rule step) (rule chan_step_eq [OF chan_step.sim_rlock], auto simp: defs)
  then show "R (ex_sys r (ex_mem 2 2 7 9) A_Top S_Run [7] [7] [9] [(1, 9)])"
    by (rule step) (rule chan_step_eq [OF chan_step.sim_get], auto simp: defs)
qed

lemma airl_ready_default: "airl_ready (airl_init uid) m \<longleftrightarrow> odd (version m)"
  by (rule airl.ready_odd) (simp_all add: airl.new_cond)

lemma aidl_ready_default: "aidl_ready (aidl_init uid) m \<longleftrightarrow> odd (version m)"
  by (rule aidl.ready_odd) (simp_all add: aidl.new_cond)

lemma reachable_ex_start:
  "reachable rdy r (ex_sys r (ex_mem 0 0 0 0) A_Top S_Run [] [] [] [])"
  using reachable.start [of rdy r "0 :: nat" "0 :: nat"]
  by (simp add: init_sys_def ex_sys_def ex_mem_def)

lemmas airl_example =
  example_turn [where rdy = airl_ready and r = "airl_init 1357" and R = "reachable airl_ready (airl_init 1357)",
    OF reachable_ex_start reachable.step airl_ready_default airl.new_unfinished]

lemmas aidl_example =
  example_turn [where rdy = aidl_ready and r = "aidl_init 1357" and R = "reachable aidl_ready (aidl_init 1357)",
    OF reachable_ex_start reachable.step aidl_ready_default aidl.new_unfinished]

section \<open>Properties\<close>

text \<open>
  C1. Mutual exclusion. Whatever the interleaving of the agent's reads with the
  simulator's, the agent is never inside its \<open>with\<close> body while the simulator writes or
  reads the structure, and the two version bytes differ exactly while one of them is.
\<close>

theorem channel_mutual_exclusion:
  assumes "reachable airl_ready (airl_init uid) s"
  shows "\<not> (agent_holds s \<and> sim_holds s) \<and> (lock_free (mem s) \<longleftrightarrow> \<not> agent_holds s \<and> \<not> sim_holds s)"
  using airl.never_both [OF assms] airl.reachable_inv [OF assms]
  by (auto simp: lock_inv_def lock_free_def Let_def)

theorem channel_mutual_exclusion_witness:
  "\<not> sim_holds (ex_sys (airl_init 1357) (ex_mem 1 2 7 0) A_Body S_Run [7] [7] [] [])"
  using channel_mutual_exclusion [OF airl_example(1)] by (simp add: agent_holds_def ex_sys_def)

text \<open>
  C2. No message is lost, duplicated or reordered. The environments the agent acts on
  are, in order, those the simulator published, and the simulator is never more than one
  environment ahead of the agent's answers.
\<close>

theorem channel_rendezvous:
  assumes "reachable airl_ready (airl_init uid) s"
  shows "prefix (seen s) (written s) \<and> length (written s) \<le> length (acted s) + 1 \<and>
         length (acted s) \<le> length (seen s)"
  by (rule airl.rendezvous) (rule assms)

theorem channel_rendezvous_witness:
  "prefix (seen (ex_sys (airl_init 1357) (ex_mem 2 2 7 9) A_Top S_Run [7] [7] [9] [(1, 9)])) [7]"
  using channel_rendezvous [OF airl_example(2)] by (simp add: ex_sys_def)

text \<open>
  C3. The simulator reads fresh answers. An action the simulator reads after publishing
  its n-th environment is the one the agent published for that environment, never an
  earlier one.
\<close>

theorem channel_fresh_answers:
  assumes "reachable airl_ready (airl_init uid) s" and "(n, a) \<in> set (reads s)" and "0 < n"
  shows "n \<le> length (acted s) \<and> a = acted s ! (n - 1)"
  by (rule airl.answers_are_fresh [OF assms])

theorem channel_fresh_answers_witness:
  "1 \<le> length (acted (ex_sys (airl_init 1357) (ex_mem 2 2 7 9) A_Top S_Run [7] [7] [9] [(1, 9)]))"
  using channel_fresh_answers [OF airl_example(2), where n = 1 and a = 9] by (simp add: ex_sys_def)

text \<open>
  C4. The agent neither fails nor gets stuck. Releasing a lock that the agent holds never
  raises the lock-status error and hands the turn over, and until it has left its loop the
  agent can always make a step that changes its program counter.
\<close>

theorem channel_agent_progress:
  assumes "reachable airl_ready (airl_init uid) s" and "apc s \<noteq> A_Exit"
  shows "(\<exists>t. chan_step airl_ready s t \<and> apc t \<noteq> apc s) \<and>
         (agent_holds s \<longrightarrow>
            airl_exit (obj s) (mem s) = Inr ((mem s)\<lparr>version := version (mem s) + 1\<rparr>))"
  using airl.agent_not_stuck [OF assms] airl.agent_release_ok [OF assms(1)] by blast

theorem channel_agent_progress_witness:
  "airl_exit (airl_init 1357) (ex_mem 1 2 7 0) = Inr (ex_mem 2 2 7 0)"
  using channel_agent_progress [OF airl_example(1)]
  by (simp add: agent_holds_def ex_sys_def ex_mem_def)

text \<open>
  The supervised-learning class keeps the same protocol: with Ns3AIDL in the place of
  Ns3AIRL, mutual exclusion and the in-order delivery of environments hold as well.
\<close>

theorem channel_aidl_protocol:
  assumes "reachable aidl_ready (aidl_init uid) s"
  shows "\<not> (agent_holds s \<and> sim_holds s) \<and> prefix (seen s) (written s) \<and>
         length (written s) \<le> length (acted s) + 1"
  using aidl.never_both [OF assms] aidl.rendezvous [OF assms] by simp

theorem channel_aidl_protocol_witness:
  "\<not> sim_holds (ex_sys (aidl_init 1357) (ex_mem 1 2 7 0) A_Body S_Run [7] [7] [] [])"
  using channel_aidl_protocol [OF aidl_example(1)] by (simp add: agent_holds_def ex_sys_def)

text \<open>
  One turn at any version, the wrap from 255 to 0 included. With the lock free and an
  odd version Acquire returns the structure with the lock taken; rolling back restores
  the memory exactly; leaving the block frees the lock at the next, even version, where
  the agent spins until the simulator has published again.
\<close>

theorem airl_turn:
  assumes "lock_free m" and "odd (version m)" and "\<not> isFinish m"
  shows "\<exists>m'. airl_Acquire (airl_init uid) m = Returns_Memory m' \<and> lock_held m' \<and>
              airl_ReleaseAndRollback m' = Inr m \<and>
              (\<exists>m''. airl_exit (airl_init uid) m' = Inr m'' \<and> lock_free m'' \<and>
                     version m'' = version m + 1 \<and> airl_Acquire (airl_init uid) m'' = Spins)"
proof -
  have "nextVersion m = version m" using assms by (simp add: lock_free_def)
  moreover have "\<not> finished (airl_init uid)" by (simp add: airl_init_def)
  ultimately show ?thesis
    using assms
    by (simp add: airl_Acquire_def airl_ready_default airl_isFinish_def AcquireMemory_def lock_held_def
        airl_ReleaseAndRollback_def ReleaseMemoryRB_def airl_exit_def airl_Release_def
        ReleaseMemory_def lock_free_def)
qed

theorem airl_turn_witness:
  "\<exists>m'. airl_Acquire (airl_init 1357) (ex_mem 255 255 3 4) = Returns_Memory m' \<and>
        (\<exists>m''. airl_exit (airl_init 1357) m' = Inr m'' \<and> version m'' = 0)"
proof -
  have h: "lock_free (ex_mem 255 255 3 4)" "odd (version (ex_mem 255 255 3 4))"
    "\<not> isFinish (ex_mem 255 255 3 4)"
    by (simp_all add: ex_mem_def lock_free_def)
  from airl_turn [OF h, of 1357] show ?thesis by (auto simp: ex_mem_def)
qed

end
