(* ===== verification/Layout.thy ===== *)
theory Layout
  imports Prelude
begin

text \<open>
  What both processes must agree on before the channel works: the byte layout of the
  shared structure. The Python side declares it with packed ctypes structures
  (\<open>run*.py\<close>, \<open>py_interface.py\<close>), the simulator with packed C++ structures
  (\<open>MRO-env.h\<close>); the pool (theory Pool) refuses a second registration with another size.
\<close>

section \<open>ctypes\<close>

datatype ctype =
    C_double | C_float | C_int | C_uint32 | C_int64 | C_uint8 | C_bool
  | C_array nat ctype
  | C_struct "(string \<times> ctype) list"

text \<open>The size of a type; structures have \<open>_pack_ = 1\<close>, so there is no padding.\<close>

fun csize :: "ctype \<Rightarrow> nat" where
  "csize C_double = 8"
| "csize C_float = 4"
| "csize C_int = 4"
| "csize C_uint32 = 4"
| "csize C_int64 = 8"
| "csize C_uint8 = 1"
| "csize C_bool = 1"
| "csize (C_array n t) = n * csize t"
| "csize (C_struct fs) = (\<Sum>(_, t) \<leftarrow> fs. csize t)"

definition EmptyInfo :: ctype where
  "EmptyInfo = C_struct [(''unused'', C_uint8)]"

definition airl_StorageType :: "ctype \<Rightarrow> ctype \<Rightarrow> ctype \<Rightarrow> ctype" where
  "airl_StorageType envType actType extInfo =
     C_struct [(''env'', envType), (''act'', actType), (''ext'', extInfo), (''isFinish'', C_bool)]"

definition aidl_StorageType :: "ctype \<Rightarrow> ctype \<Rightarrow> ctype \<Rightarrow> ctype \<Rightarrow> ctype" where
  "aidl_StorageType featureType predictedType targetType extInfo =
     C_struct [(''feat'', featureType), (''pred'', predictedType), (''tar'', targetType),
               (''ext'', extInfo), (''isFinish'', C_bool)]"

section \<open>The structures of the scripts and of the simulator\<close>

definition mlInput_fields :: "(string \<times> ctype) list" where
  "mlInput_fields =
     [(''x'', C_double), (''y'', C_double), (''time'', C_double), (''imsi'', C_int),
      (''cellId'', C_int), (''packetSize'', C_double), (''packetReceiverId'', C_int),
      (''rsrp'', C_double), (''packetRxFlag'', C_int)]"

definition ho_fields :: "(string \<times> ctype) list" where
  "ho_fields = [(''hoInProgress'', C_int), (''hoEnded'', C_int)]"

text \<open>\<open>run.py\<close> to \<open>run4.py\<close> declare nine inputs, \<open>run5.py\<close> to \<open>run11.py\<close> eleven.\<close>

definition run_mlInput :: "nat \<Rightarrow> ctype" where
  "run_mlInput k = C_struct (if k \<le> 4 then mlInput_fields else mlInput_fields @ ho_fields)"

definition run_mlOutput :: "nat \<Rightarrow> ctype" where
  "run_mlOutput k =
     C_struct ((''tttAdjustment'', C_double) # (if k = 11 then [(''hystAdjustment'', C_double)] else []))"

definition run_uid :: "nat \<Rightarrow> nat" where
  "run_uid k = (if k = 11 then 1358 else 1357)"

text \<open>The simulator's side: \<open>MRO-env.h\<close>, registered by \<open>lte-ue-rrc.cc\<close> under 1357.\<close>

definition mroenv_mlInput :: ctype where
  "mroenv_mlInput = C_struct (mlInput_fields @ ho_fields)"

definition mroenv_mlOutput :: ctype where
  "mroenv_mlOutput = C_struct [(''tttAdjustment'', C_double), (''hystAdjustment'', C_double)]"

definition mroenv_uid :: nat where
  "mroenv_uid = 1357"

text \<open>
  The structure that a script registers and that of the simulator have the same size for \<open>run11.py\<close> only, which registers
  it under another id.
\<close>

lemma structures_differ:
  "map (\<lambda>k. csize (airl_StorageType (run_mlInput k) (run_mlOutput k) EmptyInfo)) [1..<12] =
     [66, 66, 66, 66, 74, 74, 74, 74, 74, 74, 82]"
  "csize (airl_StorageType mroenv_mlInput mroenv_mlOutput EmptyInfo) = 82"
  "run_uid k = mroenv_uid \<longleftrightarrow> k \<noteq> 11"
  by (simp_all add: upt_rec airl_StorageType_def run_mlInput_def run_mlOutput_def EmptyInfo_def mroenv_mlInput_def
      mroenv_mlOutput_def mlInput_fields_def ho_fields_def run_uid_def mroenv_uid_def)

end
