(* ===== verification/Pool.thy ===== *)
theory Pool
  imports Prelude "HOL-Library.Word"
begin

text \<open>
  The pool of shared memory (\<open>memory-pool.c\<close>), as several processes use it. At the end of the memory stand a
  header and below it one control block for each registered id. Every process keeps a table of the control blocks that it has
  seen, and reads the new ones when the version of the header has changed. Sizes and offsets are 32-bit words, the
  version and the ids are bit fields of 14 bits. A call of \<open>GetMemory\<close> holds the lock of the header and is one step.
\<close>

section \<open>The shared memory and the processes\<close>

text \<open>Block \<open>0\<close> is the header, which has the flag \<open>ctrlInfo\<close> only; block \<open>n + 1\<close> lies below block \<open>n\<close>.\<close>

record ctrl_block =
  follows :: bool
  block_id :: "14 word"
  block_size :: "32 word"
  block_offset :: "32 word"

record shared_pool =
  ctrl :: "nat \<Rightarrow> ctrl_block"
  ctrlInfoVersion :: "14 word"
  freeMemOffset :: "32 word"

text \<open>The globals of a process\<close>

record attachment =
  gCurCtrlInfo :: nat
  gCurrentVersion :: "16 word"
  gMemoryCtrlInfo :: "14 word \<Rightarrow> nat option"
  gMemoryPoolSize :: "32 word"

definition gConfigLen :: "32 word" where "gConfigLen = 8"
definition gCtrlBlockSize :: "32 word" where "gCtrlBlockSize = 10"
definition MAX_ID :: "16 word" where "MAX_ID = 16384"

section \<open>Operations\<close>

text \<open>The loop over the control blocks that follow; each turn fills one entry of the table or ends.\<close>

function follow_ctrl :: "shared_pool \<Rightarrow> attachment \<Rightarrow> unit result \<times> attachment" where
  "follow_ctrl Q a =
     (if follows (ctrl Q (gCurCtrlInfo a))
      then let n = Suc (gCurCtrlInfo a); a = a\<lparr>gCurCtrlInfo := n\<rparr>; i = block_id (ctrl Q n)
           in if gMemoryCtrlInfo a i \<noteq> None then (Inl RuntimeError, a)
              else follow_ctrl Q (a\<lparr>gMemoryCtrlInfo := (gMemoryCtrlInfo a)(i \<mapsto> n)\<rparr>)
      else (Inr (), a))"
  by pat_completeness auto
termination
proof (relation "measure (\<lambda>(Q, a). card {i. gMemoryCtrlInfo a i = None})", goal_cases)
  case (2 Q a n b i)
  have "{i'. ((gMemoryCtrlInfo a)(i \<mapsto> n)) i' = None} \<subset> {i'. gMemoryCtrlInfo a i' = None}"
    using 2 by (auto split: if_splits)
  then show ?case using 2 by (auto intro!: psubset_card_mono)
qed simp

declare follow_ctrl.simps [simp del]

definition synchronise :: "shared_pool \<Rightarrow> attachment \<Rightarrow> unit result \<times> attachment" where
  "synchronise Q a =
     (if ucast (ctrlInfoVersion Q) \<noteq> gCurrentVersion a
      then case follow_ctrl Q a of
          (Inl e, a) \<Rightarrow> (Inl e, a)
        | (Inr _, a) \<Rightarrow> (Inr (), a\<lparr>gCurrentVersion := ucast (ctrlInfoVersion Q)\<rparr>)
      else (Inr (), a))"


definition pool_full :: "shared_pool \<Rightarrow> attachment \<Rightarrow> 32 word \<Rightarrow> bool" where
  "pool_full Q a nbytes \<longleftrightarrow>
     freeMemOffset Q + nbytes \<ge> gMemoryPoolSize a - gConfigLen - (ucast (ctrlInfoVersion Q) + 1) * gCtrlBlockSize"

definition allocate :: "shared_pool \<Rightarrow> attachment \<Rightarrow> 14 word \<Rightarrow> 32 word \<Rightarrow> shared_pool \<times> attachment" where
  "allocate Q a uid nbytes =
     (let c = gCurCtrlInfo a; n = Suc c; v = ctrlInfoVersion Q + 1
      in (Q\<lparr>ctrl := (ctrl Q)
              (c := (ctrl Q c)\<lparr>follows := True\<rparr>,
               n := \<lparr>follows = False, block_id = uid, block_size = nbytes, block_offset = freeMemOffset Q\<rparr>),
            ctrlInfoVersion := v, freeMemOffset := freeMemOffset Q + nbytes\<rparr>,
          a\<lparr>gCurCtrlInfo := n, gMemoryCtrlInfo := (gMemoryCtrlInfo a)(uid \<mapsto> n), gCurrentVersion := ucast v\<rparr>))"

text \<open>\<open>GetMemory\<close>: the offset of the block, or an error; the process may have read new control blocks in either case.\<close>

definition GetMemory ::
  "shared_pool \<Rightarrow> attachment \<Rightarrow> 16 word \<Rightarrow> 32 word \<Rightarrow> (32 word) result \<times> shared_pool \<times> attachment" where
  "GetMemory Q a uid nbytes =
     (if uid \<ge> MAX_ID then (Inl RuntimeError, Q, a)
      else case synchronise Q a of
          (Inl e, a) \<Rightarrow> (Inl e, Q, a)
        | (Inr _, a) \<Rightarrow>
            (case gMemoryCtrlInfo a (ucast uid) of
               Some n \<Rightarrow> (if nbytes \<noteq> block_size (ctrl Q n) then Inl RuntimeError else Inr (block_offset (ctrl Q n)), Q, a)
             | None \<Rightarrow>
                 if pool_full Q a nbytes then (Inl RuntimeError, Q, a)
                 else let (Q', a) = allocate Q a (ucast uid) nbytes in (Inr (freeMemOffset Q), Q', a)))"

text \<open>\<open>py_regMemory\<close>: a block that can be locked begins with two bytes of versions.\<close>

definition RegisterMemory ::
  "shared_pool \<Rightarrow> attachment \<Rightarrow> 16 word \<Rightarrow> 32 word \<Rightarrow> (32 word) result \<times> shared_pool \<times> attachment" where
  "RegisterMemory Q a uid nbytes =
     (let (r, Q, a) = GetMemory Q a uid (nbytes + 2) in (ebind r (\<lambda>off. Inr (off + 2)), Q, a))"

section \<open>Several processes\<close>




section \<open>The invariant\<close>


primrec used_bytes :: "shared_pool \<Rightarrow> nat \<Rightarrow> nat" where
  "used_bytes Q 0 = 0"
| "used_bytes Q (Suc n) = used_bytes Q n + unat (block_size (ctrl Q (Suc n)))"





lemma used_bytes_cong: "(\<And>m. 1 \<le> m \<Longrightarrow> m \<le> n \<Longrightarrow> ctrl Q m = ctrl R m) \<Longrightarrow> used_bytes Q n = used_bytes R n"
  by (induction n) auto






lemma short_id: "uid < (16384 :: 16 word) \<Longrightarrow> unat (ucast uid :: 14 word) = unat uid"
  by (simp add: unsigned_ucast_eq take_bit_nat_eq_self word_less_nat_alt)










section \<open>Allocation\<close>



text \<open>
  The test of \<open>GetMemory\<close> is not safe for every size: after a block of 92 bytes the sum of \<open>0xFFFFFFFE\<close> bytes wraps
  to 90, the test passes, and the next block overlaps the first.
\<close>

lemma huge_request_granted:
  assumes "freeMemOffset Q = 92" "ctrlInfoVersion Q = 1" "gMemoryPoolSize a = 4096"
  shows "\<not> pool_full Q a 0xFFFFFFFE" "freeMemOffset (fst (allocate Q a uid 0xFFFFFFFE)) = 90"
  using assms by (simp_all add: pool_full_def gConfigLen_def gCtrlBlockSize_def allocate_def Let_def word_le_nat_alt)

end
