(* ===== verification/PyFloat.thy ===== *)
theory PyFloat
  imports Prelude "HOL-Library.Log_Nat"
begin

text \<open>
  Python's numbers. A finite IEEE 754 number is represented by its exact value, a
  rational; an operation of the scripts computes the exact result and rounds it to the
  nearest representable value, ties to even, as the hardware does. The precision and
  the exponent of the least subnormal are parameters: 53 and -1074 give the binary64
  numbers of Python and numpy, 24 and -149 the binary32 numbers of torch.

  Not represented: NaN, the infinities, overflow (no value of the scripts comes near
  \<open>2 ^ 1023\<close>) and the sign of zero.
\<close>

section \<open>Powers of two and binary logarithm\<close>

definition pow2 :: "int \<Rightarrow> rat" where
  "pow2 k = (if 0 \<le> k then 2 ^ nat k else 1 / 2 ^ nat (- k))"

lemma pow2_pos [simp]: "0 < pow2 k"
  by (simp add: pow2_def)

lemma pow2_nonzero [simp]: "pow2 k \<noteq> 0"
  using pow2_pos [of k] by linarith

lemma pow2_0 [simp]: "pow2 0 = 1"
  by (simp add: pow2_def)

lemma pow2_nat: "0 \<le> k \<Longrightarrow> pow2 k = of_int (2 ^ nat k)"
  by (simp add: pow2_def)

lemma pow2_powi: "pow2 k = 2 powi k"
  by (auto simp: pow2_def power_int_def field_simps)

lemma pow2_add: "pow2 (a + b) = pow2 a * pow2 b"
  by (simp add: pow2_powi power_int_add)

lemma pow2_diff: "pow2 (a - b) = pow2 a / pow2 b"
  by (simp add: pow2_powi power_int_diff)

lemma pow2_strict_mono: "a < b \<Longrightarrow> pow2 a < pow2 b"
  unfolding pow2_powi by (rule power_int_strict_increasing) simp_all

lemma pow2_less_iff [simp]: "pow2 a < pow2 b \<longleftrightarrow> a < b"
  by (metis pow2_strict_mono linorder_neqE order_less_asym order_less_irrefl)

lemma pow2_le_iff [simp]: "pow2 a \<le> pow2 b \<longleftrightarrow> a \<le> b"
  by (simp flip: linorder_not_less)

text \<open>\<open>ilog2 x\<close> is the exponent of a positive \<open>x\<close>: \<open>2 ^ ilog2 x \<le> x < 2 ^ (ilog2 x + 1)\<close>.\<close>

definition ilog2 :: "rat \<Rightarrow> int" where
  "ilog2 x = (let (p, q) = quotient_of x; e = bitlen p - bitlen q
              in if pow2 e \<le> x then e else e - 1)"

lemma bitlen_pow2:
  assumes "0 < n"
  shows "pow2 (bitlen n - 1) \<le> of_int n" and "of_int n < pow2 (bitlen n)"
proof -
  have "0 < bitlen n"
    using assms bitlen_nonneg [of n] bitlen_eq_zero_iff [of n] by linarith
  moreover have "2 ^ nat (bitlen n - 1) \<le> n \<and> n < 2 ^ nat (bitlen n)"
    using bitlen_bounds [OF assms] by simp
  ultimately show "pow2 (bitlen n - 1) \<le> of_int n" and "of_int n < pow2 (bitlen n)"
    by (simp_all only: pow2_nat of_int_le_iff of_int_less_iff)
qed

lemma ilog2:
  assumes "0 < x"
  shows "pow2 (ilog2 x) \<le> x" and "x < pow2 (ilog2 x + 1)"
proof -
  obtain p q where pq: "quotient_of x = (p, q)" by fastforce
  have q: "0 < q" using quotient_of_denom_pos [OF pq] .
  have x: "x = of_int p / of_int q" using quotient_of_div [OF pq] .
  have p: "0 < p" using assms q by (simp add: x zero_less_divide_iff)
  define e where "e = bitlen p - bitlen q"
  have "x < pow2 (bitlen p) / pow2 (bitlen q - 1)"
    unfolding x using p q bitlen_pow2 [OF p] bitlen_pow2 [OF q]
    by (intro frac_less) auto
  then have hi: "x < pow2 (e + 1)" by (simp add: e_def flip: pow2_diff) (simp add: algebra_simps)
  have "pow2 (bitlen p - 1) / pow2 (bitlen q) \<le> x"
    unfolding x using p q bitlen_pow2 [OF p] bitlen_pow2 [OF q]
    by (intro frac_le) auto
  then have lo: "pow2 (e - 1) \<le> x" by (simp add: e_def flip: pow2_diff) (simp add: algebra_simps)
  have il: "ilog2 x = (if pow2 e \<le> x then e else e - 1)"
    by (simp add: ilog2_def pq e_def Let_def)
  show "pow2 (ilog2 x) \<le> x" using lo by (simp add: il)
  show "x < pow2 (ilog2 x + 1)" using hi by (simp add: il)
qed

lemma ilog2_mono: "0 < x \<Longrightarrow> x \<le> y \<Longrightarrow> ilog2 x \<le> ilog2 y"
proof -
  assume "0 < x" "x \<le> y"
  then have "pow2 (ilog2 x) < pow2 (ilog2 y + 1)"
    using ilog2(1) [of x] ilog2(2) [of y] by linarith
  then show ?thesis by simp
qed

lemma ilog2_less: "0 < x \<Longrightarrow> x < pow2 k \<Longrightarrow> ilog2 x < k"
proof -
  assume "0 < x" "x < pow2 k"
  then have "pow2 (ilog2 x) < pow2 k" using ilog2(1) [of x] by linarith
  then show ?thesis by simp
qed

section \<open>Rounding to the nearest integer, ties to even\<close>

definition rhe :: "rat \<Rightarrow> int" where
  "rhe x = (let f = \<lfloor>x\<rfloor>; r = x - of_int f in
            if r < 1 / 2 then f else if 1 / 2 < r then f + 1 else if even f then f else f + 1)"

lemma rhe_of_int [simp]: "rhe (of_int n) = n"
  by (simp add: rhe_def)

lemma rhe_floor: "\<lfloor>x\<rfloor> \<le> rhe x" and rhe_floor_1: "rhe x \<le> \<lfloor>x\<rfloor> + 1"
  by (simp_all add: rhe_def Let_def)

lemma rhe_mono: "x \<le> y \<Longrightarrow> rhe x \<le> rhe y"
proof -
  assume xy: "x \<le> y"
  then have fl: "\<lfloor>x\<rfloor> \<le> \<lfloor>y\<rfloor>" by (rule floor_mono)
  show ?thesis
  proof (cases "\<lfloor>x\<rfloor> = \<lfloor>y\<rfloor>")
    case True
    then show ?thesis using xy by (auto simp: rhe_def Let_def)
  next
    case False
    then have "\<lfloor>x\<rfloor> + 1 \<le> \<lfloor>y\<rfloor>" using fl by simp
    then show ?thesis using rhe_floor_1 [of x] rhe_floor [of y] by linarith
  qed
qed

lemma rhe_error: "\<bar>of_int (rhe x) - x\<bar> \<le> 1 / 2"
proof -
  have "of_int \<lfloor>x\<rfloor> \<le> x" and "x < of_int \<lfloor>x\<rfloor> + 1" by linarith+
  then show ?thesis by (auto simp: rhe_def Let_def abs_le_iff)
qed

lemma rhe_minus: "rhe (- x) = - rhe x"
proof (cases "x \<in> \<int>")
  case True
  then obtain n where "x = of_int n" by (elim Ints_cases)
  then show ?thesis using rhe_of_int [of "- n"] by simp
next
  case False
  define f where "f = \<lfloor>x\<rfloor>"
  have "\<lfloor>- x\<rfloor> = - f - 1"
  proof -
    have "x \<noteq> of_int \<lfloor>x\<rfloor>" using False by (metis Ints_of_int)
    then show ?thesis by (simp add: f_def floor_minus ceiling_altdef)
  qed
  then show ?thesis by (auto simp: rhe_def Let_def f_def [symmetric])
qed

lemma rhe_le_of_int: "x \<le> of_int n \<Longrightarrow> rhe x \<le> n"
  using rhe_mono [of x "of_int n"] by simp

lemma rhe_ge_of_int: "of_int n \<le> x \<Longrightarrow> n \<le> rhe x"
  using rhe_mono [of "of_int n" x] by simp

section \<open>Rounding to a floating-point number\<close>

definition quantum :: "int \<Rightarrow> int \<Rightarrow> rat \<Rightarrow> int" where
  "quantum p emin x = max emin (ilog2 x - (p - 1))"

definition fl_prec :: "int \<Rightarrow> int \<Rightarrow> rat \<Rightarrow> rat" where
  "fl_prec p emin x =
     (if x = 0 then 0
      else let k = quantum p emin \<bar>x\<bar> in of_int (rhe (x / pow2 k)) * pow2 k)"

lemma fl_prec_0 [simp]: "fl_prec p emin 0 = 0"
  by (simp add: fl_prec_def)

lemma fl_prec_odd: "fl_prec p emin (- x) = - fl_prec p emin x"
  by (simp add: fl_prec_def Let_def rhe_minus)

lemma fl_prec_pos_eq:
  "0 < x \<Longrightarrow> fl_prec p emin x = of_int (rhe (x / pow2 (quantum p emin x))) * pow2 (quantum p emin x)"
  by (simp add: fl_prec_def Let_def)

lemma fl_prec_nonneg: "0 \<le> x \<Longrightarrow> 0 \<le> fl_prec p emin x"
proof (cases "x = 0")
  case False
  assume "0 \<le> x"
  with False have "0 < x" by simp
  then have "0 \<le> rhe (x / pow2 (quantum p emin x))"
    by (intro rhe_ge_of_int) (simp add: less_imp_le)
  with \<open>0 < x\<close> show ?thesis
    by (simp add: fl_prec_pos_eq less_imp_le)
qed simp

text \<open>Between two powers of two that are not below the last place, rounding stays between them.\<close>

lemma fl_prec_le_pow2:
  assumes "0 < x" and "x < pow2 m" and "quantum p emin x \<le> m"
  shows "fl_prec p emin x \<le> pow2 m"
proof -
  let ?k = "quantum p emin x"
  have "x / pow2 ?k \<le> pow2 (m - ?k)"
    using assms by (simp add: pow2_diff divide_right_mono less_imp_le)
  also have "\<dots> = of_int (2 ^ nat (m - ?k))" using assms by (simp add: pow2_nat)
  finally have "rhe (x / pow2 ?k) \<le> 2 ^ nat (m - ?k)" by (rule rhe_le_of_int)
  then have "(of_int (rhe (x / pow2 ?k)) :: rat) \<le> pow2 (m - ?k)"
    using assms by (simp only: pow2_nat of_int_le_iff)
  then have "of_int (rhe (x / pow2 ?k)) * pow2 ?k \<le> pow2 (m - ?k) * pow2 ?k"
    by (rule mult_right_mono) (simp add: less_imp_le)
  then show ?thesis
    using assms by (simp add: fl_prec_pos_eq flip: pow2_add)
qed

lemma fl_prec_ge_pow2:
  assumes "0 < x" and "pow2 m \<le> x" and "quantum p emin x \<le> m"
  shows "pow2 m \<le> fl_prec p emin x"
proof -
  let ?k = "quantum p emin x"
  have "of_int (2 ^ nat (m - ?k)) = pow2 (m - ?k)" using assms by (simp add: pow2_nat)
  also have "\<dots> \<le> x / pow2 ?k"
    using assms by (simp add: pow2_diff divide_right_mono less_imp_le)
  finally have "2 ^ nat (m - ?k) \<le> rhe (x / pow2 ?k)" by (rule rhe_ge_of_int)
  then have "pow2 (m - ?k) \<le> (of_int (rhe (x / pow2 ?k)) :: rat)"
    using assms by (simp only: pow2_nat of_int_le_iff)
  then have "pow2 (m - ?k) * pow2 ?k \<le> of_int (rhe (x / pow2 ?k)) * pow2 ?k"
    by (rule mult_right_mono) (simp add: less_imp_le)
  then show ?thesis
    using assms by (simp add: fl_prec_pos_eq flip: pow2_add)
qed

lemma fl_prec_mono_pos:
  assumes "0 < p" and "0 < x" and "x \<le> y"
  shows "fl_prec p emin x \<le> fl_prec p emin y"
proof (cases "quantum p emin x = quantum p emin y")
  case True
  have "x / pow2 (quantum p emin y) \<le> y / pow2 (quantum p emin y)"
    using assms by (intro divide_right_mono) (simp_all add: less_imp_le)
  then have "(of_int (rhe (x / pow2 (quantum p emin y))) :: rat)
      \<le> of_int (rhe (y / pow2 (quantum p emin y)))"
    by (simp add: rhe_mono)
  with True assms show ?thesis
    by (simp add: fl_prec_pos_eq mult_right_mono less_imp_le)
next
  case False
  have y: "0 < y" using assms by simp
  have "ilog2 x \<le> ilog2 y" using assms by (intro ilog2_mono) auto
  with False have qy: "quantum p emin y = ilog2 y - (p - 1)" "quantum p emin x < quantum p emin y"
    by (auto simp: quantum_def)
  then have lt: "ilog2 x < ilog2 y" by (simp add: quantum_def)
  have "x < pow2 (ilog2 x + 1)" using assms by (intro ilog2) simp
  also have "\<dots> \<le> pow2 (ilog2 y)" using lt by simp
  finally have "fl_prec p emin x \<le> pow2 (ilog2 y)"
    using qy assms by (intro fl_prec_le_pow2) auto
  also have "\<dots> \<le> fl_prec p emin y"
    using qy y assms ilog2(1) [OF y] by (intro fl_prec_ge_pow2) auto
  finally show ?thesis .
qed

lemma fl_prec_mono:
  assumes "0 < p" and "x \<le> y"
  shows "fl_prec p emin x \<le> fl_prec p emin y"
proof -
  consider "0 < x" | "x \<le> 0" "0 \<le> y" | "y < 0" by linarith
  then show ?thesis
  proof cases
    case 1
    then show ?thesis using assms by (simp add: fl_prec_mono_pos)
  next
    case 2
    then have "fl_prec p emin x \<le> 0"
      using fl_prec_nonneg [of "- x" p emin] by (simp add: fl_prec_odd)
    also have "0 \<le> fl_prec p emin y" using 2 by (simp add: fl_prec_nonneg)
    finally show ?thesis .
  next
    case 3
    then show ?thesis
      using fl_prec_mono_pos [of p "- y" "- x" emin] assms by (simp add: fl_prec_odd)
  qed
qed

text \<open>A number with at most \<open>p\<close> significant bits is its own rounding.\<close>

lemma fl_prec_exact:
  assumes "\<bar>m\<bar> < 2 ^ nat p" and "emin \<le> e" and "0 < p"
  shows "fl_prec p emin (of_int m * pow2 e) = of_int m * pow2 e"
proof (cases "m = 0")
  case False
  let ?x = "of_int m * pow2 e" and ?q = "quantum p emin (of_int \<bar>m\<bar> * pow2 e)"
  have pos: "0 < of_int \<bar>m\<bar> * pow2 e" using False by simp
  have "(of_int \<bar>m\<bar> :: rat) < pow2 p"
    using assms(1,3) by (simp only: pow2_nat of_int_less_iff)
  then have "of_int \<bar>m\<bar> * pow2 e < pow2 (p + e)" by (simp add: pow2_add)
  with pos have "ilog2 (of_int \<bar>m\<bar> * pow2 e) < p + e" by (rule ilog2_less)
  then have qe: "?q \<le> e" using assms(2) by (simp add: quantum_def)
  have "?x / pow2 ?q = of_int m * pow2 (e - ?q)" by (simp add: pow2_diff)
  also have "\<dots> = of_int (m * 2 ^ nat (e - ?q))" using qe by (simp add: pow2_nat)
  finally have "rhe (?x / pow2 ?q) = m * 2 ^ nat (e - ?q)" by (simp only: rhe_of_int)
  moreover have "\<bar>?x\<bar> = of_int \<bar>m\<bar> * pow2 e"
    by (simp add: abs_mult less_imp_le)
  ultimately have "fl_prec p emin ?x = of_int (m * 2 ^ nat (e - ?q)) * pow2 ?q"
    using False by (simp add: fl_prec_def Let_def)
  also have "\<dots> = of_int m * (pow2 (e - ?q) * pow2 ?q)"
    using qe by (simp add: pow2_nat)
  finally show ?thesis by (simp flip: pow2_add)
qed simp

text \<open>Rounding twice is rounding once.\<close>

lemma fl_prec_idem:
  assumes "0 < p"
  shows "fl_prec p emin (fl_prec p emin x) = fl_prec p emin x"
proof -
  have pos: "fl_prec p emin (fl_prec p emin x) = fl_prec p emin x" if x: "0 < x" for x
  proof -
    let ?k = "quantum p emin x" and ?m = "rhe (x / pow2 (quantum p emin x))"
    have k: "emin \<le> ?k" "ilog2 x + 1 - ?k \<le> p" by (auto simp: quantum_def)
    have "x / pow2 ?k < pow2 (ilog2 x + 1 - ?k)"
      using ilog2(2) [OF x] by (simp add: pow2_diff divide_strict_right_mono)
    also have "\<dots> \<le> pow2 p" using k by simp
    also have "\<dots> = of_int (2 ^ nat p)" using assms by (simp add: pow2_nat)
    finally have le: "?m \<le> 2 ^ nat p" by (intro rhe_le_of_int less_imp_le)
    have ge: "0 \<le> ?m" using x by (intro rhe_ge_of_int) (simp add: less_imp_le)
    have eq: "fl_prec p emin x = of_int ?m * pow2 ?k" using x by (rule fl_prec_pos_eq)
    show ?thesis
    proof (cases "?m = 2 ^ nat p")
      case True
      then have "fl_prec p emin x = of_int 1 * pow2 (p + ?k)"
        using assms by (simp add: eq pow2_add pow2_nat)
      moreover have "emin \<le> p + ?k" and "\<bar>1\<bar> < (2 :: int) ^ nat p" using k assms by auto
      ultimately show ?thesis using fl_prec_exact [of 1 p emin "p + ?k"] assms by simp
    next
      case False
      then have "\<bar>?m\<bar> < 2 ^ nat p" using le ge by simp
      then show ?thesis unfolding eq using k assms by (intro fl_prec_exact)
    qed
  qed
  consider "x = 0" | "0 < x" | "0 < - x" by linarith
  then show ?thesis
  proof cases
    case 3
    then have "fl_prec p emin (fl_prec p emin (- x)) = fl_prec p emin (- x)" by (rule pos)
    then show ?thesis by (simp add: fl_prec_odd)
  qed (simp_all add: pos)
qed

section \<open>What the scripts rely on: the rounding interface\<close>

text \<open>
  The clients of the arithmetic use four laws: rounding is monotone, idempotent, odd and
  exact on small integers (a format of \<open>p\<close> bits holds the integers below \<open>2 ^ p\<close>).
\<close>

locale rounding =
  fixes rnd :: "rat \<Rightarrow> rat" and bits :: nat
  assumes rnd_mono: "x \<le> y \<Longrightarrow> rnd x \<le> rnd y"
    and rnd_idem: "rnd (rnd x) = rnd x"
    and rnd_odd: "rnd (- x) = - rnd x"
    and rnd_int: "\<bar>n\<bar> < 2 ^ bits \<Longrightarrow> rnd (of_int n) = of_int n"
begin

lemma rnd_0 [simp]: "rnd 0 = 0"
  using rnd_odd [of 0] by simp

lemma rnd_nonneg: "0 \<le> x \<Longrightarrow> 0 \<le> rnd x"
  using rnd_mono [of 0 x] by simp

lemma rnd_nat: "n < 2 ^ bits \<Longrightarrow> rnd (of_nat n) = of_nat n"
  using rnd_int [of "int n"] by (simp flip: of_nat_power)

lemma rnd_ge_rep: "rnd a = a \<Longrightarrow> a \<le> x \<Longrightarrow> a \<le> rnd x"
  using rnd_mono [of a x] by simp

lemma rnd_le_rep: "rnd a = a \<Longrightarrow> x \<le> a \<Longrightarrow> rnd x \<le> a"
  using rnd_mono [of x a] by simp

text \<open>Scaling a representable number down by a factor of at most one never increases it.\<close>

lemma rnd_shrink:
  assumes "rnd x = x" and "0 \<le> x" and "0 \<le> d" and "d \<le> 1"
  shows "0 \<le> rnd (x * d)" and "rnd (x * d) \<le> x"
proof -
  show "0 \<le> rnd (x * d)" using assms by (intro rnd_nonneg) simp
  have "x * d \<le> x * 1" using assms by (intro mult_left_mono) simp_all
  then show "rnd (x * d) \<le> x" using rnd_mono [of "x * d" x] assms by simp
qed

lemma rnd_quotient_le_1:
  assumes "0 < bits" and "0 < m" and "x \<le> m"
  shows "rnd (x / m) \<le> 1"
proof -
  have "rnd 1 = 1" using rnd_int [of 1] assms by simp
  moreover have "x / m \<le> 1" using assms by simp
  ultimately show ?thesis using rnd_mono [of "x / m" 1] by simp
qed

lemma sorted_map_rnd: "sorted xs \<Longrightarrow> sorted (map rnd xs)"
  by (induction xs) (auto simp: rnd_mono)

end

type_synonym double = rat

definition fl :: "rat \<Rightarrow> double" where
  "fl x = fl_prec 53 (- 1074) x"

definition fl32 :: "rat \<Rightarrow> rat" where
  "fl32 x = fl_prec 24 (- 149) x"

lemma fl_prec_int:
  assumes "\<bar>n\<bar> < 2 ^ nat p" and "0 < p" and "emin \<le> 0"
  shows "fl_prec p emin (of_int n) = of_int n"
  using fl_prec_exact [of n p emin 0] assms by simp

interpretation b64: rounding fl 53
  by unfold_locales (simp_all add: fl_def fl_prec_mono fl_prec_idem fl_prec_odd fl_prec_int)

interpretation b32: rounding fl32 24
  by unfold_locales (simp_all add: fl32_def fl_prec_mono fl_prec_idem fl_prec_odd fl_prec_int)

section \<open>The operations the scripts use\<close>

definition py_add :: "double \<Rightarrow> double \<Rightarrow> double" where
  "py_add x y = fl (x + y)"

definition py_sub :: "double \<Rightarrow> double \<Rightarrow> double" where
  "py_sub x y = fl (x - y)"

definition py_mul :: "double \<Rightarrow> double \<Rightarrow> double" where
  "py_mul x y = fl (x * y)"

definition py_div :: "double \<Rightarrow> double \<Rightarrow> double result" where
  "py_div x y = (if y = 0 then Inl ZeroDivisionError else Inr (fl (x / y)))"

text \<open>
  \<open>round(x, 3)\<close>: CPython rounds the exact value of \<open>x\<close> to three decimals, ties to even,
  and reads the decimal back as the nearest binary64 number.
\<close>

definition py_round3 :: "double \<Rightarrow> double" where
  "py_round3 x = fl (of_int (rhe (x * 1000)) / 1000)"

lemma py_round3_mono: "x \<le> y \<Longrightarrow> py_round3 x \<le> py_round3 y"
  unfolding py_round3_def
  by (intro b64.rnd_mono divide_right_mono) (simp_all add: rhe_mono)

lemma py_round3_rep: "fl (py_round3 x) = py_round3 x"
  by (simp add: py_round3_def b64.rnd_idem)

lemma py_sub_mono: "x \<le> y \<Longrightarrow> py_sub x w \<le> py_sub y w"
  by (simp add: py_sub_def b64.rnd_mono)

lemma py_sub_le: "fl x = x \<Longrightarrow> 0 \<le> w \<Longrightarrow> py_sub x w \<le> x"
  unfolding py_sub_def by (rule b64.rnd_le_rep) simp_all

lemma fl_of_nat: "n < 2 ^ 53 \<Longrightarrow> fl (of_nat n) = of_nat n"
  by (rule b64.rnd_nat)

text \<open>
  The integer part of the rounded quotient of two integers that are small enough is their
  integer quotient: rounding never lifts a quotient to the next integer.
\<close>

lemma power_above:
  assumes "0 < (b :: int)"
  shows "\<exists>k. b \<le> 2 ^ k \<and> 2 ^ k < 2 * b"
proof (cases "b = 1")
  case False
  then have "2 \<le> nat b" using assms by simp
  from ex_power_ivl2 [OF order_refl this]
  obtain n where n: "2 ^ n < nat b" "nat b \<le> 2 ^ (n + 1)" by auto
  have "(2 :: int) ^ n < b"
    using n(1) by (metis of_nat_numeral of_nat_power zless_nat_eq_int_zless)
  moreover have "b \<le> 2 ^ (n + 1)" using n(2) by (metis nat_le_iff of_nat_numeral of_nat_power)
  ultimately show ?thesis by (intro exI [of _ "n + 1"]) simp
qed (auto intro: exI [of _ 0])

lemma floor_fl_div:
  assumes "0 \<le> a" and "0 < b" and "a + b < 2 ^ 51"
  shows "\<lfloor>fl (of_int a / of_int b)\<rfloor> = a div b"
proof -
  define q where "q = a div b"
  let ?x = "of_int a / of_int b :: rat"
  have "b * q + a mod b = a" by (simp add: q_def)
  moreover have "0 \<le> a mod b" "a mod b < b" using assms(2) by simp_all
  ultimately have "b * q \<le> a" "a < b * q + b" by linarith+
  then have q: "0 \<le> q" "b * q \<le> a" "a < b * (q + 1)"
    using assms by (simp_all add: q_def pos_imp_zdiv_nonneg_iff algebra_simps)
  obtain k where k: "b \<le> 2 ^ k" "2 ^ k < 2 * b" using power_above [OF assms(2)] by blast
  define m where "m = (q + 1) * 2 ^ k - 1"
  have "(q + 1) * 2 ^ k \<le> (q + 1) * (2 * b)" using k(2) q(1) by (intro mult_left_mono) simp_all
  also have "\<dots> \<le> 2 * (a + b)" using q(2) by (simp add: algebra_simps)
  finally have m: "m < 2 ^ 53" using assms(3) by (simp add: m_def)
  have "0 < (q + 1) * 2 ^ k" using q(1) by simp
  then have "\<bar>m\<bar> < 2 ^ nat 53" using m unfolding m_def by simp
  moreover have "(2 :: int) ^ k < 2 ^ 52" using k(2) assms by simp
  then have "k < 52" by (rule power_less_imp_less_exp [rotated]) simp
  ultimately have "fl (of_int m * pow2 (- int k)) = of_int m * pow2 (- int k)"
    unfolding fl_def by (intro fl_prec_exact) simp_all
  moreover have "of_int m * pow2 (- int k) = of_int (q + 1) - 1 / 2 ^ k"
    by (simp add: m_def pow2_def field_simps)
  ultimately have rep: "fl (of_int (q + 1) - 1 / 2 ^ k) = of_int (q + 1) - 1 / 2 ^ k" by simp
  have "a \<le> b * (q + 1) - 1" using q(3) by simp
  then have "(of_int a :: rat) \<le> of_int b * of_int (q + 1) - 1"
    by (metis of_int_1 of_int_diff of_int_le_iff of_int_mult)
  then have "?x \<le> of_int (q + 1) - 1 / of_int b" using assms(2) by (simp add: field_simps)
  also have "(of_int b :: rat) \<le> 2 ^ k" using k(1) by (metis of_int_le_iff of_int_numeral of_int_power)
  then have "of_int (q + 1) - 1 / of_int b \<le> of_int (q + 1) - 1 / (2 :: rat) ^ k"
    using assms(2) by (simp add: frac_le)
  finally have le: "fl ?x \<le> of_int (q + 1) - 1 / 2 ^ k" by (rule b64.rnd_le_rep [OF rep])
  have "(0 :: rat) < 1 / 2 ^ k" by simp
  with le have up: "fl ?x < of_int (q + 1)" by linarith
  have "b * q < 2 ^ 51" using q(2) assms by simp
  moreover have "q \<le> b * q" using q(1) assms(2) by (simp add: mult_le_cancel_right1)
  ultimately have "fl (of_int q) = of_int q" using q(1) by (intro b64.rnd_int) simp
  moreover have "(of_int b :: rat) * of_int q \<le> of_int a"
    using q(2) by (metis of_int_le_iff of_int_mult)
  then have "of_int q \<le> ?x" using assms(2) by (simp add: field_simps)
  ultimately have "of_int q \<le> fl ?x" by (rule b64.rnd_ge_rep)
  with up show ?thesis by (simp add: floor_eq_iff q_def)
qed

lemma fl_half:
  assumes "\<bar>n\<bar> < 2 ^ 53"
  shows "fl (of_int n / 2) = of_int n / 2"
proof -
  have "(of_int n :: rat) / 2 = of_int n * pow2 (- 1)" by (simp add: pow2_def)
  then show ?thesis using fl_prec_exact [of n 53 "- 1074" "- 1"] assms by (simp only: fl_def) simp
qed

end
