(* ===== verification/Agent.thy ===== *)
theory Agent
  imports PyFloat
begin

text \<open>
  The learning agent of \<open>DQN.py\<close>: the two networks, the replay memory, the
  epsilon-greedy choice and one learning step. numpy's generator, torch's linear layers
  and its optimiser are not part of the repository: they are the fields of an external
  environment, with what the agent relies on in \<open>ext_ok\<close>.
\<close>

section \<open>The outside: numpy and torch\<close>

text \<open>
  A draw of the generator is identified by its number, so that a run is a function of
  the environment. \<open>linear p x\<close> is the output of a layer with parameters \<open>p\<close>;
  \<open>adam_step\<close> is one \<open>backward\<close> and \<open>step\<close> of a fresh optimiser.
\<close>

record 'p layer =
  in_features :: nat
  out_features :: nat
  params :: 'p

record 'p all_linear =
  h1 :: "'p layer"
  h2 :: "'p layer"
  out :: "'p layer"

record 'p resnet = "'p all_linear" +
  h3 :: "'p layer"
  h4 :: "'p layer"
  h5 :: "'p layer"
  h6 :: "'p layer"

record 'p ext =
  np_random :: "nat \<Rightarrow> double"
  np_choice :: "nat \<Rightarrow> nat \<Rightarrow> nat"
  np_sample :: "nat \<Rightarrow> nat \<Rightarrow> nat \<Rightarrow> nat list"
  linear :: "'p \<Rightarrow> nat \<Rightarrow> double list \<Rightarrow> double list"
  init_params :: "nat \<Rightarrow> nat \<Rightarrow> nat \<Rightarrow> 'p"
  adam_step :: "double \<Rightarrow> 'p all_linear \<Rightarrow> double list list \<Rightarrow> double list list \<Rightarrow>
    'p all_linear \<times> double"

definition ext_ok :: "'p ext \<Rightarrow> bool" where
  "ext_ok E \<longleftrightarrow>
     (\<forall>k n. 0 < n \<longrightarrow> np_choice E k n < n) \<and>
     (\<forall>k n b. 0 < n \<longrightarrow> length (np_sample E k n b) = b \<and> set (np_sample E k n b) \<subseteq> {..<n}) \<and>
     (\<forall>p n x. length (linear E p n x) = n) \<and>
     (\<forall>lr w x y. (let w' = fst (adam_step E lr w x y) in
        in_features (h1 w') = in_features (h1 w) \<and> out_features (h1 w') = out_features (h1 w) \<and>
        in_features (h2 w') = in_features (h2 w) \<and> out_features (h2 w') = out_features (h2 w) \<and>
        in_features (out w') = in_features (out w) \<and> out_features (out w') = out_features (out w)))"

section \<open>Networks\<close>

definition Linear :: "'p ext \<Rightarrow> nat \<Rightarrow> nat \<Rightarrow> nat \<Rightarrow> 'p layer" where
  "Linear E k i n = \<lparr>in_features = i, out_features = n, params = init_params E k i n\<rparr>"

definition apply_layer :: "'p ext \<Rightarrow> 'p layer \<Rightarrow> double list \<Rightarrow> double list result" where
  "apply_layer E l x =
     (if length x \<noteq> in_features l then Inl RuntimeError
      else Inr (linear E (params l) (out_features l) x))"

definition relu :: "double list \<Rightarrow> double list" where
  "relu = map (max 0)"

definition AllLinear :: "'p ext \<Rightarrow> nat \<Rightarrow> nat \<Rightarrow> nat \<Rightarrow> 'p all_linear" where
  "AllLinear E k state_size n_actions =
     \<lparr>h1 = Linear E k state_size 64, h2 = Linear E (k + 1) 64 64, out = Linear E (k + 2) 64 n_actions\<rparr>"

definition AllLinear_forward ::
  "'p ext \<Rightarrow> ('p, 'z) all_linear_scheme \<Rightarrow> double list \<Rightarrow> double list result" where
  "AllLinear_forward E m x =
     ebind (apply_layer E (h1 m) x) (\<lambda>y1.
     ebind (apply_layer E (h2 m) (relu y1)) (\<lambda>y2.
     apply_layer E (out m) (relu y2)))"

text \<open>The residual additions round to binary32.\<close>

definition add32 :: "double list \<Rightarrow> double list \<Rightarrow> double list" where
  "add32 xs ys = map (\<lambda>(x, y). fl32 (x + y)) (zip xs ys)"

definition ResNet :: "'p ext \<Rightarrow> nat \<Rightarrow> nat \<Rightarrow> nat \<Rightarrow> 'p resnet" where
  "ResNet E k state_size n_actions =
     \<lparr>h1 = Linear E k state_size 64, h2 = Linear E (k + 1) 64 64, out = Linear E (k + 6) 64 n_actions,
      h3 = Linear E (k + 2) 64 64, h4 = Linear E (k + 3) 64 64, h5 = Linear E (k + 4) 64 64,
      h6 = Linear E (k + 5) 64 64\<rparr>"

definition ResNet_forward :: "'p ext \<Rightarrow> 'p resnet \<Rightarrow> double list \<Rightarrow> double list result" where
  "ResNet_forward E m x =
     ebind (apply_layer E (h1 m) x) (\<lambda>y1.
     ebind (apply_layer E (h2 m) (relu y1)) (\<lambda>y2. let r2 = relu y2 in
     ebind (apply_layer E (h3 m) r2) (\<lambda>y3.
     ebind (apply_layer E (h4 m) (relu y3)) (\<lambda>y4. let r4 = add32 (relu y4) r2 in
     ebind (apply_layer E (h5 m) r4) (\<lambda>y5.
     ebind (apply_layer E (h6 m) (relu y5)) (\<lambda>y6.
     apply_layer E (out m) (add32 (relu y6) r4)))))))"

definition net_shape :: "nat \<Rightarrow> nat \<Rightarrow> ('p, 'z) all_linear_scheme \<Rightarrow> bool" where
  "net_shape i n m \<longleftrightarrow>
     in_features (h1 m) = i \<and> out_features (h1 m) = in_features (h2 m) \<and>
     out_features (h2 m) = in_features (out m) \<and> out_features (out m) = n"

lemma length_relu [simp]: "length (relu x) = length x"
  by (simp add: relu_def)

lemma length_linear: "ext_ok E \<Longrightarrow> length (linear E p n x) = n"
  by (simp add: ext_ok_def)

lemma net_shape_AllLinear: "net_shape i n (AllLinear E k i n)"
  by (simp add: net_shape_def AllLinear_def Linear_def)

lemma AllLinear_forward_ok:
  assumes "ext_ok E" and "net_shape (length x) n m"
  shows "\<exists>q. AllLinear_forward E m x = Inr q \<and> length q = n"
  using assms by (auto simp: AllLinear_forward_def apply_layer_def net_shape_def length_linear)

lemma AllLinear_forward_mismatch:
  "length x \<noteq> in_features (h1 m) \<Longrightarrow> AllLinear_forward E m x = Inl RuntimeError"
  by (simp add: AllLinear_forward_def apply_layer_def)

lemma adam_step_shape:
  assumes "ext_ok E" and "net_shape i n m"
  shows "net_shape i n (fst (adam_step E lr m x y))"
  using assms by (simp add: ext_ok_def net_shape_def Let_def)

section \<open>torch.argmax and torch.max\<close>

text \<open>The first index of a maximal element.\<close>

fun argmax_from :: "nat \<Rightarrow> double \<Rightarrow> nat \<Rightarrow> double list \<Rightarrow> nat" where
  "argmax_from best b i [] = best"
| "argmax_from best b i (x # xs) =
     (if b < x then argmax_from i x (i + 1) xs else argmax_from best b (i + 1) xs)"

definition torch_argmax :: "double list \<Rightarrow> nat result" where
  "torch_argmax xs = (case xs of [] \<Rightarrow> Inl IndexError | x # ys \<Rightarrow> Inr (argmax_from 0 x 1 ys))"

definition torch_max :: "double list \<Rightarrow> double result" where
  "torch_max xs = (case xs of [] \<Rightarrow> Inl IndexError | x # ys \<Rightarrow> Inr (foldl max x ys))"

lemma argmax_from_bound:
  "best < i \<Longrightarrow> argmax_from best b i xs < i + length xs"
  by (induction best b i xs rule: argmax_from.induct) auto

lemma argmax_from_max:
  assumes "best < length ps" and "ps ! best = b" and "\<forall>p \<in> set ps. p \<le> b"
  shows "argmax_from best b (length ps) xs < length (ps @ xs) \<and>
         (\<forall>p \<in> set (ps @ xs). p \<le> (ps @ xs) ! argmax_from best b (length ps) xs)"
  using assms
proof (induction xs arbitrary: best b ps)
  case Nil
  then show ?case by simp
next
  case (Cons x xs)
  show ?case
  proof (cases "b < x")
    case True
    then have "\<forall>p \<in> set (ps @ [x]). p \<le> x" using Cons.prems(3) by fastforce
    then show ?thesis
      using Cons.IH [of "length ps" "ps @ [x]" x] True by simp
  next
    case False
    then have "\<forall>p \<in> set (ps @ [x]). p \<le> b" using Cons.prems(3) by simp
    then show ?thesis
      using Cons.IH [of best "ps @ [x]" b] Cons.prems False by (simp add: nth_append)
  qed
qed

lemma torch_argmax_max:
  assumes "torch_argmax xs = Inr i"
  shows "i < length xs \<and> (\<forall>x \<in> set xs. x \<le> xs ! i)"
proof (cases xs)
  case (Cons y ys)
  then show ?thesis
    using assms argmax_from_max [of 0 "[y]" y ys] by (auto simp: torch_argmax_def)
qed (use assms in \<open>simp add: torch_argmax_def\<close>)

lemma torch_argmax_ok: "xs \<noteq> [] \<Longrightarrow> \<exists>i. torch_argmax xs = Inr i \<and> i < length xs"
  by (metis list.case(2) neq_Nil_conv torch_argmax_def torch_argmax_max)

lemma torch_max_ok: "xs \<noteq> [] \<Longrightarrow> \<exists>m. torch_max xs = Inr m"
  by (cases xs) (simp_all add: torch_max_def)

section \<open>The replay memory\<close>

text \<open>
  What the agents promise of their memory: a table of \<open>cap\<close> rows, written round robin.
  The client's view is the list of everything stored so far, of which the table holds
  the last \<open>cap\<close> rows.
\<close>

locale replay_memory =
  fixes put :: "'m \<Rightarrow> 'row \<Rightarrow> 'm" and rows :: "'m \<Rightarrow> 'row list"
    and counter :: "'m \<Rightarrow> nat" and cap :: "'m \<Rightarrow> nat"
  assumes put_rows: "length (rows m) = cap m \<Longrightarrow> rows (put m r) = (rows m)[counter m mod cap m := r]"
    and put_counter: "counter (put m r) = Suc (counter m)"
    and put_cap: "cap (put m r) = cap m"
begin

definition holds :: "'m \<Rightarrow> 'row list \<Rightarrow> bool" where
  "holds m h \<longleftrightarrow> 0 < cap m \<and> length (rows m) = cap m \<and> counter m = length h \<and>
     (\<forall>j < length h. length h \<le> j + cap m \<longrightarrow> rows m ! (j mod cap m) = h ! j)"

lemma holds_empty: "0 < cap m \<Longrightarrow> length (rows m) = cap m \<Longrightarrow> counter m = 0 \<Longrightarrow> holds m []"
  by (simp add: holds_def)

lemma mod_distinct_window:
  assumes "j < n" and "n < j + (c :: nat)" and "0 < c"
  shows "j mod c \<noteq> n mod c"
proof
  assume "j mod c = n mod c"
  then have "c dvd n - j" using assms(1) by (metis less_imp_le mod_eq_dvd_iff_nat)
  moreover have "0 < n - j" and "n - j < c" using assms by auto
  ultimately show False by (auto dest: dvd_imp_le)
qed

lemma holds_put:
  assumes "holds m h"
  shows "holds (put m r) (h @ [r])"
proof -
  have len: "length (rows m) = cap m" and c: "0 < cap m" and n: "counter m = length h"
    using assms by (simp_all add: holds_def)
  have "rows (put m r) ! (j mod cap m) = (h @ [r]) ! j"
    if j: "j < Suc (length h)" "Suc (length h) \<le> j + cap m" for j
  proof (cases "j = length h")
    case True
    then show ?thesis using len c n by (simp add: put_rows)
  next
    case False
    then have jl: "j < length h" "length h < j + cap m" using j by auto
    then have "j mod cap m \<noteq> length h mod cap m" using c by (intro mod_distinct_window)
    then show ?thesis using assms jl len n by (simp add: holds_def put_rows nth_append)
  qed
  then show ?thesis
    using len c n by (simp add: holds_def put_rows put_counter put_cap)
qed

lemma holds_foldl: "holds m h \<Longrightarrow> holds (foldl put m rs) (h @ rs)"
proof (induction rs arbitrary: m h)
  case (Cons r rs)
  then show ?case using holds_put [of m h r] Cons.IH [of "put m r" "h @ [r]"] by simp
qed simp

text \<open>A row below the filled part is one of the last \<open>cap\<close> stored.\<close>

lemma holds_recent:
  assumes "holds m h" and "i < min (counter m) (cap m)"
  shows "rows m ! i \<in> set (last_n (cap m) h)"
proof -
  let ?c = "cap m" and ?n = "length h"
  have c: "0 < ?c" and n: "counter m = ?n" using assms by (simp_all add: holds_def)
  have i: "i < ?c" "i < ?n" using assms n by simp_all
  define j where "j = (if ?n \<le> ?c then i else ?n - 1 - (?n - 1 - i) mod ?c)"
  have "j < ?n \<and> ?n \<le> j + ?c \<and> j mod ?c = i"
  proof (cases "?n \<le> ?c")
    case True
    then show ?thesis using i by (simp add: j_def)
  next
    case False
    define k where "k = (?n - 1 - i) mod ?c"
    have k: "k < ?c" "k \<le> ?n - 1 - i" using c by (simp_all add: k_def)
    have "?n - 1 - k = i + (?n - 1 - i - k)" using k i by simp
    moreover have "?c dvd ?n - 1 - i - k" unfolding k_def by (rule dvd_minus_mod)
    ultimately have "(?n - 1 - k) mod ?c = i mod ?c" by (metis mod_add_self2 dvd_def mod_mult_self2)
    moreover have "j = ?n - 1 - k" using False by (simp add: j_def k_def)
    ultimately show ?thesis using k i False by auto
  qed
  then have j: "j < ?n" "?n \<le> j + ?c" "rows m ! i = h ! j"
    using assms(1) by (auto simp: holds_def)
  then have "h ! j = last_n ?c h ! (j - (?n - ?c))" and "j - (?n - ?c) < length (last_n ?c h)"
    by (auto simp: last_n_def)
  with j show ?thesis by (metis nth_mem)
qed

text \<open>Conversely each of them is in the table: the client may sample any of them.\<close>

lemma holds_set:
  assumes "holds m h"
  shows "set (take (min (counter m) (cap m)) (rows m)) = set (last_n (cap m) h)"
proof (intro equalityI subsetI)
  fix r assume "r \<in> set (take (min (counter m) (cap m)) (rows m))"
  then show "r \<in> set (last_n (cap m) h)"
    using holds_recent [OF assms] by (auto simp: in_set_conv_nth)
next
  let ?o = "length h - cap m"
  fix r assume "r \<in> set (last_n (cap m) h)"
  then obtain i where i: "i < length h - ?o" and r: "r = h ! (?o + i)"
    by (auto simp: last_n_def in_set_conv_nth)
  let ?j = "(?o + i) mod cap m"
  have c: "0 < cap m" "length (rows m) = cap m" "counter m = length h"
    using assms by (simp_all add: holds_def)
  have "?o + i < length h" using i by auto
  then have "?j < min (counter m) (cap m)"
    using c by (simp add: le_less_trans [OF mod_less_eq_dividend])
  moreover have "rows m ! ?j = r" using assms i r by (auto simp: holds_def)
  ultimately show "r \<in> set (take (min (counter m) (cap m)) (rows m))"
    using c by (auto simp: in_set_conv_nth)
qed

end

section \<open>The agent\<close>

record 'p dqn =
  state_size :: nat
  n_actions :: nat
  memory_size :: nat
  batch_size :: nat
  learning_rate :: double
  gamma :: double
  epsilon :: double
  epsilon_min :: double
  epsilon_decay :: double
  memory :: "double list list"
  learn_step_counter :: nat
  memory_couter :: nat
  st :: "double list"
  st_next :: "double list"
  count :: nat
  action_index :: nat
  reward :: double
  not_first_trail :: bool
  model :: "'p all_linear"

text \<open>
  The constructor with its default arguments, as the scripts call it. The network's
  initial parameters come from the generator, so the draw number is an argument.
\<close>

definition dqn_init :: "'p ext \<Rightarrow> nat \<Rightarrow> nat \<Rightarrow> nat \<Rightarrow> nat \<Rightarrow> 'p dqn" where
  "dqn_init E k ss na bs =
     \<lparr>state_size = ss, n_actions = na, memory_size = 500, batch_size = bs,
      learning_rate = fl (1 / 100), gamma = fl (9 / 10), epsilon = 1,
      epsilon_min = fl (1 / 100), epsilon_decay = fl (995 / 1000),
      memory = replicate 500 (replicate (ss * 2 + 2) 0),
      learn_step_counter = 0, memory_couter = 0, st = [], st_next = [], count = 0,
      action_index = 0, reward = 0, not_first_trail = False, model = AllLinear E k ss na\<rparr>"

definition decay_epsilon :: "'p dqn \<Rightarrow> 'p dqn" where
  "decay_epsilon d = d\<lparr>epsilon := max (epsilon_min d) (py_mul (epsilon d) (epsilon_decay d))\<rparr>"

text \<open>
  \<open>choose_action\<close> consumes one draw, and a second one when it explores; its result is the
  action's index, the decayed agent and the next draw number.
\<close>

definition choose_action ::
  "'p ext \<Rightarrow> nat \<Rightarrow> 'p dqn \<Rightarrow> double list \<Rightarrow> (nat \<times> 'p dqn \<times> nat) result" where
  "choose_action E k d s =
     (let d' = decay_epsilon d in
      if np_random E k < epsilon d' then
        (if n_actions d' = 0 then Inl ValueError
         else Inr (np_choice E (k + 1) (n_actions d'), d', k + 2))
      else
        ebind (AllLinear_forward E (model d') (map fl32 s)) (\<lambda>q.
        ebind (torch_argmax q) (\<lambda>i. Inr (i, d', k + 1))))"

definition transition :: "double list \<Rightarrow> nat \<Rightarrow> double \<Rightarrow> double list \<Rightarrow> double list" where
  "transition s a r s' = s @ [of_nat a, r] @ s'"

definition dqn_put :: "'p dqn \<Rightarrow> double list \<Rightarrow> 'p dqn" where
  "dqn_put d row =
     d\<lparr>memory := (memory d)[memory_couter d mod memory_size d := row],
       memory_couter := memory_couter d + 1\<rparr>"

definition store_transition ::
  "'p dqn \<Rightarrow> double list \<Rightarrow> nat \<Rightarrow> double \<Rightarrow> double list \<Rightarrow> 'p dqn result" where
  "store_transition d s a r s' =
     (if memory_size d = 0 then Inl ZeroDivisionError
      else if length (transition s a r s') \<noteq> state_size d * 2 + 2 then Inl ValueError
      else Inr (dqn_put d (transition s a r s')))"

text \<open>Mean squared error over a batch, and the training loop over \<open>epochs\<close>.\<close>

fun train :: "'p ext \<Rightarrow> nat \<Rightarrow> double \<Rightarrow> 'p all_linear \<Rightarrow> double list list \<Rightarrow> double list list \<Rightarrow>
    double \<Rightarrow> 'p all_linear \<times> double" where
  "train E 0 lr w x y loss = (w, loss)"
| "train E (Suc n) lr w x y loss =
     (case adam_step E lr w x y of (w', loss') \<Rightarrow> train E n lr w' x y loss')"

text \<open>
  A row of the memory is \<open>[state, action, reward, next state]\<close>. The features are truncated
  to integers before they reach the network (\<open>astype(int)\<close>).
\<close>

definition py_tail :: "nat \<Rightarrow> 'a list \<Rightarrow> 'a list" where
  "py_tail n xs = (if n = 0 then xs else last_n n xs)"

definition row_state :: "'p dqn \<Rightarrow> double list \<Rightarrow> double list" where
  "row_state d row = map (\<lambda>x. fl32 (of_int (trunc x))) (take (state_size d) row)"

definition row_action :: "'p dqn \<Rightarrow> double list \<Rightarrow> int" where
  "row_action d row = trunc (row ! state_size d)"

definition row_reward :: "'p dqn \<Rightarrow> double list \<Rightarrow> double" where
  "row_reward d row = row ! (state_size d + 1)"

definition row_next :: "'p dqn \<Rightarrow> double list \<Rightarrow> double list" where
  "row_next d row = map (\<lambda>x. fl32 (of_int (trunc x))) (py_tail (state_size d) row)"

text \<open>The target of one sampled row: the estimate with the taken action's entry replaced.\<close>

definition q_target :: "'p ext \<Rightarrow> 'p dqn \<Rightarrow> double list \<Rightarrow> double list result" where
  "q_target E d row =
     ebind (AllLinear_forward E (model d) (row_state d row)) (\<lambda>q_eval.
     ebind (AllLinear_forward E (model d) (row_next d row)) (\<lambda>q_next.
     ebind (torch_max q_next) (\<lambda>m.
     (case py_index (length q_eval) (row_action d row) of
        None \<Rightarrow> Inl IndexError
      | Some i \<Rightarrow> Inr (q_eval[i := fl32 (fl32 (row_reward d row) + fl32 (fl32 (gamma d) * m))])))))"

fun q_targets :: "'p ext \<Rightarrow> 'p dqn \<Rightarrow> double list list \<Rightarrow> double list list result" where
  "q_targets E d [] = Inr []"
| "q_targets E d (row # rows) =
     ebind (q_target E d row) (\<lambda>t. ebind (q_targets E d rows) (\<lambda>ts. Inr (t # ts)))"

definition sample_bound :: "'p dqn \<Rightarrow> nat" where
  "sample_bound d = (if memory_size d < memory_couter d then memory_size d else memory_couter d)"

definition learn ::
  "'p ext \<Rightarrow> nat \<Rightarrow> 'p dqn \<Rightarrow> double list \<Rightarrow> ('p dqn \<times> double list \<times> nat) result" where
  "learn E k d loss_val =
     (let d' = d\<lparr>learn_step_counter := learn_step_counter d + 1\<rparr>; n = sample_bound d' in
      if n = 0 \<and> 0 < batch_size d' then Inl ValueError
      else let sample_index = np_sample E k n (batch_size d');
               batch = map (\<lambda>i. memory d' ! i) sample_index in
        ebind (q_targets E d' batch) (\<lambda>ts.
          (case train E 1 (learning_rate d') (model d') (map (row_state d') batch) ts 0 of
             (w, loss) \<Rightarrow> Inr (d'\<lparr>model := w\<rparr>, loss_val @ [loss], k + 1))))"

text \<open>
  Two methods that cannot run: \<open>pretrain_learn\<close> calls \<open>train\<close> without its \<open>loss_val\<close>
  argument, and no constructor creates the \<open>target_model\<close> that
  \<open>repalce_target_parameters\<close> loads into.
\<close>

definition pretrain_learn :: "'p dqn \<Rightarrow> double list \<Rightarrow> 'p dqn result" where
  "pretrain_learn d s =
     (if gamma d = 1 then Inl ZeroDivisionError else Inl TypeError)"

definition repalce_target_parameters :: "'p dqn \<Rightarrow> 'p dqn result" where
  "repalce_target_parameters d = Inl AttributeError"

interpretation dqn: replay_memory dqn_put memory memory_couter memory_size
  by unfold_locales (simp_all add: dqn_put_def)

section \<open>Lemmas on the agent\<close>

definition dqn_wf :: "'p dqn \<Rightarrow> bool" where
  "dqn_wf d \<longleftrightarrow>
     0 < n_actions d \<and> 0 < memory_size d \<and> length (memory d) = memory_size d \<and>
     net_shape (state_size d) (n_actions d) (model d) \<and>
     (\<forall>row \<in> set (memory d). length row = state_size d * 2 + 2) \<and>
     (\<forall>row \<in> set (take (memory_couter d) (memory d)).
        0 \<le> row_action d row \<and> row_action d row < int (n_actions d))"

text \<open>Epsilon stays between its floor and its start, and is always a binary64 number.\<close>

definition epsilon_inv :: "'p dqn \<Rightarrow> bool" where
  "epsilon_inv d \<longleftrightarrow>
     fl (epsilon d) = epsilon d \<and> fl (epsilon_min d) = epsilon_min d \<and>
     0 \<le> epsilon_min d \<and> epsilon_min d \<le> epsilon d \<and> 0 \<le> epsilon_decay d \<and> epsilon_decay d \<le> 1"

lemma decay_epsilon_inv:
  assumes "epsilon_inv d"
  shows "epsilon_inv (decay_epsilon d)" and "epsilon (decay_epsilon d) \<le> epsilon d"
proof -
  have "0 \<le> epsilon d" using assms by (auto simp: epsilon_inv_def)
  then have "py_mul (epsilon d) (epsilon_decay d) \<le> epsilon d"
    using assms unfolding py_mul_def by (intro b64.rnd_shrink) (auto simp: epsilon_inv_def)
  then show "epsilon (decay_epsilon d) \<le> epsilon d"
    using assms by (simp add: decay_epsilon_def epsilon_inv_def)
  show "epsilon_inv (decay_epsilon d)"
    using assms by (auto simp: decay_epsilon_def epsilon_inv_def py_mul_def b64.rnd_idem max_def)
qed

lemma decay_epsilon_frame [frame_simps]:
  "state_size (decay_epsilon d) = state_size d" "n_actions (decay_epsilon d) = n_actions d"
  "model (decay_epsilon d) = model d" "memory (decay_epsilon d) = memory d"
  "memory_size (decay_epsilon d) = memory_size d" "memory_couter (decay_epsilon d) = memory_couter d"
  "epsilon_min (decay_epsilon d) = epsilon_min d" "batch_size (decay_epsilon d) = batch_size d"
  "not_first_trail (decay_epsilon d) = not_first_trail d" "st (decay_epsilon d) = st d"
  "action_index (decay_epsilon d) = action_index d" "reward (decay_epsilon d) = reward d"
  "count (decay_epsilon d) = count d"
  by (simp_all add: decay_epsilon_def)

lemma choose_action_dqn:
  "choose_action E k d s = Inr (i, d', k') \<Longrightarrow> d' = decay_epsilon d"
  by (auto simp: choose_action_def Let_def ebind_Inr_iff split: if_splits)

lemma choose_action_total:
  assumes "ext_ok E" and "0 < n_actions d" and "net_shape (state_size d) (n_actions d) (model d)"
    and "length s = state_size d"
  shows "\<exists>i k'. choose_action E k d s = Inr (i, decay_epsilon d, k') \<and> i < n_actions d"
proof (cases "np_random E k < epsilon (decay_epsilon d)")
  case True
  then show ?thesis
    using assms by (auto simp: choose_action_def Let_def frame_simps ext_ok_def)
next
  case False
  obtain q where q: "AllLinear_forward E (model d) (map fl32 s) = Inr q" "length q = n_actions d"
    using AllLinear_forward_ok [of E "map fl32 s" "n_actions d" "model d"] assms by auto
  then have "q \<noteq> []" using assms(2) by auto
  then obtain i where "torch_argmax q = Inr i" "i < length q"
    using torch_argmax_ok by blast
  with q False show ?thesis
    by (simp add: choose_action_def Let_def frame_simps)
qed

text \<open>Outside its exploration branch the agent picks an action of maximal estimate.\<close>

lemma choose_action_greedy:
  assumes "choose_action E k d s = Inr (i, d', k')" and "\<not> np_random E k < epsilon (decay_epsilon d)"
  shows "\<exists>q. AllLinear_forward E (model d) (map fl32 s) = Inr q \<and> i < length q \<and> (\<forall>x \<in> set q. x \<le> q ! i)"
  using assms
  by (auto simp: choose_action_def Let_def frame_simps ebind_Inr_iff dest!: torch_argmax_max)

lemma length_transition: "length (transition s a r s') = length s + length s' + 2"
  by (simp add: transition_def)

lemma store_transition_Inr:
  "store_transition d s a r s' = Inr d' \<Longrightarrow> d' = dqn_put d (transition s a r s')"
  by (auto simp: store_transition_def split: if_splits)

lemma dqn_put_frame [frame_simps]:
  "state_size (dqn_put d row) = state_size d" "n_actions (dqn_put d row) = n_actions d"
  "model (dqn_put d row) = model d" "epsilon (dqn_put d row) = epsilon d"
  "epsilon_min (dqn_put d row) = epsilon_min d" "epsilon_decay (dqn_put d row) = epsilon_decay d"
  "memory_size (dqn_put d row) = memory_size d" "batch_size (dqn_put d row) = batch_size d"
  "memory_couter (dqn_put d row) = memory_couter d + 1"
  by (simp_all add: dqn_put_def)

lemma row_action_transition:
  "length s = state_size d \<Longrightarrow> row_action d (transition s a r s') = int a"
  by (simp add: row_action_def transition_def nth_append)

lemma row_fields_transition:
  assumes "length s = state_size d" and "length s' = state_size d" and "0 < state_size d"
  shows "row_state d (transition s a r s') = map (\<lambda>x. fl32 (of_int (trunc x))) s"
    and "row_reward d (transition s a r s') = r"
    and "row_next d (transition s a r s') = map (\<lambda>x. fl32 (of_int (trunc x))) s'"
  using assms
  by (simp_all add: row_state_def row_reward_def row_next_def transition_def nth_append
      py_tail_def last_n_def)

lemma row_defs_cong:
  "state_size d' = state_size d \<Longrightarrow> row_state d' = row_state d"
  "state_size d' = state_size d \<Longrightarrow> row_action d' = row_action d"
  "state_size d' = state_size d \<Longrightarrow> row_reward d' = row_reward d"
  "state_size d' = state_size d \<Longrightarrow> row_next d' = row_next d"
  by (simp_all add: row_state_def row_action_def row_reward_def row_next_def fun_eq_iff)

lemma set_take_update:
  assumes "length xs = c" and "x \<in> set (take (n + 1) (xs[n mod c := v]))" and "0 < c"
  shows "x = v \<or> x \<in> set (take n xs)"
proof -
  from assms(2) obtain i where i: "i < n + 1" "i < c" "x = xs[n mod c := v] ! i"
    using assms(1) by (auto simp: in_set_conv_nth)
  show ?thesis
  proof (cases "i = n mod c")
    case True
    then show ?thesis using i assms(1) by simp
  next
    case False
    then have "i < n" using i by (cases "i = n") auto
    moreover have "x = xs ! i" using i(3) False by simp
    ultimately show ?thesis using i(2) assms(1) by (auto simp: in_set_conv_nth)
  qed
qed

lemma store_transition_wf:
  assumes "dqn_wf d" and "length s = state_size d" and "length s' = state_size d" and "a < n_actions d"
  shows "store_transition d s a r s' = Inr (dqn_put d (transition s a r s'))"
    and "dqn_wf (dqn_put d (transition s a r s'))"
proof -
  show "store_transition d s a r s' = Inr (dqn_put d (transition s a r s'))"
    using assms by (simp add: store_transition_def length_transition dqn_wf_def)
  let ?t = "transition s a r s'"
  let ?d = "dqn_put d ?t"
  have "\<forall>row \<in> set (memory ?d). length row = state_size d * 2 + 2"
    using assms by (auto simp: dqn_put_def dqn_wf_def length_transition dest!: set_update_subset_insert [THEN subsetD])
  moreover have "\<forall>row \<in> set (take (memory_couter ?d) (memory ?d)).
      0 \<le> row_action d row \<and> row_action d row < int (n_actions d)"
  proof
    fix row assume "row \<in> set (take (memory_couter ?d) (memory ?d))"
    then have "row = ?t \<or> row \<in> set (take (memory_couter d) (memory d))"
      using assms(1) by (intro set_take_update [of _ "memory_size d"]) (auto simp: dqn_put_def dqn_wf_def)
    then show "0 \<le> row_action d row \<and> row_action d row < int (n_actions d)"
      using assms by (auto simp: dqn_wf_def row_action_transition)
  qed
  ultimately show "dqn_wf ?d"
    using assms row_defs_cong(2) [of ?d d] by (simp add: dqn_wf_def frame_simps) (simp add: dqn_put_def)
qed

section \<open>Learning\<close>

lemma sample_bound_min: "sample_bound d = min (memory_couter d) (memory_size d)"
  by (auto simp: sample_bound_def)

lemma trunc_feature_length [simp]:
  assumes "length row = state_size d * 2 + 2"
  shows "length (row_state d row) = state_size d" and "0 < state_size d \<Longrightarrow> length (row_next d row) = state_size d"
  using assms by (simp_all add: row_state_def row_next_def py_tail_def)

lemma q_target_ok:
  assumes "ext_ok E" and "dqn_wf d" and "0 < state_size d" and "length row = state_size d * 2 + 2"
    and "0 \<le> row_action d row" and "row_action d row < int (n_actions d)"
  obtains q m where "AllLinear_forward E (model d) (row_state d row) = Inr q" and "length q = n_actions d"
    and "q_target E d row = Inr (q[nat (row_action d row) :=
           fl32 (fl32 (row_reward d row) + fl32 (fl32 (gamma d) * m))])"
    and "\<exists>q'. AllLinear_forward E (model d) (row_next d row) = Inr q' \<and> torch_max q' = Inr m"
proof -
  have sh: "net_shape (state_size d) (n_actions d) (model d)" and na: "0 < n_actions d"
    using assms(2) by (simp_all add: dqn_wf_def)
  obtain q where q: "AllLinear_forward E (model d) (row_state d row) = Inr q" "length q = n_actions d"
    using AllLinear_forward_ok [OF assms(1), of "row_state d row" "n_actions d" "model d"] sh assms(4)
    by auto
  obtain q' where q': "AllLinear_forward E (model d) (row_next d row) = Inr q'" "length q' = n_actions d"
    using AllLinear_forward_ok [OF assms(1), of "row_next d row" "n_actions d" "model d"] sh assms(3,4)
    by auto
  have "q' \<noteq> []" using na q'(2) by auto
  then obtain m where m: "torch_max q' = Inr m" using torch_max_ok by blast
  show ?thesis
    by (rule that [OF q]) (use q q' m assms in \<open>auto simp: q_target_def py_index_nonneg\<close>)
qed

lemma q_target_total:
  assumes "ext_ok E" and "dqn_wf d" and "0 < state_size d" and "length row = state_size d * 2 + 2"
    and "0 \<le> row_action d row" and "row_action d row < int (n_actions d)"
  shows "\<exists>t. q_target E d row = Inr t"
  by (rule q_target_ok [OF assms]) blast

lemma q_targets_ok:
  assumes "\<And>row. row \<in> set rows \<Longrightarrow> \<exists>t. q_target E d row = Inr t"
  shows "\<exists>ts. q_targets E d rows = Inr ts \<and> length ts = length rows"
  using assms
proof (induction rows)
  case (Cons row rows)
  then obtain t where "q_target E d row = Inr t" by fastforce
  moreover obtain ts where "q_targets E d rows = Inr ts" "length ts = length rows"
    using Cons by fastforce
  ultimately show ?case by simp
qed simp

lemma dqn_wf_bump: "dqn_wf (d\<lparr>learn_step_counter := n\<rparr>) = dqn_wf d"
  using row_defs_cong(2) [of "d\<lparr>learn_step_counter := n\<rparr>" d] by (simp add: dqn_wf_def)

lemma dqn_wf_model:
  "dqn_wf d \<Longrightarrow> net_shape (state_size d) (n_actions d) w \<Longrightarrow> dqn_wf (d\<lparr>model := w\<rparr>)"
  using row_defs_cong(2) [of "d\<lparr>model := w\<rparr>" d] by (simp add: dqn_wf_def)

lemma sampled_row:
  assumes "dqn_wf d" and "i < sample_bound d"
  shows "memory d ! i \<in> set (take (memory_couter d) (memory d))"
  using assms by (auto simp: sample_bound_min dqn_wf_def in_set_conv_nth)

lemma learn_ok:
  assumes "ext_ok E" and "dqn_wf d" and "0 < state_size d" and "0 < memory_couter d"
  obtains w loss where
    "learn E k d lv = Inr (d\<lparr>learn_step_counter := learn_step_counter d + 1, model := w\<rparr>, lv @ [loss], k + 1)"
    and "dqn_wf (d\<lparr>learn_step_counter := learn_step_counter d + 1, model := w\<rparr>)"
proof -
  let ?d = "d\<lparr>learn_step_counter := learn_step_counter d + 1\<rparr>"
  let ?n = "sample_bound ?d"
  let ?ix = "np_sample E k ?n (batch_size ?d)"
  have wf: "dqn_wf ?d" using assms(2) by (simp add: dqn_wf_bump)
  have n: "0 < ?n" using assms(2,4) by (simp add: sample_bound_min dqn_wf_def)
  have ix: "set ?ix \<subseteq> {..<?n}" using assms(1) n by (simp add: ext_ok_def)
  have "\<exists>t. q_target E ?d (memory ?d ! i) = Inr t" if "i \<in> set ?ix" for i
  proof -
    have row: "memory ?d ! i \<in> set (take (memory_couter ?d) (memory ?d))"
      by (rule sampled_row [OF wf]) (use ix that in auto)
    then have "memory ?d ! i \<in> set (memory ?d)" by (rule in_set_takeD)
    then have "length (memory ?d ! i) = state_size ?d * 2 + 2"
      and "0 \<le> row_action ?d (memory ?d ! i)" and "row_action ?d (memory ?d ! i) < int (n_actions ?d)"
      using wf row by (simp_all add: dqn_wf_def)
    then show ?thesis
      using q_target_total [OF assms(1) wf, of "memory ?d ! i"] assms(3) by simp
  qed
  then obtain ts where ts: "q_targets E ?d (map (\<lambda>i. memory ?d ! i) ?ix) = Inr ts"
    using q_targets_ok [of "map (\<lambda>i. memory ?d ! i) ?ix" E ?d] by auto
  obtain w loss where w: "adam_step E (learning_rate ?d) (model ?d)
      (map (row_state ?d) (map (\<lambda>i. memory ?d ! i) ?ix)) ts = (w, loss)" by (metis surj_pair)
  have "net_shape (state_size d) (n_actions d) (model d)" using assms(2) by (simp add: dqn_wf_def)
  from adam_step_shape [OF assms(1) this, of "learning_rate ?d"
      "map (row_state ?d) (map (\<lambda>i. memory ?d ! i) ?ix)" ts]
  have "net_shape (state_size d) (n_actions d) w"
    using w by simp
  then have "dqn_wf (?d\<lparr>model := w\<rparr>)" using dqn_wf_model [OF wf] by simp
  moreover have "learn E k d lv = Inr (?d\<lparr>model := w\<rparr>, lv @ [loss], k + 1)"
    using n ts w by (simp add: learn_def Let_def)
  ultimately show ?thesis by (intro that [of w loss]) simp_all
qed

lemma learn_empty_memory:
  "memory_couter d = 0 \<Longrightarrow> 0 < batch_size d \<Longrightarrow> learn E k d lv = Inl ValueError"
  by (simp add: learn_def Let_def sample_bound_def)

lemma dqn_init_wf: "0 < na \<Longrightarrow> dqn_wf (dqn_init E k ss na bs)"
  by (simp add: dqn_init_def dqn_wf_def net_shape_AllLinear)

lemma dqn_init_epsilon: "epsilon_inv (dqn_init E k ss na bs)"
proof -
  have "fl (fl (1 / 100)) = fl (1 / 100)" by (simp add: b64.rnd_idem)
  moreover have "fl 1 = 1" using b64.rnd_int [of 1] by simp
  moreover have "0 \<le> fl (1 / 100)" "fl (1 / 100) \<le> 1" "0 \<le> fl (995 / 1000)" "fl (995 / 1000) \<le> 1"
    by code_simp+
  ultimately show ?thesis by (simp add: epsilon_inv_def dqn_init_def)
qed

lemma stores_Inr:
  assumes "block (map (\<lambda>(s, a, r, s') d. store_transition d s a r s') ts) d = Inr d'"
  shows "d' = foldl dqn_put d (map (\<lambda>(s, a, r, s'). transition s a r s') ts)"
  using assms
  by (induction ts arbitrary: d) (auto simp: ebind_Inr_iff dest!: store_transition_Inr)

lemma foldl_put_memory_size [simp]: "memory_size (foldl dqn_put d rs) = memory_size d"
  by (induction rs arbitrary: d) (simp_all add: frame_simps)

section \<open>Properties of the agent\<close>

lemma agent_replay_window_facts:
  assumes "block (map (\<lambda>(s, a, r, s') d. store_transition d s a r s') ts) (dqn_init E k ss na bs) = Inr d"
  shows "memory_couter d = length ts"
    and "set (take (sample_bound d) (memory d)) =
           set (last_n 500 (map (\<lambda>(s, a, r, s'). transition s a r s') ts))"
proof -
  let ?rows = "map (\<lambda>(s, a, r, s'). transition s a r s') ts"
  have d: "d = foldl dqn_put (dqn_init E k ss na bs) ?rows" using stores_Inr [OF assms] .
  have "dqn.holds (dqn_init E k ss na bs) []"
    by (rule dqn.holds_empty) (simp_all add: dqn_init_def)
  then have h: "dqn.holds d ?rows" using dqn.holds_foldl [of _ "[]" ?rows] d by simp
  then show "memory_couter d = length ts" by (simp add: dqn.holds_def)
  have "memory_size d = 500" by (simp add: d) (simp add: dqn_init_def)
  then show "set (take (sample_bound d) (memory d)) = set (last_n 500 ?rows)"
    using dqn.holds_set [OF h] by (simp add: sample_bound_min)
qed

text \<open>
  C6. The replay memory refines a sliding window: after any sequence of
  \<open>store_transition\<close> calls on a fresh agent, the rows \<open>learn\<close> can draw are exactly the last
  500 transitions stored, although the code only keeps a counter and overwrites a table
  round robin.
\<close>

theorem agent_replay_window:
  assumes "block (map (\<lambda>(s, a, r, s') d. store_transition d s a r s') ts) (dqn_init E k ss na bs) = Inr d"
  shows "memory_couter d = length ts \<and>
    set (take (sample_bound d) (memory d)) =
      set (last_n 500 (map (\<lambda>(s, a, r, s'). transition s a r s') ts))"
  using agent_replay_window_facts [OF assms] by simp

definition demo_ext :: "nat ext" where
  "demo_ext =
     \<lparr>np_random = (\<lambda>k. if k mod 2 = 0 then 1 / 2 else 2),
      np_choice = (\<lambda>k n. k mod n),
      np_sample = (\<lambda>k n b. map (\<lambda>i. (k + i) mod n) [0..<b]),
      linear = (\<lambda>p n x. map (\<lambda>j. of_nat ((p + j) mod 5)) [0..<n]),
      init_params = (\<lambda>k i n. k),
      adam_step = (\<lambda>lr w x y. (w\<lparr>out := (out w)\<lparr>params := params (out w) + 1\<rparr>\<rparr>, lr))\<rparr>"

lemma demo_ext_ok: "ext_ok demo_ext"
  by (auto simp: ext_ok_def demo_ext_def)

lemma agent_replay_window_witness:
  "\<exists>d. block (map (\<lambda>(s, a, r, s') d. store_transition d s a r s') [([1], 0, 5, [2]), ([2], 1, 6, [3])])
       (dqn_init demo_ext 0 1 3 1) = Inr d \<and>
     memory_couter d = 2 \<and> set (take (sample_bound d) (memory d)) = {[1, 0, 5, 2], [2, 1, 6, 3]}"
proof -
  let ?ts = "[([1], 0, 5, [2]), ([2], 1, 6, [3])] :: (double list \<times> nat \<times> double \<times> double list) list"
  obtain d where d: "block (map (\<lambda>(s, a, r, s') d. store_transition d s a r s') ?ts)
      (dqn_init demo_ext 0 1 3 1) = Inr d"
    by (simp add: store_transition_def transition_def dqn_init_def dqn_put_def)
  then show ?thesis
    using agent_replay_window [OF d] by (auto simp: transition_def last_n_def)
qed

text \<open>
  C7. \<open>choose_action\<close> never fails on an agent whose network fits its state: the index
  is one of the agent's actions, outside the exploration branch it has the largest
  estimated value, and the call changes the exploration rate only, which stays between its floor
  and its previous value.
\<close>

theorem agent_choose_action:
  assumes "ext_ok E" and "dqn_wf d" and "epsilon_inv d" and "length s = state_size d"
  shows "\<exists>i k'. choose_action E k d s = Inr (i, d\<lparr>epsilon := epsilon (decay_epsilon d)\<rparr>, k') \<and>
      i < n_actions d \<and> k < k' \<and>
      epsilon_min d \<le> epsilon (decay_epsilon d) \<and> epsilon (decay_epsilon d) \<le> epsilon d \<and>
      (epsilon (decay_epsilon d) \<le> np_random E k \<longrightarrow>
         (\<exists>q. AllLinear_forward E (model d) (map fl32 s) = Inr q \<and> (\<forall>x \<in> set q. x \<le> q ! i)))"
proof -
  have "0 < n_actions d" "net_shape (state_size d) (n_actions d) (model d)"
    using assms(2) by (simp_all add: dqn_wf_def)
  then obtain i k' where c: "choose_action E k d s = Inr (i, decay_epsilon d, k')" "i < n_actions d"
    using choose_action_total [OF assms(1) _ _ assms(4)] by blast
  have "d\<lparr>epsilon := epsilon (decay_epsilon d)\<rparr> = decay_epsilon d" by (simp add: decay_epsilon_def)
  moreover have "k < k'"
    using c(1) by (auto simp: choose_action_def Let_def ebind_Inr_iff split: if_splits)
  moreover have "epsilon_min d \<le> epsilon (decay_epsilon d)" by (simp add: decay_epsilon_def)
  moreover have "epsilon (decay_epsilon d) \<le> epsilon d" by (rule decay_epsilon_inv(2) [OF assms(3)])
  ultimately show ?thesis using c choose_action_greedy [OF c(1)] by auto
qed

lemma agent_choose_action_witness:
  "\<exists>i k'. choose_action demo_ext 1 (dqn_init demo_ext 0 2 3 1) [7, 8] =
       Inr (i, (dqn_init demo_ext 0 2 3 1)
         \<lparr>epsilon := epsilon (decay_epsilon (dqn_init demo_ext 0 2 3 1))\<rparr>, k') \<and> i < 3"
  using agent_choose_action [OF demo_ext_ok, where d = "dqn_init demo_ext 0 2 3 1" and s = "[7, 8]" and k = 1]
    dqn_init_wf [of 3 demo_ext 0 2 1] dqn_init_epsilon [of demo_ext 0 2 3 1] by (auto simp: dqn_init_def)

text \<open>
  \<open>learn\<close> is total on an agent that has stored a transition, and raises
  \<open>ValueError\<close> on one that has not (numpy cannot draw from an empty range). When it
  succeeds it appends one loss, draws once, and of the agent changes only the network,
  which keeps its shape, and the step counter.
\<close>

theorem agent_learn_total:
  assumes "ext_ok E" and "dqn_wf d" and "0 < state_size d" and "0 < batch_size d"
  shows "(memory_couter d = 0 \<longrightarrow> learn E k d lv = Inl ValueError) \<and>
    (0 < memory_couter d \<longrightarrow>
      (\<exists>w loss. learn E k d lv =
          Inr (d\<lparr>learn_step_counter := learn_step_counter d + 1, model := w\<rparr>, lv @ [loss], k + 1) \<and>
        net_shape (state_size d) (n_actions d) w))"
proof (intro conjI impI)
  assume "memory_couter d = 0"
  then show "learn E k d lv = Inl ValueError" using assms(4) by (rule learn_empty_memory)
next
  assume "0 < memory_couter d"
  from learn_ok [OF assms(1-3) this]
  obtain w loss where "learn E k d lv =
      Inr (d\<lparr>learn_step_counter := learn_step_counter d + 1, model := w\<rparr>, lv @ [loss], k + 1)"
    and "dqn_wf (d\<lparr>learn_step_counter := learn_step_counter d + 1, model := w\<rparr>)" .
  then show "\<exists>w loss. learn E k d lv =
      Inr (d\<lparr>learn_step_counter := learn_step_counter d + 1, model := w\<rparr>, lv @ [loss], k + 1) \<and>
      net_shape (state_size d) (n_actions d) w" by (auto simp: dqn_wf_def)
qed

lemma agent_learn_total_witness:
  "learn demo_ext 0 (dqn_init demo_ext 0 2 3 1) [] = Inl ValueError"
  using agent_learn_total [OF demo_ext_ok, where d = "dqn_init demo_ext 0 2 3 1" and k = 0 and lv = "[]"]
    dqn_init_wf [of 3 demo_ext 0 2 1] by (simp add: dqn_init_def)

text \<open>
  The temporal-difference target of a stored transition differs from the current
  estimate at the taken action only, where it is the reward plus the discounted best
  estimate of the next state, in binary32. The network sees the features cut to integers,
  so two transitions whose features have the same integer parts train it alike, although
  \<open>choose_action\<close> feeds it the features themselves.
\<close>

theorem agent_td_target:
  assumes "ext_ok E" and "dqn_wf d" and "0 < state_size d"
    and "length s = state_size d" and "length s' = state_size d" and "a < n_actions d"
  shows "\<exists>q q' m. AllLinear_forward E (model d) (map (\<lambda>x. fl32 (of_int (trunc x))) s) = Inr q \<and>
      AllLinear_forward E (model d) (map (\<lambda>x. fl32 (of_int (trunc x))) s') = Inr q' \<and>
      torch_max q' = Inr m \<and>
      q_target E d (transition s a r s') = Inr (q[a := fl32 (fl32 r + fl32 (fl32 (gamma d) * m))])"
proof -
  let ?row = "transition s a r s'"
  have ra: "row_action d ?row = int a" using assms(4) by (rule row_action_transition)
  have len: "length ?row = state_size d * 2 + 2" using assms by (simp add: length_transition)
  show ?thesis
    by (rule q_target_ok [OF assms(1-3) len])
      (use ra assms row_fields_transition [OF assms(4,5,3), of a r] in auto)
qed

lemma agent_td_target_witness:
  "\<exists>q q' m. AllLinear_forward demo_ext (model (dqn_init demo_ext 0 1 3 1))
       (map (\<lambda>x. fl32 (of_int (trunc x))) [5 / 2]) = Inr q \<and>
     AllLinear_forward demo_ext (model (dqn_init demo_ext 0 1 3 1))
       (map (\<lambda>x. fl32 (of_int (trunc x))) [7]) = Inr q' \<and> torch_max q' = Inr m \<and>
     q_target demo_ext (dqn_init demo_ext 0 1 3 1) (transition [5 / 2] 2 4 [7]) =
       Inr (q[2 := fl32 (fl32 4 + fl32 (fl32 (fl (9 / 10)) * m))])"
  using agent_td_target [OF demo_ext_ok, where d = "dqn_init demo_ext 0 1 3 1" and s = "[5 / 2]"
      and s' = "[7]" and a = 2 and r = 4] dqn_init_wf [of 3 demo_ext 0 1 1]
  by (simp add: dqn_init_def)

section \<open>The life of an agent\<close>

text \<open>
  Every agent a script can hold: a fresh one, then any calls with states of the right length and
  actions of the action space, in any order, with any draws.
\<close>

inductive agent_reach :: "'p ext \<Rightarrow> nat \<Rightarrow> nat \<Rightarrow> nat \<Rightarrow> 'p dqn \<Rightarrow> bool" for E ss na bs where
  fresh: "agent_reach E ss na bs (dqn_init E k ss na bs)"
| stored: "agent_reach E ss na bs d \<Longrightarrow> length s = ss \<Longrightarrow> length s' = ss \<Longrightarrow> a < na \<Longrightarrow>
    store_transition d s a r s' = Inr d' \<Longrightarrow> agent_reach E ss na bs d'"
| chosen: "agent_reach E ss na bs d \<Longrightarrow> length s = ss \<Longrightarrow>
    choose_action E k d s = Inr (i, d', k') \<Longrightarrow> agent_reach E ss na bs d'"
| learnt: "agent_reach E ss na bs d \<Longrightarrow> learn E k d lv = Inr (d', lv', k') \<Longrightarrow> agent_reach E ss na bs d'"

definition agent_inv :: "nat \<Rightarrow> nat \<Rightarrow> nat \<Rightarrow> 'p dqn \<Rightarrow> bool" where
  "agent_inv ss na bs d \<longleftrightarrow> dqn_wf d \<and> epsilon_inv d \<and> state_size d = ss \<and> n_actions d = na \<and>
     memory_size d = 500 \<and> batch_size d = bs \<and> epsilon d \<le> 1"

lemma agent_inv_init: "0 < na \<Longrightarrow> agent_inv ss na bs (dqn_init E k ss na bs)"
proof -
  have "fl 1 \<le> 1" using b64.rnd_int [of 1] by simp
  moreover assume "0 < na"
  ultimately show ?thesis
    using dqn_init_wf [of na E k ss bs] dqn_init_epsilon [of E k ss na bs] by (simp add: agent_inv_def dqn_init_def)
qed

lemma choose_action_agent: "choose_action E k d s = Inr (i, d', k') \<Longrightarrow> d' = decay_epsilon d"
  by (auto simp: choose_action_def Let_def ebind_Inr_iff split: if_splits)

lemma dqn_wf_decay: "dqn_wf (decay_epsilon d) = dqn_wf d"
  using row_defs_cong(2) [of "decay_epsilon d" d] by (simp add: dqn_wf_def frame_simps)

lemma agent_inv_choose:
  assumes "agent_inv ss na bs d" and "choose_action E k d s = Inr (i, d', k')"
  shows "agent_inv ss na bs d'"
proof -
  have "d' = decay_epsilon d" using assms(2) by (rule choose_action_agent)
  moreover have "epsilon (decay_epsilon d) \<le> 1"
    using assms(1) decay_epsilon_inv(2) [of d] by (auto simp: agent_inv_def)
  ultimately show ?thesis
    using assms(1) decay_epsilon_inv(1) [of d] by (simp add: agent_inv_def dqn_wf_decay frame_simps)
qed

lemma agent_inv_store:
  assumes "agent_inv ss na bs d" and "length s = ss" and "length s' = ss" and "a < na"
  shows "\<exists>d'. store_transition d s a r s' = Inr d' \<and> agent_inv ss na bs d'"
proof -
  have "dqn_wf d" "length s = state_size d" "length s' = state_size d" "a < n_actions d"
    using assms by (simp_all add: agent_inv_def)
  from store_transition_wf [OF this, of r] show ?thesis
    using assms(1) by (auto simp: agent_inv_def epsilon_inv_def dqn_put_def)
qed

lemma agent_inv_learn:
  assumes "ext_ok E" and "0 < ss" and "0 < bs" and "agent_inv ss na bs d"
  shows "memory_couter d = 0 \<Longrightarrow> learn E k d lv = Inl ValueError"
    and "0 < memory_couter d \<Longrightarrow> \<exists>d' lv' k'. learn E k d lv = Inr (d', lv', k') \<and> agent_inv ss na bs d'"
proof -
  have d: "dqn_wf d" "0 < state_size d" using assms by (simp_all add: agent_inv_def)
  show "memory_couter d = 0 \<Longrightarrow> learn E k d lv = Inl ValueError"
    using assms by (intro learn_empty_memory) (simp_all add: agent_inv_def)
  assume "0 < memory_couter d"
  from learn_ok [OF assms(1) d this, of k lv] obtain w loss where
    "learn E k d lv = Inr (d\<lparr>learn_step_counter := learn_step_counter d + 1, model := w\<rparr>, lv @ [loss], k + 1)"
    "dqn_wf (d\<lparr>learn_step_counter := learn_step_counter d + 1, model := w\<rparr>)" .
  moreover from this(2) have "agent_inv ss na bs (d\<lparr>learn_step_counter := learn_step_counter d + 1, model := w\<rparr>)"
    using assms(4) by (simp add: agent_inv_def epsilon_inv_def)
  ultimately show "\<exists>d' lv' k'. learn E k d lv = Inr (d', lv', k') \<and> agent_inv ss na bs d'" by blast
qed

lemma agent_reach_inv:
  assumes "agent_reach E ss na bs d" and "ext_ok E" and "0 < ss" and "0 < na" and "0 < bs"
  shows "agent_inv ss na bs d"
  using assms(1)
proof induction
  case (fresh k)
  then show ?case using assms(4) by (rule agent_inv_init)
next
  case (stored d s s' a r d')
  show ?case using agent_inv_store [OF stored.IH stored.hyps(2-4), of r] stored.hyps(5) by auto
next
  case (chosen d s k i d' k')
  show ?case by (rule agent_inv_choose [OF chosen.IH chosen.hyps(3)])
next
  case (learnt d k lv d' lv' k')
  show ?case
    using agent_inv_learn [OF assms(2,3,5) learnt.IH, of k lv] learnt.hyps(2) by (cases "memory_couter d") auto
qed

text \<open>
  C17. Type soundness of the agent. Whatever calls with states of the right length and actions of the
  action space an agent has answered, its replay memory has 500 rows of the right width, its network
  the right shape, and its exploration rate lies between its floor and 1; and then no further such
  call fails, except learning before the first transition is stored.
\<close>

theorem agent_well_typed:
  assumes "ext_ok E" and "0 < ss" and "0 < na" and "0 < bs" and "agent_reach E ss na bs d"
  shows "length (memory d) = 500 \<and> (\<forall>row \<in> set (memory d). length row = 2 * ss + 2) \<and>
    net_shape ss na (model d) \<and> epsilon_min d \<le> epsilon d \<and> epsilon d \<le> 1 \<and>
    (\<forall>k s. length s = ss \<longrightarrow> (\<exists>i d' k'. choose_action E k d s = Inr (i, d', k') \<and> i < na)) \<and>
    (\<forall>s a r s'. length s = ss \<and> length s' = ss \<and> a < na \<longrightarrow> (\<exists>d'. store_transition d s a r s' = Inr d')) \<and>
    (\<forall>k lv. (\<exists>x. learn E k d lv = Inr x) \<longleftrightarrow> 0 < memory_couter d)"
proof -
  have inv: "agent_inv ss na bs d" using agent_reach_inv [OF assms(5) assms(1-4)] .
  then have wf: "dqn_wf d" "state_size d = ss" "n_actions d = na" "memory_size d = 500" "epsilon_inv d" "epsilon d \<le> 1"
    by (simp_all add: agent_inv_def)
  then have "length (memory d) = 500" "\<forall>row \<in> set (memory d). length row = 2 * ss + 2" "net_shape ss na (model d)"
    "epsilon_min d \<le> epsilon d"
    by (simp_all add: dqn_wf_def epsilon_inv_def mult.commute)
  moreover have "\<exists>i d' k'. choose_action E k d s = Inr (i, d', k') \<and> i < na" if "length s = ss" for k s
    using choose_action_total [OF assms(1), of d s] wf that by (fastforce simp: dqn_wf_def)
  moreover have "\<exists>d'. store_transition d s a r s' = Inr d'" if "length s = ss" "length s' = ss" "a < na" for s a r s'
    using agent_inv_store [OF inv that, of r] by blast
  moreover have "(\<exists>x. learn E k d lv = Inr x) \<longleftrightarrow> 0 < memory_couter d" for k lv
    using agent_inv_learn [OF assms(1,2,4) inv, of k lv] by (cases "memory_couter d") auto
  ultimately show ?thesis using wf by simp
qed

lemma agent_well_typed_witness:
  "length (memory (dqn_init demo_ext 0 2 3 1)) = 500 \<and>
   (\<exists>i d' k'. choose_action demo_ext 4 (dqn_init demo_ext 0 2 3 1) [7, 8] = Inr (i, d', k') \<and> i < 3)"
proof -
  have "agent_reach demo_ext 2 3 1 (dqn_init demo_ext 0 2 3 1)" by (rule fresh)
  from agent_well_typed [OF demo_ext_ok _ _ _ this] show ?thesis by simp
qed

end
