(* ===== verification/Handover.thy ===== *)
theory Handover
  imports Agent
begin

text \<open>
  The message loop of the handover scripts \<open>run.py\<close>, \<open>run2.py\<close> to \<open>run11.py\<close> of
  \<open>scratch/UW-working\<close>: the global names of a script as a state record, one statement per
  group of source lines, and the loop bodies composed of them in the order of each script.
\<close>

section \<open>Messages of the simulator\<close>

text \<open>The fields of the shared structures \<open>mlInput\<close> and \<open>mlOutput\<close>.\<close>

record env_in =
  env_x :: double
  env_y :: double
  env_time :: double
  env_imsi :: int
  env_cellId :: int
  env_packetSize :: double
  env_packetReceiverId :: int
  env_rsrp :: double
  env_packetRxFlag :: int
  env_hoInProgress :: int
  env_hoEnded :: int

record act_out =
  tttAdjustment :: double
  hystAdjustment :: double

text \<open>
  What the simulator writes before it hands the structure over: each of its calls sets some
  fields and leaves the others as they are.
\<close>

datatype sim_msg =
    LoadIds double int int double
  | TableRead double double
  | HoStarted
  | HoEnded
  | PacketReception double double int

fun deliver :: "sim_msg \<Rightarrow> env_in \<Rightarrow> env_in" where
  "deliver (LoadIds t imsi cell rsrp) e = e\<lparr>env_time := t, env_imsi := imsi, env_cellId := cell, env_rsrp := rsrp\<rparr>"
| "deliver (TableRead px py) e = e\<lparr>env_x := px, env_y := py\<rparr>"
| "deliver HoStarted e = e\<lparr>env_hoInProgress := 1\<rparr>"
| "deliver HoEnded e = e\<lparr>env_hoInProgress := 0, env_hoEnded := 1\<rparr>"
| "deliver (PacketReception t sz rid) e =
     e\<lparr>env_time := t, env_packetSize := sz, env_packetReceiverId := rid, env_packetRxFlag := 1\<rparr>"

section \<open>The names of a script\<close>

text \<open>
  \<open>cur\<close> is the key under which the object bound to \<open>dqn\<close> is stored; it is unbound before
  the first message. The record lists hold times at even and values at odd places.
\<close>

record 'p script =
  all_dqn :: "int \<rightharpoonup> 'p dqn"
  cur :: "int option"
  action :: "double option"
  x_arr :: "double list"
  y_arr :: "double list"
  recievedPacketRecord :: "double list list"
  throughputRecord :: "double list list"
  recievedPacketRecordFull :: "double list list"
  throughputRecordFull :: "double list list"
  each_act :: "double list list"
  dataReceived :: double
  dataReceivedFull :: double
  loss_val :: "double list"
  np_draws :: nat
  torch_draws :: nat
  env :: env_in
  act :: act_out

definition action_space :: "double list" where
  "action_space = [0, 40, 64, 80, 100, 128, 160, 256, 320, 480]"

definition action_space2 :: "double list" where
  "action_space2 = [0, 1, 3, 5, 7, 9]"

definition binWidth :: double where
  "binWidth = fl (1 / 100)"

definition binWidth2 :: double where
  "binWidth2 = 2"

section \<open>The agent of the message\<close>

definition cur_agent :: "'p script \<Rightarrow> 'p dqn result" where
  "cur_agent s =
     (case cur s of
        None \<Rightarrow> Inl (NameError ''dqn'')
      | Some imsi \<Rightarrow> (case all_dqn s imsi of None \<Rightarrow> Inl (NameError ''dqn'') | Some d \<Rightarrow> Inr d))"

definition put_agent :: "'p dqn \<Rightarrow> 'p script \<Rightarrow> 'p script" where
  "put_agent d s = (case cur s of None \<Rightarrow> s | Some imsi \<Rightarrow> s\<lparr>all_dqn := (all_dqn s)(imsi \<mapsto> d)\<rparr>)"

definition select_agent :: "'p ext \<Rightarrow> nat \<Rightarrow> nat \<Rightarrow> 'p script stmt" where
  "select_agent E ss na s =
     (let imsi = env_imsi (env s) in
      case all_dqn s imsi of
        None \<Rightarrow> Inr (s\<lparr>all_dqn := (all_dqn s)(imsi \<mapsto> dqn_init E (torch_draws s) ss na 1),
                      cur := Some imsi, torch_draws := torch_draws s + 3\<rparr>)
      | Some d \<Rightarrow> Inr (s\<lparr>cur := Some imsi\<rparr>))"

section \<open>Features\<close>

definition np_roll :: "double list \<Rightarrow> double list" where
  "np_roll xs = (if xs = [] then [] else last xs # butlast xs)"

definition push :: "double \<Rightarrow> double list \<Rightarrow> double list" where
  "push v xs = (np_roll xs)[0 := v]"

definition push_history :: "'p script stmt" where
  "push_history = assign (\<lambda>s. s\<lparr>x_arr := push (env_x (env s)) (x_arr s),
                               y_arr := push (env_y (env s)) (y_arr s)\<rparr>)"

definition features_hist :: "'p script \<Rightarrow> double list" where
  "features_hist s = x_arr s @ y_arr s @ [536, env_rsrp (env s)]"

definition features_now :: "'p script \<Rightarrow> double list" where
  "features_now s = [env_x (env s), env_y (env s), 536, env_rsrp (env s)]"

definition features_rep :: "'p script \<Rightarrow> double list" where
  "features_rep s = replicate 5 (env_x (env s)) @ replicate 5 (env_y (env s)) @ [536, env_rsrp (env s)]"

section \<open>Learning from the last action, and the next one\<close>

definition not_first :: "'p script \<Rightarrow> bool" where
  "not_first s = (case cur_agent s of Inl _ \<Rightarrow> False | Inr d \<Rightarrow> not_first_trail d)"

definition remember :: "('p script \<Rightarrow> double list) \<Rightarrow> 'p script stmt" where
  "remember f s =
     ebind (cur_agent s) (\<lambda>d. let d1 = d\<lparr>st_next := f s\<rparr> in
     ebind (store_transition d1 (st d1) (action_index d1) (reward d1) (st_next d1)) (\<lambda>d2.
     Inr (put_agent (d2\<lparr>count := count d2 + 1\<rparr>) s)))"

definition pick_action :: "'p ext \<Rightarrow> ('p script \<Rightarrow> double list) \<Rightarrow> 'p script stmt" where
  "pick_action E f s =
     ebind (cur_agent s) (\<lambda>d. let d1 = d\<lparr>st := f s\<rparr> in
     ebind (choose_action E (np_draws s) d1 (st d1)) (\<lambda>(i, d2, k).
     Inr (put_agent (d2\<lparr>action_index := i\<rparr>) (s\<lparr>np_draws := k\<rparr>))))"

definition bind_action :: "'p script stmt" where
  "bind_action s =
     ebind (cur_agent s) (\<lambda>d. ebind (py_nth action_space (int (action_index d))) (\<lambda>a.
     Inr (s\<lparr>action := Some a\<rparr>)))"

definition emit_action :: "'p script stmt" where
  "emit_action s =
     (case action s of None \<Rightarrow> Inl (NameError ''action'')
      | Some a \<Rightarrow> Inr (s\<lparr>act := (act s)\<lparr>tttAdjustment := a\<rparr>\<rparr>))"

definition emit_256 :: "'p script stmt" where
  "emit_256 = assign (\<lambda>s. s\<lparr>act := (act s)\<lparr>tttAdjustment := 256\<rparr>\<rparr>)"

text \<open>The two actions an index of \<open>run11.py\<close> stands for.\<close>

definition ttt_of :: "nat \<Rightarrow> double result" where
  "ttt_of i = py_nth action_space (int (i mod length action_space))"

definition hyst_of :: "nat \<Rightarrow> double result" where
  "hyst_of i =
     ebind (py_div (of_nat i) (of_nat (length action_space))) (\<lambda>q. py_nth action_space2 (trunc q))"

definition emit_pair :: "'p script stmt" where
  "emit_pair s =
     ebind (cur_agent s) (\<lambda>d.
     ebind (ttt_of (action_index d)) (\<lambda>t.
     ebind (hyst_of (action_index d)) (\<lambda>h.
     Inr (s\<lparr>act := \<lparr>tttAdjustment = t, hystAdjustment = h\<rparr>\<rparr>))))"

definition mark_trail :: "'p script stmt" where
  "mark_trail s = ebind (cur_agent s) (\<lambda>d. Inr (put_agent (d\<lparr>not_first_trail := True\<rparr>) s))"

definition learn_now :: "'p ext \<Rightarrow> 'p script stmt" where
  "learn_now E s =
     ebind (cur_agent s) (\<lambda>d. ebind (learn E (np_draws s) d (loss_val s)) (\<lambda>(d', lv, k).
     Inr (put_agent d' (s\<lparr>loss_val := lv, np_draws := k\<rparr>))))"

definition learn_due :: "'p script \<Rightarrow> bool" where
  "learn_due s = (case cur_agent s of Inl _ \<Rightarrow> False | Inr d \<Rightarrow> 200 < count d \<and> count d mod 20 = 0)"

section \<open>Throughput accounting\<close>

definition push_at :: "int \<Rightarrow> double \<Rightarrow> double list list \<Rightarrow> double list list result" where
  "push_at i v xss =
     (case py_index (length xss) i of
        None \<Rightarrow> Inl IndexError
      | Some k \<Rightarrow> Inr (xss[k := xss ! k @ [v]]))"

definition slot :: "env_in \<Rightarrow> int" where
  "slot e = 2 * (env_packetReceiverId e - 1)"

definition now3 :: "env_in \<Rightarrow> double" where
  "now3 e = py_round3 (env_time e)"

text \<open>
  The moving window: from the newest entry backwards, add up the bytes until the first entry
  older than the window.
\<close>

fun window_loop :: "double list \<Rightarrow> double list \<Rightarrow> double \<Rightarrow> nat \<Rightarrow> double \<Rightarrow> double result" where
  "window_loop tms bytes since 0 acc = Inr acc"
| "window_loop tms bytes since (Suc i) acc =
     (if since \<le> tms ! i then
        (if i < length bytes then window_loop tms bytes since i (acc + bytes ! i) else Inl IndexError)
      else Inr acc)"

definition window_sum :: "double \<Rightarrow> env_in \<Rightarrow> double list list \<Rightarrow> double result" where
  "window_sum width e rcd =
     ebind (py_nth rcd (slot e)) (\<lambda>tms.
     ebind (py_nth rcd (slot e + 1)) (\<lambda>bytes.
     window_loop tms bytes (py_sub (now3 e) width) (length tms) 0))"

definition rx_append :: "'p script stmt" where
  "rx_append s =
     (let e = env s in
      ebind (push_at (slot e) (now3 e) (recievedPacketRecord s)) (\<lambda>r1.
      ebind (push_at (slot e + 1) 536 r1) (\<lambda>r2.
      ebind (push_at (slot e) (now3 e) (throughputRecord s)) (\<lambda>t1.
      Inr (s\<lparr>recievedPacketRecord := r2, throughputRecord := t1\<rparr>)))))"

definition rx_window :: "double \<Rightarrow> 'p script stmt" where
  "rx_window width s =
     ebind (window_sum width (env s) (recievedPacketRecord s)) (\<lambda>d. Inr (s\<lparr>dataReceived := d\<rparr>))"

definition rx_throughput :: "double \<Rightarrow> 'p script stmt" where
  "rx_throughput width s =
     ebind (py_div (dataReceived s) width) (\<lambda>v.
     ebind (push_at (slot (env s) + 1) v (throughputRecord s)) (\<lambda>t.
     Inr (s\<lparr>throughputRecord := t\<rparr>)))"

definition rx_append_full :: "'p script stmt" where
  "rx_append_full s =
     (let e = env s in
      ebind (push_at (slot e) (now3 e) (recievedPacketRecordFull s)) (\<lambda>r1.
      ebind (push_at (slot e + 1) 536 r1) (\<lambda>r2.
      ebind (push_at (slot e) (now3 e) (throughputRecordFull s)) (\<lambda>t1.
      Inr (s\<lparr>recievedPacketRecordFull := r2, throughputRecordFull := t1\<rparr>)))))"

definition rx_window_full :: "double \<Rightarrow> 'p script stmt" where
  "rx_window_full width s =
     ebind (window_sum width (env s) (recievedPacketRecordFull s)) (\<lambda>d. Inr (s\<lparr>dataReceivedFull := d\<rparr>))"

definition rx_throughput_full :: "double \<Rightarrow> 'p script stmt" where
  "rx_throughput_full width s =
     ebind (py_div (dataReceivedFull s) width) (\<lambda>v.
     ebind (push_at (slot (env s) + 1) v (throughputRecordFull s)) (\<lambda>t.
     Inr (s\<lparr>throughputRecordFull := t\<rparr>)))"

text \<open>\<open>run10.py\<close> takes the reward's window from the full record.\<close>

definition rx_append_tput :: "'p script stmt" where
  "rx_append_tput s =
     ebind (push_at (slot (env s)) (now3 (env s)) (throughputRecord s)) (\<lambda>t1.
     Inr (s\<lparr>throughputRecord := t1\<rparr>))"

definition rx_window_from_full :: "double \<Rightarrow> 'p script stmt" where
  "rx_window_from_full width s =
     ebind (window_sum width (env s) (recievedPacketRecordFull s)) (\<lambda>d. Inr (s\<lparr>dataReceived := d\<rparr>))"

definition clear_rx :: "'p script stmt" where
  "clear_rx = assign (\<lambda>s. s\<lparr>env := (env s)\<lparr>env_packetRxFlag := 0\<rparr>\<rparr>)"

definition clear_ho :: "'p script stmt" where
  "clear_ho = assign (\<lambda>s. s\<lparr>env := (env s)\<lparr>env_hoEnded := 0\<rparr>\<rparr>)"

definition set_reward :: "double \<Rightarrow> 'p script stmt" where
  "set_reward width s =
     ebind (cur_agent s) (\<lambda>d. ebind (py_div (dataReceived s) width) (\<lambda>v.
     Inr (put_agent (d\<lparr>reward := v\<rparr>) s)))"

definition log_value :: "double \<Rightarrow> 'p script stmt" where
  "log_value v s =
     ebind (push_at (slot (env s)) (now3 (env s)) (each_act s)) (\<lambda>a1.
     ebind (push_at (slot (env s) + 1) v a1) (\<lambda>a2. Inr (s\<lparr>each_act := a2\<rparr>)))"

definition log_action :: "'p script stmt" where
  "log_action s = (case action s of None \<Rightarrow> Inl (NameError ''action'') | Some a \<Rightarrow> log_value a s)"

definition log_index :: "'p script stmt" where
  "log_index s = ebind (cur_agent s) (\<lambda>d. log_value (of_nat (action_index d)) s)"

definition rx_flag :: "'p script \<Rightarrow> bool" where
  "rx_flag s = (env_packetRxFlag (env s) = 1)"

definition in_handover :: "'p script \<Rightarrow> bool" where
  "in_handover s = (env_hoInProgress (env s) = 1)"

definition ho_ended :: "'p script \<Rightarrow> bool" where
  "ho_ended s = (env_hoEnded (env s) = 1)"

section \<open>The loop bodies\<close>

definition rx_always :: "'p script stmt list" where
  "rx_always = [rx_append, rx_window binWidth, rx_throughput binWidth, clear_rx, set_reward binWidth, log_action]"

definition rx_full :: "'p script stmt list" where
  "rx_full = [rx_append_full, rx_window_full binWidth, rx_throughput_full binWidth, clear_rx]"

definition rx_handover :: "'p script stmt \<Rightarrow> 'p script stmt list" where
  "rx_handover logger = [rx_append, rx_window binWidth, rx_throughput binWidth, set_reward binWidth, logger]"

definition run_body :: "'p ext \<Rightarrow> 'p script stmt" where
  "run_body E = block
     [select_agent E 12 (length action_space), push_history,
      py_if not_first [remember features_hist],
      pick_action E features_hist, bind_action, emit_action, mark_trail,
      py_if rx_flag rx_always,
      py_if learn_due [learn_now E]]"

definition run2_body :: "'p ext \<Rightarrow> 'p script stmt" where
  "run2_body E = block
     [select_agent E 12 (length action_space),
      py_if not_first [remember features_rep],
      pick_action E features_rep, bind_action, emit_action, mark_trail,
      py_if rx_flag rx_always,
      py_if learn_due [learn_now E]]"

definition run3_body :: "'p ext \<Rightarrow> 'p script stmt" where
  "run3_body E = block
     [select_agent E 4 (length action_space),
      py_if not_first [remember features_now],
      pick_action E features_now, bind_action, emit_action, mark_trail,
      py_if rx_flag rx_always,
      py_if learn_due [learn_now E]]"

definition run4_body :: "'p ext \<Rightarrow> 'p script stmt" where
  "run4_body E = block
     [select_agent E 4 (length action_space),
      py_if not_first [remember features_now],
      pick_action E features_now, bind_action, emit_action, mark_trail,
      py_if rx_flag rx_always]"

definition run5_body :: "'p ext \<Rightarrow> 'p script stmt" where
  "run5_body E = block
     [select_agent E 4 (length action_space),
      py_if in_handover
        [py_if not_first [remember features_now],
         pick_action E features_now, bind_action, emit_action, mark_trail],
      py_if rx_flag (rx_full @ [py_if in_handover (rx_handover log_action)]),
      py_if ho_ended [clear_ho]]"

definition run6_body :: "'p ext \<Rightarrow> 'p script stmt" where
  "run6_body E = block
     [select_agent E 4 (length action_space),
      py_if in_handover
        [py_if not_first [remember features_now],
         pick_action E features_now, bind_action, emit_action, mark_trail,
         py_if rx_flag rx_always],
      py_if ho_ended [learn_now E, clear_ho]]"

definition run7_body :: "'p ext \<Rightarrow> 'p script stmt" where
  "run7_body E = block
     [select_agent E 22 (length action_space),
      py_if in_handover
        [push_history,
         py_if not_first [remember features_hist],
         pick_action E features_hist, bind_action, emit_action, mark_trail],
      py_if rx_flag (rx_full @ [py_if in_handover (rx_handover log_action)]),
      py_if ho_ended [learn_now E, clear_ho]]"

definition run8_body :: "'p ext \<Rightarrow> 'p script stmt" where
  "run8_body E = block
     [select_agent E 4 (length action_space),
      py_if not_first [remember features_now],
      pick_action E features_now, bind_action, emit_256, mark_trail,
      py_if rx_flag rx_always,
      py_if ho_ended [learn_now E, clear_ho]]"

definition run9_body :: "'p ext \<Rightarrow> 'p script stmt" where
  "run9_body E = block
     [select_agent E 4 (length action_space), push_history,
      py_if not_first [remember features_now],
      pick_action E features_now, bind_action, emit_256, mark_trail,
      py_if rx_flag rx_always,
      py_if ho_ended [learn_now E, clear_ho]]"

definition run10_body :: "'p ext \<Rightarrow> 'p script stmt" where
  "run10_body E = block
     [select_agent E 12 (length action_space),
      py_if in_handover
        [push_history,
         py_if not_first [remember features_hist],
         pick_action E features_hist, bind_action, emit_action, mark_trail],
      py_if rx_flag (rx_full @
        [py_if in_handover
           [rx_append_tput, rx_window_from_full binWidth2, rx_throughput binWidth2,
            set_reward binWidth2, log_action]]),
      py_if ho_ended [learn_now E, clear_ho]]"

definition run11_body :: "'p ext \<Rightarrow> 'p script stmt" where
  "run11_body E = block
     [select_agent E 4 (length action_space * length action_space2),
      py_if in_handover
        [push_history,
         py_if not_first [remember features_hist],
         pick_action E features_hist, emit_pair, mark_trail],
      py_if rx_flag (rx_full @ [py_if in_handover (rx_handover log_index)]),
      py_if ho_ended [learn_now E, clear_ho]]"

section \<open>Indices of the record lists\<close>

text \<open>
  A receiver id from \<open>1 - N\<close> to \<open>N\<close> names one of the \<open>N\<close> pairs of lists: a positive id its own
  pair, the others, through Python's negative indices, a pair counted from the end.
\<close>

definition id_ok :: "nat \<Rightarrow> env_in \<Rightarrow> bool" where
  "id_ok N e \<longleftrightarrow> 1 - int N \<le> env_packetReceiverId e \<and> env_packetReceiverId e \<le> int N"

definition ue :: "nat \<Rightarrow> env_in \<Rightarrow> nat" where
  "ue N e = nat ((env_packetReceiverId e - 1) mod int N)"

lemma slot_index:
  assumes "id_ok N e"
  shows "ue N e < N" and "py_index (2 * N) (slot e) = Some (2 * ue N e)"
    and "py_index (2 * N) (slot e + 1) = Some (2 * ue N e + 1)"
proof -
  let ?i = "env_packetReceiverId e - 1"
  have b: "- int N \<le> ?i" "?i < int N" using assms by (simp_all add: id_ok_def)
  then have N: "0 < int N" by linarith
  then show "ue N e < N" unfolding ue_def by (simp add: nat_less_iff)
  have "?i mod int N = (if 0 \<le> ?i then ?i else ?i + int N)"
    using b N mod_pos_pos_trivial [of "?i + int N" "int N"] by (auto simp: mod_pos_pos_trivial)
  then have u: "int (ue N e) = (if 0 \<le> ?i then ?i else ?i + int N)"
    using N b by (simp add: ue_def)
  then show "py_index (2 * N) (slot e) = Some (2 * ue N e)"
    using b by (auto simp: py_index_def slot_def split: if_splits)
  show "py_index (2 * N) (slot e + 1) = Some (2 * ue N e + 1)"
    using b u by (auto simp: py_index_def slot_def split: if_splits)
qed

lemma slot_index_out:
  assumes "\<not> id_ok N e"
  shows "py_index (2 * N) (slot e) = None"
  using assms by (auto simp: py_index_None_iff slot_def id_ok_def)

lemma ue_positive: "1 \<le> env_packetReceiverId e \<Longrightarrow> env_packetReceiverId e \<le> int N \<Longrightarrow>
    ue N e = nat (env_packetReceiverId e - 1)"
  by (simp add: ue_def)

lemma push_at_ok:
  "py_index (length xss) i = Some k \<Longrightarrow> push_at i v xss = Inr (xss[k := xss ! k @ [v]])"
  by (simp add: push_at_def)

definition aligned :: "nat \<Rightarrow> double list list \<Rightarrow> bool" where
  "aligned N r \<longleftrightarrow> length r = 2 * N \<and> (\<forall>j < N. length (r ! (2 * j)) = length (r ! (2 * j + 1)))"

definition add_pair :: "nat \<Rightarrow> double \<Rightarrow> double \<Rightarrow> double list list \<Rightarrow> double list list" where
  "add_pair j t v r = r[2 * j := r ! (2 * j) @ [t], 2 * j + 1 := r ! (2 * j + 1) @ [v]]"

lemma add_pair_aligned: "aligned N r \<Longrightarrow> j < N \<Longrightarrow> aligned N (add_pair j t v r)"
  by (auto simp: aligned_def add_pair_def nth_list_update)

lemma add_pair_length [simp]: "length (add_pair j t v r) = length r"
  by (simp add: add_pair_def)

lemma add_pair_nth:
  assumes "length r = 2 * N" and "j < N"
  shows "add_pair j t v r ! (2 * j) = r ! (2 * j) @ [t]"
    and "add_pair j t v r ! (2 * j + 1) = r ! (2 * j + 1) @ [v]"
    and "i \<noteq> 2 * j \<Longrightarrow> i \<noteq> 2 * j + 1 \<Longrightarrow> add_pair j t v r ! i = r ! i"
  using assms by (simp_all add: add_pair_def nth_list_update)

lemma push_pair:
  assumes "length r = 2 * N" and "id_ok N e"
  shows "ebind (push_at (slot e) t r) (\<lambda>r1. push_at (slot e + 1) v r1) = Inr (add_pair (ue N e) t v r)"
  using slot_index [OF assms(2)] assms(1) by (simp add: push_at_ok add_pair_def)

section \<open>The window\<close>

lemma window_loop_total:
  "n \<le> length bytes \<Longrightarrow> \<exists>d. window_loop tms bytes since n acc = Inr d"
  by (induction n arbitrary: acc) auto

text \<open>
  Breaking off at the first old entry loses nothing when the times are sorted: the loop
  computes the sum over all entries of the window.
\<close>

lemma window_loop_sorted:
  assumes "sorted tms" and "n \<le> length tms" and "n \<le> length bytes"
  shows "window_loop tms bytes since n acc =
    Inr (acc + (\<Sum>i \<leftarrow> [0..<n]. if since \<le> tms ! i then bytes ! i else 0))"
  using assms(2-3)
proof (induction n arbitrary: acc)
  case (Suc n)
  show ?case
  proof (cases "since \<le> tms ! n")
    case True
    then show ?thesis using Suc by simp
  next
    case False
    have "\<not> since \<le> tms ! i" if "i < n" for i
      using assms(1) Suc.prems that False sorted_nth_mono [of tms i n] by auto
    then have "(\<Sum>i \<leftarrow> [0..<n]. if since \<le> tms ! i then bytes ! i else 0) = (\<Sum>i \<leftarrow> [0..<n]. 0)"
      by (intro arg_cong [of _ _ sum_list] map_cong) auto
    then show ?thesis using False by (simp add: sum_list_triv)
  qed
qed simp

lemma window_sum_ok:
  assumes "aligned N r" and "id_ok N e"
  shows "\<exists>d. window_sum width e r = Inr d"
  using slot_index [OF assms(2)] assms(1) window_loop_total
  by (auto simp: window_sum_def py_nth_def aligned_def)

section \<open>Well-formed scripts\<close>

definition agent_ok :: "nat \<Rightarrow> nat \<Rightarrow> 'p dqn \<Rightarrow> bool" where
  "agent_ok ss na d \<longleftrightarrow>
     dqn_wf d \<and> epsilon_inv d \<and> state_size d = ss \<and> n_actions d = na \<and> batch_size d = 1 \<and>
     action_index d < na \<and> count d = memory_couter d \<and> (not_first_trail d \<longrightarrow> length (st d) = ss)"

definition agents_ok :: "nat \<Rightarrow> nat \<Rightarrow> 'p script \<Rightarrow> bool" where
  "agents_ok ss na s \<longleftrightarrow> (\<forall>i d. all_dqn s i = Some d \<longrightarrow> agent_ok ss na d)"

definition lists_ok :: "nat \<Rightarrow> 'p script \<Rightarrow> bool" where
  "lists_ok N s \<longleftrightarrow> aligned N (recievedPacketRecord s) \<and> aligned N (recievedPacketRecordFull s) \<and>
     length (throughputRecord s) = 2 * N \<and> length (throughputRecordFull s) = 2 * N \<and>
     length (each_act s) = 2 * N"

definition hist_ok :: "nat \<Rightarrow> 'p script \<Rightarrow> bool" where
  "hist_ok T s \<longleftrightarrow> length (x_arr s) = T \<and> length (y_arr s) = T"

definition learnable :: "'p script \<Rightarrow> bool" where
  "learnable s \<longleftrightarrow> (ho_ended s \<longrightarrow>
     (\<exists>d. all_dqn s (env_imsi (env s)) = Some d \<and> 0 < memory_couter d))"

text \<open>
  The invariant between the statements of a body; the switch \<open>h\<close> tells whether the script
  learns when a handover ends.
\<close>

definition script_ok :: "bool \<Rightarrow> nat \<Rightarrow> nat \<Rightarrow> nat \<Rightarrow> nat \<Rightarrow> 'p script \<Rightarrow> bool" where
  "script_ok h ss na T N s \<longleftrightarrow> agents_ok ss na s \<and> lists_ok N s \<and> hist_ok T s \<and>
     id_ok N (env s) \<and> (h \<longrightarrow> learnable s)"

definition ready :: "bool \<Rightarrow> nat \<Rightarrow> nat \<Rightarrow> nat \<Rightarrow> nat \<Rightarrow> 'p script \<Rightarrow> bool" where
  "ready h ss na T N s \<longleftrightarrow> script_ok h ss na T N s \<and> cur s = Some (env_imsi (env s)) \<and>
     (\<exists>d. all_dqn s (env_imsi (env s)) = Some d)"

lemmas script_defs = script_ok_def agents_ok_def lists_ok_def hist_ok_def learnable_def ho_ended_def

text \<open>
  The same with what is known of the action, of the values written back and of the
  handover flag.
\<close>

definition readyQ ::
  "bool \<Rightarrow> nat \<Rightarrow> nat \<Rightarrow> nat \<Rightarrow> nat \<Rightarrow> (double option \<Rightarrow> act_out \<Rightarrow> int \<Rightarrow> bool) \<Rightarrow> 'p script \<Rightarrow> bool" where
  "readyQ h ss na T N Q s \<longleftrightarrow> ready h ss na T N s \<and> 
     Q (action s) (act s) (env_hoInProgress (env s))"

lemmas ready_defs = readyQ_def ready_def script_defs

lemma cur_agent_Inr:
  "cur_agent s = Inr d \<longleftrightarrow> (\<exists>i. cur s = Some i \<and> all_dqn s i = Some d)"
  by (auto simp: cur_agent_def split: option.splits)

lemma cur_agent_upd [simp]:
  "cur_agent (put_agent d s) = (case cur s of None \<Rightarrow> Inl (NameError ''dqn'') | Some i \<Rightarrow> Inr d)"
  by (auto simp: cur_agent_def put_agent_def split: option.splits)

lemma readyE:
  assumes "ready h ss na T N s"
  obtains d where "cur_agent s = Inr d" and "agent_ok ss na d"
    and "all_dqn s (env_imsi (env s)) = Some d" and "cur s = Some (env_imsi (env s))"
    and "script_ok h ss na T N s"
proof -
  from assms obtain d where "all_dqn s (env_imsi (env s)) = Some d" by (auto simp: ready_def)
  moreover from this assms have "cur_agent s = Inr d" "agent_ok ss na d"
    by (auto simp: ready_def cur_agent_Inr script_ok_def agents_ok_def)
  ultimately show ?thesis using that assms by (auto simp: ready_def)
qed

lemma put_agent_ready:
  assumes "ready h ss na T N s" and "cur_agent s = Inr d" and "agent_ok ss na d'"
    and "memory_couter d \<le> memory_couter d'"
  shows "ready h ss na T N (put_agent d' s)"
  using assms
  by (auto simp: ready_def script_defs put_agent_def cur_agent_Inr)

lemma put_agent_fields [simp]:
  "cur (put_agent d s) = cur s" "action (put_agent d s) = action s" "act (put_agent d s) = act s"
  "env (put_agent d s) = env s" "x_arr (put_agent d s) = x_arr s" "y_arr (put_agent d s) = y_arr s"
  "recievedPacketRecord (put_agent d s) = recievedPacketRecord s"
  "recievedPacketRecordFull (put_agent d s) = recievedPacketRecordFull s"
  "throughputRecord (put_agent d s) = throughputRecord s"
  "throughputRecordFull (put_agent d s) = throughputRecordFull s"
  "each_act (put_agent d s) = each_act s" "dataReceived (put_agent d s) = dataReceived s"
  "loss_val (put_agent d s) = loss_val s" "np_draws (put_agent d s) = np_draws s"
  by (simp_all add: put_agent_def split: option.splits)

section \<open>Total correctness of the statements\<close>

lemma dqn_init_fields [simp]:
  "state_size (dqn_init E k ss na bs) = ss" "n_actions (dqn_init E k ss na bs) = na"
  "batch_size (dqn_init E k ss na bs) = bs" "action_index (dqn_init E k ss na bs) = 0"
  "count (dqn_init E k ss na bs) = 0" "memory_couter (dqn_init E k ss na bs) = 0"
  "\<not> not_first_trail (dqn_init E k ss na bs)"
  by (simp_all add: dqn_init_def)

lemma select_agent_ok:
  fixes E :: "'p ext"
  assumes "0 < na"
  shows "totally (script_ok h ss na T N) (select_agent E ss na) (readyQ h ss na T N (\<lambda>_ _ _. True))"
proof (rule totallyI)
  fix s :: "'p script" assume ok: "script_ok h ss na T N s"
  let ?i = "env_imsi (env s)"
  have "agent_ok ss na (dqn_init E (torch_draws s) ss na 1)"
    using assms dqn_init_wf [OF assms, of E] dqn_init_epsilon [of E] by (simp add: agent_ok_def)
  then show "\<exists>s'. select_agent E ss na s = Inr s' \<and> readyQ h ss na T N (\<lambda>_ _ _. True) s'"
    using ok by (cases "all_dqn s ?i") (auto simp: select_agent_def Let_def ready_defs)
qed

lemma length_push [simp]: "length (push v xs) = length xs"
  by (cases xs) (simp_all add: push_def np_roll_def)

lemma push_history_ok: "totally (readyQ h ss na T N Q) push_history (readyQ h ss na T N Q)"
  unfolding push_history_def by (rule totally_assign) (auto simp: ready_defs)

lemma dqn_wf_fields:
  "dqn_wf (d\<lparr>st_next := a\<rparr>) = dqn_wf d" "dqn_wf (d\<lparr>st := a\<rparr>) = dqn_wf d"
  "dqn_wf (d\<lparr>count := b\<rparr>) = dqn_wf d" "dqn_wf (d\<lparr>action_index := b\<rparr>) = dqn_wf d"
  "dqn_wf (d\<lparr>not_first_trail := c\<rparr>) = dqn_wf d" "dqn_wf (d\<lparr>reward := r\<rparr>) = dqn_wf d"
  "dqn_wf (d\<lparr>epsilon := r\<rparr>) = dqn_wf d"
  by (simp_all add: dqn_wf_def row_action_def)

lemma epsilon_inv_fields [simp]:
  "epsilon_inv (d\<lparr>st_next := a\<rparr>) = epsilon_inv d" "epsilon_inv (d\<lparr>st := a\<rparr>) = epsilon_inv d"
  "epsilon_inv (d\<lparr>count := b\<rparr>) = epsilon_inv d" "epsilon_inv (d\<lparr>action_index := b\<rparr>) = epsilon_inv d"
  "epsilon_inv (d\<lparr>not_first_trail := c\<rparr>) = epsilon_inv d" "epsilon_inv (d\<lparr>reward := r\<rparr>) = epsilon_inv d"
  "epsilon_inv (d\<lparr>learn_step_counter := b, model := m\<rparr>) = epsilon_inv d"
  "epsilon_inv (dqn_put d row) = epsilon_inv d"
  by (simp_all add: epsilon_inv_def dqn_put_def)

lemma not_first_iff: "cur_agent s = Inr d \<Longrightarrow> not_first s = not_first_trail d"
  by (simp add: not_first_def)

lemma remember_ok:
  fixes f :: "'p script \<Rightarrow> double list"
  assumes "\<And>s. hist_ok T s \<Longrightarrow> length (f s) = ss"
  shows "totally (\<lambda>s. readyQ h ss na T N Q s \<and> not_first s) (remember f) (readyQ h ss na T N Q)"
proof (rule totallyI)
  fix s :: "'p script" assume rn: "readyQ h ss na T N Q s \<and> not_first s"
  then have r: "ready h ss na T N s" by (simp add: readyQ_def)
  then obtain d where d: "cur_agent s = Inr d" "agent_ok ss na d" and ok: "script_ok h ss na T N s"
    by (rule readyE)
  have nf: "not_first_trail d" using rn not_first_iff [OF d(1)] by simp
  have len: "length (f s) = ss" using assms ok by (simp add: script_ok_def)
  let ?d1 = "d\<lparr>st_next := f s\<rparr>"
  let ?row = "transition (st d) (action_index d) (reward d) (f s)"
  have wf: "dqn_wf ?d1" using d(2) by (simp add: agent_ok_def dqn_wf_fields)
  have st: "store_transition ?d1 (st d) (action_index d) (reward d) (f s) = Inr (dqn_put ?d1 ?row)"
    and wf2: "dqn_wf (dqn_put ?d1 ?row)"
    by (rule store_transition_wf [OF wf]; use len nf d(2) in \<open>simp add: agent_ok_def\<close>)+
  let ?d2 = "(dqn_put ?d1 ?row)\<lparr>count := count d + 1\<rparr>"
  have "agent_ok ss na ?d2"
    using wf2 d(2) by (simp add: agent_ok_def dqn_wf_fields) (simp add: dqn_put_def)
  moreover have "memory_couter d \<le> memory_couter ?d2" by (simp add: dqn_put_def)
  ultimately have "ready h ss na T N (put_agent ?d2 s)" by (rule put_agent_ready [OF r d(1)])
  moreover have "remember f s = Inr (put_agent ?d2 s)"
    using d(1) st by (simp add: remember_def Let_def) (simp add: dqn_put_def)
  ultimately show "\<exists>s'. remember f s = Inr s' \<and> readyQ h ss na T N Q s'"
    using rn by (simp add: readyQ_def)
qed

definition picked :: "nat \<Rightarrow> 'p script \<Rightarrow> bool" where
  "picked ss s \<longleftrightarrow> (\<exists>d. cur_agent s = Inr d \<and> length (st d) = ss)"

lemma pick_action_ok:
  fixes f :: "'p script \<Rightarrow> double list"
  assumes E: "ext_ok E" and f: "\<And>s. hist_ok T s \<Longrightarrow> length (f s) = ss"
  shows "totally (readyQ h ss na T N Q) (pick_action E f) (\<lambda>s. readyQ h ss na T N Q s \<and> picked ss s)"
proof (rule totallyI)
  fix s :: "'p script" assume rq: "readyQ h ss na T N Q s"
  then have r: "ready h ss na T N s" by (simp add: readyQ_def)
  then obtain d where d: "cur_agent s = Inr d" "agent_ok ss na d" and ok: "script_ok h ss na T N s"
    by (rule readyE)
  let ?d1 = "d\<lparr>st := f s\<rparr>"
  have len: "length (f s) = ss" using f ok by (simp add: script_ok_def)
  have wf: "dqn_wf ?d1" using d(2) by (simp add: agent_ok_def dqn_wf_fields)
  then have shape: "0 < n_actions ?d1" "net_shape (state_size ?d1) (n_actions ?d1) (model ?d1)"
    by (simp_all add: dqn_wf_def)
  obtain i k where c: "choose_action E (np_draws s) ?d1 (f s) = Inr (i, decay_epsilon ?d1, k)"
    and i: "i < na"
    using choose_action_total [OF E shape, of "f s" "np_draws s"] d(2) len by (auto simp: agent_ok_def)
  let ?d2 = "(decay_epsilon ?d1)\<lparr>action_index := i\<rparr>"
  have "dqn_wf (decay_epsilon ?d1)" using wf by (simp add: decay_epsilon_def dqn_wf_fields)
  moreover have "epsilon_inv (decay_epsilon ?d1)"
    using d(2) by (intro decay_epsilon_inv) (simp add: agent_ok_def)
  ultimately have "agent_ok ss na ?d2"
    using d(2) i len by (simp add: agent_ok_def dqn_wf_fields frame_simps)
  moreover have "memory_couter d \<le> memory_couter ?d2" by (simp add: frame_simps)
  ultimately have "ready h ss na T N (put_agent ?d2 s)" by (rule put_agent_ready [OF r d(1)])
  then have "ready h ss na T N (put_agent ?d2 (s\<lparr>np_draws := k\<rparr>))"
    by (simp add: ready_def script_defs put_agent_def split: option.splits)
  moreover have "picked ss (put_agent ?d2 (s\<lparr>np_draws := k\<rparr>))"
    using d(1) len by (auto simp: picked_def cur_agent_Inr put_agent_def frame_simps)
  moreover have "pick_action E f s = Inr (put_agent ?d2 (s\<lparr>np_draws := k\<rparr>))"
    using d(1) c by (simp add: pick_action_def Let_def)
  ultimately show "\<exists>s'. pick_action E f s = Inr s' \<and> readyQ h ss na T N Q s' \<and> picked ss s'"
    using rq by (simp add: readyQ_def)
qed

lemma mark_trail_ok:
  "totally (\<lambda>s. readyQ h ss na T N Q s \<and> picked ss s) mark_trail (readyQ h ss na T N Q)"
proof (rule totallyI, elim conjE)
  fix s assume rq: "readyQ h ss na T N Q s" and p: "picked ss s"
  then obtain d where d: "cur_agent s = Inr d" "length (st d) = ss" by (auto simp: picked_def)
  from rq have r: "ready h ss na T N s" by (simp add: readyQ_def)
  with d(1) have ok: "agent_ok ss na d" by (auto elim!: readyE)
  have "agent_ok ss na (d\<lparr>not_first_trail := True\<rparr>)"
    using ok d by (simp add: agent_ok_def dqn_wf_fields)
  from put_agent_ready [OF r d(1) this]
  show "\<exists>s'. mark_trail s = Inr s' \<and> readyQ h ss na T N Q s'"
    using d(1) rq by (simp add: mark_trail_def readyQ_def)
qed

lemma learn_now_ok:
  fixes E :: "'p ext"
  assumes "ext_ok E" and "0 < ss"
  shows "totally (\<lambda>s. readyQ h ss na T N Q s \<and> (\<exists>d. cur_agent s = Inr d \<and> 0 < memory_couter d))
      (learn_now E) (readyQ h ss na T N Q)"
proof (rule totallyI, elim conjE exE)
  fix s :: "'p script" and d assume rq: "readyQ h ss na T N Q s"
    and d: "cur_agent s = Inr d" "0 < memory_couter d"
  from rq have r: "ready h ss na T N s" by (simp add: readyQ_def)
  with d(1) have ok: "agent_ok ss na d" by (auto elim!: readyE)
  obtain w loss where l: "learn E (np_draws s) d (loss_val s) =
      Inr (d\<lparr>learn_step_counter := learn_step_counter d + 1, model := w\<rparr>, loss_val s @ [loss], np_draws s + 1)"
    and wf: "dqn_wf (d\<lparr>learn_step_counter := learn_step_counter d + 1, model := w\<rparr>)"
    by (rule learn_ok [OF assms(1), of d]) (use d ok assms in \<open>auto simp: agent_ok_def\<close>)
  let ?d = "d\<lparr>learn_step_counter := learn_step_counter d + 1, model := w\<rparr>"
  have "agent_ok ss na ?d" using ok wf by (simp add: agent_ok_def)
  from put_agent_ready [OF r d(1) this] have "ready h ss na T N (put_agent ?d s)" by simp
  then have "ready h ss na T N (put_agent ?d (s\<lparr>loss_val := loss_val s @ [loss], np_draws := np_draws s + 1\<rparr>))"
    by (simp add: ready_def script_defs put_agent_def split: option.splits)
  then show "\<exists>s'. learn_now E s = Inr s' \<and> readyQ h ss na T N Q s'"
    using d(1) l rq by (simp add: learn_now_def readyQ_def)
qed

section \<open>Total correctness of the accounting\<close>

lemma rx_append_eq:
  assumes "aligned N (recievedPacketRecord s)" and "length (throughputRecord s) = 2 * N" and "id_ok N (env s)"
  shows "rx_append s = Inr (s\<lparr>
      recievedPacketRecord := add_pair (ue N (env s)) (now3 (env s)) 536 (recievedPacketRecord s),
      throughputRecord := (throughputRecord s)
        [2 * ue N (env s) := throughputRecord s ! (2 * ue N (env s)) @ [now3 (env s)]]\<rparr>)"
  using slot_index [OF assms(3)] assms(1,2)
  by (simp add: rx_append_def Let_def push_at_ok aligned_def add_pair_def)

lemma rx_append_full_eq:
  assumes "aligned N (recievedPacketRecordFull s)" and "length (throughputRecordFull s) = 2 * N"
    and "id_ok N (env s)"
  shows "rx_append_full s = Inr (s\<lparr>
      recievedPacketRecordFull := add_pair (ue N (env s)) (now3 (env s)) 536 (recievedPacketRecordFull s),
      throughputRecordFull := (throughputRecordFull s)
        [2 * ue N (env s) := throughputRecordFull s ! (2 * ue N (env s)) @ [now3 (env s)]]\<rparr>)"
  using slot_index [OF assms(3)] assms(1,2)
  by (simp add: rx_append_full_def Let_def push_at_ok aligned_def add_pair_def)

lemma rx_append_tput_eq:
  assumes "length (throughputRecord s) = 2 * N" and "id_ok N (env s)"
  shows "rx_append_tput s = Inr (s\<lparr>throughputRecord := (throughputRecord s)
        [2 * ue N (env s) := throughputRecord s ! (2 * ue N (env s)) @ [now3 (env s)]]\<rparr>)"
  using slot_index [OF assms(2)] assms(1) by (simp add: rx_append_tput_def push_at_ok)

lemma log_value_eq:
  assumes "length (each_act s) = 2 * N" and "id_ok N (env s)"
  shows "log_value v s = Inr (s\<lparr>each_act := add_pair (ue N (env s)) (now3 (env s)) v (each_act s)\<rparr>)"
  using slot_index [OF assms(2)] assms(1)
  by (simp add: log_value_def push_at_ok add_pair_def)

text \<open>
  The statements of the accounting keep the invariant, and whatever is known of the action,
  the values written back and the handover flag.
\<close>

lemma rx_append_ok: "totally (readyQ h ss na T N Q) rx_append (readyQ h ss na T N Q)"
proof (rule totallyI)
  fix s :: "'p script" assume r: "readyQ h ss na T N Q s"
  then have a: "aligned N (recievedPacketRecord s)" "length (throughputRecord s) = 2 * N" "id_ok N (env s)"
    by (simp_all add: ready_defs)
  show "\<exists>s'. rx_append s = Inr s' \<and> readyQ h ss na T N Q s'"
    unfolding rx_append_eq [OF a]
    using r a slot_index(1) [OF a(3)] by (simp add: ready_defs add_pair_aligned)
qed

lemma rx_append_full_ok: "totally (readyQ h ss na T N Q) rx_append_full (readyQ h ss na T N Q)"
proof (rule totallyI)
  fix s :: "'p script" assume r: "readyQ h ss na T N Q s"
  then have a: "aligned N (recievedPacketRecordFull s)" "length (throughputRecordFull s) = 2 * N"
      "id_ok N (env s)"
    by (simp_all add: ready_defs)
  show "\<exists>s'. rx_append_full s = Inr s' \<and> readyQ h ss na T N Q s'"
    unfolding rx_append_full_eq [OF a]
    using r a slot_index(1) [OF a(3)] by (simp add: ready_defs add_pair_aligned)
qed

lemma rx_append_tput_ok: "totally (readyQ h ss na T N Q) rx_append_tput (readyQ h ss na T N Q)"
proof (rule totallyI)
  fix s :: "'p script" assume r: "readyQ h ss na T N Q s"
  then have a: "length (throughputRecord s) = 2 * N" "id_ok N (env s)"
    by (simp_all add: ready_defs)
  show "\<exists>s'. rx_append_tput s = Inr s' \<and> readyQ h ss na T N Q s'"
    unfolding rx_append_tput_eq [OF a] using r a by (simp add: ready_defs)
qed

lemma rx_window_ok:
  "totally (readyQ h ss na T N Q) (rx_window width) (readyQ h ss na T N Q)"
  "totally (readyQ h ss na T N Q) (rx_window_full width) (readyQ h ss na T N Q)"
  "totally (readyQ h ss na T N Q) (rx_window_from_full width) (readyQ h ss na T N Q)"
proof -
  have w: "\<exists>d. window_sum width (env s) (recievedPacketRecord s) = Inr d"
    and wf: "\<exists>d. window_sum width (env s) (recievedPacketRecordFull s) = Inr d"
    if "readyQ h ss na T N Q s" for s :: "'p script"
    using that by (auto simp: ready_defs intro: window_sum_ok)
  show "totally (readyQ h ss na T N Q) (rx_window width) (readyQ h ss na T N Q)"
    by (rule totallyI, frule w) (auto simp: rx_window_def ready_defs)
  show "totally (readyQ h ss na T N Q) (rx_window_full width) (readyQ h ss na T N Q)"
    by (rule totallyI, frule wf) (auto simp: rx_window_full_def ready_defs)
  show "totally (readyQ h ss na T N Q) (rx_window_from_full width) (readyQ h ss na T N Q)"
    by (rule totallyI, frule wf) (auto simp: rx_window_from_full_def ready_defs)
qed

lemma rx_throughput_ok:
  assumes "width \<noteq> 0"
  shows "totally (readyQ h ss na T N Q) (rx_throughput width) (readyQ h ss na T N Q)"
    and "totally (readyQ h ss na T N Q) (rx_throughput_full width) (readyQ h ss na T N Q)"
proof -
  have ix: "py_index (2 * N) (slot (env s) + 1) = Some (2 * ue N (env s) + 1)"
    if "readyQ h ss na T N Q s" for s :: "'p script"
    using that by (intro slot_index) (simp add: ready_defs)
  show "totally (readyQ h ss na T N Q) (rx_throughput width) (readyQ h ss na T N Q)"
    by (rule totallyI, frule ix) (simp add: rx_throughput_def ready_defs push_at_ok py_div_def assms)
  show "totally (readyQ h ss na T N Q) (rx_throughput_full width) (readyQ h ss na T N Q)"
    by (rule totallyI, frule ix) (simp add: rx_throughput_full_def ready_defs push_at_ok py_div_def assms)
qed

lemma clear_rx_ok: "totally (readyQ h ss na T N Q) clear_rx (readyQ h ss na T N Q)"
  unfolding clear_rx_def by (rule totally_assign) (simp add: ready_defs id_ok_def)

lemma clear_ho_ok: "totally (readyQ h ss na T N Q) clear_ho (readyQ h ss na T N Q)"
  unfolding clear_ho_def by (rule totally_assign) (simp add: ready_defs id_ok_def)

lemma set_reward_ok:
  assumes "width \<noteq> 0"
  shows "totally (readyQ h ss na T N Q) (set_reward width) (readyQ h ss na T N Q)"
proof (rule totallyI)
  fix s :: "'p script" assume r: "readyQ h ss na T N Q s"
  then have rd: "ready h ss na T N s" by (simp add: readyQ_def)
  then obtain d where d: "cur_agent s = Inr d" "agent_ok ss na d" by (rule readyE)
  have "agent_ok ss na (d\<lparr>reward := v\<rparr>)" for v
    using d(2) by (simp add: agent_ok_def dqn_wf_fields)
  from put_agent_ready [OF rd d(1) this]
  show "\<exists>s'. set_reward width s = Inr s' \<and> readyQ h ss na T N Q s'"
    using d(1) r assms by (simp add: set_reward_def readyQ_def py_div_def)
qed

lemma log_action_ok:
  assumes "\<And>a b hp. Q a b hp \<Longrightarrow> a \<noteq> None"
  shows "totally (readyQ h ss na T N Q) log_action (readyQ h ss na T N Q)"
proof (rule totallyI)
  fix s :: "'p script" assume r: "readyQ h ss na T N Q s"
  then have "action s \<noteq> None" unfolding readyQ_def using assms by blast
  then obtain a where a: "action s = Some a" by blast
  have l: "length (each_act s) = 2 * N" "id_ok N (env s)" using r by (simp_all add: ready_defs)
  show "\<exists>s'. log_action s = Inr s' \<and> readyQ h ss na T N Q s'"
    using r a by (simp add: log_action_def log_value_eq [OF l]) (simp add: ready_defs)
qed

lemma log_index_ok: "totally (readyQ h ss na T N Q) log_index (readyQ h ss na T N Q)"
proof (rule totallyI)
  fix s :: "'p script" assume r: "readyQ h ss na T N Q s"
  then have "ready h ss na T N s" by (simp add: readyQ_def)
  then obtain d where d: "cur_agent s = Inr d" by (rule readyE)
  have l: "length (each_act s) = 2 * N" "id_ok N (env s)" using r by (simp_all add: ready_defs)
  show "\<exists>s'. log_index s = Inr s' \<and> readyQ h ss na T N Q s'"
    using r d by (simp add: log_index_def log_value_eq [OF l]) (simp add: ready_defs)
qed

section \<open>Total correctness of the bodies\<close>

lemma cur_agent_frame [simp]:
  "cur_agent (s\<lparr>action := v\<rparr>) = cur_agent s" "cur_agent (s\<lparr>act := b\<rparr>) = cur_agent s"
  by (simp_all add: cur_agent_def split: option.split)

lemma picked_frame [simp]:
  "picked ss (s\<lparr>action := v\<rparr>) = picked ss s" "picked ss (s\<lparr>act := b\<rparr>) = picked ss s"
  by (simp_all add: picked_def)

definition acted :: "double option \<Rightarrow> act_out \<Rightarrow> bool" where
  "acted a b \<longleftrightarrow> (\<exists>v \<in> set action_space. a = Some v) \<and> tttAdjustment b \<in> set action_space"

definition acted_pair :: "act_out \<Rightarrow> bool" where
  "acted_pair b \<longleftrightarrow> tttAdjustment b \<in> set action_space \<and> hystAdjustment b \<in> set action_space2"

definition any_act :: "double option \<Rightarrow> act_out \<Rightarrow> int \<Rightarrow> bool" where
  "any_act a b hp \<longleftrightarrow> True"

lemma any_act_simp [simp]: "any_act a b hp"
  by (simp add: any_act_def)

text \<open>Weakening, and a known handover flag.\<close>

lemma readyQ_mono:
  "readyQ h ss na T N Q s \<Longrightarrow> (\<And>a b hp. Q a b hp \<Longrightarrow> Q' a b hp) \<Longrightarrow> readyQ h ss na T N Q' s"
  by (simp add: readyQ_def)

lemma bind_action_ok:
  assumes "na = length action_space"
  shows "totally (\<lambda>s. readyQ h ss na T N Q s \<and> picked ss s) bind_action
    (\<lambda>s. readyQ h ss na T N (\<lambda>a b hp. \<exists>v \<in> set action_space. a = Some v) s \<and> picked ss s)"
proof (rule totallyI, elim conjE)
  fix s :: "'p script" assume rq: "readyQ h ss na T N Q s" and p: "picked ss s"
  from rq have r: "ready h ss na T N s" by (simp add: readyQ_def)
  then obtain d where d: "cur_agent s = Inr d" "agent_ok ss na d" by (rule readyE)
  then have "action_index d < length action_space" using assms by (simp add: agent_ok_def)
  then have "bind_action s = Inr (s\<lparr>action := Some (action_space ! action_index d)\<rparr>)"
    and "action_space ! action_index d \<in> set action_space"
    using d(1) by (simp_all add: bind_action_def)
  moreover have "picked ss (s\<lparr>action := v\<rparr>)" for v using p by simp
  ultimately show "\<exists>s'. bind_action s = Inr s' \<and>
      readyQ h ss na T N (\<lambda>a b hp. \<exists>v \<in> set action_space. a = Some v) s' \<and> picked ss s'"
    using r by (simp add: ready_defs)
qed

lemma emit_ok:
  fixes emit :: "'p script stmt"
  assumes "emit \<in> {emit_action, emit_256}"
  shows "totally (\<lambda>s. readyQ h ss na T N (\<lambda>a b hp. \<exists>v \<in> set action_space. a = Some v) s \<and> picked ss s)
    emit (\<lambda>s. readyQ h ss na T N (\<lambda>a b hp. acted a b) s \<and> picked ss s)"
proof (rule totallyI, elim conjE)
  fix s :: "'p script"
  assume r: "readyQ h ss na T N (\<lambda>a b hp. \<exists>v \<in> set action_space. a = Some v) s" and p: "picked ss s"
  then obtain v where v: "action s = Some v" "v \<in> set action_space" by (auto simp: readyQ_def)
  have "picked ss (s\<lparr>act := b\<rparr>)" for b using p by simp
  moreover have "256 \<in> set action_space" by (simp add: action_space_def)
  ultimately show "\<exists>s'. emit s = Inr s' \<and> readyQ h ss na T N (\<lambda>a b hp. acted a b) s' \<and> picked ss s'"
    using assms r v by (auto simp: emit_action_def emit_256_def ready_defs acted_def)
qed

text \<open>
  The decoding of \<open>run11.py\<close>: quotient and remainder by 10. The quotient is computed in
  floating point; below 60 it is exact after truncation.
\<close>

lemma ttt_of_ok: "ttt_of i = Inr (action_space ! (i mod 10))"
proof -
  have "i mod length action_space < length action_space" by (simp add: action_space_def)
  then show ?thesis unfolding ttt_of_def by (subst py_nth_nat) (simp_all add: action_space_def)
qed

lemma quotient_exact:
  assumes "i < 60"
  shows "trunc (fl (of_nat i / 10)) = int (i div 10)"
proof -
  let ?q = "of_nat (i div 10) :: rat"
  have i: "(of_nat i :: rat) = 10 * ?q + of_nat (i mod 10)"
    by (metis mult_div_mod_eq of_nat_add of_nat_mult of_nat_numeral)
  have "fl ?q \<le> fl (of_nat i / 10)" by (rule b64.rnd_mono) (simp add: i)
  moreover have "fl ?q = ?q"
  proof -
    have "i div 10 < 6" using assms by auto
    then show ?thesis using b64.rnd_int [of "int (i div 10)"] by simp
  qed
  ultimately have lo: "?q \<le> fl (of_nat i / 10)" by simp
  have "(of_nat (i mod 10) :: rat) \<le> of_nat 9" by (rule of_nat_mono) simp
  then have "fl (of_nat i / 10) \<le> fl (?q + 9 / 10)" by (intro b64.rnd_mono) (simp add: i)
  moreover have "fl (?q + 9 / 10) < ?q + 1"
  proof -
    have "fl (0 + 9 / 10) < 0 + 1" "fl (1 + 9 / 10) < 1 + 1" "fl (2 + 9 / 10) < 2 + 1"
      "fl (3 + 9 / 10) < 3 + 1" "fl (4 + 9 / 10) < 4 + 1" "fl (5 + 9 / 10) < 5 + 1"
      by code_simp+
    moreover have "i div 10 \<in> {0, 1, 2, 3, 4, 5}" using assms by auto
    ultimately show ?thesis by auto
  qed
  ultimately have "fl (of_nat i / 10) < ?q + 1" by simp
  then show ?thesis using lo by (simp add: trunc_def floor_unique)
qed

lemma hyst_of_ok:
  assumes "i < 60"
  shows "hyst_of i = Inr (action_space2 ! (i div 10))"
proof -
  have "i div 10 < length action_space2" using assms by (simp add: action_space2_def)
  then have "py_nth action_space2 (int (i div 10)) = Inr (action_space2 ! (i div 10))"
    by (rule py_nth_nat)
  moreover have "length action_space = 10" by (simp add: action_space_def)
  ultimately show ?thesis
    using quotient_exact [OF assms] by (simp add: hyst_of_def py_div_def)
qed

lemma emit_pair_ok:
  assumes "na = length action_space * length action_space2"
  shows "totally (\<lambda>s. readyQ h ss na T N Q s \<and> picked ss s) emit_pair
    (\<lambda>s. readyQ h ss na T N (\<lambda>a b hp. acted_pair b) s \<and> picked ss s)"
proof (rule totallyI, elim conjE)
  fix s :: "'p script" assume rq: "readyQ h ss na T N Q s" and p: "picked ss s"
  from rq have r: "ready h ss na T N s" by (simp add: readyQ_def)
  then obtain d where d: "cur_agent s = Inr d" "agent_ok ss na d" by (rule readyE)
  then have i: "action_index d < 60"
    using assms by (simp add: agent_ok_def action_space_def action_space2_def)
  then have "action_index d mod 10 < length action_space" "action_index d div 10 < length action_space2"
    by (simp_all add: action_space_def action_space2_def)
  then have "acted_pair \<lparr>tttAdjustment = action_space ! (action_index d mod 10),
      hystAdjustment = action_space2 ! (action_index d div 10)\<rparr>"
    by (simp add: acted_pair_def)
  moreover have "picked ss (s\<lparr>act := b\<rparr>)" for b using p by simp
  ultimately show "\<exists>s'. emit_pair s = Inr s' \<and> readyQ h ss na T N (\<lambda>a b hp. acted_pair b) s' \<and> picked ss s'"
    using d(1) r by (simp add: emit_pair_def ttt_of_ok hyst_of_ok [OF i] ready_defs)
qed

text \<open>The statements that store, choose and emit, as one continuation rule.\<close>

lemma act_group:
  fixes f :: "'p script \<Rightarrow> double list"
  assumes "ext_ok E" and "na = length action_space" and f: "\<And>s. hist_ok T s \<Longrightarrow> length (f s) = ss"
    and "emit \<in> {emit_action, emit_256}"
    and rest: "totally (readyQ h ss na T N (\<lambda>a b hp. acted a b)) (block cs) Q'"
  shows "totally (readyQ h ss na T N Q)
    (block (py_if not_first [remember f] # pick_action E f # bind_action # emit # mark_trail # cs)) Q'"
proof (rule totally_block_Cons)
  show "totally (readyQ h ss na T N Q) (py_if not_first [remember f]) (readyQ h ss na T N Q)"
    by (rule totally_if) (auto intro: totally_block_Cons [OF remember_ok [OF f]] totally_block_Nil)
  show "totally (readyQ h ss na T N Q) (block (pick_action E f # bind_action # emit # mark_trail # cs)) Q'"
    by (rule totally_block_Cons [OF pick_action_ok [OF assms(1) f]
          totally_block_Cons [OF bind_action_ok [OF assms(2)]
          totally_block_Cons [OF emit_ok [OF assms(4)]
          totally_block_Cons [OF mark_trail_ok rest]]]])
qed

lemma act_group_pair:
  fixes f :: "'p script \<Rightarrow> double list"
  assumes "ext_ok E" and "na = length action_space * length action_space2"
    and f: "\<And>s. hist_ok T s \<Longrightarrow> length (f s) = ss"
    and rest: "totally (readyQ h ss na T N (\<lambda>a b hp. acted_pair b)) (block cs) Q'"
  shows "totally (readyQ h ss na T N Q)
    (block (py_if not_first [remember f] # pick_action E f # emit_pair # mark_trail # cs)) Q'"
proof (rule totally_block_Cons)
  show "totally (readyQ h ss na T N Q) (py_if not_first [remember f]) (readyQ h ss na T N Q)"
    by (rule totally_if) (auto intro: totally_block_Cons [OF remember_ok [OF f]] totally_block_Nil)
  show "totally (readyQ h ss na T N Q) (block (pick_action E f # emit_pair # mark_trail # cs)) Q'"
    by (rule totally_block_Cons [OF pick_action_ok [OF assms(1) f]
          totally_block_Cons [OF emit_pair_ok [OF assms(2)]
          totally_block_Cons [OF mark_trail_ok rest]]])
qed

lemma binWidth_nz [simp]: "binWidth \<noteq> 0" "binWidth2 \<noteq> 0"
proof -
  show "binWidth \<noteq> 0" by code_simp
  show "binWidth2 \<noteq> 0" by (simp add: binWidth2_def)
qed

lemma rx_always_ok:
  assumes "\<And>a b hp. Q a b hp \<Longrightarrow> a \<noteq> None"
  shows "totally (readyQ h ss na T N Q) (block rx_always) (readyQ h ss na T N Q)"
  unfolding rx_always_def
  by (rule totally_block_Cons [OF rx_append_ok totally_block_Cons [OF rx_window_ok(1)
        totally_block_Cons [OF rx_throughput_ok(1) [OF binWidth_nz(1)]
        totally_block_Cons [OF clear_rx_ok totally_block_Cons [OF set_reward_ok [OF binWidth_nz(1)]
        totally_block_Cons [OF log_action_ok [OF assms] totally_block_Nil]]]]]])

lemma rx_handover_ok:
  assumes "totally (readyQ h ss na T N Q) lg (readyQ h ss na T N Q)"
  shows "totally (readyQ h ss na T N Q) (block (rx_handover lg)) (readyQ h ss na T N Q)"
  unfolding rx_handover_def
  by (rule totally_block_Cons [OF rx_append_ok totally_block_Cons [OF rx_window_ok(1)
        totally_block_Cons [OF rx_throughput_ok(1) [OF binWidth_nz(1)]
        totally_block_Cons [OF set_reward_ok [OF binWidth_nz(1)]
        totally_block_Cons [OF assms totally_block_Nil]]]]])

lemma rx_full_ok: "totally (readyQ h ss na T N Q) (block rx_full) (readyQ h ss na T N Q)"
  unfolding rx_full_def
  by (rule totally_block_Cons [OF rx_append_full_ok totally_block_Cons [OF rx_window_ok(2)
        totally_block_Cons [OF rx_throughput_ok(2) [OF binWidth_nz(1)]
        totally_block_Cons [OF clear_rx_ok totally_block_Nil]]]])

text \<open>A guard whose branch keeps the invariant keeps it.\<close>

lemma if_keeps:
  assumes "totally R (block cs) R"
  shows "totally R (py_if p cs) R"
  using assms by (auto simp: totally_def py_if_def)

lemma learn_due_ok:
  assumes "ext_ok E" and "0 < ss"
  shows "totally (readyQ h ss na T N Q) (py_if learn_due [learn_now E]) (readyQ h ss na T N Q)"
proof (rule totally_if)
  have "\<exists>d. cur_agent s = Inr d \<and> 0 < memory_couter d"
    if "readyQ h ss na T N Q s" "learn_due s" for s :: "'a script"
  proof -
    obtain d where "cur_agent s = Inr d" "agent_ok ss na d"
      using \<open>readyQ h ss na T N Q s\<close> by (auto simp: readyQ_def elim!: readyE)
    then show ?thesis using that(2) by (auto simp: learn_due_def agent_ok_def)
  qed
  then show "totally (\<lambda>s. readyQ h ss na T N Q s \<and> learn_due s) (block [learn_now E]) (readyQ h ss na T N Q)"
    by (intro totally_block_Cons [OF _ totally_block_Nil]
        totally_weaken [OF learn_now_ok [OF assms]]) auto
qed

lemma learn_ended_ok:
  assumes "ext_ok E" and "0 < ss"
  shows "totally (readyQ True ss na T N Q) (py_if ho_ended [learn_now E, clear_ho]) (readyQ True ss na T N Q)"
proof (rule totally_if)
  have "\<exists>d. cur_agent s = Inr d \<and> 0 < memory_couter d"
    if "readyQ True ss na T N Q s" "ho_ended s" for s :: "'a script"
    using that by (auto simp: ready_defs cur_agent_Inr)
  then show "totally (\<lambda>s. readyQ True ss na T N Q s \<and> ho_ended s) (block [learn_now E, clear_ho])
      (readyQ True ss na T N Q)"
    by (intro totally_block_Cons [OF _ totally_block_Cons [OF clear_ho_ok totally_block_Nil]]
        totally_weaken [OF learn_now_ok [OF assms]]) auto
qed

lemma features_length:
  "hist_ok T s \<Longrightarrow> length (features_hist s) = 2 * T + 2"
  "length (features_now s) = 4" "length (features_rep s) = 12"
  by (simp_all add: features_hist_def features_now_def features_rep_def hist_ok_def)

lemma ten_actions: "length action_space = 10" "0 < length action_space" "length action_space2 = 6"
  by (simp_all add: action_space_def action_space2_def)

text \<open>What the actions are after a body that always acts, and after one that acts in handovers.\<close>

definition acts :: "double option \<Rightarrow> act_out \<Rightarrow> int \<Rightarrow> bool" where
  "acts a b hp \<longleftrightarrow> acted a b"

definition acts_gated :: "double option \<Rightarrow> act_out \<Rightarrow> int \<Rightarrow> bool" where
  "acts_gated a b hp \<longleftrightarrow> (hp = 1 \<longrightarrow> acted a b)"

definition acts_pair :: "double option \<Rightarrow> act_out \<Rightarrow> int \<Rightarrow> bool" where
  "acts_pair a b hp \<longleftrightarrow> (hp = 1 \<longrightarrow> acted_pair b)"

lemma acts_bound: "acts a b hp \<Longrightarrow> a \<noteq> None"
  by (auto simp: acts_def acted_def)

text \<open>The bodies that act on every message.\<close>

lemma always_group:
  fixes f :: "'p script \<Rightarrow> double list"
  assumes "ext_ok E" and "\<And>s. hist_ok T s \<Longrightarrow> length (f s) = ss"
    and "emit \<in> {emit_action, emit_256}"
    and "totally (readyQ h ss 10 T N acts) (block cs) (readyQ h ss 10 T N acts)"
  shows "totally (readyQ h ss 10 T N Q)
    (block (py_if not_first [remember f] # pick_action E f # bind_action # emit # mark_trail #
       py_if rx_flag rx_always # cs)) (readyQ h ss 10 T N acts)"
proof (rule act_group [OF assms(1) _ assms(2,3)])
  have "totally (readyQ h ss 10 T N acts) (py_if rx_flag rx_always) (readyQ h ss 10 T N acts)"
    by (intro if_keeps rx_always_ok) (rule acts_bound)
  then show "totally (readyQ h ss 10 T N (\<lambda>a b hp. acted a b)) (block (py_if rx_flag rx_always # cs))
      (readyQ h ss 10 T N acts)"
    using totally_block_Cons [OF _ assms(4)] by (simp add: acts_def [abs_def])
qed (simp add: ten_actions)

lemma run_body_ok:
  "ext_ok E \<Longrightarrow> totally (script_ok h 12 10 5 N) (run_body E) (readyQ h 12 10 5 N acts)"
  unfolding run_body_def ten_actions
  by (rule totally_block_Cons [OF select_agent_ok], simp,
      rule totally_block_Cons [OF push_history_ok], rule always_group)
    (auto simp: features_length intro!: totally_block_Cons [OF learn_due_ok] totally_block_Nil)

lemma run2_body_ok:
  "ext_ok E \<Longrightarrow> totally (script_ok h 12 10 T N) (run2_body E) (readyQ h 12 10 T N acts)"
  unfolding run2_body_def ten_actions
  by (rule totally_block_Cons [OF select_agent_ok], simp, rule always_group)
    (auto simp: features_length intro!: totally_block_Cons [OF learn_due_ok] totally_block_Nil)

lemma run3_body_ok:
  "ext_ok E \<Longrightarrow> totally (script_ok h 4 10 T N) (run3_body E) (readyQ h 4 10 T N acts)"
  unfolding run3_body_def ten_actions
  by (rule totally_block_Cons [OF select_agent_ok], simp, rule always_group)
    (auto simp: features_length intro!: totally_block_Cons [OF learn_due_ok] totally_block_Nil)

lemma run4_body_ok:
  "ext_ok E \<Longrightarrow> totally (script_ok h 4 10 T N) (run4_body E) (readyQ h 4 10 T N acts)"
  unfolding run4_body_def ten_actions
  by (rule totally_block_Cons [OF select_agent_ok], simp, rule always_group)
    (auto simp: features_length intro!: totally_block_Nil)

lemma run8_body_ok:
  "ext_ok E \<Longrightarrow> totally (script_ok True 4 10 T N) (run8_body E) (readyQ True 4 10 T N acts)"
  unfolding run8_body_def ten_actions
  by (rule totally_block_Cons [OF select_agent_ok], simp, rule always_group)
    (auto simp: features_length intro!: totally_block_Cons [OF learn_ended_ok] totally_block_Nil)

lemma run9_body_ok:
  "ext_ok E \<Longrightarrow> totally (script_ok True 4 10 5 N) (run9_body E) (readyQ True 4 10 5 N acts)"
  unfolding run9_body_def ten_actions
  by (rule totally_block_Cons [OF select_agent_ok], simp,
      rule totally_block_Cons [OF push_history_ok], rule always_group)
    (auto simp: features_length intro!: totally_block_Cons [OF learn_ended_ok] totally_block_Nil)

text \<open>
  The bodies that act during a handover only. The flag does not change in between, so a
  later guard on it finds the action bound.
\<close>

lemma gate:
  assumes "totally (readyQ h ss na T N Q0) (block cs) (readyQ h ss na T N (\<lambda>a b hp. A a b))"
  shows "totally (readyQ h ss na T N Q0) (py_if in_handover cs) (readyQ h ss na T N (\<lambda>a b hp. hp = 1 \<longrightarrow> A a b))"
proof (rule totally_if)
  have "totally (readyQ h ss na T N Q0) (block cs) (readyQ h ss na T N (\<lambda>a b hp. hp = 1 \<longrightarrow> A a b))"
    by (rule totally_weaken [OF assms]) (simp_all add: readyQ_def)
  then show "totally (\<lambda>s. readyQ h ss na T N Q0 s \<and> in_handover s) (block cs)
      (readyQ h ss na T N (\<lambda>a b hp. hp = 1 \<longrightarrow> A a b))"
    by (rule totally_weaken) simp_all
qed (simp add: readyQ_def in_handover_def)

lemma gate_again:
  assumes "totally (readyQ h ss na T N (\<lambda>a b hp. hp = 1 \<and> A a b)) (block cs)
      (readyQ h ss na T N (\<lambda>a b hp. hp = 1 \<and> A a b))"
  shows "totally (readyQ h ss na T N (\<lambda>a b hp. hp = 1 \<longrightarrow> A a b)) (py_if in_handover cs)
      (readyQ h ss na T N (\<lambda>a b hp. hp = 1 \<longrightarrow> A a b))"
  by (rule totally_if, rule totally_weaken [OF assms]) (auto simp: readyQ_def in_handover_def)

lemma totally_block_append:
  assumes "totally P (block as) R" and "totally R (block bs) Q"
  shows "totally P (block (as @ bs)) Q"
  using assms unfolding totally_def block_append by fastforce

lemma rx_full_then:
  assumes "totally (readyQ h ss na T N (\<lambda>a b hp. hp = 1 \<and> A a b)) (block cs)
      (readyQ h ss na T N (\<lambda>a b hp. hp = 1 \<and> A a b))"
  shows "totally (readyQ h ss na T N (\<lambda>a b hp. hp = 1 \<longrightarrow> A a b))
      (py_if rx_flag (rx_full @ [py_if in_handover cs]))
      (readyQ h ss na T N (\<lambda>a b hp. hp = 1 \<longrightarrow> A a b))"
  by (rule if_keeps, rule totally_block_append [OF rx_full_ok],
      rule totally_block_Cons [OF gate_again [OF assms] totally_block_Nil])

lemma acted_bound: "hp = (1 :: int) \<and> acted a b \<Longrightarrow> a \<noteq> None"
  by (auto simp: acted_def)

lemma rx_handover_acted:
  "totally (readyQ h ss na T N (\<lambda>a b hp. hp = 1 \<and> acted a b)) (block (rx_handover log_action))
     (readyQ h ss na T N (\<lambda>a b hp. hp = 1 \<and> acted a b))"
  by (intro rx_handover_ok log_action_ok) (rule acted_bound)

lemma run5_body_ok:
  assumes "ext_ok E"
  shows "totally (script_ok h 4 10 T N) (run5_body E) (readyQ h 4 10 T N acts_gated)"
  unfolding run5_body_def ten_actions acts_gated_def [abs_def]
  by (rule totally_block_Cons [OF select_agent_ok], simp,
      rule totally_block_Cons [OF gate [where A = acted]],
      rule act_group [OF assms _ _ _ totally_block_Nil])
    (auto simp: features_length ten_actions
      intro!: totally_block_Cons [OF rx_full_then [OF rx_handover_acted]]
        totally_block_Cons [OF if_keeps] totally_block_Cons [OF clear_ho_ok] totally_block_Nil)

lemma run6_body_ok:
  assumes "ext_ok E"
  shows "totally (script_ok True 4 10 T N) (run6_body E) (readyQ True 4 10 T N acts_gated)"
  unfolding run6_body_def ten_actions acts_gated_def [abs_def]
proof (rule totally_block_Cons [OF select_agent_ok], simp, rule totally_block_Cons [OF gate [where A = acted]])
  show "totally (readyQ True 4 10 T N (\<lambda>_ _ _. True))
      (block [py_if not_first [remember features_now], pick_action E features_now, bind_action,
         emit_action, mark_trail, py_if rx_flag rx_always])
      (readyQ True 4 10 T N (\<lambda>a b hp. acted a b))"
    using always_group [OF assms, of T features_now 4 emit_action True N "[]"]
    by (simp add: features_length totally_block_Nil acts_def [abs_def])
qed (auto intro!: totally_block_Cons [OF learn_ended_ok] totally_block_Nil assms)

lemma gated_hist_group:
  assumes "ext_ok E"
  shows "totally (readyQ h (2 * T + 2) 10 T N Q)
      (py_if in_handover [push_history, py_if not_first [remember features_hist],
         pick_action E features_hist, bind_action, emit_action, mark_trail])
      (readyQ h (2 * T + 2) 10 T N (\<lambda>a b hp. hp = 1 \<longrightarrow> acted a b))"
  by (rule gate, rule totally_block_Cons [OF push_history_ok],
      rule act_group [OF assms _ _ _ totally_block_Nil])
    (auto simp: features_length ten_actions)

lemma learn_ended_last:
  "ext_ok E \<Longrightarrow> 0 < ss \<Longrightarrow> totally (readyQ True ss na T N Q)
     (block [py_if ho_ended [learn_now E, clear_ho]]) (readyQ True ss na T N Q)"
  by (rule totally_block_Cons [OF learn_ended_ok totally_block_Nil])

lemma run7_body_ok:
  assumes "ext_ok E"
  shows "totally (script_ok True 22 10 10 N) (run7_body E) (readyQ True 22 10 10 N acts_gated)"
proof -
  note g = gated_hist_group [OF assms, where T = 10 and h = True and N = N, simplified]
  show ?thesis
    unfolding run7_body_def ten_actions acts_gated_def [abs_def]
    by (rule totally_block_Cons [OF select_agent_ok totally_block_Cons [OF g
          totally_block_Cons [OF rx_full_then [OF rx_handover_acted] learn_ended_last [OF assms]]]]) simp_all
qed

lemma run10_handover_acted:
  "totally (readyQ h ss na T N (\<lambda>a b hp. hp = 1 \<and> acted a b))
     (block [rx_append_tput, rx_window_from_full binWidth2, rx_throughput binWidth2,
        set_reward binWidth2, log_action])
     (readyQ h ss na T N (\<lambda>a b hp. hp = 1 \<and> acted a b))"
  by (rule totally_block_Cons [OF rx_append_tput_ok totally_block_Cons [OF rx_window_ok(3)
        totally_block_Cons [OF rx_throughput_ok(1) [OF binWidth_nz(2)]
        totally_block_Cons [OF set_reward_ok [OF binWidth_nz(2)]
        totally_block_Cons [OF log_action_ok totally_block_Nil]]]]]) (auto simp: acted_def)

lemma run10_body_ok:
  assumes "ext_ok E"
  shows "totally (script_ok True 12 10 5 N) (run10_body E) (readyQ True 12 10 5 N acts_gated)"
proof -
  note g = gated_hist_group [OF assms, where T = 5 and h = True and N = N, simplified]
  show ?thesis
    unfolding run10_body_def ten_actions acts_gated_def [abs_def]
    by (rule totally_block_Cons [OF select_agent_ok totally_block_Cons [OF g
          totally_block_Cons [OF rx_full_then [OF run10_handover_acted] learn_ended_last [OF assms]]]]) simp_all
qed

lemma run11_body_ok:
  assumes "ext_ok E"
  shows "totally (script_ok True 4 60 1 N) (run11_body E) (readyQ True 4 60 1 N acts_pair)"
proof -
  have "totally (readyQ True 4 60 1 N (\<lambda>_ _ _. True))
      (block [push_history, py_if not_first [remember features_hist],
         pick_action E features_hist, emit_pair, mark_trail])
      (readyQ True 4 60 1 N (\<lambda>a b hp. acted_pair b))"
    by (rule totally_block_Cons [OF push_history_ok],
        rule act_group_pair [OF assms _ _ totally_block_Nil])
      (auto simp: features_length ten_actions)
  note g = gate [OF this]
  have "totally (readyQ True 4 60 1 N (\<lambda>a b hp. hp = 1 \<and> acted_pair b)) (block (rx_handover log_index))
      (readyQ True 4 60 1 N (\<lambda>a b hp. hp = 1 \<and> acted_pair b))"
    by (rule rx_handover_ok [OF log_index_ok])
  note f = rx_full_then [OF this]
  have sixty: "(10 :: nat) * 6 = 60" by simp
  show ?thesis
    unfolding run11_body_def ten_actions sixty acts_pair_def [abs_def]
    by (rule totally_block_Cons [OF select_agent_ok totally_block_Cons [OF g
          totally_block_Cons [OF f learn_ended_last [OF assms]]]]) simp_all
qed

end
