(* ===== verification/Ns3Util.thy ===== *)
theory Ns3Util
  imports Prelude
begin

text \<open>
  Launching the simulator: \<open>ns3_util.py\<close> and the class \<open>Experiment\<close> of
  \<open>py_interface.py\<close>. The settings become command lines, the free processors are picked,
  the simulator runs as a process tree that the experiment kills before it starts the next one.
  The operating system (processor loads, child processes, the output of the build, the
  environment) is an argument.
\<close>

section \<open>Formatting settings\<close>

text \<open>
  The values the scripts put in a setting: a single value, or for \<open>get_settings\<close> an iterable
  of them. \<open>py_str\<close> is what \<open>format\<close> prints. A string is iterable in Python: its
  elements are its characters.
\<close>

datatype scalar = PyStr string | PyInt int | PyBool bool

datatype setting = One scalar | Many "scalar list"

fun digits :: "nat \<Rightarrow> string" where
  "digits n = (if n < 10 then [char_of (48 + n)] else digits (n div 10) @ [char_of (48 + n mod 10)])"

declare digits.simps [simp del]

fun py_str :: "scalar \<Rightarrow> string" where
  "py_str (PyStr s) = s"
| "py_str (PyInt i) = (if i < 0 then CHR ''-'' # digits (nat (- i)) else digits (nat i))"
| "py_str (PyBool b) = (if b then ''True'' else ''False'')"

fun iterate :: "setting \<Rightarrow> scalar list" where
  "iterate (One (PyStr s)) = map (\<lambda>c. PyStr [c]) s"
| "iterate (One v) = [v]"
| "iterate (Many vs) = vs"

definition lstrip :: "char \<Rightarrow> string \<Rightarrow> string" where
  "lstrip c = dropWhile (\<lambda>x. x = c)"

definition strip :: "char \<Rightarrow> string \<Rightarrow> string" where
  "strip c s = rev (lstrip c (rev (lstrip c s)))"

definition cmd_arg :: "string \<Rightarrow> scalar \<Rightarrow> string" where
  "cmd_arg key v = '' --'' @ key @ ''='' @ py_str v"

fun get_setting :: "(string \<times> scalar) list \<Rightarrow> string" where
  "get_setting [] = ''''"
| "get_setting ((key, v) # m) = cmd_arg key v @ get_setting m"

text \<open>
  \<open>get_settings\<close> pops the last item of the map, recurs on the rest and extends every
  command line and file name with every value of that item. The list is the map's items
  from the last to the first.
\<close>

fun get_settings_rev :: "(string \<times> setting) list \<Rightarrow> (string \<times> string) list \<times> string" where
  "get_settings_rev [] = ([('''', '''')], '''')"
| "get_settings_rev ((key, value) # m) =
     (let (ret, file_name_format) = get_settings_rev m;
          newret = concat (map (\<lambda>v. map (\<lambda>(precmd, prefn).
                     (precmd @ cmd_arg key v, strip (CHR ''_'') (prefn @ ''_'' @ py_str v))) ret)
                     (iterate value))
      in (newret, strip (CHR ''_'') (file_name_format @ ''_'' @ key)))"

definition get_settings :: "(string \<times> setting) list \<Rightarrow> (string \<times> string) list \<times> string" where
  "get_settings setting_map = get_settings_rev (rev setting_map)"

text \<open>Specification: every way to choose one value per key, the last key varying slowest.\<close>

fun choices :: "(string \<times> setting) list \<Rightarrow> (string \<times> scalar) list list" where
  "choices [] = [[]]"
| "choices ((key, value) # m) =
     concat (map (\<lambda>v. map (\<lambda>ch. (key, v) # ch) (choices m)) (iterate value))"

lemma get_setting_append: "get_setting (a @ b) = get_setting a @ get_setting b"
  by (induction a rule: get_setting.induct) simp_all

lemma get_settings_rev_choices:
  "map fst (fst (get_settings_rev m)) = map (\<lambda>ch. get_setting (rev ch)) (choices m)"
proof (induction m rule: get_settings_rev.induct)
  case (2 key val m)
  obtain ret f where r: "get_settings_rev m = (ret, f)" by (metis surj_pair)
  then have IH: "map fst ret = map (\<lambda>ch. get_setting (rev ch)) (choices m)" using 2 by simp
  have "map (\<lambda>x. fst (case x of (precmd, prefn) \<Rightarrow> (precmd @ cmd_arg key v, g prefn))) ret =
      map (\<lambda>p. p @ cmd_arg key v) (map fst ret)" for v g
    by (simp add: case_prod_beta)
  then have step: "map (\<lambda>x. fst (case x of (precmd, prefn) \<Rightarrow> (precmd @ cmd_arg key v, g prefn))) ret =
      map (\<lambda>ch. get_setting (rev ch @ [(key, v)])) (choices m)" for v g
    unfolding IH by (simp add: get_setting_append comp_def)
  show ?case
    using r by (simp add: map_concat comp_def step)
qed simp

lemma choices_keys: "ch \<in> set (choices m) \<Longrightarrow> map fst ch = map fst m"
  by (induction m arbitrary: ch rule: choices.induct) auto

lemma length_choices: "length (choices m) = prod_list (map (\<lambda>kv. length (iterate (snd kv))) m)"
  by (induction m) (auto simp: length_concat comp_def sum_list_triv)

section \<open>Processors and processes\<close>

definition RESERVE_CPU :: nat where
  "RESERVE_CPU = 4"

definition get_free_cpu :: "rat \<Rightarrow> rat list \<Rightarrow> (nat \<times> rat) list" where
  "get_free_cpu perc loads = sort_key snd (filter (\<lambda>x. snd x < perc) (zip [0..<length loads] loads))"

definition contains :: "string \<Rightarrow> string \<Rightarrow> bool" where
  "contains pat line = list_ex (\<lambda>s. prefix pat s) (suffixes line)"

definition build_ns3 :: "string list \<Rightarrow> bool" where
  "build_ns3 stdout = list_ex (contains (CHR 0x27 # ''build'' @ [CHR 0x27] @ '' finished successfully'')) stdout"

text \<open>What \<open>Popen\<close> is given. An environment is a map of variables.\<close>

record popen =
  po_cmd :: string
  po_cwd :: string
  po_env :: "(string \<rightharpoonup> string) option"
  po_piped :: bool

definition run_single_ns3 ::
  "string list \<Rightarrow> (string \<rightharpoonup> string) \<Rightarrow> string \<Rightarrow> string \<Rightarrow> (string \<times> scalar) list option \<Rightarrow>
   (string \<rightharpoonup> string) option \<Rightarrow> bool \<Rightarrow> popen option" where
  "run_single_ns3 build_out os_environ path pname setting env show_output =
     (if \<not> build_ns3 build_out then None
      else let env' = (case env of None \<Rightarrow> None | Some e \<Rightarrow> Some (if e = Map.empty then e else e ++ os_environ));
               cmd = (case setting of
                        None \<Rightarrow> ''./waf --run '' @ [CHR 0x22] @ pname @ [CHR 0x22]
                      | Some m \<Rightarrow> ''./waf --run '' @ [CHR 0x22] @ pname @ get_setting m @ [CHR 0x22])
      in Some \<lparr>po_cmd = cmd, po_cwd = path, po_env = env', po_piped = \<not> show_output\<rparr>)"

text \<open>
  The bulk runner samples the processors once per command line, and then sleeps for as long
  as too few were free in that sample: the loop does not sample again.
\<close>

partial_function (option) wait_cpus :: "(nat \<times> rat) list \<Rightarrow> (nat \<times> rat) list option" where
  "wait_cpus cpus = (if length cpus < RESERVE_CPU then wait_cpus cpus else Some cpus)"

lemma wait_cpus_some: "RESERVE_CPU \<le> length cpus \<Longrightarrow> wait_cpus cpus = Some cpus"
  by (subst wait_cpus.simps) simp

lemma wait_cpus_never: "length cpus < RESERVE_CPU \<Longrightarrow> wait_cpus cpus = None"
proof -
  have "wait_cpus cpus = Some r \<Longrightarrow> \<not> length cpus < RESERVE_CPU" for r
    by (rule wait_cpus.raw_induct [of "\<lambda>c _. \<not> length c < RESERVE_CPU"]) (auto split: if_splits)
  then show "length cpus < RESERVE_CPU \<Longrightarrow> wait_cpus cpus = None"
    by (cases "wait_cpus cpus") auto
qed

definition bulk_cmd :: "nat \<Rightarrow> string \<Rightarrow> string \<Rightarrow> string \<Rightarrow> string \<Rightarrow> string" where
  "bulk_cmd cpu pname common args fn =
     ''taskset -c '' @ digits cpu @ '' nohup ./waf --run '' @ pname @ common @ args @ '' > '' @ fn @ ''&''"

text \<open>
  \<open>loads k\<close> is the load of the processors at the sample taken before the \<open>k\<close>-th command; the
  result is the list of shell commands issued.
\<close>

fun bulk_loop ::
  "(nat \<Rightarrow> rat list) \<Rightarrow> nat \<Rightarrow> string \<Rightarrow> string \<Rightarrow> (string \<times> string) list \<Rightarrow> string list option" where
  "bulk_loop loads k pname common [] = Some []"
| "bulk_loop loads k pname common ((args, fn) # params) =
     (case wait_cpus (get_free_cpu 20 (loads k)) of
        None \<Rightarrow> None
      | Some cpus \<Rightarrow>
          (case bulk_loop loads (k + 1) pname common params of
             None \<Rightarrow> None
           | Some cmds \<Rightarrow> Some (bulk_cmd (fst (cpus ! 0)) pname common args fn # cmds)))"

definition run_bulk_ns3 ::
  "(nat \<Rightarrow> rat list) \<Rightarrow> string \<Rightarrow> (string \<times> scalar) list \<Rightarrow> (string \<times> setting) list list \<Rightarrow>
   string list option" where
  "run_bulk_ns3 loads pname commons settings =
     bulk_loop loads 0 pname (get_setting commons) (concat (map (\<lambda>m. fst (get_settings m)) settings))"

lemma get_free_cpu_facts:
  "sorted (map snd (get_free_cpu perc loads))"
  "set (get_free_cpu perc loads) = {(i, loads ! i) | i. i < length loads \<and> loads ! i < perc}"
  by (auto simp: get_free_cpu_def set_zip intro!: exI)

text \<open>The loop ends exactly when every sample shows enough free processors.\<close>

lemma bulk_loop_ends:
  "(\<exists>cmds. bulk_loop loads k pname common params = Some cmds \<and> length cmds = length params) \<longleftrightarrow>
   (\<forall>i < length params. RESERVE_CPU \<le> length (get_free_cpu 20 (loads (k + i))))"
proof (induction loads k pname common params rule: bulk_loop.induct)
  case (2 loads k pname common args fn params)
  let ?n = "length (get_free_cpu 20 (loads k))"
  have shift: "(\<forall>i < length ((args, fn) # params). RESERVE_CPU \<le> length (get_free_cpu 20 (loads (k + i))))
      \<longleftrightarrow> RESERVE_CPU \<le> ?n \<and>
          (\<forall>i < length params. RESERVE_CPU \<le> length (get_free_cpu 20 (loads (k + 1 + i))))"
    by (auto simp: less_Suc_eq_0_disj)
  show ?case
  proof (cases "RESERVE_CPU \<le> ?n")
    case True
    then have w: "wait_cpus (get_free_cpu 20 (loads k)) = Some (get_free_cpu 20 (loads k))"
      by (rule wait_cpus_some)
    show ?thesis unfolding shift 2 [OF w, symmetric] using True w by (auto split: option.splits)
  next
    case False
    then have "wait_cpus (get_free_cpu 20 (loads k)) = None" by (intro wait_cpus_never) simp
    then show ?thesis unfolding shift using False by simp
  qed
qed simp

end
