(* ===== verification/Experiment.thy ===== *)
theory Experiment
  imports Ns3Util
begin

text \<open>
  The class \<open>Experiment\<close> of \<open>py_interface.py\<close>: one shared-memory segment and at most one
  simulator at a time. The world it acts on is the tree of live processes, in which processes fork and exit at any
  time, and the number of times the segment was attached, cleared and released.
\<close>

section \<open>The operating system\<close>

text \<open>
  \<open>parent\<close> is defined for the live processes; new processes get larger numbers. A process whose parent ends becomes a child of
  process 1. Two lists record the past: \<open>started\<close>, the processes that the experiment has started and those that these have
  forked, and \<open>orphans\<close>, those whose parent has ended before them.
\<close>

record world =
  parent :: "nat \<rightharpoonup> nat"
  next_pid :: nat
  script_pid :: nat
  started :: "nat list"
  orphans :: "nat list"
  attached :: nat
  cleared :: nat
  freed :: nat

definition alive :: "world \<Rightarrow> nat \<Rightarrow> bool" where
  "alive w p \<longleftrightarrow> parent w p \<noteq> None"

definition new_process :: "nat \<Rightarrow> world \<Rightarrow> world" where
  "new_process p w = w\<lparr>parent := (parent w)(next_pid w \<mapsto> p), next_pid := Suc (next_pid w)\<rparr>"

definition end_process :: "nat \<Rightarrow> world \<Rightarrow> world" where
  "end_process p w =
     (if alive w p
      then w\<lparr>parent := (\<lambda>q. if q = p then None else if parent w q = Some p then Some 1 else parent w q),
             orphans := orphans w @ filter (\<lambda>q. parent w q = Some p) [0..<next_pid w]\<rparr>
      else w)"

datatype os_event = Fork nat | Exit nat

fun os_step :: "os_event \<Rightarrow> world \<Rightarrow> world" where
  "os_step (Fork p) w =
     (if alive w p
      then (new_process p w)\<lparr>started := (if p \<in> set (started w) then started w @ [next_pid w] else started w)\<rparr>
      else w)"
| "os_step (Exit p) w = end_process p w"

text \<open>\<open>q\<close> stands below \<open>p\<close>: its parents lead to \<open>p\<close>.\<close>

function below :: "world \<Rightarrow> nat \<Rightarrow> nat \<Rightarrow> bool" where
  "below w p q \<longleftrightarrow> q = p \<or> (case parent w q of None \<Rightarrow> False | Some r \<Rightarrow> if r < q then below w p r else False)"
  by pat_completeness auto
termination by (relation "measure (\<lambda>(w, p, q). q)") auto

declare below.simps [simp del]

definition children :: "world \<Rightarrow> nat \<Rightarrow> nat list" where
  "children w p = filter (\<lambda>q. q \<noteq> p \<and> alive w q \<and> below w p q) [0..<next_pid w]"

text \<open>
  The processes are listed first and then killed one after the other; before each is killed, other processes may fork
  and exit: \<open>between k\<close>.
\<close>

fun kill_all :: "(nat \<Rightarrow> os_event list) \<Rightarrow> nat list \<Rightarrow> nat \<Rightarrow> world \<Rightarrow> world" where
  "kill_all between [] k w = w"
| "kill_all between (p # ps) k w = kill_all between ps (Suc k) (end_process p (fold os_step (between k) w))"

definition kill_proc_tree :: "(nat \<Rightarrow> os_event list) \<Rightarrow> nat \<Rightarrow> world \<Rightarrow> world" where
  "kill_proc_tree between p w = kill_all between (p # children w p) 0 w"

definition spawn :: "world \<Rightarrow> nat \<times> world" where
  "spawn w = (next_pid w, (new_process (script_pid w) w)\<lparr>started := started w @ [next_pid w]\<rparr>)"

text \<open>The class \<open>cder\<close>: change the working directory for a block and restore it.\<close>

definition cder :: "string \<Rightarrow> (string \<Rightarrow> 'a) \<Rightarrow> string \<Rightarrow> 'a \<times> string" where
  "cder path body cwd = (body path, cwd)"

section \<open>The class\<close>

record experiment_obj =
  created :: bool
  shmKey :: nat
  memSize :: nat
  programName :: string
  exp_path :: string
  proc :: "nat option"

text \<open>
  The constructor tests the class attribute \<open>_created\<close> and then assigns an attribute of the
  instance; the class attribute is an argument, and is returned as it is left.
\<close>

definition Experiment_init ::
  "bool \<Rightarrow> nat \<Rightarrow> nat \<Rightarrow> string \<Rightarrow> string \<Rightarrow> world \<Rightarrow> (bool \<times> experiment_obj \<times> world) result" where
  "Experiment_init class_created key sz name path w =
     (if class_created then Inl (GenericException ''Experiment is singleton'')
      else Inr (class_created,
        \<lparr>created = True, shmKey = key, memSize = sz, programName = name, exp_path = path, proc = None\<rparr>,
        w\<lparr>attached := attached w + 1\<rparr>))"

definition isalive :: "world \<Rightarrow> nat \<Rightarrow> bool" where
  "isalive w p \<longleftrightarrow> alive w p"

definition exp_kill :: "(nat \<Rightarrow> os_event list) \<Rightarrow> experiment_obj \<times> world \<Rightarrow> experiment_obj \<times> world" where
  "exp_kill between ew =
     (case ew of (e, w) \<Rightarrow>
        (case proc e of
           None \<Rightarrow> (e, w)
         | Some p \<Rightarrow> if isalive w p then (e\<lparr>proc := None\<rparr>, kill_proc_tree between p w) else (e, w)))"

definition exp_reset :: "(nat \<Rightarrow> os_event list) \<Rightarrow> experiment_obj \<times> world \<Rightarrow> experiment_obj \<times> world" where
  "exp_reset between ew =
     (case exp_kill between ew of (e, w) \<Rightarrow> (e, w\<lparr>cleared := cleared w + 1\<rparr>))"


definition exp_env :: "experiment_obj \<Rightarrow> string \<rightharpoonup> string" where
  "exp_env e = [''NS_GLOBAL_VALUE'' \<mapsto>
     ''SharedMemoryKey='' @ digits (shmKey e) @ '';SharedMemoryPoolSize='' @ digits (memSize e) @ '';'']"

text \<open>
  \<open>run\<close> kills the previous simulator, builds, and starts the next one; a failed build leaves
  no process.
\<close>

definition exp_run ::
  "(nat \<Rightarrow> os_event list) \<Rightarrow> string list \<Rightarrow> (string \<rightharpoonup> string) \<Rightarrow> (string \<times> scalar) list option \<Rightarrow> bool \<Rightarrow>
   experiment_obj \<times> world \<Rightarrow> (experiment_obj \<times> world) \<times> popen option" where
  "exp_run between build_out os_environ setting show_output ew =
     (case exp_kill between ew of (e, w) \<Rightarrow>
        (case run_single_ns3 build_out os_environ (exp_path e) (programName e) setting
                (Some (exp_env e)) show_output of
           None \<Rightarrow> ((e\<lparr>proc := None\<rparr>, w), None)
         | Some c \<Rightarrow> (case spawn w of (p, w') \<Rightarrow> ((e\<lparr>proc := Some p\<rparr>, w'), Some c))))"

text \<open>
  One step of a script's use of its experiment, or of the operating system in between.
\<close>

datatype exp_op =
    Op_run "nat \<Rightarrow> os_event list" "string list" "(string \<times> scalar) list option" bool
  | Op_kill "nat \<Rightarrow> os_event list"
  | Op_reset "nat \<Rightarrow> os_event list"
  | Op_system os_event

fun exp_step :: "(string \<rightharpoonup> string) \<Rightarrow> exp_op \<Rightarrow> experiment_obj \<times> world \<Rightarrow> experiment_obj \<times> world" where
  "exp_step env (Op_run between out setting vis) ew = fst (exp_run between out env setting vis ew)"
| "exp_step env (Op_kill between) ew = exp_kill between ew"
| "exp_step env (Op_reset between) ew = exp_reset between ew"
| "exp_step env (Op_system v) (e, w) = (e, os_step v w)"

section \<open>One simulator at a time\<close>

text \<open>
  Every live process that the experiment started is the current one, or an orphan, or the child of another such
  process. \<open>cur\<close> is the current process.
\<close>

definition world_ok :: "nat option \<Rightarrow> world \<Rightarrow> bool" where
  "world_ok cur w \<longleftrightarrow>
     (\<forall>q. alive w q \<longrightarrow> q < next_pid w) \<and> (\<forall>p. cur = Some p \<longrightarrow> p < next_pid w) \<and>
     (\<forall>q \<in> set (started w). q < next_pid w) \<and>
     (\<forall>q \<in> set (started w). alive w q \<longrightarrow> cur = Some q \<or> q \<in> set (orphans w) \<or>
        (\<exists>r \<in> set (started w). parent w q = Some r \<and> alive w r \<and> r < q))"


lemma alive_end_process: "alive (end_process p w) q \<longleftrightarrow> alive w q \<and> q \<noteq> p"
  by (auto simp: end_process_def alive_def)


lemma alive_new [simp]: "alive (new_process p w) q \<longleftrightarrow> q = next_pid w \<or> alive w q"
  by (simp add: new_process_def alive_def)

lemma alive_started [simp]: "alive (w\<lparr>started := xs\<rparr>) q = alive w q"
  by (simp add: alive_def)











lemma world_ok_counters [simp]:
  "world_ok cur (w\<lparr>cleared := n\<rparr>) = world_ok cur w"
  "world_ok cur (w\<lparr>freed := n\<rparr>) = world_ok cur w"
  "world_ok cur (w\<lparr>attached := n\<rparr>) = world_ok cur w"
  by (simp_all add: world_ok_def alive_def)





section \<open>Properties\<close>

text \<open>
  \<open>get_settings\<close> enumerates the experiment plan: its command lines are exactly, in
  order and with multiplicity, the \<open>get_setting\<close> strings of all ways to choose one value for each key (the
  last key varying slowest), and their number is the product of the numbers of values. A
  value that is a string counts as the list of its characters.
\<close>

theorem get_settings_enumerates:
  "map fst (fst (get_settings m)) = map (\<lambda>ch. get_setting (rev ch)) (choices (rev m)) \<and>
   length (fst (get_settings m)) = prod_list (map (\<lambda>kv. length (iterate (snd kv))) (rev m)) \<and>
   list_all (\<lambda>ch. map fst (rev ch) = map fst m) (choices (rev m))"
proof -
  have c: "map fst (fst (get_settings m)) = map (\<lambda>ch. get_setting (rev ch)) (choices (rev m))"
    unfolding get_settings_def by (rule get_settings_rev_choices)
  then have "length (fst (get_settings m)) = length (choices (rev m))" by (metis length_map)
  with c show ?thesis
    using choices_keys [of _ "rev m"] by (auto simp: length_choices list_all_iff simp flip: rev_map)
qed

text \<open>
  The bulk runner issues all its commands exactly when each single sample of the
  processors shows at least \<open>RESERVE_CPU\<close> of them below 20 percent; after one sample with
  fewer it never issues another command, whatever becomes free later, because the waiting
  loop does not sample again.
\<close>

theorem bulk_runner_waits_forever:
  "(run_bulk_ns3 loads pname commons settings = None) =
   (\<exists>i < length (concat (map (\<lambda>m. fst (get_settings m)) settings)).
      length (filter (\<lambda>x. x < 20) (loads i)) < RESERVE_CPU)"
proof -
  let ?params = "concat (map (\<lambda>m. fst (get_settings m)) settings)"
  have len: "length (get_free_cpu 20 l) = length (filter (\<lambda>x. x < 20) l)" for l :: "rat list"
  proof -
    let ?z = "zip [0..<length l] l"
    have "filter (\<lambda>x. x < 20) (map snd ?z) = map snd (filter ((\<lambda>x. x < 20) \<circ> snd) ?z)"
      by (rule filter_map)
    moreover have "map snd ?z = l" by simp
    ultimately have "length (filter (\<lambda>x. x < 20) l) = length (filter ((\<lambda>x. x < 20) \<circ> snd) ?z)"
      by (metis length_map)
    then show ?thesis by (simp add: get_free_cpu_def comp_def)
  qed
  have "length cmds = length ?params"
    if "bulk_loop loads 0 pname (get_setting commons) ?params = Some cmds" for cmds
  proof -
    have "bulk_loop l k n c ps = Some cs \<Longrightarrow> length cs = length ps" for l k n c ps cs
      by (induction l k n c ps arbitrary: cs rule: bulk_loop.induct) (auto split: option.splits)
    then show ?thesis using that by blast
  qed
  then have "(run_bulk_ns3 loads pname commons settings \<noteq> None) \<longleftrightarrow>
      (\<forall>i < length ?params. RESERVE_CPU \<le> length (get_free_cpu 20 (loads (0 + i))))"
    using bulk_loop_ends [of loads 0 pname "get_setting commons" ?params]
    unfolding run_bulk_ns3_def by blast
  then show ?thesis unfolding len by (auto simp: not_less)
qed


text \<open>
  The script (process 7) starts a shell (8), which starts waf (9), which starts the simulator (10); while they are killed the
  simulator exits by itself.
\<close>

definition sample_world :: world where
  "sample_world = \<lparr>parent = [1 \<mapsto> 0, 7 \<mapsto> 1], next_pid = 8, script_pid = 7, started = [], orphans = [],
     attached = 0, cleared = 0, freed = 0\<rparr>"

definition sample_ops :: "exp_op list" where
  "sample_ops = [Op_reset (\<lambda>_. []), Op_run (\<lambda>_. []) [CHR 0x27 # ''build'' @ [CHR 0x27] @ '' finished successfully''] None True,
     Op_system (Fork 8), Op_system (Fork 9)]"

definition sample_state :: "experiment_obj \<times> world" where
  "sample_state = foldl (\<lambda>s opn. exp_step Map.empty opn s)
     (\<lparr>created = True, shmKey = 1234, memSize = 4096, programName = ''UW-working'', exp_path = ''../..'', proc = None\<rparr>,
      sample_world\<lparr>attached := 1\<rparr>) sample_ops"

lemma sample_built: "build_ns3 [CHR 0x27 # ''build'' @ [CHR 0x27] @ '' finished successfully'']"
  by code_simp

lemma sample_state_proc: "proc (fst sample_state) = Some 8"
  by (simp add: sample_state_def sample_ops_def sample_world_def exp_reset_def exp_kill_def exp_run_def
      run_single_ns3_def sample_built [simplified] spawn_def Let_def)

lemma sample_state_world:
  "started (snd sample_state) = [8, 9, 10]" "parent (snd sample_state) = [1 \<mapsto> 0, 7 \<mapsto> 1, 8 \<mapsto> 7, 9 \<mapsto> 8, 10 \<mapsto> 9]"
  "next_pid (snd sample_state) = 11"
  by (simp_all add: sample_state_def sample_ops_def sample_world_def exp_reset_def exp_kill_def exp_run_def
      run_single_ns3_def sample_built [simplified] spawn_def Let_def new_process_def alive_def)


text \<open>
  When waf ends before the simulator, the simulator is an orphan: it survives \<open>kill\<close>, and the next \<open>run\<close> starts a second one.
\<close>

lemma orphan_survives:
  "alive (snd (exp_kill (\<lambda>_. []) (fst sample_state, end_process 9 (snd sample_state)))) 10"
proof -
  let ?w = "end_process 9 (snd sample_state)"
  have par: "parent ?w q = [1 \<mapsto> 0, 7 \<mapsto> 1, 8 \<mapsto> 7, 10 \<mapsto> 1] q" for q
    by (auto simp: end_process_def alive_def sample_state_world)
  have "\<not> below ?w 8 0" by (simp add: below.simps [of _ _ 0] par)
  then have "\<not> below ?w 8 1" by (subst below.simps) (simp add: par)
  then have "\<not> below ?w 8 10" by (simp add: below.simps [of _ _ 10] par)
  then have "10 \<notin> set (children ?w 8)" by (simp add: children_def)
  moreover have "q \<notin> set ps \<Longrightarrow> alive w q \<Longrightarrow> alive (kill_all (\<lambda>_. []) ps k w) q" for q ps k w
    by (induction ps arbitrary: k w) (simp_all add: alive_end_process)
  moreover have "alive ?w 10" "alive ?w 8" by (simp_all add: alive_def par)
  ultimately show ?thesis by (simp add: exp_kill_def sample_state_proc isalive_def kill_proc_tree_def alive_end_process)
qed

text \<open>
  The singleton guard of \<open>Experiment\<close> guards nothing: a constructor call never raises
  and leaves the class attribute it tests as it was, so that any number of experiments attach the same
  segment. And a variable \<open>NS_GLOBAL_VALUE\<close> in the caller's environment replaces the
  shared-memory key and size the experiment passes to the simulator.
\<close>

theorem experiment_guard_and_environment:
  "(\<exists>e1 e2 w1 w2. Experiment_init False key sz name path w = Inr (False, e1, w1) \<and>
      Experiment_init False key sz name path w1 = Inr (False, e2, w2) \<and>
      attached w2 = attached w + 2) \<and>
   (build_ns3 out \<longrightarrow>
      (\<exists>c env. snd (exp_run between out os_environ setting vis (e, w)) = Some c \<and> po_env c = Some env \<and>
        env ''NS_GLOBAL_VALUE'' =
          (case os_environ ''NS_GLOBAL_VALUE'' of Some v \<Rightarrow> Some v | None \<Rightarrow> exp_env e ''NS_GLOBAL_VALUE'')))"
proof (intro conjI impI)
  show "\<exists>e1 e2 w1 w2. Experiment_init False key sz name path w = Inr (False, e1, w1) \<and>
      Experiment_init False key sz name path w1 = Inr (False, e2, w2) \<and> attached w2 = attached w + 2"
    by (simp add: Experiment_init_def)
next
  assume ok: "build_ns3 out"
  obtain e' w' where k: "exp_kill between (e, w) = (e', w')" by (metis surj_pair)
  then have "exp_env e' = exp_env e"
    by (auto simp: exp_kill_def exp_env_def split: option.splits if_splits)
  moreover have "exp_env e \<noteq> Map.empty" by (auto simp: exp_env_def fun_eq_iff)
  ultimately show "\<exists>c env. snd (exp_run between out os_environ setting vis (e, w)) = Some c \<and>
      po_env c = Some env \<and> env ''NS_GLOBAL_VALUE'' =
        (case os_environ ''NS_GLOBAL_VALUE'' of Some v \<Rightarrow> Some v | None \<Rightarrow> exp_env e ''NS_GLOBAL_VALUE'')"
    using ok k by (simp add: exp_run_def run_single_ns3_def Let_def spawn_def map_add_def)
qed

lemma experiment_guard_and_environment_witness:
  "\<exists>c env. snd (exp_run (\<lambda>_. []) [CHR 0x27 # ''build'' @ [CHR 0x27] @ '' finished successfully'']
       [''NS_GLOBAL_VALUE'' \<mapsto> ''SharedMemoryKey=7;''] None True
       (\<lparr>created = True, shmKey = 1234, memSize = 4096, programName = ''UW-working'', exp_path = ''../..'',
         proc = None\<rparr>, sample_world)) = Some c \<and>
     po_env c = Some env \<and> env ''NS_GLOBAL_VALUE'' = Some ''SharedMemoryKey=7;''"
proof -
  have "build_ns3 [CHR 0x27 # ''build'' @ [CHR 0x27] @ '' finished successfully'']"
    by code_simp
  then show ?thesis
    using experiment_guard_and_environment
      [where out = "[CHR 0x27 # ''build'' @ [CHR 0x27] @ '' finished successfully'']"
        and os_environ = "[''NS_GLOBAL_VALUE'' \<mapsto> ''SharedMemoryKey=7;'']"
        and between = "\<lambda>_. []" and setting = None and vis = True
        and e = "\<lparr>created = True, shmKey = 1234, memSize = 4096, programName = ''UW-working'',
                  exp_path = ''../..'', proc = None\<rparr>"
        and w = "sample_world"]
    by auto
qed

end
