(* ===== verification/Scripts.thy ===== *)
theory Scripts
  imports Handover Experiment
begin

text \<open>
  The handover scripts from the command line to the exported files: arguments and
  configuration, the launch of the simulator, the message loop in its three modes and the
  CSV export, for \<open>run.py\<close> and \<open>run2.py\<close> to \<open>run11.py\<close>.
\<close>

section \<open>Arguments and configuration\<close>

record args =
  arg_resultsDir :: "string option"
  arg_rfConfigFileName :: "string option"
  arg_protocolConfigFileName :: "string option"
  arg_runMode :: "string option"

text \<open>What the scripts read of \<open>rf_config.json\<close>.\<close>

record rf_config =
  bs_locations :: "(double \<times> double) list"
  number_of_UE :: int

record settings =
  resultsDir :: string
  rfConfigFileName :: string
  protocolConfigFileName :: string
  runMode :: string
  mroExp :: bool
  rfConfig :: rf_config

definition or_default :: "string \<Rightarrow> string option \<Rightarrow> string" where
  "or_default d v = (case v of None \<Rightarrow> d | Some s \<Rightarrow> s)"

definition parse_args :: "(string \<Rightarrow> rf_config result) \<Rightarrow> string \<Rightarrow> args \<Rightarrow> settings result" where
  "parse_args load_json cwd a =
     (let results = or_default (cwd @ ''/results/'') (arg_resultsDir a);
          rfname = or_default (cwd @ ''/rf_config.json'') (arg_rfConfigFileName a);
          pname = or_default (cwd @ ''/protocol_config.json'') (arg_protocolConfigFileName a);
          mode = or_default ''no_ML'' (arg_runMode a) in
      ebind (load_json rfname) (\<lambda>rf.
        if mode = ''DQN'' \<or> mode = ''MRO'' \<or> mode = ''no_ML'' then
          Inr \<lparr>resultsDir = results, rfConfigFileName = rfname, protocolConfigFileName = pname,
               runMode = mode, mroExp = (mode \<noteq> ''no_ML''), rfConfig = rf\<rparr>
        else Inl SystemExit))"

text \<open>
  The state before the loop: two lists per UE, empty histories of length \<open>T\<close>. A script that
  lacks one of the names leaves its field at this value.
\<close>

definition init_script :: "nat \<Rightarrow> settings \<Rightarrow> env_in \<Rightarrow> act_out \<Rightarrow> 'p script" where
  "init_script T cfg e a =
     (let lists = replicate (nat (number_of_UE (rfConfig cfg) * 2)) [] in
      \<lparr>all_dqn = Map.empty, cur = None, action = None, x_arr = replicate T 0, y_arr = replicate T 0,
       recievedPacketRecord = lists, throughputRecord = lists, recievedPacketRecordFull = lists,
       throughputRecordFull = lists, each_act = lists, dataReceived = 0, dataReceivedFull = 0,
       loss_val = [], np_draws = 0, torch_draws = 0, env = e, act = a\<rparr>)"

definition ns3Settings :: "settings \<Rightarrow> (string \<times> scalar) list" where
  "ns3Settings cfg =
     [(''resultDir'', PyStr (resultsDir cfg)), (''rfConfigFileName'', PyStr (rfConfigFileName cfg)),
      (''protocolConfigFileName'', PyStr (protocolConfigFileName cfg)), (''mroExp'', PyBool (mroExp cfg))]"

text \<open>Creating the experiment, resetting the segment and starting the simulator.\<close>

definition launch ::
  "(nat \<Rightarrow> os_event list) \<Rightarrow> string list \<Rightarrow> (string \<rightharpoonup> string) \<Rightarrow> settings \<Rightarrow> world \<Rightarrow>
   ((experiment_obj \<times> world) \<times> popen option) result" where
  "launch between build_out os_environ cfg w =
     ebind (Experiment_init False 1234 4096 ''UW-working'' ''../..'' w) (\<lambda>(_, e, w').
       Inr (exp_run between build_out os_environ (Some (ns3Settings cfg)) True
              (exp_reset between (e, w'))))"

section \<open>The MRO mode\<close>

text \<open>
  The position is scaled by its largest coordinate; division by a largest coordinate of zero
  gives a tensor without finite entries, here \<open>None\<close>. \<open>nn\<close> is the loaded network. The distances to
  the base station are computed and not used, but indexing the configuration can fail.
\<close>

definition scaled_position :: "double \<Rightarrow> double \<Rightarrow> double list option" where
  "scaled_position px py =
     (let t = map fl32 [px, py, px, py]; m = foldl max (fl32 px) t in
      if m = 0 then None else Some (map (\<lambda>v. fl32 (v / m)) t))"

definition mro_body :: "rf_config \<Rightarrow> (double list option \<Rightarrow> double) \<Rightarrow> 'p script stmt" where
  "mro_body rf nn s =
     ebind (py_nth (bs_locations rf) (env_cellId (env s) - 1)) (\<lambda>location.
     Inr (s\<lparr>act := (act s)\<lparr>tttAdjustment := nn (scaled_position (env_x (env s)) (env_y (env s)))\<rparr>\<rparr>))"

text \<open>\<open>MRO/run.py\<close> has three cells per base station.\<close>

definition mro_run_body :: "rf_config \<Rightarrow> (double list option \<Rightarrow> double) \<Rightarrow> 'p script stmt" where
  "mro_run_body rf nn s =
     ebind (py_nth (bs_locations rf) ((env_cellId (env s) - 1) div 3)) (\<lambda>location.
     Inr (s\<lparr>act := (act s)\<lparr>tttAdjustment := nn (scaled_position (env_x (env s)) (env_y (env s)))\<rparr>\<rparr>))"

definition mro_run_settings ::
  "string option \<Rightarrow> string option \<Rightarrow> string option \<Rightarrow> string option \<Rightarrow> string option \<Rightarrow>
   (string \<Rightarrow> int result) \<Rightarrow> string \<Rightarrow> string \<Rightarrow> string \<Rightarrow> string \<Rightarrow> string option \<Rightarrow>
   (string \<times> scalar) list result" where
  "mro_run_settings results rf protocol trace seed py_int results_d rf_d protocol_d trace_d mro =
     ebind (case seed of None \<Rightarrow> Inr 1 | Some s \<Rightarrow> py_int s) (\<lambda>rngSeedNum.
     Inr [(''resultDir'', PyStr (or_default results_d results)), (''rfConfigFileName'', PyStr (or_default rf_d rf)),
          (''protocolConfigFileName'', PyStr (or_default protocol_d protocol)),
          (''traceDir'', PyStr (or_default trace_d trace)), (''rngSeedNum'', PyInt rngSeedNum),
          (''mroExp'', PyBool (case mro of None \<Rightarrow> True | Some s \<Rightarrow> s \<noteq> ''''))])"

section \<open>The loop and the export\<close>

definition loop_step :: "settings \<Rightarrow> (double list option \<Rightarrow> double) \<Rightarrow> 'p script stmt \<Rightarrow> 'p script stmt" where
  "loop_step cfg nn body =
     (if runMode cfg = ''DQN'' then body
      else if runMode cfg = ''MRO'' then mro_body (rfConfig cfg) nn
      else Inr)"

fun run_loop :: "'p script stmt \<Rightarrow> sim_msg list \<Rightarrow> 'p script stmt" where
  "run_loop body [] s = Inr s"
| "run_loop body (m # ms) s = ebind (body (s\<lparr>env := deliver m (env s)\<rparr>)) (run_loop body ms)"

text \<open>\<open>zip_longest\<close> turns the lists into rows; a missing entry is the empty string, here \<open>None\<close>.\<close>

definition zip_longest :: "double list list \<Rightarrow> double option list list" where
  "zip_longest xss =
     map (\<lambda>k. map (\<lambda>xs. if k < length xs then Some (xs ! k) else None) xss)
       [0..<foldr max (map length xss) 0]"

record csv =
  file_name :: string
  csv_header :: "string list"
  csv_rows :: "double option list list"

definition csv_of :: "settings \<Rightarrow> string \<Rightarrow> string \<Rightarrow> double list list \<Rightarrow> csv" where
  "csv_of cfg name column cols =
     \<lparr>file_name = resultsDir cfg @ name, csv_header = [''time'', column], csv_rows = zip_longest cols\<rparr>"

definition export :: "settings \<Rightarrow> 'p script \<Rightarrow> csv list" where
  "export cfg s =
     [csv_of cfg ''packetRecieveTest.csv'' ''bytesRx'' (recievedPacketRecord s),
      csv_of cfg ''throughputTest.csv'' ''throughput'' (throughputRecord s),
      csv_of cfg ''actions.csv'' ''action'' (each_act s)]"

definition export_full :: "settings \<Rightarrow> 'p script \<Rightarrow> csv list" where
  "export_full cfg s =
     [csv_of cfg ''packetRecieveTest.csv'' ''bytesRx'' (recievedPacketRecord s),
      csv_of cfg ''throughputTest.csv'' ''throughput'' (throughputRecord s),
      csv_of cfg ''throughputTestFull.csv'' ''throughput'' (throughputRecordFull s),
      csv_of cfg ''actions.csv'' ''action'' (each_act s)]"

text \<open>
  From the loop to the end of a script: in the DQN mode the model bound to \<open>dqn\<close> is saved,
  which fails if no message ever bound it; then the files are written.
\<close>

definition finish ::
  "(settings \<Rightarrow> 'p script \<Rightarrow> csv list) \<Rightarrow> (double list option \<Rightarrow> double) \<Rightarrow> 'p script stmt \<Rightarrow>
   settings \<Rightarrow> sim_msg list \<Rightarrow> 'p script \<Rightarrow> ('p all_linear option \<times> csv list) result" where
  "finish export_files nn body cfg ms s =
     ebind (run_loop (loop_step cfg nn body) ms s) (\<lambda>s'.
       if runMode cfg = ''DQN'' then
         ebind (cur_agent s') (\<lambda>d. Inr (Some (model d), export_files cfg s'))
       else Inr (None, export_files cfg s'))"

section \<open>The scripts\<close>

text \<open>From the command line to the start of the loop.\<close>

definition script_init ::
  "nat \<Rightarrow> (nat \<Rightarrow> os_event list) \<Rightarrow> string list \<Rightarrow> (string \<rightharpoonup> string) \<Rightarrow> (string \<Rightarrow> rf_config result) \<Rightarrow>
   string \<Rightarrow> args \<Rightarrow> env_in \<Rightarrow> act_out \<Rightarrow> world \<Rightarrow>
   (settings \<times> 'p script \<times> (experiment_obj \<times> world) \<times> popen option) result" where
  "script_init T between build_out os_environ load_json cwd a e b w =
     ebind (parse_args load_json cwd a) (\<lambda>cfg.
     ebind (launch between build_out os_environ cfg w) (\<lambda>l.
     Inr (cfg, init_script T cfg e b, l)))"

definition run_init where
  "run_init = script_init 5"

definition run_main ::
  "'p ext \<Rightarrow> (double list option \<Rightarrow> double) \<Rightarrow> settings \<Rightarrow> sim_msg list \<Rightarrow> 'p script \<Rightarrow>
   ('p all_linear option \<times> csv list) result" where
  "run_main E nn = finish export nn (run_body E)"

definition run2_init where
  "run2_init = script_init 0"

definition run2_main ::
  "'p ext \<Rightarrow> (double list option \<Rightarrow> double) \<Rightarrow> settings \<Rightarrow> sim_msg list \<Rightarrow> 'p script \<Rightarrow>
   ('p all_linear option \<times> csv list) result" where
  "run2_main E nn = finish export nn (run2_body E)"

definition run3_init where
  "run3_init = script_init 0"

definition run3_main ::
  "'p ext \<Rightarrow> (double list option \<Rightarrow> double) \<Rightarrow> settings \<Rightarrow> sim_msg list \<Rightarrow> 'p script \<Rightarrow>
   ('p all_linear option \<times> csv list) result" where
  "run3_main E nn = finish export nn (run3_body E)"

definition run4_init where
  "run4_init = script_init 0"

definition run4_main ::
  "'p ext \<Rightarrow> (double list option \<Rightarrow> double) \<Rightarrow> settings \<Rightarrow> sim_msg list \<Rightarrow> 'p script \<Rightarrow>
   ('p all_linear option \<times> csv list) result" where
  "run4_main E nn = finish export nn (run4_body E)"

definition run5_init where
  "run5_init = script_init 0"

definition run5_main ::
  "'p ext \<Rightarrow> (double list option \<Rightarrow> double) \<Rightarrow> settings \<Rightarrow> sim_msg list \<Rightarrow> 'p script \<Rightarrow>
   ('p all_linear option \<times> csv list) result" where
  "run5_main E nn = finish export_full nn (run5_body E)"

definition run6_init where
  "run6_init = script_init 0"

definition run6_main ::
  "'p ext \<Rightarrow> (double list option \<Rightarrow> double) \<Rightarrow> settings \<Rightarrow> sim_msg list \<Rightarrow> 'p script \<Rightarrow>
   ('p all_linear option \<times> csv list) result" where
  "run6_main E nn = finish export nn (run6_body E)"

definition run7_init where
  "run7_init = script_init 10"

definition run7_main ::
  "'p ext \<Rightarrow> (double list option \<Rightarrow> double) \<Rightarrow> settings \<Rightarrow> sim_msg list \<Rightarrow> 'p script \<Rightarrow>
   ('p all_linear option \<times> csv list) result" where
  "run7_main E nn = finish export_full nn (run7_body E)"

definition run8_init where
  "run8_init = script_init 0"

definition run8_main ::
  "'p ext \<Rightarrow> (double list option \<Rightarrow> double) \<Rightarrow> settings \<Rightarrow> sim_msg list \<Rightarrow> 'p script \<Rightarrow>
   ('p all_linear option \<times> csv list) result" where
  "run8_main E nn = finish export nn (run8_body E)"

definition run9_init where
  "run9_init = script_init 5"

definition run9_main ::
  "'p ext \<Rightarrow> (double list option \<Rightarrow> double) \<Rightarrow> settings \<Rightarrow> sim_msg list \<Rightarrow> 'p script \<Rightarrow>
   ('p all_linear option \<times> csv list) result" where
  "run9_main E nn = finish export nn (run9_body E)"

definition run10_init where
  "run10_init = script_init 5"

definition run10_main ::
  "'p ext \<Rightarrow> (double list option \<Rightarrow> double) \<Rightarrow> settings \<Rightarrow> sim_msg list \<Rightarrow> 'p script \<Rightarrow>
   ('p all_linear option \<times> csv list) result" where
  "run10_main E nn = finish export_full nn (run10_body E)"

definition run11_init where
  "run11_init = script_init 1"

definition run11_main ::
  "'p ext \<Rightarrow> (double list option \<Rightarrow> double) \<Rightarrow> settings \<Rightarrow> sim_msg list \<Rightarrow> 'p script \<Rightarrow>
   ('p all_linear option \<times> csv list) result" where
  "run11_main E nn = finish export_full nn (run11_body E)"

section \<open>Property of the launch\<close>

text \<open>
  What a script starts. With an unknown mode it exits before anything is launched. Otherwise,
  when the build succeeds, the previous simulator is gone and the new one runs with the
  paths of the arguments, or their defaults below the working directory, and with
  \<open>mroExp\<close> true exactly in the DQN and MRO modes.
\<close>

theorem script_launch:
  assumes "load_json (or_default (cwd @ ''/rf_config.json'') (arg_rfConfigFileName a)) = Inr rf"
    and "mode = or_default ''no_ML'' (arg_runMode a)" and "build_ns3 outp"
  shows "(mode \<notin> {''DQN'', ''MRO'', ''no_ML''} \<longrightarrow>
      script_init T between outp os_environ load_json cwd a e b w = Inl SystemExit) \<and>
    (mode \<in> {''DQN'', ''MRO'', ''no_ML''} \<longrightarrow>
      (\<exists>cfg s ew c. script_init T between outp os_environ load_json cwd a e b w = Inr (cfg, s, ew, Some c) \<and>
        po_cmd c = ''./waf --run '' @ [CHR 0x22] @ ''UW-working'' @
          '' --resultDir='' @ or_default (cwd @ ''/results/'') (arg_resultsDir a) @
          '' --rfConfigFileName='' @ or_default (cwd @ ''/rf_config.json'') (arg_rfConfigFileName a) @
          '' --protocolConfigFileName='' @ or_default (cwd @ ''/protocol_config.json'') (arg_protocolConfigFileName a) @
          '' --mroExp='' @ (if mode = ''no_ML'' then ''False'' else ''True'') @ [CHR 0x22] \<and>
        po_cwd c = ''../..''))"
  using assms
  by (simp add: script_init_def parse_args_def launch_def Experiment_init_def exp_reset_def exp_kill_def
      exp_run_def run_single_ns3_def spawn_def ns3Settings_def cmd_arg_def Let_def)

lemma script_launch_witness:
  "\<forall>e b. script_init 5 (\<lambda>_. []) [CHR 0x27 # ''build'' @ [CHR 0x27] @ '' finished successfully''] Map.empty
     (\<lambda>f. Inr \<lparr>bs_locations = [], number_of_UE = 2\<rparr>) ''/home''
     \<lparr>arg_resultsDir = None, arg_rfConfigFileName = None, arg_protocolConfigFileName = None,
      arg_runMode = Some ''dqn''\<rparr> e b
     sample_world = Inl SystemExit"
proof (intro allI)
  fix e b
  let ?a = "\<lparr>arg_resultsDir = None, arg_rfConfigFileName = None, arg_protocolConfigFileName = None,
    arg_runMode = Some ''dqn''\<rparr>"
  have out: "build_ns3 [CHR 0x27 # ''build'' @ [CHR 0x27] @ '' finished successfully'']" by code_simp
  show "script_init 5 (\<lambda>_. []) [CHR 0x27 # ''build'' @ [CHR 0x27] @ '' finished successfully''] Map.empty
      (\<lambda>f. Inr \<lparr>bs_locations = [], number_of_UE = 2\<rparr>) ''/home'' ?a e b
      sample_world = Inl SystemExit"
    by (rule script_launch [THEN conjunct1, rule_format, OF refl refl out]) (simp add: or_default_def)
qed

end
