(* ===== verification/HandoverProps.thy ===== *)
theory HandoverProps
  imports Scripts
begin

text \<open>
  Properties of the handover scripts: totality of the loop bodies and of whole runs, what the
  throughput window computes, which parts of the state each script leaves alone, and the
  behaviours by which the variants differ.
\<close>

section \<open>What the statements leave alone\<close>

lemmas stmt_defs = push_history_def remember_def pick_action_def bind_action_def emit_action_def
  emit_256_def emit_pair_def mark_trail_def learn_now_def rx_append_def rx_window_def
  rx_throughput_def rx_append_full_def rx_window_full_def rx_throughput_full_def rx_append_tput_def
  rx_window_from_full_def clear_rx_def clear_ho_def set_reward_def log_value_def log_action_def
  log_index_def select_agent_def

lemmas body_defs = run_body_def run2_body_def run3_body_def run4_body_def run5_body_def run6_body_def
  run7_body_def run8_body_def run9_body_def run10_body_def run11_body_def rx_always_def rx_full_def
  rx_handover_def

text \<open>Positions and identity: only \<open>push_history\<close> writes the histories.\<close>

definition seen :: "'p script \<Rightarrow> double list \<times> double list \<times> double \<times> double \<times> int \<times> int" where
  "seen s = (x_arr s, y_arr s, env_x (env s), env_y (env s), env_imsi (env s), env_hoInProgress (env s))"

lemma seen_frame:
  "preserves seen (select_agent E ss na)" "preserves seen (remember f)" "preserves seen (pick_action E f)"
  "preserves seen bind_action" "preserves seen emit_action" "preserves seen emit_256"
  "preserves seen emit_pair" "preserves seen mark_trail" "preserves seen (learn_now E)"
  "preserves seen rx_append" "preserves seen (rx_window w)" "preserves seen (rx_throughput w)"
  "preserves seen rx_append_full" "preserves seen (rx_window_full w)" "preserves seen (rx_throughput_full w)"
  "preserves seen rx_append_tput" "preserves seen (rx_window_from_full w)" "preserves seen clear_rx"
  "preserves seen clear_ho" "preserves seen (set_reward w)" "preserves seen log_action"
  "preserves seen log_index"
  by (auto simp: preserves_def stmt_defs ebind_Inr_iff seen_def Let_def split: option.splits prod.splits)

text \<open>The values written back: only the emitting statements write them.\<close>

lemma act_frame:
  "preserves act (select_agent E ss na)" "preserves act (remember f)" "preserves act (pick_action E f)"
  "preserves act push_history"
  "preserves act bind_action" "preserves act mark_trail" "preserves act (learn_now E)"
  "preserves act rx_append" "preserves act (rx_window w)" "preserves act (rx_throughput w)"
  "preserves act rx_append_full" "preserves act (rx_window_full w)" "preserves act (rx_throughput_full w)"
  "preserves act rx_append_tput" "preserves act (rx_window_from_full w)" "preserves act clear_rx"
  "preserves act clear_ho" "preserves act (set_reward w)" "preserves act log_action"
  "preserves act log_index"
  by (auto simp: preserves_def stmt_defs ebind_Inr_iff Let_def split: option.splits prod.splits)

text \<open>The networks: only \<open>learn_now\<close> changes the weights of an agent that exists.\<close>

definition weights :: "'p script \<Rightarrow> double list \<times> (int \<rightharpoonup> 'p all_linear)" where
  "weights s = (loss_val s, \<lambda>i. map_option model (all_dqn s i))"

lemma put_agent_weights:
  assumes "cur_agent s = Inr d" and "model d' = model d"
  shows "weights (put_agent d' s) = weights s"
  using assms by (auto simp: weights_def put_agent_def cur_agent_Inr fun_eq_iff)

lemma weights_fields [simp]:
  "weights (s\<lparr>np_draws := k\<rparr>) = weights s"
  by (simp add: weights_def)

lemma store_transition_model: "store_transition d a b c e = Inr d' \<Longrightarrow> model d' = model d"
  by (auto dest!: store_transition_Inr simp: dqn_put_def)

lemma choose_action_model: "choose_action E k d x = Inr (i, d', k') \<Longrightarrow> model d' = model d"
  by (auto dest!: choose_action_dqn simp: decay_epsilon_def)

lemma cur_agent_np [simp]: "cur_agent (s\<lparr>np_draws := k\<rparr>) = cur_agent s"
  by (simp add: cur_agent_def split: option.split)

lemma weights_frame_agent:
  "preserves weights (remember f)" "preserves weights (pick_action E f)"
  "preserves weights mark_trail" "preserves weights (set_reward w)"
proof -
  show "preserves weights (remember f)"
    by (auto simp: preserves_def remember_def ebind_Inr_iff Let_def
        intro!: put_agent_weights dest!: store_transition_model)
  show "preserves weights (pick_action E f)"
    by (auto simp: preserves_def pick_action_def ebind_Inr_iff Let_def
        dest!: choose_action_model intro!: put_agent_weights [THEN trans])
  show "preserves weights mark_trail" "preserves weights (set_reward w)"
    by (auto simp: preserves_def mark_trail_def set_reward_def ebind_Inr_iff intro!: put_agent_weights)
qed

lemma weights_frame:
  "preserves weights push_history"
  "preserves weights bind_action" "preserves weights emit_action" "preserves weights emit_256"
  "preserves weights emit_pair" "preserves weights rx_append" "preserves weights (rx_window w)"
  "preserves weights (rx_throughput w)"
  "preserves weights rx_append_full" "preserves weights (rx_window_full w)"
  "preserves weights (rx_throughput_full w)"
  "preserves weights rx_append_tput" "preserves weights (rx_window_from_full w)" "preserves weights clear_rx"
  "preserves weights clear_ho" "preserves weights log_action" "preserves weights log_index"
  by (auto simp: preserves_def stmt_defs ebind_Inr_iff weights_def Let_def split: option.splits prod.splits)

text \<open>The agents of the other UEs: every statement works on the current one.\<close>

definition others :: "'p script \<Rightarrow> int option \<times> (int \<rightharpoonup> 'p dqn)" where
  "others s = (cur s, \<lambda>i. if cur s = Some i then None else all_dqn s i)"

lemma others_put_agent [simp]: "others (put_agent d s) = others s"
  by (auto simp: others_def put_agent_def fun_eq_iff split: option.splits)

lemma others_fields [simp]:
  "others (s\<lparr>np_draws := k\<rparr>) = others s" "others (s\<lparr>loss_val := l\<rparr>) = others s"
  by (simp_all add: others_def fun_eq_iff)

lemma others_frame:
  "preserves others push_history" "preserves others (remember f)" "preserves others (pick_action E f)"
  "preserves others bind_action" "preserves others emit_action" "preserves others emit_256"
  "preserves others emit_pair" "preserves others mark_trail" "preserves others (learn_now E)"
  "preserves others rx_append" "preserves others (rx_window w)" "preserves others (rx_throughput w)"
  "preserves others rx_append_full" "preserves others (rx_window_full w)" "preserves others (rx_throughput_full w)"
  "preserves others rx_append_tput" "preserves others (rx_window_from_full w)" "preserves others clear_rx"
  "preserves others clear_ho" "preserves others (set_reward w)" "preserves others log_action"
  "preserves others log_index"
proof -
  show "preserves others (remember f)" "preserves others (pick_action E f)" "preserves others mark_trail"
    "preserves others (learn_now E)" "preserves others (set_reward w)"
    by (auto simp: preserves_def stmt_defs ebind_Inr_iff Let_def)
qed (auto simp: preserves_def stmt_defs ebind_Inr_iff others_def Let_def split: option.splits prod.splits)

section \<open>Whole runs\<close>

definition messages_ok :: "nat \<Rightarrow> sim_msg list \<Rightarrow> bool" where
  "messages_ok N ms \<longleftrightarrow>
     (\<forall>t sz rid. PacketReception t sz rid \<in> set ms \<longrightarrow> 1 - int N \<le> rid \<and> rid \<le> int N)"

lemma deliver_id_ok: "id_ok N e \<Longrightarrow> messages_ok N (m # ms) \<Longrightarrow> id_ok N (deliver m e)"
  by (cases m) (auto simp: id_ok_def messages_ok_def)

definition idle_ok :: "nat \<Rightarrow> nat \<Rightarrow> nat \<Rightarrow> 'p script \<Rightarrow> bool" where
  "idle_ok ss T N s \<longleftrightarrow> script_ok False ss 10 T N s"

lemma ready_idle: "readyQ h ss 10 T N Q s \<Longrightarrow> idle_ok ss T N s"
  by (simp add: idle_ok_def ready_defs)

lemma run_loop_ok:
  assumes body: "totally (script_ok False ss 10 T N) body (readyQ False ss 10 T N Q)"
    and "idle_ok ss T N s" and "messages_ok N ms"
  shows "\<exists>s'. run_loop body ms s = Inr s' \<and> idle_ok ss T N s' \<and>
    (ms \<noteq> [] \<longrightarrow> (\<exists>d. cur_agent s' = Inr d) \<and> Q (action s') (act s') (env_hoInProgress (env s')))"
  using assms(2,3)
proof (induction ms arbitrary: s)
  case (Cons m ms)
  let ?s = "s\<lparr>env := deliver m (env s)\<rparr>"
  have "script_ok False ss 10 T N ?s"
    using Cons.prems deliver_id_ok [of N "env s" m ms] by (simp add: idle_ok_def script_defs)
  then obtain t where t: "body ?s = Inr t" "readyQ False ss 10 T N Q t"
    using totallyD [OF body] by blast
  have "messages_ok N ms" using Cons.prems(2) by (auto simp: messages_ok_def)
  from Cons.IH [OF ready_idle [OF t(2)] this]
  obtain s' where s': "run_loop body ms t = Inr s'" "idle_ok ss T N s'"
    "ms \<noteq> [] \<longrightarrow> (\<exists>d. cur_agent s' = Inr d) \<and> Q (action s') (act s') (env_hoInProgress (env s'))"
    by blast
  have "\<exists>d. cur_agent t = Inr d" and "Q (action t) (act t) (env_hoInProgress (env t))"
    using t(2) by (auto simp: readyQ_def elim!: readyE)
  then show ?case using t(1) s' by (cases ms) auto
qed simp

lemma init_idle:
  assumes "number_of_UE (rfConfig cfg) = int N" and "id_ok N e"
  shows "idle_ok ss T N (init_script T cfg e b)"
proof -
  have "nat (number_of_UE (rfConfig cfg) * 2) = 2 * N" using assms(1) by simp
  then show ?thesis
    using assms by (simp add: idle_ok_def script_defs init_script_def Let_def aligned_def)
qed

lemma run_loop_preserves:
  assumes "preserves F body" and "\<And>s e. F (s\<lparr>env := e\<rparr>) = F s"
  shows "run_loop body ms s = Inr s' \<Longrightarrow> F s' = F s"
proof (induction ms arbitrary: s)
  case (Cons m ms)
  then obtain t where t: "body (s\<lparr>env := deliver m (env s)\<rparr>) = Inr t" "run_loop body ms t = Inr s'"
    by (auto simp: ebind_Inr_iff)
  then show ?case using Cons.IH [OF t(2)] preservesD [OF assms(1) t(1)] assms(2) by simp
qed simp

definition demo_env :: env_in where
  "demo_env = \<lparr>env_x = 0, env_y = 0, env_time = 0, env_imsi = 0, env_cellId = 0, env_packetSize = 0,
     env_packetReceiverId = 0, env_rsrp = 0, env_packetRxFlag = 0, env_hoInProgress = 0, env_hoEnded = 0\<rparr>"

definition demo_act :: act_out where
  "demo_act = \<lparr>tttAdjustment = 0, hystAdjustment = 0\<rparr>"

definition demo_settings :: settings where
  "demo_settings = \<lparr>resultsDir = ''/r/'', rfConfigFileName = ''rf'', protocolConfigFileName = ''p'',
     runMode = ''DQN'', mroExp = True, rfConfig = \<lparr>bs_locations = [(1, 2)], number_of_UE = 2\<rparr>\<rparr>"

definition demo_script :: "nat \<Rightarrow> nat script" where
  "demo_script T = init_script T demo_settings demo_env demo_act"

lemma demo_ready:
  assumes "id_ok 2 e" and "env_hoEnded e \<noteq> 1"
  shows "script_ok h ss 10 T 2 ((demo_script T)\<lparr>env := e\<rparr>)"
proof -
  have "nat (number_of_UE (rfConfig demo_settings) * 2) = 4" by (simp add: demo_settings_def)
  moreover have "aligned 2 (replicate 4 [])" by (simp add: aligned_def)
  ultimately show ?thesis
    using assms by (simp add: script_defs demo_script_def init_script_def Let_def)
qed

lemma demo_idle: "idle_ok ss T 2 (demo_script T)"
  unfolding demo_script_def
  by (rule init_idle) (simp_all add: demo_settings_def demo_env_def id_ok_def)

lemma sum_window:
  "(\<Sum>i \<leftarrow> [0..<length xs]. if P (xs ! i) then c else 0) = c * of_nat (length (filter P xs))"
  for c :: rat
proof -
  have "(\<Sum>i \<leftarrow> [0..<length xs]. if P (xs ! i) then c else 0) = (\<Sum>x \<leftarrow> xs. if P x then c else 0)"
    using arg_cong [OF map_nth [of xs], of "\<lambda>l. \<Sum>x \<leftarrow> l. if P x then c else 0"] by (simp add: comp_def)
  also have "\<dots> = c * of_nat (length (filter P xs))"
    by (induction xs) (simp_all add: algebra_simps)
  finally show ?thesis .
qed

lemma window_sum_sorted:
  assumes "aligned N r" and "id_ok N e" and "sorted (r ! (2 * ue N e))"
    and "set (r ! (2 * ue N e + 1)) \<subseteq> {536}"
  shows "window_sum width e r =
    Inr (536 * of_nat (length (filter (\<lambda>t. py_sub (now3 e) width \<le> t) (r ! (2 * ue N e)))))"
proof -
  let ?ts = "r ! (2 * ue N e)" and ?bs = "r ! (2 * ue N e + 1)" and ?c = "py_sub (now3 e) width"
  have len: "length ?ts = length ?bs" using assms(1) slot_index(1) [OF assms(2)] by (simp add: aligned_def)
  have "(\<Sum>i \<leftarrow> [0..<length ?ts]. if ?c \<le> ?ts ! i then ?bs ! i else 0) =
      (\<Sum>i \<leftarrow> [0..<length ?ts]. if ?c \<le> ?ts ! i then 536 else 0)"
    using assms(4) len by (intro arg_cong [of _ _ sum_list] map_cong) (auto dest!: nth_mem)
  also have "\<dots> = 536 * of_nat (length (filter (\<lambda>t. ?c \<le> t) ?ts))" by (rule sum_window)
  finally have "window_loop ?ts ?bs ?c (length ?ts) 0 =
      Inr (536 * of_nat (length (filter (\<lambda>t. ?c \<le> t) ?ts)))"
    using window_loop_sorted [OF assms(3), of "length ?ts" ?bs ?c 0] len by simp
  then show ?thesis
    using slot_index [OF assms(2)] assms(1) by (simp add: window_sum_def py_nth_def aligned_def)
qed

text \<open>The positions the messages carry, whichever UE they are about.\<close>

fun x_after :: "double \<Rightarrow> sim_msg \<Rightarrow> double" where
  "x_after v (TableRead px py) = px"
| "x_after v m = v"

fun xs_seen :: "double \<Rightarrow> sim_msg list \<Rightarrow> double list" where
  "xs_seen v [] = []"
| "xs_seen v (m # ms) = x_after v m # xs_seen (x_after v m) ms"

lemma env_x_deliver: "env_x (deliver m e) = x_after (env_x e) m"
  by (cases m) simp_all

lemma push_take: "xs \<noteq> [] \<Longrightarrow> push v xs = take (length xs) (v # xs)"
  by (cases xs) (simp_all add: push_def np_roll_def butlast_conv_take)

lemma take_append_take: "take n (xs @ take n ys) = take n (xs @ ys)"
  by (simp add: min_def)

lemma run_body_seen:
  assumes "run_body E s = Inr s'"
  shows "x_arr s' = push (env_x (env s)) (x_arr s)" and "env_x (env s') = env_x (env s)"
proof -
  obtain t u where t: "select_agent E 12 (length action_space) s = Inr t" and u: "push_history t = Inr u"
    and r: "block [py_if not_first [remember features_hist], pick_action E features_hist, bind_action,
      emit_action, mark_trail, py_if rx_flag rx_always, py_if learn_due [learn_now E]] u = Inr s'"
    using assms by (auto simp: run_body_def ebind_Inr_iff)
  have "preserves seen (block [py_if not_first [remember features_hist], pick_action E features_hist,
      bind_action, emit_action, mark_trail, py_if rx_flag rx_always, py_if learn_due [learn_now E]])"
    unfolding rx_always_def by (intro preserves_intros seen_frame)
  from preservesD [OF this r] preservesD [OF seen_frame(1) t] u
  show "x_arr s' = push (env_x (env s)) (x_arr s)" and "env_x (env s') = env_x (env s)"
    by (auto simp: seen_def push_history_def)
qed

text \<open>Weights of existing agents, and losses, across a body without a learning statement.\<close>

definition same_weights :: "'p script \<Rightarrow> 'p script \<Rightarrow> bool" where
  "same_weights s s' \<longleftrightarrow> loss_val s' = loss_val s \<and>
     (\<forall>i d. all_dqn s i = Some d \<longrightarrow> (\<exists>d'. all_dqn s' i = Some d' \<and> model d' = model d))"

lemma same_weights_trans: "same_weights s t \<Longrightarrow> same_weights t u \<Longrightarrow> same_weights s u"
  by (auto simp: same_weights_def) metis

lemma weights_same: "weights s' = weights s \<Longrightarrow> same_weights s s'"
  by (auto simp: weights_def same_weights_def fun_eq_iff) (metis map_option_eq_Some)

lemma select_same_weights: "select_agent E ss na s = Inr s' \<Longrightarrow> same_weights s s'"
  by (auto simp: select_agent_def same_weights_def Let_def split: option.splits)

lemma no_learn_body:
  assumes "body \<in> {run4_body E, run5_body E}" and "body s = Inr s'"
  shows "same_weights s s'"
proof -
  have r4: "preserves weights (block [py_if not_first [remember features_now], pick_action E features_now,
      bind_action, emit_action, mark_trail, py_if rx_flag rx_always])"
    unfolding rx_always_def by (intro preserves_intros weights_frame weights_frame_agent)
  have r5: "preserves weights (block [py_if in_handover [py_if not_first [remember features_now],
        pick_action E features_now, bind_action, emit_action, mark_trail],
      py_if rx_flag (rx_full @ [py_if in_handover (rx_handover log_action)]), py_if ho_ended [clear_ho]])"
    unfolding rx_full_def rx_handover_def by (intro preserves_intros weights_frame weights_frame_agent)
  from assms obtain t where t: "select_agent E 4 (length action_space) s = Inr t" and "weights s' = weights t"
    by (auto simp: run4_body_def run5_body_def ebind_Inr_iff simp del: block.simps
        simp: block.simps(2) [of "select_agent E 4 (length action_space)"]
        dest!: preservesD [OF r4] preservesD [OF r5])
  then show ?thesis using select_same_weights weights_same same_weights_trans by metis
qed

text \<open>Each body selects the agent of the message first, and then works on that agent only.\<close>

lemma body_rest:
  assumes "body \<in> {run_body E, run2_body E, run3_body E, run4_body E, run5_body E, run6_body E,
      run7_body E, run8_body E, run9_body E, run10_body E, run11_body E}"
  obtains ss na cs where "body = block (select_agent E ss na # cs)" and "preserves others (block cs)"
proof -
  have "\<exists>ss na cs. body = block (select_agent E ss na # cs) \<and> preserves others (block cs)"
    using assms unfolding body_defs
    by (elim insertE emptyE)
      (simp only:, intro exI conjI refl preserves_intros others_frame append_Cons append_Nil)+
  then show ?thesis using that by blast
qed

section \<open>Properties\<close>

text \<open>
  C9. The scripts that act on every message never fail on one: with a receiver id the lists
  have room for (and, for the two that learn at the end of a handover, an agent that has
  stored a transition), the body returns, keeps every list, agent and history well formed,
  and the time-to-trigger it hands to the simulator is one of the ten of its action space.
\<close>

theorem handover_always_total:
  assumes "ext_ok E"
    and "(body, h, ss, T) \<in> {(run_body E, False, 12, 5), (run2_body E, False, 12, 0),
           (run3_body E, False, 4, 0), (run4_body E, False, 4, 0), (run8_body E, True, 4, 0),
           (run9_body E, True, 4, 5)}"
    and "script_ok h ss 10 T N s"
  shows "\<exists>s'. body s = Inr s' \<and> agents_ok ss 10 s' \<and> lists_ok N s' \<and> hist_ok T s' \<and>
    tttAdjustment (act s') \<in> set action_space"
proof -
  have "totally (script_ok h ss 10 T N) body (readyQ h ss 10 T N acts)"
    using assms(2) run_body_ok [OF assms(1)] run2_body_ok [OF assms(1)] run3_body_ok [OF assms(1)]
      run4_body_ok [OF assms(1)] run8_body_ok [OF assms(1)] run9_body_ok [OF assms(1)] by auto
  from totallyD [OF this assms(3)] show ?thesis
    by (auto simp: readyQ_def ready_def script_ok_def acts_def acted_def)
qed

lemma handover_always_total_witness:
  "\<exists>s'. run3_body demo_ext (demo_script 0) = Inr s' \<and> tttAdjustment (act s') \<in> set action_space"
  using handover_always_total [OF demo_ext_ok, of "run3_body demo_ext" False 4 0 2 "demo_script 0"]
    demo_idle [of 4 0] by (auto simp: idle_ok_def)

text \<open>
  C10. The scripts that act during handovers only have the same guarantee: the body returns
  and keeps the state well formed, and on a message of a handover the
  time-to-trigger handed back is one of the action space, for \<open>run11.py\<close> together with a
  hysteresis of its second space.
\<close>

theorem handover_gated_total:
  assumes "ext_ok E"
    and "(body, h, ss, na, T) \<in> {(run5_body E, False, 4, 10, 0), (run6_body E, True, 4, 10, 0),
           (run7_body E, True, 22, 10, 10), (run10_body E, True, 12, 10, 5), (run11_body E, True, 4, 60, 1)}"
    and "script_ok h ss na T N s"
  shows "\<exists>s'. body s = Inr s' \<and> agents_ok ss na s' \<and> lists_ok N s' \<and> hist_ok T s' \<and>
    (env_hoInProgress (env s') = 1 \<longrightarrow> tttAdjustment (act s') \<in> set action_space \<and>
       (na = 60 \<longrightarrow> hystAdjustment (act s') \<in> set action_space2))"
proof -
  have "totally (script_ok h ss na T N) body (readyQ h ss na T N (if na = 60 then acts_pair else acts_gated))"
    using assms(2) run5_body_ok [OF assms(1)] run6_body_ok [OF assms(1)] run7_body_ok [OF assms(1)]
      run10_body_ok [OF assms(1)] run11_body_ok [OF assms(1)] by auto
  from totallyD [OF this assms(3)] show ?thesis
    by (auto simp: readyQ_def ready_def script_ok_def acts_gated_def acts_pair_def acted_def acted_pair_def
        split: if_splits)
qed

lemma handover_gated_total_witness:
  "\<exists>s'. run5_body demo_ext (demo_script 0) = Inr s' \<and> lists_ok 2 s'"
  using handover_gated_total [OF demo_ext_ok, of "run5_body demo_ext" False 4 10 0 2 "demo_script 0"]
    demo_idle [of 4 0] by (auto simp: idle_ok_def)

text \<open>
  The scripts that learn when a handover ends: everything before that statement is total, and the statement itself
  fails on an empty memory only.
\<close>

definition ends_learning :: "'p ext \<Rightarrow> 'p script stmt list" where
  "ends_learning E = [py_if ho_ended [learn_now E, clear_ho]]"

definition the_flag :: "'p script \<Rightarrow> int" where
  "the_flag s = env_hoEnded (env s)"

lemma flag_frame:
  "preserves the_flag (select_agent E ss na)" "preserves the_flag push_history" "preserves the_flag (remember f)"
  "preserves the_flag (pick_action E f)" "preserves the_flag bind_action" "preserves the_flag emit_action"
  "preserves the_flag emit_256" "preserves the_flag emit_pair" "preserves the_flag mark_trail"
  "preserves the_flag (learn_now E)"
  "preserves the_flag rx_append" "preserves the_flag (rx_window w)" "preserves the_flag (rx_throughput w)"
  "preserves the_flag rx_append_full" "preserves the_flag (rx_window_full w)" "preserves the_flag (rx_throughput_full w)"
  "preserves the_flag rx_append_tput" "preserves the_flag (rx_window_from_full w)" "preserves the_flag clear_rx"
  "preserves the_flag (set_reward w)" "preserves the_flag log_action" "preserves the_flag log_index"
  by (auto simp: preserves_def stmt_defs ebind_Inr_iff the_flag_def Let_def split: option.splits prod.splits)

lemma learning_bodies:
  assumes "ext_ok E"
    and "(body, ss, na, T) \<in> {(run6_body E, 4, 10, 0), (run7_body E, 22, 10, 10), (run8_body E, 4, 10, 0),
           (run9_body E, 4, 10, 5), (run10_body E, 12, 10, 5), (run11_body E, 4, 60, 1)}"
  obtains p Q where "body = block (p @ ends_learning E)" "preserves the_flag (block p)"
    "totally (script_ok False ss na T N) (block p) (readyQ False ss na T N Q)" "0 < ss"
proof -
  note select = totally_block_Cons [OF select_agent_ok]
  note frame = preserves_intros flag_frame
  consider "body = run6_body E" "ss = 4" "na = 10" "T = 0" | "body = run7_body E" "ss = 22" "na = 10" "T = 10"
    | "body = run8_body E" "ss = 4" "na = 10" "T = 0" | "body = run9_body E" "ss = 4" "na = 10" "T = 5"
    | "body = run10_body E" "ss = 12" "na = 10" "T = 5" | "body = run11_body E" "ss = 4" "na = 60" "T = 1"
    using assms(2) by auto
  then show ?thesis
  proof cases
    case 1
    let ?p = "[select_agent E 4 (length action_space), py_if in_handover
        [py_if not_first [remember features_now], pick_action E features_now, bind_action, emit_action, mark_trail,
         py_if rx_flag rx_always]]"
    have "totally (script_ok False 4 10 0 N) (block ?p) (readyQ False 4 10 0 N acts_gated)"
      unfolding ten_actions acts_gated_def [abs_def]
    proof (rule select, simp, rule totally_block_Cons [OF gate [where A = acted] totally_block_Nil])
      show "totally (readyQ False 4 10 0 N (\<lambda>_ _ _. True))
          (block [py_if not_first [remember features_now], pick_action E features_now, bind_action,
             emit_action, mark_trail, py_if rx_flag rx_always])
          (readyQ False 4 10 0 N (\<lambda>a b hp. acted a b))"
        using always_group [OF assms(1), of 0 features_now 4 emit_action False N "[]"]
        by (simp add: features_length totally_block_Nil acts_def [abs_def])
    qed
    moreover have "preserves the_flag (block ?p)" unfolding rx_always_def by (intro frame)
    ultimately show ?thesis using that [of ?p] 1 by (simp add: run6_body_def ends_learning_def)
  next
    case 2
    note g = gated_hist_group [OF assms(1), where T = 10 and h = False and N = N, simplified]
    let ?p = "[select_agent E 22 (length action_space), py_if in_handover
        [push_history, py_if not_first [remember features_hist], pick_action E features_hist, bind_action,
         emit_action, mark_trail],
      py_if rx_flag (rx_full @ [py_if in_handover (rx_handover log_action)])]"
    have "totally (script_ok False 22 10 10 N) (block ?p) (readyQ False 22 10 10 N acts_gated)"
      unfolding ten_actions acts_gated_def [abs_def]
      by (rule select [OF _ totally_block_Cons [OF g totally_block_Cons [OF rx_full_then [OF rx_handover_acted] totally_block_Nil]]]) simp_all
    moreover have "preserves the_flag (block ?p)" unfolding rx_full_def rx_handover_def append_Cons append_Nil by (intro frame)
    ultimately show ?thesis using that [of ?p] 2 by (simp add: run7_body_def ends_learning_def)
  next
    case 3
    let ?p = "[select_agent E 4 (length action_space), py_if not_first [remember features_now],
      pick_action E features_now, bind_action, emit_256, mark_trail, py_if rx_flag rx_always]"
    have "totally (script_ok False 4 10 0 N) (block ?p) (readyQ False 4 10 0 N acts)"
      unfolding ten_actions
      by (rule select, simp, rule always_group [OF assms(1)]) (auto simp: features_length intro!: totally_block_Nil)
    moreover have "preserves the_flag (block ?p)" unfolding rx_always_def by (intro frame)
    ultimately show ?thesis using that [of ?p] 3 by (simp add: run8_body_def ends_learning_def)
  next
    case 4
    let ?p = "[select_agent E 4 (length action_space), push_history, py_if not_first [remember features_now],
      pick_action E features_now, bind_action, emit_256, mark_trail, py_if rx_flag rx_always]"
    have "totally (script_ok False 4 10 5 N) (block ?p) (readyQ False 4 10 5 N acts)"
      unfolding ten_actions
      by (rule select, simp, rule totally_block_Cons [OF push_history_ok], rule always_group [OF assms(1)])
        (auto simp: features_length intro!: totally_block_Nil)
    moreover have "preserves the_flag (block ?p)" unfolding rx_always_def by (intro frame)
    ultimately show ?thesis using that [of ?p] 4 by (simp add: run9_body_def ends_learning_def)
  next
    case 5
    note g = gated_hist_group [OF assms(1), where T = 5 and h = False and N = N, simplified]
    let ?p = "[select_agent E 12 (length action_space), py_if in_handover
        [push_history, py_if not_first [remember features_hist], pick_action E features_hist, bind_action,
         emit_action, mark_trail],
      py_if rx_flag (rx_full @ [py_if in_handover [rx_append_tput, rx_window_from_full binWidth2,
        rx_throughput binWidth2, set_reward binWidth2, log_action]])]"
    have "totally (script_ok False 12 10 5 N) (block ?p) (readyQ False 12 10 5 N acts_gated)"
      unfolding ten_actions acts_gated_def [abs_def]
      by (rule select [OF _ totally_block_Cons [OF g totally_block_Cons [OF rx_full_then [OF run10_handover_acted] totally_block_Nil]]]) simp_all
    moreover have "preserves the_flag (block ?p)" unfolding rx_full_def append_Cons append_Nil by (intro frame)
    ultimately show ?thesis using that [of ?p] 5 by (simp add: run10_body_def ends_learning_def)
  next
    case 6
    let ?p = "[select_agent E 4 (length action_space * length action_space2), py_if in_handover
        [push_history, py_if not_first [remember features_hist], pick_action E features_hist, emit_pair, mark_trail],
      py_if rx_flag (rx_full @ [py_if in_handover (rx_handover log_index)])]"
    have "totally (readyQ False 4 60 1 N (\<lambda>_ _ _. True))
        (block [push_history, py_if not_first [remember features_hist], pick_action E features_hist, emit_pair, mark_trail])
        (readyQ False 4 60 1 N (\<lambda>a b hp. acted_pair b))"
      by (rule totally_block_Cons [OF push_history_ok], rule act_group_pair [OF assms(1) _ _ totally_block_Nil])
        (auto simp: features_length ten_actions)
    note g = gate [OF this]
    note f = rx_full_then [OF rx_handover_ok [OF log_index_ok], of False 4 60 1 N "\<lambda>a b. acted_pair b"]
    have sixty: "(10 :: nat) * 6 = 60" by simp
    have "totally (script_ok False 4 60 1 N) (block ?p) (readyQ False 4 60 1 N acts_pair)"
      unfolding ten_actions sixty acts_pair_def [abs_def]
      by (rule select [OF _ totally_block_Cons [OF g totally_block_Cons [OF f totally_block_Nil]]]) simp_all
    moreover have "preserves the_flag (block ?p)" unfolding rx_full_def rx_handover_def append_Cons append_Nil by (intro frame)
    ultimately show ?thesis using that [of ?p] 6 by (simp add: run11_body_def ends_learning_def)
  qed
qed

lemma ends_learning_outcome:
  assumes "ext_ok E" "0 < ss" "readyQ False ss na T N Q s"
  shows "(\<exists>s'. block (ends_learning E) s = Inr s' \<and> readyQ False ss na T N Q s' \<and>
      (the_flag s' = 1 \<longrightarrow> the_flag s = 1)) \<or>
    (block (ends_learning E) s = Inl ValueError \<and> the_flag s = 1)"
proof (cases "ho_ended s")
  case True
  from assms(3) obtain d where d: "cur_agent s = Inr d" "agent_ok ss na d" by (auto simp: readyQ_def elim!: readyE)
  show ?thesis
  proof (cases "memory_couter d = 0")
    case True
    then have "learn_now E s = Inl ValueError" using d by (simp add: learn_now_def agent_ok_def learn_empty_memory)
    then show ?thesis using \<open>ho_ended s\<close> by (simp add: ends_learning_def ho_ended_def the_flag_def)
  next
    case False
    then obtain t where t: "learn_now E s = Inr t" "readyQ False ss na T N Q t"
      using totallyD [OF learn_now_ok [OF assms(1,2)], of False na T N Q s] assms(3) d(1) by auto
    obtain s' where "clear_ho t = Inr s'" "readyQ False ss na T N Q s'" using totallyD [OF clear_ho_ok t(2)] by blast
    then show ?thesis using t(1) True by (auto simp: ends_learning_def ho_ended_def the_flag_def)
  qed
next
  case False
  then show ?thesis using assms(3) by (simp add: ends_learning_def)
qed

lemma learning_body_outcome:
  assumes "ext_ok E" "0 < ss" "body = block (p @ ends_learning E)" "preserves the_flag (block p)"
    and "totally (script_ok False ss na T N) (block p) (readyQ False ss na T N Q)"
    and "script_ok False ss na T N s"
  shows "(\<exists>s'. body s = Inr s' \<and> readyQ False ss na T N Q s' \<and> (the_flag s' = 1 \<longrightarrow> the_flag s = 1)) \<or>
    (body s = Inl ValueError \<and> the_flag s = 1)"
proof -
  obtain t where t: "block p s = Inr t" "readyQ False ss na T N Q t" using totallyD [OF assms(5,6)] by blast
  have "the_flag t = the_flag s" by (rule preservesD [OF assms(4) t(1)])
  then show ?thesis using ends_learning_outcome [OF assms(1,2) t(2)] by (simp add: assms(3) block_append t(1))
qed

lemma run_loop_outcome:
  assumes body: "\<And>s. script_ok False ss na T N s \<Longrightarrow>
      (\<exists>s'. body s = Inr s' \<and> readyQ False ss na T N Q s' \<and> (L \<longrightarrow> the_flag s' = 1 \<longrightarrow> the_flag s = 1)) \<or>
      (L \<and> body s = Inl ValueError \<and> the_flag s = 1)"
    and "script_ok False ss na T N s" "messages_ok N ms"
  shows "(\<exists>s'. run_loop body ms s = Inr s' \<and> script_ok False ss na T N s' \<and> (ms \<noteq> [] \<longrightarrow> (\<exists>d. cur_agent s' = Inr d))) \<or>
    (L \<and> run_loop body ms s = Inl ValueError \<and> (HoEnded \<in> set ms \<or> the_flag s = 1))"
  using assms(2,3)
proof (induction ms arbitrary: s)
  case (Cons m ms)
  let ?s = "s\<lparr>env := deliver m (env s)\<rparr>"
  have s: "script_ok False ss na T N ?s"
    using Cons.prems deliver_id_ok [of N "env s" m ms] by (simp add: script_defs)
  have flag: "the_flag ?s = 1 \<Longrightarrow> m = HoEnded \<or> the_flag s = 1" by (cases m) (simp_all add: the_flag_def)
  have ms: "messages_ok N ms" using Cons.prems(2) by (auto simp: messages_ok_def)
  from body [OF s] show ?case
  proof (elim disjE exE conjE)
    fix t assume t: "body ?s = Inr t" "readyQ False ss na T N Q t" "L \<longrightarrow> the_flag t = 1 \<longrightarrow> the_flag ?s = 1"
    have "\<exists>d. cur_agent t = Inr d" using t(2) by (auto simp: readyQ_def elim!: readyE)
    moreover have "script_ok False ss na T N t" using t(2) by (simp add: ready_defs)
    ultimately show ?thesis using Cons.IH [of t] ms t(1,3) flag by (cases ms) auto
  next
    assume "L" "body ?s = Inl ValueError" "the_flag ?s = 1"
    then show ?thesis using flag by auto
  qed
qed simp

text \<open>
  C11. A whole run of any of the eleven scripts in the DQN mode, from its initial state over any sequence of messages whose
  receivers exist. Without a message it dies with a \<open>NameError\<close> on \<open>dqn\<close> before it has written a file. Otherwise it
  ends with a saved model and the exported files, except that the six scripts that learn when a handover ends can die with a
  \<open>ValueError\<close>, and then the end of a handover was reported.
\<close>

theorem script_runs_to_end:
  fixes E :: "'p ext"
  assumes "ext_ok E"
    and "(body, ss, na, T, L) \<in> {(run_body E, 12, 10, 5, False), (run2_body E, 12, 10, 0, False),
           (run3_body E, 4, 10, 0, False), (run4_body E, 4, 10, 0, False), (run5_body E, 4, 10, 0, False),
           (run6_body E, 4, 10, 0, True), (run7_body E, 22, 10, 10, True), (run8_body E, 4, 10, 0, True),
           (run9_body E, 4, 10, 5, True), (run10_body E, 12, 10, 5, True), (run11_body E, 4, 60, 1, True)}"
    and "number_of_UE (rfConfig cfg) = int N" and "id_ok N e" and "messages_ok N ms"
    and "runMode cfg = ''DQN''"
  shows "(ms = [] \<longrightarrow> finish export_files nn body cfg ms (init_script T cfg e b) = Inl (NameError ''dqn'')) \<and>
    (ms \<noteq> [] \<longrightarrow>
      (\<exists>s' d. run_loop body ms (init_script T cfg e b) = Inr s' \<and> lists_ok N s' \<and> agents_ok ss na s' \<and>
         cur_agent s' = Inr d \<and>
         finish export_files nn body cfg ms (init_script T cfg e b) = Inr (Some (model d), export_files cfg s')) \<or>
      (L \<and> (HoEnded \<in> set ms \<or> env_hoEnded e = 1) \<and>
         finish export_files nn body cfg ms (init_script T cfg e b) = Inl ValueError))"
proof -
  let ?s = "init_script T cfg e b :: 'p script"
  have start: "script_ok False ss na T N ?s"
    using assms(3,4) by (simp add: script_defs init_script_def Let_def aligned_def nat_mult_distrib)
  have "(\<exists>s'. run_loop body ms ?s = Inr s' \<and> script_ok False ss na T N s' \<and> (ms \<noteq> [] \<longrightarrow> (\<exists>d. cur_agent s' = Inr d))) \<or>
    (L \<and> run_loop body ms ?s = Inl ValueError \<and> (HoEnded \<in> set ms \<or> the_flag ?s = 1))"
  proof (cases L)
    case True
    then have "(body, ss, na, T) \<in> {(run6_body E, 4, 10, 0), (run7_body E, 22, 10, 10), (run8_body E, 4, 10, 0),
        (run9_body E, 4, 10, 5), (run10_body E, 12, 10, 5), (run11_body E, 4, 60, 1)}"
      using assms(2) by auto
    from learning_bodies [OF assms(1) this] obtain p Q where
      p: "body = block (p @ ends_learning E)" "preserves the_flag (block p)"
        "totally (script_ok False ss na T N) (block p) (readyQ False ss na T N Q)" "0 < ss" by metis
    show ?thesis
      by (rule run_loop_outcome [where Q = Q, OF _ start assms(5)])
        (use learning_body_outcome [OF assms(1) p(4,1,2,3)] True in blast)
  next
    case False
    then have na: "na = 10" using assms(2) by auto
    have tot: "totally (script_ok False ss 10 T N) body (readyQ False ss 10 T N (\<lambda>_ _ _. True))"
      using assms(2) False run_body_ok [OF assms(1), of False N] run2_body_ok [OF assms(1), of False 0 N]
        run3_body_ok [OF assms(1), of False 0 N] run4_body_ok [OF assms(1), of False 0 N]
        run5_body_ok [OF assms(1), of False 0 N]
      by (auto intro: totally_weaken readyQ_mono)
    show ?thesis
      by (rule run_loop_outcome [where Q = "\<lambda>_ _ _. True", OF _ start assms(5)])
        (use totallyD [OF tot] False na in blast)
  qed
  moreover have "loop_step cfg nn body = body" using assms(6) by (simp add: loop_step_def)
  moreover have "cur_agent ?s = Inl (NameError ''dqn'')" "the_flag ?s = env_hoEnded e"
    by (simp_all add: cur_agent_def init_script_def the_flag_def Let_def)
  ultimately show ?thesis
    using assms(6) by (cases "ms = []") (auto simp: finish_def script_ok_def)
qed

lemma script_runs_to_end_witness:
  "finish export (\<lambda>_. 0) (run_body demo_ext) demo_settings [] (demo_script 5) = Inl (NameError ''dqn'') \<and>
   (\<exists>w fs. finish export (\<lambda>_. 0) (run6_body demo_ext) demo_settings
      [LoadIds 1 7 1 50, HoStarted, PacketReception 1 600 2] (demo_script 0) = Inr (Some w, fs))"
  using script_runs_to_end [OF demo_ext_ok, of "run_body demo_ext" 12 10 5 False demo_settings 2 demo_env "[]"
      export "\<lambda>_. 0" demo_act]
    script_runs_to_end [OF demo_ext_ok, of "run6_body demo_ext" 4 10 0 True demo_settings 2 demo_env
      "[LoadIds 1 7 1 50, HoStarted, PacketReception 1 600 2]" export "\<lambda>_. 0" demo_act]
  by (auto simp: demo_settings_def demo_script_def demo_env_def id_ok_def messages_ok_def)

text \<open>
  C12. The throughput of a reception is exact up to one rounding. On a UE's pair of lists with
  sorted times up to now and packets of 536 bytes, recording a packet appends it to the
  pair, keeps the times sorted, and appends to the throughput pair the number of the UE's
  packets inside the window, times 536, divided by the window's width: the loop's early exit
  loses no packet. The lists of the other UEs do not change.
\<close>

theorem throughput_window:
  assumes "aligned N (recievedPacketRecord s)" and "length (throughputRecord s) = 2 * N"
    and "id_ok N (env s)" and "width \<noteq> 0" and "j = ue N (env s)"
    and "sorted (recievedPacketRecord s ! (2 * j))"
    and "\<forall>t \<in> set (recievedPacketRecord s ! (2 * j)). t \<le> now3 (env s)"
    and "set (recievedPacketRecord s ! (2 * j + 1)) \<subseteq> {536}"
  shows "\<exists>s'. block [rx_append, rx_window width, rx_throughput width] s = Inr s' \<and>
    recievedPacketRecord s' = add_pair j (now3 (env s)) 536 (recievedPacketRecord s) \<and>
    sorted (recievedPacketRecord s' ! (2 * j)) \<and> set (recievedPacketRecord s' ! (2 * j + 1)) \<subseteq> {536} \<and>
    throughputRecord s' = add_pair j (now3 (env s))
      (fl (536 * of_nat (length (filter (\<lambda>t. py_sub (now3 (env s)) width \<le> t)
         (recievedPacketRecord s' ! (2 * j)))) / width)) (throughputRecord s)"
proof -
  let ?r = "add_pair j (now3 (env s)) 536 (recievedPacketRecord s)"
  have j: "j < N" "py_index (2 * N) (slot (env s) + 1) = Some (2 * j + 1)"
    using slot_index [OF assms(3)] assms(5) by simp_all
  have len: "length (recievedPacketRecord s) = 2 * N" using assms(1) by (simp add: aligned_def)
  have al: "aligned N ?r" using assms(1) j(1) by (rule add_pair_aligned)
  have srt: "sorted (?r ! (2 * j))"
    using assms(6,7) add_pair_nth(1) [OF len j(1)] by (simp add: sorted_snoc)
  have bytes: "set (?r ! (2 * j + 1)) \<subseteq> {536}"
    using assms(8) add_pair_nth(2) [OF len j(1)] by auto
  have w: "window_sum width (env s) ?r = Inr (536 * of_nat (length (filter
      (\<lambda>t. py_sub (now3 (env s)) width \<le> t) (?r ! (2 * j)))))"
    using window_sum_sorted [OF al assms(3)] srt bytes assms(5) by simp
  show ?thesis
    using rx_append_eq [OF assms(1-3)] w srt bytes j assms(2,4)
    by (simp add: assms(5) [symmetric] rx_window_def rx_throughput_def py_div_def push_at_ok add_pair_def)
qed

lemma throughput_window_witness:
  "\<exists>s'. block [rx_append, rx_window binWidth, rx_throughput binWidth]
       ((demo_script 0)\<lparr>env := demo_env\<lparr>env_packetReceiverId := 1\<rparr>\<rparr>) = Inr s' \<and>
     recievedPacketRecord s' ! 1 = [536]"
proof -
  let ?s = "(demo_script 0)\<lparr>env := demo_env\<lparr>env_packetReceiverId := 1\<rparr>\<rparr>"
  have "recievedPacketRecord ?s = replicate 4 []" "throughputRecord ?s = replicate 4 []"
    by (simp_all add: demo_script_def init_script_def demo_settings_def Let_def)
  moreover have "ue 2 (env ?s) = 0" "id_ok 2 (env ?s)" by (simp_all add: ue_def id_ok_def)
  ultimately show ?thesis
    using throughput_window [of 2 ?s binWidth 0] by (auto simp: aligned_def add_pair_def)
qed

text \<open>
  The position history of \<open>run.py\<close> is one history for all UEs: after any run it holds the
  x coordinates current at the last five messages, whatever UE or event each message was about, so the
  features of one UE's agent contain positions of the others.
\<close>

theorem run_history_is_shared:
  assumes "run_loop (run_body E) ms s = Inr s'" and "length (x_arr s) = 5"
  shows "x_arr s' = take 5 (rev (xs_seen (env_x (env s)) ms) @ x_arr s)"
  using assms
proof (induction ms arbitrary: s)
  case (Cons m ms)
  let ?s = "s\<lparr>env := deliver m (env s)\<rparr>"
  obtain t where t: "run_body E ?s = Inr t" and r: "run_loop (run_body E) ms t = Inr s'"
    using Cons.prems(1) by (auto simp: ebind_Inr_iff)
  let ?v = "x_after (env_x (env s)) m"
  have x: "x_arr t = push ?v (x_arr s)" "env_x (env t) = ?v"
    using run_body_seen [OF t] by (simp_all add: env_x_deliver)
  have "x_arr s \<noteq> []" using Cons.prems(2) by auto
  then have "x_arr t = take 5 (?v # x_arr s)" using push_take [of "x_arr s"] x(1) Cons.prems(2) by simp
  moreover have "length (x_arr t) = 5" using x(1) Cons.prems(2) by simp
  ultimately have "x_arr s' = take 5 (rev (xs_seen ?v ms) @ take 5 (?v # x_arr s))"
    using Cons.IH [OF r] x(2) by metis
  then show ?case unfolding take_append_take by simp
qed (simp add: assms)

lemma run_history_is_shared_witness:
  "\<exists>s'. run_loop (run_body demo_ext) [LoadIds 1 7 1 50, TableRead 3 4, LoadIds 1 8 1 50, TableRead 9 4]
       (demo_script 5) = Inr s' \<and> x_arr s' = [9, 3, 3, 0, 0]"
proof -
  let ?ms = "[LoadIds 1 7 1 50, TableRead 3 4, LoadIds 1 8 1 50, TableRead 9 4]"
  obtain s' where s': "run_loop (run_body demo_ext) ?ms (demo_script 5) = Inr s'"
    using run_loop_ok [OF run_body_ok [OF demo_ext_ok] demo_idle, of ?ms] by (auto simp: messages_ok_def)
  from run_history_is_shared [OF s'] show ?thesis
    using s' by (auto simp: demo_script_def init_script_def demo_env_def Let_def eval_nat_numeral)
qed

lemma baseline_never_learns_facts:
  assumes "body \<in> {run4_body E, run5_body E}" and "run_loop body ms s = Inr s'"
  shows "loss_val s' = loss_val s" and "all_dqn s i = Some d \<Longrightarrow> \<exists>d'. all_dqn s' i = Some d' \<and> model d' = model d"
proof -
  have "same_weights s s'"
    using assms(2)
  proof (induction ms arbitrary: s)
    case (Cons m ms)
    then obtain t where t: "body (s\<lparr>env := deliver m (env s)\<rparr>) = Inr t" "run_loop body ms t = Inr s'"
      by (auto simp: ebind_Inr_iff)
    have "same_weights s t" using no_learn_body [OF assms(1) t(1)] by (simp add: same_weights_def)
    then show ?case using Cons.IH [OF t(2)] by (rule same_weights_trans)
  qed (auto simp: same_weights_def)
  then show "loss_val s' = loss_val s"
    and "all_dqn s i = Some d \<Longrightarrow> \<exists>d'. all_dqn s' i = Some d' \<and> model d' = model d"
    by (simp_all add: same_weights_def)
qed

text \<open>
  \<open>run4.py\<close> and \<open>run5.py\<close> never learn: over any sequence of messages no loss is recorded
  and the network of every agent is the one it was created with. Their runs are the
  untrained baseline of the experiment.
\<close>

theorem baseline_never_learns:
  assumes "body \<in> {run4_body E, run5_body E}" and "run_loop body ms s = Inr s'"
  shows "loss_val s' = loss_val s \<and>
    (\<forall>i d. all_dqn s i = Some d \<longrightarrow> (\<exists>d'. all_dqn s' i = Some d' \<and> model d' = model d))"
  using baseline_never_learns_facts [OF assms] by blast

lemma baseline_never_learns_witness:
  "\<exists>s'. run_loop (run4_body demo_ext) [LoadIds 1 7 1 50, TableRead 3 4] (demo_script 0) = Inr s' \<and>
     loss_val s' = []"
proof -
  obtain s' where s': "run_loop (run4_body demo_ext) [LoadIds 1 7 1 50, TableRead 3 4] (demo_script 0) = Inr s'"
    using run_loop_ok [OF run4_body_ok [OF demo_ext_ok] demo_idle, of "[LoadIds 1 7 1 50, TableRead 3 4]"]
    by (auto simp: messages_ok_def)
  from baseline_never_learns [OF _ s', of demo_ext] s' show ?thesis
    by (auto simp: demo_script_def init_script_def Let_def)
qed

text \<open>
  C13. Agents are isolated: a message about one UE creates or changes the agent of that UE
  only, in every script.
\<close>

theorem other_agents_untouched:
  assumes "body \<in> {run_body E, run2_body E, run3_body E, run4_body E, run5_body E, run6_body E,
      run7_body E, run8_body E, run9_body E, run10_body E, run11_body E}"
    and "body s = Inr s'" and "imsi \<noteq> env_imsi (env s)"
  shows "all_dqn s' imsi = all_dqn s imsi"
proof -
  obtain ss na cs where b: "body = block (select_agent E ss na # cs)" and p: "preserves others (block cs)"
    using body_rest [OF assms(1)] .
  obtain t where t: "select_agent E ss na s = Inr t" and r: "block cs t = Inr s'"
    using assms(2) b by (auto simp: ebind_Inr_iff)
  have "cur t = Some (env_imsi (env s))" and "all_dqn t imsi = all_dqn s imsi"
    using t assms(3) by (auto simp: select_agent_def Let_def split: option.splits)
  moreover have "all_dqn s' imsi = all_dqn t imsi"
    using preservesD [OF p r] assms(3) \<open>cur t = _\<close> by (auto simp: others_def dest!: fun_cong [of _ _ imsi])
  ultimately show ?thesis by simp
qed

lemma other_agents_untouched_witness:
  "\<exists>s'. run2_body demo_ext ((demo_script 0)\<lparr>env := demo_env\<lparr>env_imsi := 5\<rparr>\<rparr>) = Inr s' \<and> all_dqn s' 3 = None"
proof -
  let ?s = "(demo_script 0)\<lparr>env := demo_env\<lparr>env_imsi := 5\<rparr>\<rparr>"
  have "script_ok False 12 10 0 2 ?s"
    by (rule demo_ready) (simp_all add: demo_env_def id_ok_def)
  then obtain s' where s': "run2_body demo_ext ?s = Inr s'"
    using totallyD [OF run2_body_ok [OF demo_ext_ok]] by blast
  from other_agents_untouched [where body = "run2_body demo_ext" and E = demo_ext and s = ?s and s' = s'
      and imsi = 3] s' show ?thesis
    by (auto simp: demo_script_def init_script_def Let_def)
qed

text \<open>
  The action index of \<open>run11.py\<close> encodes the pair of actions faithfully: decoding the sixty
  indices in order gives every pair of a hysteresis and a time-to-trigger once, although the
  quotient goes through a floating point division.
\<close>

theorem pair_decoding_complete:
  "map (\<lambda>i. (hyst_of i, ttt_of i)) [0..<60] = [(Inr h, Inr t). h \<leftarrow> action_space2, t \<leftarrow> action_space] \<and>
   distinct [(h, t). h \<leftarrow> action_space2, t \<leftarrow> action_space]"
proof
  have "map (\<lambda>i. (hyst_of i, ttt_of i)) [0..<60] =
      map (\<lambda>i. (Inr (action_space2 ! (i div 10)), Inr (action_space ! (i mod 10)))) [0..<60]"
    by (rule map_cong) (simp_all add: hyst_of_ok ttt_of_ok)
  also have "\<dots> = [(Inr h, Inr t). h \<leftarrow> action_space2, t \<leftarrow> action_space]" by code_simp
  finally show "map (\<lambda>i. (hyst_of i, ttt_of i)) [0..<60] =
      [(Inr h, Inr t). h \<leftarrow> action_space2, t \<leftarrow> action_space]" .
  show "distinct [(h, t). h \<leftarrow> action_space2, t \<leftarrow> action_space]" by code_simp
qed

text \<open>
  C14. The scripts that learn when a handover ends die on the first handover end reported for
  a UE whose agent has stored no transition (one that was never seen during a handover, or once):
  \<open>learn\<close> samples from an empty memory, and the \<open>ValueError\<close> ends the script.
\<close>

theorem handover_end_kills_fresh_agent:
  assumes "body \<in> {run6_body E, run7_body E, run10_body E, run11_body E}"
    and "env_hoEnded (env s) = 1" and "env_hoInProgress (env s) \<noteq> 1" and "env_packetRxFlag (env s) \<noteq> 1"
    and "\<forall>d. all_dqn s (env_imsi (env s)) = Some d \<longrightarrow> memory_couter d = 0 \<and> batch_size d = 1"
  shows "body s = Inl ValueError"
proof -
  have sel: "\<exists>t d. select_agent E ss na s = Inr t \<and> env t = env s \<and> cur_agent t = Inr d \<and>
      memory_couter d = 0 \<and> batch_size d = 1" for ss na
    using assms(5) by (auto simp: select_agent_def Let_def cur_agent_def split: option.splits)
  have kills: "block [select_agent E ss na, py_if in_handover as, py_if rx_flag bs,
      py_if ho_ended [learn_now E, clear_ho]] s = Inl ValueError" for ss na as bs
  proof -
    obtain t d where t: "select_agent E ss na s = Inr t" "env t = env s" "cur_agent t = Inr d"
      "memory_couter d = 0" "batch_size d = 1" using sel by blast
    have "learn_now E t = Inl ValueError" using t by (simp add: learn_now_def learn_empty_memory)
    moreover have "\<not> in_handover t" "\<not> rx_flag t" "ho_ended t"
      using assms(2-4) t(2) by (simp_all add: in_handover_def rx_flag_def ho_ended_def)
    ultimately show ?thesis using t(1) by simp
  qed
  obtain t d where t: "select_agent E 4 (length action_space) s = Inr t" "env t = env s" "cur_agent t = Inr d"
    "memory_couter d = 0" "batch_size d = 1" using sel by blast
  have "learn_now E t = Inl ValueError" using t by (simp add: learn_now_def learn_empty_memory)
  moreover have "\<not> in_handover t" "ho_ended t"
    using assms(2,3) t(2) by (simp_all add: in_handover_def ho_ended_def)
  ultimately have "run6_body E s = Inl ValueError" using t(1) by (simp add: run6_body_def)
  then show ?thesis
    using assms(1) kills by (auto simp: run7_body_def run10_body_def run11_body_def simp del: block.simps)
qed

lemma handover_end_kills_fresh_agent_witness:
  "run_loop (run7_body demo_ext) [LoadIds 1 7 1 50, HoEnded] (demo_script 10) = Inl ValueError"
proof -
  let ?s = "(demo_script 10)\<lparr>env := deliver (LoadIds 1 7 1 50) demo_env\<rparr>"
  obtain t where t: "run7_body demo_ext ?s = Inr t" and e: "env t = env ?s"
    and d: "\<forall>d. all_dqn t 7 = Some d \<longrightarrow> memory_couter d = 0 \<and> batch_size d = 1"
    by (auto simp: run7_body_def select_agent_def in_handover_def rx_flag_def ho_ended_def demo_script_def
        init_script_def demo_env_def Let_def)
  have "run7_body demo_ext (t\<lparr>env := deliver HoEnded (env t)\<rparr>) = Inl ValueError"
    by (rule handover_end_kills_fresh_agent) (use e d in \<open>auto simp: demo_env_def\<close>)
  moreover have "env (demo_script 10) = demo_env"
    by (simp add: demo_script_def init_script_def Let_def)
  ultimately show ?thesis using t by simp
qed

lemma run6_misdates_packets_facts:
  assumes "run6_body E s = Inr s'" and "lists_ok N s" and "id_ok N (env s)"
  shows "\<not> in_handover s \<Longrightarrow> recievedPacketRecord s' = recievedPacketRecord s \<and>
      throughputRecord s' = throughputRecord s \<and> env_packetRxFlag (env s') = env_packetRxFlag (env s)"
    and "in_handover s \<Longrightarrow> rx_flag s \<Longrightarrow>
      recievedPacketRecord s' = add_pair (ue N (env s)) (now3 (env s)) 536 (recievedPacketRecord s) \<and>
      env_packetRxFlag (env s') = 0"
proof -
  let ?F = "\<lambda>s. (recievedPacketRecord s, throughputRecord s, env_packetRxFlag (env s))"
  let ?G = "\<lambda>s. (recievedPacketRecord s, throughputRecord s, env s)"
  have L: "preserves ?F (block [learn_now E, clear_ho])"
    by (intro preserves_intros) (auto simp: preserves_def stmt_defs ebind_Inr_iff)
  obtain t u where t: "select_agent E 4 (length action_space) s = Inr t"
    and u: "py_if in_handover [py_if not_first [remember features_now], pick_action E features_now,
      bind_action, emit_action, mark_trail, py_if rx_flag rx_always] t = Inr u"
    and r: "py_if ho_ended [learn_now E, clear_ho] u = Inr s'"
    using assms(1) by (auto simp: run6_body_def ebind_Inr_iff)
  have st: "?G t = ?G s"
    using t by (auto simp: select_agent_def Let_def split: option.splits)
  have su: "?F s' = ?F u" using preservesD [OF preserves_if [OF L] r] .
  show "\<not> in_handover s \<Longrightarrow> recievedPacketRecord s' = recievedPacketRecord s \<and>
      throughputRecord s' = throughputRecord s \<and> env_packetRxFlag (env s') = env_packetRxFlag (env s)"
    using u su st by (auto simp: in_handover_def py_if_def)
  assume ho: "in_handover s" and rx: "rx_flag s"
  have A: "preserves ?G (block [py_if not_first [remember features_now], pick_action E features_now,
      bind_action, emit_action, mark_trail])"
    by (intro preserves_intros) (auto simp: preserves_def stmt_defs ebind_Inr_iff Let_def split: option.splits)
  have "block ([py_if not_first [remember features_now], pick_action E features_now,
      bind_action, emit_action, mark_trail] @ [py_if rx_flag rx_always]) t = Inr u"
    using u ho st by (simp add: py_if_def in_handover_def)
  then obtain v where v: "block [py_if not_first [remember features_now], pick_action E features_now,
      bind_action, emit_action, mark_trail] t = Inr v" and w: "block [py_if rx_flag rx_always] v = Inr u"
    unfolding block_append by (auto simp only: ebind_Inr_iff)
  have sv: "?G v = ?G s" using preservesD [OF A v] st by simp
  then have "rx_flag v" using rx by (simp add: rx_flag_def)
  then have "block rx_always v = Inr u" using w by (auto simp: ebind_Inr_iff)
  then obtain x where x: "rx_append v = Inr x" and y: "block [rx_window binWidth, rx_throughput binWidth,
      clear_rx, set_reward binWidth, log_action] x = Inr u"
    by (auto simp: rx_always_def ebind_Inr_iff)
  have "recievedPacketRecord x = add_pair (ue N (env s)) (now3 (env s)) 536 (recievedPacketRecord s)"
    using x sv rx_append_eq [of N v] assms(2,3) by (auto simp: lists_ok_def)
  moreover have "preserves recievedPacketRecord (block [rx_window binWidth, rx_throughput binWidth,
      clear_rx, set_reward binWidth, log_action])"
    by (intro preserves_intros) (auto simp: preserves_def stmt_defs ebind_Inr_iff split: option.splits)
  moreover have "env_packetRxFlag (env u) = 0"
    using y by (auto simp: ebind_Inr_iff stmt_defs split: option.splits)
  ultimately show "recievedPacketRecord s' = add_pair (ue N (env s)) (now3 (env s)) 536 (recievedPacketRecord s) \<and>
      env_packetRxFlag (env s') = 0"
    using su preservesD y by fastforce
qed

text \<open>
  \<open>run6.py\<close> loses the packets received outside handovers and misdates one: outside a
  handover a reception is neither recorded nor cleared, so at the next message of a handover,
  whatever it is about, the last such packet is recorded at the time of that message.
\<close>

theorem run6_misdates_packets:
  assumes "run6_body E s = Inr s'" and "lists_ok N s" and "id_ok N (env s)"
  shows "(\<not> in_handover s \<longrightarrow> recievedPacketRecord s' = recievedPacketRecord s \<and>
      throughputRecord s' = throughputRecord s \<and> env_packetRxFlag (env s') = env_packetRxFlag (env s)) \<and>
    (in_handover s \<and> rx_flag s \<longrightarrow>
      recievedPacketRecord s' = add_pair (ue N (env s)) (now3 (env s)) 536 (recievedPacketRecord s) \<and>
      env_packetRxFlag (env s') = 0)"
  using run6_misdates_packets_facts [OF assms] by blast

lemma run6_misdates_packets_witness:
  "\<exists>s'. run6_body demo_ext ((demo_script 0)\<lparr>env := deliver (PacketReception 1 600 2) demo_env\<rparr>) = Inr s' \<and>
     env_packetRxFlag (env s') = 1"
proof -
  let ?s = "(demo_script 0)\<lparr>env := deliver (PacketReception 1 600 2) demo_env\<rparr>"
  have ok: "script_ok True 4 10 0 2 ?s"
    by (rule demo_ready) (simp_all add: demo_env_def id_ok_def)
  then obtain s' where s': "run6_body demo_ext ?s = Inr s'"
    using totallyD [OF run6_body_ok [OF demo_ext_ok]] by blast
  have "\<not> in_handover ?s" by (simp add: in_handover_def demo_env_def)
  then show ?thesis
    using run6_misdates_packets [OF s', of 2] ok s' by (auto simp: script_ok_def)
qed

end
