(* ===== verification/ConfigGen.thy ===== *)
theory ConfigGen
  imports PyFloat Ns3Util
begin

text \<open>
  The two generators of configuration files: \<open>jsonMaker.py\<close>, which lays base stations out on a
  hexagonal grid, and \<open>bootstrap_protocol_config.py\<close>, which draws handover parameters for the
  base stations of an existing file.
\<close>

section \<open>JSON values\<close>

datatype json = JNum rat | JStr string | JArr "json list" | JObj "(string \<times> json) list"

fun obj_get :: "json \<Rightarrow> string \<Rightarrow> json result" where
  "obj_get (JObj kvs) k = (case map_of kvs k of None \<Rightarrow> Inl KeyError | Some v \<Rightarrow> Inr v)"
| "obj_get (JArr vs) k = Inl TypeError"
| "obj_get (JStr s) k = Inl TypeError"
| "obj_get (JNum n) k = Inl TypeError"

fun json_list :: "json \<Rightarrow> json list result" where
  "json_list (JArr vs) = Inr vs"
| "json_list (JObj kvs) = Inr (map (JStr \<circ> fst) kvs)"
| "json_list (JStr s) = Inr (map (\<lambda>c. JStr [c]) s)"
| "json_list (JNum n) = Inl TypeError"

section \<open>The grid of base stations\<close>

text \<open>\<open>math.sqrt(3)\<close> as a binary64 number; the lemma says it is the one nearest to the root.\<close>

definition sqrt3 :: double where
  "sqrt3 = 3900231685776981 / 2251799813685248"

lemma sqrt3_nearest:
  "fl sqrt3 = sqrt3 \<and> (sqrt3 - 1 / 2 ^ 53) ^ 2 < 3 \<and> 3 < (sqrt3 + 1 / 2 ^ 53) ^ 2"
proof (intro conjI)
  show "fl sqrt3 = sqrt3" by code_simp
qed (simp_all add: sqrt3_def power2_eq_square)

text \<open>
  The four lists grow together, one station at a time; \<open>x\<close> and \<open>y\<close> are the position of the
  next. Nothing bounds the number of turns for arbitrary field sizes, so the loop is partial.
\<close>

record grid =
  location :: "(double \<times> double \<times> double) list"
  hysteresis_db :: "rat list list"
  a3_offset_db :: "rat list list"
  time_to_trigger_ms :: "rat list list"

definition add_station :: "double \<Rightarrow> double \<Rightarrow> grid \<Rightarrow> grid" where
  "add_station px py g =
     g\<lparr>location := location g @ [(px, py, 25)], hysteresis_db := hysteresis_db g @ [[3]],
       a3_offset_db := a3_offset_db g @ [[0]], time_to_trigger_ms := time_to_trigger_ms g @ [[256]]\<rparr>"

definition row_height :: "double \<Rightarrow> double" where
  "row_height isd = fl (py_mul sqrt3 isd / 2)"

definition next_position :: "double \<Rightarrow> double \<Rightarrow> double \<Rightarrow> double \<Rightarrow> double \<times> double" where
  "next_position width isd px py =
     (if width \<le> px then (py_sub (py_sub px width) (fl (isd / 2)), py_add py (row_height isd))
      else (py_add px isd, py))"

partial_function (option) grid_loop ::
  "double \<Rightarrow> double \<Rightarrow> double \<Rightarrow> double \<Rightarrow> double \<Rightarrow> grid \<Rightarrow> grid option" where
  "grid_loop width height isd px py g =
     (if px < width \<or> py < height then
        (let g' = add_station px py g in
         case next_position width isd px py of (px', py') \<Rightarrow>
           if \<not> (px' < width \<or> py' < height)
           then grid_loop width height isd px' py' (add_station px' py' g')
           else grid_loop width height isd px' py' g')
      else Some g)"

definition empty_grid :: grid where
  "empty_grid = \<lparr>location = [], hysteresis_db = [], a3_offset_db = [], time_to_trigger_ms = []\<rparr>"

text \<open>\<open>field_edges = [0, 1000, 0, 1000]\<close> and \<open>inter_BS_distance = 500\<close>.\<close>

definition stations :: "grid option" where
  "stations = grid_loop 1000 1000 500 0 0 empty_grid"

section \<open>The generated files\<close>

definition NS3_json :: json where
  "NS3_json = JObj [(''use_rlc_um'', JNum 1), (''qout_db'', JNum (- 5)), (''qin_db'', JNum (fl (- 39 / 10))),
     (''handover_type'', JStr ''A3Rsrp''), (''number_qout_eval_sf'', JNum 200),
     (''number_qin_eval_sf'', JNum 100), (''t310'', JNum 1000), (''n310'', JNum 6), (''n311'', JNum 2),
     (''x2_delay_ms'', JNum 0), (''transport_protocol'', JStr ''TCP'')]"

definition Simulation_json :: json where
  "Simulation_json = JObj [(''mobility_type'', JStr ''constant_velocity''), (''resource_blocks'', JNum 50),
     (''simulation_duration_s'', JNum 40), (''seed'', JNum 1),
     (''field_edges'', JArr [JNum 0, JNum 1000, JNum 0, JNum 1000]), (''number_of_UE'', JNum 1),
     (''inter_BS_distance'', JNum 500), (''average_UE_speed'', JNum 200), (''UE_speed_bound'', JNum 50)]"

definition nums :: "rat list \<Rightarrow> json" where
  "nums vs = JArr (map JNum vs)"

definition bs_name :: "nat \<Rightarrow> string" where
  "bs_name k = ''BS_'' @ digits (k + 1)"

definition BS_entry :: "grid \<Rightarrow> nat \<Rightarrow> json" where
  "BS_entry g k = JObj [(''Name'', JStr (bs_name k)), (''number_of_sectors'', JNum 1),
     (''hysteresis_db'', nums (hysteresis_db g ! k)), (''a3_offset_db'', nums (a3_offset_db g ! k)),
     (''time_to_trigger_ms'', nums (time_to_trigger_ms g ! k))]"

definition BS2_entry :: "grid \<Rightarrow> nat \<Rightarrow> json" where
  "BS2_entry g k = JObj [(''Name'', JStr (bs_name k)),
     (''location'', (case location g ! k of (px, py, pz) \<Rightarrow> nums [px, py, pz])), (''number_of_sectors'', JNum 1)]"

definition UE_json :: json where
  "UE_json = JArr [JObj [(''name'', JStr ''UE_1''), (''initial_position'', nums [10, 0, fl (3 / 2)]),
     (''velocity'', nums [1, 0, 0]), (''initial_attachment'', JNum 1)]]"

definition json_maker :: "(json \<times> json) option" where
  "json_maker =
     (case stations of None \<Rightarrow> None
      | Some g \<Rightarrow> (let numberOfBS = length (a3_offset_db g) in
          Some (JObj [(''NS3'', NS3_json), (''BS'', JArr (map (BS_entry g) [0..<numberOfBS]))],
                JObj [(''UE'', UE_json), (''simulation'', Simulation_json),
                      (''BS'', JArr (map (BS2_entry g) [0..<numberOfBS]))])))"

section \<open>Drawing handover parameters\<close>

definition hysteresis_list :: "rat list" where
  "hysteresis_list = map (\<lambda>k. of_nat k / 2) [0..<31]"

definition a3_offset_list :: "rat list" where
  "a3_offset_list = map of_int [-30..30]"

definition ttt_list :: "rat list" where
  "ttt_list = [0, 40, 64, 80, 100, 128, 160, 256, 320, 480, 512, 640, 1024, 1280, 2560, 5120]"

text \<open>
  \<open>random.choices\<close> draws \<open>k\<close> indices below the length of the list; the draws are numbered.
\<close>

definition choices3 :: "(nat \<Rightarrow> nat \<Rightarrow> nat) \<Rightarrow> nat \<Rightarrow> rat list \<Rightarrow> json" where
  "choices3 draw d xs = nums (map (\<lambda>i. xs ! draw (d + i) (length xs)) [0..<3])"

fun bs_entries :: "(nat \<Rightarrow> nat \<Rightarrow> nat) \<Rightarrow> nat \<Rightarrow> json list \<Rightarrow> json list result" where
  "bs_entries draw d [] = Inr []"
| "bs_entries draw d (bs # rest) =
     ebind (obj_get bs ''name'') (\<lambda>nm.
     ebind (bs_entries draw (d + 9) rest) (\<lambda>es.
     Inr (JObj [(''name'', nm), (''number_of_sectors'', JNum 3),
                (''hysteresis_db'', choices3 draw d hysteresis_list),
                (''a3_offset_db'', choices3 draw (d + 3) a3_offset_list),
                (''time_to_trigger_ms'', choices3 draw (d + 6) ttt_list)] # es)))"

definition NS3_fixed :: json where
  "NS3_fixed = JObj [(''use_rlc_um'', JNum 1), (''qout_db'', JNum (- 5)), (''qin_db'', JNum (fl (- 39 / 10))),
     (''handover_type'', JStr ''A3Rsrp''), (''number_qout_eval_sf'', JNum 200),
     (''number_qin_eval_sf'', JNum 100), (''t310'', JNum 1000), (''n310'', JNum 6), (''n311'', JNum 2),
     (''x2_delay_ms'', JNum 0)]"

definition bootstrap :: "(nat \<Rightarrow> nat \<Rightarrow> nat) \<Rightarrow> json \<Rightarrow> json result" where
  "bootstrap draw data =
     ebind (obj_get data ''BS'') (\<lambda>bs.
     ebind (json_list bs) (\<lambda>entries.
     ebind (bs_entries draw 0 entries) (\<lambda>es.
     Inr (JObj [(''NS3'', NS3_fixed), (''BS'', JArr es)]))))"

section \<open>Invariant of the grid\<close>

definition grid_ok :: "grid \<Rightarrow> bool" where
  "grid_ok g \<longleftrightarrow> length (hysteresis_db g) = length (location g) \<and>
     length (a3_offset_db g) = length (location g) \<and> length (time_to_trigger_ms g) = length (location g)"

lemma add_station_ok: "grid_ok g \<Longrightarrow> grid_ok (add_station px py g)"
  by (simp add: grid_ok_def add_station_def)

lemma grid_loop_ok:
  assumes "grid_loop width height isd px py g = Some g'" and "grid_ok g"
  shows "grid_ok g'"
proof -
  have "grid_ok g \<longrightarrow> grid_ok g'"
    by (rule grid_loop.raw_induct [OF _ assms(1), of "\<lambda>width height isd px py g g'. grid_ok g \<longrightarrow> grid_ok g'"])
      (auto simp: Let_def add_station_ok split: if_splits prod.splits)
  then show ?thesis using assms(2) by simp
qed

text \<open>The rows of the grid, and the loop one turn at a time on the values of the script.\<close>

fun row_y :: "nat \<Rightarrow> double" where
  "row_y 0 = 0"
| "row_y (Suc n) = py_add (row_y n) (row_height 500)"

declare row_y.simps [simp del]

lemma row_y_steps:
  "row_y 1 = py_add 0 (row_height 500)" "row_y 2 = py_add (row_y 1) (row_height 500)"
  "row_y 3 = py_add (row_y 2) (row_height 500)"
  by (simp_all add: row_y.simps eval_nat_numeral)

lemma row_height_value: "row_height 500 = 3808820005641583 / 8796093022208"
  by code_simp

lemma row_y_values:
  "row_y 1 = 3808820005641583 / 8796093022208" "row_y 2 = 3808820005641583 / 4398046511104"
  "row_y 3 = 2856615004231187 / 2199023255552"
proof -
  have "py_add 0 (3808820005641583 / 8796093022208) = 3808820005641583 / 8796093022208" by code_simp
  then show 1: "row_y 1 = 3808820005641583 / 8796093022208" by (simp only: row_y_steps row_height_value)
  have "py_add (3808820005641583 / 8796093022208) (3808820005641583 / 8796093022208) =
      3808820005641583 / 4398046511104" by code_simp
  then show 2: "row_y 2 = 3808820005641583 / 4398046511104" by (simp only: row_y_steps(2) 1 row_height_value)
  have "py_add (3808820005641583 / 4398046511104) (3808820005641583 / 8796093022208) =
      2856615004231187 / 2199023255552" by code_simp
  then show "row_y 3 = 2856615004231187 / 2199023255552" by (simp only: row_y_steps(3) 2 row_height_value)
qed

lemma row_y_bounds: "row_y 0 < 1000" "row_y 1 < 1000" "row_y 2 < 1000" "1000 \<le> row_y 3"
  unfolding row_y_values by (simp_all add: row_y.simps)

definition even_row :: "nat \<Rightarrow> (double \<times> double) list" where
  "even_row n = [(0, row_y n), (500, row_y n), (1000, row_y n)]"

definition odd_row :: "nat \<Rightarrow> (double \<times> double) list" where
  "odd_row n = [(- 250, row_y n), (250, row_y n), (750, row_y n), (1250, row_y n)]"

definition expected_stations :: "(double \<times> double) list" where
  "expected_stations = even_row 0 @ odd_row 1 @ even_row 2 @ odd_row 3"

lemma x_moves:
  "py_add 0 500 = 500" "py_add 500 500 = 1000" "py_add (- 250) 500 = 250" "py_add 250 500 = 750"
  "py_add 750 500 = 1250" "py_sub (py_sub 1000 1000) (fl (500 / 2)) = - 250"
  "py_sub (py_sub 1250 1000) (fl (500 / 2)) = 0"
  by code_simp+

lemma grid_right:
  assumes "px < 1000" and "px' = py_add px 500" and "px' < 1000 \<or> py < 1000"
  shows "grid_loop 1000 1000 500 px py g = grid_loop 1000 1000 500 px' py (add_station px py g)"
  using assms by (subst grid_loop.simps) (auto simp: Let_def next_position_def)

lemma grid_stop: "1000 \<le> px \<Longrightarrow> 1000 \<le> py \<Longrightarrow> grid_loop 1000 1000 500 px py g = Some g"
  by (subst grid_loop.simps) simp

lemma grid_next_row:
  assumes "1000 \<le> px" and "row_y n < 1000" and "px' = py_sub (py_sub px 1000) (fl (500 / 2))" and "px' < 1000"
  shows "grid_loop 1000 1000 500 px (row_y n) g =
    grid_loop 1000 1000 500 px' (row_y (Suc n)) (add_station px (row_y n) g)"
  using assms by (subst grid_loop.simps) (simp add: Let_def next_position_def row_y.simps)

lemma grid_last:
  assumes "px < 1000" and "px' = py_add px 500" and "1000 \<le> px'" and "1000 \<le> py"
  shows "grid_loop 1000 1000 500 px py g = Some (add_station px' py (add_station px py g))"
  using assms
  by (subst grid_loop.simps) (simp add: Let_def next_position_def grid_stop)

definition add_all :: "(double \<times> double) list \<Rightarrow> grid \<Rightarrow> grid" where
  "add_all ps g = foldl (\<lambda>g (px, py). add_station px py g) g ps"

lemma add_all_fields:
  "location (add_all ps g) = location g @ map (\<lambda>(px, py). (px, py, 25)) ps"
  by (induction ps arbitrary: g) (auto simp: add_all_def add_station_def)

lemma add_all_append: "add_all (ps @ qs) g = add_all qs (add_all ps g)"
  by (simp add: add_all_def)

lemma grid_even_row:
  assumes "row_y n < 1000"
  shows "grid_loop 1000 1000 500 0 (row_y n) g =
    grid_loop 1000 1000 500 (- 250) (row_y (Suc n)) (add_all (even_row n) g)"
proof -
  let ?G = "grid_loop 1000 1000 500"
  have "?G 0 (row_y n) g = ?G 500 (row_y n) (add_station 0 (row_y n) g)"
    by (rule grid_right) (simp_all add: x_moves)
  also have "\<dots> = ?G 1000 (row_y n) (add_station 500 (row_y n) (add_station 0 (row_y n) g))"
    by (rule grid_right) (simp_all add: x_moves assms)
  also have "\<dots> = ?G (- 250) (row_y (Suc n))
      (add_station 1000 (row_y n) (add_station 500 (row_y n) (add_station 0 (row_y n) g)))"
    by (rule grid_next_row [OF _ assms x_moves(6) [symmetric]]) simp_all
  finally show ?thesis by (simp add: add_all_def even_row_def)
qed

lemma grid_odd_start:
  "grid_loop 1000 1000 500 (- 250) (row_y n) g =
    grid_loop 1000 1000 500 750 (row_y n) (add_station 250 (row_y n) (add_station (- 250) (row_y n) g))"
proof -
  let ?G = "grid_loop 1000 1000 500"
  have "?G (- 250) (row_y n) g = ?G 250 (row_y n) (add_station (- 250) (row_y n) g)"
    by (rule grid_right) (simp_all add: x_moves)
  also have "\<dots> = ?G 750 (row_y n) (add_station 250 (row_y n) (add_station (- 250) (row_y n) g))"
    by (rule grid_right) (simp_all add: x_moves)
  finally show ?thesis .
qed

lemma grid_odd_row:
  assumes "row_y n < 1000"
  shows "grid_loop 1000 1000 500 (- 250) (row_y n) g =
    grid_loop 1000 1000 500 0 (row_y (Suc n)) (add_all (odd_row n) g)"
proof -
  let ?G = "grid_loop 1000 1000 500" and ?g = "add_station 250 (row_y n) (add_station (- 250) (row_y n) g)"
  have "?G (- 250) (row_y n) g = ?G 750 (row_y n) ?g" by (rule grid_odd_start)
  also have "\<dots> = ?G 1250 (row_y n) (add_station 750 (row_y n) ?g)"
    by (rule grid_right) (simp_all add: x_moves assms)
  also have "\<dots> = ?G 0 (row_y (Suc n)) (add_station 1250 (row_y n) (add_station 750 (row_y n) ?g))"
    by (rule grid_next_row [OF _ assms x_moves(7) [symmetric]]) simp_all
  finally show ?thesis by (simp add: add_all_def odd_row_def)
qed

lemma grid_last_row:
  assumes "1000 \<le> row_y n"
  shows "grid_loop 1000 1000 500 (- 250) (row_y n) g = Some (add_all (odd_row n) g)"
proof -
  have "grid_loop 1000 1000 500 750 (row_y n) h =
      Some (add_station 1250 (row_y n) (add_station 750 (row_y n) h))" for h
    by (rule grid_last) (simp_all add: x_moves assms)
  then show ?thesis unfolding grid_odd_start by (simp add: add_all_def odd_row_def)
qed

lemma stations_value: "stations = Some (add_all expected_stations empty_grid)"
proof -
  let ?G = "grid_loop 1000 1000 500"
  have "stations = ?G 0 (row_y 0) empty_grid" by (simp add: stations_def row_y.simps)
  also have "\<dots> = ?G (- 250) (row_y 1) (add_all (even_row 0) empty_grid)"
    using grid_even_row [OF row_y_bounds(1)] by simp
  also have "\<dots> = ?G 0 (row_y 2) (add_all (odd_row 1) (add_all (even_row 0) empty_grid))"
    using grid_odd_row [OF row_y_bounds(2)] by (simp add: numeral_2_eq_2)
  also have "\<dots> = ?G (- 250) (row_y 3) (add_all (even_row 2) (add_all (odd_row 1) (add_all (even_row 0) empty_grid)))"
    using grid_even_row [OF row_y_bounds(3)] by (simp add: numeral_3_eq_3 numeral_2_eq_2)
  also have "\<dots> = Some (add_all (odd_row 3) (add_all (even_row 2) (add_all (odd_row 1) (add_all (even_row 0) empty_grid))))"
    by (rule grid_last_row [OF row_y_bounds(4)])
  finally show ?thesis by (simp add: expected_stations_def add_all_append)
qed

lemma final_grid_ok: "grid_ok (add_all expected_stations empty_grid)"
proof -
  have "grid_ok empty_grid" by (simp add: grid_ok_def empty_grid_def)
  then show ?thesis using grid_loop_ok stations_value unfolding stations_def by metis
qed

lemma final_grid_location:
  "location (add_all expected_stations empty_grid) = map (\<lambda>(px, py). (px, py, 25)) expected_stations"
  by (simp add: add_all_fields empty_grid_def)

lemma final_grid_length: "length (a3_offset_db (add_all expected_stations empty_grid)) = 14"
  using final_grid_ok
  by (simp add: grid_ok_def final_grid_location) (simp add: expected_stations_def even_row_def odd_row_def)

section \<open>Properties\<close>

definition sq_dist :: "double \<times> double \<Rightarrow> double \<times> double \<Rightarrow> double" where
  "sq_dist p q = (fst p - fst q) ^ 2 + (snd p - snd q) ^ 2"

text \<open>
  C15. \<open>jsonMaker.py\<close> terminates and lays out fourteen base stations in four staggered rows, with
  one entry per station in each of its four lists. The layout is hexagonal up to rounding:
  stations of one row are 500 apart, and a station and its nearest ones in the next row
  form triangles whose sides differ from 500 by less than a millionth.
\<close>

theorem grid_is_hexagonal:
  "\<exists>g. stations = Some g \<and> grid_ok g \<and> length (location g) = 14 \<and>
     location g = map (\<lambda>(px, py). (px, py, 25)) (even_row 0 @ odd_row 1 @ even_row 2 @ odd_row 3) \<and>
     sq_dist (even_row 0 ! 0) (even_row 0 ! 1) = 500 ^ 2 \<and>
     \<bar>sq_dist (even_row 0 ! 0) (odd_row 1 ! 1) - 500 ^ 2\<bar> < 1 / 1000 \<and>
     \<bar>sq_dist (even_row 2 ! 0) (odd_row 1 ! 1) - 500 ^ 2\<bar> < 1 / 1000 \<and>
     \<bar>sq_dist (even_row 2 ! 0) (odd_row 3 ! 1) - 500 ^ 2\<bar> < 1 / 1000"
proof -
  let ?g = "add_all expected_stations empty_grid"
  note y = row_y_values row_y_values(1) [unfolded One_nat_def] row_y.simps(1)
  have d0: "sq_dist (even_row 0 ! 0) (even_row 0 ! 1) = 500 ^ 2"
    by (simp add: sq_dist_def even_row_def)
  have d1: "\<bar>sq_dist (even_row 0 ! 0) (odd_row 1 ! 1) - 500 ^ 2\<bar> < 1 / 1000"
    unfolding sq_dist_def even_row_def odd_row_def by (simp add: y power2_eq_square abs_less_iff)
  have d2: "\<bar>sq_dist (even_row 2 ! 0) (odd_row 1 ! 1) - 500 ^ 2\<bar> < 1 / 1000"
    unfolding sq_dist_def even_row_def odd_row_def by (simp add: y power2_eq_square abs_less_iff)
  have d3: "\<bar>sq_dist (even_row 2 ! 0) (odd_row 3 ! 1) - 500 ^ 2\<bar> < 1 / 1000"
    unfolding sq_dist_def even_row_def odd_row_def by (simp add: y power2_eq_square abs_less_iff)
  show ?thesis
    using stations_value final_grid_ok final_grid_location d0 d1 d2 d3
    by (intro exI [of _ ?g] conjI) (simp_all only: expected_stations_def, simp add: even_row_def odd_row_def)
qed

text \<open>An entry with three drawn values of each parameter.\<close>

definition entry_drawn :: "json \<Rightarrow> bool" where
  "entry_drawn e \<longleftrightarrow> (\<exists>h a t. obj_get e ''hysteresis_db'' = Inr (nums h) \<and>
     obj_get e ''a3_offset_db'' = Inr (nums a) \<and> obj_get e ''time_to_trigger_ms'' = Inr (nums t) \<and>
     length h = 3 \<and> length a = 3 \<and> length t = 3 \<and>
     set h \<subseteq> set hysteresis_list \<and> set a \<subseteq> set a3_offset_list \<and> set t \<subseteq> set ttt_list)"

lemma choices3_nums:
  assumes "\<And>d n. 0 < n \<Longrightarrow> draw d n < n" and "xs \<noteq> []"
  shows "\<exists>vs. choices3 draw d xs = nums vs \<and> length vs = 3 \<and> set vs \<subseteq> set xs"
  using assms by (auto simp: choices3_def intro!: exI [of _ "map _ _"] nth_mem)

lemma bs_entries_named:
  assumes "\<And>d n. 0 < n \<Longrightarrow> draw d n < n"
  shows "\<exists>es. bs_entries draw d (map (\<lambda>n. JObj [(''name'', JStr n)]) names) = Inr es \<and>
    map (\<lambda>e. obj_get e ''name'') es = map (\<lambda>n. Inr (JStr n)) names \<and> list_all entry_drawn es"
proof (induction names arbitrary: d)
  case (Cons n ns)
  obtain es where es: "bs_entries draw (d + 9) (map (\<lambda>n. JObj [(''name'', JStr n)]) ns) = Inr es"
    "map (\<lambda>e. obj_get e ''name'') es = map (\<lambda>n. Inr (JStr n)) ns" "list_all entry_drawn es"
    using Cons by blast
  have ne: "hysteresis_list \<noteq> []" "a3_offset_list \<noteq> []" "ttt_list \<noteq> []"
    by (simp_all add: hysteresis_list_def a3_offset_list_def ttt_list_def)
  obtain h where h: "choices3 draw d hysteresis_list = nums h" "length h = 3" "set h \<subseteq> set hysteresis_list"
    using choices3_nums [of draw hysteresis_list d] assms ne by blast
  obtain a where a: "choices3 draw (d + 3) a3_offset_list = nums a" "length a = 3" "set a \<subseteq> set a3_offset_list"
    using choices3_nums [of draw a3_offset_list "d + 3"] assms ne by blast
  obtain t where t: "choices3 draw (d + 6) ttt_list = nums t" "length t = 3" "set t \<subseteq> set ttt_list"
    using choices3_nums [of draw ttt_list "d + 6"] assms ne by blast
  have "entry_drawn (JObj [(''name'', JStr n), (''number_of_sectors'', JNum 3), (''hysteresis_db'', nums h),
      (''a3_offset_db'', nums a), (''time_to_trigger_ms'', nums t)])"
    unfolding entry_drawn_def using h a t by (intro exI [of _ h] exI [of _ a] exI [of _ t]) simp
  then show ?case using es h a t by simp
qed simp

lemma bs_entries_unnamed:
  "obj_get (f 0) ''name'' = Inl KeyError \<Longrightarrow> bs_entries draw d (map f [0..<14]) = Inl KeyError"
  by (subst upt_conv_Cons) simp_all

text \<open>
  The two generators do not fit together: \<open>bootstrap_protocol_config.py\<close> looks for the key
  \<open>name\<close> of a base station, \<open>jsonMaker.py\<close> writes \<open>Name\<close>, so on either of the files the
  latter generates the former raises a \<open>KeyError\<close>. On a file with the key it gives every
  station, in order, three values of each parameter.
\<close>

theorem bootstrap_rejects_generated_files:
  assumes "\<And>d n. 0 < n \<Longrightarrow> draw d n < n"
  shows "(\<exists>protocol rf. json_maker = Some (protocol, rf) \<and>
      bootstrap draw protocol = Inl KeyError \<and> bootstrap draw rf = Inl KeyError) \<and>
   (\<exists>es. bootstrap draw (JObj [(''BS'', JArr (map (\<lambda>n. JObj [(''name'', JStr n)]) names))]) =
        Inr (JObj [(''NS3'', NS3_fixed), (''BS'', JArr es)]) \<and>
      map (\<lambda>e. obj_get e ''name'') es = map (\<lambda>n. Inr (JStr n)) names \<and> list_all entry_drawn es)"
proof
  have "obj_get (BS_entry g 0) ''name'' = Inl KeyError" "obj_get (BS2_entry g 0) ''name'' = Inl KeyError" for g
    by (simp_all add: BS_entry_def BS2_entry_def)
  then show "\<exists>protocol rf. json_maker = Some (protocol, rf) \<and>
      bootstrap draw protocol = Inl KeyError \<and> bootstrap draw rf = Inl KeyError"
    by (simp add: json_maker_def stations_value final_grid_length Let_def bootstrap_def bs_entries_unnamed)
next
  obtain es where "bs_entries draw 0 (map (\<lambda>n. JObj [(''name'', JStr n)]) names) = Inr es"
    "map (\<lambda>e. obj_get e ''name'') es = map (\<lambda>n. Inr (JStr n)) names" "list_all entry_drawn es"
    using bs_entries_named [of draw 0 names, OF assms] by blast
  then show "\<exists>es. bootstrap draw (JObj [(''BS'', JArr (map (\<lambda>n. JObj [(''name'', JStr n)]) names))]) =
        Inr (JObj [(''NS3'', NS3_fixed), (''BS'', JArr es)]) \<and>
      map (\<lambda>e. obj_get e ''name'') es = map (\<lambda>n. Inr (JStr n)) names \<and> list_all entry_drawn es"
    by (intro exI [of _ es]) (simp add: bootstrap_def)
qed

lemma bootstrap_rejects_generated_files_witness:
  "\<exists>es. bootstrap (\<lambda>d n. d mod n) (JObj [(''BS'', JArr [JObj [(''name'', JStr ''A'')]])]) =
     Inr (JObj [(''NS3'', NS3_fixed), (''BS'', JArr es)]) \<and> list_all entry_drawn es"
  using bootstrap_rejects_generated_files [of "\<lambda>d n. d mod n" "[''A'']"] by auto

end
