(* ===== verification/PyText.thy ===== *)
theory PyText
  imports Prelude
begin

text \<open>
  Operations of Python's \<open>str\<close>, \<open>os.path\<close> (as on POSIX) and \<open>fnmatch\<close> that several of the programs use.
\<close>

section \<open>Strings\<close>

text \<open>\<open>s.split(c)\<close> for a separator of one character.\<close>

fun split_on :: "char \<Rightarrow> string \<Rightarrow> string list" where
  "split_on c [] = [[]]"
| "split_on c (ch # s) =
     (if ch = c then [] # split_on c s
      else (case split_on c s of [] \<Rightarrow> [[ch]] | w # ws \<Rightarrow> (ch # w) # ws))"

definition newline :: char where
  "newline = CHR 0x0A"

definition text_line :: "string \<Rightarrow> string" where
  "text_line s = s @ [newline]"

definition dquote :: char where
  "dquote = CHR 0x22"

definition squote :: char where
  "squote = CHR 0x27"

definition bslash :: char where
  "bslash = CHR 0x5C"

text \<open>White space: what \<open>s.strip()\<close> removes and \<open>\s\<close> matches, among the characters of Latin-1.\<close>

definition is_white :: "char \<Rightarrow> bool" where
  "is_white c \<longleftrightarrow> of_char c \<in> ({9..13} \<union> {28..32} \<union> {133, 160} :: nat set)"

text \<open>The characters \<open>\w\<close> of ASCII.\<close>

definition name_char :: "char \<Rightarrow> bool" where
  "name_char c \<longleftrightarrow> of_char c \<in> ({48..57} \<union> {65..90} \<union> {97..122} \<union> {95} :: nat set)"

definition py_strip :: "string \<Rightarrow> string" where
  "py_strip s = rev (dropWhile is_white (rev (dropWhile is_white s)))"

text \<open>\<open>s.split(c, 1)\<close>: the text before the first separator, and the text after it when there is one.\<close>

definition split_once :: "char \<Rightarrow> string \<Rightarrow> string \<times> string option" where
  "split_once c s =
     (takeWhile (\<lambda>x. x \<noteq> c) s, if c \<in> set s then Some (tl (dropWhile (\<lambda>x. x \<noteq> c) s)) else None)"

text \<open>\<open>sep.join(ws)\<close>.\<close>

fun join_with :: "string \<Rightarrow> string list \<Rightarrow> string" where
  "join_with sep [] = ''''"
| "join_with sep [w] = w"
| "join_with sep (w # v # ws) = w @ sep @ join_with sep (v # ws)"

text \<open>\<open>t in s\<close>: one string occurs in another.\<close>

fun occurs :: "string \<Rightarrow> string \<Rightarrow> bool" where
  "occurs t [] \<longleftrightarrow> t = []"
| "occurs t (c # s) \<longleftrightarrow> take (length t) (c # s) = t \<or> occurs t s"

lemma split_on_nonempty [simp]: "split_on c s \<noteq> []"
  by (induction s) (auto split: list.splits)

lemma join_split: "join_with [c] (split_on c s) = s"
proof (induction s)
  case Nil
  show ?case by simp
next
  case (Cons x s)
  obtain w ws where w: "split_on c s = w # ws" by (cases "split_on c s") simp_all
  show ?case
  proof (cases "x = c")
    case True
    with w Cons.IH show ?thesis by simp
  next
    case False
    with w Cons.IH show ?thesis by (cases ws) simp_all
  qed
qed

lemma split_once_none: "split_once c s = (a, None) \<Longrightarrow> s = a"
  by (auto simp: split_once_def takeWhile_eq_all_conv intro!: sym [OF takeWhile_eq_all_conv [THEN iffD2]] split: if_splits)

lemma split_once_some:
  assumes "split_once c s = (a, Some b)"
  shows "s = a @ c # b"
proof -
  from assms have a: "a = takeWhile (\<lambda>x. x \<noteq> c) s" and b: "b = tl (dropWhile (\<lambda>x. x \<noteq> c) s)" and c: "c \<in> set s"
    by (auto simp: split_once_def split: if_splits)
  have ne: "dropWhile (\<lambda>x. x \<noteq> c) s \<noteq> []" using c by (auto simp: dropWhile_eq_Nil_conv)
  from hd_dropWhile [OF ne] have "hd (dropWhile (\<lambda>x. x \<noteq> c) s) = c" by simp
  with ne b have "dropWhile (\<lambda>x. x \<noteq> c) s = c # b" by (metis list.collapse)
  with a show "s = a @ c # b" by (metis takeWhile_dropWhile_id)
qed

lemma occursI: "occurs t (u @ t @ v)"
proof (induction u)
  case Nil
  have "take (length t) (t @ v) = t" by simp
  then show ?case by (cases "t @ v") (simp_all del: take_append)
qed simp

lemma occursD: "occurs t s \<Longrightarrow> \<exists>u v. s = u @ t @ v"
proof (induction t s rule: occurs.induct)
  case (2 t c s)
  show ?case
  proof (cases "take (length t) (c # s) = t")
    case True
    then have "c # s = [] @ t @ drop (length t) (c # s)" by (metis append_Nil append_take_drop_id)
    then show ?thesis by blast
  next
    case False
    with 2 obtain u v where "s = u @ t @ v" by auto
    then have "c # s = (c # u) @ t @ v" by simp
    then show ?thesis by blast
  qed
qed auto

lemma occurs_iff: "occurs t s \<longleftrightarrow> (\<exists>u v. s = u @ t @ v)"
  using occursI occursD by blast

section \<open>Paths\<close>

definition join_path :: "string \<Rightarrow> string \<Rightarrow> string" where
  "join_path a b =
     (if take 1 b = ''/'' then b else if a = [] \<or> last a = CHR ''/'' then a @ b else a @ ''/'' @ b)"

definition basename :: "string \<Rightarrow> string" where
  "basename p = last (split_on CHR ''/'' p)"

text \<open>
  \<open>normpath\<close> removes empty and \<open>.\<close> components and lets \<open>..\<close> take back the component before it; two leading
  slashes stay two.
\<close>

definition initial_slashes :: "string \<Rightarrow> nat" where
  "initial_slashes p =
     (if take 1 p \<noteq> ''/'' then 0 else if take 2 p = ''//'' \<and> take 3 p \<noteq> ''///'' then 2 else 1)"

definition norm_component :: "nat \<Rightarrow> string \<Rightarrow> string list \<Rightarrow> string list" where
  "norm_component n c new =
     (if c = '''' \<or> c = ''.'' then new
      else if c \<noteq> ''..'' \<or> (n = 0 \<and> new = []) \<or> (new \<noteq> [] \<and> last new = ''..'') then new @ [c]
      else if new \<noteq> [] then butlast new else new)"

definition normpath :: "string \<Rightarrow> string" where
  "normpath p =
     (if p = '''' then ''.''
      else let n = initial_slashes p;
               q = replicate n CHR ''/'' @ join_with ''/'' (fold (norm_component n) (split_on CHR ''/'' p) [])
           in if q = '''' then ''.'' else q)"

definition abspath :: "string \<Rightarrow> string \<Rightarrow> string" where
  "abspath here p = normpath (if take 1 p = ''/'' then p else join_path here p)"

fun prefix_length :: "'a list \<Rightarrow> 'a list \<Rightarrow> nat" where
  "prefix_length (x # xs) (y # ys) = (if x = y then Suc (prefix_length xs ys) else 0)"
| "prefix_length xs ys = 0"

definition components :: "string \<Rightarrow> string list" where
  "components p = filter (\<lambda>x. x \<noteq> '''') (split_on CHR ''/'' p)"

definition relpath :: "string \<Rightarrow> string \<Rightarrow> string \<Rightarrow> string result" where
  "relpath here path begin =
     (if path = '''' then Inl ValueError
      else let s = components (abspath here begin); p = components (abspath here path); i = prefix_length s p;
               r = replicate (length s - i) ''..'' @ drop i p
           in Inr (if r = [] then ''.'' else fold (\<lambda>c a. join_path a c) (tl r) (hd r)))"

section \<open>Patterns of file names\<close>

text \<open>
  \<open>fnmatch\<close>: a star stands for any text, a question mark for any character, a bracket for a set of characters,
  or the others when it begins with an exclamation mark. A bracket that is not closed stands for itself.
\<close>

fun class_match :: "string \<Rightarrow> char \<Rightarrow> bool" where
  "class_match (a # b # c # r) x =
     (if b = CHR ''-'' then (of_char a \<le> (of_char x :: nat) \<and> of_char x \<le> (of_char c :: nat)) \<or> class_match r x
      else a = x \<or> class_match (b # c # r) x)"
| "class_match [a, b] x = (a = x \<or> b = x)"
| "class_match [a] x = (a = x)"
| "class_match [] x = False"

definition bracket :: "string \<Rightarrow> (bool \<times> string \<times> string) option" where
  "bracket p =
     (let neg = (take 1 p = ''!''); q = (if neg then drop 1 p else p);
          first = (if take 1 q = '']'' then '']'' else ''''); body = drop (length first) q
      in if CHR '']'' \<in> set body
         then Some (neg, first @ takeWhile (\<lambda>c. c \<noteq> CHR '']'') body, tl (dropWhile (\<lambda>c. c \<noteq> CHR '']'') body))
         else None)"

lemma bracket_shorter:
  assumes "bracket p = Some (neg, cs, r)"
  shows "length r \<le> length p"
proof -
  have dw: "length (dropWhile P xs) \<le> length xs" for P and xs :: string by (induction xs) auto
  define neg' where "neg' = (take 1 p = ''!'')"
  define q where "q = (if neg' then drop 1 p else p)"
  define first where "first = (if take 1 q = '']'' then '']'' else '''')"
  have q: "q = drop (if neg' then 1 else 0) p" by (simp add: q_def)
  have "r = tl (dropWhile (\<lambda>c. c \<noteq> CHR '']'') (drop (length first) q))"
    using assms unfolding bracket_def Let_def neg'_def [symmetric] q_def [symmetric] first_def [symmetric]
    by (simp split: if_splits)
  then obtain k where "r = tl (dropWhile (\<lambda>c. c \<noteq> CHR '']'') (drop k p))" unfolding q drop_drop by blast
  then show ?thesis using dw [of "\<lambda>c. c \<noteq> CHR '']''" "drop k p"] by simp
qed

function fnmatch :: "string \<Rightarrow> string \<Rightarrow> bool" where
  "fnmatch [] s \<longleftrightarrow> s = []"
| "fnmatch (c # p) s \<longleftrightarrow>
     (if c = CHR ''*'' then fnmatch p s \<or> (if s = [] then False else fnmatch (c # p) (tl s))
      else if s = [] then False
      else if c = CHR ''?'' then fnmatch p (tl s)
      else if c = CHR ''['' then
        (case bracket p of
           None \<Rightarrow> hd s = c \<and> fnmatch p (tl s)
         | Some (neg, cs, r) \<Rightarrow> class_match cs (hd s) \<noteq> neg \<and> fnmatch r (tl s))
      else hd s = c \<and> fnmatch p (tl s))"
  by pat_completeness auto
termination
  by (relation "measure (\<lambda>(p, s). length p + length s)")
    (auto dest!: bracket_shorter simp: neq_Nil_conv)

definition fnmatch_filter :: "string list \<Rightarrow> string \<Rightarrow> string list" where
  "fnmatch_filter names pat = filter (fnmatch pat) names"

declare fnmatch.simps(2) [simp del]

lemma fnmatch_literal:
  assumes "\<forall>c \<in> set p. c \<notin> {CHR ''*'', CHR ''?'', CHR ''[''}"
  shows "fnmatch p s \<longleftrightarrow> s = p"
  using assms
proof (induction p arbitrary: s)
  case Nil
  show ?case by simp
next
  case (Cons c p)
  then show ?case by (cases s) (auto simp: fnmatch.simps(2))
qed

lemma fnmatch_star: "fnmatch ''*'' s"
proof (induction s)
  case Nil
  show ?case by (subst fnmatch.simps(2)) simp
next
  case (Cons c s)
  then show ?case by (subst fnmatch.simps(2)) simp
qed

end
