(* ===== verification/Analysis.thy ===== *)
theory Analysis
  imports PyFloat PyText
begin

text \<open>
  The offline analysis \<open>Python_Analysis_Scripts/main.py\<close>: the configuration file, the
  measurement and packet traces of every trial, the data rate of every UE, the averages over
  the trials and the files written. The rows of the traces are taken as already split and
  converted; \<open>float\<close> on a string, the confidence interval of scipy and the file system are
  parameters.
\<close>

section \<open>Configuration\<close>

datatype config_value = CNum double | CList "double list"

fun map_result :: "('a \<Rightarrow> 'b result) \<Rightarrow> 'a list \<Rightarrow> 'b list result" where
  "map_result f [] = Inr []"
| "map_result f (a # as) = ebind (f a) (\<lambda>b. ebind (map_result f as) (\<lambda>bs. Inr (b # bs)))"

definition config_line ::
  "(string \<Rightarrow> double result) \<Rightarrow> string \<Rightarrow> (string \<rightharpoonup> config_value) \<Rightarrow> (string \<rightharpoonup> config_value) result" where
  "config_line py_float line cfg =
     (case split_on CHR '':'' line of
        [key, v] \<Rightarrow>
          (let temp2 = split_on CHR '' '' v in
           if length temp2 = 3 then ebind (py_float v) (\<lambda>d. Inr (cfg(key \<mapsto> CNum d)))
           else ebind (map_result py_float (drop 1 (take (length temp2 - 1) temp2)))
                  (\<lambda>ds. Inr (cfg(key \<mapsto> CList ds))))
      | _ \<Rightarrow> Inr cfg)"

fun load_config ::
  "(string \<Rightarrow> double result) \<Rightarrow> string list \<Rightarrow> (string \<rightharpoonup> config_value) \<Rightarrow> (string \<rightharpoonup> config_value) result" where
  "load_config py_float [] cfg = Inr cfg"
| "load_config py_float (l # ls) cfg = ebind (config_line py_float l cfg) (load_config py_float ls)"

definition config_num :: "(string \<rightharpoonup> config_value) \<Rightarrow> string \<Rightarrow> double result" where
  "config_num cfg key =
     (case cfg key of None \<Rightarrow> Inl KeyError | Some (CList _) \<Rightarrow> Inl TypeError | Some (CNum d) \<Rightarrow> Inr d)"

section \<open>Measurements\<close>

text \<open>Cells are numbered from 1, three sectors to a base station.\<close>

definition bs_index :: "int \<Rightarrow> int" where
  "bs_index cellID = \<lceil>fl (of_int cellID / 3)\<rceil> - 1"

definition sector_index :: "int \<Rightarrow> int" where
  "sector_index cellID = (cellID - 1) mod 3"

record measurement =
  ms_time :: double
  ms_imsi :: int
  ms_cellID :: int
  ms_serving :: int
  ms_rsrp :: double
  ms_rsrq :: double

record ue_trace =
  rsrpRsrqTime :: "double list"
  currentServingCell :: "int list"
  rsrpData :: "double list list list"
  rsrqData :: "double list list list"

record loader =
  ues :: "ue_trace list"
  lineCounter :: nat
  servingCellSetFlag :: bool

definition empty_trace :: "nat \<Rightarrow> ue_trace" where
  "empty_trace numBS =
     \<lparr>rsrpRsrqTime = [], currentServingCell = [], rsrpData = replicate numBS [[], [], []],
      rsrqData = replicate numBS [[], [], []]\<rparr>"

definition append3 :: "int \<Rightarrow> int \<Rightarrow> double \<Rightarrow> double list list list \<Rightarrow> double list list list result" where
  "append3 b c v d =
     (case py_index (length d) b of
        None \<Rightarrow> Inl IndexError
      | Some i \<Rightarrow> (case py_index (length (d ! i)) c of
            None \<Rightarrow> Inl IndexError
          | Some j \<Rightarrow> Inr (d[i := (d ! i)[j := d ! i ! j @ [v]]])))"

text \<open>
  One line of the trace, as the loop handles it: every \<open>3 * numBS\<close> lines form a sample of one
  UE; \<open>ph\<close> is the position in the sample and \<open>flag\<close> tells whether the sample has had its serving
  cell. The counter and the flag carry over from one trial to the next.
\<close>

definition is_serving :: "measurement \<Rightarrow> bool" where
  "is_serving m \<longleftrightarrow> ms_serving m = 1"

definition cells_of_line :: "nat \<Rightarrow> nat \<Rightarrow> bool \<Rightarrow> measurement \<Rightarrow> int list" where
  "cells_of_line n ph flag m =
     (if is_serving m then [ms_cellID m] else []) @
     (if ph = n - 1 \<and> \<not> (flag \<or> is_serving m) then [0] else [])"

definition trace_line :: "nat \<Rightarrow> nat \<Rightarrow> bool \<Rightarrow> measurement \<Rightarrow> ue_trace \<Rightarrow> ue_trace result" where
  "trace_line n ph flag m tr =
     (let b = bs_index (ms_cellID m); c = sector_index (ms_cellID m) in
      ebind (append3 b c (ms_rsrp m) (rsrpData tr)) (\<lambda>p.
      ebind (append3 b c (ms_rsrq m) (rsrqData tr)) (\<lambda>q.
      Inr (tr\<lparr>rsrpRsrqTime := rsrpRsrqTime tr @ (if ph = 0 then [ms_time m] else []),
              rsrpData := p, rsrqData := q,
              currentServingCell := currentServingCell tr @ cells_of_line n ph flag m\<rparr>))))"

definition add_measurement :: "nat \<Rightarrow> measurement \<Rightarrow> loader \<Rightarrow> loader result" where
  "add_measurement numBS m l =
     (if numBS * 3 = 0 then Inl ZeroDivisionError
      else case py_index (length (ues l)) (ms_imsi m - 1) of
        None \<Rightarrow> Inl IndexError
      | Some u \<Rightarrow>
        (let n = numBS * 3; ph = lineCounter l mod n in
         ebind (trace_line n ph (servingCellSetFlag l) m (ues l ! u)) (\<lambda>tr.
         Inr (l\<lparr>ues := (ues l)[u := tr], lineCounter := lineCounter l + 1,
                servingCellSetFlag := (ph \<noteq> n - 1 \<and> (servingCellSetFlag l \<or> is_serving m))\<rparr>))))"

fun load_measurements :: "nat \<Rightarrow> measurement list \<Rightarrow> loader \<Rightarrow> loader result" where
  "load_measurements numBS [] l = Inr l"
| "load_measurements numBS (m # ms) l = ebind (add_measurement numBS m l) (load_measurements numBS ms)"

section \<open>Packets\<close>

text \<open>
  Per UE a dictionary from the time, as it is written in the file, to bytes, in insertion
  order. The UE is the last part of the address minus 2.
\<close>

fun dict_add :: "string \<Rightarrow> int \<Rightarrow> (string \<times> int) list \<Rightarrow> (string \<times> int) list" where
  "dict_add t b [] = [(t, b)]"
| "dict_add t b ((t', b') # d) = (if t = t' then (t, b' + b) # d else (t', b') # dict_add t b d)"

definition add_packet ::
  "string \<times> int \<times> int \<Rightarrow> (string \<times> int) list list \<Rightarrow> (string \<times> int) list list result" where
  "add_packet p ds =
     (case p of (t, bytesRx, rxAddress) \<Rightarrow>
        (case py_index (length ds) (rxAddress - 2) of
           None \<Rightarrow> Inl IndexError
         | Some u \<Rightarrow> Inr (ds[u := dict_add t bytesRx (ds ! u)])))"

fun load_packets ::
  "(string \<times> int \<times> int) list \<Rightarrow> (string \<times> int) list list \<Rightarrow> (string \<times> int) list list result" where
  "load_packets [] ds = Inr ds"
| "load_packets (p # ps) ds = ebind (add_packet p ds) (load_packets ps)"

section \<open>Data rate\<close>

definition rateBinWidth :: nat where
  "rateBinWidth = 2"

definition slot_of :: "double \<Rightarrow> int" where
  "slot_of t = trunc (py_sub (py_mul t 1000) 1)"

text \<open>Later packets of the same slot replace earlier ones.\<close>

fun fill_slots :: "(double \<times> int) list \<Rightarrow> int list \<Rightarrow> int list result" where
  "fill_slots [] xs = Inr xs"
| "fill_slots ((t, b) # ps) xs =
     (case py_index (length xs) (slot_of t) of
        None \<Rightarrow> Inl IndexError
      | Some k \<Rightarrow> fill_slots ps (xs[k := b]))"

definition py_sum :: "double list \<Rightarrow> double" where
  "py_sum = foldl py_add 0"

definition slot_rate :: "int \<Rightarrow> double" where
  "slot_rate b = fl (of_int b / py_mul (of_nat rateBinWidth) (fl (1 / 1000)))"

definition rate_at :: "int list \<Rightarrow> nat \<Rightarrow> double" where
  "rate_at received k =
     (let from_k = (if k < rateBinWidth - 1 then 0 else k + 1 - rateBinWidth)
      in py_sum (map (\<lambda>i. slot_rate (received ! i)) [from_k..<k]))"

definition data_rate ::
  "(string \<Rightarrow> double result) \<Rightarrow> double \<Rightarrow> (string \<times> int) list \<Rightarrow> (double list \<times> double list) result" where
  "data_rate py_float duration packets =
     (if packets = [] then Inr ([], [])
      else ebind (map_result (\<lambda>(t, b). ebind (py_float t) (\<lambda>d. Inr (d, b))) packets) (\<lambda>ps.
        (let n = nat (trunc (py_mul 1000 duration)) in
         ebind (fill_slots ps (replicate n 0)) (\<lambda>received.
         Inr (map (\<lambda>i. fl (of_nat i / 1000)) [0..<n], map (rate_at received) [0..<n])))))"

section \<open>Averages over the trials\<close>

definition average :: "double list \<Rightarrow> double result" where
  "average xs = py_div (py_sum xs) (of_nat (length xs))"

definition column :: "nat \<Rightarrow> double list list \<Rightarrow> double list result" where
  "column j = map_result (\<lambda>xs. py_nth xs (int j))"

text \<open>The average and the confidence interval of every column of a table with a row per trial.\<close>

definition average_columns ::
  "(double list \<Rightarrow> double) \<Rightarrow> nat \<Rightarrow> double list list \<Rightarrow> (double list \<times> double list) result" where
  "average_columns ci n rows_of =
     ebind (map_result (\<lambda>j. ebind (column j rows_of) (\<lambda>xs. ebind (average xs) (\<lambda>a. Inr (a, ci xs)))) [0..<n])
       (\<lambda>acs. Inr (map fst acs, map snd acs))"

section \<open>Files\<close>

record trial =
  tr_rates :: "(double list \<times> double list) list"
  tr_traces :: "ue_trace list"

definition trial_files :: "nat \<Rightarrow> trial \<Rightarrow> nat \<Rightarrow> (string \<times> double list list) list" where
  "trial_files numBS t j =
     (let u = tr_traces t ! j in
      [(''dataRate'', [fst (tr_rates t ! j), snd (tr_rates t ! j)]),
       (''RSRP'', rsrpRsrqTime u # concat (map (\<lambda>k. map (\<lambda>l. rsrpData u ! k ! l) [0..<3]) [0..<numBS])),
       (''RSRQ'', rsrpRsrqTime u # concat (map (\<lambda>k. map (\<lambda>l. rsrqData u ! k ! l) [0..<3]) [0..<numBS])),
       (''currentServingCell'', [rsrpRsrqTime u, map of_int (currentServingCell u)])])"

definition average_signal ::
  "(double list \<Rightarrow> double) \<Rightarrow> nat \<Rightarrow> nat \<Rightarrow> (ue_trace \<Rightarrow> double list list list) \<Rightarrow> trial list \<Rightarrow> nat \<Rightarrow>
   double list list result" where
  "average_signal ci numBS n sig ts j =
     ebind (map_result (\<lambda>kl. ebind (average_columns ci n (map (\<lambda>t. sig (tr_traces t ! j) ! (kl div 3) ! (kl mod 3)) ts))
         (\<lambda>(a, c). Inr [a, c])) [0..<numBS * 3])
       (\<lambda>rs. Inr (concat rs))"

definition average_files ::
  "(double list \<Rightarrow> double) \<Rightarrow> nat \<Rightarrow> nat \<Rightarrow> trial list \<Rightarrow> nat \<Rightarrow> (string \<times> double list list) list result" where
  "average_files ci numBS n_rate ts j =
     (let n = length (rsrpRsrqTime (tr_traces (ts ! 0) ! 0)) in
      ebind (average_columns ci n_rate (map (\<lambda>t. fst (tr_rates t ! j)) ts)) (\<lambda>(rt, _).
      ebind (average_columns ci n_rate (map (\<lambda>t. snd (tr_rates t ! j)) ts)) (\<lambda>(ra, rc).
      ebind (average_columns ci n (map (\<lambda>t. rsrpRsrqTime (tr_traces t ! j)) ts)) (\<lambda>(mt, _).
      ebind (average_signal ci numBS n rsrpData ts j) (\<lambda>ps.
      ebind (average_signal ci numBS n rsrqData ts j) (\<lambda>qs.
      Inr [(''AverageDataRate'', [rt, ra, rc]), (''AverageRSRP'', mt # ps), (''AverageRSRQ'', mt # qs)]))))))"

text \<open>
  The whole script after its arguments: load every trial, compute the rates, average when
  there is more than one trial, write the files of the trials and then those of the
  averages, whether the averages were computed or not. The result is what was
  written before the averages, and how writing those went.
\<close>

fun load_trials ::
  "nat \<Rightarrow> nat \<Rightarrow> nat \<Rightarrow> bool \<Rightarrow> (measurement list \<times> (string \<times> int \<times> int) list) list \<Rightarrow>
   (ue_trace list \<times> (string \<times> int) list list) list result" where
  "load_trials numUE numBS counter flag [] = Inr []"
| "load_trials numUE numBS counter flag ((ms, ps) # rest) =
     ebind (load_measurements numBS ms
        \<lparr>ues = replicate numUE (empty_trace numBS), lineCounter = counter, servingCellSetFlag = flag\<rparr>) (\<lambda>l.
     ebind (load_packets ps (replicate numUE [])) (\<lambda>ds.
     ebind (load_trials numUE numBS (lineCounter l) (servingCellSetFlag l) rest) (\<lambda>ts.
     Inr ((ues l, ds) # ts))))"

definition find_rates ::
  "(string \<Rightarrow> double result) \<Rightarrow> double \<Rightarrow> (ue_trace list \<times> (string \<times> int) list list) list \<Rightarrow>
   trial list result" where
  "find_rates py_float duration =
     map_result (\<lambda>(traces, ds). ebind (map_result (data_rate py_float duration) ds) (\<lambda>rates.
       Inr \<lparr>tr_rates = rates, tr_traces = traces\<rparr>))"

definition analyse ::
  "(string \<Rightarrow> double result) \<Rightarrow> (double list \<Rightarrow> double) \<Rightarrow> string list \<Rightarrow>
   (measurement list \<times> (string \<times> int \<times> int) list) list \<Rightarrow>
   ((string \<times> double list list) list \<times> (string \<times> double list list) list result) result" where
  "analyse py_float ci config trials =
     ebind (load_config py_float config Map.empty) (\<lambda>cfg.
     ebind (config_num cfg ''number of UEs'') (\<lambda>nu.
     ebind (config_num cfg ''number of BS'') (\<lambda>nb.
     ebind (config_num cfg ''Simulation duration (s)'') (\<lambda>duration.
     ebind (config_num cfg ''Sampling Frequency (Hz)'') (\<lambda>_.
     (let numUE = nat (trunc nu); numBS = nat (trunc nb); n_rate = nat (trunc (py_mul 1000 duration)) in
      ebind (load_trials numUE numBS 0 False trials) (\<lambda>loaded.
      ebind (find_rates py_float duration loaded) (\<lambda>ts.
      ebind (if 1 < length ts
             then ebind (map_result (average_files ci numBS n_rate ts) [0..<numUE]) (\<lambda>avg. Inr (Inr (concat avg)))
             else if numUE = 0 then Inr (Inr [])
             else Inr (Inl (NameError ''averageDataRateTime''))) (\<lambda>avg.
      Inr (concat (map (\<lambda>t. concat (map (trial_files numBS t) [0..<numUE])) ts), avg))))))))))"

section \<open>Lemmas\<close>

lemma fl_quarter:
  assumes "\<bar>m\<bar> < 2 ^ 53"
  shows "fl (of_int m / 4) = of_int m / 4"
proof -
  have "(of_int m :: rat) / 4 = of_int m * pow2 (- 2)" by (simp add: pow2_def)
  then show ?thesis
    using fl_prec_exact [of m 53 "- 1074" "- 2"] assms by (simp only: fl_def) simp
qed

lemma ceil_third:
  assumes "1 \<le> c" and "c < 2 ^ 50"
  shows "\<lceil>fl (of_int c / 3)\<rceil> = (c + 2) div 3"
proof -
  let ?q = "(c + 2) div 3" and ?x = "of_int c / 3 :: rat"
  have q: "3 * ?q - 2 \<le> c" "c \<le> 3 * ?q" "1 \<le> ?q" "?q < 2 ^ 50" using assms by auto
  have "(of_int c :: rat) \<le> of_int (3 * ?q)" using q(2) by (simp only: of_int_le_iff)
  then have "?x \<le> of_int ?q" by simp
  then have "fl ?x \<le> fl (of_int ?q)" by (rule b64.rnd_mono)
  also have "\<dots> = of_int ?q" using q b64.rnd_int [of ?q] by simp
  finally have up: "fl ?x \<le> of_int ?q" .
  have "(of_int (3 * ?q - 2) :: rat) \<le> of_int c" using q(1) by (simp only: of_int_le_iff)
  then have "of_int (4 * ?q - 3) / 4 \<le> ?x" by simp
  then have "fl (of_int (4 * ?q - 3) / 4) \<le> fl ?x" by (rule b64.rnd_mono)
  moreover have "fl (of_int (4 * ?q - 3) / 4) = of_int (4 * ?q - 3) / 4"
    by (rule fl_quarter) (use q in simp)
  ultimately have "of_int ?q - 1 < fl ?x" by simp
  with up show ?thesis by (simp add: ceiling_eq_iff)
qed

lemma cell_indices:
  assumes "1 \<le> c" and "c < 2 ^ 50"
  shows "bs_index c = (c - 1) div 3" and "sector_index c = (c - 1) mod 3"
proof -
  have "(c + 2) div 3 - 1 = (c - 1) div 3" by simp
  then show "bs_index c = (c - 1) div 3" by (simp add: bs_index_def ceil_third [OF assms])
qed (simp add: sector_index_def)

lemma dict_add_sum: "(\<Sum>kv \<leftarrow> dict_add t b d. snd kv) = (\<Sum>kv \<leftarrow> d. snd kv) + b"
  by (induction t b d rule: dict_add.induct) simp_all

lemma dict_add_keys: "distinct (map fst d) \<Longrightarrow> distinct (map fst (dict_add t b d)) \<and>
    set (map fst (dict_add t b d)) = insert t (set (map fst d))"
  by (induction t b d rule: dict_add.induct) auto

definition bytes_of :: "nat \<Rightarrow> nat \<Rightarrow> (string \<times> int \<times> int) list \<Rightarrow> int" where
  "bytes_of n u ps = (\<Sum>(t, b, a) \<leftarrow> ps. if py_index n (a - 2) = Some u then b else 0)"

lemma load_packets_inv:
  assumes "load_packets ps ds = Inr ds'" and "u < length ds"
  shows "length ds' = length ds \<and>
    (\<Sum>kv \<leftarrow> ds' ! u. snd kv) = (\<Sum>kv \<leftarrow> ds ! u. snd kv) + bytes_of (length ds) u ps \<and>
    (distinct (map fst (ds ! u)) \<longrightarrow> distinct (map fst (ds' ! u)))"
  using assms
proof (induction ps arbitrary: ds)
  case (Cons p ps)
  obtain t b a where p: "p = (t, b, a)" by (cases p)
  obtain d1 where d1: "add_packet p ds = Inr d1" and r: "load_packets ps d1 = Inr ds'"
    using Cons.prems(1) by (auto simp: ebind_Inr_iff)
  then obtain v where v: "py_index (length ds) (a - 2) = Some v" "d1 = ds[v := dict_add t b (ds ! v)]"
    by (auto simp: add_packet_def p split: option.splits)
  have "v < length ds" using py_index_lt [OF v(1)] .
  then show ?case
    using Cons.IH [OF r] Cons.prems(2) v p
    by (cases "v = u") (auto simp: bytes_of_def dict_add_sum dict_add_keys)
qed (simp add: bytes_of_def)

text \<open>The lines of one sample, from any position in it to its end.\<close>

lemma trace_line_lengths:
  assumes "trace_line n ph flag m tr = Inr tr'"
  shows "length (rsrpRsrqTime tr') = length (rsrpRsrqTime tr) + (if ph = 0 then 1 else 0)"
    and "length (currentServingCell tr') = length (currentServingCell tr) + length (cells_of_line n ph flag m)"
  using assms by (auto simp: trace_line_def Let_def ebind_Inr_iff)

lemma add_measurement_Inr:
  assumes "add_measurement numBS m l = Inr l'" and "py_index (length (ues l)) (ms_imsi m - 1) = Some u"
  shows "lineCounter l' = lineCounter l + 1" and "length (ues l') = length (ues l)"
    and "v \<noteq> u \<Longrightarrow> ues l' ! v = ues l ! v"
    and "servingCellSetFlag l' \<longleftrightarrow> lineCounter l mod (numBS * 3) \<noteq> numBS * 3 - 1 \<and>
      (servingCellSetFlag l \<or> is_serving m)"
    and "length (rsrpRsrqTime (ues l' ! u)) =
      length (rsrpRsrqTime (ues l ! u)) + (if lineCounter l mod (numBS * 3) = 0 then 1 else 0)"
    and "length (currentServingCell (ues l' ! u)) = length (currentServingCell (ues l ! u)) +
      length (cells_of_line (numBS * 3) (lineCounter l mod (numBS * 3)) (servingCellSetFlag l) m)"
proof -
  obtain tr where tr: "trace_line (numBS * 3) (lineCounter l mod (numBS * 3)) (servingCellSetFlag l) m (ues l ! u) = Inr tr"
    and l': "l' = l\<lparr>ues := (ues l)[u := tr], lineCounter := lineCounter l + 1,
        servingCellSetFlag := (lineCounter l mod (numBS * 3) \<noteq> numBS * 3 - 1 \<and>
          (servingCellSetFlag l \<or> is_serving m))\<rparr>"
    using assms by (auto simp: add_measurement_def Let_def ebind_Inr_iff split: if_splits)
  note u = py_index_lt [OF assms(2)]
  show "lineCounter l' = lineCounter l + 1" "length (ues l') = length (ues l)"
    "v \<noteq> u \<Longrightarrow> ues l' ! v = ues l ! v"
    "servingCellSetFlag l' \<longleftrightarrow> lineCounter l mod (numBS * 3) \<noteq> numBS * 3 - 1 \<and>
      (servingCellSetFlag l \<or> is_serving m)"
    by (simp_all add: l')
  show "length (rsrpRsrqTime (ues l' ! u)) =
      length (rsrpRsrqTime (ues l ! u)) + (if lineCounter l mod (numBS * 3) = 0 then 1 else 0)"
    "length (currentServingCell (ues l' ! u)) = length (currentServingCell (ues l ! u)) +
      length (cells_of_line (numBS * 3) (lineCounter l mod (numBS * 3)) (servingCellSetFlag l) m)"
    using trace_line_lengths [OF tr] u by (simp_all add: l')
qed

definition sample_of :: "nat \<Rightarrow> nat \<Rightarrow> measurement list \<Rightarrow> bool" where
  "sample_of n u ms \<longleftrightarrow> (\<forall>m \<in> set ms. py_index n (ms_imsi m - 1) = Some u) \<and>
     length (filter is_serving ms) \<le> 1"

lemma load_sample:
  assumes "load_measurements numBS ms l = Inr l'" and "ms \<noteq> []"
    and "lineCounter l mod (numBS * 3) + length ms = numBS * 3"
    and "\<forall>m \<in> set ms. py_index (length (ues l)) (ms_imsi m - 1) = Some u"
    and "length (filter is_serving ms) + (if servingCellSetFlag l then 1 else 0) \<le> 1"
  shows "lineCounter l' = lineCounter l + length ms \<and> \<not> servingCellSetFlag l' \<and>
    length (ues l') = length (ues l) \<and> (\<forall>v. v \<noteq> u \<longrightarrow> ues l' ! v = ues l ! v) \<and>
    length (rsrpRsrqTime (ues l' ! u)) =
      length (rsrpRsrqTime (ues l ! u)) + (if lineCounter l mod (numBS * 3) = 0 then 1 else 0) \<and>
    length (currentServingCell (ues l' ! u)) =
      length (currentServingCell (ues l ! u)) + (if servingCellSetFlag l then 0 else 1)"
  using assms
proof (induction ms arbitrary: l)
  case (Cons m ms)
  let ?n = "numBS * 3" and ?ph = "lineCounter l mod (numBS * 3)"
  obtain t where t: "add_measurement numBS m l = Inr t" and r: "load_measurements numBS ms t = Inr l'"
    using Cons.prems(1) by (auto simp: ebind_Inr_iff)
  have "py_index (length (ues l)) (ms_imsi m - 1) = Some u" using Cons.prems(4) by simp
  note a = add_measurement_Inr [OF t this]
  show ?case
  proof (cases "ms = []")
    case True
    then have "lineCounter l mod ?n = ?n - 1" using Cons.prems(3) by simp
    then show ?thesis using a r True Cons.prems(5) by (auto simp: cells_of_line_def split: if_splits)
  next
    case False
    then have ph: "?ph + 1 < ?n" using Cons.prems(3) by (cases ms) auto
    then have "lineCounter t mod ?n = ?ph + 1" using a(1) by (simp add: mod_Suc)
    moreover have "lineCounter t mod ?n + length ms = ?n"
      using calculation Cons.prems(3) by simp
    moreover have "length (filter is_serving ms) + (if servingCellSetFlag t then 1 else 0) \<le> 1"
      using Cons.prems(5) a(4) ph by (auto split: if_splits)
    ultimately show ?thesis
      using Cons.IH [OF r False] Cons.prems(4,5) a ph by (auto simp: cells_of_line_def split: if_splits)
  qed
qed simp

lemma load_measurements_append:
  "load_measurements numBS (as @ bs) =
     (\<lambda>l. ebind (load_measurements numBS as l) (load_measurements numBS bs))"
proof (induction as)
  case (Cons a as)
  show ?case by (rule ext) (simp add: Cons ebind_assoc)
qed simp

lemma load_samples:
  assumes "load_measurements numBS (concat samples) l = Inr l'" and "0 < numBS"
    and "\<forall>ms \<in> set samples. length ms = numBS * 3 \<and> (\<exists>u. sample_of (length (ues l)) u ms)"
    and "lineCounter l mod (numBS * 3) = 0" and "\<not> servingCellSetFlag l"
    and "\<forall>v < length (ues l). length (rsrpRsrqTime (ues l ! v)) = length (currentServingCell (ues l ! v))"
  shows "lineCounter l' mod (numBS * 3) = 0 \<and> \<not> servingCellSetFlag l' \<and> length (ues l') = length (ues l) \<and>
    (\<forall>v < length (ues l). length (rsrpRsrqTime (ues l' ! v)) = length (currentServingCell (ues l' ! v)))"
  using assms
proof (induction samples arbitrary: l)
  case (Cons ms samples)
  obtain t where t: "load_measurements numBS ms l = Inr t"
    and r: "load_measurements numBS (concat samples) t = Inr l'"
    using Cons.prems(1) by (auto simp: load_measurements_append ebind_Inr_iff)
  obtain u where u: "sample_of (length (ues l)) u ms" and len: "length ms = numBS * 3"
    using Cons.prems(3) by auto
  have ne: "ms \<noteq> []" using len Cons.prems(2) by auto
  have step: "lineCounter t = lineCounter l + length ms \<and> \<not> servingCellSetFlag t \<and>
      length (ues t) = length (ues l) \<and> (\<forall>v. v \<noteq> u \<longrightarrow> ues t ! v = ues l ! v) \<and>
      length (rsrpRsrqTime (ues t ! u)) = length (rsrpRsrqTime (ues l ! u)) + 1 \<and>
      length (currentServingCell (ues t ! u)) = length (currentServingCell (ues l ! u)) + 1"
    using load_sample [OF t ne, of u] u len Cons.prems(4,5) by (auto simp: sample_of_def)
  have "\<forall>v < length (ues t). length (rsrpRsrqTime (ues t ! v)) = length (currentServingCell (ues t ! v))"
    using step Cons.prems(6) by metis
  moreover have "lineCounter t mod (numBS * 3) = 0" using step len Cons.prems(4) by simp
  ultimately show ?case using Cons.IH [OF r] Cons.prems(2,3) step by simp
qed simp

section \<open>Properties\<close>

text \<open>
  The cell numbering is decoded without error: for every cell of the scenario the base
  station and sector indices are in range and give the cell number back, although the
  base station goes through a floating point division. Cell 0 is not rejected: Python's
  negative indices file it under the last sector of the last station.
\<close>

theorem cell_index_roundtrip:
  assumes "1 \<le> c" and "c \<le> 3 * int numBS" and "3 * int numBS < 2 ^ 50"
  shows "0 \<le> bs_index c \<and> bs_index c < int numBS \<and> 0 \<le> sector_index c \<and> sector_index c < 3 \<and>
    3 * bs_index c + sector_index c + 1 = c \<and>
    py_index numBS (bs_index 0) = Some (numBS - 1) \<and> py_index 3 (sector_index 0) = Some 2"
proof -
  have c: "bs_index c = (c - 1) div 3" "sector_index c = (c - 1) mod 3"
    using cell_indices [of c] assms by simp_all
  have "0 < numBS" using assms by simp
  moreover have "bs_index 0 = - 1" "sector_index 0 = 2"
    by (simp_all add: bs_index_def sector_index_def fl_def)
  ultimately have "py_index numBS (bs_index 0) = Some (numBS - 1)" "py_index 3 (sector_index 0) = Some 2"
    by (auto simp: py_index_def nat_diff_distrib)
  moreover have "0 \<le> (c - 1) div 3" "(c - 1) div 3 < int numBS" using assms by auto
  ultimately show ?thesis unfolding c by simp
qed

lemma cell_index_roundtrip_witness:
  "3 * bs_index 7 + sector_index 7 + 1 = 7 \<and> bs_index 7 < 3"
  using cell_index_roundtrip [of 7 3] by simp

text \<open>
  The packet dictionaries lose no byte: after loading a trace the values of a UE's
  dictionary add up to the bytes of its packets, and its keys are distinct.
\<close>

theorem packet_bytes_conserved:
  assumes "load_packets ps (replicate n []) = Inr ds" and "u < n"
  shows "(\<Sum>kv \<leftarrow> ds ! u. snd kv) = bytes_of n u ps \<and> distinct (map fst (ds ! u))"
  using load_packets_inv [OF assms(1), of u] assms(2) by simp

lemma packet_bytes_conserved_witness:
  "\<exists>ds. load_packets [(''1'', 5, 2), (''1'', 6, 2), (''2'', 7, 3)] (replicate 2 []) = Inr ds \<and>
     (\<Sum>kv \<leftarrow> ds ! 0. snd kv) = 11"
proof -
  obtain ds where ds: "load_packets [(''1'', 5, 2), (''1'', 6, 2), (''2'', 7, 3)] (replicate 2 []) = Inr ds"
    by (simp add: add_packet_def py_index_def numeral_2_eq_2)
  have "bytes_of 2 0 [(''1'', 5, 2), (''1'', 6, 2), (''2'', 7, 3)] = 11"
    by (simp add: bytes_of_def py_index_def)
  then show ?thesis using packet_bytes_conserved [OF ds, of 0] ds by auto
qed

text \<open>
  The data rate does lose bytes. The window of two slots holds one: beyond the first slot the rate is that of
  the previous millisecond alone, divided by the width of two. And slots are computed by a
  truncation that sends a packet at 1.001 s to the slot of one at 1.000 s, whose bytes it
  replaces; a packet at time 0 goes to the last slot of the run.
\<close>

theorem data_rate_defects:
  "rate_at received 0 = 0 \<and>
   rate_at received (Suc k) = fl (of_int (received ! k) / py_mul 2 (fl (1 / 1000))) \<and>
   fill_slots [(1, a), (fl (1001 / 1000), b)] (replicate 2000 0) = Inr ((replicate 2000 0)[999 := b]) \<and>
   fill_slots [(0, a)] (replicate 2000 0) = Inr ((replicate 2000 0)[1999 := a])"
proof (intro conjI)
  show "rate_at received 0 = 0" by (simp add: rate_at_def rateBinWidth_def py_sum_def)
  have r: "rate_at received (Suc k) = py_add 0 (slot_rate (received ! k))"
    by (simp add: rate_at_def rateBinWidth_def py_sum_def Let_def)
  show "rate_at received (Suc k) = fl (of_int (received ! k) / py_mul 2 (fl (1 / 1000)))"
    unfolding r by (simp add: py_add_def slot_rate_def rateBinWidth_def b64.rnd_idem)
  have s: "slot_of 1 = 999" "slot_of (fl (1001 / 1000)) = 999" "slot_of 0 = - 1" by code_simp+
  show "fill_slots [(1, a), (fl (1001 / 1000), b)] (replicate 2000 0) = Inr ((replicate 2000 0)[999 := b])"
    by (simp add: s py_index_def)
  show "fill_slots [(0, a)] (replicate 2000 0) = Inr ((replicate 2000 0)[1999 := a])"
    by (simp add: s py_index_def)
qed

text \<open>
  The serving-cell trace stays aligned with the time axis. When the trace consists of
  complete samples, each of one UE and with at most one serving cell, every UE ends up with as many
  serving cells as times, radio link failures (no serving cell) included.
\<close>

theorem serving_cells_aligned:
  assumes "load_measurements numBS (concat samples)
      \<lparr>ues = replicate numUE (empty_trace numBS), lineCounter = 0, servingCellSetFlag = False\<rparr> = Inr l"
    and "0 < numBS" and "u < numUE"
    and "\<forall>ms \<in> set samples. length ms = numBS * 3 \<and> (\<exists>u. sample_of numUE u ms)"
  shows "length (rsrpRsrqTime (ues l ! u)) = length (currentServingCell (ues l ! u))"
  using load_samples [OF assms(1,2)] assms(3,4) by (auto simp: empty_trace_def)

lemma serving_cells_aligned_witness:
  "\<exists>l. load_measurements 1 (concat [[\<lparr>ms_time = 1, ms_imsi = 1, ms_cellID = 1, ms_serving = 0, ms_rsrp = 5, ms_rsrq = 6\<rparr>,
      \<lparr>ms_time = 1, ms_imsi = 1, ms_cellID = 2, ms_serving = 0, ms_rsrp = 5, ms_rsrq = 6\<rparr>,
      \<lparr>ms_time = 1, ms_imsi = 1, ms_cellID = 3, ms_serving = 0, ms_rsrp = 5, ms_rsrq = 6\<rparr>]])
      \<lparr>ues = replicate 1 (empty_trace 1), lineCounter = 0, servingCellSetFlag = False\<rparr> = Inr l \<and>
    length (rsrpRsrqTime (ues l ! 0)) = length (currentServingCell (ues l ! 0))"
proof -
  let ?m = "\<lambda>c. \<lparr>ms_time = 1, ms_imsi = 1, ms_cellID = c, ms_serving = 0, ms_rsrp = 5, ms_rsrq = 6\<rparr>"
  let ?l = "\<lparr>ues = replicate 1 (empty_trace 1), lineCounter = 0, servingCellSetFlag = False\<rparr>"
  have "is_ok (load_measurements 1 (concat [[?m 1, ?m 2, ?m 3]]) ?l)" by code_simp
  then obtain l where l: "load_measurements 1 (concat [[?m 1, ?m 2, ?m 3]]) ?l = Inr l" by (rule is_okE)
  moreover have "sample_of 1 0 [?m 1, ?m 2, ?m 3]" by (simp add: sample_of_def is_serving_def py_index_def)
  ultimately show ?thesis using serving_cells_aligned [OF l, of 0] by auto
qed

lemma map_result_length: "map_result f as = Inr bs \<Longrightarrow> length bs = length as"
  by (induction as arbitrary: bs) (auto simp: ebind_Inr_iff)

text \<open>
  With a single trial the script writes the files of the trial and then dies with a
  \<open>NameError\<close>: the averages are computed only for more than one trial, but written in any
  case.
\<close>

theorem single_trial_dies:
  assumes "load_config py_float config Map.empty = Inr cfg"
    and "config_num cfg ''number of UEs'' = Inr nu" and "1 \<le> nu"
    and "analyse py_float ci config [t] = Inr (files, avg)"
  shows "avg = Inl (NameError ''averageDataRateTime'')"
proof -
  have "0 < trunc nu" using assms(3) by (simp add: trunc_def)
  then have "0 < nat (trunc nu)" by simp
  moreover have "length ts = length l" if "find_rates py_float d l = Inr ts" for d l ts
    using that by (auto simp: find_rates_def dest: map_result_length)
  moreover have "length l = 1" if "load_trials n b 0 False [t] = Inr l" for n b l
    using that by (cases t) (auto simp: ebind_Inr_iff)
  ultimately show ?thesis
    using assms(1,2,4) by (auto simp: analyse_def Let_def ebind_Inr_iff split: if_splits)
qed

lemma single_trial_dies_witness:
  "\<exists>files. analyse (\<lambda>s. Inr 1) (\<lambda>xs. 0) [''number of UEs: 1 n'', ''number of BS: 1 n'',
     ''Simulation duration (s): 1 n'', ''Sampling Frequency (Hz): 1 n''] [([], [])] =
     Inr (files, Inl (NameError ''averageDataRateTime''))"
proof -
  let ?c = "[''number of UEs: 1 n'', ''number of BS: 1 n'', ''Simulation duration (s): 1 n'',
    ''Sampling Frequency (Hz): 1 n'']"
  let ?cfg = "[''number of UEs'' \<mapsto> CNum 1, ''number of BS'' \<mapsto> CNum 1, ''Simulation duration (s)'' \<mapsto> CNum 1,
    ''Sampling Frequency (Hz)'' \<mapsto> CNum 1] :: string \<rightharpoonup> config_value"
  have c: "load_config (\<lambda>s. Inr 1) ?c Map.empty = Inr ?cfg"
    by (simp add: config_line_def Let_def)
  have nu: "config_num ?cfg ''number of UEs'' = Inr 1" by (simp add: config_num_def)
  obtain files avg where a: "analyse (\<lambda>s. Inr 1) (\<lambda>xs. 0) ?c [([], [])] = Inr (files, avg)"
    unfolding analyse_def c
    by (simp add: config_num_def Let_def find_rates_def data_rate_def trunc_def)
  show ?thesis using single_trial_dies [OF c nu _ a] a by simp
qed

end
