(* ===== verification/TcpRl.thy ===== *)
theory TcpRl
  imports Agent "HOL-Library.Word"
begin

text \<open>
  The TCP example \<open>rl-tcp\<close>: \<open>run_rl_tcp.py\<close>, which answers every congestion event of the
  simulator with a new window and slow start threshold, either by the classical rules or by a
  small deep-Q agent with a target network, and \<open>testtcp.py\<close>, the classical rules alone. The
  fields of the shared structures are unsigned 32-bit integers; Python computes on
  unbounded integers and floats and the assignment to a field wraps.
\<close>

section \<open>Messages\<close>

record TcpRlEnv =
  nodeId :: "32 word"
  socketUid :: "32 word"
  envType :: "8 word"
  simTime_us :: "64 word"
  ssThresh :: "32 word"
  cWnd :: "32 word"
  segmentSize :: "32 word"
  segmentsAcked :: "32 word"
  bytesInFlight :: "32 word"

record TcpRlAct =
  new_ssThresh :: "32 word"
  new_cWnd :: "32 word"

definition set_act :: "int \<Rightarrow> int \<Rightarrow> TcpRlAct" where
  "set_act ncw nss = \<lparr>new_ssThresh = word_of_int nss, new_cWnd = word_of_int ncw\<rparr>"

section \<open>The classical rules\<close>

text \<open>
  \<open>IncreaseWindow\<close>: slow start below the threshold, congestion avoidance from it on; with
  no acknowledged segment the initial value 1 stays.
\<close>

definition slow_start :: "int \<Rightarrow> int \<Rightarrow> int \<Rightarrow> int \<Rightarrow> int \<Rightarrow> int" where
  "slow_start ss cw sa seg ncw = (if cw < ss \<and> 1 \<le> sa then cw + seg else ncw)"

definition congestion_avoidance :: "int \<Rightarrow> int \<Rightarrow> int \<Rightarrow> int \<Rightarrow> int \<Rightarrow> int result" where
  "congestion_avoidance ss cw sa seg ncw =
     (if ss \<le> cw \<and> 0 < sa then
        ebind (py_div (fl (of_int (seg * seg))) (of_int cw)) (\<lambda>adder.
        Inr (cw + trunc (max 1 adder)))
      else Inr ncw)"

definition GetSsThresh :: "int \<Rightarrow> int \<Rightarrow> int" where
  "GetSsThresh seg bif = trunc (max (of_int (2 * seg)) (fl (of_int bif / 2)))"

definition reno_body :: "TcpRlEnv \<Rightarrow> TcpRlAct result" where
  "reno_body e =
     (let ss = uint (ssThresh e); cw = uint (cWnd e); sa = uint (segmentsAcked e);
          seg = uint (segmentSize e); bif = uint (bytesInFlight e) in
      ebind (congestion_avoidance ss cw sa seg (slow_start ss cw sa seg 1)) (\<lambda>ncw.
      Inr (set_act ncw (GetSsThresh seg bif))))"

text \<open>The loop of \<open>testtcp.py\<close>: the answers to the messages, in order.\<close>

fun testtcp :: "TcpRlEnv list \<Rightarrow> TcpRlAct list result" where
  "testtcp [] = Inr []"
| "testtcp (e # es) = ebind (reno_body e) (\<lambda>a. ebind (testtcp es) (\<lambda>as. Inr (a # as)))"

section \<open>The agent of the TCP example\<close>

text \<open>
  \<open>np_sample E k n b\<close> and \<open>np_choice E k n\<close> are the draws of the generator as before;
  \<open>tcp_pow\<close> is the power function of the C library on floats, \<open>tcp_step\<close> one optimiser
  step on a batch (states, actions taken, targets), with the optimiser's own state.
\<close>

record ('p, 'o) tcp_ext = "'p ext" +
  tcp_pow :: "double \<Rightarrow> nat \<Rightarrow> double"
  tcp_step :: "'o \<Rightarrow> 'p all_linear \<Rightarrow> double list list \<Rightarrow> int list \<Rightarrow> double list \<Rightarrow> 'p all_linear \<times> 'o"
  tcp_adam :: "'p all_linear \<Rightarrow> double \<Rightarrow> 'o"

definition tcp_ext_ok :: "('p, 'o) tcp_ext \<Rightarrow> bool" where
  "tcp_ext_ok E \<longleftrightarrow>
     ext_ok (ext.truncate E) \<and>
     (\<forall>k. np_random E k < 1) \<and> (\<forall>x. tcp_pow E x 0 = 1) \<and>
     (\<forall>o' w x a y. let w' = fst (tcp_step E o' w x a y) in
        in_features (h1 w') = in_features (h1 w) \<and> out_features (h1 w') = out_features (h1 w) \<and>
        in_features (h2 w') = in_features (h2 w) \<and> out_features (h2 w') = out_features (h2 w) \<and>
        in_features (out w') = in_features (out w) \<and> out_features (out w') = out_features (out w))"

definition net :: "('p, 'o) tcp_ext \<Rightarrow> nat \<Rightarrow> 'p all_linear" where
  "net E k =
     \<lparr>h1 = Linear (ext.truncate E) k 5 20, h2 = Linear (ext.truncate E) (k + 1) 20 20,
      out = Linear (ext.truncate E) (k + 2) 20 4\<rparr>"

definition net_forward :: "('p, 'o) tcp_ext \<Rightarrow> 'p all_linear \<Rightarrow> double list \<Rightarrow> double list result" where
  "net_forward E m x = AllLinear_forward (ext.truncate E) m x"

record ('p, 'o) tcp_dqn =
  eval_net :: "'p all_linear"
  target_net :: "'p all_linear"
  learn_step :: nat
  batchsize :: nat
  observer_shape :: nat
  target_replace :: nat
  memory_counter :: nat
  memory_capacity :: nat
  memory_t :: "double list list"
  optimizer :: 'o

definition tcp_dqn_init :: "('p, 'o) tcp_ext \<Rightarrow> nat \<Rightarrow> ('p, 'o) tcp_dqn" where
  "tcp_dqn_init E k =
     \<lparr>eval_net = net E k, target_net = net E (k + 3), learn_step = 0, batchsize = 32,
      observer_shape = 5, target_replace = 100, memory_counter = 0, memory_capacity = 2000,
      memory_t = replicate 2000 (replicate (2 * 5 + 2) 0),
      optimizer = tcp_adam E (net E k) (fl (1 / 10000))\<rparr>"

definition tcp_choose_action ::
  "('p, 'o) tcp_ext \<Rightarrow> nat \<Rightarrow> ('p, 'o) tcp_dqn \<Rightarrow> int list \<Rightarrow> (nat \<times> nat) result" where
  "tcp_choose_action E k d x =
     (if tcp_pow E (fl (99 / 100)) (memory_counter d) < np_random E k then
        ebind (net_forward E (eval_net d) (map (\<lambda>v. fl32 (of_int v)) x)) (\<lambda>q.
        ebind (torch_argmax q) (\<lambda>a. Inr (a, k + 1)))
      else Inr (np_choice E (k + 1) 4, k + 2))"

definition tcp_transition :: "int list \<Rightarrow> nat \<Rightarrow> int \<Rightarrow> int list \<Rightarrow> double list" where
  "tcp_transition s a r s' = map of_int s @ [of_nat a, of_int r] @ map of_int s'"

definition tcp_put :: "('p, 'o) tcp_dqn \<Rightarrow> double list \<Rightarrow> ('p, 'o) tcp_dqn" where
  "tcp_put d row =
     d\<lparr>memory_t := (memory_t d)[memory_counter d mod memory_capacity d := row],
       memory_counter := memory_counter d + 1\<rparr>"

definition tcp_store_transition ::
  "('p, 'o) tcp_dqn \<Rightarrow> int list \<Rightarrow> nat \<Rightarrow> int \<Rightarrow> int list \<Rightarrow> ('p, 'o) tcp_dqn result" where
  "tcp_store_transition d s a r s' =
     (if memory_capacity d = 0 then Inl ZeroDivisionError
      else if length (tcp_transition s a r s') \<noteq> 12 then Inl ValueError
      else Inr (tcp_put d (tcp_transition s a r s')))"

text \<open>
  One learning step. Every hundredth step the target network first becomes a copy of the
  trained one. The sample comes from the whole table; the estimates of the taken actions
  are trained towards the reward plus 0.8 times the best estimate of the target network.
\<close>

definition sync_target :: "('p, 'o) tcp_dqn \<Rightarrow> ('p, 'o) tcp_dqn" where
  "sync_target d =
     (let d' = d\<lparr>learn_step := learn_step d + 1\<rparr> in
      if learn_step d' mod target_replace d' = 0 then d'\<lparr>target_net := eval_net d'\<rparr> else d')"

definition tcp_target ::
  "('p, 'o) tcp_ext \<Rightarrow> ('p, 'o) tcp_dqn \<Rightarrow> double list \<Rightarrow> (double list \<times> int \<times> double) result" where
  "tcp_target E d row =
     (let n = observer_shape d; s = map fl32 (take n row); a = trunc (row ! n);
          r = fl32 (row ! (n + 1)); s' = map fl32 (drop (n + 2) row) in
      ebind (net_forward E (eval_net d) s) (\<lambda>q_eval.
      if a < 0 \<or> int (length q_eval) \<le> a then Inl RuntimeError
      else ebind (net_forward E (target_net d) s') (\<lambda>q_next.
        ebind (torch_max q_next) (\<lambda>m.
        Inr (s, a, fl32 (r + fl32 (fl32 (fl (8 / 10)) * m)))))))"

fun tcp_targets ::
  "('p, 'o) tcp_ext \<Rightarrow> ('p, 'o) tcp_dqn \<Rightarrow> double list list \<Rightarrow> (double list \<times> int \<times> double) list result" where
  "tcp_targets E d [] = Inr []"
| "tcp_targets E d (row # rows) =
     ebind (tcp_target E d row) (\<lambda>t. ebind (tcp_targets E d rows) (\<lambda>ts. Inr (t # ts)))"

definition tcp_learn ::
  "('p, 'o) tcp_ext \<Rightarrow> nat \<Rightarrow> ('p, 'o) tcp_dqn \<Rightarrow> (('p, 'o) tcp_dqn \<times> nat) result" where
  "tcp_learn E k d =
     (let d' = sync_target d;
          sample_list = np_sample E k (memory_capacity d') (batchsize d') in
      ebind (tcp_targets E d' (map (\<lambda>i. memory_t d' ! i) sample_list)) (\<lambda>ts.
      (case tcp_step E (optimizer d') (eval_net d') (map fst ts) (map (fst \<circ> snd) ts) (map (snd \<circ> snd) ts) of
         (w, opt) \<Rightarrow> Inr (d'\<lparr>eval_net := w, optimizer := opt\<rparr>, k + 1))))"

section \<open>The agent's branch of the message loop\<close>

text \<open>Odd actions add a segment, even ones its share of the window; action 3 halves the threshold.\<close>

definition rl_cWnd :: "nat \<Rightarrow> int \<Rightarrow> int \<Rightarrow> int result" where
  "rl_cWnd a cw seg =
     (if odd a then Inr (cw + seg)
      else ebind (py_div (of_int (seg * seg)) (of_int cw)) (\<lambda>q. Inr (cw + trunc (max 1 q))))"

definition rl_ssThresh :: "nat \<Rightarrow> int \<Rightarrow> int \<Rightarrow> int" where
  "rl_ssThresh a seg bif = (if a < 3 then 2 * seg else trunc (fl (of_int bif / 2)))"

text \<open>
  After the answer is written the code reads the environment a second time: it is still the
  message being answered, so the next state it stores is the state itself.
\<close>

definition observe :: "TcpRlEnv \<Rightarrow> int list" where
  "observe e = [uint (ssThresh e), uint (cWnd e), uint (segmentsAcked e), uint (segmentSize e),
     uint (bytesInFlight e)]"

definition tcp_reward :: "TcpRlEnv \<Rightarrow> int" where
  "tcp_reward e = uint (segmentsAcked e) - uint (bytesInFlight e) - uint (cWnd e)"

definition rl_body ::
  "('p, 'o) tcp_ext \<Rightarrow> TcpRlEnv \<Rightarrow> ('p, 'o) tcp_dqn \<times> nat \<Rightarrow> (TcpRlAct \<times> ('p, 'o) tcp_dqn \<times> nat) result" where
  "rl_body E e dk =
     (case dk of (d, k) \<Rightarrow>
      let s = observe e; cw = uint (cWnd e); seg = uint (segmentSize e); bif = uint (bytesInFlight e) in
      ebind (tcp_choose_action E k d s) (\<lambda>(a, k).
      ebind (rl_cWnd a cw seg) (\<lambda>ncw.
      (let act = set_act ncw (rl_ssThresh a seg bif); s' = observe e in
       ebind (tcp_store_transition d s a (tcp_reward e) s') (\<lambda>d.
       if memory_capacity d < memory_counter d
       then ebind (tcp_learn E k d) (\<lambda>(d, k). Inr (act, d, k))
       else Inr (act, d, k))))))"

text \<open>The lists that \<open>--result\<close> plots: one per observed value, in the order of \<open>res_list\<close>.\<close>

definition res_list :: "string list" where
  "res_list = [''ssThresh'', ''cWnd'', ''segmentsAcked'', ''segmentSize'', ''bytesInFlight'']"

definition record_results :: "TcpRlEnv \<Rightarrow> int list list \<Rightarrow> int list list" where
  "record_results e ls =
     (let l = (\<lambda>i. ls ! i) in
      [l 0 @ [uint (ssThresh e)], l 1 @ [uint (cWnd e)], l 2 @ [uint (segmentsAcked e)],
       l 3 @ [uint (segmentSize e)], l 4 @ [uint (bytesInFlight e)]])"

text \<open>The message loop: the answers, the recorded lists and, with \<open>--use_rl\<close>, the agent.\<close>

fun tcp_loop ::
  "('p, 'o) tcp_ext \<Rightarrow> bool \<Rightarrow> bool \<Rightarrow> TcpRlEnv list \<Rightarrow>
   TcpRlAct list \<times> int list list \<times> ('p, 'o) tcp_dqn \<times> nat \<Rightarrow>
   (TcpRlAct list \<times> int list list \<times> ('p, 'o) tcp_dqn \<times> nat) result" where
  "tcp_loop E use_rl result [] s = Inr s"
| "tcp_loop E use_rl result (e # es) (as, ls, d, k) =
     (let ls' = (if result then record_results e ls else ls) in
      if use_rl then ebind (rl_body E e (d, k)) (\<lambda>(a, d, k). tcp_loop E use_rl result es (as @ [a], ls', d, k))
      else ebind (reno_body e) (\<lambda>a. tcp_loop E use_rl result es (as @ [a], ls', d, k)))"

definition path_join :: "string \<Rightarrow> string \<Rightarrow> string" where
  "path_join dir name = (if dir = [] \<or> last dir = CHR ''/'' then dir @ name else dir @ ''/'' @ name)"

definition tcp_plots :: "bool \<Rightarrow> string \<Rightarrow> int list list \<Rightarrow> (string \<times> int list) list" where
  "tcp_plots result output_dir ls =
     (if result then map (\<lambda>(name, l). (path_join output_dir name @ ''.png'', l)) (zip res_list ls) else [])"

definition run_rl_tcp ::
  "('p, 'o) tcp_ext \<Rightarrow> bool \<Rightarrow> bool \<Rightarrow> string \<Rightarrow> TcpRlEnv list \<Rightarrow>
   (TcpRlAct list \<times> (string \<times> int list) list \<times> ('p, 'o) tcp_dqn) result" where
  "run_rl_tcp E use_rl result output_dir es =
     ebind (tcp_loop E use_rl result es ([], replicate 5 [], tcp_dqn_init E 0, 6)) (\<lambda>(as, ls, d, k).
     Inr (as, tcp_plots result output_dir ls, d))"

interpretation tcp: replay_memory tcp_put memory_t memory_counter memory_capacity
  by unfold_locales (simp_all add: tcp_put_def)

section \<open>Integer values of the float computations\<close>

lemma trunc_nonneg: "0 \<le> x \<Longrightarrow> trunc x = \<lfloor>x\<rfloor>"
  by (simp add: trunc_def)

lemma trunc_max: "0 \<le> x \<Longrightarrow> trunc (max (of_int n) x) = max n (trunc x)" if "0 \<le> n"
  using that by (auto simp: trunc_nonneg max_def le_floor_iff not_le floor_less_iff intro: antisym)

lemma share_floor:
  assumes "0 \<le> seg" and "seg < 2 ^ 16" and "0 < cw" and "cw < 2 ^ 32"
  shows "trunc (max 1 (fl (of_int (seg * seg) / of_int cw))) = max 1 (seg * seg div cw)"
proof -
  have "seg * seg \<le> 2 ^ 16 * 2 ^ 16" using assms by (intro mult_mono) simp_all
  then have f: "\<lfloor>fl (of_int (seg * seg) / of_int cw)\<rfloor> = seg * seg div cw"
    using assms by (intro floor_fl_div) simp_all
  have "0 \<le> fl (of_int (seg * seg) / of_int cw)"
    using assms by (intro b64.rnd_nonneg divide_nonneg_nonneg) simp_all
  with trunc_max [of 1] f show ?thesis by (simp add: trunc_nonneg)
qed

lemma GetSsThresh_int:
  assumes "0 \<le> seg" and "0 \<le> bif" and "bif < 2 ^ 32"
  shows "GetSsThresh seg bif = max (2 * seg) (bif div 2)"
proof -
  have "\<lfloor>(of_int bif :: rat) / 2\<rfloor> = bif div 2" using floor_divide_of_int_eq [of bif 2] by simp
  then show ?thesis
    using assms trunc_max [of "2 * seg"] unfolding GetSsThresh_def
    by (simp add: fl_half trunc_nonneg)
qed

lemma uint32 [simp]: "uint (w :: 32 word) < 4294967296" "0 \<le> uint (w :: 32 word)"
  using uint_lt2p [of w] by simp_all

lemma uint_max: "uint (max (a :: 32 word) b) = max (uint a) (uint b)"
  by (simp add: max_def word_le_def)

lemma word_share:
  fixes seg cw :: "32 word"
  assumes "uint seg < 2 ^ 16"
  shows "word_of_int (max 1 (uint seg * uint seg div uint cw)) = max 1 (seg * seg div cw)"
proof -
  have "uint seg * uint seg \<le> (2 ^ 16 - 1) * (2 ^ 16 - 1)" using assms by (intro mult_mono) simp_all
  then have "uint (seg * seg) = uint seg * uint seg"
    by (simp add: uint_word_ariths)
  then have "max 1 (uint seg * uint seg div uint cw) = uint (max 1 (seg * seg div cw))"
    unfolding uint_max by (simp add: uint_div)
  then show ?thesis by (simp only: word_of_int_uint)
qed

lemma word_thresh:
  fixes seg b :: "32 word"
  assumes "uint seg < 2 ^ 16"
  shows "word_of_int (max (2 * uint seg) (uint b div 2)) = max (2 * seg) (b div 2)"
proof -
  have "uint (2 * seg) = 2 * uint seg" using assms by (simp add: uint_word_ariths)
  then have "max (2 * uint seg) (uint b div 2) = uint (max (2 * seg) (b div 2))"
    unfolding uint_max by (simp add: uint_div)
  then show ?thesis by (simp only: word_of_int_uint)
qed

lemma congestion_avoidance_int:
  assumes "0 \<le> seg" and "seg < 2 ^ 16" and "0 \<le> cw" and "cw < 2 ^ 32"
  shows "congestion_avoidance ss cw sa seg n =
    (if cw < ss \<or> sa \<le> 0 then Inr n else if cw = 0 then Inl ZeroDivisionError
     else Inr (cw + max 1 (seg * seg div cw)))"
proof -
  have "seg * seg \<le> 2 ^ 16 * 2 ^ 16" using assms by (intro mult_mono) simp_all
  then have "fl (of_int (seg * seg)) = of_int (seg * seg)"
    using assms by (intro b64.rnd_int) simp
  then show ?thesis
    using share_floor [OF assms(1,2) _ assms(4)] assms(3)
    by (auto simp: congestion_avoidance_def py_div_def not_less)
qed

section \<open>Properties of the classical rules\<close>

text \<open>
  For segments below 64 KiB the classical rules are exact 32-bit integer arithmetic, although the
  code goes through floating point: the new window wraps at 32 bits, the share of a segment
  is the integer quotient, at least 1, and the threshold the larger of two segments and half
  the bytes in flight. A message that acknowledges nothing collapses the window to one byte, and
  an empty window at threshold 0 raises \<open>ZeroDivisionError\<close>.
\<close>

theorem reno_window_exact:
  assumes "uint (segmentSize e) < 2 ^ 16"
  shows "reno_body e =
    (if cWnd e = 0 \<and> ssThresh e = 0 \<and> segmentsAcked e \<noteq> 0 then Inl ZeroDivisionError
     else Inr \<lparr>new_ssThresh = max (2 * segmentSize e) (bytesInFlight e div 2),
       new_cWnd =
         (if segmentsAcked e = 0 then 1
          else if cWnd e < ssThresh e then cWnd e + segmentSize e
          else cWnd e + max 1 (segmentSize e * segmentSize e div cWnd e))\<rparr>)"
proof -
  let ?cw = "uint (cWnd e)" and ?seg = "uint (segmentSize e)"
  have z: "(?cw = 0) = (cWnd e = 0)" "(uint (ssThresh e) = 0) = (ssThresh e = 0)"
    "(uint (segmentsAcked e) = 0) = (segmentsAcked e = 0)"
    by (simp_all add: uint_0_iff)
  have sa: "0 < uint (segmentsAcked e) \<longleftrightarrow> segmentsAcked e \<noteq> 0" "1 \<le> uint (segmentsAcked e) \<longleftrightarrow> segmentsAcked e \<noteq> 0"
    using z(3) uint32(2) [of "segmentsAcked e"] by linarith+
  have lt: "?cw < uint (ssThresh e) \<longleftrightarrow> cWnd e < ssThresh e" by (simp add: word_less_def)
  have ca: "ssThresh e = 0" if "cWnd e = 0" "\<not> cWnd e < ssThresh e" using that by (simp add: word_gt_0)
  have thresh: "set_act n (GetSsThresh ?seg (uint (bytesInFlight e))) =
     \<lparr>new_ssThresh = max (2 * segmentSize e) (bytesInFlight e div 2), new_cWnd = word_of_int n\<rparr>" for n
    using assms by (simp add: set_act_def GetSsThresh_int word_thresh)
  have "reno_body e = ebind (congestion_avoidance (uint (ssThresh e)) ?cw (uint (segmentsAcked e)) ?seg
      (slow_start (uint (ssThresh e)) ?cw (uint (segmentsAcked e)) ?seg 1)) (\<lambda>n. Inr
      \<lparr>new_ssThresh = max (2 * segmentSize e) (bytesInFlight e div 2), new_cWnd = word_of_int n\<rparr>)"
    by (simp add: reno_body_def Let_def thresh)
  moreover have "congestion_avoidance (uint (ssThresh e)) ?cw (uint (segmentsAcked e)) ?seg n =
      (if cWnd e < ssThresh e \<or> segmentsAcked e = 0 then Inr n else if cWnd e = 0 then Inl ZeroDivisionError
       else Inr (?cw + max 1 (?seg * ?seg div ?cw)))" for n
    using congestion_avoidance_int [of ?seg ?cw] assms lt sa z by auto
  moreover have "slow_start (uint (ssThresh e)) ?cw (uint (segmentsAcked e)) ?seg 1 =
      (if cWnd e < ssThresh e \<and> segmentsAcked e \<noteq> 0 then ?cw + ?seg else 1)"
    using lt sa by (simp add: slow_start_def)
  ultimately show ?thesis using ca word_share [OF assms, of "cWnd e"] by auto
qed

lemma reno_window_exact_witness:
  "reno_body \<lparr>nodeId = 0, socketUid = 1, envType = 0, simTime_us = 5, ssThresh = 10, cWnd = 5360,
     segmentSize = 536, segmentsAcked = 1, bytesInFlight = 5360\<rparr> =
   Inr \<lparr>new_ssThresh = 2680, new_cWnd = 5413\<rparr>"
  by (subst reno_window_exact) simp_all

section \<open>The agent over a run\<close>

text \<open>What a wellformed agent of the TCP example looks like, between two messages.\<close>

definition tcp_wf :: "('p, 'o) tcp_dqn \<Rightarrow> bool" where
  "tcp_wf d \<longleftrightarrow>
     net_shape 5 4 (eval_net d) \<and> net_shape 5 4 (target_net d) \<and> batchsize d = 32 \<and>
     observer_shape d = 5 \<and> target_replace d = 100 \<and> memory_capacity d = 2000 \<and>
     length (memory_t d) = 2000 \<and>
     (\<forall>row \<in> set (memory_t d). length row = 12 \<and> 0 \<le> trunc (row ! 5) \<and> trunc (row ! 5) < 4)"

lemma tcp_ext_okD:
  assumes "tcp_ext_ok E"
  shows "ext_ok (ext.truncate E)" and "0 < n \<Longrightarrow> np_choice E k n < n"
    and "0 < n \<Longrightarrow> set (np_sample E k n b) \<subseteq> {..<n}"
    and "net_shape i j w \<Longrightarrow> net_shape i j (fst (tcp_step E opt w x a y))"
  using assms by (auto simp: tcp_ext_ok_def ext_ok_def ext.defs net_shape_def Let_def)

lemma net_forward_ok:
  "tcp_ext_ok E \<Longrightarrow> net_shape (length x) n m \<Longrightarrow> \<exists>q. net_forward E m x = Inr q \<and> length q = n"
  unfolding net_forward_def by (rule AllLinear_forward_ok [OF tcp_ext_okD(1)])

lemma tcp_init_wf: "tcp_wf (tcp_dqn_init E k)"
  by (simp add: tcp_wf_def tcp_dqn_init_def net_def Linear_def net_shape_def trunc_def)

lemma tcp_choose_ok:
  assumes "tcp_ext_ok E" and "tcp_wf d" and "length x = 5"
  shows "\<exists>a k'. tcp_choose_action E k d x = Inr (a, k') \<and> a < 4"
proof (cases "tcp_pow E (fl (99 / 100)) (memory_counter d) < np_random E k")
  case True
  have "net_shape (length (map (\<lambda>v. fl32 (of_int v)) x)) 4 (eval_net d)" using assms by (simp add: tcp_wf_def)
  from net_forward_ok [OF assms(1) this]
  obtain q where q: "net_forward E (eval_net d) (map (\<lambda>v. fl32 (of_int v)) x) = Inr q" "length q = 4" by blast
  then have "q \<noteq> []" by auto
  from torch_argmax_ok [OF this] show ?thesis using q True by (auto simp: tcp_choose_action_def)
next
  case False
  then show ?thesis using tcp_ext_okD(2) [OF assms(1), of 4] by (simp add: tcp_choose_action_def)
qed

lemma sync_target_fields [frame_simps]:
  "eval_net (sync_target d) = eval_net d" "batchsize (sync_target d) = batchsize d"
  "observer_shape (sync_target d) = observer_shape d" "target_replace (sync_target d) = target_replace d"
  "memory_counter (sync_target d) = memory_counter d" "memory_capacity (sync_target d) = memory_capacity d"
  "memory_t (sync_target d) = memory_t d" "learn_step (sync_target d) = learn_step d + 1"
  by (simp_all add: sync_target_def Let_def)

lemma sync_target_wf: "tcp_wf d \<Longrightarrow> tcp_wf (sync_target d)"
  by (simp add: tcp_wf_def sync_target_def Let_def)

lemma tcp_target_ok:
  assumes "tcp_ext_ok E" and "tcp_wf d" and "row \<in> set (memory_t d)"
  shows "\<exists>t. tcp_target E d row = Inr t"
proof -
  have row: "length row = 12" "0 \<le> trunc (row ! 5)" "trunc (row ! 5) < 4"
    and sh: "net_shape 5 4 (eval_net d)" "net_shape 5 4 (target_net d)" "observer_shape d = 5"
    using assms(2,3) by (simp_all add: tcp_wf_def)
  obtain q where q: "net_forward E (eval_net d) (map fl32 (take 5 row)) = Inr q" "length q = 4"
    using net_forward_ok [OF assms(1), of "map fl32 (take 5 row)" 4 "eval_net d"] row sh by auto
  obtain q' where q': "net_forward E (target_net d) (map fl32 (drop 7 row)) = Inr q'" "length q' = 4"
    using net_forward_ok [OF assms(1), of "map fl32 (drop 7 row)" 4 "target_net d"] row sh by auto
  then have "q' \<noteq> []" by auto
  then obtain m where "torch_max q' = Inr m" using torch_max_ok by blast
  then show ?thesis using q q' row sh by (simp add: tcp_target_def Let_def)
qed

lemma tcp_targets_ok:
  "(\<And>row. row \<in> set rows \<Longrightarrow> \<exists>t. tcp_target E d row = Inr t) \<Longrightarrow> \<exists>ts. tcp_targets E d rows = Inr ts"
  by (induction rows) fastforce+

lemma tcp_learn_ok:
  assumes "tcp_ext_ok E" and "tcp_wf d"
  shows "\<exists>w opt. tcp_learn E k d = Inr ((sync_target d)\<lparr>eval_net := w, optimizer := opt\<rparr>, k + 1) \<and> net_shape 5 4 w"
proof -
  let ?d = "sync_target d"
  let ?rows = "map (\<lambda>i. memory_t ?d ! i) (np_sample E k (memory_capacity ?d) (batchsize ?d))"
  have wf: "tcp_wf ?d" using assms(2) by (rule sync_target_wf)
  then have "memory_capacity ?d = 2000" "length (memory_t ?d) = 2000" by (simp_all add: tcp_wf_def)
  then have "set ?rows \<subseteq> set (memory_t ?d)"
    using tcp_ext_okD(3) [OF assms(1), of "memory_capacity ?d" k "batchsize ?d"] by auto
  then obtain ts where ts: "tcp_targets E ?d ?rows = Inr ts"
    using tcp_targets_ok tcp_target_ok [OF assms(1) wf] by blast
  obtain w opt where s: "tcp_step E (optimizer ?d) (eval_net ?d) (map fst ts) (map (fst \<circ> snd) ts)
      (map (snd \<circ> snd) ts) = (w, opt)" by (metis surj_pair)
  have "net_shape 5 4 (eval_net ?d)" using wf by (simp add: tcp_wf_def)
  from tcp_ext_okD(4) [OF assms(1) this, of "optimizer ?d" "map fst ts" "map (fst \<circ> snd) ts" "map (snd \<circ> snd) ts"]
  have "net_shape 5 4 w" by (simp add: s)
  moreover have "tcp_learn E k d = Inr (?d\<lparr>eval_net := w, optimizer := opt\<rparr>, k + 1)"
    unfolding tcp_learn_def Let_def ts by (simp add: s)
  ultimately show ?thesis by blast
qed

text \<open>One message: the answer, the stored row and, past the capacity, a learning step.\<close>

definition tcp_row :: "TcpRlEnv \<Rightarrow> nat \<Rightarrow> double list" where
  "tcp_row e a = tcp_transition (observe e) a (tcp_reward e) (observe e)"

definition rl_answer :: "TcpRlEnv \<Rightarrow> nat \<Rightarrow> TcpRlAct result" where
  "rl_answer e a = ebind (rl_cWnd a (uint (cWnd e)) (uint (segmentSize e))) (\<lambda>n.
     Inr (set_act n (rl_ssThresh a (uint (segmentSize e)) (uint (bytesInFlight e)))))"

lemma tcp_row_wf: "a < 4 \<Longrightarrow> length (tcp_row e a) = 12 \<and> 0 \<le> trunc (tcp_row e a ! 5) \<and> trunc (tcp_row e a ! 5) < 4"
  by (simp add: tcp_row_def tcp_transition_def observe_def nth_append)

lemma tcp_put_wf:
  assumes "tcp_wf d" and "a < 4"
  shows "tcp_wf (tcp_put d (tcp_row e a))"
proof -
  have "set (memory_t (tcp_put d (tcp_row e a))) \<subseteq> insert (tcp_row e a) (set (memory_t d))"
    by (simp add: tcp_put_def set_update_subset_insert)
  then show ?thesis using assms tcp_row_wf [OF assms(2), of e] by (auto simp: tcp_wf_def tcp_put_def)
qed

lemma rl_body_step:
  assumes "tcp_ext_ok E" and "tcp_wf d"
  shows "\<exists>a d' k'. a < 4 \<and> rl_body E e (d, k) = ebind (rl_answer e a) (\<lambda>act. Inr (act, d', k')) \<and> tcp_wf d' \<and>
    memory_t d' = memory_t (tcp_put d (tcp_row e a)) \<and> memory_counter d' = memory_counter d + 1 \<and>
    learn_step d' = learn_step d + (if 2000 \<le> memory_counter d then 1 else 0)"
proof -
  have "length (observe e) = 5" by (simp add: observe_def)
  then obtain a k1 where a: "tcp_choose_action E k d (observe e) = Inr (a, k1)" "a < 4"
    using tcp_choose_ok [OF assms] by blast
  let ?d = "tcp_put d (tcp_row e a)"
  have wf: "tcp_wf ?d" using assms(2) a(2) by (rule tcp_put_wf)
  have cap: "memory_capacity d = 2000" "memory_capacity ?d = 2000"
    using assms(2) wf by (simp_all add: tcp_wf_def)
  have cnt: "memory_counter ?d = memory_counter d + 1" "learn_step ?d = learn_step d" by (simp_all add: tcp_put_def)
  have store: "tcp_store_transition d (observe e) a (tcp_reward e) (observe e) = Inr ?d"
    using tcp_row_wf [OF a(2), of e] cap by (simp add: tcp_store_transition_def tcp_row_def)
  obtain w opt where l: "tcp_learn E k1 ?d = Inr ((sync_target ?d)\<lparr>eval_net := w, optimizer := opt\<rparr>, k1 + 1)"
    "net_shape 5 4 w" using tcp_learn_ok [OF assms(1) wf] by blast
  have body: "rl_body E e (d, k) = ebind (rl_answer e a) (\<lambda>act.
      if 2000 < memory_counter ?d then Inr (act, (sync_target ?d)\<lparr>eval_net := w, optimizer := opt\<rparr>, k1 + 1)
      else Inr (act, ?d, k1))"
    using a(1) store l(1) cap by (simp add: rl_body_def rl_answer_def Let_def ebind_assoc cong: if_cong)
  show ?thesis
  proof (cases "2000 \<le> memory_counter d")
    case True
    have "tcp_wf ((sync_target ?d)\<lparr>eval_net := w, optimizer := opt\<rparr>)"
      using sync_target_wf [OF wf] l(2) by (simp add: tcp_wf_def)
    then show ?thesis using True a(2) body cnt
      by (intro exI [of _ a] exI [of _ "(sync_target ?d)\<lparr>eval_net := w, optimizer := opt\<rparr>"] exI [of _ "k1 + 1"])
        (simp add: frame_simps)
  next
    case False
    then show ?thesis using a(2) body cnt wf
      by (intro exI [of _ a] exI [of _ ?d] exI [of _ k1]) simp
  qed
qed

lemma rl_answer_Inr: "rl_answer e a = Inr act \<Longrightarrow> rl_body E e (d, k) = ebind (rl_answer e a) f \<Longrightarrow> rl_body E e (d, k) = f act"
  by simp

lemma rl_cWnd_ok: "cw \<noteq> 0 \<Longrightarrow> \<exists>n. rl_cWnd a cw seg = Inr n"
  by (simp add: rl_cWnd_def py_div_def)

lemma rl_answer_ok: "cWnd e \<noteq> 0 \<Longrightarrow> \<exists>act. rl_answer e a = Inr act"
  using rl_cWnd_ok [of "uint (cWnd e)" a "uint (segmentSize e)"] by (auto simp: rl_answer_def uint_0_iff)

lemma tcp_holds_cong:
  assumes "tcp.holds (tcp_put d r) h" and "memory_t d' = memory_t (tcp_put d r)"
    and "memory_counter d' = memory_counter d + 1" and "memory_capacity d' = memory_capacity d"
  shows "tcp.holds d' h"
  using assms by (simp add: tcp.holds_def tcp_put_def)

lemma tcp_loop_rl:
  assumes "tcp_ext_ok E" and "tcp_wf d" and "tcp.holds d h"
    and "tcp_loop E True result es (as, ls, d, k) = Inr (as', ls', d', k')"
  shows "\<exists>acts. length acts = length es \<and> set acts \<subseteq> {..<4} \<and> tcp_wf d' \<and>
    tcp.holds d' (h @ map2 tcp_row es acts) \<and> map Inr as' = map Inr as @ map2 rl_answer es acts \<and>
    learn_step d' + min 2000 (length h + length es) = learn_step d + length es + min 2000 (length h)"
  using assms(2-)
proof (induction es arbitrary: as ls d k h)
  case (Cons e es)
  obtain a d1 k1 where a: "a < 4" "rl_body E e (d, k) = ebind (rl_answer e a) (\<lambda>act. Inr (act, d1, k1))"
    and d1: "tcp_wf d1" "memory_t d1 = memory_t (tcp_put d (tcp_row e a))"
      "memory_counter d1 = memory_counter d + 1"
      "learn_step d1 = learn_step d + (if 2000 \<le> memory_counter d then 1 else 0)"
    using rl_body_step [OF assms(1) Cons.prems(1), of e k] by blast
  obtain act where act: "rl_answer e a = Inr act"
    and r: "tcp_loop E True result es (as @ [act], if result then record_results e ls else ls, d1, k1) = Inr (as', ls', d', k')"
    using Cons.prems(3) a(2) by (auto simp: Let_def ebind_Inr_iff)
  have "memory_capacity d1 = memory_capacity d" using d1(1) Cons.prems(1) by (simp add: tcp_wf_def)
  then have h: "tcp.holds d1 (h @ [tcp_row e a])"
    using tcp_holds_cong [OF tcp.holds_put [OF Cons.prems(2), of "tcp_row e a"] d1(2,3)] by simp
  have cnt: "memory_counter d = length h" using Cons.prems(2) by (simp add: tcp.holds_def)
  from Cons.IH [OF d1(1) h r] obtain acts where
    "length acts = length es" "set acts \<subseteq> {..<4}" "tcp_wf d'"
    "tcp.holds d' ((h @ [tcp_row e a]) @ map2 tcp_row es acts)"
    "map Inr as' = map Inr (as @ [act]) @ map2 rl_answer es acts"
    "learn_step d' + min 2000 (length (h @ [tcp_row e a]) + length es) =
       learn_step d1 + length es + min 2000 (length (h @ [tcp_row e a]))" by blast
  then show ?case using a(1) act cnt d1(4)
    by (intro exI [of _ "a # acts"]) (auto split: if_splits)
qed simp

lemma tcp_loop_rl_total:
  assumes "tcp_ext_ok E" and "tcp_wf d" and "\<forall>e \<in> set es. cWnd e \<noteq> 0"
  shows "\<exists>r. tcp_loop E True result es (as, ls, d, k) = Inr r"
  using assms(2,3)
proof (induction es arbitrary: as ls d k)
  case (Cons e es)
  obtain a d1 k1 where a: "rl_body E e (d, k) = ebind (rl_answer e a) (\<lambda>act. Inr (act, d1, k1))" "tcp_wf d1"
    using rl_body_step [OF assms(1) Cons.prems(1), of e k] by blast
  obtain act where "rl_answer e a = Inr act" using rl_answer_ok Cons.prems(2) by (meson list.set_intros(1))
  then show ?case using Cons.IH [OF a(2)] Cons.prems(2) a(1) by (simp add: Let_def)
qed simp

definition observed :: "TcpRlEnv list \<Rightarrow> int list list" where
  "observed es = map (\<lambda>f. map (\<lambda>e. uint (f e)) es) [ssThresh, cWnd, segmentsAcked, segmentSize, bytesInFlight]"

lemma tcp_loop_lists:
  assumes "tcp_loop E use_rl result es (as, ls, d, k) = Inr (as', ls', d', k')" and "ls = observed es0"
  shows "ls' = (if result then observed (es0 @ es) else ls)"
  using assms
proof (induction es arbitrary: es0 as ls d k)
  case (Cons e es)
  have "record_results e (observed es0) = observed (es0 @ [e])"
    by (simp add: record_results_def observed_def)
  then show ?case
    using Cons.prems Cons.IH [of _ _ _ _ "es0 @ [e]"] Cons.IH [of _ _ _ _ es0]
    by (auto simp: Let_def ebind_Inr_iff split: if_splits)
qed simp

lemma tcp_init_holds: "tcp.holds (tcp_dqn_init E k) []"
  by (rule tcp.holds_empty) (simp_all add: tcp_dqn_init_def)

section \<open>Properties of the agent\<close>

text \<open>Without \<open>--use_rl\<close> the script answers as \<open>testtcp.py\<close> does, message by message.\<close>

lemma classical_loop:
  "tcp_loop E False result es (as, ls, d, k) =
     ebind (testtcp es) (\<lambda>as'. Inr (as @ as', foldl (\<lambda>l e. if result then record_results e l else l) ls es, d, k))"
  by (induction es arbitrary: as ls) (simp_all add: Let_def ebind_assoc)

text \<open>
  C16. With \<open>--use_rl\<close> the answers are those of the actions chosen, one of four per message;
  the table holds exactly the last 2000 transitions, and learning starts with message 2001, when it has
  been filled, so the zero rows it starts with are never sampled. But every stored transition
  has the state itself as its next state: the environment is read again before the
  simulator has moved. With \<open>--result\<close> the plots show the observed values of every message.
\<close>

theorem tcp_agent_window:
  assumes "tcp_ext_ok E" and "run_rl_tcp E True result dir es = Inr (as, plots, d)"
  shows "\<exists>acts. length acts = length es \<and> set acts \<subseteq> {..<4} \<and> map Inr as = map2 rl_answer es acts \<and>
    memory_counter d = length es \<and> learn_step d = length es - 2000 \<and>
    set (take (min (length es) 2000) (memory_t d)) = set (last_n 2000 (map2 tcp_row es acts)) \<and>
    (\<forall>row \<in> set (take (min (length es) 2000) (memory_t d)). take 5 row = drop 7 row) \<and>
    plots = tcp_plots result dir (observed es)"
proof -
  obtain ls k' where l: "tcp_loop E True result es ([], replicate 5 [], tcp_dqn_init E 0, 6) = Inr (as, ls, d, k')"
    and p: "plots = tcp_plots result dir ls"
    using assms(2) by (auto simp: run_rl_tcp_def ebind_Inr_iff)
  from tcp_loop_rl [OF assms(1) tcp_init_wf tcp_init_holds l] obtain acts where
    a: "length acts = length es" "set acts \<subseteq> {..<4}" "map Inr as = map2 rl_answer es acts" and d: "tcp_wf d"
      "tcp.holds d (map2 tcp_row es acts)" "learn_step d + min 2000 (length es) = length es"
    by (auto simp: tcp_dqn_init_def)
  have c: "memory_counter d = length es" "memory_capacity d = 2000"
    using d(1,2) a(1) by (simp_all add: tcp.holds_def tcp_wf_def)
  have set: "set (take (min (length es) 2000) (memory_t d)) = set (last_n 2000 (map2 tcp_row es acts))"
    using tcp.holds_set [OF d(2)] c by simp
  moreover have "take 5 row = drop 7 row" if "row \<in> set (last_n 2000 (map2 tcp_row es acts))" for row
  proof -
    have "row \<in> set (map2 tcp_row es acts)" using that set_last_n by (rule subsetD [rotated])
    then obtain e a where "row = tcp_row e a" by auto
    then show ?thesis by (simp add: tcp_row_def tcp_transition_def observe_def)
  qed
  moreover have "observed [] = replicate 5 []" by (simp add: observed_def numeral_eq_Suc)
  then have "plots = tcp_plots result dir (observed es)"
    using tcp_loop_lists [OF l, of "[]"] p by (simp add: tcp_plots_def)
  moreover have "learn_step d = length es - 2000" using d(3) by linarith
  ultimately show ?thesis using a c by auto
qed

definition tcp_demo_ext :: "(nat, nat) tcp_ext" where
  "tcp_demo_ext = ext.extend (demo_ext\<lparr>np_random := \<lambda>k. 1 / 2\<rparr>)
     \<lparr>tcp_pow = (\<lambda>x n. if n = 0 then 1 else 0), tcp_step = (\<lambda>opt w s a y. (w, opt + 1)), tcp_adam = (\<lambda>w lr. 0)\<rparr>"

lemma tcp_demo_ext_ok: "tcp_ext_ok tcp_demo_ext"
  using demo_ext_ok by (simp add: tcp_ext_ok_def tcp_demo_ext_def ext.defs ext_ok_def)

text \<open>
  The agent's run returns whatever the generator draws, as long as no message reports an
  empty window. With an empty window in the first message it ends with a \<open>ZeroDivisionError\<close>
  when the first action, which is always drawn, is even.
\<close>

theorem tcp_agent_total:
  assumes "tcp_ext_ok E" and "\<forall>e \<in> set es. cWnd e \<noteq> 0"
  shows "(\<exists>r. run_rl_tcp E True result dir es = Inr r) \<and>
    (cWnd e0 = 0 \<and> even (np_choice E 7 4) \<longrightarrow>
      run_rl_tcp E True result dir (e0 # es) = Inl ZeroDivisionError)"
proof (intro conjI impI)
  obtain r where "tcp_loop E True result es ([], replicate 5 [], tcp_dqn_init E 0, 6) = Inr r"
    using tcp_loop_rl_total [OF assms(1) tcp_init_wf assms(2)] by blast
  then show "\<exists>r. run_rl_tcp E True result dir es = Inr r" by (cases r) (simp add: run_rl_tcp_def)
next
  let ?a = "np_choice E 7 4"
  assume z: "cWnd e0 = 0 \<and> even ?a"
  have "\<not> tcp_pow E (fl (99 / 100)) 0 < np_random E 6"
    using assms(1) by (simp add: tcp_ext_ok_def not_less less_imp_le)
  then have "tcp_choose_action E 6 (tcp_dqn_init E 0) (observe e0) = Inr (?a, 8)"
    by (simp add: tcp_choose_action_def tcp_dqn_init_def)
  then have "rl_body E e0 (tcp_dqn_init E 0, 6) = Inl ZeroDivisionError"
    using z by (simp add: rl_body_def rl_cWnd_def py_div_def)
  then show "run_rl_tcp E True result dir (e0 # es) = Inl ZeroDivisionError"
    by (simp add: run_rl_tcp_def Let_def)
qed

definition tcp_demo_msg :: "32 word \<Rightarrow> TcpRlEnv" where
  "tcp_demo_msg cw = \<lparr>nodeId = 0, socketUid = 1, envType = 0, simTime_us = 5, ssThresh = 10, cWnd = cw,
     segmentSize = 536, segmentsAcked = 1, bytesInFlight = 5360\<rparr>"

lemma tcp_agent_total_witness:
  "\<exists>r. run_rl_tcp tcp_demo_ext True True ''x'' [tcp_demo_msg 5, tcp_demo_msg 7] = Inr r"
  using tcp_agent_total [OF tcp_demo_ext_ok, of "[tcp_demo_msg 5, tcp_demo_msg 7]"]
  by (simp add: tcp_demo_msg_def)

lemma tcp_agent_window_witness:
  "\<exists>as plots d. run_rl_tcp tcp_demo_ext True False ''x'' [tcp_demo_msg 5] = Inr (as, plots, d) \<and>
     memory_counter d = 1 \<and> learn_step d = 0 \<and> plots = []"
proof -
  have "\<exists>r. tcp_loop tcp_demo_ext True False [tcp_demo_msg 5] ([], replicate 5 [], tcp_dqn_init tcp_demo_ext 0, 6) = Inr r"
    by (rule tcp_loop_rl_total [OF tcp_demo_ext_ok tcp_init_wf]) (simp add: tcp_demo_msg_def)
  then obtain as plots d where
    r: "run_rl_tcp tcp_demo_ext True False ''x'' [tcp_demo_msg 5] = Inr (as, plots, d)"
    unfolding run_rl_tcp_def by auto
  show ?thesis using tcp_agent_window [OF tcp_demo_ext_ok r] r by (auto simp: tcp_plots_def)
qed

end
