(* ===== verification/Cqi.thy ===== *)
theory Cqi
  imports PyFloat "HOL-Library.Word"
begin

text \<open>
  The channel quality examples \<open>lte_cqi\<close>. \<open>run_online.py\<close> answers every measurement with itself;
  \<open>run_online_lstm.py\<close> delays the measurements, predicts them with a network trained on the way
  and falls back on the measurement itself whenever the prediction has not been better. The
  network (keras) and numpy's \<open>mean\<close> are parameters. \<open>multi-run/run.py\<close>, the smallest example, is
  here as well.
\<close>

section \<open>Messages, and the two scripts that compute nothing\<close>

record CqiFeature =
  wbCqi :: "8 word"
  rbgNum :: "8 word"
  nLayers :: "8 word"
  sbCqi :: "8 word list list"

record CqiPredicted =
  new_wbCqi :: "8 word"
  new_sbCqi :: "8 word list list"

definition run_online_body :: "CqiFeature \<Rightarrow> CqiPredicted" where
  "run_online_body feat = \<lparr>new_wbCqi = wbCqi feat, new_sbCqi = sbCqi feat\<rparr>"

definition multi_run_body :: "32 word \<times> 32 word \<Rightarrow> 32 word" where
  "multi_run_body e = (case e of (a, b) \<Rightarrow> word_of_int (sint a + sint b))"

section \<open>numpy\<close>

text \<open>Elementwise operations on two arrays need equal lengths, or one of length 1.\<close>

definition bcast :: "int list \<Rightarrow> int list \<Rightarrow> (int \<times> int) list result" where
  "bcast xs ys =
     (if length xs = length ys then Inr (zip xs ys)
      else if length xs = 1 then Inr (map (\<lambda>y. (hd xs, y)) ys)
      else if length ys = 1 then Inr (map (\<lambda>x. (x, hd ys)) xs)
      else Inl ValueError)"

record 'm lstm_ext =
  np_mean :: "double list \<Rightarrow> double"
  lstm_predict :: "'m \<Rightarrow> double list \<Rightarrow> double"
  lstm_fit :: "'m \<Rightarrow> double list list \<Rightarrow> int list \<Rightarrow> 'm"

definition simple_MSE :: "'m lstm_ext \<Rightarrow> int list \<Rightarrow> int list \<Rightarrow> double result" where
  "simple_MSE E y_pred y_true =
     ebind (bcast y_pred y_true) (\<lambda>d. Inr (np_mean E (map (\<lambda>(p, t). of_int ((p - t) ^ 2)) d)))"

definition weighted_MSE :: "'m lstm_ext \<Rightarrow> int list \<Rightarrow> int list \<Rightarrow> double result" where
  "weighted_MSE E y_pred y_true =
     ebind (bcast y_pred y_true) (\<lambda>d.
     ebind (bcast (map (\<lambda>(p, t). (p - t) ^ 2) d) [1..int (length y_pred)]) (\<lambda>w.
     Inr (np_mean E (map (\<lambda>(e, k). fl (of_int (e * k) / of_nat (length y_pred))) w))))"

section \<open>The online predictor\<close>

record 'm cqi =
  cqi_queue :: "int list"
  prediction :: "int list"
  last_cqi :: "int list"
  right :: "int list"
  corrected_predict :: "int list"
  target :: "int list"
  train_data :: "int list list"
  delay_queue :: "int list"
  lstm_model_mse :: 'm

definition cqi_init :: "'m \<Rightarrow> 'm cqi" where
  "cqi_init m =
     \<lparr>cqi_queue = [], prediction = [], last_cqi = [], right = [], corrected_predict = [], target = [],
      train_data = [], delay_queue = [], lstm_model_mse = m\<rparr>"

definition input_len :: nat where "input_len = 200"

definition pred_len :: nat where "pred_len = 40"

definition cqi_batch_size :: nat where "cqi_batch_size = 20"

definition cqi_alpha :: double where "cqi_alpha = fl (6 / 10)"

definition tiny :: double where "tiny = fl (1 / 1000000)"

definition not_train :: bool where "not_train = False"

definition delayed_cqi :: "int \<Rightarrow> int list \<Rightarrow> int result" where
  "delayed_cqi delta queue =
     (if int (length queue) < delta then py_nth queue (- 1) else py_nth queue (- delta))"

definition scaled :: "int list \<Rightarrow> double list" where
  "scaled = map (\<lambda>c. fl (of_int c / 10))"

text \<open>
  The output of the network is a binary32 number, to which Python adds a binary64 constant
  before the conversion to an integer.
\<close>

definition rounded_prediction :: "'m lstm_ext \<Rightarrow> 'm \<Rightarrow> int list \<Rightarrow> int" where
  "rounded_prediction E m one_data =
     trunc (py_add (fl32 (lstm_predict E m (scaled one_data))) (fl (49995 / 100000)))"

text \<open>\<open>corrected_predict[-1] = last[-1]\<close>: the prediction is replaced by the measurement.\<close>

definition fall_back :: "'m cqi \<Rightarrow> 'm cqi" where
  "fall_back s = s\<lparr>corrected_predict := butlast (corrected_predict s) @ [last (last_cqi s)]\<rparr>"

text \<open>
  The decision after a prediction has been stored: once enough of them can be compared with
  what was measured \<open>delta\<close> steps later, keep the prediction if its weighted error is at
  most 0.6 of the error of not predicting; otherwise fall back and train.
\<close>

definition judge :: "'m lstm_ext \<Rightarrow> int \<Rightarrow> int \<Rightarrow> 'm cqi \<Rightarrow> (int \<times> 'm cqi) result" where
  "judge E delta CQI s =
     (if int pred_len + delta \<le> int (length (train_data s)) then
        let n = int pred_len; recent = last_n pred_len (target s) in
        ebind (weighted_MSE E (py_slice (last_cqi s) (- n - delta) (- delta)) recent) (\<lambda>err_t.
        ebind (weighted_MSE E (py_slice (prediction s) (- n - delta) (- delta)) recent) (\<lambda>err_p.
        if err_p \<le> py_mul err_t cqi_alpha then
          (let s' = (if err_t < tiny then fall_back s else s) in
           Inr (last (corrected_predict s'), s'\<lparr>right := right s' @ [1]\<rparr>))
        else
          (let s' = fall_back s; b = int cqi_batch_size;
               x = py_slice (train_data s') (- delta - b) (- delta);
               y = last_n cqi_batch_size (target s') in
           if err_t \<le> tiny then Inr (CQI, s')
           else if length x \<noteq> cqi_batch_size then Inl ValueError
           else Inr (last (corrected_predict s'),
             s'\<lparr>right := right s' @ [0], lstm_model_mse := lstm_fit E (lstm_model_mse s') (map scaled x) y\<rparr>))))
      else let s' = fall_back s in Inr (last (corrected_predict s'), s'))"

definition cqi_step :: "'m lstm_ext \<Rightarrow> int \<Rightarrow> int \<Rightarrow> 'm cqi \<Rightarrow> (int \<times> 'm cqi) result" where
  "cqi_step E delta cqi s =
     (let queue = delay_queue s @ [cqi] in
      ebind (delayed_cqi delta queue) (\<lambda>CQI.
      if not_train then Inr (CQI, s\<lparr>delay_queue := queue\<rparr>)
      else
        let cq = cqi_queue s @ [CQI];
            s1 = s\<lparr>delay_queue := queue, cqi_queue := cq,
              target := target s @ (if int input_len + delta \<le> int (length cq) then [CQI] else [])\<rparr> in
        if length cq < input_len then Inr (CQI, s1)
        else
          let one_data = last_n input_len cq; p = rounded_prediction E (lstm_model_mse s) one_data in
          judge E delta CQI
            (s1\<lparr>train_data := train_data s @ [one_data], prediction := prediction s @ [p],
                last_cqi := last_cqi s @ [last one_data], corrected_predict := corrected_predict s @ [p]\<rparr>)))"

text \<open>The loop ends at the first value above 15; the answers wrap to the 8 bits of their field.\<close>

fun cqi_loop :: "'m lstm_ext \<Rightarrow> int \<Rightarrow> int list \<Rightarrow> 'm cqi \<Rightarrow> (8 word list \<times> 'm cqi) result" where
  "cqi_loop E delta [] s = Inr ([], s)"
| "cqi_loop E delta (w # ws) s =
     (if 15 < w then Inr ([], s)
      else ebind (cqi_step E delta w s) (\<lambda>(a, s).
        ebind (cqi_loop E delta ws s) (\<lambda>(as, s). Inr (word_of_int a # as, s))))"

text \<open>The report at the end: the share of kept predictions and two mean squared errors.\<close>

definition cqi_report :: "'m lstm_ext \<Rightarrow> int \<Rightarrow> 'm cqi \<Rightarrow> (double option \<times> double \<times> double) result" where
  "cqi_report E delta s =
     (let rate = (if right s = [] then None
                  else Some (fl (of_int (sum_list (right s)) / of_nat (length (right s))))) in
      ebind (simple_MSE E (py_slice_from (target s) delta) (py_slice_to (target s) (- delta))) (\<lambda>t.
      ebind (simple_MSE E (py_slice_from (corrected_predict s) delta) (py_slice_to (target s) delta)) (\<lambda>p.
      Inr (rate, t, p))))"

section \<open>What the queues hold\<close>

text \<open>
  The measurement the predictor uses at each message, the windows of \<open>input_len\<close> of them, and
  the queues between two messages: the \<open>i\<close>-th window ends at position \<open>i + 199\<close> and its target
  is the measurement \<open>d\<close> steps later.
\<close>

definition delayed :: "nat \<Rightarrow> int list \<Rightarrow> int list" where
  "delayed d ws = map (\<lambda>i. if i + 1 < d then ws ! i else ws ! (i + 1 - d)) [0..<length ws]"

definition windows :: "int list \<Rightarrow> int list list" where
  "windows cq = map (\<lambda>i. take input_len (drop i cq)) [0..<length cq - 199]"

definition cqi_aligned :: "nat \<Rightarrow> int list \<Rightarrow> 'm cqi \<Rightarrow> bool" where
  "cqi_aligned d ws s \<longleftrightarrow>
     delay_queue s = ws \<and> cqi_queue s = delayed d ws \<and> target s = drop (199 + d) (delayed d ws) \<and>
     last_cqi s = drop 199 (delayed d ws) \<and> train_data s = windows (delayed d ws) \<and>
     length (prediction s) = length ws - 199 \<and> length (corrected_predict s) = length ws - 199"

lemma length_delayed [simp]: "length (delayed d ws) = length ws"
  by (simp add: delayed_def)

lemma length_windows [simp]: "length (windows cq) = length cq - 199"
  by (simp add: windows_def)

lemma delayed_snoc:
  assumes "1 \<le> d"
  shows "delayed d (ws @ [w]) = delayed d ws @
    [if length ws + 1 < d then w else (ws @ [w]) ! (length ws + 1 - d)]"
  using assms by (auto simp: delayed_def nth_append)

lemma delayed_cqi_value:
  assumes "1 \<le> d"
  shows "delayed_cqi (int d) (ws @ [w]) =
    Inr (if length ws + 1 < d then w else (ws @ [w]) ! (length ws + 1 - d))"
  using assms by (auto simp: delayed_cqi_def py_nth_def py_index_def nat_diff_distrib nat_add_distrib nth_append)

lemma windows_snoc:
  "windows (cq @ [c]) = windows cq @ (if 199 \<le> length cq then [last_n input_len (cq @ [c])] else [])"
proof (cases "199 \<le> length cq")
  case True
  then have "length (cq @ [c]) - 199 = Suc (length cq - 199)" by simp
  then have "[0..<length (cq @ [c]) - 199] = [0..<length cq - 199] @ [length cq - 199]"
    by (simp only: upt_Suc) simp
  moreover have "take input_len (drop i (cq @ [c])) = take input_len (drop i cq)" if "i < length cq - 199" for i
    using that by (simp add: input_len_def)
  moreover have "take input_len (drop (length cq - 199) (cq @ [c])) = last_n input_len (cq @ [c])"
    using True by (simp add: input_len_def last_n_def)
  ultimately show ?thesis using True by (simp add: windows_def)
qed (simp add: windows_def)

lemma last_last_n: "0 < n \<Longrightarrow> last (last_n n (xs @ [x])) = x"
  by (simp add: last_n_def)

lemma bcast_same: "length xs = length ys \<Longrightarrow> bcast xs ys = Inr (zip xs ys)"
  by (simp add: bcast_def)

lemma weighted_MSE_ok:
  "length xs = length ys \<Longrightarrow> weighted_MSE E xs ys = Inr (np_mean E (map (\<lambda>((p, t), k).
     fl (of_int ((p - t) ^ 2 * k) / of_nat (length xs))) (zip (zip xs ys) [1..int (length xs)])))"
  by (simp add: weighted_MSE_def bcast_same zip_map1 case_prod_unfold comp_def)

lemma fall_back_fields [simp]:
  "delay_queue (fall_back s) = delay_queue s" "cqi_queue (fall_back s) = cqi_queue s"
  "target (fall_back s) = target s" "last_cqi (fall_back s) = last_cqi s"
  "train_data (fall_back s) = train_data s" "prediction (fall_back s) = prediction s"
  "last (corrected_predict (fall_back s)) = last (last_cqi s)"
  by (simp_all add: fall_back_def)

lemma fall_back_aligned: "cqi_aligned d ws s \<Longrightarrow> 200 \<le> length ws \<Longrightarrow> cqi_aligned d ws (fall_back s)"
  by (simp add: cqi_aligned_def) (simp add: fall_back_def)

text \<open>The two errors \<open>judge\<close> compares, as the code slices them.\<close>

definition err_t :: "'m lstm_ext \<Rightarrow> nat \<Rightarrow> 'm cqi \<Rightarrow> double result" where
  "err_t E d s = weighted_MSE E (py_slice (last_cqi s) (- int pred_len - int d) (- int d)) (last_n pred_len (target s))"

definition err_p :: "'m lstm_ext \<Rightarrow> nat \<Rightarrow> 'm cqi \<Rightarrow> double result" where
  "err_p E d s = weighted_MSE E (py_slice (prediction s) (- int pred_len - int d) (- int d)) (last_n pred_len (target s))"

lemma errors_ok:
  assumes "1 \<le> d" and "cqi_aligned d ws s" and "pred_len + d \<le> length (train_data s)"
  shows "\<exists>x y. err_t E d s = Inr x \<and> err_p E d s = Inr y"
proof -
  have n: "pred_len + d \<le> length ws - 199" "length (last_cqi s) = length ws - 199"
    "length (prediction s) = length ws - 199" "length (target s) = length ws - (199 + d)"
    using assms(2,3) by (simp_all add: cqi_aligned_def)
  then have "length (last_n pred_len (target s)) = pred_len" by simp
  moreover have "length (py_slice (last_cqi s) (- int pred_len - int d) (- int d)) = pred_len"
    "length (py_slice (prediction s) (- int pred_len - int d) (- int d)) = pred_len"
    using n assms(1) by (simp_all add: slice_back [of pred_len d])
  ultimately show ?thesis unfolding err_t_def err_p_def by (simp add: weighted_MSE_ok)
qed

lemma judge_ok:
  assumes "1 \<le> d" and "cqi_aligned d ws s" and "200 \<le> length ws" and "last (last_cqi s) = CQI"
  shows "\<exists>a s'. judge E (int d) CQI s = Inr (a, s') \<and> cqi_aligned d ws s' \<and>
    prediction s' = prediction s \<and> last_cqi s' = last_cqi s \<and> target s' = target s \<and> train_data s' = train_data s \<and>
    (a = CQI \<or> a = last (corrected_predict s) \<and> pred_len + d \<le> length (train_data s) \<and>
      (\<exists>x y. err_t E d s = Inr x \<and> err_p E d s = Inr y \<and> tiny \<le> x \<and> y \<le> py_mul x cqi_alpha))"
proof (cases "pred_len + d \<le> length (train_data s)")
  case False
  then have "judge E (int d) CQI s = Inr (CQI, fall_back s)"
    using assms(4) by (simp add: judge_def Let_def)
  then show ?thesis using fall_back_aligned [OF assms(2,3)] by auto
next
  case True
  obtain x y where e: "err_t E d s = Inr x" "err_p E d s = Inr y"
    using errors_ok [OF assms(1,2) True] by blast
  have xs: "length (py_slice (train_data s) (- int d - int cqi_batch_size) (- int d)) = cqi_batch_size"
    using slice_back [of cqi_batch_size d "train_data s" "- int d - int cqi_batch_size"] True assms(1)
    by (simp add: pred_len_def cqi_batch_size_def)
  have j: "judge E (int d) CQI s =
      (if y \<le> py_mul x cqi_alpha then
          (let s' = (if x < tiny then fall_back s else s) in
           Inr (last (corrected_predict s'), s'\<lparr>right := right s' @ [1]\<rparr>))
        else
          (let s' = fall_back s; x' = py_slice (train_data s') (- int d - int cqi_batch_size) (- int d);
               y' = last_n cqi_batch_size (target s') in
           if x \<le> tiny then Inr (CQI, s')
           else Inr (last (corrected_predict s'),
             s'\<lparr>right := right s' @ [0], lstm_model_mse := lstm_fit E (lstm_model_mse s') (map scaled x') y'\<rparr>)))"
    using True e xs by (simp add: judge_def Let_def err_t_def err_p_def)
  have al: "cqi_aligned d ws (s\<lparr>right := r\<rparr>)" "cqi_aligned d ws ((fall_back s)\<lparr>right := r, lstm_model_mse := m\<rparr>)"
    "cqi_aligned d ws ((fall_back s)\<lparr>right := r\<rparr>)" for r m
    using assms(2) fall_back_aligned [OF assms(2,3)] by (simp_all add: cqi_aligned_def)
  show ?thesis
    unfolding j using al fall_back_aligned [OF assms(2,3)] assms(4) e True by (auto simp: Let_def)
qed

lemma cqi_step_ok:
  assumes "1 \<le> d" and "cqi_aligned d ws s"
  shows "\<exists>a s'. cqi_step E (int d) w s = Inr (a, s') \<and> cqi_aligned d (ws @ [w]) s' \<and>
    (a = last (delayed d (ws @ [w])) \<or> a = last (prediction s') \<and> pred_len + d \<le> length (train_data s') \<and>
      (\<exists>x y. err_t E d s' = Inr x \<and> err_p E d s' = Inr y \<and> tiny \<le> x \<and> y \<le> py_mul x cqi_alpha))"
proof -
  let ?CQI = "if length ws + 1 < d then w else (ws @ [w]) ! (length ws + 1 - d)"
  let ?cq = "delayed d (ws @ [w])"
  have cq: "?cq = delayed d ws @ [?CQI]" by (rule delayed_snoc [OF assms(1)])
  let ?s1 = "s\<lparr>delay_queue := ws @ [w], cqi_queue := ?cq,
     target := target s @ (if input_len + d \<le> length ?cq then [?CQI] else [])\<rparr>"
  let ?p = "rounded_prediction E (lstm_model_mse s) (last_n input_len ?cq)"
  let ?s2 = "?s1\<lparr>train_data := train_data s @ [last_n input_len ?cq], prediction := prediction s @ [?p],
      last_cqi := last_cqi s @ [?CQI], corrected_predict := corrected_predict s @ [?p]\<rparr>"
  have q: "delay_queue s = ws" "cqi_queue s = delayed d ws" using assms(2) by (simp_all add: cqi_aligned_def)
  have last: "last (last_n input_len ?cq) = ?CQI" unfolding cq by (rule last_last_n) (simp add: input_len_def)
  have step: "cqi_step E (int d) w s =
      (if length ?cq < input_len then Inr (?CQI, ?s1) else judge E (int d) ?CQI ?s2)"
    unfolding cqi_step_def q delayed_cqi_value [OF assms(1)] Let_def ebind_simps cq [symmetric] last
    by (simp add: not_train_def nat_le_iff flip: of_nat_add)
  have tgt: "target ?s1 = drop (199 + d) ?cq"
    using assms by (auto simp: cq cqi_aligned_def input_len_def)
  show ?thesis
  proof (cases "length ?cq < input_len")
    case True
    then have "cqi_aligned d (ws @ [w]) ?s1"
      using assms tgt windows_snoc [of "delayed d ws" ?CQI] cq
      by (simp add: cqi_aligned_def input_len_def)
    then show ?thesis using True step cq by auto
  next
    case False
    then have al: "cqi_aligned d (ws @ [w]) ?s2"
      using assms tgt windows_snoc [of "delayed d ws" ?CQI] cq
      by (simp add: cqi_aligned_def input_len_def Suc_diff_le)
    have "200 \<le> length (ws @ [w])" using False by (simp add: input_len_def)
    from judge_ok [OF assms(1) al this, of ?CQI E] obtain a s' where
      j: "judge E (int d) ?CQI ?s2 = Inr (a, s')" "cqi_aligned d (ws @ [w]) s'"
        "prediction s' = prediction ?s2" "last_cqi s' = last_cqi ?s2" "target s' = target ?s2"
        "train_data s' = train_data ?s2"
      and a: "a = ?CQI \<or> a = last (corrected_predict ?s2) \<and> pred_len + d \<le> length (train_data ?s2) \<and>
      (\<exists>x y. err_t E d ?s2 = Inr x \<and> err_p E d ?s2 = Inr y \<and> tiny \<le> x \<and> y \<le> py_mul x cqi_alpha)"
      by (auto simp del: cqi.simps)
    have "err_t E d s' = err_t E d ?s2" "err_p E d s' = err_p E d ?s2" using j by (simp_all add: err_t_def err_p_def)
    moreover have "last (corrected_predict ?s2) = last (prediction s')" using j(3) by simp
    ultimately show ?thesis using step False j a cq by auto
  qed
qed

lemma cqi_loop_snoc:
  assumes "\<forall>w \<in> set ws. w \<le> 15" and "w \<le> 15"
  shows "cqi_loop E delta (ws @ [w]) s =
    ebind (cqi_loop E delta ws s) (\<lambda>(as, s). ebind (cqi_step E delta w s) (\<lambda>(a, s). Inr (as @ [word_of_int a], s)))"
  using assms
proof (induction ws arbitrary: s)
  case (Cons v ws)
  then show ?case by (simp add: ebind_assoc case_prod_unfold)
qed simp

lemma cqi_loop_ok:
  assumes "1 \<le> d" and "\<forall>w \<in> set ws. w \<le> 15"
  shows "\<exists>ans s. cqi_loop E (int d) ws (cqi_init m) = Inr (ans, s) \<and> length ans = length ws \<and> cqi_aligned d ws s"
  using assms(2)
proof (induction ws rule: rev_induct)
  case Nil
  then show ?case by (simp add: cqi_aligned_def cqi_init_def delayed_def windows_def)
next
  case (snoc w ws)
  then obtain ans s where s: "cqi_loop E (int d) ws (cqi_init m) = Inr (ans, s)" "length ans = length ws"
    "cqi_aligned d ws s" by auto
  from cqi_step_ok [OF assms(1) s(3), of E w] obtain a s' where
    "cqi_step E (int d) w s = Inr (a, s')" "cqi_aligned d (ws @ [w]) s'" by blast
  then show ?case using s snoc.prems cqi_loop_snoc [of ws w E "int d" "cqi_init m"] by auto
qed

lemma zip_last_n: "length xs = length ys \<Longrightarrow> zip (last_n n xs) (last_n n ys) = last_n n (zip xs ys)"
  by (simp add: last_n_def drop_zip)

lemma batch_pairs:
  assumes "1 \<le> d" and "cqi_aligned d ws s" and "pred_len + d \<le> length (train_data s)"
  shows "zip (py_slice (train_data s) (- int d - int cqi_batch_size) (- int d)) (last_n cqi_batch_size (target s)) =
    last_n cqi_batch_size (map (\<lambda>i. (take input_len (drop i (cqi_queue s)), cqi_queue s ! (i + 199 + d)))
      [0..<length ws - 199 - d])"
proof -
  let ?cq = "delayed d ws" and ?n = "length ws - 199 - d"
  have t: "train_data s = windows ?cq" "cqi_queue s = ?cq" "target s = drop (199 + d) ?cq"
    using assms(2) by (simp_all add: cqi_aligned_def)
  have n: "pred_len \<le> ?n" "length (windows ?cq) = ?n + d" using assms(3) t by (simp_all add: pred_len_def)
  have "py_slice (windows ?cq) (- int d - int cqi_batch_size) (- int d) =
      take cqi_batch_size (drop (length (windows ?cq) - cqi_batch_size - d) (windows ?cq))"
    using n assms(1) by (intro slice_back) (simp_all add: pred_len_def cqi_batch_size_def)
  also have "\<dots> = last_n cqi_batch_size (take ?n (windows ?cq))"
    using n by (simp add: last_n_def drop_take pred_len_def cqi_batch_size_def)
  finally have x: "py_slice (windows ?cq) (- int d - int cqi_batch_size) (- int d) =
      last_n cqi_batch_size (take ?n (windows ?cq))" .
  have "zip (take ?n (windows ?cq)) (drop (199 + d) ?cq) =
      map (\<lambda>i. (take input_len (drop i ?cq), ?cq ! (i + 199 + d))) [0..<?n]"
    by (rule nth_equalityI) (use n in \<open>simp_all add: windows_def algebra_simps\<close>)
  then show ?thesis unfolding t x using n by (subst zip_last_n) simp_all
qed

section \<open>Properties\<close>

text \<open>
  The predictor never fails on valid measurements and trains on aligned pairs. For
  every delay of at least one and every sequence of values up to 15 the loop answers each message, the
  measurements it works with are the received ones, \<open>d - 1\<close> messages late, and once it judges
  itself, the training batch pairs each window of 200 measurements with the one that follows
  its end by \<open>d\<close> positions.
\<close>

theorem cqi_training_aligned:
  assumes "1 \<le> d" and "\<forall>w \<in> set ws. w \<le> 15"
  shows "\<exists>ans s. cqi_loop E (int d) ws (cqi_init m) = Inr (ans, s) \<and> length ans = length ws \<and>
    cqi_queue s = map (\<lambda>i. if i + 1 < d then ws ! i else ws ! (i + 1 - d)) [0..<length ws] \<and>
    (pred_len + d \<le> length (train_data s) \<longrightarrow>
      zip (py_slice (train_data s) (- int d - int cqi_batch_size) (- int d)) (last_n cqi_batch_size (target s)) =
        last_n cqi_batch_size (map (\<lambda>i. (take input_len (drop i (cqi_queue s)), cqi_queue s ! (i + 199 + d)))
          [0..<length ws - 199 - d]))"
proof -
  obtain ans s where s: "cqi_loop E (int d) ws (cqi_init m) = Inr (ans, s)" "length ans = length ws"
    "cqi_aligned d ws s" using cqi_loop_ok [OF assms, of E m] by blast
  moreover have "cqi_queue s = map (\<lambda>i. if i + 1 < d then ws ! i else ws ! (i + 1 - d)) [0..<length ws]"
    using s(3) by (simp add: cqi_aligned_def delayed_def)
  ultimately show ?thesis using batch_pairs [OF assms(1) s(3)] by blast
qed

definition demo_lstm :: "nat lstm_ext" where
  "demo_lstm = \<lparr>np_mean = (\<lambda>xs. if xs = [] then 0 else sum_list xs / of_nat (length xs)),
     lstm_predict = (\<lambda>m xs. of_nat m), lstm_fit = (\<lambda>m x y. m + 1)\<rparr>"

lemma cqi_training_aligned_witness:
  "\<exists>ans s. cqi_loop demo_lstm 2 [3, 4, 15] (cqi_init 0) = Inr (ans, s) \<and> length ans = 3 \<and> cqi_queue s = [3, 3, 4]"
proof -
  have "[0..<length [3, 4, 15 :: int]] = [0, 1, 2]" by (simp add: upt_rec)
  then have "map (\<lambda>i. if i + 1 < 2 then [3, 4, 15] ! i else [3, 4, 15] ! (i + 1 - 2)) [0..<length [3, 4, 15 :: int]] =
      [3, 3, 4 :: int]" by simp
  then show ?thesis using cqi_training_aligned [of 2 "[3, 4, 15]" demo_lstm 0] by auto
qed

text \<open>
  The answer is safe: after every message it is the (delayed) measurement itself, unless the
  predictor has been compared on 40 past predictions, and there its weighted error was at most
  0.6 of that of not predicting, which was not negligible. Then it is the latest prediction.
\<close>

theorem cqi_answer_safe:
  assumes "1 \<le> d" and "\<forall>v \<in> set (ws @ [w]). v \<le> 15"
    and "cqi_loop E (int d) (ws @ [w]) (cqi_init m) = Inr (ans, s)"
  shows "last ans = word_of_int (last (cqi_queue s)) \<or>
    last ans = word_of_int (last (prediction s)) \<and> pred_len + d \<le> length (train_data s) \<and>
    (\<exists>x y. err_t E d s = Inr x \<and> err_p E d s = Inr y \<and> tiny \<le> x \<and> y \<le> py_mul x cqi_alpha)"
proof -
  obtain ans0 s0 where s0: "cqi_loop E (int d) ws (cqi_init m) = Inr (ans0, s0)" "cqi_aligned d ws s0"
    using cqi_loop_ok [OF assms(1), of ws E m] assms(2) by auto
  from cqi_step_ok [OF assms(1) s0(2), of E w] obtain a s' where
    st: "cqi_step E (int d) w s0 = Inr (a, s')" "cqi_aligned d (ws @ [w]) s'"
    "a = last (delayed d (ws @ [w])) \<or> a = last (prediction s') \<and> pred_len + d \<le> length (train_data s') \<and>
      (\<exists>x y. err_t E d s' = Inr x \<and> err_p E d s' = Inr y \<and> tiny \<le> x \<and> y \<le> py_mul x cqi_alpha)" by blast
  have "s = s'" "last ans = word_of_int a"
    using assms(2,3) s0(1) st(1) by (auto simp: cqi_loop_snoc)
  then show ?thesis using st(2,3) by (auto simp: cqi_aligned_def)
qed

lemma cqi_answer_safe_witness:
  "\<exists>ans s. cqi_loop demo_lstm 2 ([3, 4] @ [15]) (cqi_init 0) = Inr (ans, s) \<and>
     (last ans = word_of_int (last (cqi_queue s)) \<or> last ans = word_of_int (last (prediction s)))"
proof -
  obtain ans s where l: "cqi_loop demo_lstm 2 ([3, 4] @ [15]) (cqi_init 0) = Inr (ans, s)"
    using cqi_loop_ok [of 2 "[3, 4] @ [15]" demo_lstm 0] by auto
  then show ?thesis using cqi_answer_safe [of 2 "[3, 4]" 15 demo_lstm 0 ans s] by auto
qed

text \<open>
  The report at the end fails on every long run. It compares the corrected predictions from
  position \<open>d\<close> on with the first \<open>d\<close> targets: the arrays fit only while there are no more than
  \<open>d\<close> of them, or when \<open>d = 1\<close> and the single target is broadcast.
\<close>

theorem cqi_report_fails:
  assumes "1 \<le> d" and "\<forall>w \<in> set ws. w \<le> 15"
  shows "\<exists>ans s. cqi_loop E (int d) ws (cqi_init m) = Inr (ans, s) \<and>
    (cqi_report E (int d) s = Inl ValueError \<longleftrightarrow> 2 \<le> d \<and> d < length ws - 199 - d)"
proof -
  obtain ans s where s: "cqi_loop E (int d) ws (cqi_init m) = Inr (ans, s)" "cqi_aligned d ws s"
    using cqi_loop_ok [OF assms, of E m] by blast
  let ?n = "length ws - 199 - d"
  have len: "length (target s) = ?n" "length (corrected_predict s) = length ws - 199"
    using s(2) by (simp_all add: cqi_aligned_def)
  have "length (py_slice_from (target s) (int d)) = length (py_slice_to (target s) (- int d))"
    using assms(1) len by (simp add: py_slice_from_def py_slice_to_def slice_bound_def nat_diff_distrib')
  then obtain t where t: "simple_MSE E (py_slice_from (target s) (int d)) (py_slice_to (target s) (- int d)) = Inr t"
    by (simp add: simple_MSE_def bcast_same)
  have l: "length (py_slice_from (corrected_predict s) (int d)) = ?n" "length (py_slice_to (target s) (int d)) = min d ?n"
    using len by (simp_all add: py_slice_from_def py_slice_to_def slice_bound_def)
  have "cqi_report E (int d) s = Inl ValueError \<longleftrightarrow>
      bcast (py_slice_from (corrected_predict s) (int d)) (py_slice_to (target s) (int d)) = Inl ValueError"
    unfolding cqi_report_def Let_def t ebind_simps
    by (cases "bcast (py_slice_from (corrected_predict s) (int d)) (py_slice_to (target s) (int d))")
      (simp_all add: simple_MSE_def)
  also have "\<dots> \<longleftrightarrow> 2 \<le> d \<and> d < ?n"
    using assms(1) by (auto simp: bcast_def l)
  finally show ?thesis using s(1) by blast
qed

lemma cqi_report_fails_witness:
  "\<exists>ans s. cqi_loop demo_lstm 2 (replicate 205 7) (cqi_init 0) = Inr (ans, s) \<and>
     cqi_report demo_lstm 2 s = Inl ValueError"
  using cqi_report_fails [of 2 "replicate 205 7" demo_lstm 0] by auto

end
