(* ===== verification/RadUtil.thy ===== *)
theory RadUtil
  imports PyFloat "HOL-Library.AList" "HOL-Library.Multiset"
begin

unbundle bit_operations_syntax

text \<open>
  The helper functions of \<open>bindings/python/rad_util.py\<close>, which the module scanner and the
  topological sort of the build come with. The module is Python 2: \<open>/\<close> on integers is floor
  division and \<open>keys\<close> of a dictionary come in an order of the interpreter. Numbers are integers where the
  function is about integers, and binary64 numbers in the statistics and rounding functions.
\<close>

section \<open>Binary strings\<close>

fun hex_digits :: "nat \<Rightarrow> nat list" where
  "hex_digits n = (if n < 16 then [n] else hex_digits (n div 16) @ [n mod 16])"

declare hex_digits.simps [simp del]

definition hex2bin :: "nat \<Rightarrow> string" where
  "hex2bin d = map (\<lambda>k. if odd (d div 2 ^ k) then CHR ''1'' else CHR ''0'') [3, 2, 1, 0]"

text \<open>
  The text of a negative number is \<open>-0x...\<close>, of which the first two characters are cut, so the
  table is asked for an \<open>x\<close>.
\<close>

definition int2bin :: "int \<Rightarrow> int \<Rightarrow> string result" where
  "int2bin i n =
     (if i < 0 then Inl KeyError
      else
        let r = concat (map hex2bin (hex_digits (nat i))) in
        if CHR ''1'' \<in> set (py_slice_to r (- n)) then Inl ValueError
        else let r' = py_slice_from r (- n) in
          Inr (replicate (nat (n - int (length r'))) (CHR ''0'') @ r'))"

fun bits_value :: "string \<Rightarrow> int" where
  "bits_value [] = 0"
| "bits_value (c # cs) = (if c = CHR ''1'' then 2 ^ length cs else 0) + bits_value cs"

definition is_space :: "char \<Rightarrow> bool" where
  "is_space c \<longleftrightarrow> c \<in> set [CHR '' '', CHR 0x09, CHR 0x0A, CHR 0x0B, CHR 0x0C, CHR 0x0D]"

text \<open>\<open>int(s, 2)\<close>: surrounding white space, a sign and the prefix \<open>0b\<close> are allowed.\<close>

definition bin2int :: "string \<Rightarrow> int result" where
  "bin2int s =
     (let t = rev (dropWhile is_space (rev (dropWhile is_space s)));
          neg = (take 1 t = ''-'');
          u = (if take 1 t \<in> set [''-'', ''+''] then drop 1 t else t);
          v = (if take 2 u \<in> set [''0b'', ''0B''] then drop 2 u else u) in
      if v = [] \<or> \<not> set v \<subseteq> {CHR ''0'', CHR ''1''} then Inl ValueError
      else Inr (if neg then - bits_value v else bits_value v))"

definition reverse_string :: "string \<Rightarrow> string" where
  "reverse_string s = rev s"

text \<open>\<open>binary_range\<close>: a counter of \<open>'0'\<close> and \<open>'1'\<close>, lowest digit first, with a row of carries.\<close>

function toggle_loop :: "nat \<Rightarrow> nat \<Rightarrow> string \<Rightarrow> nat list \<Rightarrow> string \<times> nat list" where
  "toggle_loop bits i v toggle =
     (if i < bits \<and> toggle ! i = 1 then
        (if v ! i = CHR ''0'' then toggle_loop bits (i + 1) (v[i := CHR ''1'']) (toggle[i + 1 := 0])
         else toggle_loop bits (i + 1) (v[i := CHR ''0'']) (toggle[i + 1 := 1]))
      else (v, toggle))"
  by pat_completeness auto

termination by (relation "measure (\<lambda>(bits, i, v, t). bits - i)") auto

declare toggle_loop.simps [simp del]

partial_function (option) binary_loop :: "nat \<Rightarrow> string \<Rightarrow> nat list \<Rightarrow> string list \<Rightarrow> string list option" where
  "binary_loop bits v toggle l =
     (if toggle ! bits \<noteq> 1 then
        (case toggle_loop bits 0 v (1 # replicate bits 0) of
           (v', toggle') \<Rightarrow> binary_loop bits v' toggle' (l @ [rev v]))
      else Some l)"

definition binary_range :: "nat \<Rightarrow> string list option" where
  "binary_range bits = binary_loop bits (replicate bits (CHR ''0'')) (1 # replicate bits 0) []"

section \<open>Numbers\<close>

function gcf_loop :: "int \<Rightarrow> int \<Rightarrow> int" where
  "gcf_loop result remainder =
     (if remainder \<noteq> 0 then gcf_loop remainder (result mod remainder) else \<bar>result\<bar>)"
  by pat_completeness auto

termination
  by (relation "measure (\<lambda>(a, b). nat \<bar>b\<bar>)") (auto simp: abs_mod_less nat_less_iff)

declare gcf_loop.simps [simp del]

definition gcf :: "int \<Rightarrow> int \<Rightarrow> int" where
  "gcf a b = gcf_loop (max a b) (min a b)"

definition lcm_py :: "int \<Rightarrow> int \<Rightarrow> int" where
  "lcm_py a b = (let denom = gcf a b in if denom = 0 then 0 else a * (b div denom))"

definition reduce_fraction :: "int \<times> int \<Rightarrow> (int \<times> int) result" where
  "reduce_fraction fraction =
     (case fraction of (numerator, denominator) \<Rightarrow>
        let common_factor = \<bar>gcf numerator denominator\<bar> in
        if common_factor = 0 then Inl ZeroDivisionError
        else Inr (numerator div common_factor, denominator div common_factor))"

definition lsb :: "int \<Rightarrow> nat \<Rightarrow> int" where
  "lsb x n = x AND (2 ^ n - 1)"

definition gray_encode :: "int \<Rightarrow> int" where
  "gray_encode i = i XOR (drop_bit 1 i)"

definition py_mod :: "double \<Rightarrow> double \<Rightarrow> double" where
  "py_mod x y = fl (x - of_int \<lfloor>x / y\<rfloor> * y)"

text \<open>
  \<open>round_grid\<close>: in the directed modes a value on the grid leaves \<open>add_one\<close> unbound, and so does
  any other mode.
\<close>

definition round_grid :: "double \<Rightarrow> double \<Rightarrow> int \<Rightarrow> double result" where
  "round_grid v g m =
     (if g = 0 then Inl ZeroDivisionError
      else
        let off_grid = py_mod v g in
        ebind (if m = 0 then Inr (if fl (g / 2) \<le> off_grid then 1 else 0)
               else if m = 1 \<and> off_grid \<noteq> 0 then Inr 1
               else if m = - 1 \<and> off_grid \<noteq> 0 then Inr 0
               else Inl (NameError ''add_one'')) (\<lambda>add_one.
        Inr (py_mul (of_int (trunc (fl (v / g)) + add_one)) g)))"

partial_function (option) float_loop :: "double \<Rightarrow> double \<Rightarrow> double \<Rightarrow> double list \<Rightarrow> double list option" where
  "float_loop cur stop step l =
     (if cur < stop then float_loop (py_add cur step) stop step (l @ [cur]) else Some l)"

definition float_range :: "double \<Rightarrow> double option \<Rightarrow> double option \<Rightarrow> double list option" where
  "float_range start stop step =
     (let (a, b) = (case stop of None \<Rightarrow> (0, start) | Some s \<Rightarrow> (start, s));
          d = (case step of None \<Rightarrow> 1 | Some d \<Rightarrow> d) in
      float_loop a b d [])"

section \<open>Lists\<close>

text \<open>\<open>zip(*matrix)\<close> stops with the shortest row.\<close>

definition transpose_py :: "'a list list \<Rightarrow> 'a list list" where
  "transpose_py matrix =
     (case matrix of [] \<Rightarrow> []
      | row # rows \<Rightarrow>
          map (\<lambda>j. map (\<lambda>r. r ! j) matrix) [0..<foldl (\<lambda>n r. min n (length r)) (length row) rows])"

definition insert_at :: "nat \<Rightarrow> 'a \<Rightarrow> 'a list \<Rightarrow> 'a list" where
  "insert_at i x xs = take i xs @ x # drop i xs"

fun permutations :: "'a list \<Rightarrow> 'a list list" where
  "permutations (item # x # xs) =
     concat (map (\<lambda>sub_list. map (\<lambda>i. insert_at i item sub_list) [0..<length (item # x # xs)])
       (permutations (x # xs)))"
| "permutations xs = [xs]"

text \<open>\<open>uniquify\<close>; without \<open>preserve_order\<close> the keys of a dictionary, in the interpreter's order.\<close>

fun first_seen :: "'a list \<Rightarrow> 'a list \<Rightarrow> 'a list" where
  "first_seen d [] = []"
| "first_seen d (x # xs) = (if x \<in> set d then first_seen d xs else x # first_seen (x # d) xs)"

definition uniquify :: "('a list \<Rightarrow> 'a list) \<Rightarrow> 'a list \<Rightarrow> bool \<Rightarrow> 'a list" where
  "uniquify order s preserve_order =
     (if preserve_order then first_seen [] s
      else order (map fst (fold (\<lambda>x d. AList.update x (0 :: int) d) s [])))"

definition reverse_dict :: "('a \<times> 'b) list \<Rightarrow> ('b \<times> 'a) list" where
  "reverse_dict d = fold (\<lambda>(k, v) r. AList.update v k r) d []"

fun common_prefix :: "'a list \<Rightarrow> 'a list \<Rightarrow> 'a list" where
  "common_prefix (x # xs) (y # ys) = (if x = y then x # common_prefix xs ys else [])"
| "common_prefix xs ys = []"

text \<open>The suffix loop reads both strings from their ends.\<close>

definition find_common_fixes :: "string \<Rightarrow> string \<Rightarrow> string \<times> string" where
  "find_common_fixes s1 s2 = (common_prefix s1 s2, rev (common_prefix (rev s1) (rev s2)))"

definition is_rotated :: "'a list \<Rightarrow> 'a list \<Rightarrow> bool result" where
  "is_rotated seq1 seq2 =
     (if length seq1 \<noteq> length seq2 then Inr False
      else case seq2 of
        [] \<Rightarrow> Inl IndexError
      | head_item # _ \<Rightarrow>
          (let start_indexes = filter (\<lambda>i. seq1 ! i = head_item) [0..<length seq1];
               double_seq1 = seq1 @ seq1 in
           Inr (list_ex (\<lambda>i. take (length seq1) (drop i double_seq1) = seq2) start_indexes)))"

section \<open>Statistics and geometry\<close>

definition quantile :: "double list \<Rightarrow> double \<Rightarrow> double result" where
  "quantile l p =
     (let l_sort = sort l; n = length l;
          r = py_add 1 (py_mul (of_int (int n - 1)) p);
          i = trunc r; f = py_sub r (of_int i) in
      if i < int n then
        ebind (py_nth l_sort (i - 1)) (\<lambda>a. ebind (py_nth l_sort i) (\<lambda>b.
        Inr (py_add (py_mul (py_sub 1 f) a) (py_mul f b))))
      else py_nth l_sort (i - 1))"

text \<open>The median is computed, which an empty list does not survive, but not used.\<close>

definition trim_median :: "double list \<Rightarrow> double result" where
  "trim_median l_sort =
     (let index = int (length l_sort div 2) in
      if even (length l_sort) then
        ebind (py_nth l_sort index) (\<lambda>a. ebind (py_nth l_sort (index - 1)) (\<lambda>b. Inr (fl (py_add a b / 2))))
      else py_nth l_sort index)"

definition trim :: "double list \<Rightarrow> double list result" where
  "trim l =
     (let l_sort = sort l in
      ebind (trim_median l_sort) (\<lambda>median.
      ebind (quantile l_sort (1 / 4)) (\<lambda>q1.
      ebind (quantile l_sort (3 / 4)) (\<lambda>q3.
      let iqr_extra = py_mul (py_sub q3 q1) (3 / 2) in
      Inr (filter (\<lambda>x. py_sub q1 iqr_extra \<le> x \<and> x \<le> py_add q3 iqr_extra) l_sort)))))"

text \<open>
  \<open>polygon_area\<close> on integer points: the points are scaled and closed in the caller's list, the
  second component of the result.
\<close>

definition shoelace :: "(int \<times> int) list \<Rightarrow> int" where
  "shoelace ps = foldl (\<lambda>area ((x, y), (x', y')). area + x' * y - y' * x) 0 (zip ps (tl ps))"

definition polygon_area :: "(int \<times> int) list \<Rightarrow> int \<Rightarrow> (double \<times> (int \<times> int) list) result" where
  "polygon_area points precision =
     (let scaled = map (\<lambda>(x, y). (x * precision, y * precision)) points in
      if scaled = [] then Inl IndexError
      else
        let closed = (if last scaled \<noteq> hd scaled then scaled @ [hd scaled] else scaled);
            area = \<bar>shoelace closed div 2\<bar> in
        ebind (py_div (fl (of_int area)) (fl (of_int (precision ^ 2)))) (\<lambda>a. Inr (a, closed)))"

section \<open>Command line\<close>

fun split_eq :: "string \<Rightarrow> string list" where
  "split_eq [] = [[]]"
| "split_eq (c # s) =
     (if c = CHR ''='' then [] # split_eq s
      else (case split_eq s of [] \<Rightarrow> [[c]] | w # ws \<Rightarrow> (c # w) # ws))"

datatype arg_value = AText string | ANone | AArgs "string list"

text \<open>The list of plain arguments goes in last, under the key \<open>args\<close>.\<close>

fun get_args_loop ::
  "string list \<Rightarrow> (string \<rightharpoonup> arg_value) \<Rightarrow> string list \<Rightarrow> (string \<rightharpoonup> arg_value) \<times> string list" where
  "get_args_loop [] d args = (d, args)"
| "get_args_loop (a # as) d args =
     (if take 1 a = ''-'' then
        (case split_eq (dropWhile (\<lambda>c. c = CHR ''-'') a) of
           [k, v] \<Rightarrow> get_args_loop as (d(k \<mapsto> AText v)) args
         | ps \<Rightarrow> get_args_loop as (d(hd ps \<mapsto> ANone)) args)
      else get_args_loop as d (args @ [a]))"

definition get_args :: "string list \<Rightarrow> (string \<rightharpoonup> arg_value)" where
  "get_args argv = (case get_args_loop argv Map.empty [] of (d, args) \<Rightarrow> d(''args'' \<mapsto> AArgs args))"


section \<open>Binary strings are numbers\<close>

definition binary :: "string \<Rightarrow> bool" where
  "binary s \<longleftrightarrow> set s \<subseteq> {CHR ''0'', CHR ''1''}"

lemma bits_value_append: "bits_value (a @ b) = bits_value a * 2 ^ length b + bits_value b"
  by (induction a) (simp_all add: algebra_simps power_add)

lemma bits_value_bounds: "0 \<le> bits_value s \<and> bits_value s < 2 ^ length s"
  by (induction s) auto

lemma bits_value_0_iff: "bits_value s = 0 \<longleftrightarrow> CHR ''1'' \<notin> set s"
  using bits_value_bounds by (induction s) (auto simp: add_nonneg_eq_0_iff)

lemma bits_value_replicate [simp]: "bits_value (replicate n (CHR ''0'')) = 0"
  by (simp add: bits_value_0_iff)

lemma hex2bin_digit:
  assumes "d < 16"
  shows "bits_value (hex2bin d) = int d \<and> length (hex2bin d) = 4 \<and> binary (hex2bin d)"
proof -
  have "d \<in> {0, 1, 2, 3, 4, 5, 6, 7, 8, 9, 10, 11, 12, 13, 14, 15}" using assms by (simp add: numeral_eq_Suc less_Suc_eq)
  then show ?thesis by (auto simp: hex2bin_def binary_def)
qed

lemma hex_bits:
  "bits_value (concat (map hex2bin (hex_digits n))) = int n \<and> binary (concat (map hex2bin (hex_digits n)))"
proof (induction n rule: hex_digits.induct)
  case (1 n)
  show ?case
  proof (cases "n < 16")
    case True
    then show ?thesis using hex2bin_digit [of n] by (simp add: hex_digits.simps [of n])
  next
    case False
    have "int (n div 16) * 16 + int (n mod 16) = int n" by presburger
    moreover have "hex_digits n = hex_digits (n div 16) @ [n mod 16]" using False by (simp add: hex_digits.simps [of n])
    ultimately show ?thesis using 1 [OF False] hex2bin_digit [of "n mod 16"]
      by (simp add: bits_value_append binary_def)
  qed
qed

lemma binary_char_not_space: "c \<in> {CHR ''0'', CHR ''1''} \<Longrightarrow> \<not> is_space c"
  by (auto simp: is_space_def)

lemma bin2int_binary:
  assumes "binary s" and "s \<noteq> []"
  shows "bin2int s = Inr (bits_value s)"
proof -
  have "dropWhile is_space s = s"
    using assms binary_char_not_space by (cases s) (auto simp: binary_def)
  moreover have "dropWhile is_space (rev s) = rev s"
    using assms binary_char_not_space by (cases s rule: rev_cases) (auto simp: binary_def)
  moreover have "take 1 s \<noteq> ''-''" "take 1 s \<noteq> ''+''" using assms by (cases s; auto simp: binary_def)+
  moreover have "take 2 s \<noteq> ''0b'' \<and> take 2 s \<noteq> ''0B''"
    using assms(1) by (cases s; cases "tl s") (auto simp: binary_def numeral_2_eq_2)
  ultimately show ?thesis using assms by (simp add: bin2int_def Let_def binary_def)
qed

lemma bits_split: "bits_value r = bits_value (take (length r - n) r) * 2 ^ min n (length r) + bits_value (last_n n r)"
proof -
  have "r = take (length r - n) r @ last_n n r" by (simp add: last_n_def)
  then show ?thesis using bits_value_append [of "take (length r - n) r" "last_n n r"] by simp
qed

lemma bits_high_0: "bits_value (take (length r - n) r) = 0 \<longleftrightarrow> bits_value r < 2 ^ n"
proof (cases "length r \<le> n")
  case True
  then have "(2 :: int) ^ length r \<le> 2 ^ n" by simp
  then have "bits_value r < 2 ^ n" using bits_value_bounds [of r] by linarith
  then show ?thesis using True by simp
next
  case False
  let ?hi = "bits_value (take (length r - n) r)"
  have e: "bits_value r = ?hi * 2 ^ n + bits_value (last_n n r)" using bits_split [of r n] False by simp
  have lo: "0 \<le> bits_value (last_n n r)" "bits_value (last_n n r) < 2 ^ n"
    using bits_value_bounds [of "last_n n r"] False by simp_all
  have hi: "0 \<le> ?hi" using bits_value_bounds by blast
  show ?thesis
  proof (cases "?hi = 0")
    case True
    then show ?thesis using e lo by simp
  next
    case False
    then have "1 \<le> ?hi" using hi by linarith
    then have "1 * 2 ^ n \<le> ?hi * 2 ^ n" by (rule mult_right_mono) simp
    then have "2 ^ n \<le> bits_value r" using e lo by linarith
    then show ?thesis using False by simp
  qed
qed

lemma int2bin_cases:
  assumes "0 < n"
  shows "int2bin i (int n) =
    (if i < 0 then Inl KeyError else if 2 ^ n \<le> i then Inl ValueError
     else Inr (let r = last_n n (concat (map hex2bin (hex_digits (nat i)))) in replicate (n - length r) (CHR ''0'') @ r))"
proof (cases "i < 0")
  case False
  define r where "r = concat (map hex2bin (hex_digits (nat i)))"
  have v: "bits_value r = i" using hex_bits [of "nat i"] False by (simp add: r_def)
  have "nat (int (length r) - int n) = length r - n" by linarith
  then have "py_slice_to r (- int n) = take (length r - n) r" "py_slice_from r (- int n) = last_n n r"
    using assms by (simp_all add: py_slice_to_def py_slice_from_def slice_bound_def last_n_def)
  moreover have "CHR ''1'' \<in> set (take (length r - n) r) \<longleftrightarrow> 2 ^ n \<le> i"
    using bits_high_0 [of r n] v by (auto simp: bits_value_0_iff)
  ultimately show ?thesis using False
    by (simp add: int2bin_def r_def [symmetric] Let_def nat_diff_distrib' flip: of_nat_diff)
qed (simp add: int2bin_def)

lemma int2bin_value:
  assumes "0 < n" and "0 \<le> i" and "i < 2 ^ n"
  shows "\<exists>s. int2bin i (int n) = Inr s \<and> length s = n \<and> binary s \<and> bits_value s = i"
proof -
  define r where "r = concat (map hex2bin (hex_digits (nat i)))"
  let ?s = "replicate (n - length (last_n n r)) (CHR ''0'') @ last_n n r"
  have r: "bits_value r = i" "binary r" using hex_bits [of "nat i"] assms by (simp_all add: r_def)
  have "int2bin i (int n) = Inr ?s" using int2bin_cases [OF assms(1), of i] assms by (simp add: r_def [symmetric] Let_def)
  moreover have "length ?s = n" by simp
  moreover have "bits_value (last_n n r) = i" using bits_split [of r n] bits_high_0 [of r n] r(1) assms by simp
  moreover have "binary ?s" using r(2) set_last_n [of n r] by (auto simp: binary_def)
  ultimately show ?thesis by (intro exI [of _ ?s]) (simp add: bits_value_append)
qed

text \<open>
  Binary strings: a number that fits is turned into a string of exactly \<open>n\<close> digits which
  \<open>bin2int\<close> reads back; one that does not fit raises \<open>ValueError\<close>, and a negative one a
  \<open>KeyError\<close>, because the hexadecimal digits are cut out of its text at a fixed position.
\<close>

theorem int2bin_roundtrip:
  assumes "0 < n"
  shows "(i < 0 \<longrightarrow> int2bin i (int n) = Inl KeyError) \<and> (2 ^ n \<le> i \<longrightarrow> int2bin i (int n) = Inl ValueError) \<and>
    (0 \<le> i \<and> i < 2 ^ n \<longrightarrow> (\<exists>s. int2bin i (int n) = Inr s \<and> length s = n \<and> bin2int s = Inr i))"
proof (intro conjI impI)
  show "i < 0 \<Longrightarrow> int2bin i (int n) = Inl KeyError" using int2bin_cases [OF assms, of i] by simp
  assume "2 ^ n \<le> i"
  then have "0 \<le> i" by (rule order_trans [rotated]) simp
  then show "int2bin i (int n) = Inl ValueError" using int2bin_cases [OF assms, of i] \<open>2 ^ n \<le> i\<close> by simp
next
  assume "0 \<le> i \<and> i < 2 ^ n"
  then obtain s where "int2bin i (int n) = Inr s" "length s = n" "binary s" "bits_value s = i"
    using int2bin_value [OF assms] by blast
  moreover have "s \<noteq> []" using assms calculation(2) by auto
  ultimately show "\<exists>s. int2bin i (int n) = Inr s \<and> length s = n \<and> bin2int s = Inr i"
    using bin2int_binary by blast
qed

lemma int2bin_roundtrip_witness:
  "\<exists>s. int2bin 123 8 = Inr s \<and> length s = 8 \<and> bin2int s = Inr 123"
  using int2bin_roundtrip [of 8 123] by auto

section \<open>Greatest common factors\<close>

lemma gcf_loop_gcd: "gcf_loop a b = gcd a b"
proof (induction a b rule: gcf_loop.induct)
  case (1 a b)
  show ?case
  proof (cases "b = 0")
    case True
    then show ?thesis by (simp add: gcf_loop.simps [of a 0])
  next
    case False
    then have "gcf_loop a b = gcd b (a mod b)" using 1 by (simp add: gcf_loop.simps [of a b])
    then show ?thesis using gcd_red_int [of a b] by simp
  qed
qed

lemma gcf_gcd: "gcf a b = gcd a b"
  by (simp add: gcf_def gcf_loop_gcd max_def min_def gcd.commute)

text \<open>
  The Euclidean loop computes the greatest common divisor of any two integers, negative
  and zero ones included; the common multiple is right up to its sign, and a reduced fraction has
  coprime components, except for 0/0, which divides by zero. The sign of the denominator is not
  normalised.
\<close>

theorem fractions_reduced:
  "gcf a b = gcd a b \<and> \<bar>lcm_py a b\<bar> = lcm a b \<and>
   reduce_fraction (a, b) =
     (if a = 0 \<and> b = 0 then Inl ZeroDivisionError else Inr (a div gcd a b, b div gcd a b)) \<and>
   (a \<noteq> 0 \<or> b \<noteq> 0 \<longrightarrow> coprime (a div gcd a b) (b div gcd a b))"
proof -
  have "a * (b div gcd a b) = a * b div gcd a b" by (simp add: div_mult_swap)
  then have "\<bar>a * (b div gcd a b)\<bar> = lcm a b" by (simp add: lcm_gcd)
  then show ?thesis
    by (auto simp: gcf_gcd lcm_py_def reduce_fraction_def Let_def div_gcd_coprime)
qed

section \<open>Permutations\<close>

lemma mset_insert_at: "mset (insert_at i x xs) = add_mset x (mset xs)"
  using mset_append [of "take i xs" "drop i xs"] by (simp add: insert_at_def)

lemma permutations_sound: "ys \<in> set (permutations xs) \<Longrightarrow> mset ys = mset xs"
  by (induction xs arbitrary: ys rule: permutations.induct) (auto simp: mset_insert_at simp del: upt_Suc)

lemma permutations_complete: "mset ys = mset xs \<Longrightarrow> ys \<in> set (permutations xs)"
proof (induction xs arbitrary: ys rule: permutations.induct)
  case (1 a x xs)
  have "a \<in> set ys" using 1(2) by (metis list.set_intros(1) mset_eq_setD)
  then obtain us vs where ys: "ys = us @ a # vs" by (meson split_list)
  then have m: "mset (us @ vs) = mset (x # xs)" using 1(2) by simp
  then have "us @ vs \<in> set (permutations (x # xs))" by (rule 1(1))
  moreover have "ys = insert_at (length us) a (us @ vs)" by (simp add: ys insert_at_def)
  moreover have "length us < length (a # x # xs)" using arg_cong [OF m, of size] by simp
  ultimately have "ys \<in> set (map (\<lambda>i. insert_at i a (us @ vs)) [0..<length (a # x # xs)])"
    by (auto simp del: upt_Suc)
  with \<open>us @ vs \<in> set (permutations (x # xs))\<close>
  have "ys \<in> (\<Union>s \<in> set (permutations (x # xs)). set (map (\<lambda>i. insert_at i a s) [0..<length (a # x # xs)]))"
    by (rule UN_I)
  then show ?case unfolding permutations.simps set_concat set_map image_image .
qed auto

lemma length_permutations: "length (permutations xs) = fact (length xs)"
proof (induction xs rule: permutations.induct)
  case (1 a x xs)
  then show ?case by (simp add: length_concat comp_def sum_list_triv algebra_simps del: upt_Suc)
qed simp_all

text \<open>
  \<open>permutations\<close> returns exactly the rearrangements of its argument, one for each of the
  \<open>n!\<close> ways to place the elements, so a list without duplicates gets each of them once.
\<close>

theorem permutations_all:
  "set (permutations xs) = {ys. mset ys = mset xs} \<and> length (permutations xs) = fact (length xs)"
  using permutations_sound permutations_complete length_permutations by blast

section \<open>Rotations\<close>

lemma take_drop_double:
  "i < length xs \<Longrightarrow> take (length xs) (drop i (xs @ xs)) = rotate i xs"
  by (simp add: rotate_drop_take)

text \<open>
  \<open>is_rotated\<close> decides rotation, except on two empty lists, where it reads their first element.
\<close>

lemma is_rotated_rotation:
  "is_rotated seq1 seq2 =
    (if length seq1 = length seq2 \<and> seq2 = [] then Inl IndexError else Inr (\<exists>n. seq2 = rotate n seq1))"
proof (cases "length seq1 = length seq2 \<and> seq2 \<noteq> []")
  case False
  then show ?thesis by (auto simp: is_rotated_def split: list.split)
next
  case True
  then obtain h t where seq2: "seq2 = h # t" by (cases seq2) auto
  have ne: "seq1 \<noteq> []" using True by auto
  have "(\<exists>i < length seq1. seq1 ! i = h \<and> rotate i seq1 = seq2) \<longleftrightarrow> (\<exists>n. seq2 = rotate n seq1)"
  proof
    assume "\<exists>n. seq2 = rotate n seq1"
    then obtain n where "seq2 = rotate (n mod length seq1) seq1" by (metis rotate_conv_mod)
    moreover have "n mod length seq1 < length seq1" using ne by simp
    moreover have "hd (rotate (n mod length seq1) seq1) = seq1 ! (n mod length seq1)"
      using hd_rotate_conv_nth [OF ne, of n] rotate_conv_mod [of n seq1] by simp
    ultimately show "\<exists>i < length seq1. seq1 ! i = h \<and> rotate i seq1 = seq2"
      using seq2 by (intro exI [of _ "n mod length seq1"]) (metis list.sel(1))
  qed auto
  moreover have "list_ex (\<lambda>i. take (length seq1) (drop i (seq1 @ seq1)) = seq2)
      (filter (\<lambda>i. seq1 ! i = h) [0..<length seq1]) \<longleftrightarrow>
    (\<exists>i < length seq1. seq1 ! i = h \<and> take (length seq1) (drop i (seq1 @ seq1)) = seq2)"
    by (simp only: list_ex_iff set_filter set_upt) auto
  ultimately have "is_rotated seq1 seq2 = Inr (\<exists>n. seq2 = rotate n seq1)"
    using True take_drop_double [of _ seq1] unfolding is_rotated_def seq2 Let_def
    by (simp del: drop_append take_append cong: conj_cong)
  then show ?thesis using True by simp
qed

section \<open>Gray codes\<close>

lemma gray_xor: "gray_encode i XOR gray_encode j = gray_encode (i XOR j)"
  by (simp add: gray_encode_def drop_bit_xor ac_simps)

lemma xor_successor:
  assumes "0 \<le> (i :: int)"
  shows "\<exists>k. i XOR (i + 1) = 2 ^ (k + 1) - 1"
  using assms
proof (induction "nat i" arbitrary: i rule: less_induct)
  case less
  show ?case
  proof (cases "even i")
    case True
    then have "i XOR (i + 1) = 1" by (simp add: xor_rec [of i "i + 1"])
    then show ?thesis by (intro exI [of _ 0]) simp
  next
    case False
    then obtain j where j: "i = 2 * j + 1" by (rule oddE)
    then have "nat j < nat i" "0 \<le> j" using less.prems by auto
    from less.hyps [OF this] obtain k where k: "j XOR (j + 1) = 2 ^ (k + 1) - 1" by blast
    have "(2 * j + 2) div 2 = j + 1" "(2 * j + 1) div 2 = j" by simp_all
    then have "(2 * j + 1) XOR (2 * j + 2) = 1 + 2 * (j XOR (j + 1))"
      using xor_rec [of "2 * j + 1" "2 * j + 2"] by simp
    then have "i XOR (i + 1) = 1 + 2 * (j XOR (j + 1))" by (simp add: j algebra_simps)
    then show ?thesis by (intro exI [of _ "k + 1"]) (simp add: k)
  qed
qed

lemma gray_mask: "gray_encode (2 ^ (k + 1) - 1) = 2 ^ k"
proof -
  have "gray_encode (mask (k + 1)) = 2 ^ k"
    by (rule bit_eqI) (auto simp: gray_encode_def bit_xor_iff bit_drop_bit_eq bit_exp_iff bit_mask_iff)
  then show ?thesis by (simp only: mask_eq_exp_minus_1)
qed

lemma xor_0_iff: "a XOR b = 0 \<longleftrightarrow> a = (b :: int)"
proof
  assume z: "a XOR b = 0"
  show "a = b"
  proof (rule bit_eqI)
    fix n
    have "\<not> bit (a XOR b) n" by (simp only: z) simp
    then show "bit a n \<longleftrightarrow> bit b n" by (simp add: bit_xor_iff)
  qed
qed simp

lemma gray_0_iff:
  assumes "0 \<le> x"
  shows "gray_encode x = 0 \<longleftrightarrow> x = 0"
proof -
  have "gray_encode x = 0 \<longleftrightarrow> x = x div 2" by (simp only: gray_encode_def xor_0_iff drop_bit_eq_div power_one_right)
  also have "\<dots> \<longleftrightarrow> x = 0" using assms by presburger
  finally show ?thesis .
qed

text \<open>
  Gray codes: injective on the naturals, and consecutive codes differ in one bit.
\<close>

lemma gray_code:
  assumes "0 \<le> i" and "0 \<le> j"
  shows "(gray_encode i = gray_encode j \<longleftrightarrow> i = j) \<and> (\<exists>k. gray_encode i XOR gray_encode (i + 1) = 2 ^ k)"
proof
  have "gray_encode i = gray_encode j \<longleftrightarrow> gray_encode (i XOR j) = 0" by (simp only: xor_0_iff flip: gray_xor)
  also have "\<dots> \<longleftrightarrow> i = j" using assms by (simp add: gray_0_iff xor_0_iff)
  finally show "gray_encode i = gray_encode j \<longleftrightarrow> i = j" .
  show "\<exists>k. gray_encode i XOR gray_encode (i + 1) = 2 ^ k"
    using xor_successor [OF assms(1)] gray_mask by (metis gray_xor)
qed

section \<open>Counting in binary\<close>

fun inc :: "string \<Rightarrow> string" where
  "inc [] = []"
| "inc (c # cs) = (if c = CHR ''0'' then CHR ''1'' # cs else CHR ''0'' # inc cs)"

definition all_ones :: "string \<Rightarrow> bool" where
  "all_ones s \<longleftrightarrow> CHR ''0'' \<notin> set s"

lemma length_inc [simp]: "length (inc s) = length s"
  by (induction s) simp_all

lemma binary_inc: "binary s \<Longrightarrow> binary (inc s)"
  by (induction s) (auto simp: binary_def)

lemma bits_value_rev_Cons: "bits_value (rev (c # cs)) = 2 * bits_value (rev cs) + (if c = CHR ''1'' then 1 else 0)"
  by (simp add: bits_value_append)

lemma bits_value_inc:
  "binary s \<Longrightarrow> if all_ones s then bits_value (rev s) = 2 ^ length s - 1
    else bits_value (rev (inc s)) = bits_value (rev s) + 1"
proof (induction s)
  case (Cons c cs)
  then have "binary cs" "c = CHR ''0'' \<or> c = CHR ''1''" by (auto simp: binary_def)
  then show ?case using Cons.IH
    by (auto simp: all_ones_def bits_value_rev_Cons simp del: rev.simps split: if_splits)
qed (simp add: all_ones_def)

lemma bits_value_inj:
  "binary a \<Longrightarrow> binary b \<Longrightarrow> length a = length b \<Longrightarrow> bits_value a = bits_value b \<Longrightarrow> a = b"
proof (induction a arbitrary: b)
  case (Cons c a)
  obtain e b' where b: "b = e # b'" using Cons.prems(3) by (cases b) auto
  have l: "length a = length b'" using Cons.prems(3) b by simp
  have v: "0 \<le> bits_value a" "bits_value a < 2 ^ length a" "0 \<le> bits_value b'" "bits_value b' < 2 ^ length a"
    using bits_value_bounds [of a] bits_value_bounds [of b'] l by simp_all
  have "c \<in> {CHR ''0'', CHR ''1''}" "e \<in> {CHR ''0'', CHR ''1''}" "binary a" "binary b'"
    using Cons.prems(1,2) b by (auto simp: binary_def)
  moreover have eq: "(if c = CHR ''1'' then 2 ^ length a else 0) + bits_value a =
      (if e = CHR ''1'' then 2 ^ length a else 0) + bits_value b'"
    using Cons.prems(4) unfolding b bits_value.simps l .
  moreover have ce: "c = CHR ''1'' \<longleftrightarrow> e = CHR ''1''"
    using eq v by (cases "c = CHR ''1''"; cases "e = CHR ''1''"; simp)
  ultimately have "bits_value a = bits_value b'" "c = e" by (auto split: if_splits)
  then show ?case using Cons.IH [OF \<open>binary a\<close> \<open>binary b'\<close> l] b by simp
qed simp

lemma toggle_loop_inc:
  assumes "i \<le> bits" and "length v = bits" and "length t = bits + 1" and "t ! i = 1"
    and "\<forall>j. i < j \<and> j \<le> bits \<longrightarrow> t ! j = 0"
  shows "\<exists>t'. toggle_loop bits i v t = (take i v @ inc (drop i v), t') \<and> (t' ! bits = 1 \<longleftrightarrow> all_ones (drop i v))"
  using assms
proof (induction bits i v t rule: toggle_loop.induct)
  case (1 bits i v t)
  show ?case
  proof (cases "i = bits")
    case True
    then show ?thesis using 1(3-) by (simp add: toggle_loop.simps [of bits] all_ones_def)
  next
    case False
    then have i: "i < bits" "i < length v" using 1 by simp_all
    then have d: "drop i v = v ! i # drop (i + 1) v" by (simp add: Cons_nth_drop_Suc)
    have ti: "take (Suc i) (v[i := c]) = take i v @ [c]" for c using i by (simp add: take_Suc_conv_app_nth)
    show ?thesis
    proof (cases "v ! i = CHR ''0''")
      case True
      let ?t = "t[i + 1 := 0]" and ?v = "v[i := CHR ''1'']"
      have "\<not> (i + 1 < bits \<and> ?t ! (i + 1) = 1)" using i 1(5) by simp
      then have "toggle_loop bits (i + 1) ?v ?t = (?v, ?t)" by (subst toggle_loop.simps) auto
      moreover have "?t ! bits = 0" using i 1(5,7) by (auto simp: nth_list_update)
      moreover have "?v = take i v @ CHR ''1'' # drop (i + 1) v" using i by (simp add: upd_conv_take_nth_drop)
      ultimately show ?thesis using True i 1(6) d
        by (subst toggle_loop.simps) (simp add: all_ones_def)
    next
      case False
      let ?t = "t[i + 1 := 1]" and ?v = "v[i := CHR ''0'']"
      have "\<exists>t'. toggle_loop bits (i + 1) ?v ?t = (take (i + 1) ?v @ inc (drop (i + 1) ?v), t') \<and>
          (t' ! bits = 1 \<longleftrightarrow> all_ones (drop (i + 1) ?v))"
        by (rule 1(2)) (use i 1(4-) False in \<open>auto simp: nth_list_update\<close>)
      then show ?thesis using False i 1(6) d
        by (subst toggle_loop.simps) (simp add: ti all_ones_def del: take_update_cancel take_update_swap)
    qed
  qed
qed

lemma binary_loop_counts:
  assumes "binary v" and "length v = bits" and "0 < bits" and "t ! bits \<noteq> 1"
  shows "\<exists>l'. binary_loop bits v t l = Some (l @ l') \<and> length l' = nat (2 ^ bits - bits_value (rev v)) \<and>
    (\<forall>k < length l'. binary (l' ! k) \<and> length (l' ! k) = bits \<and> bits_value (l' ! k) = bits_value (rev v) + int k)"
  using assms
proof (induction "nat (2 ^ bits - bits_value (rev v))" arbitrary: v t l rule: less_induct)
  case less
  let ?x = "bits_value (rev v)"
  have x: "?x < 2 ^ bits" using bits_value_bounds [of "rev v"] less.prems(2) by simp
  have "\<forall>j. 0 < j \<and> j \<le> bits \<longrightarrow> (1 # replicate bits (0 :: nat)) ! j = 0"
    by (auto simp: nth_Cons split: nat.split)
  then obtain t' where t': "toggle_loop bits 0 v (1 # replicate bits 0) = (inc v, t')" "t' ! bits = 1 \<longleftrightarrow> all_ones v"
    using toggle_loop_inc [of 0 bits v "1 # replicate bits 0"] less.prems(2) by auto
  have step: "binary_loop bits v t l = binary_loop bits (inc v) t' (l @ [rev v])"
    using less.prems(4) t'(1) by (subst binary_loop.simps) simp
  have rv: "binary (rev v)" using less.prems(1) by (simp add: binary_def)
  show ?case
  proof (cases "all_ones v")
    case True
    then have "binary_loop bits (inc v) t' (l @ [rev v]) = Some (l @ [rev v])"
      using t'(2) by (subst binary_loop.simps) simp
    moreover have "?x = 2 ^ bits - 1" using bits_value_inc [OF less.prems(1)] True less.prems(2) by simp
    ultimately show ?thesis using step rv less.prems(2) by (intro exI [of _ "[rev v]"]) simp
  next
    case False
    then have inc: "bits_value (rev (inc v)) = ?x + 1" using bits_value_inc [OF less.prems(1)] by simp
    have "nat (2 ^ bits - bits_value (rev (inc v))) < nat (2 ^ bits - ?x)" using inc x by simp
    from less.hyps [OF this binary_inc [OF less.prems(1)] _ less.prems(3), of t' "l @ [rev v]"] False t'(2) less.prems(2)
    obtain l' where l': "binary_loop bits (inc v) t' (l @ [rev v]) = Some ((l @ [rev v]) @ l')"
      "length l' = nat (2 ^ bits - (?x + 1))"
      "\<forall>k < length l'. binary (l' ! k) \<and> length (l' ! k) = bits \<and> bits_value (l' ! k) = ?x + 1 + int k"
      by (auto simp: inc)
    then show ?thesis using step rv less.prems(2) x
      by (intro exI [of _ "rev v # l'"]) (auto simp: nth_Cons split: nat.split)
  qed
qed

text \<open>
  The carry loop of \<open>binary_range\<close> terminates and counts: it lists the \<open>2 ^ bits\<close> strings
  \<open>int2bin\<close> gives for 0, 1, 2 and so on. For width 0 it returns the empty list.
\<close>

theorem binary_range_counts:
  "binary_range 0 = Some [] \<and>
   (0 < bits \<longrightarrow> (\<exists>l. binary_range bits = Some l \<and> length l = 2 ^ bits \<and>
      (\<forall>i < 2 ^ bits. int2bin (int i) (int bits) = Inr (l ! i))))"
proof (intro conjI impI)
  show "binary_range 0 = Some []" by (simp add: binary_range_def binary_loop.simps)
  assume b: "0 < bits"
  obtain l where l: "binary_range bits = Some l" "length l = 2 ^ bits"
    "\<forall>k < 2 ^ bits. binary (l ! k) \<and> length (l ! k) = bits \<and> bits_value (l ! k) = int k"
    using binary_loop_counts [of "replicate bits (CHR ''0'')" bits "1 # replicate bits 0" "[]"] b
    by (auto simp: binary_range_def binary_def nat_power_eq)
  have "int2bin (int i) (int bits) = Inr (l ! i)" if i: "i < 2 ^ bits" for i
  proof -
    have "int i < 2 ^ bits" using i by (metis of_nat_less_iff of_nat_numeral of_nat_power)
    then obtain s where s: "int2bin (int i) (int bits) = Inr s" "length s = bits" "binary s" "bits_value s = int i"
      using int2bin_value [OF b, of "int i"] by auto
    then show ?thesis using l(3) i bits_value_inj [of s "l ! i"] by auto
  qed
  then show "\<exists>l. binary_range bits = Some l \<and> length l = 2 ^ bits \<and>
      (\<forall>i < 2 ^ bits. int2bin (int i) (int bits) = Inr (l ! i))" using l by blast
qed

lemma binary_range_counts_witness:
  "\<exists>l. binary_range 3 = Some l \<and> length l = 8 \<and> int2bin 5 3 = Inr (l ! 5)"
proof -
  obtain l where "binary_range 3 = Some l" "length l = 2 ^ 3" "\<forall>i < 2 ^ 3. int2bin (int i) (int 3) = Inr (l ! i)"
    using binary_range_counts [of 3] by auto
  then show ?thesis by (auto dest: spec [of _ "5 :: nat"])
qed

lemma fractions_reduced_witness:
  "reduce_fraction (14, - 4) = Inr (7, - 2) \<and> coprime (7 :: int) (- 2)"
proof -
  have "gcd (14 :: int) 4 = 2" by code_simp
  then show ?thesis using fractions_reduced [of 14 "- 4"] by simp
qed

section \<open>Lists without duplicates, common ends\<close>

lemma first_seen_facts:
  "set (first_seen d xs) = set xs - set d \<and> distinct (first_seen d xs)"
  by (induction d xs rule: first_seen.induct) auto

lemma fold_update_keys:
  "distinct (map fst d) \<Longrightarrow> distinct (map fst (fold (\<lambda>x. AList.update x v) xs d)) \<and>
   set (map fst (fold (\<lambda>x. AList.update x v) xs d)) = set (map fst d) \<union> set xs"
proof (induction xs arbitrary: d)
  case (Cons x xs)
  have "set (map fst (AList.update x v d)) = insert x (set (map fst d))" by (simp add: dom_update)
  then show ?case using Cons.IH [of "AList.update x v d"] Cons.prems by (simp add: distinct_update)
qed simp

lemma uniquify_set:
  assumes "\<And>xs. mset (order xs) = mset xs"
  shows "set (uniquify order s p) = set s \<and> distinct (uniquify order s p)"
proof (cases p)
  case True
  then show ?thesis using first_seen_facts [of "[]" s] by (simp add: uniquify_def)
next
  case False
  let ?keys = "map fst (fold (\<lambda>x. AList.update x (0 :: int)) s [])"
  have "set ?keys = set s" "distinct ?keys" using fold_update_keys [of "[]" "0 :: int" s] by simp_all
  moreover have "set (order ?keys) = set ?keys" "distinct (order ?keys) = distinct ?keys"
    using assms mset_eq_setD mset_eq_imp_distinct_iff by blast+
  ultimately show ?thesis using False by (simp add: uniquify_def)
qed

lemma common_prefix_longest:
  "prefix p (common_prefix xs ys) \<longleftrightarrow> prefix p xs \<and> prefix p ys"
  by (induction xs ys arbitrary: p rule: common_prefix.induct) (auto simp: prefix_Cons)

text \<open>The two fixes are the longest ones, each for itself: on equal strings both are the whole string.\<close>

lemma find_common_fixes_longest:
  "(prefix p (fst (find_common_fixes s1 s2)) \<longleftrightarrow> prefix p s1 \<and> prefix p s2) \<and>
   (suffix p (snd (find_common_fixes s1 s2)) \<longleftrightarrow> suffix p s1 \<and> suffix p s2)"
  by (simp add: find_common_fixes_def common_prefix_longest suffix_to_prefix)

lemma transpose_rectangular:
  assumes "matrix \<noteq> []" and "\<forall>r \<in> set matrix. length r = n"
  shows "transpose_py matrix = map (\<lambda>j. map (\<lambda>r. r ! j) matrix) [0..<n]"
proof -
  obtain r rs where m: "matrix = r # rs" using assms(1) by (cases matrix) auto
  have "foldl (\<lambda>n r. min n (length r)) n rs = n" if "\<forall>r \<in> set rs. length r = n" for rs
    using that by (induction rs) simp_all
  from this [of rs] show ?thesis using m assms(2) by (simp add: transpose_py_def)
qed

lemma transpose_twice:
  assumes "matrix \<noteq> []" and "\<forall>r \<in> set matrix. length r = n" and "0 < n"
  shows "transpose_py (transpose_py matrix) = matrix"
proof -
  let ?t = "map (\<lambda>j. map (\<lambda>r. r ! j) matrix) [0..<n]"
  have "transpose_py ?t = map (\<lambda>i. map (\<lambda>c. c ! i) ?t) [0..<length matrix]"
    by (rule transpose_rectangular) (use assms(3) in auto)
  also have "\<dots> = matrix"
    by (rule nth_equalityI) (use assms(2) in \<open>auto intro!: nth_equalityI\<close>)
  finally show ?thesis using transpose_rectangular [OF assms(1,2)] by simp
qed

text \<open>
  \<open>round_grid\<close> fails in the directed modes on a value of the grid, and truncates towards zero,
  so that a negative value is rounded up twice: -7.5 on a grid of 5 becomes 0.
\<close>

lemma round_grid_defects:
  "round_grid 10 5 1 = Inl (NameError ''add_one'') \<and> round_grid 10 5 (- 1) = Inl (NameError ''add_one'') \<and>
   round_grid (- 15 / 2) 5 0 = Inr 0"
  by code_simp

end
