(* ===== verification/TopSort.thy ===== *)
theory TopSort
  imports RadUtil "HOL-Library.List_Lexorder" "HOL-Library.Char_ord"
begin

text \<open>
  \<open>bindings/python/topsort.py\<close>: sorting items by their dependencies, in one list or in levels, and
  finding the cycles of a dependency graph; and the part of \<open>ns3modulescan.py\<close> that orders the
  modules of the build with it. A dictionary is an association list; the interpreter chooses
  the order in which it lists the keys, so the functions that depend on it take it as the argument
  \<open>order\<close>.
\<close>

section \<open>Counting parents, collecting children\<close>

type_synonym 'a counts = "('a \<times> int) list"
type_synonym 'a children = "('a \<times> 'a list) list"

definition CycleError :: py_error where
  "CycleError = GenericException ''CycleError''"

definition set_default :: "'a \<Rightarrow> int \<Rightarrow> 'a counts \<Rightarrow> 'a counts" where
  "set_default x v d = (if map_of d x = None then AList.update x v d else d)"

definition count_of :: "'a counts \<Rightarrow> 'a \<Rightarrow> int" where
  "count_of d x = (case map_of d x of None \<Rightarrow> 0 | Some n \<Rightarrow> n)"

definition children_of :: "'a children \<Rightarrow> 'a \<Rightarrow> 'a list" where
  "children_of d x = (case map_of d x of None \<Rightarrow> [] | Some cs \<Rightarrow> cs)"

definition count_pair :: "'a \<times> 'a \<Rightarrow> 'a counts \<times> 'a children \<Rightarrow> 'a counts \<times> 'a children" where
  "count_pair pair s =
     (case pair of (parent, child) \<Rightarrow> case s of (num_parents, children) \<Rightarrow>
      let n = set_default child 0 (set_default parent 0 num_parents) in
      (AList.update child (count_of n child + 1) n,
       AList.update parent (children_of children parent @ [child]) children))"

definition build :: "('a \<times> 'a) list \<Rightarrow> 'a counts \<times> 'a children" where
  "build pairlist = fold count_pair pairlist ([], [])"

section \<open>One list\<close>

text \<open>
  One pass over the children of a parent: every count goes down by one, and a child whose count
  reaches zero joins the answer. A missing key raises.
\<close>

fun decrement :: "'a list \<Rightarrow> 'a counts \<Rightarrow> ('a counts \<times> 'a list) result" where
  "decrement [] d = Inr (d, [])"
| "decrement (c # cs) d =
     (case map_of d c of
        None \<Rightarrow> Inl KeyError
      | Some n \<Rightarrow>
          (case decrement cs (AList.update c (n - 1) d) of
             Inl e \<Rightarrow> Inl e
           | Inr (d', new) \<Rightarrow> Inr (d', (if n - 1 = 0 then [c] else []) @ new)))"

lemma length_update: "map_of d x = Some n \<Longrightarrow> length (AList.update x v d) = length d"
  by (induction d) (auto split: if_splits)

lemma decrement_length: "decrement cs d = Inr (d', new) \<Longrightarrow> length d' = length d"
  by (induction cs arbitrary: d d' new) (auto simp: length_update split: option.splits sum.splits)

lemma length_delete: "map_of d x = Some n \<Longrightarrow> length (AList.delete x d) < length d"
  by (induction d) (auto simp: AList.delete_eq less_Suc_eq_le length_filter_le split: if_splits)

text \<open>
  The answer grows while the loop runs over it: \<open>done\<close> is the part already passed and \<open>todo\<close> the rest.
\<close>

function topsort_loop ::
  "'a counts \<Rightarrow> 'a children \<Rightarrow> 'a list \<Rightarrow> 'a list \<Rightarrow> ('a list \<times> 'a counts \<times> 'a children) result" where
  "topsort_loop num_parents children before [] = Inr (before, num_parents, children)"
| "topsort_loop num_parents children before (parent # todo) =
     (case map_of num_parents parent of
        None \<Rightarrow> Inl KeyError
      | Some n \<Rightarrow>
          (case decrement (children_of children parent) (AList.delete parent num_parents) of
             Inl e \<Rightarrow> Inl e
           | Inr (d, new) \<Rightarrow>
               topsort_loop d (AList.delete parent children) (before @ [parent]) (todo @ new)))"
  by pat_completeness auto

termination
  by (relation "measure (\<lambda>(d, c, b, t). length d)") (auto dest!: decrement_length length_delete)

declare topsort_loop.simps(2) [simp del]

definition topsort :: "('a list \<Rightarrow> 'a list) \<Rightarrow> ('a \<times> 'a) list \<Rightarrow> 'a list result" where
  "topsort order pairlist =
     (case build pairlist of (num_parents, children) \<Rightarrow>
      ebind (topsort_loop num_parents children []
          (filter (\<lambda>x. count_of num_parents x = 0) (order (map fst num_parents))))
        (\<lambda>(answer, num_parents, children).
           if num_parents \<noteq> [] then Inl CycleError else Inr answer))"

section \<open>Levels\<close>

fun level_loop :: "'a list \<Rightarrow> 'a counts \<Rightarrow> 'a children \<Rightarrow> ('a counts \<times> 'a children) result" where
  "level_loop [] d ch = Inr (d, ch)"
| "level_loop (p # ps) d ch =
     (case map_of d p of
        None \<Rightarrow> Inl KeyError
      | Some n \<Rightarrow>
          (case decrement (children_of ch p) (AList.delete p d) of
             Inl e \<Rightarrow> Inl e
           | Inr (d', _) \<Rightarrow> level_loop ps d' (AList.delete p ch)))"

lemma level_loop_length: "level_loop ps d ch = Inr (d', ch') \<Longrightarrow> length d' + length ps \<le> length d"
proof (induction ps arbitrary: d ch)
  case (Cons p ps)
  then obtain n d1 new where "map_of d p = Some n" "decrement (children_of ch p) (AList.delete p d) = Inr (d1, new)"
    and "level_loop ps d1 (AList.delete p ch) = Inr (d', ch')"
    by (auto split: option.splits sum.splits)
  then show ?case using Cons.IH length_delete [of d p n] decrement_length by fastforce
qed simp

text \<open>The generator: the levels it yields, and how it ends.\<close>

function topsort_levels_core ::
  "('a list \<Rightarrow> 'a list) \<Rightarrow> 'a counts \<Rightarrow> 'a children \<Rightarrow> 'a list list \<times> py_error option" where
  "topsort_levels_core order num_parents children =
     (let level_parents = filter (\<lambda>x. count_of num_parents x = 0) (order (map fst num_parents)) in
      if level_parents = [] then ([], if num_parents \<noteq> [] then Some CycleError else None)
      else
        (case level_loop level_parents num_parents children of
           Inl e \<Rightarrow> ([level_parents], Some e)
         | Inr (d, ch) \<Rightarrow>
             (case topsort_levels_core order d ch of (ls, e) \<Rightarrow> (level_parents # ls, e))))"
  by pat_completeness auto

termination
proof (relation "measure (\<lambda>(order, d, ch). length d)", goal_cases)
  case (2 order d ch ps x d' ch')
  then have "length d' + length ps \<le> length d" by (intro level_loop_length) auto
  moreover have "0 < length ps" using 2 by simp
  ultimately show ?case by (simp del: length_greater_0_conv)
qed simp

declare topsort_levels_core.simps [simp del]

definition topsort_levels :: "('a list \<Rightarrow> 'a list) \<Rightarrow> ('a \<times> 'a) list \<Rightarrow> 'a list list \<times> py_error option" where
  "topsort_levels order pairlist =
     (case build pairlist of (num_parents, children) \<Rightarrow> topsort_levels_core order num_parents children)"

section \<open>Cycles\<close>

text \<open>
  \<open>find_cycles\<close>: a stack of paths. For every child of the last node of a path, a child on the path
  closes a cycle, which is reported unless it is a rotation of an earlier one; any other child
  extends the path.
\<close>

fun index_of :: "'a \<Rightarrow> 'a list \<Rightarrow> nat" where
  "index_of x [] = 0"
| "index_of x (y # ys) = (if x = y then 0 else index_of x ys + 1)"

fun is_dup :: "'a list list \<Rightarrow> 'a list \<Rightarrow> bool result" where
  "is_dup [] c = Inr False"
| "is_dup (o' # os) c = ebind (is_rotated o' c) (\<lambda>b. if b then Inr True else is_dup os c)"

fun visit_children ::
  "'a list \<Rightarrow> 'a list \<Rightarrow> 'a list list \<times> 'a list list \<times> 'a list \<Rightarrow>
   ('a list list \<times> 'a list list \<times> 'a list) result" where
  "visit_children path [] s = Inr s"
| "visit_children path (child # cs) (paths, cycles, visited) =
     (if child \<in> set path then
        (let cycle = drop (index_of child path) path in
         case is_dup cycles cycle of
           Inl e \<Rightarrow> Inl e
         | Inr b \<Rightarrow> visit_children path cs (paths, cycles @ (if b then [] else [cycle]), visited))
      else visit_children path cs (paths @ [path @ [child]], cycles, child # visited))"

definition graph_nodes :: "'a children \<Rightarrow> 'a set" where
  "graph_nodes g = (\<Union>(p, cs) \<in> set g. insert p (set cs))"

definition path_size :: "'a children \<Rightarrow> 'a list \<Rightarrow> nat" where
  "path_size g path = card (graph_nodes g - set path)"

definition explore_step ::
  "'a children \<Rightarrow> 'a list list \<times> 'a list list \<times> 'a list \<Rightarrow> ('a list list \<times> 'a list list \<times> 'a list) result" where
  "explore_step g s =
     (case s of (paths, cycles, visited) \<Rightarrow>
      let path = last paths in
      if path = [] then Inl IndexError
      else case map_of g (last path) of
        None \<Rightarrow> Inr (butlast paths, cycles, visited)
      | Some cs \<Rightarrow> visit_children path cs (butlast paths, cycles, visited))"

lemma finite_graph_nodes: "finite (graph_nodes g)"
  by (auto simp: graph_nodes_def)

lemma child_in_nodes: "map_of g p = Some cs \<Longrightarrow> c \<in> set cs \<Longrightarrow> c \<in> graph_nodes g"
  by (force simp: graph_nodes_def dest: map_of_SomeD)

lemma path_size_less:
  "c \<in> graph_nodes g \<Longrightarrow> c \<notin> set path \<Longrightarrow> path_size g (path @ [c]) < path_size g path"
  unfolding path_size_def by (intro psubset_card_mono) (auto simp: finite_graph_nodes)

lemma visit_children_paths:
  "visit_children path cs (ps, cy, vi) = Inr (ps', cy', vi') \<Longrightarrow>
     ps' = ps @ map (\<lambda>c. path @ [c]) (filter (\<lambda>c. c \<notin> set path) cs)"
proof (induction cs arbitrary: ps cy vi)
  case (Cons c cs)
  then show ?case
    using Cons.IH [of "ps @ [path @ [c]]" cy "c # vi"] Cons.IH [of ps _ vi]
    by (auto simp: Let_def split: if_splits sum.splits)
qed simp

lemma explore_step_mult:
  assumes "explore_step g (paths, cycles, visited) = Inr (paths', cycles', visited')" and "paths \<noteq> []"
  shows "(mset (map (path_size g) paths'), mset (map (path_size g) paths)) \<in> mult less_than"
proof -
  let ?path = "last paths"
  have m: "mset (map (path_size g) paths) = mset (map (path_size g) (butlast paths)) + {#path_size g ?path#}"
    using arg_cong [OF append_butlast_last_id [OF assms(2)], of "\<lambda>ps. mset (map (path_size g) ps)"] by simp
  obtain new where p: "paths' = butlast paths @ new"
    and new: "\<forall>p \<in> set new. path_size g p < path_size g ?path"
    using assms by (auto simp: explore_step_def Let_def child_in_nodes path_size_less
      dest!: visit_children_paths split: if_splits option.splits)
  have "mset (map (path_size g) paths') = mset (map (path_size g) (butlast paths)) + mset (map (path_size g) new)"
    by (simp add: p)
  moreover have "(mset (map (path_size g) (butlast paths)) + mset (map (path_size g) new),
      mset (map (path_size g) (butlast paths)) + {#path_size g ?path#}) \<in> mult less_than"
    by (rule one_step_implies_mult) (use new in auto)
  ultimately show ?thesis using m by simp
qed

function explore ::
  "'a children \<Rightarrow> 'a list list \<times> 'a list list \<times> 'a list \<Rightarrow> ('a list list \<times> 'a list) result" where
  "explore g (paths, cycles, visited) =
     (if paths = [] then Inr (cycles, visited)
      else case explore_step g (paths, cycles, visited) of
        Inl e \<Rightarrow> Inl e
      | Inr s \<Rightarrow> explore g s)"
  by pat_completeness auto

termination
proof (relation "inv_image (mult less_than) (\<lambda>(g, paths, c, v). mset (map (path_size g) paths))", goal_cases)
  case 1
  then show ?case by (intro wf_inv_image wf_mult) simp
next
  case (2 g paths cycles visited s)
  then show ?case using explore_step_mult by (cases s) fastforce
qed

declare explore.simps [simp del]

text \<open>The roots are the keys in the order of the interpreter; one already on a path is skipped.\<close>

fun find_from :: "'a children \<Rightarrow> 'a list \<Rightarrow> 'a list list \<times> 'a list \<Rightarrow> ('a list list \<times> 'a list) result" where
  "find_from g [] s = Inr s"
| "find_from g (parent # ps) (cycles, visited) =
     (if parent \<in> set visited then find_from g ps (cycles, visited)
      else ebind (explore g ([[parent]], cycles, visited)) (find_from g ps))"

definition find_cycles :: "('a list \<Rightarrow> 'a list) \<Rightarrow> 'a children \<Rightarrow> 'a list list result" where
  "find_cycles order g = ebind (find_from g (order (map fst g)) ([], [])) (\<lambda>(cycles, _). Inr cycles)"

section \<open>The order of the modules\<close>

text \<open>
  \<open>ns3_module_scan\<close> reads a dictionary from module names to their dependencies and headers. Names
  are sorted, every dependency gives a pair, and the position in the sorted list is the
  precedence of the module's section.
  The names are sorted in place, as Python 2 lets one; in Python 3, \<open>keys()\<close> has no
  \<open>sort\<close>, so that the function raises before it does anything.
\<close>

definition module_graph :: "(string \<times> string list \<times> string list) list \<Rightarrow> (string \<times> string) list" where
  "module_graph mods =
     concat (map (\<lambda>m. map (\<lambda>dep. (dep, m)) (sort (fst (the (map_of mods m))))) (sort (map fst mods)))"

definition section_name :: "string \<Rightarrow> string" where
  "section_name m = ''ns3_module_'' @ map (\<lambda>c. if c = CHR ''-'' then CHR ''_'' else c) m"

fun scan_sections ::
  "(string \<times> string list \<times> string list) list \<Rightarrow> nat \<Rightarrow> string list \<Rightarrow>
   (string \<rightharpoonup> string) \<Rightarrow> (string \<rightharpoonup> nat) \<Rightarrow> ((string \<rightharpoonup> string) \<times> (string \<rightharpoonup> nat)) result" where
  "scan_sections mods prec [] headers_map precedences = Inr (headers_map, precedences)"
| "scan_sections mods prec (m # ms) headers_map precedences =
     (case map_of mods m of
        None \<Rightarrow> Inl KeyError
      | Some (_, headers) \<Rightarrow>
          scan_sections mods (prec + 1) ms (fold (\<lambda>h hm. hm(h \<mapsto> section_name m)) headers headers_map)
            (precedences(section_name m \<mapsto> prec)))"

definition ns3_module_scan ::
  "(string list \<Rightarrow> string list) \<Rightarrow> (string \<times> string list \<times> string list) list \<Rightarrow>
   ((string \<rightharpoonup> string) \<times> (string \<rightharpoonup> nat)) result" where
  "ns3_module_scan order mods =
     ebind (topsort order (module_graph mods)) (\<lambda>ms. scan_sections mods 0 ms Map.empty Map.empty)"


section \<open>What the dictionaries hold\<close>

text \<open>
  The items of the pairs, the children of an item in order, and the number of pairs that still
  stand between an item and the answer when the items of a set \<open>D\<close> have been taken out.
\<close>

definition items :: "('a \<times> 'a) list \<Rightarrow> 'a set" where
  "items ps = fst ` set ps \<union> snd ` set ps"

definition kids :: "('a \<times> 'a) list \<Rightarrow> 'a \<Rightarrow> 'a list" where
  "kids ps p = map snd (filter (\<lambda>q. fst q = p) ps)"

definition deg :: "('a \<times> 'a) list \<Rightarrow> 'a set \<Rightarrow> 'a \<Rightarrow> int" where
  "deg ps D x = int (length (filter (\<lambda>q. snd q = x \<and> fst q \<notin> D) ps))"

definition represents :: "('a \<times> 'a) list \<Rightarrow> 'a set \<Rightarrow> 'a counts \<Rightarrow> 'a children \<Rightarrow> bool" where
  "represents ps D d ch \<longleftrightarrow> distinct (map fst d) \<and>
     (\<forall>x. map_of d x = (if x \<in> items ps - D then Some (deg ps D x) else None)) \<and>
     (\<forall>x. x \<notin> D \<longrightarrow> children_of ch x = kids ps x)"

definition closed_under :: "('a \<times> 'a) list \<Rightarrow> 'a set \<Rightarrow> bool" where
  "closed_under ps D \<longleftrightarrow> (\<forall>(p, c) \<in> set ps. c \<in> D \<longrightarrow> p \<in> D)"

lemma finite_items [simp]: "finite (items ps)"
  by (simp add: items_def)

lemma deg_nonneg: "0 \<le> deg ps D x"
  by (simp add: deg_def)

lemma deg_0_iff: "deg ps D x = 0 \<longleftrightarrow> (\<forall>p. (p, x) \<in> set ps \<longrightarrow> p \<in> D)"
  by (auto simp: deg_def filter_empty_conv)

lemma count_list_map_filter: "count_list (map f (filter P xs)) y = length (filter (\<lambda>x. P x \<and> f x = y) xs)"
  by (induction xs) auto

lemma deg_insert:
  assumes "p \<notin> D"
  shows "deg ps (insert p D) x = deg ps D x - int (count_list (kids ps p) x)"
proof -
  have "length (filter (\<lambda>q. snd q = x \<and> fst q \<notin> D) ps) =
      length (filter (\<lambda>q. snd q = x \<and> fst q \<notin> insert p D) ps) + length (filter (\<lambda>q. fst q = p \<and> snd q = x) ps)"
    using assms by (induction ps) auto
  then show ?thesis by (simp add: deg_def kids_def count_list_map_filter)
qed

lemma set_default_map: "map_of (set_default x v d) = (if map_of d x = None then (map_of d)(x \<mapsto> v) else map_of d)"
  by (simp add: set_default_def update_conv')

lemma set_default_distinct: "distinct (map fst d) \<Longrightarrow> distinct (map fst (set_default x v d))"
  by (simp add: set_default_def distinct_update)

lemma children_of_update: "children_of (AList.update p cs ch) x = (if x = p then cs else children_of ch x)"
  by (simp add: children_of_def update_conv')

lemma build_represents: "case build ps of (d, ch) \<Rightarrow> represents ps {} d ch"
proof (induction ps rule: rev_induct)
  case Nil
  then show ?case by (simp add: build_def represents_def items_def children_of_def kids_def)
next
  case (snoc q ps)
  obtain d ch where b: "build ps = (d, ch)" by (metis surj_pair)
  obtain p c where q: "q = (p, c)" by (metis surj_pair)
  from snoc b have r: "distinct (map fst d)" "\<And>x. map_of d x = (if x \<in> items ps then Some (deg ps {} x) else None)"
    "\<And>x. children_of ch x = kids ps x" by (simp_all add: represents_def)
  let ?d = "set_default c 0 (set_default p 0 d)"
  have z: "deg ps {} x = 0" if "x \<notin> items ps" for x
    using that by (force simp: deg_0_iff items_def)
  have d: "map_of ?d x = (if x \<in> items (ps @ [q]) then Some (deg ps {} x) else None)" for x
    using r(2) z by (auto simp: set_default_map q items_def)
  have "distinct (map fst ?d)" using r(1) by (simp add: set_default_distinct)
  moreover have "deg (ps @ [q]) {} x = deg ps {} x + (if x = c then 1 else 0)" for x
    by (simp add: deg_def q)
  moreover have "kids (ps @ [q]) x = kids ps x @ (if x = p then [c] else [])" for x
    by (simp add: kids_def q)
  moreover have "c \<in> items (ps @ [q])" by (simp add: items_def q)
  ultimately have "represents (ps @ [q]) {} (AList.update c (count_of ?d c + 1) ?d) (AList.update p (children_of ch p @ [c]) ch)"
    using d r(3) by (simp add: represents_def distinct_update update_conv' children_of_update count_of_def)
  then show ?case using b by (simp add: build_def count_pair_def q Let_def)
qed

section \<open>Taking one item out\<close>

lemma decrement_ok:
  assumes "\<forall>c \<in> set cs. \<exists>n. map_of d c = Some n \<and> int (count_list cs c) \<le> n"
  shows "\<exists>d' new. decrement cs d = Inr (d', new) \<and> map fst d' = map fst d \<and>
    (\<forall>x. map_of d' x = map_option (\<lambda>n. n - int (count_list cs x)) (map_of d x)) \<and>
    distinct new \<and> set new = {c \<in> set cs. map_of d c = Some (int (count_list cs c))}"
  using assms
proof (induction cs arbitrary: d)
  case Nil
  then show ?case by (simp add: option.map_ident)
next
  case (Cons c cs)
  obtain n where n: "map_of d c = Some n" "int (count_list cs c) + 1 \<le> n" using Cons.prems by auto
  let ?d = "AList.update c (n - 1) d"
  have keys: "map fst ?d = map fst d" using n(1) by (force simp: update_keys dest: map_of_SomeD)
  have m: "map_of ?d x = (if x = c then Some (n - 1) else map_of d x)" for x by (simp add: update_conv')
  have "\<forall>c' \<in> set cs. \<exists>n. map_of ?d c' = Some n \<and> int (count_list cs c') \<le> n"
    using Cons.prems n by (auto simp: m split: if_splits)
  from Cons.IH [OF this] obtain d' new where IH: "decrement cs ?d = Inr (d', new)" "map fst d' = map fst ?d"
    "\<forall>x. map_of d' x = map_option (\<lambda>n. n - int (count_list cs x)) (map_of ?d x)"
    "distinct new" "set new = {c \<in> set cs. map_of ?d c = Some (int (count_list cs c))}" by blast
  let ?new = "(if n - 1 = 0 then [c] else []) @ new"
  have c: "c \<in> set cs \<longleftrightarrow> count_list cs c \<noteq> 0" by (simp add: count_list_0_iff)
  have new: "x \<in> set new \<longleftrightarrow> x \<in> set cs \<and> map_of ?d x = Some (int (count_list cs x))" for x
    unfolding IH(5) by simp
  have set: "set ?new = {x \<in> set (c # cs). map_of d x = Some (int (count_list (c # cs) x))}"
  proof (rule set_eqI)
    fix x
    show "x \<in> set ?new \<longleftrightarrow> x \<in> {x \<in> set (c # cs). map_of d x = Some (int (count_list (c # cs) x))}"
    proof (cases "x = c")
      case True
      have "c \<in> set ?new \<longleftrightarrow> n = int (count_list cs c) + 1"
        using c n(2) unfolding set_append Un_iff new m by auto
      then show ?thesis using True n(1) by (simp add: algebra_simps)
    next
      case False
      then show ?thesis unfolding set_append Un_iff new m by simp
    qed
  qed
  have "distinct ?new" using IH(4) c n(2) new [of c] by auto
  moreover have "\<forall>x. map_of d' x = map_option (\<lambda>n. n - int (count_list (c # cs) x)) (map_of d x)"
    using IH(3) n by (auto simp: m)
  moreover have "decrement (c # cs) d = Inr (d', ?new)" using n(1) IH(1) by simp
  moreover have "map fst d' = map fst d" using IH(2) keys by simp
  ultimately show ?case using set by blast
qed

lemma take_out:
  assumes "represents ps D d ch" and "closed_under ps D" and "p \<in> items ps - D" and "deg ps D p = 0"
  shows "\<exists>d' new. map_of d p = Some 0 \<and>
    decrement (children_of ch p) (AList.delete p d) = Inr (d', new) \<and>
    represents ps (insert p D) d' (AList.delete p ch) \<and> closed_under ps (insert p D) \<and> distinct new \<and>
    set new = {c \<in> items ps - insert p D. deg ps (insert p D) c = 0 \<and> deg ps D c \<noteq> 0}"
proof -
  have r: "distinct (map fst d)" "\<And>x. map_of d x = (if x \<in> items ps - D then Some (deg ps D x) else None)"
    "\<And>x. x \<notin> D \<Longrightarrow> children_of ch x = kids ps x" using assms(1) by (simp_all add: represents_def)
  have p: "p \<notin> D" "children_of ch p = kids ps p" "map_of d p = Some 0" using assms(3,4) r by simp_all
  let ?d = "AList.delete p d"
  have m: "map_of ?d x = (if x \<in> items ps - insert p D then Some (deg ps D x) else None)" for x
    using r(2) by (simp add: delete_conv')
  have kid: "c \<in> items ps - insert p D \<and> int (count_list (kids ps p) c) \<le> deg ps D c" if "c \<in> set (kids ps p)" for c
  proof -
    have pc: "(p, c) \<in> set ps" using that by (auto simp: kids_def)
    then have "c \<notin> D" using assms(2) p(1) by (auto simp: closed_under_def)
    moreover have "c \<noteq> p" using assms(4) pc p(1) by (auto simp: deg_0_iff)
    moreover have "c \<in> items ps" using pc by (force simp: items_def)
    ultimately show ?thesis using deg_insert [OF p(1), of ps c] deg_nonneg [of ps "insert p D" c] by simp
  qed
  then have "\<forall>c \<in> set (kids ps p). \<exists>n. map_of ?d c = Some n \<and> int (count_list (kids ps p) c) \<le> n"
    by (simp add: m)
  from decrement_ok [OF this] obtain d' new where d': "decrement (kids ps p) ?d = Inr (d', new)"
    "map fst d' = map fst ?d" "\<forall>x. map_of d' x = map_option (\<lambda>n. n - int (count_list (kids ps p) x)) (map_of ?d x)"
    and new: "distinct new" "set new = {c \<in> set (kids ps p). map_of ?d c = Some (int (count_list (kids ps p) c))}"
    by blast
  have "distinct (map fst ?d)" using r(1) by (rule distinct_delete)
  moreover have "children_of (AList.delete p ch) x = kids ps x" if "x \<notin> insert p D" for x
    using r(3) that by (simp add: children_of_def delete_conv')
  ultimately have "represents ps (insert p D) d' (AList.delete p ch)"
    using d'(2,3) deg_insert [OF p(1), of ps] by (auto simp: represents_def m)
  moreover have "closed_under ps (insert p D)"
    using assms(2,4) by (auto simp: closed_under_def deg_0_iff)
  moreover have "set new = {c \<in> items ps - insert p D. deg ps (insert p D) c = 0 \<and> deg ps D c \<noteq> 0}"
  proof -
    have "c \<in> set (kids ps p) \<longleftrightarrow> count_list (kids ps p) c \<noteq> 0" for c by (simp add: count_list_0_iff)
    then show ?thesis using kid deg_insert [OF p(1), of ps] unfolding new(2) m by auto
  qed
  ultimately show ?thesis using d'(1) new(1) p by auto
qed


section \<open>The loop\<close>

text \<open>Parents come before their children.\<close>

definition parents_first :: "('a \<times> 'a) list \<Rightarrow> 'a list \<Rightarrow> bool" where
  "parents_first ps xs \<longleftrightarrow> (\<forall>(p, c) \<in> set ps. \<forall>as bs. xs = as @ c # bs \<longrightarrow> p \<in> set as)"

definition ready_items :: "('a \<times> 'a) list \<Rightarrow> 'a set \<Rightarrow> 'a set" where
  "ready_items ps D = {x \<in> items ps - D. deg ps D x = 0}"

lemma parents_first_snoc:
  assumes "parents_first ps xs" and "deg ps (set xs) x = 0"
  shows "parents_first ps (xs @ [x])"
proof -
  have "p \<in> set as" if "(p, c) \<in> set ps" "xs @ [x] = as @ c # bs" for p c as bs
  proof (cases bs rule: rev_cases)
    case Nil
    then show ?thesis using assms(2) that by (auto simp: deg_0_iff)
  next
    case (snoc bs' b)
    then show ?thesis using assms(1) that by (auto simp: parents_first_def)
  qed
  then show ?thesis by (auto simp: parents_first_def)
qed

lemma topsort_loop_ok:
  assumes "represents ps (set before) d ch" and "closed_under ps (set before)" and "distinct (before @ todo)"
    and "set before \<subseteq> items ps" and "set todo = ready_items ps (set before)" and "parents_first ps before"
  shows "\<exists>xs d' ch'. topsort_loop d ch before todo = Inr (xs, d', ch') \<and> represents ps (set xs) d' ch' \<and>
    distinct xs \<and> set xs \<subseteq> items ps \<and> ready_items ps (set xs) = {} \<and> parents_first ps xs"
  using assms
proof (induction "length d" arbitrary: d ch before todo rule: less_induct)
  case less
  show ?case
  proof (cases todo)
    case Nil
    then show ?thesis using less.prems by auto
  next
    case (Cons p rest)
    have p: "p \<in> items ps - set before" "deg ps (set before) p = 0"
      using less.prems(5) Cons by (auto simp: ready_items_def)
    from take_out [OF less.prems(1,2) p] obtain d' new where t: "map_of d p = Some 0"
      "decrement (children_of ch p) (AList.delete p d) = Inr (d', new)"
      "represents ps (insert p (set before)) d' (AList.delete p ch)" "closed_under ps (insert p (set before))"
      "distinct new" "set new = {c \<in> items ps - insert p (set before).
        deg ps (insert p (set before)) c = 0 \<and> deg ps (set before) c \<noteq> 0}" by blast
    have set: "set (before @ [p]) = insert p (set before)" by simp
    have "deg ps (insert p (set before)) x \<le> deg ps (set before) x" for x
      using deg_insert [of p "set before" ps x] p(1) by simp
    then have mono: "deg ps (insert p (set before)) x = 0" if "deg ps (set before) x = 0" for x
      using that deg_nonneg [of ps "insert p (set before)" x] by (metis order_antisym)
    have len: "length d' < length d" using decrement_length [OF t(2)] length_delete [OF t(1)] by simp
    have dist: "distinct ((before @ [p]) @ rest @ new)"
      using less.prems(3,5) Cons t(5,6) by (auto simp: ready_items_def)
    have rdy: "set (rest @ new) = ready_items ps (set (before @ [p]))"
      using less.prems(3,5) Cons t(6) mono unfolding set by (auto simp: ready_items_def)
    have sub: "set (before @ [p]) \<subseteq> items ps" using less.prems(4) p(1) by simp
    have pf: "parents_first ps (before @ [p])" using less.prems(6) p(2) by (rule parents_first_snoc)
    have "\<exists>xs d2 ch2. topsort_loop d' (AList.delete p ch) (before @ [p]) (rest @ new) = Inr (xs, d2, ch2) \<and>
        represents ps (set xs) d2 ch2 \<and> distinct xs \<and> set xs \<subseteq> items ps \<and> ready_items ps (set xs) = {} \<and> parents_first ps xs"
      by (rule less.hyps [OF len _ _ dist sub rdy pf]) (use t(3,4) set in simp_all)
    then show ?thesis using Cons t(1,2) by (simp add: topsort_loop.simps)
  qed
qed

lemma minimal_ready:
  assumes "acyclic (set ps)" and "x \<in> items ps" and "x \<notin> D"
  shows "ready_items ps D \<noteq> {}"
proof -
  have "wf (set ps)" using assms(1) by (intro finite_acyclic_wf) simp_all
  then obtain z where z: "z \<in> items ps - D" "\<forall>y. (y, z) \<in> set ps \<longrightarrow> y \<notin> items ps - D"
    using assms(2,3) by (metis Diff_iff wf_eq_minimal)
  have "p \<in> D" if "(p, z) \<in> set ps" for p
    using z(2) that by (force simp: items_def)
  then show ?thesis using z(1) by (auto simp: ready_items_def deg_0_iff)
qed

lemma index_of_split: "x \<in> set xs \<Longrightarrow> xs = take (index_of x xs) xs @ x # drop (Suc (index_of x xs)) xs \<and>
    x \<notin> set (take (index_of x xs) xs) \<and> index_of x xs < length xs"
  by (induction x xs rule: index_of.induct) auto

lemma index_of_append: "x \<notin> set as \<Longrightarrow> index_of x (as @ bs) = length as + index_of x bs"
  by (induction as) auto

lemma index_of_take: "x \<in> set (take n xs) \<Longrightarrow> index_of x xs < n"
  by (induction x xs arbitrary: n rule: index_of.induct) (auto simp: take_Cons split: nat.splits)

lemma acyclic_by_index:
  assumes "\<And>p c. (p, c) \<in> R \<Longrightarrow> index_of p xs < index_of c xs"
  shows "acyclic R"
proof -
  have "acyclic (R\<inverse>)" using assms by (intro acyclicI_order [of _ "\<lambda>x. index_of x xs"]) auto
  then show ?thesis by (simp add: acyclic_converse)
qed

lemma sorted_acyclic:
  assumes "parents_first ps xs" and "items ps \<subseteq> set xs"
  shows "acyclic (set ps)"
proof -
  have "index_of p xs < index_of c xs" if "(p, c) \<in> set ps" for p c
  proof -
    have "c \<in> set xs" using that assms(2) by (force simp: items_def)
    then have "p \<in> set (take (index_of c xs) xs)"
      using assms(1) that index_of_split [of c xs] unfolding parents_first_def by blast
    then show ?thesis by (rule index_of_take)
  qed
  then show ?thesis by (rule acyclic_by_index)
qed

lemma represents_empty: "represents ps D d ch \<Longrightarrow> d = [] \<longleftrightarrow> items ps \<subseteq> D"
proof -
  assume r: "represents ps D d ch"
  have "d = [] \<longleftrightarrow> (\<forall>x. map_of d x = None)" by (cases d) (auto split: if_splits)
  also have "\<dots> \<longleftrightarrow> items ps \<subseteq> D" using r by (auto simp: represents_def)
  finally show ?thesis .
qed

lemma start_ready:
  assumes "represents ps D d ch" and "\<And>xs. mset (order xs) = mset xs"
  shows "distinct (filter (\<lambda>x. count_of d x = 0) (order (map fst d))) \<and>
    set (filter (\<lambda>x. count_of d x = 0) (order (map fst d))) = ready_items ps D"
proof -
  have d: "distinct (map fst d)" "\<And>x. map_of d x = (if x \<in> items ps - D then Some (deg ps D x) else None)"
    using assms(1) by (simp_all add: represents_def)
  have "set (order (map fst d)) = set (map fst d)" "distinct (order (map fst d))"
    using assms(2) d(1) mset_eq_setD mset_eq_imp_distinct_iff by blast+
  moreover have "set (map fst d) = items ps - D"
  proof -
    have "x \<in> set (map fst d) \<longleftrightarrow> map_of d x \<noteq> None" for x by (simp add: map_of_eq_None_iff)
    then have "x \<in> set (map fst d) \<longleftrightarrow> x \<in> items ps - D" for x by (simp only: d(2)) simp
    then show ?thesis by blast
  qed
  ultimately show ?thesis using d(2) by (auto simp: ready_items_def count_of_def split: if_splits)
qed

section \<open>Sorting\<close>

text \<open>
  C18. The sort is correct and complete, whatever the order in which the interpreter lists
  the keys: on an acyclic graph it returns every item once, each parent before its
  children, although pairs may be repeated; on a cyclic one it raises \<open>CycleError\<close>.
\<close>

theorem topsort_sorts:
  assumes "\<And>xs. mset (order xs) = mset xs"
  shows "(acyclic (set ps) \<longrightarrow> (\<exists>xs. topsort order ps = Inr xs \<and> distinct xs \<and> set xs = fst ` set ps \<union> snd ` set ps \<and>
      (\<forall>(p, c) \<in> set ps. \<exists>as bs cs. xs = as @ p # bs @ c # cs))) \<and>
    (\<not> acyclic (set ps) \<longrightarrow> topsort order ps = Inl CycleError)"
proof -
  obtain d ch where b: "build ps = (d, ch)" by (metis surj_pair)
  have r: "represents ps {} d ch" using build_represents [of ps] b by simp
  let ?start = "filter (\<lambda>x. count_of d x = 0) (order (map fst d))"
  have "\<exists>xs d' ch'. topsort_loop d ch [] ?start = Inr (xs, d', ch') \<and> represents ps (set xs) d' ch' \<and>
    distinct xs \<and> set xs \<subseteq> items ps \<and> ready_items ps (set xs) = {} \<and> parents_first ps xs"
    by (rule topsort_loop_ok) (use r start_ready [OF r assms] in \<open>simp_all add: closed_under_def parents_first_def\<close>)
  then obtain xs d' ch' where l: "topsort_loop d ch [] ?start = Inr (xs, d', ch')" "represents ps (set xs) d' ch'"
    "distinct xs" "set xs \<subseteq> items ps" "ready_items ps (set xs) = {}" "parents_first ps xs" by blast
  have t: "topsort order ps = (if items ps \<subseteq> set xs then Inr xs else Inl CycleError)"
    using b l(1) represents_empty [OF l(2)] by (simp add: topsort_def)
  have iff: "acyclic (set ps) \<longleftrightarrow> items ps \<subseteq> set xs"
    using sorted_acyclic [OF l(6)] minimal_ready [of ps] l(5) by blast
  have "\<exists>as bs cs. xs = as @ p # bs @ c # cs" if "(p, c) \<in> set ps" "items ps \<subseteq> set xs" for p c
  proof -
    have "c \<in> set xs" using that by (force simp: items_def)
    then obtain as cs where xs: "xs = as @ c # cs" by (meson split_list)
    then have "p \<in> set as" using l(6) that(1) by (auto simp: parents_first_def)
    then show ?thesis using xs by (metis append.assoc append_Cons split_list)
  qed
  moreover have "items ps = fst ` set ps \<union> snd ` set ps" by (simp add: items_def)
  ultimately show ?thesis using t iff l(3,4) by auto
qed

section \<open>The levels\<close>

lemma deg_mono: "D \<subseteq> D' \<Longrightarrow> deg ps D x = 0 \<Longrightarrow> deg ps D' x = 0"
  by (auto simp: deg_0_iff)

lemma level_loop_ok:
  assumes "represents ps D d ch" and "closed_under ps D" and "distinct l" and "set l \<subseteq> ready_items ps D"
  shows "\<exists>d' ch'. level_loop l d ch = Inr (d', ch') \<and> represents ps (D \<union> set l) d' ch' \<and> closed_under ps (D \<union> set l)"
  using assms
proof (induction l arbitrary: D d ch)
  case (Cons p l)
  have p: "p \<in> items ps - D" "deg ps D p = 0" using Cons.prems(4) by (auto simp: ready_items_def)
  from take_out [OF Cons.prems(1,2) p] obtain d' new where t: "map_of d p = Some 0"
    "decrement (children_of ch p) (AList.delete p d) = Inr (d', new)"
    "represents ps (insert p D) d' (AList.delete p ch)" "closed_under ps (insert p D)" by blast
  have "set l \<subseteq> ready_items ps (insert p D)"
    using Cons.prems(3,4) deg_mono [of D "insert p D" ps] by (auto simp: ready_items_def)
  from Cons.IH [OF t(3,4) _ this] show ?case using Cons.prems(3) t(1,2) by auto
qed simp

definition layered :: "('a \<times> 'a) list \<Rightarrow> 'a set \<Rightarrow> 'a list list \<Rightarrow> bool" where
  "layered ps D ls \<longleftrightarrow> distinct (concat ls) \<and> set (concat ls) \<inter> D = {} \<and>
     (\<forall>i < length ls. ls ! i \<noteq> [] \<and> set (ls ! i) = ready_items ps (D \<union> set (concat (take i ls))))"

lemma layered_Cons:
  assumes "layered ps (D \<union> set l) ls" and "distinct l" and "l \<noteq> []" and "set l = ready_items ps D"
  shows "layered ps D (l # ls)"
  using assms by (auto simp: layered_def nth_Cons ready_items_def Un_assoc split: nat.splits)

lemma levels_core_ok:
  assumes "\<And>xs. mset (order xs) = mset xs" and "represents ps D d ch" and "closed_under ps D"
  shows "\<exists>ls. topsort_levels_core order d ch =
      (ls, if items ps \<subseteq> D \<union> set (concat ls) then None else Some CycleError) \<and>
    layered ps D ls \<and> ready_items ps (D \<union> set (concat ls)) = {}"
  using assms(2,3)
proof (induction "length d" arbitrary: D d ch rule: less_induct)
  case less
  let ?l = "filter (\<lambda>x. count_of d x = 0) (order (map fst d))"
  have l: "distinct ?l" "set ?l = ready_items ps D" using start_ready [OF less.prems(1) assms(1)] by simp_all
  show ?case
  proof (cases "?l = []")
    case True
    have "topsort_levels_core order d ch = ([], if items ps \<subseteq> D then None else Some CycleError)"
      using True represents_empty [OF less.prems(1)] by (simp add: topsort_levels_core.simps [of order d] Let_def)
    then show ?thesis using True l by (intro exI [of _ "[]"]) (simp add: layered_def)
  next
    case False
    obtain d' ch' where s: "level_loop ?l d ch = Inr (d', ch')" "represents ps (D \<union> set ?l) d' ch'"
      "closed_under ps (D \<union> set ?l)" using level_loop_ok [OF less.prems l(1)] l(2) by auto
    have "length d' + length ?l \<le> length d" by (rule level_loop_length [OF s(1)])
    moreover have "0 < length ?l" using False by blast
    ultimately have "length d' < length d" by linarith
    from less.hyps [OF this s(2,3)] obtain ls where ls:
      "topsort_levels_core order d' ch' =
        (ls, if items ps \<subseteq> D \<union> set ?l \<union> set (concat ls) then None else Some CycleError)"
      "layered ps (D \<union> set ?l) ls" "ready_items ps (D \<union> set ?l \<union> set (concat ls)) = {}" by blast
    have "topsort_levels_core order d ch =
        (?l # ls, if items ps \<subseteq> D \<union> set ?l \<union> set (concat ls) then None else Some CycleError)"
      using False s(1) ls(1) by (subst topsort_levels_core.simps) (simp add: Let_def)
    moreover have "layered ps D (?l # ls)" using layered_Cons [OF ls(2) l(1) False l(2)] .
    moreover have "D \<union> set (concat (?l # ls)) = D \<union> set ?l \<union> set (concat ls)" by auto
    ultimately show ?thesis using ls(3) by metis
  qed
qed

lemma layered_acyclic:
  assumes "layered ps {} ls" and "items ps \<subseteq> set (concat ls)"
  shows "acyclic (set ps)"
proof -
  have "index_of p (concat ls) < index_of c (concat ls)" if pc: "(p, c) \<in> set ps" for p c
  proof -
    have "c \<in> set (concat ls)" using pc assms(2) by (force simp: items_def)
    then obtain l where "l \<in> set ls" "c \<in> set l" by auto
    then obtain i where i: "i < length ls" "c \<in> set (ls ! i)" by (metis in_set_conv_nth)
    let ?n = "length (concat (take i ls))"
    have ls: "concat ls = concat (take i ls) @ ls ! i @ concat (drop (Suc i) ls)"
      using id_take_nth_drop [OF i(1)] by (metis concat.simps(2) concat_append)
    have "p \<in> set (concat (take i ls))" "c \<notin> set (concat (take i ls))"
      using assms(1) i pc by (auto simp: layered_def ready_items_def deg_0_iff)
    then have "p \<in> set (take ?n (concat ls))" "index_of c (concat ls) = ?n + index_of c (ls ! i @ concat (drop (Suc i) ls))"
      unfolding ls by (simp_all add: index_of_append)
    then show ?thesis using index_of_take [of p ?n "concat ls"] by simp
  qed
  then show ?thesis by (rule acyclic_by_index)
qed

text \<open>
  The generator yields the levels of the graph: each level is not empty and consists of exactly the
  items not yet yielded whose parents all are in earlier levels. On an acyclic graph all
  items come, once; on a cyclic one the levels that exist come first and then \<open>CycleError\<close>.
\<close>

theorem topsort_levels_layers:
  assumes "\<And>xs. mset (order xs) = mset xs"
  shows "\<exists>ls. topsort_levels order ps = (ls, if acyclic (set ps) then None else Some CycleError) \<and>
    distinct (concat ls) \<and> (acyclic (set ps) \<longrightarrow> set (concat ls) = fst ` set ps \<union> snd ` set ps) \<and>
    (\<forall>i < length ls. ls ! i \<noteq> [] \<and> set (ls ! i) =
      {x \<in> fst ` set ps \<union> snd ` set ps - set (concat (take i ls)). \<forall>p. (p, x) \<in> set ps \<longrightarrow> p \<in> set (concat (take i ls))})"
proof -
  obtain d ch where b: "build ps = (d, ch)" by (metis surj_pair)
  have r: "represents ps {} d ch" using build_represents [of ps] b by simp
  have c: "closed_under ps {}" by (simp add: closed_under_def)
  obtain ls where ls: "topsort_levels_core order d ch = (ls, if items ps \<subseteq> set (concat ls) then None else Some CycleError)"
    "layered ps {} ls" "ready_items ps (set (concat ls)) = {}" using levels_core_ok [OF assms r c] by auto
  have sub: "set (concat ls) \<subseteq> items ps"
  proof
    fix x assume "x \<in> set (concat ls)"
    then obtain l where "l \<in> set ls" "x \<in> set l" by auto
    then obtain i where "i < length ls" "x \<in> set (ls ! i)" by (metis in_set_conv_nth)
    then show "x \<in> items ps" using ls(2) by (auto simp: layered_def ready_items_def)
  qed
  have "acyclic (set ps)" if all: "items ps \<subseteq> set (concat ls)"
    by (rule layered_acyclic [OF ls(2) all])
  then have "items ps \<subseteq> set (concat ls) \<longleftrightarrow> acyclic (set ps)"
    using minimal_ready [of ps] ls(3) by blast
  then show ?thesis
    using b ls sub by (intro exI [of _ ls]) (auto simp: topsort_levels_def layered_def ready_items_def deg_0_iff items_def)
qed

definition key_order :: "'a list \<Rightarrow> 'a list" where
  "key_order xs = xs"

lemma topsort_levels_layers_witness:
  "\<exists>ls. topsort_levels key_order [(1 :: nat, 2), (1, 3), (2, 3)] = (ls, if acyclic (set [(1 :: nat, 2), (1, 3), (2, 3)]) then None else Some CycleError) \<and>
     distinct (concat ls)"
  using topsort_levels_layers [of key_order "[(1 :: nat, 2), (1, 3), (2, 3)]"] by (auto simp: key_order_def)

lemma topsort_sorts_witness:
  "topsort key_order [(1 :: nat, 2), (2, 3), (3, 2)] = Inl CycleError"
proof -
  have "(2, 2) \<in> (set [(1 :: nat, 2), (2, 3), (3, 2)])\<^sup>+"
    by (rule trancl_into_trancl [OF r_into_trancl, of 2 3]) simp_all
  then have "\<not> acyclic (set [(1 :: nat, 2), (2, 3), (3, 2)])" by (auto simp: acyclic_def)
  then show ?thesis
    using topsort_sorts [of key_order "[(1 :: nat, 2), (2, 3), (3, 2)]"] by (simp add: key_order_def)
qed

section \<open>Finding cycles\<close>

definition edge :: "'a children \<Rightarrow> 'a \<Rightarrow> 'a \<Rightarrow> bool" where
  "edge g u v \<longleftrightarrow> (\<exists>cs. map_of g u = Some cs \<and> v \<in> set cs)"

definition is_cycle :: "'a children \<Rightarrow> 'a list \<Rightarrow> bool" where
  "is_cycle g c \<longleftrightarrow> c \<noteq> [] \<and> distinct c \<and> successively (edge g) c \<and> edge g (last c) (hd c)"

text \<open>A path as the stack holds it, a path that prolongs another, and a cycle that has been found.\<close>

definition is_path :: "'a children \<Rightarrow> 'a list \<Rightarrow> bool" where
  "is_path g p \<longleftrightarrow> p \<noteq> [] \<and> distinct p \<and> successively (edge g) p"

definition found :: "'a list \<Rightarrow> 'a list list \<Rightarrow> bool" where
  "found c cycles \<longleftrightarrow> (\<exists>o' \<in> set cycles. \<exists>n. c = rotate n o')"

definition closings_found :: "'a children \<Rightarrow> 'a list \<Rightarrow> 'a list list \<Rightarrow> bool" where
  "closings_found g p cycles \<longleftrightarrow>
     (\<forall>e c. is_path g (p @ e) \<and> c \<in> set (p @ e) \<and> edge g (last (p @ e)) c \<longrightarrow>
        found (drop (index_of c (p @ e)) (p @ e)) cycles)"

definition cycles_ok :: "'a children \<Rightarrow> 'a list list \<Rightarrow> bool" where
  "cycles_ok g cycles \<longleftrightarrow> (\<forall>c \<in> set cycles. is_cycle g c) \<and>
     (\<forall>i < length cycles. \<forall>j < i. \<forall>n. cycles ! i \<noteq> rotate n (cycles ! j))"

lemma is_dup_ok:
  "\<forall>o' \<in> set cycles. o' \<noteq> [] \<Longrightarrow> c \<noteq> [] \<Longrightarrow> is_dup cycles c = Inr (found c cycles)"
  by (induction cycles) (auto simp: is_rotated_rotation found_def)

lemma found_mono: "found c cycles \<Longrightarrow> set cycles \<subseteq> set cycles' \<Longrightarrow> found c cycles'"
  by (auto simp: found_def)

lemma nth_index_of: "x \<in> set xs \<Longrightarrow> xs ! index_of x xs = x"
  by (induction x xs rule: index_of.induct) auto

lemma found_self: "c \<in> set cycles \<Longrightarrow> found c cycles"
  by (auto simp: found_def intro!: bexI [of _ c] exI [of _ 0])

lemma closing_is_cycle:
  assumes "is_path g p" and "c \<in> set p" and "edge g (last p) c"
  shows "is_cycle g (drop (index_of c p) p)"
proof -
  let ?q = "c # drop (Suc (index_of c p)) p"
  have s: "p = take (index_of c p) p @ ?q" using index_of_split [OF assms(2)] by blast
  have d: "drop (index_of c p) p = ?q"
    using index_of_split [OF assms(2)] nth_index_of [OF assms(2)] Cons_nth_drop_Suc [of "index_of c p" p] by simp
  have "successively (edge g) ?q" "distinct ?q"
    using assms(1) s by (metis is_path_def successively_append_iff, metis is_path_def distinct_append)
  moreover have "last ?q = last p" using s by (metis last_appendR list.discI)
  ultimately show ?thesis using assms(3) unfolding d by (simp add: is_cycle_def)
qed

lemma cycles_ok_snoc:
  assumes "cycles_ok g cycles" and "is_cycle g c" and "\<not> found c cycles"
  shows "cycles_ok g (cycles @ [c])"
proof -
  have "(cycles @ [c]) ! i \<noteq> rotate n ((cycles @ [c]) ! j)" if "i < length (cycles @ [c])" "j < i" for i j n
  proof (cases "i = length cycles")
    case True
    then show ?thesis using assms(3) that by (auto simp: found_def nth_append)
  next
    case False
    then show ?thesis using assms(1) that by (auto simp: cycles_ok_def nth_append)
  qed
  then show ?thesis using assms(1,2) by (auto simp: cycles_ok_def)
qed

lemma visit_children_ok:
  assumes "is_path g path" and "\<forall>c \<in> set cs. edge g (last path) c" and "cycles_ok g cycles"
  shows "\<exists>paths' cycles' visited'. visit_children path cs (paths, cycles, visited) = Inr (paths', cycles', visited') \<and>
    cycles_ok g cycles' \<and> set cycles \<subseteq> set cycles' \<and>
    set paths' = set paths \<union> (\<lambda>c. path @ [c]) ` (set cs - set path) \<and>
    set visited' = set visited \<union> (set cs - set path) \<and>
    (\<forall>c \<in> set cs \<inter> set path. found (drop (index_of c path) path) cycles')"
  using assms(2,3)
proof (induction cs arbitrary: paths cycles visited)
  case (Cons c cs)
  show ?case
  proof (cases "c \<in> set path")
    case True
    let ?c = "drop (index_of c path) path"
    have cyc: "is_cycle g ?c" using closing_is_cycle [OF assms(1) True] Cons.prems(1) by simp
    let ?cycles = "cycles @ (if found ?c cycles then [] else [?c])"
    have "\<forall>o' \<in> set cycles. o' \<noteq> []" "?c \<noteq> []"
      using Cons.prems(2) cyc by (auto simp: cycles_ok_def is_cycle_def)
    then have dup: "is_dup cycles ?c = Inr (found ?c cycles)" by (rule is_dup_ok)
    have ok: "cycles_ok g ?cycles" using cycles_ok_snoc [OF Cons.prems(2) cyc] Cons.prems(2) by simp
    have "found ?c ?cycles" by (auto simp: found_def intro: exI [of _ 0])
    then show ?thesis using Cons.IH [of ?cycles paths visited] Cons.prems(1) ok True dup
      by (auto simp: Let_def split: if_splits intro: found_mono found_self)
  next
    case False
    then show ?thesis using Cons.IH [of cycles "paths @ [path @ [c]]" "c # visited"] Cons.prems by auto
  qed
qed simp

lemma successively_rtrancl:
  "successively R (x # p) \<Longrightarrow> (x, last (x # p)) \<in> {(u, v). R u v}\<^sup>*"
  by (induction p arbitrary: x) (auto intro: converse_rtrancl_into_rtrancl)

lemma path_reaches: "is_path g p \<Longrightarrow> (hd p, last p) \<in> {(u, v). edge g u v}\<^sup>*"
  using successively_rtrancl [of "edge g" "hd p" "tl p"] by (cases p) (auto simp: is_path_def)

lemma is_path_snoc: "is_path g p \<Longrightarrow> edge g (last p) c \<Longrightarrow> c \<notin> set p \<Longrightarrow> is_path g (p @ [c])"
  by (simp add: is_path_def successively_append_iff)

lemma closings_found_mono: "closings_found g p c \<Longrightarrow> set c \<subseteq> set c' \<Longrightarrow> closings_found g p c'"
  unfolding closings_found_def by (blast intro: found_mono)

lemma closings_split:
  assumes "is_path g p" and "\<And>c. edge g (last p) c \<Longrightarrow> c \<in> set p \<Longrightarrow> found (drop (index_of c p) p) cycles"
    and "\<And>c. edge g (last p) c \<Longrightarrow> c \<notin> set p \<Longrightarrow> closings_found g (p @ [c]) cycles"
  shows "closings_found g p cycles"
proof -
  have "found (drop (index_of c (p @ e)) (p @ e)) cycles"
    if h: "is_path g (p @ e)" "c \<in> set (p @ e)" "edge g (last (p @ e)) c" for e c
  proof (cases e)
    case Nil
    then show ?thesis using assms(2) h by simp
  next
    case (Cons x e')
    then have "edge g (last p) x" "x \<notin> set p"
      using h(1) assms(1) by (auto simp: is_path_def successively_append_iff)
    then show ?thesis using assms(3) [of x] h Cons by (simp add: closings_found_def)
  qed
  then show ?thesis by (simp add: closings_found_def)
qed

lemma explore_ok:
  assumes "\<forall>p \<in> set paths. is_path g p" and "cycles_ok g cycles"
  shows "\<exists>cycles' visited'. explore g (paths, cycles, visited) = Inr (cycles', visited') \<and>
    cycles_ok g cycles' \<and> set cycles \<subseteq> set cycles' \<and> set visited \<subseteq> set visited' \<and>
    (\<forall>p \<in> set paths. closings_found g p cycles') \<and>
    (\<forall>v \<in> set visited' - set visited. \<exists>p \<in> set paths. (hd p, v) \<in> {(u, v). edge g u v}\<^sup>*)"
  using assms
proof (induction g "(paths, cycles, visited)" arbitrary: paths cycles visited rule: explore.induct)
  case (1 g paths cycles visited)
  show ?case
  proof (cases "paths = []")
    case True
    then show ?thesis using 1(3) by (simp add: explore.simps)
  next
    case False
    let ?p = "last paths" and ?ps = "butlast paths"
    have set: "set paths = insert ?p (set ?ps)" using append_butlast_last_id [OF False] by (metis Un_insert_right list.set(1) list.simps(15) set_append sup_bot.right_neutral)
    have p: "is_path g ?p" "?p \<noteq> []" and ps: "\<forall>q \<in> set ?ps. is_path g q"
      using 1(2) set by (auto simp: is_path_def)
    obtain s where s: "explore_step g (paths, cycles, visited) = Inr s"
      and f: "\<exists>P C V. s = (P, C, V) \<and> cycles_ok g C \<and> set cycles \<subseteq> set C \<and> set visited \<subseteq> set V \<and>
        set P = set ?ps \<union> (\<lambda>c. ?p @ [c]) ` {c. edge g (last ?p) c \<and> c \<notin> set ?p} \<and>
        set V = set visited \<union> {c. edge g (last ?p) c \<and> c \<notin> set ?p} \<and>
        (\<forall>c. edge g (last ?p) c \<and> c \<in> set ?p \<longrightarrow> found (drop (index_of c ?p) ?p) C)"
    proof (cases "map_of g (last ?p)")
      case None
      then have "\<not> edge g (last ?p) c" for c by (simp add: edge_def)
      then show ?thesis using None p(2) 1(3) by (intro that [of "(?ps, cycles, visited)"]) (auto simp: explore_step_def)
    next
      case (Some cs)
      then have e: "edge g (last ?p) c \<longleftrightarrow> c \<in> set cs" for c by (simp add: edge_def)
      from visit_children_ok [OF p(1) _ 1(3), of cs ?ps visited] e
      obtain P C V where "visit_children ?p cs (?ps, cycles, visited) = Inr (P, C, V)" "cycles_ok g C"
        "set cycles \<subseteq> set C" "set P = set ?ps \<union> (\<lambda>c. ?p @ [c]) ` (set cs - set ?p)"
        "set V = set visited \<union> (set cs - set ?p)"
        "\<forall>c \<in> set cs \<inter> set ?p. found (drop (index_of c ?p) ?p) C" by auto
      note v = this
      have run: "explore_step g (paths, cycles, visited) = Inr (P, C, V)"
        unfolding explore_step_def using Some p(2) v(1) by simp
      have D: "{c. edge g (last ?p) c \<and> c \<notin> set ?p} = set cs - set ?p" using e by blast
      have F: "\<forall>c. edge g (last ?p) c \<and> c \<in> set ?p \<longrightarrow> found (drop (index_of c ?p) ?p) C"
        using e v(6) by blast
      have "(P, C, V) = (P, C, V)" "set visited \<subseteq> set V" using v(5) by simp_all
      with v(2-5) F have ans: "(P, C, V) = (P, C, V) \<and> cycles_ok g C \<and> set cycles \<subseteq> set C \<and> set visited \<subseteq> set V \<and>
        set P = set ?ps \<union> (\<lambda>c. ?p @ [c]) ` {c. edge g (last ?p) c \<and> c \<notin> set ?p} \<and>
        set V = set visited \<union> {c. edge g (last ?p) c \<and> c \<notin> set ?p} \<and>
        (\<forall>c. edge g (last ?p) c \<and> c \<in> set ?p \<longrightarrow> found (drop (index_of c ?p) ?p) C)" unfolding D by (intro conjI)
      show ?thesis by (rule that [OF run]) (rule exI [of _ P], rule exI [of _ C], rule exI [of _ V], rule ans)
    qed
    from f obtain P C V where s_eq: "s = (P, C, V)" and C: "cycles_ok g C" "set cycles \<subseteq> set C" "set visited \<subseteq> set V"
      and P: "set P = set ?ps \<union> (\<lambda>c. ?p @ [c]) ` {c. edge g (last ?p) c \<and> c \<notin> set ?p}"
      and V: "set V = set visited \<union> {c. edge g (last ?p) c \<and> c \<notin> set ?p}"
      and F: "\<forall>c. edge g (last ?p) c \<and> c \<in> set ?p \<longrightarrow> found (drop (index_of c ?p) ?p) C"
      by (elim exE conjE) (rule that)
    have "is_path g (?p @ [c])" if "edge g (last ?p) c" "c \<notin> set ?p" for c
      using is_path_snoc [OF p(1) that] .
    then have "\<forall>q \<in> set P. is_path g q" using ps P by auto
    from 1(1) [OF False s [unfolded s_eq] this C(1)] obtain C' V' where
      ih: "explore g (P, C, V) = Inr (C', V')" "cycles_ok g C'" "set C \<subseteq> set C'" "set V \<subseteq> set V'"
      and cl: "\<forall>q \<in> set P. closings_found g q C'"
      and vi: "\<forall>v \<in> set V' - set V. \<exists>q \<in> set P. (hd q, v) \<in> {(u, v). edge g u v}\<^sup>*" by blast
    have run: "explore g (paths, cycles, visited) = Inr (C', V')" using False s s_eq ih(1) by (simp add: explore.simps [of g paths])
    have inP: "q \<in> set P" if "q \<in> set ?ps" for q using that unfolding P by (rule UnI1)
    have newP: "?p @ [c] \<in> set P" if "edge g (last ?p) c" "c \<notin> set ?p" for c
      unfolding P using that by (intro UnI2 image_eqI [OF refl] CollectI conjI)
    have "closings_found g ?p C'"
    proof (rule closings_split [OF p(1)])
      fix c assume "edge g (last ?p) c" "c \<in> set ?p"
      then show "found (drop (index_of c ?p) ?p) C'" using F found_mono [OF _ ih(3)] by blast
    next
      fix c assume "edge g (last ?p) c" "c \<notin> set ?p"
      then show "closings_found g (?p @ [c]) C'" using cl newP by blast
    qed
    then have A: "\<forall>q \<in> set paths. closings_found g q C'" using cl inP unfolding set by blast
    have B: "\<exists>q \<in> set paths. (hd q, v) \<in> {(u, v). edge g u v}\<^sup>*" if v: "v \<in> set V' - set visited" for v
    proof (cases "v \<in> set V")
      case True
      then have "edge g (last ?p) v" using v unfolding V by blast
      then have "(hd ?p, v) \<in> {(u, v). edge g u v}\<^sup>*"
        using path_reaches [OF p(1)] by (auto intro: rtrancl_into_rtrancl)
      then show ?thesis unfolding set by blast
    next
      case False
      then obtain q where q: "q \<in> set P" "(hd q, v) \<in> {(u, v). edge g u v}\<^sup>*" using vi v by blast
      then consider "q \<in> set ?ps" | c where "q = ?p @ [c]" unfolding P by blast
      then show ?thesis
      proof cases
        case 2
        then have "hd q = hd ?p" using p(2) by simp
        then show ?thesis using q(2) unfolding set by (metis insertI1)
      qed (use q(2) in \<open>unfold set, blast\<close>)
    qed
    have "set cycles \<subseteq> set C'" "set visited \<subseteq> set V'" using C(2,3) ih(3,4) by (blast+)
    then show ?thesis using run ih(2) A B by (intro exI [of _ C', OF exI [of _ V']] conjI ballI) simp_all
  qed
qed

text \<open>From a node that reaches a set there is a path into it that meets the set only at its end.\<close>

lemma path_into:
  assumes "(u, v) \<in> {(a, b). edge g a b}\<^sup>*" and "v \<in> S"
  shows "\<exists>w x. is_path g (w @ [x]) \<and> hd (w @ [x]) = u \<and> x \<in> S \<and> set w \<inter> S = {}"
  using assms(1)
proof (induction rule: converse_rtrancl_induct)
  case base
  then show ?case using assms(2) by (intro exI [of _ "[]"] exI [of _ v]) (simp add: is_path_def)
next
  case (step u y)
  obtain w x where w: "is_path g (w @ [x])" "hd (w @ [x]) = y" "x \<in> S" "set w \<inter> S = {}" using step.IH by blast
  consider "u \<in> S" | "u \<notin> S" "u \<notin> set w" | "u \<notin> S" "u \<in> set w" by blast
  then show ?case
  proof cases
    case 1
    then show ?thesis by (intro exI [of _ "[]"] exI [of _ u]) (simp add: is_path_def)
  next
    case 2
    then have "is_path g ((u # w) @ [x])"
      using w step.hyps(1) by (cases w) (auto simp: is_path_def)
    then show ?thesis using 2 w by (intro exI [of _ "u # w"] exI [of _ x]) simp
  next
    case 3
    then obtain as bs where "w = as @ u # bs" by (meson split_list)
    then show ?thesis using w 3 by (intro exI [of _ "u # bs"] exI [of _ x]) (auto simp: is_path_def successively_append_iff)
  qed
qed

lemma is_cycle_rotate1:
  assumes "is_cycle g c"
  shows "is_cycle g (rotate1 c)"
proof (cases c)
  case (Cons a l)
  show ?thesis
  proof (cases "l = []")
    case False
    have "distinct (l @ [a])" using assms Cons by (auto simp: is_cycle_def)
    moreover have "edge g (last l) a" using assms Cons False by (simp add: is_cycle_def)
    moreover have "successively (edge g) l" "edge g a (hd l)"
      using assms Cons False by (simp_all add: is_cycle_def successively_Cons)
    ultimately show ?thesis using Cons False by (simp add: is_cycle_def successively_append_iff)
  qed (use assms Cons in simp)
qed (use assms in simp)

lemma is_cycle_rotate: "is_cycle g c \<Longrightarrow> is_cycle g (rotate n c)"
  by (induction n) (simp_all add: is_cycle_rotate1)

text \<open>A cycle that a root reaches is among the closings of the paths from that root.\<close>

lemma reached_cycle_found:
  assumes "closings_found g [r] cycles" and "is_cycle g c" and "(r, v) \<in> {(a, b). edge g a b}\<^sup>*" and "v \<in> set c"
  shows "found c cycles"
proof -
  obtain w x where w: "is_path g (w @ [x])" "hd (w @ [x]) = r" "x \<in> set c" "set w \<inter> set c = {}"
    using path_into [OF assms(3,4)] by blast
  obtain as bs where c: "c = as @ x # bs" using w(3) by (meson split_list)
  let ?c = "x # bs @ as"
  have rot: "?c = rotate (length as) c" by (simp add: c rotate_append)
  have cyc: "is_cycle g ?c" unfolding rot using assms(2) by (rule is_cycle_rotate)
  have path: "is_path g (w @ ?c)"
    using w(1,4) cyc c by (auto simp: is_path_def is_cycle_def successively_append_iff successively_Cons)
  obtain e where e: "w @ ?c = [r] @ e" using w(2) by (cases w) auto
  have "x \<notin> set w" using w(3,4) by auto
  then have "drop (index_of x (w @ ?c)) (w @ ?c) = ?c" by (simp add: index_of_append)
  moreover have "edge g (last (w @ ?c)) x" using cyc by (simp add: is_cycle_def)
  ultimately have "found ?c cycles"
    using assms(1) path unfolding closings_found_def e [symmetric]
    by (metis e in_set_conv_decomp)
  then obtain o' n where "o' \<in> set cycles" and "?c = rotate n o'" unfolding found_def by blast
  have "rotate (length (x # bs)) ((x # bs) @ as) = as @ x # bs" by (rule rotate_append)
  then have "c = rotate (length (x # bs)) ?c" by (simp only: c append_Cons)
  also have "\<dots> = rotate (length (x # bs) + n) o'" unfolding \<open>?c = rotate n o'\<close> by (rule rotate_rotate)
  finally show ?thesis unfolding found_def using \<open>o' \<in> set cycles\<close> by blast
qed

lemma find_from_ok:
  assumes "cycles_ok g cycles" and "\<forall>v \<in> set visited. \<exists>r. (r, v) \<in> {(a, b). edge g a b}\<^sup>* \<and> closings_found g [r] cycles"
  shows "\<exists>cycles' visited'. find_from g roots (cycles, visited) = Inr (cycles', visited') \<and> cycles_ok g cycles' \<and>
    set cycles \<subseteq> set cycles' \<and>
    (\<forall>v \<in> set roots. \<exists>r. (r, v) \<in> {(a, b). edge g a b}\<^sup>* \<and> closings_found g [r] cycles')"
  using assms
proof (induction roots arbitrary: cycles visited)
  case (Cons p roots)
  show ?case
  proof (cases "p \<in> set visited")
    case True
    from Cons.IH [OF Cons.prems] obtain C V where "find_from g roots (cycles, visited) = Inr (C, V)" "cycles_ok g C"
      "set cycles \<subseteq> set C" "\<forall>v \<in> set roots. \<exists>r. (r, v) \<in> {(a, b). edge g a b}\<^sup>* \<and> closings_found g [r] C" by blast
    then show ?thesis using True Cons.prems(2) closings_found_mono by fastforce
  next
    case False
    have "\<forall>q \<in> set [[p]]. is_path g q" by (simp add: is_path_def)
    from explore_ok [OF this Cons.prems(1), of visited] obtain C V where
      e: "explore g ([[p]], cycles, visited) = Inr (C, V)" "cycles_ok g C" "set cycles \<subseteq> set C"
        "closings_found g [p] C" "\<forall>v \<in> set V - set visited. (p, v) \<in> {(a, b). edge g a b}\<^sup>*" by auto
    have "\<forall>v \<in> set V. \<exists>r. (r, v) \<in> {(a, b). edge g a b}\<^sup>* \<and> closings_found g [r] C"
      using e(4,5) Cons.prems(2) closings_found_mono [OF _ e(3)] by blast
    from Cons.IH [OF e(2) this] obtain C' V' where
      "find_from g roots (C, V) = Inr (C', V')" "cycles_ok g C'" "set C \<subseteq> set C'"
      "\<forall>v \<in> set roots. \<exists>r. (r, v) \<in> {(a, b). edge g a b}\<^sup>* \<and> closings_found g [r] C'" by blast
    then show ?thesis using False e closings_found_mono [OF e(4)] by auto
  qed
qed simp

text \<open>
  C19. Whatever the order in which the interpreter lists the keys, \<open>find_cycles\<close> ends without an error; it
  yields only simple cycles of the graph, no two of them rotations of one another, and every simple
  cycle of the graph up to rotation.
\<close>

theorem find_cycles_complete:
  assumes "\<And>xs. mset (order xs) = mset xs"
  shows "\<exists>cycles. find_cycles order g = Inr cycles \<and> (\<forall>c \<in> set cycles. is_cycle g c) \<and>
    (\<forall>i < length cycles. \<forall>j < i. \<forall>n. cycles ! i \<noteq> rotate n (cycles ! j)) \<and>
    (\<forall>c. is_cycle g c \<longrightarrow> (\<exists>o' \<in> set cycles. \<exists>n. c = rotate n o'))"
proof -
  have "cycles_ok g []" by (simp add: cycles_ok_def)
  from find_from_ok [OF this, of "[]" "order (map fst g)"] obtain cycles V where
    f: "find_from g (order (map fst g)) ([], []) = Inr (cycles, V)" "cycles_ok g cycles"
    "\<forall>v \<in> set (order (map fst g)). \<exists>r. (r, v) \<in> {(a, b). edge g a b}\<^sup>* \<and> closings_found g [r] cycles" by auto
  have "found c cycles" if c: "is_cycle g c" for c
  proof -
    have "\<exists>v. edge g (hd c) v" using c by (cases c; cases "tl c") (auto simp: is_cycle_def)
    then have "hd c \<in> set (map fst g)" by (force simp: edge_def dest: map_of_SomeD)
    then have "hd c \<in> set (order (map fst g))" using assms mset_eq_setD by metis
    then show ?thesis using f(3) reached_cycle_found [OF _ c] c by (metis hd_in_set is_cycle_def)
  qed
  then show ?thesis using f(1,2) by (auto simp: find_cycles_def cycles_ok_def found_def)
qed

lemma find_cycles_complete_witness:
  "\<exists>cycles. find_cycles key_order [(''A'', [''B'']), (''B'', [''A''])] = Inr cycles \<and>
     (\<exists>o' \<in> set cycles. \<exists>n. [''A'', ''B''] = rotate n o')"
proof -
  have "is_cycle [(''A'', [''B'']), (''B'', [''A''])] [''A'', ''B'']" by (simp add: is_cycle_def edge_def)
  then show ?thesis
    using find_cycles_complete [of key_order "[(''A'', [''B'']), (''B'', [''A''])]"] by (auto simp: key_order_def)
qed

end
