(* ===== verification/Shell.thy ===== *)
theory Shell
  imports Ns3Util PyText "HOL-Library.AList" "HOL-Library.Multiset"
begin

text \<open>
  \<open>waf-tools/shellcmd.py\<close>: the small shell of the build. A command string is split into tokens, the
  tokens are parsed into a pipeline of commands and operators, and the pipeline is run with
  the processes of the operating system, which are an argument of the model.
\<close>

section \<open>Splitting a command string\<close>

text \<open>
  \<open>shlex.split\<close> of the standard library in its POSIX mode, without comments: the states of its
  automaton, the token so far and whether it was quoted.
\<close>

datatype lex_state = Space | Word | Quoted char | Escape "char option"

definition whitespace :: "char list" where
  "whitespace = [CHR '' '', CHR 0x09, CHR 0x0D, CHR 0x0A]"

definition quotes :: "char list" where
  "quotes = [CHR 0x27, CHR 0x22]"

definition backslash :: char where
  "backslash = CHR 0x5C"

fun shlex :: "lex_state \<Rightarrow> string \<Rightarrow> bool \<Rightarrow> string \<Rightarrow> string list result" where
  "shlex Space token quoted [] = Inr []"
| "shlex Word token quoted [] = Inr (if token \<noteq> [] \<or> quoted then [token] else [])"
| "shlex (Quoted q) token quoted [] = Inl ValueError"
| "shlex (Escape q) token quoted [] = Inl ValueError"
| "shlex Space token quoted (c # s) =
     (if c \<in> set whitespace then shlex Space token quoted s
      else if c = backslash then shlex (Escape None) token quoted s
      else if c \<in> set quotes then shlex (Quoted c) token True s
      else shlex Word [c] quoted s)"
| "shlex Word token quoted (c # s) =
     (if c \<in> set whitespace then
        (if token \<noteq> [] \<or> quoted then ebind (shlex Space [] False s) (\<lambda>ts. Inr (token # ts))
         else shlex Space token quoted s)
      else if c \<in> set quotes then shlex (Quoted c) token True s
      else if c = backslash then shlex (Escape None) token quoted s
      else shlex Word (token @ [c]) quoted s)"
| "shlex (Quoted q) token quoted (c # s) =
     (if c = q then shlex Word token quoted s
      else if c = backslash \<and> q = CHR 0x22 then shlex (Escape (Some q)) token quoted s
      else shlex (Quoted q) (token @ [c]) quoted s)"
| "shlex (Escape None) token quoted (c # s) = shlex Word (token @ [c]) quoted s"
| "shlex (Escape (Some q)) token quoted (c # s) =
     shlex (Quoted q) (token @ (if c \<noteq> backslash \<and> c \<noteq> q then [backslash] else []) @ [c]) quoted s"

definition shlex_split :: "string \<Rightarrow> string list result" where
  "shlex_split s = shlex Space [] False s"

section \<open>The nodes of a pipeline\<close>

text \<open>What a stream of a command is redirected to.\<close>

datatype redirect = File string | PIPE | STDOUT

record command =
  cmd_name :: string
  argv :: "string list"
  cmd_stdin :: "string option"
  cmd_stdout :: "redirect option"
  cmd_stderr :: "redirect option"
  env_vars :: "(string \<times> string) list option"

datatype node = Pipe | And | Or | Command command | Chdir "string option"

definition new_command :: "string \<Rightarrow> command" where
  "new_command token =
     \<lparr>cmd_name = token, argv = [token], cmd_stdin = None, cmd_stdout = None, cmd_stderr = None, env_vars = None\<rparr>"

text \<open>The second test for \<open>And\<close> stands where \<open>Or\<close> is meant, so that \<open>Or\<close> is not shown.\<close>

fun abbreviate :: "node \<Rightarrow> string list" where
  "abbreviate (Command c) = [cmd_name c]"
| "abbreviate (Chdir (Some d)) = [''cd '' @ d]"
| "abbreviate (Chdir None) = [''cd None'']"
| "abbreviate Pipe = [''|'']"
| "abbreviate And = [''&&'']"
| "abbreviate Or = []"

fun join_spaces :: "string list \<Rightarrow> string" where
  "join_spaces [] = []"
| "join_spaces [s] = s"
| "join_spaces (s # ss) = s @ '' '' @ join_spaces ss"

definition get_abbreviated_command :: "node list \<Rightarrow> string" where
  "get_abbreviated_command ns = join_spaces (concat (map abbreviate ns))"

section \<open>Parsing\<close>

text \<open>\<open>\S\<close> of the expression \<open>env_var_rx\<close>, whose \<open>$\<close> also stands before a final newline.\<close>

definition env_var_match :: "string \<Rightarrow> (string \<times> string) option" where
  "env_var_match t =
     (let k = takeWhile (\<lambda>c. c \<noteq> CHR ''='') t in
      case dropWhile (\<lambda>c. c \<noteq> CHR ''='') t of
        [] \<Rightarrow> None
      | _ # v \<Rightarrow>
          (let v' = (if v \<noteq> [] \<and> last v = CHR 0x0A then butlast v else v) in
           if k \<noteq> [] \<and> list_all name_char k \<and> v' \<noteq> [] \<and> list_all (\<lambda>c. \<not> is_white c) v' then Some (k, v') else None))"

datatype parse_state = P_BEGIN | P_COMMAND | P_CHDIR | P_STDERR | P_STDOUT | P_STDIN

record parser =
  current_command :: "node option"
  pipeline :: "node list"
  p_state :: parse_state
  p_env :: "(string \<times> string) list"

definition commit_command :: "parser \<Rightarrow> parser result" where
  "commit_command p =
     (case current_command p of
        None \<Rightarrow> Inl AssertionError
      | Some n \<Rightarrow> Inr (p\<lparr>pipeline := pipeline p @ [n], current_command := None\<rparr>))"

text \<open>An operator: the command is committed, the operator follows it, and a new command begins.\<close>

definition operator :: "node \<Rightarrow> parser \<Rightarrow> parser result" where
  "operator n p = ebind (commit_command p) (\<lambda>p. Inr (p\<lparr>pipeline := pipeline p @ [n], p_state := P_BEGIN\<rparr>))"

definition on_command :: "(command \<Rightarrow> command result) \<Rightarrow> parser \<Rightarrow> parser result" where
  "on_command f p =
     (case current_command p of
        Some (Command c) \<Rightarrow> ebind (f c) (\<lambda>c. Inr (p\<lparr>current_command := Some (Command c)\<rparr>))
      | _ \<Rightarrow> Inl AttributeError)"

definition set_stdin :: "string \<Rightarrow> command \<Rightarrow> command result" where
  "set_stdin f c = (if cmd_stdin c = None then Inr (c\<lparr>cmd_stdin := Some f\<rparr>) else Inl AssertionError)"

definition set_stdout :: "redirect \<Rightarrow> command \<Rightarrow> command result" where
  "set_stdout r c = (if cmd_stdout c = None then Inr (c\<lparr>cmd_stdout := Some r\<rparr>) else Inl AssertionError)"

definition set_stderr :: "redirect \<Rightarrow> command \<Rightarrow> command result" where
  "set_stderr r c = (if cmd_stderr c = None then Inr (c\<lparr>cmd_stderr := Some r\<rparr>) else Inl AssertionError)"

definition begin_token :: "string \<Rightarrow> parser \<Rightarrow> parser result" where
  "begin_token token p =
     (case env_var_match token of
        Some (k, v) \<Rightarrow> Inr (p\<lparr>p_env := AList.update k v (p_env p)\<rparr>)
      | None \<Rightarrow>
          if current_command p \<noteq> None then Inl AssertionError
          else if token = ''cd'' then
            (if p_env p \<noteq> [] then Inl AssertionError
             else Inr (p\<lparr>current_command := Some (Chdir None), p_state := P_CHDIR\<rparr>))
          else Inr (p\<lparr>current_command := Some (Command (if p_env p \<noteq> []
                        then (new_command token)\<lparr>env_vars := Some (p_env p)\<rparr> else new_command token)),
                      p_env := [], p_state := P_COMMAND\<rparr>))"

definition command_token :: "string \<Rightarrow> parser \<Rightarrow> parser result" where
  "command_token token p =
     (if token = ''>'' then Inr (p\<lparr>p_state := P_STDOUT\<rparr>)
      else if token = ''2>'' then Inr (p\<lparr>p_state := P_STDERR\<rparr>)
      else if token = ''2>&1'' then on_command (set_stderr STDOUT) p
      else if token = ''<'' then Inr (p\<lparr>p_state := P_STDIN\<rparr>)
      else if token = ''|'' then ebind (on_command (set_stdout PIPE) p) (operator Pipe)
      else if token = ''&&'' then operator And p
      else if token = ''||'' then operator Or p
      else on_command (\<lambda>c. Inr (c\<lparr>argv := argv c @ [token]\<rparr>)) p)"

definition chdir_token :: "string \<Rightarrow> parser \<Rightarrow> parser result" where
  "chdir_token token p =
     (if token = ''&&'' then operator And p
      else case current_command p of
        Some (Chdir None) \<Rightarrow> Inr (p\<lparr>current_command := Some (Chdir (Some token))\<rparr>)
      | Some (Chdir (Some d)) \<Rightarrow> Inl AssertionError
      | _ \<Rightarrow> Inl AttributeError)"

definition parse_token :: "string \<Rightarrow> parser \<Rightarrow> parser result" where
  "parse_token token p =
     (case p_state p of
        P_BEGIN \<Rightarrow> begin_token token p
      | P_COMMAND \<Rightarrow> command_token token p
      | P_CHDIR \<Rightarrow> chdir_token token p
      | P_STDOUT \<Rightarrow> ebind (on_command (set_stdout (File token)) p) (\<lambda>p. Inr (p\<lparr>p_state := P_COMMAND\<rparr>))
      | P_STDERR \<Rightarrow> ebind (on_command (set_stderr (File token)) p) (\<lambda>p. Inr (p\<lparr>p_state := P_COMMAND\<rparr>))
      | P_STDIN \<Rightarrow> ebind (on_command (set_stdin token) p) (\<lambda>p. Inr (p\<lparr>p_state := P_COMMAND\<rparr>)))"

definition parse_tokens :: "string list \<Rightarrow> node list result" where
  "parse_tokens tokens =
     ebind (block (map parse_token tokens)
         \<lparr>current_command = None, pipeline = [], p_state = P_BEGIN, p_env = []\<rparr>) (\<lambda>p.
     ebind (commit_command p) (\<lambda>p. Inr (pipeline p)))"

definition parse :: "string \<Rightarrow> node list result" where
  "parse command = ebind (shlex_split command) parse_tokens"

section \<open>Running\<close>

text \<open>
  Streams as a process gets them, what is asked of the system to start a process, and the log of
  a run. \<open>PipeFrom n\<close> is the output of the \<open>n\<close>-th process of the run.
\<close>

datatype stream = Inherited | FileStream string | DevNull | PipeFrom nat | PipeTo | Merged

record request =
  r_argv :: "string list"
  r_stdin :: stream
  r_stdout :: stream
  r_stderr :: stream
  r_env :: "(string \<times> string) list option"
  r_cwd :: "string option"

datatype event = Opened string | Started request | Waited nat int | Closed string | Printed string

text \<open>The operating system: what it does may depend on everything that happened before.\<close>

record sh_world =
  can_read :: "event list \<Rightarrow> string \<Rightarrow> bool"
  can_write :: "event list \<Rightarrow> string \<Rightarrow> bool"
  can_start :: "event list \<Rightarrow> request \<Rightarrow> bool"
  exit_code :: "event list \<Rightarrow> nat \<Rightarrow> int"

record run_state =
  events :: "event list"
  next_proc :: nat
  files_to_close :: "stream list"
  piped_commands :: "(nat \<times> stream) list"
  display :: "string list"
  piping :: bool
  cwd :: string

definition open_in :: "sh_world \<Rightarrow> string \<Rightarrow> event list \<Rightarrow> (stream \<times> event list) result" where
  "open_in W f ev = (if can_read W ev f then Inr (FileStream f, ev @ [Opened f]) else Inl OSError)"

definition open_out_file :: "sh_world \<Rightarrow> string \<Rightarrow> event list \<Rightarrow> (stream \<times> event list) result" where
  "open_out_file W f ev =
     (if f \<in> set [''NUL:'', ''/dev/null''] then Inr (DevNull, ev)
      else if can_write W ev f then Inr (FileStream f, ev @ [Opened f]) else Inl OSError)"

fun wait_all :: "sh_world \<Rightarrow> nat list \<Rightarrow> event list \<Rightarrow> int list \<times> event list" where
  "wait_all W [] ev = ([], ev)"
| "wait_all W (n # ns) ev =
     (let r = exit_code W ev n in case wait_all W ns (ev @ [Waited n r]) of (rs, ev') \<Rightarrow> (r # rs, ev'))"

definition piped_status :: "int list \<Rightarrow> int" where
  "piped_status retvals = (if list_ex (\<lambda>r. r \<noteq> 0) retvals then last retvals else 0)"

definition close_events :: "stream list \<Rightarrow> event list" where
  "close_events fs = concat (map (\<lambda>f. case f of FileStream n \<Rightarrow> [Closed n] | _ \<Rightarrow> []) fs)"

definition close_files :: "run_state \<Rightarrow> run_state" where
  "close_files s = s\<lparr>events := events s @ close_events (files_to_close s), files_to_close := []\<rparr>"

definition exec_piped_commands :: "sh_world \<Rightarrow> run_state \<Rightarrow> int \<times> run_state" where
  "exec_piped_commands W s =
     (case wait_all W (map fst (piped_commands s)) (events s) of
        (rs, ev) \<Rightarrow> (piped_status rs, s\<lparr>events := ev\<rparr>))"

definition show_line :: "bool \<Rightarrow> string list \<Rightarrow> run_state \<Rightarrow> run_state" where
  "show_line verbose ws s = (if verbose then s\<lparr>display := display s @ ws\<rparr> else s)"

text \<open>The three streams of a command, in the order of the code.\<close>

definition stdin_of :: "sh_world \<Rightarrow> bool \<Rightarrow> command \<Rightarrow> run_state \<Rightarrow> (stream \<times> run_state) result" where
  "stdin_of W verbose c s =
     (if piping s then Inr (case last (piped_commands s) of (n, out) \<Rightarrow> if out = PipeTo then PipeFrom n else Inherited, s)
      else case cmd_stdin c of
        None \<Rightarrow> Inr (Inherited, s)
      | Some f \<Rightarrow> ebind (open_in W f (events s)) (\<lambda>(h, ev).
          Inr (h, show_line verbose [''< '' @ f] (s\<lparr>events := ev, files_to_close := files_to_close s @ [h]\<rparr>))))"

definition out_stream :: "sh_world \<Rightarrow> bool \<Rightarrow> string \<Rightarrow> redirect option \<Rightarrow> run_state \<Rightarrow> (stream \<times> run_state) result" where
  "out_stream W verbose mark r s =
     (case r of
        None \<Rightarrow> Inr (Inherited, s)
      | Some PIPE \<Rightarrow> Inr (PipeTo, s)
      | Some STDOUT \<Rightarrow> Inr (Merged, show_line verbose [''2>&1''] s)
      | Some (File f) \<Rightarrow> ebind (open_out_file W f (events s)) (\<lambda>(h, ev).
          Inr (h, show_line verbose [mark @ f] (s\<lparr>events := ev, files_to_close := files_to_close s @ [h]\<rparr>))))"

fun env_text :: "(string \<times> string) list \<Rightarrow> string list" where
  "env_text [] = []"
| "env_text ((k, v) # kvs) = (k @ ''='' @ v) # env_text kvs"

definition start :: "sh_world \<Rightarrow> bool \<Rightarrow> command \<Rightarrow> run_state \<Rightarrow> run_state result" where
  "start W verbose c s =
     (let env = (case env_vars c of Some kvs \<Rightarrow> if kvs = [] then None else Some kvs | None \<Rightarrow> None);
          words = (case env of Some kvs \<Rightarrow> join_spaces (env_text kvs) @ '' '' @ join_spaces (argv c)
                             | None \<Rightarrow> join_spaces (argv c)) in
      ebind (stdin_of W verbose c (show_line verbose [words] s)) (\<lambda>(i, s).
      ebind (out_stream W verbose ''> '' (cmd_stdout c) s) (\<lambda>(out, s).
      ebind (out_stream W verbose ''2> '' (cmd_stderr c) s) (\<lambda>(err, s).
      let r = \<lparr>r_argv = argv c, r_stdin = i, r_stdout = out, r_stderr = err, r_env = env,
               r_cwd = (if cwd s = ''.'' then None else Some (cwd s))\<rparr> in
      if can_start W (events s) r then
        Inr (s\<lparr>events := events s @ [Started r], next_proc := next_proc s + 1,
               piped_commands := piped_commands s @ [(next_proc s, out)]\<rparr>)
      else Inl OSError))))"

text \<open>
  After \<open>&&\<close> and \<open>||\<close>. The verbose messages of these two branches use \<open>retval\<close>, which only the last
  branch of the loop assigns, so there they raise.
\<close>

definition UnboundLocalError :: py_error where
  "UnboundLocalError = NameError ''retval''"

definition next_group :: "run_state \<Rightarrow> run_state" where
  "next_group s = s\<lparr>piping := False, piped_commands := [], display := []\<rparr>"

definition last_line :: "run_state \<Rightarrow> int \<Rightarrow> string" where
  "last_line s retval = join_spaces (display s) @ '': exit code '' @ py_str (PyInt retval)"

fun run_nodes :: "sh_world \<Rightarrow> bool \<Rightarrow> node list \<Rightarrow> run_state \<Rightarrow> (int option \<times> event list) result" where
  "run_nodes W verbose [] s = Inr (None, events s)"
| "run_nodes W verbose (Chdir d # ns) s =
     (case ns of
        [] \<Rightarrow> Inl IndexError
      | And # ns' \<Rightarrow>
          (case d of
             None \<Rightarrow> Inl TypeError
           | Some d \<Rightarrow> run_nodes W verbose ns'
               (show_line verbose [''cd '' @ d @ '' &&''] (s\<lparr>cwd := join_path (cwd s) d\<rparr>)))
      | _ \<Rightarrow> Inl AssertionError)"
| "run_nodes W verbose (Command c # ns) s =
     ebind (start W verbose c s) (\<lambda>s.
     (case ns of
        [] \<Rightarrow>
          (case exec_piped_commands W s of (retval, s) \<Rightarrow>
           let s = (if verbose then s\<lparr>events := events s @ [Printed (last_line s retval)]\<rparr> else s) in
           Inr (Some retval, events (close_files s)))
      | Pipe # ns' \<Rightarrow> run_nodes W verbose ns' (s\<lparr>piping := True, display := display s @ [''|'']\<rparr>)
      | Or # ns' \<Rightarrow>
          (case exec_piped_commands W s of (retval, s) \<Rightarrow>
           let s = close_files s in
           if verbose then Inl UnboundLocalError
           else if retval = 0 then Inr (Some retval, events s)
           else run_nodes W verbose ns' (next_group s))
      | And # ns' \<Rightarrow>
          (case exec_piped_commands W s of (retval, s) \<Rightarrow>
           let s = close_files s in
           if verbose then Inl UnboundLocalError
           else if retval \<noteq> 0 then Inr (Some retval, events s)
           else run_nodes W verbose ns' (next_group s))
      | _ # ns' \<Rightarrow> run_nodes W verbose ns' s))"
| "run_nodes W verbose (n # ns) s = Inl AssertionError"

definition run_pipeline :: "sh_world \<Rightarrow> bool \<Rightarrow> node list \<Rightarrow> (int option \<times> event list) result" where
  "run_pipeline W verbose ns =
     run_nodes W verbose ns
       \<lparr>events = [], next_proc = 0, files_to_close = [], piped_commands = [], display = [], piping = False, cwd = ''.''\<rparr>"

section \<open>Parsing what a pipeline prints\<close>

text \<open>
  The tokens of a pipeline, and the pipelines that have tokens: no command is called \<open>cd\<close> or like an
  assignment, no argument is an operator, output goes into a pipe exactly before \<open>|\<close>.
\<close>

definition assignments :: "(string \<times> string) list option \<Rightarrow> string list" where
  "assignments e = (case e of None \<Rightarrow> [] | Some kvs \<Rightarrow> map (\<lambda>(k, v). k @ ''='' @ v) kvs)"

definition redirections :: "command \<Rightarrow> string list" where
  "redirections c =
     (case cmd_stdin c of Some f \<Rightarrow> [''<'', f] | None \<Rightarrow> []) @
     (case cmd_stdout c of Some (File f) \<Rightarrow> [''>'', f] | _ \<Rightarrow> []) @
     (case cmd_stderr c of Some (File f) \<Rightarrow> [''2>'', f] | Some STDOUT \<Rightarrow> [''2>&1''] | _ \<Rightarrow> [])"

definition command_tokens :: "command \<Rightarrow> string list" where
  "command_tokens c = assignments (env_vars c) @ argv c @ redirections c"

fun unparse :: "node list \<Rightarrow> string list" where
  "unparse [] = []"
| "unparse (Pipe # ns) = ''|'' # unparse ns"
| "unparse (And # ns) = ''&&'' # unparse ns"
| "unparse (Or # ns) = ''||'' # unparse ns"
| "unparse (Chdir d # ns) = (case d of None \<Rightarrow> [''cd''] | Some d \<Rightarrow> [''cd'', d]) @ unparse ns"
| "unparse (Command c # ns) = command_tokens c @ unparse ns"

definition operators :: "string set" where
  "operators = {''>'', ''2>'', ''2>&1'', ''<'', ''|'', ''&&'', ''||''}"

definition wf_command :: "command \<Rightarrow> bool" where
  "wf_command c \<longleftrightarrow>
     (\<exists>args. argv c = cmd_name c # args \<and> (\<forall>a \<in> set args. a \<notin> operators)) \<and>
     cmd_name c \<noteq> ''cd'' \<and> env_var_match (cmd_name c) = None \<and> cmd_stdout c \<noteq> Some STDOUT \<and> cmd_stderr c \<noteq> Some PIPE \<and>
     (case env_vars c of None \<Rightarrow> True
      | Some kvs \<Rightarrow> kvs \<noteq> [] \<and> distinct (map fst kvs) \<and> (\<forall>(k, v) \<in> set kvs. env_var_match (k @ ''='' @ v) = Some (k, v)))"

fun wf_nodes :: "node list \<Rightarrow> bool" where
  "wf_nodes [Command c] = (wf_command c \<and> cmd_stdout c \<noteq> Some PIPE)"
| "wf_nodes (Command c # Pipe # ns) = (wf_command c \<and> cmd_stdout c = Some PIPE \<and> wf_nodes ns)"
| "wf_nodes (Command c # And # ns) = (wf_command c \<and> cmd_stdout c \<noteq> Some PIPE \<and> wf_nodes ns)"
| "wf_nodes (Command c # Or # ns) = (wf_command c \<and> cmd_stdout c \<noteq> Some PIPE \<and> wf_nodes ns)"
| "wf_nodes [Chdir (Some d)] = (d \<noteq> ''&&'')"
| "wf_nodes (Chdir (Some d) # And # ns) = (d \<noteq> ''&&'' \<and> wf_nodes ns)"
| "wf_nodes ns = False"

lemma update_fresh: "k \<notin> fst ` set al \<Longrightarrow> AList.update k v al = al @ [(k, v)]"
  by (induction al) auto

lemma parse_assignments:
  assumes "p_state p = P_BEGIN" and "distinct (map fst (p_env p @ kvs))"
    and "\<forall>(k, v) \<in> set kvs. env_var_match (k @ ''='' @ v) = Some (k, v)"
  shows "block (map parse_token (map (\<lambda>(k, v). k @ ''='' @ v) kvs)) p = Inr (p\<lparr>p_env := p_env p @ kvs\<rparr>)"
  using assms
proof (induction kvs arbitrary: p)
  case (Cons kv kvs)
  obtain k v where kv: "kv = (k, v)" by (metis surj_pair)
  have "k \<notin> fst ` set (p_env p)" using Cons.prems(2) by (auto simp: kv)
  moreover have "env_var_match (k @ ''='' @ v) = Some (k, v)" using Cons.prems(3) by (simp add: kv)
  ultimately have "parse_token (k @ ''='' @ v) p = Inr (p\<lparr>p_env := p_env p @ [kv]\<rparr>)"
    using Cons.prems(1) by (simp add: parse_token_def begin_token_def update_fresh kv)
  then show ?case using Cons.IH [of "p\<lparr>p_env := p_env p @ [kv]\<rparr>"] Cons.prems by (simp add: kv)
qed simp

lemma parse_args:
  assumes "p_state p = P_COMMAND" and "current_command p = Some (Command c)" and "\<forall>a \<in> set args. a \<notin> operators"
  shows "block (map parse_token args) p = Inr (p\<lparr>current_command := Some (Command (c\<lparr>argv := argv c @ args\<rparr>))\<rparr>)"
  using assms
proof (induction args arbitrary: p c)
  case (Cons a args)
  have "a \<notin> operators" using Cons.prems(3) by simp
  then have "parse_token a p = Inr (p\<lparr>current_command := Some (Command (c\<lparr>argv := argv c @ [a]\<rparr>))\<rparr>)"
    using Cons.prems(1,2) by (simp add: operators_def parse_token_def command_token_def on_command_def)
  then show ?case
    using Cons.IH [of "p\<lparr>current_command := Some (Command (c\<lparr>argv := argv c @ [a]\<rparr>))\<rparr>" "c\<lparr>argv := argv c @ [a]\<rparr>"] Cons.prems
    by simp
qed simp

lemmas redirect_defs = parse_token_def command_token_def on_command_def set_stdin_def set_stdout_def set_stderr_def

lemma parse_redirections:
  assumes "p_state p = P_COMMAND" and "current_command p = Some (Command c0)"
    and "c0 = c\<lparr>cmd_stdin := None, cmd_stdout := None, cmd_stderr := None\<rparr>"
    and "cmd_stdout c \<noteq> Some STDOUT" and "cmd_stderr c \<noteq> Some PIPE"
  shows "block (map parse_token (redirections c)) p =
    Inr (p\<lparr>current_command := Some (Command (if cmd_stdout c = Some PIPE then c\<lparr>cmd_stdout := None\<rparr> else c))\<rparr>)"
proof -
  obtain n a i out e ev where c: "c = \<lparr>cmd_name = n, argv = a, cmd_stdin = i, cmd_stdout = out, cmd_stderr = e, env_vars = ev\<rparr>"
    by (cases c)
  obtain cur pl st en where p: "p = \<lparr>current_command = cur, pipeline = pl, p_state = st, p_env = en\<rparr>" by (cases p)
  show ?thesis
    using assms
    by (cases i; cases out; cases e; (cases "the out")?; (cases "the e")?)
      (simp_all add: c p redirections_def redirect_defs block_append)
qed

lemma parse_command:
  assumes "wf_command c" and "p_state p = P_BEGIN" and "current_command p = None" and "p_env p = []"
  shows "block (map parse_token (command_tokens c)) p =
    Inr (p\<lparr>current_command := Some (Command (if cmd_stdout c = Some PIPE then c\<lparr>cmd_stdout := None\<rparr> else c)),
           p_state := P_COMMAND\<rparr>)"
proof -
  obtain args where args: "argv c = cmd_name c # args" "\<forall>a \<in> set args. a \<notin> operators"
    using assms(1) by (auto simp: wf_command_def)
  let ?kvs = "case env_vars c of None \<Rightarrow> [] | Some kvs \<Rightarrow> kvs"
  let ?p1 = "p\<lparr>p_env := ?kvs\<rparr>"
  have "block (map parse_token (assignments (env_vars c))) p = Inr ?p1"
  proof (cases "env_vars c")
    case None
    then show ?thesis using assms(4) by (simp add: assignments_def)
  next
    case (Some kvs)
    have "distinct (map fst (p_env p @ kvs))" "\<forall>(k, v) \<in> set kvs. env_var_match (k @ ''='' @ v) = Some (k, v)"
      using assms(1,4) Some by (simp_all add: wf_command_def)
    from parse_assignments [OF assms(2) this] show ?thesis using Some assms(4) by (simp add: assignments_def)
  qed
  moreover
  let ?c1 = "(new_command (cmd_name c))\<lparr>env_vars := env_vars c\<rparr>"
  let ?p2 = "p\<lparr>current_command := Some (Command ?c1), p_state := P_COMMAND\<rparr>"
  have "parse_token (cmd_name c) ?p1 = Inr ?p2"
    using assms by (cases "env_vars c") (simp_all add: parse_token_def begin_token_def wf_command_def new_command_def)
  moreover
  let ?c2 = "?c1\<lparr>argv := argv c\<rparr>"
  let ?p3 = "?p2\<lparr>current_command := Some (Command ?c2)\<rparr>"
  have "block (map parse_token args) ?p2 = Inr ?p3"
    using parse_args [of ?p2 ?c1 args] args by (simp add: new_command_def)
  moreover
  have "?c2 = c\<lparr>cmd_stdin := None, cmd_stdout := None, cmd_stderr := None\<rparr>" by (simp add: new_command_def)
  then have "block (map parse_token (redirections c)) ?p3 =
    Inr (?p3\<lparr>current_command := Some (Command (if cmd_stdout c = Some PIPE then c\<lparr>cmd_stdout := None\<rparr> else c))\<rparr>)"
    using assms(1) by (intro parse_redirections) (simp_all add: wf_command_def)
  ultimately show ?thesis using args(1) by (simp add: command_tokens_def block_append)
qed

lemma keep_stdout: "cmd_stdout c = Some r \<Longrightarrow> c\<lparr>cmd_stdout := Some r\<rparr> = c"
  by (cases c) simp

lemma parser_begin:
  assumes "p_state p = P_BEGIN" and "current_command p = None"
  shows "p\<lparr>current_command := None, pipeline := ns, p_state := P_BEGIN\<rparr> = p\<lparr>pipeline := ns\<rparr>"
  using assms by (cases p) simp

lemma parse_nodes:
  assumes "wf_nodes ns" and "p_state p = P_BEGIN" and "current_command p = None" and "p_env p = []"
  shows "\<exists>q. block (map parse_token (unparse ns)) p = Inr q \<and> commit_command q = Inr (q\<lparr>pipeline := pipeline p @ ns, current_command := None\<rparr>)"
  using assms
proof (induction ns arbitrary: p rule: wf_nodes.induct)
  case (1 c)
  then show ?case by (simp add: parse_command commit_command_def)
next
  case (2 c ns)
  let ?p = "p\<lparr>pipeline := pipeline p @ [Command c, Pipe]\<rparr>"
  have "block (map parse_token (unparse (Command c # Pipe # ns))) p = block (map parse_token (unparse ns)) ?p"
    using 2(2-5) by (simp add: parse_command block_append parse_token_def command_token_def on_command_def set_stdout_def
        operator_def commit_command_def keep_stdout parser_begin)
  then show ?case using 2(1) [of ?p] 2(2-5) by simp
next
  case (3 c ns)
  let ?p = "p\<lparr>pipeline := pipeline p @ [Command c, And]\<rparr>"
  have "block (map parse_token (unparse (Command c # And # ns))) p = block (map parse_token (unparse ns)) ?p"
    using 3(2-5) by (simp add: parse_command block_append parse_token_def command_token_def operator_def commit_command_def
        parser_begin)
  then show ?case using 3(1) [of ?p] 3(2-5) by simp
next
  case (4 c ns)
  let ?p = "p\<lparr>pipeline := pipeline p @ [Command c, Or]\<rparr>"
  have "block (map parse_token (unparse (Command c # Or # ns))) p = block (map parse_token (unparse ns)) ?p"
    using 4(2-5) by (simp add: parse_command block_append parse_token_def command_token_def operator_def commit_command_def
        parser_begin)
  then show ?case using 4(1) [of ?p] 4(2-5) by simp
next
  case (5 d)
  have "env_var_match ''cd'' = None" by (simp add: env_var_match_def)
  then show ?case using 5 by (simp add: parse_token_def begin_token_def chdir_token_def commit_command_def)
next
  case (6 d ns)
  have e: "env_var_match ''cd'' = None" by (simp add: env_var_match_def)
  let ?p = "p\<lparr>pipeline := pipeline p @ [Chdir (Some d), And]\<rparr>"
  have "block (map parse_token (unparse (Chdir (Some d) # And # ns))) p = block (map parse_token (unparse ns)) ?p"
    using e 6(2-5) by (simp add: parse_token_def begin_token_def chdir_token_def operator_def commit_command_def
        parser_begin)
  then show ?case using 6(1) [of ?p] 6(2-5) by simp
qed simp_all

text \<open>Tokens in single quotes, separated by blanks, are split into these tokens.\<close>

definition quote :: "string \<Rightarrow> string" where
  "quote t = CHR 0x27 # t @ [CHR 0x27]"

lemma shlex_quoted:
  "CHR 0x27 \<notin> set t \<Longrightarrow> shlex (Quoted (CHR 0x27)) token True (t @ CHR 0x27 # s) = shlex Word (token @ t) True s"
  by (induction t arbitrary: token) auto

lemma shlex_words:
  assumes "\<forall>t \<in> set ts. CHR 0x27 \<notin> set t"
  shows "shlex_split (join_spaces (map quote ts)) = Inr ts"
  using assms
  by (induction ts rule: join_spaces.induct)
    (simp_all add: shlex_split_def quote_def whitespace_def quotes_def backslash_def shlex_quoted)

text \<open>
  C20. The parser inverts printing: the tokens of every pipeline of commands, with their assignments,
  arguments and redirections, and of changes of directory parse to that pipeline, and so does the
  command string in which every token is quoted (even the operators, which quotes do not protect).
\<close>

theorem shell_parse_roundtrip:
  assumes "wf_nodes ns"
  shows "parse_tokens (unparse ns) = Inr ns \<and>
    ((\<forall>t \<in> set (unparse ns). CHR 0x27 \<notin> set t) \<longrightarrow> parse (join_spaces (map quote (unparse ns))) = Inr ns)"
  using parse_nodes [OF assms, of "\<lparr>current_command = None, pipeline = [], p_state = P_BEGIN, p_env = []\<rparr>"]
  by (auto simp: parse_tokens_def parse_def shlex_words)

lemma shell_parse_roundtrip_witness:
  "parse_tokens [''A=1'', ''ls'', ''-l'', ''>'', ''f'', ''&&'', ''cd'', ''d'', ''&&'', ''cat''] =
     Inr [Command \<lparr>cmd_name = ''ls'', argv = [''ls'', ''-l''], cmd_stdin = None, cmd_stdout = Some (File ''f''),
                   cmd_stderr = None, env_vars = Some [(''A'', ''1'')]\<rparr>,
          And, Chdir (Some ''d''), And, Command (new_command ''cat'')]"
  using shell_parse_roundtrip [of "[Command \<lparr>cmd_name = ''ls'', argv = [''ls'', ''-l''], cmd_stdin = None,
      cmd_stdout = Some (File ''f''), cmd_stderr = None, env_vars = Some [(''A'', ''1'')]\<rparr>,
      And, Chdir (Some ''d''), And, Command (new_command ''cat'')]"]
  by (simp add: wf_command_def operators_def new_command_def env_var_match_def name_char_def is_white_def
      command_tokens_def assignments_def redirections_def)

section \<open>Lists of pipelines\<close>

text \<open>
  A pipeline of commands is one group; groups are joined by \<open>&&\<close> and \<open>||\<close>. \<open>run_group\<close> starts the
  commands of a group from left to right, waits for all and closes the files. In \<open>posix_lists\<close>, the
  meaning of the shell standard, a group that is not run leaves the status as it is; in \<open>code_lists\<close> the
  first group that is not run ends the whole command.
\<close>

fun run_group :: "sh_world \<Rightarrow> command list \<Rightarrow> run_state \<Rightarrow> (int \<times> run_state) result" where
  "run_group W [] s = Inl IndexError"
| "run_group W [c] s =
     ebind (start W False c s) (\<lambda>s. case exec_piped_commands W s of (r, s) \<Rightarrow> Inr (r, close_files s))"
| "run_group W (c # cs) s =
     ebind (start W False c s) (\<lambda>s. run_group W cs (s\<lparr>piping := True, display := display s @ [''|'']\<rparr>))"

definition runs_next :: "node \<Rightarrow> int \<Rightarrow> bool" where
  "runs_next op status \<longleftrightarrow> (if op = And then status = 0 else status \<noteq> 0)"

fun posix_lists :: "sh_world \<Rightarrow> (node \<times> command list) list \<Rightarrow> int \<times> run_state \<Rightarrow> (int \<times> run_state) result" where
  "posix_lists W [] x = Inr x"
| "posix_lists W ((op, g) # rest) (status, s) =
     (if runs_next op status then ebind (run_group W g (next_group s)) (posix_lists W rest)
      else posix_lists W rest (status, s))"

fun code_lists :: "sh_world \<Rightarrow> (node \<times> command list) list \<Rightarrow> int \<times> run_state \<Rightarrow> (int \<times> run_state) result" where
  "code_lists W [] x = Inr x"
| "code_lists W ((op, g) # rest) (status, s) =
     (if runs_next op status then ebind (run_group W g (next_group s)) (code_lists W rest)
      else Inr (status, s))"

fun group_nodes :: "command list \<Rightarrow> node list" where
  "group_nodes [] = []"
| "group_nodes [c] = [Command c]"
| "group_nodes (c # cs) = Command c # Pipe # group_nodes cs"

definition lists_nodes :: "(node \<times> command list) list \<Rightarrow> node list" where
  "lists_nodes rest = concat (map (\<lambda>(op, g). op # group_nodes g) rest)"

definition start_state :: run_state where
  "start_state = \<lparr>events = [], next_proc = 0, files_to_close = [], piped_commands = [], display = [],
     piping = False, cwd = ''.''\<rparr>"

text \<open>What follows a group: nothing, or an operator and the rest.\<close>

definition after_group :: "sh_world \<Rightarrow> node list \<Rightarrow> int \<times> run_state \<Rightarrow> (int option \<times> event list) result" where
  "after_group W ns x =
     (case x of (status, s) \<Rightarrow>
      case ns of
        [] \<Rightarrow> Inr (Some status, events s)
      | op # ns' \<Rightarrow> if runs_next op status then run_nodes W False ns' (next_group s) else Inr (Some status, events s))"

lemma run_nodes_group:
  assumes "g \<noteq> []" and "ns = [] \<or> hd ns = And \<or> hd ns = Or"
  shows "run_nodes W False (group_nodes g @ ns) s = ebind (run_group W g s) (after_group W ns)"
  using assms(1)
proof (induction W g s rule: run_group.induct)
  case (2 W c s)
  consider "ns = []" | ns' where "ns = And # ns'" | ns' where "ns = Or # ns'"
    using assms(2) by (cases ns) auto
  then show ?case
    by cases (simp_all add: ebind_def after_group_def runs_next_def Let_def split: sum.split prod.split)
next
  case (3 W c c' cs s)
  then show ?case by (simp add: ebind_assoc)
qed simp

lemma lists_Nil: "code_lists W [] = Inr" "posix_lists W [] = Inr"
  by (intro ext, simp)+

lemma run_nodes_lists:
  assumes "g \<noteq> []" and "\<forall>(op, g) \<in> set rest. op \<in> {And, Or} \<and> g \<noteq> []"
  shows "run_nodes W False (group_nodes g @ lists_nodes rest) s =
    ebind (ebind (run_group W g s) (code_lists W rest)) (\<lambda>(status, s). Inr (Some status, events s))"
  using assms
proof (induction rest arbitrary: g s)
  case Nil
  then show ?case
    using run_nodes_group [of g "[]" W s] by (cases "run_group W g s") (auto simp: lists_nodes_def after_group_def)
next
  case (Cons x rest)
  obtain op h where x: "x = (op, h)" by (metis surj_pair)
  have op: "op = And \<or> op = Or" and h: "h \<noteq> []" and rest: "\<forall>(op, g) \<in> set rest. op \<in> {And, Or} \<and> g \<noteq> []"
    using Cons.prems(2) by (auto simp: x)
  have n: "lists_nodes ((op, h) # rest) = op # group_nodes h @ lists_nodes rest" by (simp add: lists_nodes_def)
  have "run_nodes W False (group_nodes g @ lists_nodes (x # rest)) s =
      ebind (run_group W g s) (after_group W (lists_nodes (x # rest)))"
    using Cons.prems(1) op by (intro run_nodes_group) (auto simp: n x)
  also have "\<dots> = ebind (run_group W g s) (\<lambda>y. ebind (code_lists W (x # rest) y) (\<lambda>(status, s). Inr (Some status, events s)))"
    by (rule arg_cong [of _ _ "ebind (run_group W g s)"])
      (auto simp: fun_eq_iff n after_group_def Cons.IH [OF h rest] x)
  finally show ?case by (simp add: ebind_assoc)
qed

lemma code_lists_posix:
  assumes "\<forall>(op', g) \<in> set rest. op' = op"
  shows "code_lists W rest x = posix_lists W rest x"
proof -
  have skip: "\<not> runs_next op status \<Longrightarrow> posix_lists W rest (status, s) = Inr (status, s)"
    if "\<forall>(op', g) \<in> set rest. op' = op" for status s rest
    using that by (induction rest) auto
  show ?thesis
    using assms
  proof (induction rest arbitrary: x)
    case (Cons y rest)
    then have "code_lists W rest = posix_lists W rest" by (intro ext) simp
    then show ?case using Cons.prems skip [of rest] by (cases x; cases y) (simp add: case_prod_beta)
  qed simp
qed

lemma piped_status_last: "rs \<noteq> [] \<Longrightarrow> piped_status rs = last rs"
  by (auto simp: piped_status_def list_ex_iff)

text \<open>
  C21. Running groups joined by operators is evaluating the groups from left to right up to the first
  one that is not to be run, which ends the command; when all operators are the same this is what the
  shell standard says. The status of a group is that of its last command.
\<close>

theorem shell_runs_lists:
  assumes "g \<noteq> []" and "\<forall>(op, g) \<in> set rest. op \<in> {And, Or} \<and> g \<noteq> []"
  shows "run_pipeline W False (group_nodes g @ lists_nodes rest) =
      ebind (ebind (run_group W g start_state) (code_lists W rest)) (\<lambda>(status, s). Inr (Some status, events s)) \<and>
    ((\<forall>(op', g) \<in> set rest. op' = op) \<longrightarrow>
      run_pipeline W False (group_nodes g @ lists_nodes rest) =
      ebind (ebind (run_group W g start_state) (posix_lists W rest)) (\<lambda>(status, s). Inr (Some status, events s))) \<and>
    (\<forall>s. piped_commands s \<noteq> [] \<longrightarrow>
      fst (exec_piped_commands W s) = last (fst (wait_all W (map fst (piped_commands s)) (events s))))"
proof -
  have run: "run_pipeline W False (group_nodes g @ lists_nodes rest) =
      ebind (ebind (run_group W g start_state) (code_lists W rest)) (\<lambda>(status, s). Inr (Some status, events s))"
    using run_nodes_lists [OF assms, of W start_state] by (simp add: run_pipeline_def start_state_def)
  have posix: "code_lists W rest = posix_lists W rest" if "\<forall>(op', g) \<in> set rest. op' = op"
    using code_lists_posix [OF that] by (intro ext)
  have wait: "wait_all W ns ev = (rs, ev') \<Longrightarrow> length rs = length ns" for ns ev rs ev'
    by (induction ns arbitrary: ev rs ev') (auto simp: Let_def split: prod.splits)
  have "fst (exec_piped_commands W s) = last (fst (wait_all W (map fst (piped_commands s)) (events s)))"
    if "piped_commands s \<noteq> []" for s
  proof -
    obtain rs ev where w: "wait_all W (map fst (piped_commands s)) (events s) = (rs, ev)" by (metis surj_pair)
    then have "rs \<noteq> []" using wait [OF w] that by auto
    then show ?thesis using w by (simp add: exec_piped_commands_def piped_status_last)
  qed
  then show ?thesis using run posix by simp
qed

definition demo_world :: sh_world where
  "demo_world = \<lparr>can_read = \<lambda>ev f. True, can_write = \<lambda>ev f. True, can_start = \<lambda>ev r. True, exit_code = \<lambda>ev n. int n\<rparr>"

lemma shell_runs_lists_witness:
  "run_pipeline demo_world False [Command (new_command ''a''), And, Command (new_command ''b'')] =
     ebind (ebind (run_group demo_world [new_command ''a''] start_state) (posix_lists demo_world [(And, [new_command ''b''])]))
       (\<lambda>(status, s). Inr (Some status, events s)) \<and>
   (case run_pipeline demo_world False [Command (new_command ''a''), And, Command (new_command ''b'')] of
      Inr (status, ev) \<Rightarrow> status = Some 1 \<and> length ev = 4 | Inl e \<Rightarrow> False)"
proof -
  have "run_pipeline demo_world False [Command (new_command ''a''), And, Command (new_command ''b'')] =
     ebind (ebind (run_group demo_world [new_command ''a''] start_state) (posix_lists demo_world [(And, [new_command ''b''])]))
       (\<lambda>(status, s). Inr (Some status, events s))"
    using shell_runs_lists [of "[new_command ''a'']" "[(And, [new_command ''b''])]" demo_world And, THEN conjunct2, THEN conjunct1]
    by (simp add: lists_nodes_def del: run_group.simps)
  moreover have "case run_pipeline demo_world False [Command (new_command ''a''), And, Command (new_command ''b'')] of
      Inr (status, ev) \<Rightarrow> status = Some 1 \<and> length ev = 4 | Inl e \<Rightarrow> False"
    by code_simp
  ultimately show ?thesis by blast
qed

text \<open>In a mixed list the standard goes on after a skipped group: \<open>a || b && c\<close> runs \<open>a\<close> and \<open>c\<close>.\<close>

lemma mixed_lists_differ:
  "code_lists demo_world [(Or, [b]), (And, [c])] (0, s) = Inr (0, s)"
  "posix_lists demo_world [(Or, [b]), (And, [c])] (0, s) = ebind (run_group demo_world [c] (next_group s)) Inr"
  by (simp_all add: runs_next_def lists_Nil del: run_group.simps posix_lists.simps(1))

text \<open>In verbose mode an operator ends the run with an error, after the first group has run.\<close>

lemma verbose_lists_raise:
  assumes "start W True c start_state = Inr s" and "op \<in> {And, Or}"
  shows "run_pipeline W True (Command c # op # ns) = Inl UnboundLocalError"
  using assms by (auto simp: run_pipeline_def start_state_def [symmetric] Let_def split: prod.split)

section \<open>Files are closed\<close>

definition opened :: "event list \<Rightarrow> string multiset" where
  "opened ev = mset (concat (map (\<lambda>e. case e of Opened f \<Rightarrow> [f] | _ \<Rightarrow> []) ev))"

definition closed_names :: "event list \<Rightarrow> string multiset" where
  "closed_names ev = mset (concat (map (\<lambda>e. case e of Closed f \<Rightarrow> [f] | _ \<Rightarrow> []) ev))"

definition pending :: "stream list \<Rightarrow> string multiset" where
  "pending fs = mset (concat (map (\<lambda>f. case f of FileStream n \<Rightarrow> [n] | _ \<Rightarrow> []) fs))"

definition files_inv :: "run_state \<Rightarrow> bool" where
  "files_inv s \<longleftrightarrow> opened (events s) = closed_names (events s) + pending (files_to_close s)"

lemma log_append [simp]:
  "opened (a @ b) = opened a + opened b" "closed_names (a @ b) = closed_names a + closed_names b" "pending (fs @ gs) = pending fs + pending gs"
  by (simp_all add: opened_def closed_names_def pending_def)

lemma log_single [simp]:
  "opened [] = {#}" "closed_names [] = {#}" "pending [] = {#}"
  "opened [Opened f] = {#f#}" "closed_names [Opened f] = {#}" "opened [Started r] = {#}" "closed_names [Started r] = {#}"
  "opened [Printed w] = {#}" "closed_names [Printed w] = {#}" "opened [Waited n i] = {#}" "closed_names [Waited n i] = {#}"
  "pending [FileStream f] = {#f#}" "pending [DevNull] = {#}"
  by (simp_all add: opened_def closed_names_def pending_def)

lemma close_events_log: "opened (close_events fs) = {#} \<and> closed_names (close_events fs) = pending fs"
  by (induction fs) (auto simp: close_events_def opened_def closed_names_def pending_def split: stream.splits)

lemma files_inv_close: "files_inv s \<Longrightarrow> opened (events (close_files s)) = closed_names (events (close_files s)) \<and> files_inv (close_files s)"
  by (simp add: files_inv_def close_files_def close_events_log)

lemma wait_all_log: "wait_all W ns ev = (rs, ev') \<Longrightarrow> opened ev' = opened ev \<and> closed_names ev' = closed_names ev"
  by (induction ns arbitrary: ev rs) (auto simp: Let_def split: prod.splits)

lemma files_inv_wait: "files_inv s \<Longrightarrow> exec_piped_commands W s = (r, s') \<Longrightarrow> files_inv s'"
  by (auto simp: files_inv_def exec_piped_commands_def dest!: wait_all_log split: prod.splits)

lemma show_line_frame [simp]: "files_inv (show_line v ws s) = files_inv s"
  by (simp add: show_line_def files_inv_def)

lemma files_inv_opened: "files_inv s \<Longrightarrow> files_inv (s\<lparr>events := events s @ [Opened f], files_to_close := files_to_close s @ [FileStream f]\<rparr>)"
  by (simp add: files_inv_def)

lemma files_inv_stdin: "files_inv s \<Longrightarrow> stdin_of W v c s = Inr (i, s') \<Longrightarrow> files_inv s'"
  by (auto simp: stdin_of_def open_in_def ebind_Inr_iff files_inv_opened split: if_splits option.splits)

lemma files_inv_out: "files_inv s \<Longrightarrow> out_stream W v m r s = Inr (h, s') \<Longrightarrow> files_inv s'"
  by (auto simp: out_stream_def open_out_file_def ebind_Inr_iff files_inv_opened files_inv_def show_line_def
      split: if_splits option.splits redirect.splits)

lemma files_inv_start:
  assumes "files_inv s" and "start W v c s = Inr s'"
  shows "files_inv s'"
proof -
  let ?env = "case env_vars c of Some kvs \<Rightarrow> if kvs = [] then None else Some kvs | None \<Rightarrow> None"
  let ?words = "case ?env of Some kvs \<Rightarrow> join_spaces (env_text kvs) @ '' '' @ join_spaces (argv c) | None \<Rightarrow> join_spaces (argv c)"
  obtain i s1 out s2 err s3 where
    a: "stdin_of W v c (show_line v [?words] s) = Inr (i, s1)" "out_stream W v ''> '' (cmd_stdout c) s1 = Inr (out, s2)"
      "out_stream W v ''2> '' (cmd_stderr c) s2 = Inr (err, s3)"
    and s': "\<exists>r. events s' = events s3 @ [Started r]" "files_to_close s' = files_to_close s3"
    using assms(2) unfolding start_def Let_def by (auto simp: ebind_Inr_iff split: if_splits)
  have "files_inv s3"
    using assms(1) files_inv_stdin [OF _ a(1)] files_inv_out [OF _ a(2)] files_inv_out [OF _ a(3)] by simp
  then show ?thesis using s' by (auto simp: files_inv_def)
qed

lemma files_inv_frame [simp]:
  "files_inv (s\<lparr>piping := b, display := d\<rparr>) = files_inv s" "files_inv (s\<lparr>cwd := w\<rparr>) = files_inv s"
  "files_inv (next_group s) = files_inv s" "files_inv (s\<lparr>events := events s @ [Printed l]\<rparr>) = files_inv s"
  by (simp_all add: files_inv_def next_group_def)

lemma run_nodes_closes:
  assumes "run_nodes W v ns s = Inr (Some r, ev)" and "files_inv s"
  shows "opened ev = closed_names ev"
  using assms
proof (induction W v ns s rule: run_nodes.induct)
  case (2 W v d ns s)
  then show ?case by (auto split: list.splits node.splits option.splits)
next
  case (3 W v c ns s)
  obtain t where t: "start W v c s = Inr t" using "3.prems"(1) by (auto simp: ebind_Inr_iff)
  have inv: "files_inv t" using files_inv_start [OF "3.prems"(2) t] .
  obtain retval u where w: "exec_piped_commands W t = (retval, u)" by (metis surj_pair)
  have u: "files_inv u" using files_inv_wait [OF inv w] .
  note c = files_inv_close [OF u]
  show ?case
  proof (cases ns)
    case Nil
    have "files_inv (u\<lparr>events := events u @ [Printed l]\<rparr>)" for l using u by simp
    from files_inv_close [OF this] c show ?thesis using "3.prems"(1) t w Nil by (auto simp: Let_def split: if_splits)
  next
    case (Cons n ns')
    then show ?thesis using 3 t w inv c by (cases n) (auto simp: Let_def split: if_splits, metis+)
  qed
qed auto

text \<open>
  C22. A run that returns an exit code has closed every file it opened, each as often as it was opened,
  whichever way it ended; the null device is never closed.
\<close>

theorem shell_closes_files:
  assumes "run_pipeline W verbose ns = Inr (Some status, ev)"
  shows "mset (concat (map (\<lambda>e. case e of Opened f \<Rightarrow> [f] | _ \<Rightarrow> []) ev)) =
    mset (concat (map (\<lambda>e. case e of Closed f \<Rightarrow> [f] | _ \<Rightarrow> []) ev))"
proof -
  have "opened ev = closed_names ev"
    by (rule run_nodes_closes [OF assms [unfolded run_pipeline_def]]) (simp add: files_inv_def)
  then show ?thesis by (simp add: opened_def closed_names_def)
qed

lemma shell_closes_files_witness:
  "\<exists>ev. run_pipeline demo_world False [Command ((new_command ''ls'')\<lparr>cmd_stdout := Some (File ''f'')\<rparr>)] = Inr (Some 0, ev) \<and>
     mset (concat (map (\<lambda>e. case e of Opened f \<Rightarrow> [f] | _ \<Rightarrow> []) ev)) =
     mset (concat (map (\<lambda>e. case e of Closed f \<Rightarrow> [f] | _ \<Rightarrow> []) ev))"
proof -
  have "run_pipeline demo_world False [Command ((new_command ''ls'')\<lparr>cmd_stdout := Some (File ''f'')\<rparr>)] =
    Inr (Some 0, snd (projr (run_pipeline demo_world False [Command ((new_command ''ls'')\<lparr>cmd_stdout := Some (File ''f'')\<rparr>)])))"
    by code_simp
  with shell_closes_files [OF this] show ?thesis by blast
qed

end
