(* ===== verification/CheckStyle.thy ===== *)
theory CheckStyle
  imports Ns3Util PyText
begin

text \<open>
  \<open>utils/check-style.py\<close>: the style checker reads the unified diff between a source file and its
  reformatted copy, drops the changes that only remove trailing white space, and writes the rest as a patch.
  The formatter, \<open>difflib\<close> and the \<open>patch\<close> program are arguments of the model; a diff is the list
  of its lines, with their newlines.
\<close>

section \<open>Patches\<close>

datatype line_kind = Unset | SRC | DST | BOTH

record patch_line =
  kind :: line_kind
  line_text :: string

record patch_chunk =
  chunk_lines :: "patch_line list"
  src_pos :: int
  dst_pos :: int

record patch =
  patch_src :: string
  patch_dst :: string
  chunks :: "patch_chunk list"

definition new_patch :: patch where
  "new_patch = \<lparr>patch_src = '''', patch_dst = '''', chunks = []\<rparr>"

definition new_line :: "line_kind \<Rightarrow> string \<Rightarrow> patch_line" where
  "new_line k t = \<lparr>kind = k, line_text = t\<rparr>"

definition append_to_line :: "string \<Rightarrow> patch_line \<Rightarrow> patch_line" where
  "append_to_line s l = l\<lparr>line_text := line_text l @ s\<rparr>"

definition is_src :: "patch_line \<Rightarrow> bool" where
  "is_src l \<longleftrightarrow> kind l = SRC \<or> kind l = BOTH"

definition is_dst :: "patch_line \<Rightarrow> bool" where
  "is_dst l \<longleftrightarrow> kind l = DST \<or> kind l = BOTH"

definition write_line :: "patch_line \<Rightarrow> string result" where
  "write_line l =
     (case kind l of
        SRC \<Rightarrow> Inr (''-'' @ line_text l @ [newline])
      | DST \<Rightarrow> Inr (''+'' @ line_text l @ [newline])
      | BOTH \<Rightarrow> Inr ('' '' @ line_text l @ [newline])
      | Unset \<Rightarrow> Inl (GenericException ''invalid patch''))"

fun write_all :: "('a \<Rightarrow> string list result) \<Rightarrow> 'a list \<Rightarrow> string list result" where
  "write_all f [] = Inr []"
| "write_all f (x # xs) = ebind (f x) (\<lambda>a. ebind (write_all f xs) (\<lambda>b. Inr (a @ b)))"

text \<open>Objects are shared, so a chunk refers to its lines by their positions.\<close>

definition src_refs :: "patch_line list \<Rightarrow> nat list" where
  "src_refs ls = filter (\<lambda>i. is_src (ls ! i)) [0..<length ls]"

definition dst_refs :: "patch_line list \<Rightarrow> nat list" where
  "dst_refs ls = filter (\<lambda>i. is_dst (ls ! i)) [0..<length ls]"

definition write_chunk :: "patch_chunk \<Rightarrow> string list result" where
  "write_chunk c =
     ebind (write_all (\<lambda>l. ebind (write_line l) (\<lambda>w. Inr [w])) (chunk_lines c)) (\<lambda>ws.
     Inr ((''@@ -'' @ py_str (PyInt (src_pos c)) @ '','' @ digits (length (src_refs (chunk_lines c))) @
           '' +'' @ py_str (PyInt (dst_pos c)) @ '','' @ digits (length (dst_refs (chunk_lines c))) @ '' @@'' @ [newline]) # ws))"

definition write_patch :: "patch \<Rightarrow> string list result" where
  "write_patch p =
     ebind (write_all write_chunk (chunks p)) (\<lambda>ws.
     Inr ((''--- '' @ patch_src p @ [newline]) # (''+++ '' @ patch_dst p @ [newline]) # ws))"

section \<open>Reading a patch\<close>

text \<open>
  The expressions \<open>^--- (.*)$\<close> and the like: the dot stops at a newline, and the dollar matches
  at the end or before a newline at the end.
\<close>

definition chomp :: "string \<Rightarrow> string" where
  "chomp s = (if s \<noteq> [] \<and> last s = newline then butlast s else s)"

definition after_prefix :: "string \<Rightarrow> string \<Rightarrow> string option" where
  "after_prefix p s =
     (if take (length p) s = p \<and> newline \<notin> set (chomp (drop (length p) s)) then Some (chomp (drop (length p) s)) else None)"

definition is_digit :: "char \<Rightarrow> bool" where
  "is_digit c \<longleftrightarrow> of_char c \<in> ({48..57} :: nat set)"

definition dec_value :: "string \<Rightarrow> int" where
  "dec_value ds = foldl (\<lambda>v c. v * 10 + (int (of_char c) - 48)) 0 ds"

definition read_number :: "string \<Rightarrow> (string \<times> string) option" where
  "read_number s = (let ds = takeWhile is_digit s in if ds = [] then None else Some (ds, dropWhile is_digit s))"

definition expect :: "string \<Rightarrow> string \<Rightarrow> string option" where
  "expect p s = (if take (length p) s = p then Some (drop (length p) s) else None)"

definition obind :: "'a option \<Rightarrow> ('a \<Rightarrow> 'b option) \<Rightarrow> 'b option" where
  "obind x f = (case x of None \<Rightarrow> None | Some y \<Rightarrow> f y)"

lemma obind_simps [simp]: "obind None f = None" "obind (Some x) f = f x"
  by (simp_all add: obind_def)

definition chunk_start :: "string \<Rightarrow> (string \<times> string) option" where
  "chunk_start s =
     obind (expect ''@@ -'' s) (\<lambda>s. obind (read_number s) (\<lambda>(a, s).
     obind (expect '','' s) (\<lambda>s. obind (read_number s) (\<lambda>(_, s).
     obind (expect '' +'' s) (\<lambda>s. obind (read_number s) (\<lambda>(b, s).
     obind (expect '','' s) (\<lambda>s. obind (read_number s) (\<lambda>(_, s).
     obind (expect '' @@'' s) (\<lambda>_. Some (a, b))))))))))"

text \<open>
  The patches read so far; the current patch is the last one, the current chunk the one made last,
  which need not belong to the last patch.
\<close>

record patch_reader =
  patchset :: "patch list"
  current_chunk :: "(nat \<times> nat) option"

definition add_chunk :: "patch_chunk \<Rightarrow> patch_reader \<Rightarrow> patch_reader result" where
  "add_chunk c r =
     (if patchset r = [] then Inl AttributeError
      else
        let i = length (patchset r) - 1; p = patchset r ! i in
        Inr (r\<lparr>patchset := (patchset r)[i := p\<lparr>chunks := chunks p @ [c]\<rparr>], current_chunk := Some (i, length (chunks p))\<rparr>))"

definition add_line :: "patch_line \<Rightarrow> patch_reader \<Rightarrow> patch_reader result" where
  "add_line l r =
     (case current_chunk r of
        None \<Rightarrow> Inl (NameError ''current_chunk'')
      | Some (i, j) \<Rightarrow>
          (let p = patchset r ! i; c = chunks p ! j in
           Inr (r\<lparr>patchset := (patchset r)[i := p\<lparr>chunks := (chunks p)[j := c\<lparr>chunk_lines := chunk_lines c @ [l]\<rparr>]\<rparr>]\<rparr>)))"

definition set_patch_dst :: "string \<Rightarrow> patch_reader \<Rightarrow> patch_reader result" where
  "set_patch_dst d r =
     (if patchset r = [] then Inl AttributeError
      else Inr (r\<lparr>patchset := butlast (patchset r) @ [(last (patchset r))\<lparr>patch_dst := d\<rparr>]\<rparr>))"

definition read_line :: "string \<Rightarrow> patch_reader \<Rightarrow> patch_reader result" where
  "read_line line r =
     (case after_prefix ''--- '' line of
        Some f \<Rightarrow> Inr (r\<lparr>patchset := patchset r @ [new_patch\<lparr>patch_src := f\<rparr>]\<rparr>)
      | None \<Rightarrow>
     (case after_prefix ''+++ '' line of
        Some f \<Rightarrow> set_patch_dst f r
      | None \<Rightarrow>
     (case chunk_start line of
        Some (a, b) \<Rightarrow> add_chunk \<lparr>chunk_lines = [], src_pos = dec_value a, dst_pos = dec_value b\<rparr> r
      | None \<Rightarrow>
     (case after_prefix ''-'' line of
        Some t \<Rightarrow> add_line (new_line SRC t) r
      | None \<Rightarrow>
     (case after_prefix ''+'' line of
        Some t \<Rightarrow> add_line (new_line DST t) r
      | None \<Rightarrow>
     (case after_prefix '' '' line of
        Some t \<Rightarrow> add_line (new_line BOTH t) r
      | None \<Rightarrow> Inl (GenericException '''')))))))"

definition parse_patchset :: "string list \<Rightarrow> patch list result" where
  "parse_patchset lines =
     ebind (block (map read_line lines) \<lparr>patchset = [], current_chunk = None\<rparr>) (\<lambda>r. Inr (patchset r))"

section \<open>Dropping changes of trailing white space\<close>

text \<open>
  \<open>^(.*)([ \t]+)$\<close> is greedy: the second group is the last blank alone.
\<close>

definition blank :: "char \<Rightarrow> bool" where
  "blank c \<longleftrightarrow> c = CHR '' '' \<or> c = CHR 0x09"

definition whitespace_match :: "string \<Rightarrow> (string \<times> string) option" where
  "whitespace_match t =
     (let u = chomp t in
      if newline \<notin> set u \<and> u \<noteq> [] \<and> blank (last u) then Some (butlast u, [last u]) else None)"

definition fix_pair :: "nat \<times> nat \<Rightarrow> patch_line list \<Rightarrow> patch_line list" where
  "fix_pair sd ls =
     (case sd of (s, d) \<Rightarrow>
      case whitespace_match (line_text (ls ! s)) of
        None \<Rightarrow> ls
      | Some (g1, g2) \<Rightarrow> if g1 = line_text (ls ! d) then ls[d := append_to_line g2 (ls ! d)] else ls)"

text \<open>
  A chunk with more source than destination lines ends in an \<open>IndexError\<close> that ends the whole function;
  the second component says whether the loop came to its end.
\<close>

definition fix_lines :: "patch_line list \<Rightarrow> patch_line list \<times> bool" where
  "fix_lines ls =
     (fold fix_pair (zip (src_refs ls) (dst_refs ls)) ls, length (src_refs ls) \<le> length (dst_refs ls))"

fun fix_chunks :: "patch_chunk list \<Rightarrow> patch_chunk list \<times> bool" where
  "fix_chunks [] = ([], True)"
| "fix_chunks (c # cs) =
     (case fix_lines (chunk_lines c) of (ls, go) \<Rightarrow>
      if go then (case fix_chunks cs of (cs', go) \<Rightarrow> (c\<lparr>chunk_lines := ls\<rparr> # cs', go))
      else (c\<lparr>chunk_lines := ls\<rparr> # cs, False))"

fun fix_patches :: "patch list \<Rightarrow> patch list" where
  "fix_patches [] = []"
| "fix_patches (p # ps) =
     (case fix_chunks (chunks p) of (cs, go) \<Rightarrow>
      p\<lparr>chunks := cs\<rparr> # (if go then fix_patches ps else ps))"

definition remove_trailing_whitespace_changes :: "string list \<Rightarrow> patch list result" where
  "remove_trailing_whitespace_changes lines = ebind (parse_patchset lines) (\<lambda>ps. Inr (fix_patches ps))"

section \<open>Checking files\<close>

text \<open>
  \<open>indent\<close>: the diff is a generator. With \<open>debug\<close> it is written to a file first, which uses it up.
\<close>

definition final_diff :: "bool \<Rightarrow> int \<Rightarrow> string list \<Rightarrow> string list result" where
  "final_diff debug level diff =
     (let rest = (if debug then [] else diff) in
      if level < 3 then
        ebind (remove_trailing_whitespace_changes rest) (\<lambda>ps. if ps \<noteq> [] then write_patch (hd ps) else Inr [])
      else Inr rest)"

record style_tools =
  uncrustify :: "int \<Rightarrow> string \<Rightarrow> string"
  unified_diff :: "string \<Rightarrow> string \<Rightarrow> string list"
  patch_program :: "string list \<Rightarrow> string \<Rightarrow> string"

definition indent :: "style_tools \<Rightarrow> bool \<Rightarrow> int \<Rightarrow> string \<Rightarrow> string result" where
  "indent T debug level source =
     ebind (final_diff debug level (unified_diff T source (uncrustify T level source))) (\<lambda>d.
     Inr (patch_program T d source))"

fun indent_all :: "style_tools \<Rightarrow> bool \<Rightarrow> int \<Rightarrow> (string \<Rightarrow> string) \<Rightarrow> string list \<Rightarrow> (string \<times> string) list result" where
  "indent_all T debug level read [] = Inr []"
| "indent_all T debug level read (f # fs) =
     ebind (indent T debug level (read f)) (\<lambda>dst.
     ebind (indent_all T debug level read fs) (\<lambda>output. Inr ((f, dst) # output)))"

text \<open>The answer, and the contents of the files afterwards.\<close>

definition indent_files ::
  "style_tools \<Rightarrow> bool \<Rightarrow> int \<Rightarrow> bool \<Rightarrow> (string \<Rightarrow> string) \<Rightarrow> string list \<Rightarrow> (bool \<times> (string \<Rightarrow> string)) result" where
  "indent_files T debug level inplace read files =
     ebind (indent_all T debug level read files) (\<lambda>output.
     if inplace then Inr (True, fold (\<lambda>(src, dst) fs. fs(src := dst)) output read)
     else Inr (list_all (\<lambda>(src, dst). read src = dst) output, read))"

section \<open>Numbers and lines\<close>

lemma dec_value_snoc: "dec_value (ds @ [c]) = dec_value ds * 10 + (int (of_char c) - 48)"
  by (simp add: dec_value_def)

lemma digit_char:
  assumes "n < 10"
  shows "is_digit (char_of (48 + n))" and "int (of_char (char_of (48 + n) :: char)) = 48 + int n"
  using assms by (simp_all add: is_digit_def)

lemma digits_number: "dec_value (digits n) = int n \<and> list_all is_digit (digits n) \<and> digits n \<noteq> []"
proof (induction n rule: digits.induct)
  case (1 n)
  have m: "n mod 10 < 10" by simp
  show ?case
  proof (cases "n < 10")
    case True
    then show ?thesis using digit_char [of n] dec_value_snoc [of "[]"] by (simp add: digits.simps [of n] dec_value_def)
  next
    case False
    then have "dec_value (digits n) = int (n div 10) * 10 + int (n mod 10)"
      using 1 by (simp add: digits.simps [of n] dec_value_snoc digit_char(2) [OF m])
    then have "dec_value (digits n) = int n" by (simp add: zdiv_int zmod_int)
    then show ?thesis using 1 False digit_char(1) [OF m] by (simp add: digits.simps [of n])
  qed
qed

lemma read_digits: "\<not> is_digit c \<Longrightarrow> read_number (digits n @ c # s) = Some (digits n, c # s)"
  using digits_number [of n] by (simp add: read_number_def list_all_iff takeWhile_append2 dropWhile_append2)

definition chunk_header :: "nat \<Rightarrow> nat \<Rightarrow> nat \<Rightarrow> nat \<Rightarrow> string" where
  "chunk_header a m b n =
     ''@@ -'' @ digits a @ '','' @ digits m @ '' +'' @ digits b @ '','' @ digits n @ '' @@'' @ [newline]"

lemma chunk_start_header: "chunk_start (chunk_header a m b n) = Some (digits a, digits b)"
proof -
  have "\<not> is_digit CHR '',''" "\<not> is_digit CHR '' ''" by (simp_all add: is_digit_def)
  then show ?thesis by (simp add: chunk_start_def chunk_header_def expect_def read_digits)
qed

lemma chomp_newline [simp]: "chomp (s @ [newline]) = s"
  by (simp add: chomp_def)

lemma after_prefix_other: "take (length p) s \<noteq> p \<Longrightarrow> after_prefix p s = None"
  by (simp add: after_prefix_def)

lemma after_prefix_line: "newline \<notin> set t \<Longrightarrow> after_prefix p (p @ t @ [newline]) = Some t"
  using chomp_newline [of t] by (simp add: after_prefix_def)

lemma chunk_start_other: "take 4 s \<noteq> ''@@ -'' \<Longrightarrow> chunk_start s = None"
  by (simp add: chunk_start_def expect_def numeral_eq_Suc)

section \<open>Reading what was written\<close>

definition wf_line :: "patch_line \<Rightarrow> bool" where
  "wf_line l \<longleftrightarrow> kind l \<noteq> Unset \<and> newline \<notin> set (line_text l) \<and>
     (kind l = SRC \<longrightarrow> take 3 (line_text l) \<noteq> ''-- '') \<and> (kind l = DST \<longrightarrow> take 3 (line_text l) \<noteq> ''++ '')"

definition wf_chunk :: "patch_chunk \<Rightarrow> bool" where
  "wf_chunk c \<longleftrightarrow> 0 \<le> src_pos c \<and> 0 \<le> dst_pos c \<and> (\<forall>l \<in> set (chunk_lines c). wf_line l)"

definition wf_patch :: "patch \<Rightarrow> bool" where
  "wf_patch p \<longleftrightarrow> newline \<notin> set (patch_src p) \<and> newline \<notin> set (patch_dst p) \<and> (\<forall>c \<in> set (chunks p). wf_chunk c)"

lemma read_written_line:
  assumes "wf_line l"
  shows "\<exists>w. write_line l = Inr w \<and> read_line w r = add_line l r"
proof -
  obtain k t where l: "l = \<lparr>kind = k, line_text = t\<rparr>" by (cases l)
  have n: "newline \<notin> set t" using assms by (simp add: l wf_line_def)
  have src: "after_prefix ''-'' (''-'' @ t @ [newline]) = Some t" "after_prefix ''+'' (''+'' @ t @ [newline]) = Some t"
    "after_prefix '' '' ('' '' @ t @ [newline]) = Some t"
    using after_prefix_line [OF n] by blast+
  have h: "after_prefix ''--- '' (''-'' @ t @ [newline]) = None" if "take 3 t \<noteq> ''-- ''"
    using that by (intro after_prefix_other) (auto simp: newline_def take_Cons' numeral_eq_Suc split: if_splits)
  have h': "after_prefix ''+++ '' (''+'' @ t @ [newline]) = None" if "take 3 t \<noteq> ''++ ''"
    using that by (intro after_prefix_other) (auto simp: newline_def take_Cons' numeral_eq_Suc split: if_splits)
  show ?thesis
    using assms src h h'
    by (cases k)
      (simp_all add: l wf_line_def write_line_def read_line_def new_line_def after_prefix_other chunk_start_other)
qed

lemma read_written_lines:
  assumes "\<forall>l \<in> set ls. wf_line l" and "patchset r = ps @ [p\<lparr>chunks := cs @ [c]\<rparr>]"
    and "current_chunk r = Some (length ps, length cs)"
  shows "\<exists>ws. write_all (\<lambda>l. ebind (write_line l) (\<lambda>w. Inr [w])) ls = Inr ws \<and>
    block (map read_line ws) r =
      Inr (r\<lparr>patchset := ps @ [p\<lparr>chunks := cs @ [c\<lparr>chunk_lines := chunk_lines c @ ls\<rparr>]\<rparr>]\<rparr>)"
  using assms
proof (induction ls arbitrary: r c)
  case (Cons l ls)
  have "wf_line l" using Cons.prems(1) by simp
  then obtain w where w: "write_line l = Inr w" "read_line w r = add_line l r" using read_written_line by blast
  let ?c = "c\<lparr>chunk_lines := chunk_lines c @ [l]\<rparr>"
  let ?r = "r\<lparr>patchset := ps @ [p\<lparr>chunks := cs @ [?c]\<rparr>]\<rparr>"
  have "add_line l r = Inr ?r" using Cons.prems(2,3) by (simp add: add_line_def Let_def)
  moreover obtain ws where "write_all (\<lambda>l. ebind (write_line l) (\<lambda>w. Inr [w])) ls = Inr ws"
    "block (map read_line ws) ?r = Inr (?r\<lparr>patchset := ps @ [p\<lparr>chunks := cs @ [?c\<lparr>chunk_lines := chunk_lines ?c @ ls\<rparr>]\<rparr>]\<rparr>)"
    using Cons.IH [of ?r ?c] Cons.prems by auto
  ultimately show ?case using w by simp
qed (cases r; simp)

lemma read_written_chunk:
  assumes "wf_chunk c" and "patchset r = ps @ [p\<lparr>chunks := cs\<rparr>]"
  shows "\<exists>ws. write_chunk c = Inr ws \<and>
    block (map read_line ws) r = Inr (r\<lparr>patchset := ps @ [p\<lparr>chunks := cs @ [c]\<rparr>], current_chunk := Some (length ps, length cs)\<rparr>)"
proof -
  let ?c = "c\<lparr>chunk_lines := []\<rparr>"
  let ?r = "r\<lparr>patchset := ps @ [p\<lparr>chunks := cs @ [?c]\<rparr>], current_chunk := Some (length ps, length cs)\<rparr>"
  obtain a b where ab: "src_pos c = int a" "dst_pos c = int b"
    using assms(1) by (metis wf_chunk_def nonneg_int_cases)
  let ?h = "chunk_header a (length (src_refs (chunk_lines c))) b (length (dst_refs (chunk_lines c)))"
  have "read_line ?h r = add_chunk \<lparr>chunk_lines = [], src_pos = dec_value (digits a), dst_pos = dec_value (digits b)\<rparr> r"
  proof -
    have "after_prefix ''--- '' ?h = None" "after_prefix ''+++ '' ?h = None"
      by (rule after_prefix_other, simp add: chunk_header_def)+
    then show ?thesis by (simp add: read_line_def chunk_start_header)
  qed
  also have "\<dots> = Inr ?r"
    using assms(2) digits_number [of a] digits_number [of b] ab by (cases c) (simp add: add_chunk_def Let_def)
  finally have h: "read_line ?h r = Inr ?r" .
  obtain ws where "write_all (\<lambda>l. ebind (write_line l) (\<lambda>w. Inr [w])) (chunk_lines c) = Inr ws"
    "block (map read_line ws) ?r = Inr (?r\<lparr>patchset := ps @ [p\<lparr>chunks := cs @ [?c\<lparr>chunk_lines := chunk_lines ?c @ chunk_lines c\<rparr>]\<rparr>]\<rparr>)"
    using read_written_lines [where ls = "chunk_lines c" and r = ?r and ps = ps and p = p and cs = cs and c = ?c] assms(1) by (auto simp: wf_chunk_def)
  then show ?thesis using h ab by (simp add: write_chunk_def chunk_header_def)
qed

lemma read_written_chunks:
  assumes "\<forall>c \<in> set cs. wf_chunk c" and "patchset r = ps @ [p\<lparr>chunks := cs0\<rparr>]"
  shows "\<exists>ws x. write_all write_chunk cs = Inr ws \<and>
    block (map read_line ws) r = Inr (r\<lparr>patchset := ps @ [p\<lparr>chunks := cs0 @ cs\<rparr>], current_chunk := x\<rparr>)"
  using assms
proof (induction cs arbitrary: r cs0)
  case Nil
  then show ?case by (intro exI [of _ "[]"] exI [of _ "current_chunk r"]) (cases r; simp)
next
  case (Cons c cs)
  let ?r = "r\<lparr>patchset := ps @ [p\<lparr>chunks := cs0 @ [c]\<rparr>], current_chunk := Some (length ps, length cs0)\<rparr>"
  obtain ws where ws: "write_chunk c = Inr ws" "block (map read_line ws) r = Inr ?r"
    using read_written_chunk [where c = c and r = r and ps = ps and p = p and cs = cs0] Cons.prems by auto
  obtain vs x where "write_all write_chunk cs = Inr vs"
    "block (map read_line vs) ?r = Inr (?r\<lparr>patchset := ps @ [p\<lparr>chunks := (cs0 @ [c]) @ cs\<rparr>], current_chunk := x\<rparr>)"
    using Cons.IH [of ?r "cs0 @ [c]"] Cons.prems by auto
  then show ?case using ws by (intro exI [of _ "ws @ vs"] exI [of _ x]) (simp add: block_append)
qed

lemma read_written_patch:
  assumes "wf_patch p"
  shows "\<exists>ws x. write_patch p = Inr ws \<and>
    block (map read_line ws) r = Inr (r\<lparr>patchset := patchset r @ [p], current_chunk := x\<rparr>)"
proof -
  let ?p = "\<lparr>patch_src = patch_src p, patch_dst = patch_dst p, chunks = []\<rparr>"
  have src: "read_line (''--- '' @ patch_src p @ [newline]) r = Inr (r\<lparr>patchset := patchset r @ [new_patch\<lparr>patch_src := patch_src p\<rparr>]\<rparr>)"
    using assms after_prefix_line [of "patch_src p" "''--- ''"] by (simp add: read_line_def wf_patch_def)
  have dst: "read_line (''+++ '' @ patch_dst p @ [newline]) (r\<lparr>patchset := patchset r @ [new_patch\<lparr>patch_src := patch_src p\<rparr>]\<rparr>) =
      Inr (r\<lparr>patchset := patchset r @ [?p]\<rparr>)"
    using assms after_prefix_line [of "patch_dst p" "''+++ ''"]
    by (simp add: read_line_def wf_patch_def after_prefix_other set_patch_dst_def new_patch_def)
  obtain ws x where "write_all write_chunk (chunks p) = Inr ws"
    "block (map read_line ws) (r\<lparr>patchset := patchset r @ [?p]\<rparr>) =
       Inr ((r\<lparr>patchset := patchset r @ [?p]\<rparr>)\<lparr>patchset := patchset r @ [?p\<lparr>chunks := [] @ chunks p\<rparr>], current_chunk := x\<rparr>)"
    using read_written_chunks [where cs = "chunks p" and r = "r\<lparr>patchset := patchset r @ [?p]\<rparr>" and ps = "patchset r" and p = ?p and ?cs0.0 = "[]"] assms
    by (auto simp: wf_patch_def)
  moreover have "\<lparr>patch_src = patch_src p, patch_dst = patch_dst p, chunks = chunks p\<rparr> = p" by (cases p) simp
  ultimately show ?thesis using src dst
    by (intro exI [of _ "(''--- '' @ patch_src p @ [newline]) # (''+++ '' @ patch_dst p @ [newline]) # ws"] exI [of _ x])
      (simp add: write_patch_def)
qed

text \<open>
  C23. A set of patches is read back as it was written, when no text holds a newline, every line has a
  kind, and no removed line begins with two dashes and a blank and no added one with two plus signs and a blank
  (with its mark such a line looks like the header of a file).
\<close>

theorem patch_roundtrip:
  assumes "\<forall>p \<in> set ps. wf_patch p"
  shows "\<exists>ws. write_all write_patch ps = Inr ws \<and> parse_patchset ws = Inr ps"
proof -
  have "\<exists>ws x. write_all write_patch ps = Inr ws \<and>
      block (map read_line ws) r = Inr (r\<lparr>patchset := patchset r @ ps, current_chunk := x\<rparr>)" for r
    using assms
  proof (induction ps arbitrary: r)
    case Nil
    show ?case by (intro exI [of _ "[]"] exI [of _ "current_chunk r"]) (cases r; simp)
  next
    case (Cons p ps)
    obtain ws x where w: "write_patch p = Inr ws" "block (map read_line ws) r = Inr (r\<lparr>patchset := patchset r @ [p], current_chunk := x\<rparr>)"
      using read_written_patch [of p r] Cons.prems by auto
    obtain vs y where "write_all write_patch ps = Inr vs"
      "block (map read_line vs) (r\<lparr>patchset := patchset r @ [p], current_chunk := x\<rparr>) =
        Inr (r\<lparr>patchset := (patchset r @ [p]) @ ps, current_chunk := y\<rparr>)"
      using Cons.IH [of "r\<lparr>patchset := patchset r @ [p], current_chunk := x\<rparr>"] Cons.prems by auto
    then show ?case using w by (intro exI [of _ "ws @ vs"] exI [of _ y]) (simp add: block_append)
  qed
  from this [of "\<lparr>patchset = [], current_chunk = None\<rparr>"] show ?thesis by (auto simp: parse_patchset_def)
qed

lemma patch_roundtrip_witness:
  "\<exists>ws. write_all write_patch [\<lparr>patch_src = ''a'', patch_dst = ''b'',
      chunks = [\<lparr>chunk_lines = [new_line SRC ''x '', new_line DST ''x'', new_line BOTH ''y''], src_pos = 3, dst_pos = 3\<rparr>]\<rparr>] = Inr ws \<and>
    parse_patchset ws = Inr [\<lparr>patch_src = ''a'', patch_dst = ''b'',
      chunks = [\<lparr>chunk_lines = [new_line SRC ''x '', new_line DST ''x'', new_line BOTH ''y''], src_pos = 3, dst_pos = 3\<rparr>]\<rparr>]"
  by (rule patch_roundtrip) (simp add: wf_patch_def wf_chunk_def wf_line_def new_line_def newline_def)

section \<open>Which changes are dropped\<close>

definition one_blank_more :: "patch_line \<Rightarrow> patch_line \<Rightarrow> bool" where
  "one_blank_more s d \<longleftrightarrow> (\<exists>w. blank w \<and> line_text s = line_text d @ [w])"

lemma whitespace_match_line:
  assumes "newline \<notin> set t"
  shows "whitespace_match t = (if t \<noteq> [] \<and> blank (last t) then Some (butlast t, [last t]) else None)"
proof -
  have "chomp t = t" using assms by (auto simp: chomp_def dest: last_in_set)
  then show ?thesis using assms by (simp add: whitespace_match_def)
qed

lemma fix_pair_line:
  assumes "newline \<notin> set (line_text (ls ! s))"
  shows "fix_pair (s, d) ls = (if one_blank_more (ls ! s) (ls ! d) then ls[d := (ls ! d)\<lparr>line_text := line_text (ls ! s)\<rparr>] else ls)"
proof (cases "one_blank_more (ls ! s) (ls ! d)")
  case True
  then obtain w where "blank w" "line_text (ls ! s) = line_text (ls ! d) @ [w]" by (auto simp: one_blank_more_def)
  then show ?thesis using True whitespace_match_line [OF assms] by (simp add: fix_pair_def append_to_line_def)
next
  case False
  then show ?thesis
    using whitespace_match_line [OF assms]
    by (auto simp: fix_pair_def one_blank_more_def split: if_splits) (metis append_butlast_last_id)
qed

text \<open>Pairs that change added lines only leave the other lines, and do not disturb one another.\<close>

definition fix_ok :: "patch_line list \<Rightarrow> (nat \<times> nat) list \<Rightarrow> bool" where
  "fix_ok ls ps \<longleftrightarrow> distinct (map snd ps) \<and> (\<forall>(s, d) \<in> set ps. d < length ls \<and> kind (ls ! s) \<noteq> DST \<and>
     newline \<notin> set (line_text (ls ! s)) \<and> (kind (ls ! d) = DST \<or> s = d))"

lemma fold_fix_pairs:
  assumes "fix_ok ls ps"
  shows "length (fold fix_pair ps ls) = length ls \<and>
    (\<forall>i. i \<notin> snd ` set ps \<longrightarrow> fold fix_pair ps ls ! i = ls ! i) \<and>
    (\<forall>(s, d) \<in> set ps. fold fix_pair ps ls ! d =
       (if one_blank_more (ls ! s) (ls ! d) then (ls ! d)\<lparr>line_text := line_text (ls ! s)\<rparr> else ls ! d))"
  using assms
proof (induction ps arbitrary: ls)
  case (Cons p ps)
  obtain s d where p: "p = (s, d)" by (metis surj_pair)
  let ?ls = "fix_pair (s, d) ls"
  have sd: "d < length ls" "kind (ls ! s) \<noteq> DST" "newline \<notin> set (line_text (ls ! s))" "kind (ls ! d) = DST \<or> s = d"
    "d \<notin> snd ` set ps" using Cons.prems by (auto simp: fix_ok_def p)
  have self: "\<not> one_blank_more (ls ! d) (ls ! d)" by (simp add: one_blank_more_def)
  have step: "?ls = (if one_blank_more (ls ! s) (ls ! d) then ls[d := (ls ! d)\<lparr>line_text := line_text (ls ! s)\<rparr>] else ls)"
    by (rule fix_pair_line [OF sd(3)])
  have same: "?ls ! i = ls ! i" if "i \<noteq> d \<or> kind (ls ! i) \<noteq> DST" for i
    using that sd(4) self by (auto simp: step)
  have at: "?ls ! d = (if one_blank_more (ls ! s) (ls ! d) then (ls ! d)\<lparr>line_text := line_text (ls ! s)\<rparr> else ls ! d)"
    using sd(1) by (simp add: step)
  have others: "?ls ! s' = ls ! s' \<and> ?ls ! d' = ls ! d'" if "(s', d') \<in> set ps" for s' d'
  proof
    have "kind (ls ! s') \<noteq> DST" using Cons.prems that by (auto simp: fix_ok_def)
    then show "?ls ! s' = ls ! s'" using same by blast
    have "d' \<noteq> d" using sd(5) that by force
    then show "?ls ! d' = ls ! d'" using same by blast
  qed
  have "fix_ok ?ls ps"
    using Cons.prems others by (auto simp: fix_ok_def p step)
  from Cons.IH [OF this] have IH: "length (fold fix_pair ps ?ls) = length ?ls"
    "\<And>i. i \<notin> snd ` set ps \<Longrightarrow> fold fix_pair ps ?ls ! i = ?ls ! i"
    "\<And>s' d'. (s', d') \<in> set ps \<Longrightarrow> fold fix_pair ps ?ls ! d' =
       (if one_blank_more (?ls ! s') (?ls ! d') then (?ls ! d')\<lparr>line_text := line_text (?ls ! s')\<rparr> else ?ls ! d')" by blast+
  have "fold fix_pair (p # ps) ls ! i = ls ! i" if "i \<notin> snd ` set (p # ps)" for i
    using that IH(2) same by (simp add: p)
  moreover have "fold fix_pair (p # ps) ls ! d' =
      (if one_blank_more (ls ! s') (ls ! d') then (ls ! d')\<lparr>line_text := line_text (ls ! s')\<rparr> else ls ! d')"
    if "(s', d') \<in> set (p # ps)" for s' d'
  proof (cases "(s', d') = p")
    case True
    then show ?thesis using IH(2) [OF sd(5)] at by (simp add: p)
  next
    case False
    then have "(s', d') \<in> set ps" using that by simp
    then show ?thesis using IH(3) others by (simp add: p)
  qed
  moreover have "length (fold fix_pair (p # ps) ls) = length ls" using IH(1) by (simp add: p step)
  ultimately show ?case by blast
qed simp

text \<open>The lines stand in pairs: a context line is at the same place on both sides.\<close>

definition aligned_lines :: "patch_line list \<Rightarrow> bool" where
  "aligned_lines ls \<longleftrightarrow> (\<forall>(s, d) \<in> set (zip (src_refs ls) (dst_refs ls)). kind (ls ! d) = BOTH \<longrightarrow> s = d)"

lemma aligned_fix_ok:
  assumes "aligned_lines ls" and "\<forall>l \<in> set ls. newline \<notin> set (line_text l)"
  shows "fix_ok ls (zip (src_refs ls) (dst_refs ls))"
proof -
  have "distinct (dst_refs ls)" by (simp add: dst_refs_def)
  then have "distinct (map snd (zip (src_refs ls) (dst_refs ls)))" by (simp add: map_snd_zip_take)
  moreover have "d < length ls \<and> kind (ls ! s) \<noteq> DST \<and> newline \<notin> set (line_text (ls ! s)) \<and> (kind (ls ! d) = DST \<or> s = d)"
    if "(s, d) \<in> set (zip (src_refs ls) (dst_refs ls))" for s d
  proof -
    have "s \<in> set (src_refs ls)" "d \<in> set (dst_refs ls)" using that by (auto dest: set_zip_leftD set_zip_rightD)
    then have "s < length ls" "is_src (ls ! s)" "d < length ls" "is_dst (ls ! d)" by (simp_all add: src_refs_def dst_refs_def)
    then show ?thesis using assms that by (auto simp: aligned_lines_def is_src_def is_dst_def)
  qed
  ultimately show ?thesis by (auto simp: fix_ok_def)
qed

text \<open>
  On a chunk whose context lines stand at the same place on both sides, the filter changes added
  lines only: an added line whose removed partner has exactly one blank more at its end becomes that
  line, so that the change disappears; every other line stays.
\<close>

theorem whitespace_changes_dropped:
  assumes "aligned_lines ls" and "\<forall>l \<in> set ls. newline \<notin> set (line_text l)"
  shows "length (fst (fix_lines ls)) = length ls \<and>
    (\<forall>i < length ls. kind (ls ! i) \<noteq> DST \<longrightarrow> fst (fix_lines ls) ! i = ls ! i) \<and>
    (\<forall>i < length ls. i \<notin> snd ` set (zip (src_refs ls) (dst_refs ls)) \<longrightarrow> fst (fix_lines ls) ! i = ls ! i) \<and>
    (\<forall>(s, d) \<in> set (zip (src_refs ls) (dst_refs ls)). fst (fix_lines ls) ! d =
       (if one_blank_more (ls ! s) (ls ! d) then (ls ! d)\<lparr>line_text := line_text (ls ! s)\<rparr> else ls ! d))"
proof -
  note ok = aligned_fix_ok [OF assms]
  have f: "fst (fix_lines ls) = fold fix_pair (zip (src_refs ls) (dst_refs ls)) ls" by (simp add: fix_lines_def)
  note fold = fold_fix_pairs [OF ok, folded f]
  have "fst (fix_lines ls) ! i = ls ! i" if "kind (ls ! i) \<noteq> DST" for i
  proof (cases "i \<in> snd ` set (zip (src_refs ls) (dst_refs ls))")
    case True
    then obtain s where s: "(s, i) \<in> set (zip (src_refs ls) (dst_refs ls))" by force
    then have "s = i" using ok that by (auto simp: fix_ok_def)
    then have "\<not> one_blank_more (ls ! s) (ls ! i)" by (simp add: one_blank_more_def)
    then show ?thesis using fold s by fastforce
  qed (use fold in blast)
  then show ?thesis using fold by blast
qed

lemma whitespace_changes_dropped_witness:
  "fst (fix_lines [new_line SRC ''x '', new_line DST ''x'']) ! 1 = new_line DST ''x ''"
proof -
  let ?ls = "[new_line SRC ''x '', new_line DST ''x'']"
  have refs: "src_refs ?ls = [0]" "dst_refs ?ls = [1]" by (simp_all add: src_refs_def dst_refs_def is_src_def is_dst_def new_line_def)
  have "aligned_lines ?ls" unfolding aligned_lines_def refs by (simp add: new_line_def)
  moreover have "\<forall>l \<in> set ?ls. newline \<notin> set (line_text l)" by (simp add: new_line_def newline_def)
  ultimately have "fst (fix_lines ?ls) ! 1 =
      (if one_blank_more (?ls ! 0) (?ls ! 1) then (?ls ! 1)\<lparr>line_text := line_text (?ls ! 0)\<rparr> else ?ls ! 1)"
    using whitespace_changes_dropped [of ?ls] unfolding refs by simp
  then show ?thesis by (simp add: one_blank_more_def new_line_def blank_def)
qed

text \<open>
  Where the sides are not aligned a context line can be changed, and the patch no longer fits its
  source; a change that removes two blanks is kept.
\<close>

lemma context_line_changed:
  "fst (fix_lines [new_line SRC ''a '', new_line BOTH ''a'']) = [new_line SRC ''a '', new_line BOTH ''a '']"
  "fst (fix_lines [new_line SRC ''a  '', new_line DST ''a'']) = [new_line SRC ''a  '', new_line DST ''a'']"
  by code_simp+

text \<open>The header of a chunk of one line has no comma, and the reader refuses it.\<close>

lemma one_line_chunk_refused:
  "parse_patchset [''--- a'', ''+++ b'', ''@@ -1 +1,2 @@''] = Inl (GenericException '''')"
  by code_simp

section \<open>Checking files\<close>

text \<open>
  With \<open>debug\<close> the checker is blind: whatever the formatter, the difference program and the files, no
  diff is left, and if the patch program leaves a file alone on an empty patch then every file is
  found to be correct and none is changed.
\<close>

theorem debug_finds_nothing:
  assumes "\<And>s. patch_program T [] s = s"
  shows "indent_files T True level inplace read files = Inr (True, read)"
proof -
  have "final_diff True level d = Inr []" for d
    by (simp add: final_diff_def remove_trailing_whitespace_changes_def parse_patchset_def)
  then have "indent_all T True level read files = Inr (map (\<lambda>f. (f, read f)) files)"
    using assms by (induction files) (simp_all add: indent_def)
  moreover have "fold (\<lambda>(src, dst) fs. fs(src := dst)) (map (\<lambda>f. (f, read f)) files) read = read"
    by (induction files) (simp_all del: fun_upd_apply)
  ultimately show ?thesis by (simp add: indent_files_def list_all_iff)
qed

lemma debug_finds_nothing_witness:
  "indent_files \<lparr>uncrustify = \<lambda>l s. ''formatted'', unified_diff = \<lambda>a b. [''--- a''], patch_program = \<lambda>d s. if d = [] then s else ''patched''\<rparr>
     True 0 False (\<lambda>f. ''old'') [''f.cc''] = Inr (True, \<lambda>f. ''old'')"
  by (rule debug_finds_nothing) simp

end
