(* ===== verification/Timeline.thy ===== *)
theory Timeline
  imports PyFloat
begin

text \<open>
  The data of \<open>utils/grid.py\<close>, the viewer of recorded simulations: named timelines with coloured ranges
  and events, read from a file, selected by binary search for the visible window, and the window
  itself. The program is Python 2 (it uses \<open>has_key\<close> and \<open>sort\<close> with a comparison), so that \<open>/\<close> on integers
  is floor division. The layout, the window and the mouse are in theory GridView.
\<close>

section \<open>Ranges and events\<close>

record data_range =
  r_start :: int
  r_end :: int
  r_value :: string

record 'v data_event =
  ev_at :: int
  ev_value :: 'v

record range_line =
  range_name :: string
  range_list :: "data_range list"

record 'v event_line =
  event_name :: string
  event_list :: "'v data_event list"

text \<open>The binary search over ranges; \<open>-1\<close> when no range is hit.\<close>

function range_search :: "data_range list \<Rightarrow> int \<Rightarrow> int \<Rightarrow> int \<Rightarrow> int" where
  "range_search rs key l u =
     (if l \<le> u then
        (let i = (l + u) div 2; r = rs ! nat i in
         if r_start r \<le> key \<and> key \<le> r_end r then i
         else if key < r_start r then range_search rs key l (i - 1)
         else range_search rs key (i + 1) u)
      else - 1)"
  by pat_completeness auto

termination by (relation "measure (\<lambda>(rs, key, l, u). nat (u + 1 - l))") auto

declare range_search.simps [simp del]

definition search_ranges :: "data_range list \<Rightarrow> int \<Rightarrow> int" where
  "search_ranges rs key = range_search rs key 0 (int (length rs) - 1)"

definition get_ranges_bounds :: "data_range list \<Rightarrow> int \<Rightarrow> int \<Rightarrow> int \<times> int" where
  "get_ranges_bounds rs start end' =
     (let s = search_ranges rs start; e = search_ranges rs end' in
      if s = - 1 \<and> e = - 1 then (0, 0)
      else if s = - 1 then (0, e + 1)
      else if e = - 1 then (s, int (length rs))
      else (s, e + 1))"

definition get_ranges :: "data_range list \<Rightarrow> int \<Rightarrow> int \<Rightarrow> data_range list" where
  "get_ranges rs start end' =
     (let s = search_ranges rs start; e = search_ranges rs end' in
      if s = - 1 \<and> e = - 1 then []
      else if s = - 1 then py_slice rs 0 (e + 1)
      else if e = - 1 then py_slice rs s (int (length rs))
      else py_slice rs s (e + 1))"

definition sort_ranges :: "range_line \<Rightarrow> range_line" where
  "sort_ranges l = l\<lparr>range_list := sort_key r_start (range_list l)\<rparr>"

definition range_bounds :: "data_range list \<Rightarrow> int \<times> int" where
  "range_bounds rs = (if rs \<noteq> [] then (r_start (hd rs), r_end (last rs)) else (0, 0))"

text \<open>The search over events ends at the place where the key would be inserted.\<close>

function event_search :: "'v data_event list \<Rightarrow> int \<Rightarrow> int \<Rightarrow> int \<Rightarrow> int" where
  "event_search es key l u =
     (if l \<le> u then
        (let i = (l + u) div 2; e = es ! nat i in
         if key = ev_at e then i
         else if key < ev_at e then event_search es key l (i - 1)
         else event_search es key (i + 1) u)
      else l)"
  by pat_completeness auto

termination by (relation "measure (\<lambda>(es, key, l, u). nat (u + 1 - l))") auto

declare event_search.simps [simp del]

definition search_events :: "'v data_event list \<Rightarrow> int \<Rightarrow> int" where
  "search_events es key = event_search es key 0 (int (length es) - 1)"

definition get_events_bounds :: "'v data_event list \<Rightarrow> int \<Rightarrow> int \<Rightarrow> int \<times> int" where
  "get_events_bounds es start end' = (search_events es start, search_events es end' + 1)"

definition get_events :: "'v data_event list \<Rightarrow> int \<Rightarrow> int \<Rightarrow> 'v data_event list" where
  "get_events es start end' = py_slice es (search_events es start) (search_events es end' + 1)"

definition sort_events :: "'v event_line \<Rightarrow> 'v event_line" where
  "sort_events l = l\<lparr>event_list := sort_key ev_at (event_list l)\<rparr>"

definition event_bounds :: "'v data_event list \<Rightarrow> int \<times> int" where
  "event_bounds es = (if es \<noteq> [] then (ev_at (hd es), ev_at (last es)) else (0, 0))"

section \<open>Timelines\<close>

record timeline =
  tl_name :: string
  ranges :: "range_line list"
  event_str :: "string event_line list"
  event_int :: "int event_line list"

text \<open>
  The four \<open>get\<close> methods are one loop: the first entry of the name, or a new one at the end. The
  caller changes the entry it gets, so the model takes the change as an argument.
\<close>

fun with_named :: "('a \<Rightarrow> string) \<Rightarrow> (string \<Rightarrow> 'a) \<Rightarrow> string \<Rightarrow> ('a \<Rightarrow> 'a) \<Rightarrow> 'a list \<Rightarrow> 'a list" where
  "with_named name new n f [] = [f (new n)]"
| "with_named name new n f (x # xs) = (if name x = n then f x # xs else x # with_named name new n f xs)"

definition new_range_line :: "string \<Rightarrow> range_line" where
  "new_range_line n = \<lparr>range_name = n, range_list = []\<rparr>"

definition new_event_line :: "string \<Rightarrow> 'v event_line" where
  "new_event_line n = \<lparr>event_name = n, event_list = []\<rparr>"

definition new_timeline :: "string \<Rightarrow> timeline" where
  "new_timeline n = \<lparr>tl_name = n, ranges = [], event_str = [], event_int = []\<rparr>"

definition add_range :: "string \<Rightarrow> data_range \<Rightarrow> timeline \<Rightarrow> timeline" where
  "add_range n r t =
     t\<lparr>ranges := with_named range_name new_range_line n (\<lambda>l. l\<lparr>range_list := range_list l @ [r]\<rparr>) (ranges t)\<rparr>"

definition add_event_str :: "string \<Rightarrow> string data_event \<Rightarrow> timeline \<Rightarrow> timeline" where
  "add_event_str n e t =
     t\<lparr>event_str := with_named event_name new_event_line n (\<lambda>l. l\<lparr>event_list := event_list l @ [e]\<rparr>) (event_str t)\<rparr>"

definition add_event_int :: "string \<Rightarrow> int data_event \<Rightarrow> timeline \<Rightarrow> timeline" where
  "add_event_int n e t =
     t\<lparr>event_int := with_named event_name new_event_line n (\<lambda>l. l\<lparr>event_list := event_list l @ [e]\<rparr>) (event_int t)\<rparr>"

definition sort_timeline :: "timeline \<Rightarrow> timeline" where
  "sort_timeline t =
     t\<lparr>ranges := map sort_ranges (ranges t), event_int := map sort_events (event_int t),
       event_str := map sort_events (event_str t)\<rparr>"

definition widen :: "int \<times> int \<Rightarrow> int \<times> int \<Rightarrow> int \<times> int" where
  "widen x b =
     (case x of (lo, hi) \<Rightarrow> case b of (b_lo, b_hi) \<Rightarrow>
      (if b_lo < lo then b_lo else lo, if b_hi > hi then b_hi else hi))"

definition timeline_bounds :: "timeline \<Rightarrow> int \<times> int" where
  "timeline_bounds t =
     foldl widen (foldl widen (foldl widen (0, 0) (map (\<lambda>l. range_bounds (range_list l)) (ranges t)))
       (map (\<lambda>l. event_bounds (event_list l)) (event_str t)))
       (map (\<lambda>l. event_bounds (event_list l)) (event_int t))"

definition all_bounds :: "timeline list \<Rightarrow> int \<times> int" where
  "all_bounds ts = foldl widen (0, 0) (map timeline_bounds ts)"

definition all_range_values :: "timeline list \<Rightarrow> string set" where
  "all_range_values ts = (\<Union>t \<in> set ts. \<Union>l \<in> set (ranges t). r_value ` set (range_list l))"

section \<open>Colours\<close>

text \<open>
  \<open>lookup\<close> takes a default colour, from the end of the list that all instances share, for a name
  that has none.
\<close>

type_synonym colour = "int \<times> int \<times> int"

definition default_colors :: "colour list" where
  "default_colors = [(1, 0, 0), (0, 1, 0), (0, 0, 1), (1, 1, 0), (1, 0, 1), (0, 1, 1)]"

definition lookup_colour :: "string \<Rightarrow> (string \<rightharpoonup> colour) \<times> colour list \<Rightarrow> (colour \<times> (string \<rightharpoonup> colour) \<times> colour list) result" where
  "lookup_colour n s =
     (case s of (m, free) \<Rightarrow>
      case m n of
        Some c \<Rightarrow> Inr (c, m, free)
      | None \<Rightarrow> if free = [] then Inl IndexError else Inr (last free, m(n \<mapsto> last free), butlast free))"

section \<open>Reading a file\<close>

definition word :: "string \<Rightarrow> (string \<times> string) option" where
  "word s =
     (let w = takeWhile (\<lambda>c. c \<noteq> CHR '' '') s; r = dropWhile (\<lambda>c. c \<noteq> CHR '' '') s in
      if w = [] \<or> r = [] then None else Some (w, tl r))"

definition decimal :: "string \<Rightarrow> int option" where
  "decimal s =
     (let ds = takeWhile (\<lambda>c. of_char c \<in> ({48..57} :: nat set)) s in
      if ds = [] then None else Some (foldl (\<lambda>v c. v * 10 + (int (of_char c) - 48)) 0 ds))"

definition number_word :: "string \<Rightarrow> (int \<times> string) option" where
  "number_word s =
     Option.bind (word s) (\<lambda>(w, r).
       if list_all (\<lambda>c. of_char c \<in> ({48..57} :: nat set)) w then map_option (\<lambda>n. (n, r)) (decimal w) else None)"

definition keyword :: "string \<Rightarrow> string \<Rightarrow> string option" where
  "keyword k s = (if take (length k) s = k then Some (drop (length k) s) else None)"

definition match_range :: "string \<Rightarrow> (string \<times> string \<times> data_range) option" where
  "match_range line =
     Option.bind (keyword ''range '' line) (\<lambda>s. Option.bind (word s) (\<lambda>(a, s). Option.bind (word s) (\<lambda>(b, s).
     Option.bind (word s) (\<lambda>(v, s). Option.bind (number_word s) (\<lambda>(x, s). Option.bind (decimal s) (\<lambda>y.
     Some (a, b, \<lparr>r_start = x, r_end = y, r_value = v\<rparr>)))))))"

definition match_event_str :: "string \<Rightarrow> (string \<times> string \<times> string data_event) option" where
  "match_event_str line =
     Option.bind (keyword ''event-str '' line) (\<lambda>s. Option.bind (word s) (\<lambda>(a, s). Option.bind (word s) (\<lambda>(b, s).
     Option.bind (word s) (\<lambda>(v, s). Option.bind (decimal s) (\<lambda>t. Some (a, b, \<lparr>ev_at = t, ev_value = v\<rparr>))))))"

definition match_event_int :: "string \<Rightarrow> (string \<times> string \<times> int data_event) option" where
  "match_event_int line =
     Option.bind (keyword ''event-int '' line) (\<lambda>s. Option.bind (word s) (\<lambda>(a, s). Option.bind (word s) (\<lambda>(b, s).
     Option.bind (number_word s) (\<lambda>(v, s). Option.bind (decimal s) (\<lambda>t. Some (a, b, \<lparr>ev_at = t, ev_value = v\<rparr>))))))"

definition hex_digit :: "char \<Rightarrow> int option" where
  "hex_digit c =
     (let n = int (of_char c) in
      if 48 \<le> n \<and> n \<le> 57 then Some (n - 48)
      else if 65 \<le> n \<and> n \<le> 70 then Some (n - 55)
      else if 97 \<le> n \<and> n \<le> 102 then Some (n - 87) else None)"

text \<open>Two hexadecimal digits, scaled by an integer division: 1 for \<open>ff\<close> and 0 for everything else.\<close>

definition hex_pair :: "string \<Rightarrow> (int \<times> string) option" where
  "hex_pair s =
     (case s of a # b # r \<Rightarrow> Option.bind (hex_digit a) (\<lambda>x. Option.bind (hex_digit b) (\<lambda>y. Some ((x * 16 + y) div 255, r)))
      | _ \<Rightarrow> None)"

definition match_color :: "string \<Rightarrow> (string \<times> colour) option" where
  "match_color line =
     Option.bind (keyword ''color '' line) (\<lambda>s. Option.bind (word s) (\<lambda>(n, s). Option.bind (keyword ''#'' s) (\<lambda>s.
     Option.bind (hex_pair s) (\<lambda>(r, s). Option.bind (hex_pair s) (\<lambda>(g, s). Option.bind (hex_pair s) (\<lambda>(b, _).
     Some (n, r, g, b)))))))"

definition add_to :: "string \<Rightarrow> (timeline \<Rightarrow> timeline) \<Rightarrow> timeline list \<Rightarrow> timeline list" where
  "add_to n = with_named tl_name new_timeline n"

definition read_data_line :: "string \<Rightarrow> (string \<rightharpoonup> colour) \<times> timeline list \<Rightarrow> (string \<rightharpoonup> colour) \<times> timeline list" where
  "read_data_line line x =
     (case x of (colors, ts) \<Rightarrow>
      case match_range line of
        Some (a, b, r) \<Rightarrow> (colors, add_to a (add_range b r) ts)
      | None \<Rightarrow>
     (case match_event_str line of
        Some (a, b, e) \<Rightarrow> (colors, add_to a (add_event_str b e) ts)
      | None \<Rightarrow>
     (case match_event_int line of
        Some (a, b, e) \<Rightarrow> (colors, add_to a (add_event_int b e) ts)
      | None \<Rightarrow>
     (case match_color line of
        Some (n, c) \<Rightarrow> (colors(n \<mapsto> c), ts)
      | None \<Rightarrow> (colors, ts)))))"

definition read_data :: "string list \<Rightarrow> (string \<rightharpoonup> colour) \<times> timeline list" where
  "read_data lines =
     (case foldl (\<lambda>x line. read_data_line line x) (Map.empty, []) lines of (colors, ts) \<Rightarrow> (colors, map sort_timeline ts))"

section \<open>Scale and window\<close>

text \<open>The distance of the marks of an integer scale; a scale of length one divides by zero.\<close>

function closest_loop :: "int \<Rightarrow> int \<Rightarrow> int" where
  "closest_loop data_delta closest =
     (if 0 < closest \<and> closest * 10 < data_delta then closest_loop data_delta (closest * 10) else closest)"
  by pat_completeness auto

termination by (relation "measure (\<lambda>(d, c). nat (d - c))") auto

declare closest_loop.simps [simp del]

definition scale_delta :: "int \<Rightarrow> int \<Rightarrow> int result" where
  "scale_delta lo hi =
     (let data_delta = hi - lo; closest = closest_loop data_delta 1;
          delta = (if data_delta div closest = 0 then closest
                   else if data_delta div closest = 1 then closest div 10 else closest) in
      if delta = 0 then Inl ZeroDivisionError else Inr delta)"

text \<open>\<open>range(start, end + delta, delta)\<close> of the marks.\<close>

definition scale_ticks :: "int \<Rightarrow> int \<Rightarrow> int list result" where
  "scale_ticks lo hi =
     ebind (scale_delta lo hi) (\<lambda>delta.
       let start = lo - lo mod delta + delta; end' = hi - hi mod delta in
       Inr (map (\<lambda>k. start + int k * delta) [0..<nat ((end' - start) div delta + 1)]))"

record window =
  w_start :: double
  w_end :: double
  shown_start :: double
  shown_end :: double

definition set_range :: "double \<Rightarrow> double \<Rightarrow> window \<Rightarrow> window" where
  "set_range a b w =
     (let s = min a b; e = max a b in w\<lparr>shown_start := max (w_start w) s, shown_end := min (w_end w) e\<rparr>)"

definition set_smaller_zoom :: "window \<Rightarrow> window" where
  "set_smaller_zoom w =
     set_range (shown_start w) (py_add (shown_start w) (py_mul (py_sub (shown_end w) (shown_start w)) 2)) w"

definition set_bigger_zoom :: "window \<Rightarrow> window" where
  "set_bigger_zoom w =
     set_range (shown_start w) (py_add (shown_start w) (fl (py_sub (shown_end w) (shown_start w) / 2))) w"

section \<open>Searching ranges\<close>

definition hits :: "int \<Rightarrow> data_range \<Rightarrow> bool" where
  "hits key r \<longleftrightarrow> r_start r \<le> key \<and> key \<le> r_end r"

definition disjoint_ranges :: "data_range list \<Rightarrow> bool" where
  "disjoint_ranges rs \<longleftrightarrow> sorted_wrt (\<lambda>a b. r_end a < r_start b) rs \<and> (\<forall>r \<in> set rs. r_start r \<le> r_end r)"

lemma range_search_ok:
  assumes "disjoint_ranges rs" and "0 \<le> l" and "u < int (length rs)"
    and "\<forall>i < length rs. hits key (rs ! i) \<longrightarrow> l \<le> int i \<and> int i \<le> u"
  shows "(range_search rs key l u = - 1 \<and> (\<forall>r \<in> set rs. \<not> hits key r)) \<or>
    (\<exists>i < length rs. range_search rs key l u = int i \<and> hits key (rs ! i))"
  using assms
proof (induction rs key l u rule: range_search.induct)
  case (1 rs key l u)
  show ?case
  proof (cases "l \<le> u")
    case False
    then have "\<not> hits key (rs ! i)" if "i < length rs" for i using 1(6) that by force
    then show ?thesis using False by (auto simp: range_search.simps [of rs key l u] in_set_conv_nth)
  next
    case True
    let ?i = "(l + u) div 2"
    have i: "0 \<le> ?i" "l \<le> ?i" "?i \<le> u" "nat ?i < length rs" using True 1(4,5) by auto
    have before: "r_end (rs ! j) < r_start (rs ! k)" if "j < k" "k < length rs" for j k
      using 1(3) that by (auto simp: disjoint_ranges_def sorted_wrt_iff_nth_less)
    have range: "r_start (rs ! j) \<le> r_end (rs ! j)" if "j < length rs" for j
      using 1(3) that by (auto simp: disjoint_ranges_def)
    consider "hits key (rs ! nat ?i)" | "key < r_start (rs ! nat ?i)" | "r_end (rs ! nat ?i) < key"
      by (metis hits_def not_le)
    then show ?thesis
    proof cases
      case 1
      then show ?thesis using True i by (auto simp: range_search.simps [of rs key l u] Let_def hits_def intro!: exI [of _ "nat ?i"])
    next
      case 2
      have "\<forall>j < length rs. hits key (rs ! j) \<longrightarrow> l \<le> int j \<and> int j \<le> ?i - 1"
      proof (intro allI impI)
        fix j assume j: "j < length rs" "hits key (rs ! j)"
        have "j < nat ?i"
        proof (rule ccontr)
          assume "\<not> j < nat ?i"
          then have "nat ?i = j \<or> nat ?i < j" by auto
          then have "r_start (rs ! nat ?i) \<le> r_start (rs ! j)" using before [of "nat ?i" j] range [OF i(4)] j(1) by auto
          then show False using 2 j(2) by (simp add: hits_def)
        qed
        then show "l \<le> int j \<and> int j \<le> ?i - 1" using 1(6) j by auto
      qed
      then have "(range_search rs key l (?i - 1) = - 1 \<and> (\<forall>r \<in> set rs. \<not> hits key r)) \<or>
          (\<exists>i < length rs. range_search rs key l (?i - 1) = int i \<and> hits key (rs ! i))"
        using 1(1) [OF True refl refl] 2 1(3,4) i by (simp add: hits_def)
      then show ?thesis using True 2 by (simp add: range_search.simps [of rs key l u] Let_def)
    next
      case 3
      have "\<forall>j < length rs. hits key (rs ! j) \<longrightarrow> ?i + 1 \<le> int j \<and> int j \<le> u"
      proof (intro allI impI)
        fix j assume j: "j < length rs" "hits key (rs ! j)"
        have "nat ?i < j"
        proof (rule ccontr)
          assume "\<not> nat ?i < j"
          then have "nat ?i = j \<or> j < nat ?i" by auto
          then have "r_end (rs ! j) \<le> r_end (rs ! nat ?i)" using before [of j "nat ?i"] range [OF i(4)] i(4) by auto
          then show False using 3 j(2) by (simp add: hits_def)
        qed
        then show "?i + 1 \<le> int j \<and> int j \<le> u" using 1(6) j i(1) by auto
      qed
      then have "(range_search rs key (?i + 1) u = - 1 \<and> (\<forall>r \<in> set rs. \<not> hits key r)) \<or>
          (\<exists>i < length rs. range_search rs key (?i + 1) u = int i \<and> hits key (rs ! i))"
        using 1(2) [OF True refl refl] 3 1(3,5) i range [OF i(4)] by (simp add: hits_def)
      then show ?thesis using True 3 range [OF i(4)] by (simp add: range_search.simps [of rs key l u] Let_def)
    qed
  qed
qed

lemma search_ranges_ok:
  assumes "disjoint_ranges rs"
  shows "(search_ranges rs key = - 1 \<and> (\<forall>r \<in> set rs. \<not> hits key r)) \<or>
    (\<exists>i < length rs. search_ranges rs key = int i \<and> hits key (rs ! i))"
  unfolding search_ranges_def by (rule range_search_ok [OF assms]) auto

lemma around_hit:
  assumes "disjoint_ranges rs" and "i < length rs" and "hits key (rs ! i)"
  shows "\<forall>r \<in> set (take i rs). r_start r \<le> r_end r \<and> r_end r < key"
    and "\<forall>r \<in> set (drop (Suc i) rs). key < r_start r \<and> r_start r \<le> r_end r"
proof -
  have d: "disjoint_ranges (take i rs @ rs ! i # drop (Suc i) rs)"
    using assms(1) id_take_nth_drop [OF assms(2)] by simp
  have "r_start r \<le> r_end r \<and> r_end r < r_start (rs ! i)" if "r \<in> set (take i rs)" for r
    using d that by (simp add: disjoint_ranges_def sorted_wrt_append)
  then show "\<forall>r \<in> set (take i rs). r_start r \<le> r_end r \<and> r_end r < key" using assms(3) by (force simp: hits_def)
  have "r_start r \<le> r_end r \<and> r_end (rs ! i) < r_start r" if "r \<in> set (drop (Suc i) rs)" for r
    using d that by (simp add: disjoint_ranges_def sorted_wrt_append)
  then show "\<forall>r \<in> set (drop (Suc i) rs). key < r_start r \<and> r_start r \<le> r_end r" using assms(3) by (force simp: hits_def)
qed

lemma filter_from:
  assumes "disjoint_ranges rs" and "i < length rs" and "hits key (rs ! i)"
  shows "filter (\<lambda>r. key \<le> r_end r) rs = drop i rs"
proof -
  have rs: "rs = take i rs @ rs ! i # drop (Suc i) rs" using id_take_nth_drop [OF assms(2)] .
  note order = around_hit [OF assms]
  have "\<forall>r \<in> set (take i rs). \<not> key \<le> r_end r" using order(1) by auto
  moreover have "\<forall>r \<in> set (rs ! i # drop (Suc i) rs). key \<le> r_end r" using order(2) assms(3) by (auto simp: hits_def)
  ultimately have "filter (\<lambda>r. key \<le> r_end r) (take i rs @ rs ! i # drop (Suc i) rs) = rs ! i # drop (Suc i) rs"
    by (simp add: filter_empty_conv filter_id_conv)
  then show ?thesis using rs Cons_nth_drop_Suc [OF assms(2)] by simp
qed

lemma filter_upto:
  assumes "disjoint_ranges rs" and "i < length rs" and "hits key (rs ! i)"
  shows "filter (\<lambda>r. r_start r \<le> key) rs = take (Suc i) rs"
proof -
  have rs: "rs = take i rs @ rs ! i # drop (Suc i) rs" using id_take_nth_drop [OF assms(2)] .
  note order = around_hit [OF assms]
  have "\<forall>r \<in> set (take i rs @ [rs ! i]). r_start r \<le> key" using order(1) assms(3) by (auto simp: hits_def)
  moreover have "\<forall>r \<in> set (drop (Suc i) rs). \<not> r_start r \<le> key" using order(2) by auto
  ultimately have "filter (\<lambda>r. r_start r \<le> key) ((take i rs @ [rs ! i]) @ drop (Suc i) rs) = take i rs @ [rs ! i]"
    by (simp only: filter_append filter_id_conv filter_empty_conv append_Nil2) simp
  then show ?thesis using rs take_Suc_conv_app_nth [OF assms(2)] by simp
qed

lemma disjoint_take: "disjoint_ranges rs \<Longrightarrow> disjoint_ranges (take n rs)"
  by (auto simp: disjoint_ranges_def sorted_wrt_take dest: in_set_takeD)

lemma slice_nat:
  "py_slice xs (int a) (int b + 1) = drop (min (length xs) a) (take (Suc b) xs)"
  "py_slice xs 0 (int b + 1) = take (Suc b) xs"
  "py_slice xs (int a) (int (length xs)) = drop (min (length xs) a) xs"
  by (simp_all add: py_slice_def slice_bound_def min_def nat_add_distrib)

text \<open>
  What is selected of disjoint ranges in order. When both ends of the window lie in ranges these are the
  ranges that meet the window. When only one end does, the ranges on the other side are all selected, and when
  none does nothing is, even if ranges lie inside the window.
\<close>

theorem ranges_selected:
  assumes "sorted_wrt (\<lambda>a b. r_end a < r_start b) rs \<and> (\<forall>r \<in> set rs. r_start r \<le> r_end r)" and "start \<le> end'"
  shows "get_ranges rs start end' =
    (if \<exists>r \<in> set rs. r_start r \<le> start \<and> start \<le> r_end r then
       (if \<exists>r \<in> set rs. r_start r \<le> end' \<and> end' \<le> r_end r
        then filter (\<lambda>r. start \<le> r_end r \<and> r_start r \<le> end') rs
        else filter (\<lambda>r. start \<le> r_end r) rs)
     else
       (if \<exists>r \<in> set rs. r_start r \<le> end' \<and> end' \<le> r_end r
        then filter (\<lambda>r. r_start r \<le> end') rs else []))"
proof -
  have d: "disjoint_ranges rs" using assms(1) by (simp add: disjoint_ranges_def)
  from search_ranges_ok [OF d, of start] search_ranges_ok [OF d, of end'] consider
      (none) "search_ranges rs start = - 1" "search_ranges rs end' = - 1" "\<forall>r \<in> set rs. \<not> hits start r" "\<forall>r \<in> set rs. \<not> hits end' r"
    | (last) e where "search_ranges rs start = - 1" "search_ranges rs end' = int e" "\<forall>r \<in> set rs. \<not> hits start r" "e < length rs" "hits end' (rs ! e)"
    | (first) s where "search_ranges rs start = int s" "search_ranges rs end' = - 1" "\<forall>r \<in> set rs. \<not> hits end' r" "s < length rs" "hits start (rs ! s)"
    | (both) s e where "search_ranges rs start = int s" "search_ranges rs end' = int e" "s < length rs" "hits start (rs ! s)" "e < length rs" "hits end' (rs ! e)"
    by blast
  then show ?thesis
  proof cases
    case none
    then show ?thesis by (auto simp: get_ranges_def hits_def)
  next
    case last
    then have "\<exists>r \<in> set rs. hits end' r" by auto
    then show ?thesis using last filter_upto [OF d last(4,5)] by (auto simp: get_ranges_def hits_def slice_nat)
  next
    case first
    then have "\<exists>r \<in> set rs. hits start r" by auto
    then show ?thesis using first filter_from [OF d first(4,5)] by (auto simp: get_ranges_def hits_def slice_nat)
  next
    case both
    have "s \<le> e"
    proof (rule ccontr)
      assume "\<not> s \<le> e"
      then have "r_end (rs ! e) < r_start (rs ! s)"
        using d both(3) by (simp add: disjoint_ranges_def sorted_wrt_iff_nth_less)
      then show False using both assms(2) by (simp add: hits_def)
    qed
    then have "filter (\<lambda>r. start \<le> r_end r) (take (Suc e) rs) = drop s (take (Suc e) rs)"
      using both by (intro filter_from disjoint_take d) simp_all
    moreover have "filter (\<lambda>r. start \<le> r_end r \<and> r_start r \<le> end') rs =
        filter (\<lambda>r. start \<le> r_end r) (filter (\<lambda>r. r_start r \<le> end') rs)" by (simp add: conj_commute)
    ultimately have "filter (\<lambda>r. start \<le> r_end r \<and> r_start r \<le> end') rs = drop s (take (Suc e) rs)"
      using filter_upto [OF d both(5,6)] by simp
    moreover have "\<exists>r \<in> set rs. hits start r" "\<exists>r \<in> set rs. hits end' r" using both by auto
    ultimately show ?thesis using both by (auto simp: get_ranges_def hits_def slice_nat)
  qed
qed

lemma ranges_selected_witness:
  "get_ranges [\<lparr>r_start = 0, r_end = 2, r_value = ''a''\<rparr>, \<lparr>r_start = 4, r_end = 6, r_value = ''b''\<rparr>] 1 5 =
     [\<lparr>r_start = 0, r_end = 2, r_value = ''a''\<rparr>, \<lparr>r_start = 4, r_end = 6, r_value = ''b''\<rparr>] \<and>
   get_ranges [\<lparr>r_start = 0, r_end = 2, r_value = ''a''\<rparr>, \<lparr>r_start = 4, r_end = 6, r_value = ''b''\<rparr>] 3 7 = []"
  using ranges_selected [of "[\<lparr>r_start = 0, r_end = 2, r_value = ''a''\<rparr>, \<lparr>r_start = 4, r_end = 6, r_value = ''b''\<rparr>]" 1 5]
    ranges_selected [of "[\<lparr>r_start = 0, r_end = 2, r_value = ''a''\<rparr>, \<lparr>r_start = 4, r_end = 6, r_value = ''b''\<rparr>]" 3 7] by simp

section \<open>Searching events\<close>

lemma event_search_ok:
  assumes "sorted_wrt (\<lambda>a b. ev_at a < ev_at b) es" and "0 \<le> l" and "l \<le> u + 1" and "u < int (length es)"
    and "\<forall>i < length es. int i < l \<longrightarrow> ev_at (es ! i) < key" and "\<forall>i < length es. u < int i \<longrightarrow> key < ev_at (es ! i)"
  shows "\<exists>s \<le> length es. event_search es key l u = int s \<and>
    (\<forall>i < s. ev_at (es ! i) < key) \<and> (\<forall>i < length es. s \<le> i \<longrightarrow> key \<le> ev_at (es ! i))"
  using assms
proof (induction es key l u rule: event_search.induct)
  case (1 es key l u)
  show ?case
  proof (cases "l \<le> u")
    case False
    then have "l = u + 1" using 1(5) by simp
    then show ?thesis using 1(4-8) False
      by (intro exI [of _ "nat l"]) (auto simp: event_search.simps [of es key l u])
  next
    case True
    let ?i = "(l + u) div 2"
    have i: "0 \<le> ?i" "l \<le> ?i" "?i \<le> u" "nat ?i < length es" using True 1(4,6) by auto
    have order: "ev_at (es ! j) < ev_at (es ! k)" if "j < k" "k < length es" for j k
      using 1(3) that by (simp add: sorted_wrt_iff_nth_less)
    consider "key = ev_at (es ! nat ?i)" | "key < ev_at (es ! nat ?i)" | "ev_at (es ! nat ?i) < key" by linarith
    then show ?thesis
    proof cases
      case 1
      then have "\<forall>j < nat ?i. ev_at (es ! j) < key" "\<forall>j < length es. nat ?i \<le> j \<longrightarrow> key \<le> ev_at (es ! j)"
        using order i(4) by (auto simp: le_less)
      moreover have "event_search es key l u = ?i" by (subst event_search.simps) (use 1 True in simp)
      ultimately show ?thesis using i by (intro exI [of _ "nat ?i"]) simp
    next
      case 2
      have "\<forall>j < length es. ?i - 1 < int j \<longrightarrow> key < ev_at (es ! j)"
      proof (intro allI impI)
        fix j assume j: "j < length es" "?i - 1 < int j"
        then have "nat ?i = j \<or> nat ?i < j" using i(1) by auto
        then show "key < ev_at (es ! j)" using 2 order [of "nat ?i" j] j(1) by auto
      qed
      moreover have "event_search es key l u = event_search es key l (?i - 1)"
        by (subst event_search.simps) (use 2 True in simp)
      ultimately show ?thesis using 1(1) [OF True refl refl] 2 1(3-8) i by simp
    next
      case 3
      have "\<forall>j < length es. int j < ?i + 1 \<longrightarrow> ev_at (es ! j) < key"
      proof (intro allI impI)
        fix j assume j: "j < length es" "int j < ?i + 1"
        then have "j = nat ?i \<or> j < nat ?i" using i(1) by auto
        then show "ev_at (es ! j) < key" using 3 order [of j "nat ?i"] i(4) by auto
      qed
      moreover have "event_search es key l u = event_search es key (?i + 1) u"
        by (subst event_search.simps) (use 3 True in simp)
      ultimately show ?thesis using 1(2) [OF True refl refl] 3 1(3-8) i by simp
    qed
  qed
qed

lemma search_events_ok:
  assumes "sorted_wrt (\<lambda>a b. ev_at a < ev_at b) es"
  shows "\<exists>s \<le> length es. search_events es key = int s \<and>
    take s es = filter (\<lambda>e. ev_at e < key) es \<and> drop s es = filter (\<lambda>e. key \<le> ev_at e) es"
proof -
  obtain s where s: "s \<le> length es" "search_events es key = int s" "\<forall>i < s. ev_at (es ! i) < key"
    "\<forall>i < length es. s \<le> i \<longrightarrow> key \<le> ev_at (es ! i)"
    using event_search_ok [OF assms, of 0 "int (length es) - 1" key] unfolding search_events_def by auto
  have "\<forall>e \<in> set (take s es). ev_at e < key" using s(1,3) by (auto simp: in_set_conv_nth)
  moreover have "\<forall>e \<in> set (drop s es). key \<le> ev_at e" using s(4) by (auto simp: in_set_conv_nth)
  ultimately have "filter (\<lambda>e. ev_at e < key) (take s es @ drop s es) = take s es"
    "filter (\<lambda>e. key \<le> ev_at e) (take s es @ drop s es) = drop s es"
    by (simp_all only: filter_append) (simp_all add: filter_id_conv filter_empty_conv not_less not_le)
  then show ?thesis using s(1,2) by (intro exI [of _ s]) simp
qed

lemma sorted_events_split:
  assumes "sorted_wrt (\<lambda>a b. ev_at a < ev_at b) es" and "start \<le> end'"
  shows "es = filter (\<lambda>e. ev_at e < start) es @ filter (\<lambda>e. start \<le> ev_at e \<and> ev_at e < end') es @ filter (\<lambda>e. end' \<le> ev_at e) es"
  using assms
proof (induction es)
  case (Cons e es)
  have later: "\<forall>x \<in> set es. ev_at e < ev_at x" and IH: "es = filter (\<lambda>e. ev_at e < start) es @
      filter (\<lambda>e. start \<le> ev_at e \<and> ev_at e < end') es @ filter (\<lambda>e. end' \<le> ev_at e) es"
    using Cons by auto
  consider "ev_at e < start" | "start \<le> ev_at e" "ev_at e < end'" | "end' \<le> ev_at e" by linarith
  then show ?case
  proof cases
    case 1
    then show ?thesis using IH assms(2) by auto
  next
    case 2
    then have "filter (\<lambda>e. ev_at e < start) es = []" using later by (auto simp: filter_empty_conv)
    then show ?thesis using IH 2 by simp
  next
    case 3
    then have "filter (\<lambda>e. ev_at e < start) es = []" "filter (\<lambda>e. start \<le> ev_at e \<and> ev_at e < end') es = []"
      using later assms(2) by (auto simp: filter_empty_conv)
    then show ?thesis using IH 3 assms(2) by simp
  qed
qed simp

text \<open>
  Of events at distinct times in order the events of the window are selected, and one more when
  no event is at the end of the window: the first one after it.
\<close>

theorem events_selected:
  assumes "sorted_wrt (\<lambda>a b. ev_at a < ev_at b) es" and "start \<le> end'"
  shows "get_events es start end' =
    filter (\<lambda>e. start \<le> ev_at e \<and> ev_at e \<le> end') es @
    (if \<exists>e \<in> set es. ev_at e = end' then [] else take 1 (filter (\<lambda>e. end' < ev_at e) es))"
proof -
  define A B C where "A = filter (\<lambda>e. ev_at e < start) es"
    and "B = filter (\<lambda>e. start \<le> ev_at e \<and> ev_at e < end') es" and "C = filter (\<lambda>e. end' \<le> ev_at e) es"
  have es: "es = A @ B @ C" unfolding A_def B_def C_def by (rule sorted_events_split [OF assms])
  have lt: "\<forall>e \<in> set (A @ B). ev_at e < end'" "\<forall>e \<in> set A. ev_at e < start" "\<forall>e \<in> set B. start \<le> ev_at e"
    "\<forall>e \<in> set C. end' \<le> ev_at e" using assms(2) by (auto simp: A_def B_def C_def)
  have "filter (\<lambda>e. ev_at e < end') (A @ B @ C) = A @ B"
    using lt(1,4) by (auto simp: filter_empty_conv filter_id_conv)
  then obtain s t where "s \<le> length es" "search_events es start = int s" "take s es = A"
    and "t \<le> length es" "search_events es end' = int t" "take t es = A @ B"
    using search_events_ok [OF assms(1), of start] search_events_ok [OF assms(1), of end'] es A_def by metis
  then have "search_events es start = int (length A)" "search_events es end' = int (length (A @ B))"
    by (metis length_take min.absorb2)+
  then have g: "get_events es start end' = B @ take 1 C"
    by (simp add: get_events_def py_slice_def slice_bound_def nat_add_distrib es min_def take_Suc)
  have win: "filter (\<lambda>e. start \<le> ev_at e \<and> ev_at e \<le> end') (A @ B @ C) = B @ filter (\<lambda>e. ev_at e = end') C"
  proof -
    have "filter (\<lambda>e. start \<le> ev_at e \<and> ev_at e \<le> end') A = []" using lt(2) by (auto simp: filter_empty_conv)
    moreover have "filter (\<lambda>e. start \<le> ev_at e \<and> ev_at e \<le> end') B = B" using lt(1,3) by (auto simp: filter_id_conv le_less)
    moreover have "filter (\<lambda>e. start \<le> ev_at e \<and> ev_at e \<le> end') C = filter (\<lambda>e. ev_at e = end') C"
      using lt(4) assms(2) by (intro filter_cong refl) force
    ultimately show ?thesis by simp
  qed
  have after: "filter (\<lambda>e. end' < ev_at e) (A @ B @ C) = filter (\<lambda>e. end' < ev_at e) C"
    using lt(1) by (force simp: filter_empty_conv)
  have "take 1 C = filter (\<lambda>e. ev_at e = end') C @ (if \<exists>e \<in> set C. ev_at e = end' then [] else take 1 (filter (\<lambda>e. end' < ev_at e) C))"
  proof (cases C)
    case (Cons x xs)
    have "\<forall>y \<in> set xs. ev_at x < ev_at y" using assms(1) es Cons by (simp add: sorted_wrt_append)
    then have xs: "\<forall>y \<in> set xs. end' < ev_at y" using lt(4) Cons by auto
    then have "filter (\<lambda>e. ev_at e = end') xs = []" by (auto simp: filter_empty_conv)
    then show ?thesis using Cons xs lt(4) by (cases "ev_at x = end'") (auto simp: filter_empty_conv)
  qed simp
  moreover have "(\<exists>e \<in> set es. ev_at e = end') \<longleftrightarrow> (\<exists>e \<in> set C. ev_at e = end')" using es lt(1) by auto
  ultimately show ?thesis using g win after es by auto
qed

lemma events_selected_witness:
  "get_events [\<lparr>ev_at = 1, ev_value = ''a''\<rparr>, \<lparr>ev_at = 5, ev_value = ''b''\<rparr>, \<lparr>ev_at = 9, ev_value = ''c''\<rparr>] 0 6 =
     [\<lparr>ev_at = 1, ev_value = ''a''\<rparr>, \<lparr>ev_at = 5, ev_value = ''b''\<rparr>, \<lparr>ev_at = 9, ev_value = ''c''\<rparr>]"
  using events_selected [of "[\<lparr>ev_at = 1, ev_value = ''a''\<rparr>, \<lparr>ev_at = 5, ev_value = ''b''\<rparr>, \<lparr>ev_at = 9, ev_value = ''c''\<rparr>]" 0 6]
  by simp

text \<open>Events at the same time can be missed: of three at the start of the window the search finds the second.\<close>

lemma simultaneous_events_missed:
  "get_events [\<lparr>ev_at = 1, ev_value = ''a''\<rparr>, \<lparr>ev_at = 1, ev_value = ''b''\<rparr>, \<lparr>ev_at = 1, ev_value = ''c''\<rparr>] 1 1 =
     [\<lparr>ev_at = 1, ev_value = ''b''\<rparr>]"
  by code_simp

section \<open>Named entries\<close>

text \<open>
  What the four \<open>get\<close> methods share: entries with names, found by name or made new.
\<close>

definition entry :: "('a \<Rightarrow> string) \<Rightarrow> string \<Rightarrow> 'a list \<Rightarrow> 'a option" where
  "entry name n xs = find (\<lambda>x. name x = n) xs"

lemma entry_Nil [simp]: "entry name n [] = None"
  by (simp add: entry_def)

locale named_entries =
  fixes name :: "'a \<Rightarrow> string" and new :: "string \<Rightarrow> 'a"
  assumes name_new [simp]: "name (new n) = n"
begin

lemma names_with_named:
  assumes "\<And>x. name (f x) = name x"
  shows "map name (with_named name new n f xs) = (if n \<in> name ` set xs then map name xs else map name xs @ [n])"
  by (induction xs) (auto simp: assms)

lemma distinct_with_named:
  assumes "\<And>x. name (f x) = name x" and "distinct (map name xs)"
  shows "distinct (map name (with_named name new n f xs))"
  unfolding names_with_named [OF assms(1)] using assms(2) by auto

lemma entry_with_named:
  assumes "\<And>x. name (f x) = name x"
  shows "entry name m (with_named name new n f xs) =
    (if m = n then Some (f (case entry name n xs of None \<Rightarrow> new n | Some x \<Rightarrow> x)) else entry name m xs)"
  by (induction xs) (auto simp: entry_def assms)

lemma with_named_all:
  "(\<forall>x \<in> set xs. P x) \<Longrightarrow> P (f (new n)) \<Longrightarrow> (\<And>x. P x \<Longrightarrow> P (f x)) \<Longrightarrow> \<forall>x \<in> set (with_named name new n f xs). P x"
  by (induction xs) auto

end

interpretation timelines: named_entries tl_name new_timeline
  by unfold_locales (simp add: new_timeline_def)

interpretation range_lines: named_entries range_name new_range_line
  by unfold_locales (simp add: new_range_line_def)

interpretation event_lines: named_entries event_name new_event_line
  by unfold_locales (simp add: new_event_line_def)

section \<open>Reading groups the ranges\<close>

definition ranges_in :: "timeline list \<Rightarrow> string \<Rightarrow> string \<Rightarrow> data_range list" where
  "ranges_in ts a b =
     (case entry tl_name a ts of None \<Rightarrow> []
      | Some t \<Rightarrow> (case entry range_name b (ranges t) of None \<Rightarrow> [] | Some l \<Rightarrow> range_list l))"

definition well_named :: "timeline list \<Rightarrow> bool" where
  "well_named ts \<longleftrightarrow> distinct (map tl_name ts) \<and> (\<forall>t \<in> set ts. distinct (map range_name (ranges t)) \<and>
     distinct (map event_name (event_str t)) \<and> distinct (map event_name (event_int t)))"

lemma tl_name_frame [simp]:
  "tl_name (add_range b r t) = tl_name t" "tl_name (add_event_str b e t) = tl_name t" "tl_name (add_event_int b i t) = tl_name t"
  "ranges (add_event_str b e t) = ranges t" "ranges (add_event_int b i t) = ranges t"
  "tl_name (sort_timeline t) = tl_name t"
  by (simp_all add: add_range_def add_event_str_def add_event_int_def sort_timeline_def)

lemma ranges_in_add_range:
  "ranges_in (add_to a' (add_range b' r) ts) a b = ranges_in ts a b @ (if a = a' \<and> b = b' then [r] else [])"
proof (cases "a' = a")
  case True
  let ?t = "case entry tl_name a ts of None \<Rightarrow> new_timeline a | Some t \<Rightarrow> t"
  have "ranges_in (add_to a' (add_range b' r) ts) a b =
      (case entry range_name b (ranges (add_range b' r ?t)) of None \<Rightarrow> [] | Some l \<Rightarrow> range_list l)"
    unfolding True by (simp add: ranges_in_def add_to_def timelines.entry_with_named)
  also have "\<dots> = (case entry range_name b (ranges ?t) of None \<Rightarrow> [] | Some l \<Rightarrow> range_list l) @ (if b = b' then [r] else [])"
    by (auto simp: add_range_def range_lines.entry_with_named new_range_line_def split: option.split)
  also have "(case entry range_name b (ranges ?t) of None \<Rightarrow> [] | Some l \<Rightarrow> range_list l) = ranges_in ts a b"
    by (simp add: ranges_in_def new_timeline_def split: option.split)
  finally show ?thesis using True by simp
qed (auto simp: ranges_in_def add_to_def timelines.entry_with_named)

lemma ranges_in_same:
  assumes "\<And>t. tl_name (f t) = tl_name t" and "\<And>t. ranges (f t) = ranges t"
  shows "ranges_in (add_to a' f ts) a b = ranges_in ts a b"
  by (auto simp: ranges_in_def add_to_def timelines.entry_with_named assms new_timeline_def split: option.split)

lemma well_named_add_to:
  assumes "well_named ts" and "\<And>t. tl_name (f t) = tl_name t"
    and "\<And>t. distinct (map range_name (ranges t)) \<and> distinct (map event_name (event_str t)) \<and> distinct (map event_name (event_int t)) \<Longrightarrow>
      distinct (map range_name (ranges (f t))) \<and> distinct (map event_name (event_str (f t))) \<and> distinct (map event_name (event_int (f t)))"
  shows "well_named (add_to a f ts)"
  unfolding well_named_def add_to_def
  using assms(1) timelines.distinct_with_named [OF assms(2)]
  by (intro conjI timelines.with_named_all assms(3)) (simp_all add: well_named_def new_timeline_def)

lemma well_named_line: "well_named (snd x) \<Longrightarrow> well_named (snd (read_data_line line x))"
  by (auto simp: read_data_line_def intro!: well_named_add_to split: prod.splits option.splits)
    (auto simp: add_range_def add_event_str_def add_event_int_def
      intro!: range_lines.distinct_with_named event_lines.distinct_with_named)

definition ranges_read :: "string list \<Rightarrow> string \<Rightarrow> string \<Rightarrow> data_range list" where
  "ranges_read lines a b =
     map (\<lambda>(_, _, r). r) (filter (\<lambda>(a', b', _). a' = a \<and> b' = b) (List.map_filter match_range lines))"

lemma ranges_in_line:
  "ranges_in (snd (read_data_line line x)) a b = ranges_in (snd x) a b @ ranges_read [line] a b"
  by (auto simp: read_data_line_def ranges_read_def map_filter_simps ranges_in_add_range ranges_in_same
      split: prod.splits option.splits)

lemma ranges_read_append: "ranges_read (ls @ [l]) a b = ranges_read ls a b @ ranges_read [l] a b"
  by (simp add: ranges_read_def List.map_filter_def)

lemma read_lines:
  "ranges_in (snd (foldl (\<lambda>x line. read_data_line line x) (Map.empty, []) lines)) a b = ranges_read lines a b \<and>
   well_named (snd (foldl (\<lambda>x line. read_data_line line x) (Map.empty, []) lines))"
proof (induction lines rule: rev_induct)
  case Nil
  show ?case by (simp add: ranges_in_def entry_def ranges_read_def map_filter_simps well_named_def)
next
  case (snoc line lines)
  then show ?case by (simp add: ranges_in_line ranges_read_append [of lines line] well_named_line del: foldl_append)
      (simp add: ranges_in_line ranges_read_append [of lines line] well_named_line)
qed

lemma entry_map: "(\<And>x. name (f x) = name x) \<Longrightarrow> entry name n (map f xs) = map_option f (entry name n xs)"
  by (induction xs) (auto simp: entry_def)

lemma ranges_in_sorted: "ranges_in (map sort_timeline ts) a b = sort_key r_start (ranges_in ts a b)"
proof -
  have "entry range_name b (map sort_ranges ls) = map_option sort_ranges (entry range_name b ls)" for ls
    by (rule entry_map) (simp add: sort_ranges_def)
  then show ?thesis
    by (simp add: ranges_in_def entry_map sort_timeline_def sort_ranges_def split: option.split)
qed

lemma well_named_sorted: "well_named ts \<Longrightarrow> well_named (map sort_timeline ts)"
  by (auto simp: well_named_def sort_timeline_def comp_def sort_ranges_def sort_events_def)

text \<open>
  Reading a file groups its ranges: names are distinct on every level, and the ranges of a line
  of a timeline are those of the file's lines with these two names, all of them, sorted by their start and in
  the order of the file where they start together.
\<close>

theorem read_data_groups:
  "(\<forall>a b. ranges_in (snd (read_data lines)) a b =
      sort_key r_start (map (\<lambda>(_, _, r). r) (filter (\<lambda>(a', b', _). a' = a \<and> b' = b) (List.map_filter match_range lines)))) \<and>
   distinct (map tl_name (snd (read_data lines))) \<and>
   list_all (\<lambda>t. distinct (map range_name (ranges t)) \<and> distinct (map event_name (event_str t)) \<and>
     distinct (map event_name (event_int t))) (snd (read_data lines))"
proof -
  obtain c ts where x: "foldl (\<lambda>x line. read_data_line line x) (Map.empty, []) lines = (c, ts)" by (metis surj_pair)
  have d: "snd (read_data lines) = map sort_timeline ts" by (simp add: read_data_def x)
  have "well_named (map sort_timeline ts)" using read_lines [of lines] by (intro well_named_sorted) (simp add: x)
  moreover have "ranges_in ts a b = ranges_read lines a b" for a b using read_lines [of lines] by (simp add: x)
  ultimately show ?thesis unfolding d ranges_in_sorted by (simp add: ranges_read_def well_named_def list_all_iff)
qed

section \<open>The scale\<close>

lemma int_le_div_iff: "(0 :: int) < p \<Longrightarrow> n \<le> d div p \<longleftrightarrow> n * p \<le> d"
proof
  assume p: "0 < p" and "n * p \<le> d"
  then have "n * p div p \<le> d div p" by (intro zdiv_mono1)
  then show "n \<le> d div p" using p by simp
next
  assume p: "0 < p" and "n \<le> d div p"
  then have "n * p \<le> d div p * p" by (intro mult_right_mono) simp_all
  also have "\<dots> \<le> d" using p pos_mod_sign [OF p, of d] div_mult_mod_eq [of d p] by linarith
  finally show "n * p \<le> d" .
qed

lemma closest_loop_power:
  assumes "0 < c" and "c = 10 ^ k" and "c < d \<or> c = 1" and "0 < d"
  shows "\<exists>k. closest_loop d c = 10 ^ k \<and> d \<le> 10 * closest_loop d c \<and> (closest_loop d c < d \<or> closest_loop d c = 1)"
  using assms
proof (induction d c arbitrary: k rule: closest_loop.induct)
  case (1 d c)
  show ?case
  proof (cases "c * 10 < d")
    case True
    then have "closest_loop d c = closest_loop d (c * 10)" using 1(2) by (simp add: closest_loop.simps [of d c])
    then show ?thesis using 1(1) [of "Suc k"] 1(2,3,5) True by (simp add: mult.commute)
  next
    case False
    then have "closest_loop d c = c" by (subst closest_loop.simps) simp
    then show ?thesis using 1(2-5) False by auto
  qed
qed

lemma scale_delta_ok:
  assumes "2 \<le> hi - lo"
  shows "\<exists>k. scale_delta lo hi = Inr (10 ^ k) \<and> 2 \<le> (hi - lo) div 10 ^ k \<and> (hi - lo) div 10 ^ k \<le> 19"
proof -
  let ?d = "hi - lo" and ?c = "closest_loop (hi - lo) 1"
  obtain k where k: "?c = 10 ^ k" "?d \<le> 10 * ?c" "?c < ?d \<or> ?c = 1"
    using closest_loop_power [of 1 0 ?d] assms by auto
  have "10 ^ k \<le> ?d" using k assms by auto
  then have q: "1 \<le> ?d div 10 ^ k" by (simp add: int_le_div_iff)
  have "\<not> 11 \<le> ?d div 10 ^ k" using k(1,2) assms by (simp add: int_le_div_iff)
  then have q': "?d div 10 ^ k \<le> 10" by simp
  show ?thesis
  proof (cases "?d div 10 ^ k = 1")
    case False
    then show ?thesis using k(1) q q' by (intro exI [of _ k]) (simp add: scale_delta_def Let_def)
  next
    case True
    have "k \<noteq> 0" using True assms by (cases k) auto
    then obtain j where j: "k = Suc j" by (cases k) auto
    have "?d = 10 ^ k + ?d mod 10 ^ k" using True by (metis div_mult_mod_eq mult_1)
    moreover have "0 \<le> ?d mod 10 ^ k" "?d mod 10 ^ k < 10 ^ k" by simp_all
    ultimately have "10 ^ k \<le> ?d" "?d < 2 * 10 ^ k" by linarith+
    then have b: "10 * 10 ^ j \<le> ?d" "?d < 20 * 10 ^ j" using j by simp_all
    have "10 \<le> ?d div 10 ^ j" using b(1) by (simp add: int_le_div_iff)
    moreover have "\<not> 20 \<le> ?d div 10 ^ j" using b(2) by (simp add: int_le_div_iff)
    ultimately show ?thesis using k(1) True j by (intro exI [of _ j]) (simp add: scale_delta_def Let_def)
  qed
qed

lemma div_diff_bounds:
  assumes "(0 :: int) < d"
  shows "(hi - lo) div d \<le> hi div d - lo div d \<and> hi div d - lo div d \<le> (hi - lo) div d + 1"
proof -
  have h: "hi = hi div d * d + hi mod d" "lo = lo div d * d + lo mod d" by simp_all
  have m: "0 \<le> hi mod d" "hi mod d < d" "0 \<le> lo mod d" "lo mod d < d" using assms by simp_all
  have "hi - lo = (hi div d - lo div d) * d + (hi mod d - lo mod d)"
    using h by (simp add: algebra_simps)
  then have "(hi - lo) div d = (hi div d - lo div d) + (hi mod d - lo mod d) div d"
    using assms by (metis add.commute div_mult_self1 less_irrefl mult.commute)
  moreover have "- 1 * d \<le> hi mod d - lo mod d" "\<not> 1 * d \<le> hi mod d - lo mod d" using m by linarith+
  then have "- 1 \<le> (hi mod d - lo mod d) div d" "\<not> 1 \<le> (hi mod d - lo mod d) div d"
    unfolding int_le_div_iff [OF assms] .
  ultimately show ?thesis by linarith
qed

text \<open>
  On a scale of length at least two there are between two and twenty marks: all the multiples of a power
  of ten that lie above the lower bound and not above the upper one, in order. On a scale of length one the
  distance of the marks is zero, and the division by it raises.
\<close>

theorem scale_marks:
  "(2 \<le> hi - lo \<longrightarrow> (\<exists>k ticks. scale_ticks lo hi = Inr ticks \<and>
      set ticks = {x. lo < x \<and> x \<le> hi \<and> 10 ^ k dvd x} \<and> sorted_wrt (<) ticks \<and>
      2 \<le> length ticks \<and> length ticks \<le> 20)) \<and>
   (hi - lo = 1 \<longrightarrow> scale_ticks lo hi = Inl ZeroDivisionError)"
proof (intro conjI impI)
  assume "2 \<le> hi - lo"
  from scale_delta_ok [OF this] obtain k where
    k: "scale_delta lo hi = Inr (10 ^ k)" "2 \<le> (hi - lo) div 10 ^ k" "(hi - lo) div 10 ^ k \<le> 19" by blast
  define d where "d = (10 :: int) ^ k"
  have d: "0 < d" by (simp add: d_def)
  let ?a = "lo div d + 1" and ?n = "nat (hi div d - lo div d)"
  have a: "lo - lo mod d + d = ?a * d" and h: "hi - hi mod d = hi div d * d"
    by (simp_all add: minus_mod_eq_div_mult algebra_simps)
  have "(hi div d * d - ?a * d) div d + 1 = hi div d - lo div d"
    using d by (simp flip: left_diff_distrib)
  moreover have "?a * d + int i * d = (?a + int i) * d" for i by (simp add: algebra_simps)
  ultimately have t: "scale_ticks lo hi = Inr (map (\<lambda>i. (?a + int i) * d) [0..<?n])"
    using k(1) unfolding d_def [symmetric] scale_ticks_def by (simp only: ebind_simps Let_def a h)
  have "2 \<le> hi div d - lo div d" "hi div d - lo div d \<le> 20"
    using div_diff_bounds [OF d, of hi lo] k(2,3) unfolding d_def [symmetric] by linarith+
  then have n: "2 \<le> ?n \<and> ?n \<le> 20" by linarith
  have "set (map (\<lambda>i. (?a + int i) * d) [0..<?n]) = {x. lo < x \<and> x \<le> hi \<and> d dvd x}"
  proof (intro set_eqI iffI)
    fix x assume "x \<in> set (map (\<lambda>i. (?a + int i) * d) [0..<?n])"
    with d obtain i where i: "x = (?a + int i) * d" "i < ?n" by auto
    have "\<not> ?a + int i \<le> lo div d" "?a + int i \<le> hi div d" using i(2) by auto
    then show "x \<in> {x. lo < x \<and> x \<le> hi \<and> d dvd x}" using i(1) by (simp add: int_le_div_iff [OF d])
  next
    fix x assume "x \<in> {x. lo < x \<and> x \<le> hi \<and> d dvd x}"
    then obtain q where q: "x = q * d" "lo < x" "x \<le> hi" by (auto simp: dvd_def mult.commute)
    then have "q \<le> hi div d" "\<not> q \<le> lo div d" by (simp_all add: int_le_div_iff [OF d])
    then show "x \<in> set (map (\<lambda>i. (?a + int i) * d) [0..<?n])"
      using q(1) by (auto intro!: image_eqI [of _ _ "nat (q - ?a)"])
  qed
  moreover have "sorted_wrt (<) (map (\<lambda>i. (?a + int i) * d) [0..<?n])"
    using d by (simp add: sorted_wrt_map sorted_wrt_iff_nth_less)
  ultimately show "\<exists>k ticks. scale_ticks lo hi = Inr ticks \<and> set ticks = {x. lo < x \<and> x \<le> hi \<and> 10 ^ k dvd x} \<and>
      sorted_wrt (<) ticks \<and> 2 \<le> length ticks \<and> length ticks \<le> 20"
    using t n by (intro exI [of _ k] exI [of _ "map (\<lambda>i. (?a + int i) * d) [0..<?n]"]) (simp add: d_def)
next
  assume "hi - lo = 1"
  moreover have "closest_loop 1 1 = 1" by (subst closest_loop.simps) simp
  ultimately show "scale_ticks lo hi = Inl ZeroDivisionError" by (simp add: scale_ticks_def scale_delta_def)
qed

lemma scale_marks_witness: "(\<exists>k ticks. scale_ticks 0 25 = Inr ticks \<and> set ticks = {x. 0 < x \<and> x \<le> 25 \<and> 10 ^ k dvd x}) \<and>
   scale_ticks 7 8 = Inl ZeroDivisionError"
  using scale_marks [where lo = 0 and hi = 25] scale_marks [where lo = 7 and hi = 8] by auto

section \<open>The window\<close>

text \<open>The window stays inside the data; it is empty exactly when it was moved off the data.\<close>

lemma set_range_inside:
  "w_start w \<le> shown_start (set_range a b w) \<and> shown_end (set_range a b w) \<le> w_end w"
  "w_start w \<le> w_end w \<Longrightarrow>
     shown_start (set_range a b w) \<le> shown_end (set_range a b w) \<longleftrightarrow> min a b \<le> w_end w \<and> w_start w \<le> max a b"
  by (auto simp: set_range_def Let_def)

end
