(* ===== verification/Ns3Config.thy ===== *)
theory Ns3Config
  imports PyText
begin

text \<open>
  \<open>utils.py\<close>, which reads lists and booleans out of configuration files, and the part of \<open>test.py\<close> that reads the
  files of the build and the lists of examples to run. The files hold Python literals, which the code gives to
  \<open>eval\<close>; \<open>eval_literal\<close> evaluates strings, booleans, tuples and lists of them, and answers with a SyntaxError for
  every other text.
\<close>

section \<open>Literals\<close>

datatype lit = LStr string | LBool bool | LNone | LTup "lit list" | LList "lit list"

datatype token = Open char | Close char | Comma | Lit lit

definition SyntaxError :: py_error where
  "SyntaxError = GenericException ''SyntaxError''"

definition name_lit :: "string \<Rightarrow> lit option" where
  "name_lit w =
     (if w = ''True'' then Some (LBool True) else if w = ''False'' then Some (LBool False)
      else if w = ''None'' then Some LNone else None)"

definition put_token :: "token \<Rightarrow> token list result \<Rightarrow> token list result" where
  "put_token t r = ebind r (\<lambda>ts. Inr (t # ts))"

lemma put_token_simp [simp]: "put_token t (Inr ts) = Inr (t # ts)"
  by (simp add: put_token_def)

lemma length_dropWhile: "length (dropWhile P xs) \<le> length xs"
  by (induction xs) auto

function tokens :: "string \<Rightarrow> token list result" where
  "tokens [] = Inr []"
| "tokens (c # s) =
     (if is_white c then tokens s
      else if c = CHR ''['' \<or> c = CHR ''('' then put_token (Open c) (tokens s)
      else if c = CHR '']'' \<or> c = CHR '')'' then put_token (Close c) (tokens s)
      else if c = CHR '','' then put_token Comma (tokens s)
      else if c = dquote \<or> c = squote then
        (let body = takeWhile (\<lambda>x. x \<noteq> c) s; r = dropWhile (\<lambda>x. x \<noteq> c) s
         in if r = [] \<or> bslash \<in> set body \<or> newline \<in> set body then Inl SyntaxError
            else put_token (Lit (LStr body)) (tokens (tl r)))
      else if name_char c then
        (let w = takeWhile name_char s
         in case name_lit (c # w) of
              None \<Rightarrow> Inl SyntaxError
            | Some l \<Rightarrow> put_token (Lit l) (tokens (dropWhile name_char s)))
      else Inl SyntaxError)"
  by pat_completeness auto

termination
proof (relation "measure length", goal_cases)
  case (6 c s body r)
  have "length (tl r) \<le> length r" by simp
  with 6 have "length (tl r) \<le> length s"
    using length_dropWhile [of "\<lambda>x. x \<noteq> c" s] by simp
  then show ?case by simp
next
  case (7 c s w l)
  then show ?case using length_dropWhile [of name_char s] by (simp add: less_Suc_eq_le)
qed simp_all

text \<open>Strings that follow each other are one string.\<close>

fun merge_strings :: "token list \<Rightarrow> token list" where
  "merge_strings (Lit (LStr a) # Lit (LStr b) # ts) = merge_strings (Lit (LStr (a @ b)) # ts)"
| "merge_strings (t # ts) = t # merge_strings ts"
| "merge_strings [] = []"

text \<open>
  An open bracket with the values read so far; whether a value may come next; whether there was a comma. The outermost
  frame has no bracket.
\<close>

type_synonym frame = "char \<times> lit list \<times> bool \<times> bool"

fun add_value :: "lit \<Rightarrow> frame list \<Rightarrow> frame list result" where
  "add_value v ((b, vs, True, k) # fs) = Inr ((b, vs @ [v], False, k) # fs)"
| "add_value v fs = Inl SyntaxError"

definition tuple_of :: "lit list \<Rightarrow> bool \<Rightarrow> lit" where
  "tuple_of vs k = (if k \<or> vs = [] then LTup vs else hd vs)"

fun parse_lits :: "token list \<Rightarrow> frame list \<Rightarrow> lit result" where
  "parse_lits [] [(b, vs, e, k)] = (if vs = [] then Inl SyntaxError else Inr (tuple_of vs k))"
| "parse_lits [] fs = Inl SyntaxError"
| "parse_lits (Open c # ts) fs = parse_lits ts ((c, [], True, False) # fs)"
| "parse_lits (Close c # ts) ((b, vs, e, k) # f # fs) =
     (if b = CHR ''['' \<and> c = CHR '']'' then ebind (add_value (LList vs) (f # fs)) (parse_lits ts)
      else if b = CHR ''('' \<and> c = CHR '')'' then ebind (add_value (tuple_of vs k) (f # fs)) (parse_lits ts)
      else Inl SyntaxError)"
| "parse_lits (Close c # ts) fs = Inl SyntaxError"
| "parse_lits (Comma # ts) ((b, vs, False, k) # fs) = parse_lits ts ((b, vs, True, True) # fs)"
| "parse_lits (Comma # ts) fs = Inl SyntaxError"
| "parse_lits (Lit l # ts) fs = ebind (add_value l fs) (parse_lits ts)"

definition eval_literal :: "string \<Rightarrow> lit result" where
  "eval_literal s = ebind (tokens s) (\<lambda>ts. parse_lits (merge_strings ts) [(CHR '' '', [], True, False)])"

section \<open>Reading lists and booleans (utils.py)\<close>

type_synonym files = "string \<rightharpoonup> string"

text \<open>The lines of a file, each with its newline; the last one may have none.\<close>

fun file_lines :: "string \<Rightarrow> string list" where
  "file_lines [] = []"
| "file_lines (c # s) =
     (if c = newline then [c] # file_lines s
      else (case file_lines s of [] \<Rightarrow> [[c]] | l # ls \<Rightarrow> (c # l) # ls))"

definition uncomment :: "string \<Rightarrow> string" where
  "uncomment line = fst (split_once CHR ''#'' line)"

definition after_equals :: "string \<Rightarrow> string result" where
  "after_equals s = (case split_once CHR ''='' s of (_, None) \<Rightarrow> Inl IndexError | (_, Some v) \<Rightarrow> Inr (py_strip v))"

fun scan_list :: "string \<Rightarrow> string list \<Rightarrow> string \<Rightarrow> bool \<Rightarrow> lit result" where
  "scan_list name [] list_string multi = Inr (LList [])"
| "scan_list name (line # ls) list_string multi =
     (let line = uncomment line in
      if occurs name line \<or> multi then
        (let list_string = list_string @ line in
         if CHR '']'' \<notin> set list_string then scan_list name ls list_string True
         else ebind (after_equals list_string) eval_literal)
      else scan_list name ls list_string multi)"

definition get_list_from_file :: "files \<Rightarrow> string \<Rightarrow> string \<Rightarrow> lit result" where
  "get_list_from_file F file_path list_name =
     (case F file_path of None \<Rightarrow> Inr (LList []) | Some s \<Rightarrow> scan_list list_name (file_lines s) '''' False)"

fun scan_bool :: "string \<Rightarrow> string list \<Rightarrow> lit \<Rightarrow> lit result" where
  "scan_bool name [] value_if_missing = Inr value_if_missing"
| "scan_bool name (line # ls) value_if_missing =
     (let line = uncomment line in
      if occurs name line then ebind (after_equals line) eval_literal
      else scan_bool name ls value_if_missing)"

definition get_bool_from_file :: "files \<Rightarrow> string \<Rightarrow> string \<Rightarrow> lit \<Rightarrow> lit result" where
  "get_bool_from_file F file_path bool_name value_if_missing =
     (case F file_path of
        None \<Rightarrow> Inl (NameError ''bool_found'')
      | Some s \<Rightarrow> scan_bool bool_name (file_lines s) value_if_missing)"

definition truth :: "lit \<Rightarrow> bool" where
  "truth v = (case v of LStr s \<Rightarrow> s \<noteq> [] | LBool b \<Rightarrow> b | LNone \<Rightarrow> False | LTup vs \<Rightarrow> vs \<noteq> [] | LList vs \<Rightarrow> vs \<noteq> [])"

definition read_config_file :: "files \<Rightarrow> string \<Rightarrow> (bool \<times> lit \<times> lit \<times> lit) result" where
  "read_config_file F home =
     (let defaults = LList [LStr ''all_modules'']; p = home @ ''/.ns3rc'';
          path = (if F ''.ns3rc'' \<noteq> None then Some ''.ns3rc'' else if F p \<noteq> None then Some p else None)
      in case path of
           None \<Rightarrow> Inr (False, defaults, LBool False, LBool False)
         | Some f \<Rightarrow>
             ebind (get_list_from_file F f ''modules_enabled'') (\<lambda>m.
             ebind (get_bool_from_file F f ''examples_enabled'' (LBool False)) (\<lambda>e.
             ebind (get_bool_from_file F f ''tests_enabled'' (LBool False)) (\<lambda>t.
             Inr (True, if truth m then m else defaults, e, t)))))"

lemma truth_simps [simp]:
  "truth (LStr s) \<longleftrightarrow> s \<noteq> []" "truth (LBool b) \<longleftrightarrow> b" "\<not> truth LNone"
  "truth (LTup vs) \<longleftrightarrow> vs \<noteq> []" "truth (LList vs) \<longleftrightarrow> vs \<noteq> []"
  by (simp_all add: truth_def)

section \<open>The configuration of the build (test.py)\<close>

type_synonym names = "string \<rightharpoonup> lit"

definition interesting_config_items :: "string list" where
  "interesting_config_items =
     [''NS3_ENABLED_MODULES'', ''NS3_ENABLED_CONTRIBUTED_MODULES'', ''NS3_MODULE_PATH'', ''NSC_ENABLED'',
      ''ENABLE_REAL_TIME'', ''ENABLE_THREADING'', ''ENABLE_EXAMPLES'', ''ENABLE_TESTS'', ''EXAMPLE_DIRECTORIES'',
      ''ENABLE_PYTHON_BINDINGS'', ''NSCLICK'', ''ENABLE_BRITE'', ''ENABLE_OPENFLOW'', ''APPNAME'', ''BUILD_PROFILE'',
      ''VERSION'', ''PYTHON'', ''VALGRIND_FOUND'']"

definition config_defaults :: names where
  "config_defaults =
     [''NSC_ENABLED'' \<mapsto> LBool False, ''ENABLE_REAL_TIME'' \<mapsto> LBool False, ''ENABLE_THREADING'' \<mapsto> LBool False,
      ''ENABLE_EXAMPLES'' \<mapsto> LBool True, ''ENABLE_TESTS'' \<mapsto> LBool True, ''NSCLICK'' \<mapsto> LBool False,
      ''ENABLE_BRITE'' \<mapsto> LBool False, ''ENABLE_OPENFLOW'' \<mapsto> LBool False, ''EXAMPLE_DIRECTORIES'' \<mapsto> LList [],
      ''APPNAME'' \<mapsto> LStr '''', ''BUILD_PROFILE'' \<mapsto> LStr '''', ''BUILD_PROFILE_SUFFIX'' \<mapsto> LStr '''',
      ''VERSION'' \<mapsto> LStr '''', ''PYTHON'' \<mapsto> LStr '''', ''VALGRIND_FOUND'' \<mapsto> LBool True]"

definition starts_with :: "string \<Rightarrow> string \<Rightarrow> bool" where
  "starts_with p s \<longleftrightarrow> take (length p) s = p"

definition name_value :: "names \<Rightarrow> string \<Rightarrow> lit result" where
  "name_value N x = (case N x of None \<Rightarrow> Inl (NameError x) | Some v \<Rightarrow> Inr v)"

definition str_of :: "lit \<Rightarrow> string result" where
  "str_of v = (case v of LStr s \<Rightarrow> Inr s | _ \<Rightarrow> Inl TypeError)"

definition name_str :: "names \<Rightarrow> string \<Rightarrow> string result" where
  "name_str N x = ebind (name_value N x) str_of"

definition iter_lit :: "lit \<Rightarrow> lit list result" where
  "iter_lit v =
     (case v of LTup vs \<Rightarrow> Inr vs | LList vs \<Rightarrow> Inr vs | LStr s \<Rightarrow> Inr (map (\<lambda>c. LStr [c]) s) | _ \<Rightarrow> Inl TypeError)"

text \<open>
  The state file of waf: the variables \<open>top_dir\<close> and \<open>out_dir\<close> are bound by the last line that assigns
  them. A value with an equals sign in it makes the unpacking of \<open>split\<close> fail.
\<close>

definition assigned_value :: "string \<Rightarrow> lit result" where
  "assigned_value line =
     (case split_on CHR ''='' line of [key, val] \<Rightarrow> eval_literal (py_strip val) | _ \<Rightarrow> Inl ValueError)"

fun waf_dirs :: "string list \<Rightarrow> lit option \<times> lit option \<Rightarrow> (lit option \<times> lit option) result" where
  "waf_dirs [] ds = Inr ds"
| "waf_dirs (line # ls) (td, od) =
     ebind (if starts_with ''top_dir ='' line then ebind (assigned_value line) (\<lambda>v. Inr (Some v)) else Inr td) (\<lambda>td.
     ebind (if starts_with ''out_dir ='' line then ebind (assigned_value line) (\<lambda>v. Inr (Some v)) else Inr od) (\<lambda>od.
     waf_dirs ls (td, od)))"

definition exec_assign :: "string \<Rightarrow> names \<Rightarrow> names result" where
  "exec_assign line N =
     (case split_once CHR ''='' line of
        (_, None) \<Rightarrow> Inl SyntaxError
      | (k, Some v) \<Rightarrow> ebind (eval_literal (py_strip v)) (\<lambda>l. Inr (N(py_strip k \<mapsto> l))))"

fun exec_items :: "string \<Rightarrow> string list \<Rightarrow> names \<Rightarrow> names result" where
  "exec_items line [] N = Inr N"
| "exec_items line (i # is) N =
     ebind (if starts_with i line then exec_assign line N else Inr N) (exec_items line is)"

fun exec_lines :: "string list \<Rightarrow> names \<Rightarrow> names result" where
  "exec_lines [] N = Inr N"
| "exec_lines (line # ls) N = ebind (exec_items line interesting_config_items N) (exec_lines ls)"

record waf_config =
  NS3_BASEDIR :: string
  NS3_BUILDDIR :: string
  globals :: names

definition read_waf_config :: "files \<Rightarrow> string \<Rightarrow> waf_config result" where
  "read_waf_config F platform =
     (let a = F (''.lock-waf_'' @ platform @ ''_build''); b = F ''.lock-waf_linux2_build''
      in case (if a \<noteq> None then a else b) of
           None \<Rightarrow> Inl SystemExit
         | Some s \<Rightarrow>
             ebind (waf_dirs (file_lines s) (None, None)) (\<lambda>(td, od).
             ebind (case td of None \<Rightarrow> Inl (NameError ''top_dir'') | Some v \<Rightarrow> str_of v) (\<lambda>top_dir.
             ebind (case od of None \<Rightarrow> Inl (NameError ''out_dir'') | Some v \<Rightarrow> str_of v) (\<lambda>out_dir.
             (case F (out_dir @ ''/c4che/_cache.py'') of
                None \<Rightarrow> Inl OSError
              | Some cache \<Rightarrow>
                  ebind (exec_lines (file_lines cache) config_defaults) (\<lambda>N.
                  Inr \<lparr>NS3_BASEDIR = top_dir, NS3_BUILDDIR = out_dir, globals = N\<rparr>))))))"

section \<open>The examples to run (test.py)\<close>

text \<open>The conditions of the lists of examples: a name or a literal, or a comparison of two such by \<open>==\<close>.\<close>

definition eval_atom :: "names \<Rightarrow> string \<Rightarrow> lit result" where
  "eval_atom N w = (case name_lit w of Some l \<Rightarrow> Inr l | None \<Rightarrow> name_value N w)"

definition eval_condition :: "names \<Rightarrow> lit \<Rightarrow> bool result" where
  "eval_condition N c =
     (case c of
        LStr s \<Rightarrow>
          (case filter (\<lambda>w. w \<noteq> '''') (split_on CHR '' '' s) of
             [w] \<Rightarrow> ebind (eval_atom N w) (\<lambda>v. Inr (truth v))
           | [a, op, b] \<Rightarrow>
               (if op = ''=='' then ebind (eval_atom N a) (\<lambda>v. ebind (eval_atom N b) (\<lambda>w. Inr (v = w)))
                else Inl SyntaxError)
           | _ \<Rightarrow> Inl SyntaxError)
      | _ \<Rightarrow> Inl TypeError)"

record examples =
  example_tests :: "(string \<times> string \<times> lit \<times> lit) list"
  example_names_original :: "string list"
  python_tests :: "(string \<times> lit) list"

definition no_examples :: examples where
  "no_examples = \<lparr>example_tests = [], example_names_original = [], python_tests = []\<rparr>"

record source_tree =
  texts :: files
  present :: "string \<Rightarrow> bool"
  here :: string

text \<open>\<open>"%s%s-%s%s" % (APPNAME, VERSION, name, BUILD_PROFILE_SUFFIX)\<close>\<close>

definition program_name :: "names \<Rightarrow> string \<Rightarrow> string result" where
  "program_name N name =
     ebind (name_str N ''APPNAME'') (\<lambda>a. ebind (name_str N ''VERSION'') (\<lambda>v.
     ebind (name_str N ''BUILD_PROFILE_SUFFIX'') (\<lambda>x. Inr (a @ v @ ''-'' @ name @ x))))"

definition with_arguments :: "string \<Rightarrow> string option \<Rightarrow> string" where
  "with_arguments p args = (case args of None \<Rightarrow> p | Some a \<Rightarrow> p @ '' '' @ a)"

definition add_cpp_example :: "source_tree \<Rightarrow> waf_config \<Rightarrow> string \<Rightarrow> lit \<Rightarrow> examples \<Rightarrow> examples result" where
  "add_cpp_example T C cpp_dir e ex =
     (case e of
        LTup [LStr original, do_run, do_valgrind_run] \<Rightarrow>
          (case split_once CHR '' '' original of (name, args) \<Rightarrow>
           ebind (program_name (globals C) name) (\<lambda>prog.
           ebind (relpath (here T) cpp_dir (NS3_BUILDDIR C)) (\<lambda>dir.
           let path = join_path cpp_dir prog; shown = join_path dir name in
           Inr (if present T path
                then ex\<lparr>example_tests := example_tests ex
                          @ [(with_arguments shown args, with_arguments path args, do_run, do_valgrind_run)],
                        example_names_original := example_names_original ex @ [original]\<rparr>
                else ex))))
      | LTup [_, _, _] \<Rightarrow> Inl AttributeError
      | _ \<Rightarrow> Inl ValueError)"

definition add_python_example :: "source_tree \<Rightarrow> string \<Rightarrow> lit \<Rightarrow> examples \<Rightarrow> examples result" where
  "add_python_example T script_dir e ex =
     (case e of
        LTup [LStr original, do_run] \<Rightarrow>
          (case split_once CHR '' '' original of (name, args) \<Rightarrow>
           let path = join_path script_dir name in
           Inr (if present T path
                then ex\<lparr>python_tests := python_tests ex @ [(with_arguments path args, do_run)]\<rparr> else ex))
      | LTup [_, _] \<Rightarrow> Inl AttributeError
      | _ \<Rightarrow> Inl ValueError)"

fun add_each :: "('a \<Rightarrow> 'b \<Rightarrow> 'b result) \<Rightarrow> 'a list \<Rightarrow> 'b \<Rightarrow> 'b result" where
  "add_each f [] s = Inr s"
| "add_each f (x # xs) s = ebind (f x s) (add_each f xs)"

definition parse_examples_to_run_file ::
  "source_tree \<Rightarrow> waf_config \<Rightarrow> string \<times> string \<times> string \<Rightarrow> examples \<Rightarrow> examples result" where
  "parse_examples_to_run_file T C dirs ex =
     (case dirs of (run_path, cpp_dir, script_dir) \<Rightarrow>
      if texts T run_path = None then Inr ex
      else ebind (get_list_from_file (texts T) run_path ''cpp_examples'') (\<lambda>l. ebind (iter_lit l) (\<lambda>cpp.
           ebind (add_each (add_cpp_example T C cpp_dir) cpp ex) (\<lambda>ex.
           ebind (get_list_from_file (texts T) run_path ''python_examples'') (\<lambda>l. ebind (iter_lit l) (\<lambda>py.
           add_each (add_python_example T script_dir) py ex))))))"

text \<open>The directories of the examples: the general ones, then those of the modules, then of the contributed ones.\<close>

definition example_directory :: "waf_config \<Rightarrow> string \<Rightarrow> string \<times> string \<times> string" where
  "example_directory C d =
     (let e = join_path ''examples'' d
      in (join_path e ''examples-to-run.py'', join_path (NS3_BUILDDIR C) e, e))"

definition module_directory :: "waf_config \<Rightarrow> string \<Rightarrow> string \<Rightarrow> string \<times> string \<times> string" where
  "module_directory C base_dir modname =
     (let m = join_path base_dir (drop (length ''ns3-'') modname); e = join_path m ''examples''
      in (join_path (join_path m ''test'') ''examples-to-run.py'', join_path (NS3_BUILDDIR C) e, e))"

definition name_strs :: "names \<Rightarrow> string \<Rightarrow> string list result" where
  "name_strs N x =
     ebind (name_value N x) (\<lambda>v. ebind (iter_lit v) (\<lambda>vs.
     if list_all (\<lambda>v. is_ok (str_of v)) vs then Inr (map (\<lambda>v. projr (str_of v)) vs) else Inl TypeError))"

definition find_examples :: "source_tree \<Rightarrow> waf_config \<Rightarrow> examples result" where
  "find_examples T C =
     ebind (name_strs (globals C) ''EXAMPLE_DIRECTORIES'') (\<lambda>ds.
     ebind (add_each (parse_examples_to_run_file T C) (map (example_directory C) ds) no_examples) (\<lambda>ex.
     ebind (name_strs (globals C) ''NS3_ENABLED_MODULES'') (\<lambda>ms.
     ebind (add_each (parse_examples_to_run_file T C) (map (module_directory C ''src'') ms) ex) (\<lambda>ex.
     ebind (name_strs (globals C) ''NS3_ENABLED_CONTRIBUTED_MODULES'') (\<lambda>cs.
     add_each (parse_examples_to_run_file T C) (map (module_directory C ''contrib'') cs) ex)))))"


section \<open>What is printed is read back\<close>

text \<open>
  The format of the files \<open>examples-to-run.py\<close>: a line with the name of the list, a line for every tuple of
  strings, which may end in a comment, and a line with the bracket.
\<close>

definition print_str :: "string \<Rightarrow> string" where
  "print_str s = dquote # s @ [dquote]"

definition print_tuple :: "string list \<Rightarrow> string" where
  "print_tuple xs = ''('' @ join_with '', '' (map print_str xs) @ '')''"

definition comment_text :: "string option \<Rightarrow> string" where
  "comment_text c = (case c of None \<Rightarrow> '''' | Some t \<Rightarrow> '' # '' @ t)"

definition entry_line :: "string list \<times> string option \<Rightarrow> string" where
  "entry_line e = (case e of (xs, c) \<Rightarrow> ''    '' @ print_tuple xs @ '','' @ comment_text c @ [newline])"

definition print_list :: "string \<Rightarrow> (string list \<times> string option) list \<Rightarrow> string" where
  "print_list name es = name @ '' = ['' @ [newline] @ concat (map entry_line es) @ '']'' @ [newline]"

definition plain_char :: "char \<Rightarrow> bool" where
  "plain_char c \<longleftrightarrow> c \<notin> {CHR ''#'', CHR '']'', dquote, bslash, newline}"

definition plain_entry :: "string list \<times> string option \<Rightarrow> bool" where
  "plain_entry e =
     (case e of (xs, c) \<Rightarrow> 2 \<le> length xs \<and> list_all (list_all plain_char) xs \<and> newline \<notin> set (comment_text c))"

definition list_value :: "(string list \<times> string option) list \<Rightarrow> lit" where
  "list_value es = LList (map (\<lambda>(xs, _). LTup (map LStr xs)) es)"

text \<open>Lines\<close>

lemma file_lines_line: "newline \<notin> set l \<Longrightarrow> file_lines (l @ newline # s) = (l @ [newline]) # file_lines s"
  by (induction l) auto

lemma file_lines_block:
  assumes "\<forall>l \<in> set ls. newline \<notin> set l"
  shows "file_lines (concat (map (\<lambda>l. l @ [newline]) ls) @ s) = map (\<lambda>l. l @ [newline]) ls @ file_lines s"
  using assms by (induction ls) (simp_all add: file_lines_line)

lemma split_once_append: "c \<notin> set a \<Longrightarrow> split_once c (a @ c # b) = (a, Some b)"
  by (induction a) (auto simp: split_once_def)

lemma split_once_absent: "c \<notin> set a \<Longrightarrow> split_once c a = (a, None)"
  by (auto simp: split_once_def takeWhile_eq_all_conv)

lemma uncomment_simps:
  "CHR ''#'' \<notin> set a \<Longrightarrow> uncomment (a @ CHR ''#'' # b) = a"
  "CHR ''#'' \<notin> set a \<Longrightarrow> uncomment a = a"
  by (simp_all add: uncomment_def split_once_append split_once_absent)

lemma scan_list_skip:
  assumes "\<forall>l \<in> set ls. \<not> occurs name (uncomment l)"
  shows "scan_list name (ls @ ms) t False = scan_list name ms t False"
  using assms by (induction ls) (simp_all add: Let_def)

text \<open>Tokens\<close>

lemma tokens_white: "list_all is_white w \<Longrightarrow> tokens (w @ s) = tokens s"
  by (induction w) simp_all

lemma tokens_char:
  "tokens (CHR '','' # s) = put_token Comma (tokens s)"
  "tokens (CHR ''('' # s) = put_token (Open CHR ''('') (tokens s)"
  "tokens (CHR '')'' # s) = put_token (Close CHR '')'') (tokens s)"
  "tokens (CHR ''['' # s) = put_token (Open CHR ''['') (tokens s)"
  "tokens (CHR '']'' # s) = put_token (Close CHR '']'') (tokens s)"
  "tokens (CHR '' '' # s) = tokens s"
  "tokens (newline # s) = tokens s"
  by (simp_all add: is_white_def newline_def)

lemma tokens_print_str:
  assumes "list_all plain_char s"
  shows "tokens (print_str s @ r) = put_token (Lit (LStr s)) (tokens r)"
proof -
  from assms have s: "dquote \<notin> set s" "bslash \<notin> set s" "newline \<notin> set s"
    by (auto simp: plain_char_def list_all_iff)
  from s(1) have "takeWhile (\<lambda>x. x \<noteq> dquote) (s @ dquote # r) = s"
    and "dropWhile (\<lambda>x. x \<noteq> dquote) (s @ dquote # r) = dquote # r"
    by (induction s) auto
  moreover have "\<not> is_white dquote" "dquote \<noteq> CHR ''[''" "dquote \<noteq> CHR ''(''" "dquote \<noteq> CHR '']''"
    "dquote \<noteq> CHR '')''" "dquote \<noteq> CHR '',''"
    by (simp_all add: dquote_def is_white_def)
  ultimately show ?thesis using s by (simp add: print_str_def)
qed

declare tokens.simps(2) [simp del]

fun item_tokens :: "string list \<Rightarrow> token list" where
  "item_tokens [] = []"
| "item_tokens [x] = [Lit (LStr x)]"
| "item_tokens (x # y # xs) = Lit (LStr x) # Comma # item_tokens (y # xs)"

definition tuple_tokens :: "string list \<Rightarrow> token list" where
  "tuple_tokens xs = Open CHR ''('' # item_tokens xs @ [Close CHR '')'', Comma]"

definition put_tokens :: "token list \<Rightarrow> token list result \<Rightarrow> token list result" where
  "put_tokens us r = ebind r (\<lambda>ts. Inr (us @ ts))"

lemma put_tokens_simps [simp]:
  "put_tokens us (Inr ts) = Inr (us @ ts)"
  "put_token t (put_tokens us r) = put_tokens (t # us) r"
  "put_tokens us (put_token t r) = put_tokens (us @ [t]) r"
  "put_tokens us (put_tokens vs r) = put_tokens (us @ vs) r"
  by (cases r; simp add: put_tokens_def put_token_def)+

lemma put_token_as: "put_token t r = put_tokens [t] r"
  by (cases r) (simp_all add: put_tokens_def put_token_def)

lemma tokens_items:
  "list_all (list_all plain_char) xs \<Longrightarrow>
   tokens (join_with '', '' (map print_str xs) @ r) = put_tokens (item_tokens xs) (tokens r)"
proof (induction xs rule: item_tokens.induct)
  case 1
  show ?case by (cases "tokens r") (simp_all add: put_tokens_def)
next
  case (2 x)
  then show ?case by (simp add: tokens_print_str put_token_as)
next
  case (3 x y xs)
  then show ?case by (simp add: tokens_print_str tokens_char)
qed

lemma tokens_tuple:
  assumes "list_all (list_all plain_char) xs"
  shows "tokens (print_tuple xs @ CHR '','' # r) = put_tokens (tuple_tokens xs) (tokens r)"
  using assms by (simp add: print_tuple_def tokens_char tokens_items tuple_tokens_def)

lemma merge_items:
  "merge_strings (item_tokens xs @ Close c # ts) = item_tokens xs @ Close c # merge_strings ts"
  by (induction xs rule: item_tokens.induct) simp_all

lemma merge_tuple: "merge_strings (tuple_tokens xs @ ts) = tuple_tokens xs @ merge_strings ts"
  by (simp add: tuple_tokens_def merge_items)

lemma parse_items:
  "xs \<noteq> [] \<Longrightarrow> parse_lits (item_tokens xs @ ts) ((b, vs, True, k) # fs) =
     parse_lits ts ((b, vs @ map LStr xs, False, k \<or> 2 \<le> length xs) # fs)"
  by (induction xs arbitrary: vs k rule: item_tokens.induct) simp_all

lemma parse_tuple:
  assumes "2 \<le> length xs"
  shows "parse_lits (tuple_tokens xs @ ts) ((b, vs, True, k) # fs) =
     parse_lits ts ((b, vs @ [LTup (map LStr xs)], True, True) # fs)"
proof -
  have "xs \<noteq> []" using assms by auto
  with assms show ?thesis by (simp add: tuple_tokens_def parse_items tuple_of_def)
qed

text \<open>A line of the list without its comment, and the text collected from all lines\<close>

definition entry_text :: "string list \<times> string option \<Rightarrow> string" where
  "entry_text e = (case e of (xs, c) \<Rightarrow> ''    '' @ print_tuple xs @ '','' @ (if c = None then [newline] else '' ''))"

lemma print_tuple_chars:
  assumes "list_all (list_all plain_char) xs" and "c \<in> {CHR ''#'', CHR '']'', newline}"
  shows "c \<notin> set (print_tuple xs)"
proof -
  have "c \<notin> set (join_with '', '' (map print_str xs))"
    using assms
  proof (induction xs rule: item_tokens.induct)
    case (2 x)
    then show ?case by (auto simp: print_str_def plain_char_def list_all_iff dquote_def newline_def)
  next
    case (3 x y xs)
    then show ?case by (auto simp: print_str_def plain_char_def list_all_iff dquote_def newline_def)
  qed simp
  with assms(2) show ?thesis by (auto simp: print_tuple_def newline_def)
qed

lemma uncomment_entry:
  assumes "plain_entry e"
  shows "uncomment (entry_line e) = entry_text e" and "CHR '']'' \<notin> set (entry_text e)"
proof -
  obtain xs c where e: "e = (xs, c)" by (cases e)
  define a where "a = ''    '' @ print_tuple xs @ '',''"
  have xs: "list_all (list_all plain_char) xs" using assms by (simp add: e plain_entry_def)
  have a: "CHR ''#'' \<notin> set a" "CHR '']'' \<notin> set a"
    using print_tuple_chars [OF xs, of "CHR ''#''"] print_tuple_chars [OF xs, of "CHR '']''"] by (simp_all add: a_def)
  show "uncomment (entry_line e) = entry_text e"
  proof (cases c)
    case None
    have "uncomment (a @ [newline]) = a @ [newline]" using a by (intro uncomment_simps) (simp add: newline_def)
    then show ?thesis by (simp add: e None entry_line_def entry_text_def comment_text_def a_def)
  next
    case (Some t)
    have "uncomment ((a @ '' '') @ CHR ''#'' # '' '' @ t @ [newline]) = a @ '' ''"
      using a by (intro uncomment_simps) simp
    then show ?thesis by (simp add: e Some entry_line_def entry_text_def comment_text_def a_def)
  qed
  show "CHR '']'' \<notin> set (entry_text e)"
    using print_tuple_chars [OF xs, of "CHR '']''"] by (simp add: e entry_text_def newline_def)
qed

lemma scan_list_entries:
  assumes "list_all plain_entry es" and "CHR '']'' \<notin> set t"
  shows "scan_list name (map entry_line es @ ms) t True = scan_list name ms (t @ concat (map entry_text es)) True"
  using assms by (induction es arbitrary: t) (simp_all add: uncomment_entry Let_def)

lemma file_lines_entries:
  assumes "list_all plain_entry es"
  shows "file_lines (concat (map entry_line es) @ s) = map entry_line es @ file_lines s"
proof -
  have "\<exists>l. entry_line e = l @ [newline] \<and> newline \<notin> set l" if e: "plain_entry e" for e
  proof -
    obtain xs c where [simp]: "e = (xs, c)" by (cases e)
    have "list_all (list_all plain_char) xs" using e by (simp add: plain_entry_def)
    from print_tuple_chars [OF this, of newline] e show ?thesis
      by (intro exI [of _ "''    '' @ print_tuple xs @ '','' @ comment_text c"])
        (simp add: entry_line_def plain_entry_def newline_def)
  qed
  then have *: "file_lines (entry_line e @ r) = entry_line e # file_lines r" if "plain_entry e" for e r
    using that file_lines_line by (metis append.assoc append_Cons append_Nil)
  from assms show ?thesis by (induction es) (simp_all add: *)
qed

lemma tokens_entries:
  assumes "list_all plain_entry es"
  shows "tokens (concat (map entry_text es) @ s) = put_tokens (concat (map (\<lambda>e. tuple_tokens (fst e)) es)) (tokens s)"
  using assms
proof (induction es)
  case Nil
  show ?case by (cases "tokens s") (simp_all add: put_tokens_def)
next
  case (Cons e es)
  obtain xs c where [simp]: "e = (xs, c)" by (cases e)
  have xs: "list_all (list_all plain_char) xs" using Cons.prems by (simp add: plain_entry_def)
  show ?case using Cons by (simp add: entry_text_def tokens_char tokens_tuple [OF xs])
qed

lemma parse_entries:
  assumes "list_all plain_entry es"
  shows "parse_lits (concat (map (\<lambda>e. tuple_tokens (fst e)) es) @ ts) ((b, vs, True, k) # fs) =
    parse_lits ts ((b, vs @ map (\<lambda>(xs, _). LTup (map LStr xs)) es, True, k \<or> es \<noteq> []) # fs)"
  using assms
proof (induction es arbitrary: vs k)
  case (Cons e es)
  obtain xs c where [simp]: "e = (xs, c)" by (cases e)
  have "2 \<le> length xs" using Cons.prems by (simp add: plain_entry_def)
  then show ?case using Cons by (simp add: parse_tuple)
qed simp

lemma merge_entries:
  "merge_strings (concat (map (\<lambda>e. tuple_tokens (fst e)) es) @ ts) = concat (map (\<lambda>e. tuple_tokens (fst e)) es) @ merge_strings ts"
  by (induction es) (simp_all add: merge_tuple)

lemma eval_entries:
  assumes "list_all plain_entry es"
  shows "eval_literal (''['' @ [newline] @ concat (map entry_text es) @ '']'') = Inr (list_value es)"
  by (simp add: eval_literal_def tokens_char tokens_entries [OF assms] merge_entries parse_entries [OF assms]
      list_value_def tuple_of_def)

lemma strip_value:
  "py_strip ('' ['' @ s @ '']'' @ [newline]) = ''['' @ s @ '']''"
  by (simp add: py_strip_def is_white_def newline_def)

lemma name_chars: "list_all name_char name \<Longrightarrow> c \<notin> set name" if "\<not> name_char c"
  using that by (auto simp: list_all_iff)

lemma scan_printed_list:
  assumes "list_all name_char name" and "list_all plain_entry es"
  shows "scan_list name (file_lines (print_list name es @ post)) '''' False = Inr (list_value es)"
proof -
  define h where "h = name @ '' = [''"
  have "\<not> name_char CHR ''#''" "\<not> name_char CHR '']''" "\<not> name_char CHR ''=''" "\<not> name_char newline"
    by (simp_all add: name_char_def newline_def)
  then have n: "CHR ''#'' \<notin> set name" "CHR '']'' \<notin> set name" "CHR ''='' \<notin> set name" "newline \<notin> set name"
    using name_chars [OF _ assms(1)] by blast+
  have h: "newline \<notin> set h" "CHR ''#'' \<notin> set (h @ [newline])" "CHR '']'' \<notin> set (h @ [newline])"
    using n by (simp_all add: h_def newline_def)
  have "file_lines (print_list name es @ post) =
      (h @ [newline]) # map entry_line es @ ('']'' @ [newline]) # file_lines post"
    using file_lines_line [OF h(1)] file_lines_line [of "'']''" post]
    by (simp add: print_list_def h_def file_lines_entries [OF assms(2)] newline_def)
  moreover have "occurs name (h @ [newline])" using occursI [of name "''''"] by (simp add: h_def)
  moreover have "uncomment (h @ [newline]) = h @ [newline]" "uncomment ('']'' @ [newline]) = '']'' @ [newline]"
    using h by (intro uncomment_simps; simp add: newline_def)+
  ultimately have "scan_list name (file_lines (print_list name es @ post)) '''' False =
      ebind (after_equals (h @ [newline] @ concat (map entry_text es) @ '']'' @ [newline])) eval_literal"
    using h(3) by (simp add: Let_def scan_list_entries [OF assms(2)])
  also have "after_equals (h @ [newline] @ concat (map entry_text es) @ '']'' @ [newline]) =
      Inr (''['' @ [newline] @ concat (map entry_text es) @ '']'')"
    using split_once_append [of "CHR ''=''" "name @ '' ''"] n(3)
      strip_value [of "[newline] @ concat (map entry_text es)"]
    by (simp add: after_equals_def h_def)
  finally show ?thesis using eval_entries [OF assms(2)] by simp
qed

text \<open>
  A list written in the format of the configuration files is read back: whatever lines without the name come
  before it, with comments at the end of its lines, and whatever follows.
\<close>

theorem config_list_roundtrip:
  assumes "F path = Some (concat (map (\<lambda>l. l @ [newline]) pre) @ print_list name es @ post)"
    and "list_all (\<lambda>l. newline \<notin> set l \<and> \<not> occurs name (uncomment (l @ [newline]))) pre"
    and "list_all name_char name" and "list_all plain_entry es"
  shows "get_list_from_file F path name = Inr (list_value es)"
proof -
  have "\<forall>l \<in> set pre. newline \<notin> set l" using assms(2) by (simp add: list_all_iff)
  note lines = file_lines_block [OF this]
  have "\<forall>l \<in> set (map (\<lambda>l. l @ [newline]) pre). \<not> occurs name (uncomment l)"
    using assms(2) by (simp add: list_all_iff)
  note skip = scan_list_skip [OF this]
  from assms(1) show ?thesis
    by (simp add: get_list_from_file_def lines skip scan_printed_list [OF assms(3,4)])
qed

definition demo_config :: files where
  "demo_config =
     [''f'' \<mapsto> ''# cpp_examples: see below'' @ [newline] @
        print_list ''cpp_examples'' [([''udp --n=1'', ''True'', ''NSC_ENABLED == True''], Some ''slow [#1]''), ([''tcp'', ''False'', ''True''], None)] @
        ''python_examples = []'' @ [newline]]"

theorem config_list_roundtrip_witness:
  "get_list_from_file demo_config ''f'' ''cpp_examples'' =
     Inr (LList [LTup [LStr ''udp --n=1'', LStr ''True'', LStr ''NSC_ENABLED == True''], LTup [LStr ''tcp'', LStr ''False'', LStr ''True'']])"
proof -
  define es where "es = [([''udp --n=1'', ''True'', ''NSC_ENABLED == True''], Some ''slow [#1]''), ([''tcp'', ''False'', ''True''], None)]"
  have "get_list_from_file demo_config ''f'' ''cpp_examples'' = Inr (list_value es)"
  proof (rule config_list_roundtrip)
    show "demo_config ''f'' = Some (concat (map (\<lambda>l. l @ [newline]) [''# cpp_examples: see below'']) @
        print_list ''cpp_examples'' es @ ''python_examples = []'' @ [newline])"
      by (simp add: demo_config_def es_def)
  qed (simp_all add: es_def plain_entry_def plain_char_def comment_text_def uncomment_def split_once_def name_char_def
      newline_def dquote_def bslash_def)
  then show ?thesis by (simp add: es_def list_value_def)
qed

text \<open>
  A comment may hold anything, but a number sign inside a string ends the line there, and a closing bracket inside a
  string ends the list with its line.
\<close>

lemma number_sign_in_string:
  "get_list_from_file [''f'' \<mapsto> ''x = ['' @ print_str ''a#b'' @ '']''] ''f'' ''x'' = Inr (LList [])"
  "get_list_from_file [''f'' \<mapsto> ''x = ['' @ [newline] @ print_str ''a[1]'' @ '','' @ [newline] @ '']''] ''f'' ''x'' = Inl SyntaxError"
  by (simp_all add: get_list_from_file_def print_str_def dquote_def newline_def uncomment_def split_once_def
      after_equals_def py_strip_def is_white_def eval_literal_def tokens.simps squote_def bslash_def)

text \<open>A file that is missing makes \<open>get_bool_from_file\<close> raise instead of returning the default.\<close>

lemma missing_file_raises: "F p = None \<Longrightarrow> get_bool_from_file F p name v = Inl (NameError ''bool_found'')"
  by (simp add: get_bool_from_file_def)

lemma read_config_defaults:
  "F ''.ns3rc'' = None \<Longrightarrow> F (home @ ''/.ns3rc'') = None \<Longrightarrow>
   read_config_file F home = Inr (False, LList [LStr ''all_modules''], LBool False, LBool False)"
  by (simp add: read_config_file_def)

end
