(* ===== verification/TestPlan.thy ===== *)
theory TestPlan
  imports Ns3Config Ns3Util PyFloat "HOL-Library.AList" "HOL-Library.List_Lexorder" "HOL-Library.Char_ord"
begin

text \<open>
  \<open>test.py\<close>, the driver of the simulator's tests: how a program is run, the class \<open>Job\<close>, and which jobs the options
  select. The operating system, the build tool and what the programs answer are the fields of \<open>outside\<close>.
\<close>

section \<open>Running a program\<close>

text \<open>
  What a program leaves behind: its status, its two outputs, which may be no text, and the time it took. It may
  also not start at all.
\<close>

datatype stream_text = Decoded string | Undecodable string

datatype proc = Exited int stream_text stream_text double | Not_Started

text \<open>What \<open>run_tests\<close> reads of the options.\<close>

record test_options =
  opt_buildpath :: string
  opt_constrain :: string
  opt_duration :: bool
  opt_example :: string
  opt_update_data :: bool
  opt_fullness :: string
  opt_valgrind :: bool
  opt_kinds :: bool
  opt_list :: bool
  opt_multiple :: bool
  opt_nowaf :: bool
  opt_pyexample :: string
  opt_retain :: bool
  opt_suite :: string
  opt_process_limit :: int

definition default_options :: test_options where
  "default_options =
     \<lparr>opt_buildpath = '''', opt_constrain = '''', opt_duration = False, opt_example = '''', opt_update_data = False,
      opt_fullness = ''QUICK'', opt_valgrind = False, opt_kinds = False, opt_list = False, opt_multiple = False,
      opt_nowaf = False, opt_pyexample = '''', opt_retain = False, opt_suite = '''', opt_process_limit = 0\<rparr>"

definition python_command :: "names \<Rightarrow> string result" where
  "python_command N =
     ebind (name_value N ''PYTHON'') (\<lambda>v. ebind (iter_lit v) (\<lambda>vs.
     case vs of [] \<Rightarrow> Inl IndexError | v # _ \<Rightarrow> str_of v))"

text \<open>The command line of \<open>run_job_synchronously\<close>, and what it returns.\<close>

definition job_command :: "waf_config \<Rightarrow> string \<Rightarrow> bool \<Rightarrow> bool \<Rightarrow> string \<Rightarrow> string result" where
  "job_command C shell_command valgrind is_python build_path =
     ebind (if is_python
            then ebind (python_command (globals C)) (\<lambda>p. Inr (p @ '' '' @ join_path (NS3_BASEDIR C) shell_command))
            else if build_path \<noteq> '''' then Inr (join_path build_path shell_command)
            else Inr (join_path (NS3_BUILDDIR C) shell_command))
       (\<lambda>path_cmd.
          Inr (if valgrind
               then ''valgrind --suppressions='' @ join_path (NS3_BASEDIR C) ''testpy.supp'' @
                    '' --leak-check=full --show-reachable=yes --error-exitcode=2 --errors-for-leak-kinds=all '' @ path_cmd
               else path_cmd))"

definition job_outcome :: "proc \<Rightarrow> (int \<times> stream_text \<times> stream_text \<times> double) result" where
  "job_outcome p =
     (case p of
        Exited status stdout stderr elapsed \<Rightarrow>
          (let retval = (case stdout of Decoded _ \<Rightarrow> status | Undecodable _ \<Rightarrow> 1);
               retval = (case stderr of Decoded _ \<Rightarrow> retval | Undecodable _ \<Rightarrow> 1)
           in Inr (retval, stdout, stderr, elapsed))
      | Not_Started \<Rightarrow> Inl OSError)"

text \<open>A text that could not be decoded is decoded again by the callers that need it, and raises there.\<close>

definition decoded :: "stream_text \<Rightarrow> string result" where
  "decoded t = (case t of Decoded s \<Rightarrow> Inr s | Undecodable _ \<Rightarrow> Inl ValueError)"

section \<open>Jobs\<close>

record job =
  is_break :: bool
  is_skip :: bool
  skip_reason :: string
  is_example :: bool
  is_pyexample :: bool
  shell_command :: string
  display_name :: string
  basedir :: string
  tempdir :: string
  job_cwd :: string
  tmp_file_name :: string
  returncode :: int
  elapsed_time :: double
  build_path :: string

definition Job :: job where
  "Job =
     \<lparr>is_break = False, is_skip = False, skip_reason = '''', is_example = False, is_pyexample = False,
      shell_command = '''', display_name = '''', basedir = '''', tempdir = '''', job_cwd = '''',
      tmp_file_name = '''', returncode = 0, elapsed_time = 0, build_path = ''''\<rparr>"

definition skip_job :: "string \<Rightarrow> job \<Rightarrow> job" where
  "skip_job reason j = j\<lparr>is_skip := True, skip_reason := reason\<rparr>"

definition skip_if :: "bool \<Rightarrow> string \<Rightarrow> job \<Rightarrow> job" where
  "skip_if b reason j = (if b then skip_job reason j else j)"

section \<open>What to run\<close>

definition core_kinds :: "string list" where
  "core_kinds = [''core'', ''performance'', ''system'', ''unit'']"

definition core_valgrind_skip_tests :: "string list" where
  "core_valgrind_skip_tests =
     [''ns3-tcp-cwnd'', ''nsc-tcp-loss'', ''ns3-tcp-interoperability'', ''routing-click'', ''lte-rr-ff-mac-scheduler'',
      ''lte-tdmt-ff-mac-scheduler'', ''lte-fdmt-ff-mac-scheduler'', ''lte-pf-ff-mac-scheduler'',
      ''lte-tta-ff-mac-scheduler'', ''lte-fdbet-ff-mac-scheduler'', ''lte-ttbet-ff-mac-scheduler'',
      ''lte-fdtbfq-ff-mac-scheduler'', ''lte-tdtbfq-ff-mac-scheduler'', ''lte-pss-ff-mac-scheduler'']"

definition core_nsc_missing_skip_tests :: "string list" where
  "core_nsc_missing_skip_tests = [''ns3-tcp-cwnd'', ''nsc-tcp-loss'', ''ns3-tcp-interoperability'']"

record outside =
  tree :: source_tree
  platform :: string
  environment :: "string \<rightharpoonup> string"
  run_waf :: "string \<Rightarrow> int"
  ask :: "string \<Rightarrow> string \<Rightarrow> proc"
  online_processors :: int

definition waf_command :: "test_options \<Rightarrow> string" where
  "waf_command opts =
     (if opt_kinds opts \<or> opt_list opts \<or> (opt_constrain opts \<noteq> '''' \<and> opt_constrain opts \<in> set core_kinds)
      then ''./waf --target=test-runner''
      else if opt_example opts \<noteq> '''' then ''./waf --target='' @ basename (opt_example opts)
      else ''./waf'')"

definition profile_suffix :: "waf_config \<Rightarrow> waf_config result" where
  "profile_suffix C =
     ebind (name_str (globals C) ''BUILD_PROFILE'') (\<lambda>p.
     Inr (C\<lparr>globals := (globals C)(''BUILD_PROFILE_SUFFIX'' \<mapsto> LStr (if p = ''release'' then '''' else ''-'' @ p))\<rparr>))"

text \<open>The answer of the test runner to a question; its status is not looked at.\<close>

definition ask_runner :: "outside \<Rightarrow> waf_config \<Rightarrow> string \<Rightarrow> string result" where
  "ask_runner W C question =
     ebind (program_name (globals C) ''test-runner'') (\<lambda>r.
     ebind (job_command C (join_path ''utils'' (r @ question)) False False '''') (\<lambda>cmd.
     ebind (job_outcome (ask W cmd (here (tree W)))) (\<lambda>(_, stdout, _, _). decoded stdout)))"

definition ask_kinds :: "outside \<Rightarrow> waf_config \<Rightarrow> unit result" where
  "ask_kinds W C =
     ebind (program_name (globals C) ''test-runner'') (\<lambda>r.
     ebind (job_command C (join_path ''utils'' (r @ '' --print-test-type-list'')) False False '''') (\<lambda>cmd.
     ebind (job_outcome (ask W cmd (here (tree W)))) (\<lambda>_. Inr ())))"

definition remove_all :: "'a list \<Rightarrow> 'a list \<Rightarrow> 'a list" where
  "remove_all ps xs = fold remove1 ps xs"

definition suite_list :: "outside \<Rightarrow> waf_config \<Rightarrow> test_options \<Rightarrow> string list result" where
  "suite_list W C opts =
     ebind
       (if opt_suite opts \<noteq> '''' then
          ebind (ask_runner W C '' --print-test-name-list'') (\<lambda>suites.
          let found = fnmatch_filter (split_on newline suites) (opt_suite opts)
          in if found = [] then Inl SystemExit else Inr (length found = 1, join_with [newline] found))
        else if opt_example opts = '''' \<and> opt_pyexample opts = '''' then
          ebind (ask_runner W C ('' --print-test-name-list'' @
                   (if opt_constrain opts \<noteq> '''' then '' --test-type='' @ opt_constrain opts else '''')))
            (\<lambda>suites. Inr (False, suites))
        else Inr (False, ''''))
       (\<lambda>(single_suite, suites).
          let l = split_on newline suites in
          if \<not> single_suite \<and> opt_constrain opts \<noteq> ''performance'' then
            ebind (ask_runner W C '' --print-test-name-list --test-type=performance'') (\<lambda>perf.
            Inr (remove_all (split_on newline perf) l))
          else Inr l)"

definition to_upper :: "string \<Rightarrow> string" where
  "to_upper s = map (\<lambda>c. if of_char c \<in> ({97..122} :: nat set) then char_of (of_char c - (32 :: nat)) else c) s"

definition suite_job :: "outside \<Rightarrow> waf_config \<Rightarrow> test_options \<Rightarrow> string \<Rightarrow> string \<Rightarrow> job result" where
  "suite_job W C opts out_dir test =
     ebind (program_name (globals C) ''test-runner'') (\<lambda>runner.
     ebind (name_value (globals C) ''NSC_ENABLED'') (\<lambda>nsc.
     let multiple = (if opt_multiple opts then '''' else '' --stop-on-failure'');
         fullness = (if opt_fullness opts \<noteq> '''' then '' --fullness='' @ to_upper (opt_fullness opts)
                     else '' --fullness=QUICK'')
     in Inr (skip_if (\<not> truth nsc \<and> test \<in> set core_nsc_missing_skip_tests) ''requires NSC''
              (skip_if (opt_valgrind opts \<and> test \<in> set core_valgrind_skip_tests) ''crashes valgrind''
                (Job\<lparr>display_name := test, tmp_file_name := join_path out_dir (test @ ''.xml''),
                     job_cwd := here (tree W), basedir := here (tree W), tempdir := out_dir,
                     shell_command := join_path ''utils'' (runner @ '' --test-name='' @ test @ multiple @ fullness)\<rparr>)))))"

fun map_results :: "('a \<Rightarrow> 'b list result) \<Rightarrow> 'a list \<Rightarrow> 'b list result" where
  "map_results f [] = Inr []"
| "map_results f (x # xs) = ebind (f x) (\<lambda>ys. ebind (map_results f xs) (\<lambda>zs. Inr (ys @ zs)))"

definition suite_jobs :: "outside \<Rightarrow> waf_config \<Rightarrow> test_options \<Rightarrow> string \<Rightarrow> string list \<Rightarrow> job list result" where
  "suite_jobs W C opts out_dir =
     map_results (\<lambda>test. let test = py_strip test in
       if test \<noteq> '''' then ebind (suite_job W C opts out_dir test) (\<lambda>j. Inr [j]) else Inr [])"

text \<open>The dictionary of the programs that were built, by their names without directories.\<close>

definition programs_dictionary :: "string list \<Rightarrow> (string \<times> string) list" where
  "programs_dictionary ps = fold (\<lambda>p d. AList.update (basename p) p d) ps []"

definition file_part :: "string \<Rightarrow> string" where
  "file_part test = basename (fst (split_once CHR '' '' test))"

definition example_job :: "outside \<Rightarrow> test_options \<Rightarrow> string \<Rightarrow> string \<Rightarrow> string \<Rightarrow> job" where
  "example_job W opts out_dir name command =
     Job\<lparr>is_example := True, display_name := name, job_cwd := out_dir, basedir := here (tree W),
         tempdir := out_dir, shell_command := command, build_path := opt_buildpath opts\<rparr>"

definition example_jobs ::
  "outside \<Rightarrow> waf_config \<Rightarrow> test_options \<Rightarrow> string \<Rightarrow> (string \<times> string) list \<Rightarrow>
   (string \<times> string \<times> lit \<times> lit) list \<Rightarrow> job list result" where
  "example_jobs W C opts out_dir programs =
     map_results (\<lambda>(name, test, do_run, do_valgrind_run).
       if map_of programs (file_part test) \<noteq> None then
         ebind (eval_condition (globals C) do_run) (\<lambda>run.
         if run then
           ebind (if opt_valgrind opts then eval_condition (globals C) do_valgrind_run else Inr True) (\<lambda>grind.
           Inr [skip_if (\<not> grind) ''skip in valgrind runs'' (example_job W opts out_dir name test)])
         else Inr [])
       else Inr [])"

definition named_example_jobs ::
  "outside \<Rightarrow> waf_config \<Rightarrow> test_options \<Rightarrow> string \<Rightarrow> (string \<times> string) list \<Rightarrow> job list result" where
  "named_example_jobs W C opts out_dir programs =
     ebind (program_name (globals C) (opt_example opts)) (\<lambda>example_name.
     Inr (map (\<lambda>k. let path = abspath (here (tree W)) (the (map_of programs k)) in example_job W opts out_dir path path)
           (fnmatch_filter (map fst programs) example_name)))"

definition python_job :: "outside \<Rightarrow> string \<Rightarrow> string \<Rightarrow> job" where
  "python_job W out_dir test =
     Job\<lparr>is_pyexample := True, display_name := test, job_cwd := out_dir, basedir := here (tree W),
         tempdir := out_dir, shell_command := test\<rparr>"

definition python_jobs ::
  "outside \<Rightarrow> waf_config \<Rightarrow> test_options \<Rightarrow> string \<Rightarrow> string list \<Rightarrow> (string \<times> lit) list \<Rightarrow> job list result" where
  "python_jobs W C opts out_dir scripts =
     map_results (\<lambda>(test, do_run).
       if file_part test \<in> set scripts then
         ebind (eval_condition (globals C) do_run) (\<lambda>run.
         if run then
           ebind (name_value (globals C) ''ENABLE_PYTHON_BINDINGS'') (\<lambda>b.
           Inr [skip_if (\<not> truth b) ''requires Python bindings''
                  (skip_if (opt_valgrind opts) ''skip in valgrind runs'' (python_job W out_dir test))])
         else Inr [])
       else Inr [])"

definition named_python_jobs :: "outside \<Rightarrow> test_options \<Rightarrow> string \<Rightarrow> string list \<Rightarrow> job list" where
  "named_python_jobs W opts out_dir scripts =
     (if basename (opt_pyexample opts) \<in> set scripts then [python_job W out_dir (opt_pyexample opts)] else [])"

definition unconstrained :: "test_options \<Rightarrow> string \<Rightarrow> bool" where
  "unconstrained opts kind \<longleftrightarrow> opt_constrain opts = '''' \<or> opt_constrain opts = kind"

definition nothing_named :: "test_options \<Rightarrow> bool" where
  "nothing_named opts \<longleftrightarrow> opt_suite opts = '''' \<and> opt_example opts = '''' \<and> opt_pyexample opts = ''''"

definition dispatch ::
  "outside \<Rightarrow> waf_config \<Rightarrow> test_options \<Rightarrow> string \<Rightarrow> string list \<Rightarrow> string list \<Rightarrow> examples \<Rightarrow> string list \<Rightarrow> job list result" where
  "dispatch W C opts out_dir programs scripts ex suites =
     (let dict = programs_dictionary programs in
      ebind (suite_jobs W C opts out_dir suites) (\<lambda>js.
      ebind (name_value (globals C) ''ENABLE_EXAMPLES'') (\<lambda>en.
      ebind (if nothing_named opts
             then (if unconstrained opts ''example'' \<and> truth en
                   then example_jobs W C opts out_dir dict (example_tests ex) else Inr [])
             else if opt_example opts \<noteq> '''' then named_example_jobs W C opts out_dir dict
             else Inr []) (\<lambda>es.
      ebind (if nothing_named opts
             then (if unconstrained opts ''pyexample'' \<and> truth en
                   then python_jobs W C opts out_dir scripts (python_tests ex) else Inr [])
             else if opt_pyexample opts \<noteq> '''' then Inr (named_python_jobs W opts out_dir scripts)
             else Inr []) (\<lambda>ps.
      Inr (js @ es @ ps))))))"

section \<open>Everything before the first job\<close>

text \<open>
  \<open>make_paths\<close>: the variables of the environment the programs are started with.
\<close>

definition path_variable :: "string \<Rightarrow> string \<times> string" where
  "path_variable plat =
     (if plat = ''darwin'' then (''DYLD_LIBRARY_PATH'', '':'') else if plat = ''win32'' then (''PATH'', '';'')
      else if plat = ''cygwin'' then (''PATH'', '':'') else (''LD_LIBRARY_PATH'', '':''))"

definition make_paths :: "waf_config \<Rightarrow> string \<Rightarrow> (string \<rightharpoonup> string) \<Rightarrow> (string \<rightharpoonup> string) result" where
  "make_paths C plat environ =
     (let pypath = join_path (join_path (NS3_BUILDDIR C) ''bindings'') ''python'';
          have_PYTHONPATH = (environ ''PYTHONPATH'' \<noteq> None);
          environ = environ(''PYTHONPATH'' \<mapsto> pypath);
          environ = (if have_PYTHONPATH then environ(''PYTHONPATH'' \<mapsto> the (environ ''PYTHONPATH'') @ '':'' @ pypath)
                     else environ(''PYTHONPATH'' \<mapsto> pypath));
          (var, sep) = path_variable plat;
          environ = (if environ var = None then environ(var \<mapsto> '''') else environ)
      in ebind (name_strs (globals C) ''NS3_MODULE_PATH'') (\<lambda>paths.
         Inr (environ(var \<mapsto> the (environ var) @ concat (map (\<lambda>p. sep @ p) paths)))))"

definition build_lists :: "outside \<Rightarrow> waf_config \<Rightarrow> (string list \<times> string list) result" where
  "build_lists W C =
     (let f = join_path (NS3_BUILDDIR C) ''build-status.py'' in
      if texts (tree W) f = None then Inl SystemExit
      else ebind (get_list_from_file (texts (tree W)) f ''ns3_runnable_programs'') (\<lambda>p.
           ebind (get_list_from_file (texts (tree W)) f ''ns3_runnable_scripts'') (\<lambda>s.
           ebind (iter_lit p) (\<lambda>ps. ebind (iter_lit s) (\<lambda>ss.
           if list_all (\<lambda>v. is_ok (str_of v)) (ps @ ss)
           then Inr (map (\<lambda>v. projr (str_of v)) ps, map (\<lambda>v. projr (str_of v)) ss) else Inl TypeError)))))"

text \<open>The lines that the option \<open>--list\<close> prints below its heading.\<close>

definition listing :: "string \<Rightarrow> string list \<Rightarrow> string list" where
  "listing stdout names =
     filter (\<lambda>i. py_strip i \<noteq> '''') (sort (split_on newline stdout)) @ map (\<lambda>n. ''example      '' @ n) (sort names)"

datatype plan = Return "int option" | Jobs "job list"

definition list_question :: "test_options \<Rightarrow> string" where
  "list_question opts =
     '' --print-test-name-list --print-test-types'' @
     (if opt_constrain opts \<noteq> '''' then '' --test-type='' @ opt_constrain opts else '''')"

definition run_list :: "outside \<Rightarrow> waf_config \<Rightarrow> test_options \<Rightarrow> examples \<Rightarrow> string list result" where
  "run_list W C opts ex =
     ebind (program_name (globals C) ''test-runner'') (\<lambda>r.
     ebind (job_command C (join_path ''utils'' (r @ list_question opts)) False False '''') (\<lambda>cmd.
     ebind (job_outcome (ask W cmd (here (tree W)))) (\<lambda>(rc, stdout, _, _).
     if rc \<noteq> 0 then Inr [] else ebind (decoded stdout) (\<lambda>s. Inr (listing s (example_names_original ex))))))"

definition plan_tests :: "outside \<Rightarrow> test_options \<Rightarrow> string \<Rightarrow> plan result" where
  "plan_tests W opts out_dir =
     ebind (read_waf_config (texts (tree W)) (platform W)) (\<lambda>C. ebind (profile_suffix C) (\<lambda>C.
     let status = (if opt_nowaf opts then 0 else run_waf W (waf_command opts)) in
     if status \<noteq> 0 then Inr (Return (Some status))
     else
       ebind (make_paths C (platform W) (environment W)) (\<lambda>_.
       ebind (build_lists W C) (\<lambda>(programs, scripts).
       ebind (find_examples (tree W) C) (\<lambda>ex.
       ebind (if opt_kinds opts then ask_kinds W C else Inr ()) (\<lambda>_.
       ebind (if opt_list opts then run_list W C opts ex else Inr []) (\<lambda>_.
       if opt_kinds opts \<or> opt_list opts then Inr (Return None)
       else
         ebind (suite_list W C opts) (\<lambda>suites.
         ebind (dispatch W C opts out_dir programs scripts ex suites) (\<lambda>js. Inr (Jobs js))))))))))"

text \<open>
  The number of worker threads. The limit of the option \<open>--jobs\<close> is taken as it is, so that a negative one gives no
  worker at all.
\<close>

definition worker_count :: "outside \<Rightarrow> test_options \<Rightarrow> nat" where
  "worker_count W opts =
     nat (if opt_process_limit opts \<noteq> 0 then
            (if online_processors W < opt_process_limit opts then online_processors W else opt_process_limit opts)
          else online_processors W)"

section \<open>The jobs of a run\<close>

lemma Job_simps [simp]: "\<not> is_break Job" "\<not> is_skip Job" "\<not> is_example Job" "\<not> is_pyexample Job"
  by (simp_all add: Job_def)

lemma skip_if_simps [simp]:
  "is_break (skip_if b r j) = is_break j" "is_skip (skip_if b r j) \<longleftrightarrow> b \<or> is_skip j"
  "display_name (skip_if b r j) = display_name j"
  by (simp_all add: skip_if_def skip_job_def)

lemma map_results_all:
  assumes "map_results f xs = Inr ys" and "\<And>x zs. x \<in> set xs \<Longrightarrow> f x = Inr zs \<Longrightarrow> list_all P zs"
  shows "list_all P ys"
  using assms
proof (induction xs arbitrary: ys)
  case (Cons x xs)
  from Cons.prems(1) obtain as bs where "f x = Inr as" "map_results f xs = Inr bs" "ys = as @ bs"
    by (auto simp: ebind_Inr_iff)
  moreover have "list_all P bs" by (rule Cons.IH) (use \<open>map_results f xs = Inr bs\<close> Cons.prems(2) in auto)
  ultimately show ?case using Cons.prems(2) [of x as] by simp
qed simp

lemma suite_job_named:
  "suite_job W C opts d test = Inr j \<Longrightarrow> \<not> is_break j \<and> display_name j = test"
  by (auto simp: suite_job_def ebind_Inr_iff Let_def)

text \<open>No job that is planned is a break marker, whatever the options.\<close>

lemma suite_jobs_no_breaks: "suite_jobs W C opts d suites = Inr js \<Longrightarrow> list_all (\<lambda>j. \<not> is_break j) js"
  unfolding suite_jobs_def
  by (erule map_results_all) (auto simp: ebind_Inr_iff Let_def dest: suite_job_named split: if_splits)

lemma example_jobs_no_breaks: "example_jobs W C opts d ps es = Inr js \<Longrightarrow> list_all (\<lambda>j. \<not> is_break j) js"
  unfolding example_jobs_def
  by (erule map_results_all) (auto simp: ebind_Inr_iff example_job_def split: if_splits)

lemma python_jobs_no_breaks: "python_jobs W C opts d ps es = Inr js \<Longrightarrow> list_all (\<lambda>j. \<not> is_break j) js"
  unfolding python_jobs_def
  by (erule map_results_all) (auto simp: ebind_Inr_iff python_job_def split: if_splits)

lemma dispatch_no_breaks:
  assumes "dispatch W C opts d programs scripts ex suites = Inr js"
  shows "list_all (\<lambda>j. \<not> is_break j) js"
proof -
  have named: "named_example_jobs W C opts d ps = Inr es \<Longrightarrow> list_all (\<lambda>j. \<not> is_break j) es" for ps es
    by (auto simp: named_example_jobs_def ebind_Inr_iff example_job_def list_all_iff Let_def)
  have "list_all (\<lambda>j. \<not> is_break j) (named_python_jobs W opts d scripts)"
    by (simp add: named_python_jobs_def python_job_def)
  with assms show ?thesis
    by (auto simp: dispatch_def ebind_Inr_iff Let_def dest: suite_jobs_no_breaks example_jobs_no_breaks
        python_jobs_no_breaks named split: if_splits)
qed

lemma plan_no_breaks: "plan_tests W opts d = Inr (Jobs js) \<Longrightarrow> list_all (\<lambda>j. \<not> is_break j) js"
  by (auto simp: plan_tests_def ebind_Inr_iff Let_def dest: dispatch_no_breaks split: if_splits)

section \<open>Which suites are run\<close>

definition unlines :: "string list \<Rightarrow> string" where
  "unlines ls = concat (map (\<lambda>l. l @ [newline]) ls)"

definition suite_name :: "string \<Rightarrow> bool" where
  "suite_name s \<longleftrightarrow> s \<noteq> '''' \<and> list_all (\<lambda>c. \<not> is_white c) s"

lemma split_on_line: "c \<notin> set l \<Longrightarrow> split_on c (l @ c # s) = l # split_on c s"
  by (induction l) auto

lemma suite_name_newline: "suite_name s \<Longrightarrow> newline \<notin> set s"
  by (auto simp: suite_name_def list_all_iff is_white_def newline_def)

lemma split_unlines: "list_all suite_name ls \<Longrightarrow> split_on newline (unlines ls) = ls @ ['''']"
proof (induction ls)
  case (Cons l ls)
  then show ?case using split_on_line [OF suite_name_newline, of l "unlines ls"] by (simp add: unlines_def)
qed (simp add: unlines_def)

lemma strip_suite_name: "suite_name s \<Longrightarrow> py_strip s = s"
proof -
  assume s: "suite_name s"
  then have "dropWhile is_white s = s" by (cases s) (auto simp: suite_name_def)
  moreover from s have "dropWhile is_white (rev s) = rev s"
    by (cases "rev s") (auto simp: suite_name_def list_all_iff dest: arg_cong [where f = set])
  ultimately show ?thesis by (simp add: py_strip_def)
qed

lemma remove_all_distinct: "distinct xs \<Longrightarrow> remove_all ps xs = filter (\<lambda>x. x \<notin> set ps) xs"
  unfolding remove_all_def
proof (induction ps arbitrary: xs)
  case (Cons p ps)
  then have "distinct (remove1 p xs)" by simp
  from Cons.IH [OF this] Cons.prems show ?case
    by (simp add: distinct_remove1_removeAll removeAll_filter_not_eq filter_filter conj_commute eq_commute)
qed simp

lemma suite_jobs_names:
  assumes "list_all suite_name ls" and "\<And>l. \<exists>j. suite_job W C opts d l = Inr j"
  shows "\<exists>js. suite_jobs W C opts d ls = Inr js \<and> list_all2 (\<lambda>l j. suite_job W C opts d l = Inr j) ls js"
  using assms(1)
proof (induction ls)
  case Nil
  show ?case by (simp add: suite_jobs_def)
next
  case (Cons l ls)
  then obtain js where js: "suite_jobs W C opts d ls = Inr js" "list_all2 (\<lambda>l j. suite_job W C opts d l = Inr j) ls js"
    by auto
  obtain j where j: "suite_job W C opts d l = Inr j" using assms(2) by blast
  have "py_strip l = l" "l \<noteq> ''''" using Cons.prems by (simp_all add: strip_suite_name suite_name_def)
  with js j show ?case by (auto simp: suite_jobs_def Let_def)
qed

definition skipped_suite :: "test_options \<Rightarrow> lit \<Rightarrow> string \<Rightarrow> bool" where
  "skipped_suite opts nsc s \<longleftrightarrow>
     opt_valgrind opts \<and> s \<in> set core_valgrind_skip_tests \<or> \<not> truth nsc \<and> s \<in> set core_nsc_missing_skip_tests"

text \<open>
  When no suite and no example is named, the test runner's suites are run once each and in its order, without the
  performance tests, and exactly those are marked as skipped that valgrind or a missing NSC rules out.
\<close>

theorem suites_selected:
  assumes "nothing_named opts" and "opt_constrain opts \<noteq> ''performance''"
    and "ask_runner W C ('' --print-test-name-list'' @
           (if opt_constrain opts \<noteq> '''' then '' --test-type='' @ opt_constrain opts else '''')) = Inr (unlines names)"
    and "ask_runner W C '' --print-test-name-list --test-type=performance'' = Inr (unlines perf)"
    and "list_all suite_name (names @ perf)" and "distinct names"
    and "program_name (globals C) ''test-runner'' = Inr runner" and "globals C ''NSC_ENABLED'' = Some nsc"
  shows "\<exists>suites js. suite_list W C opts = Inr suites \<and> suite_jobs W C opts out_dir suites = Inr js \<and>
    map display_name js = filter (\<lambda>s. s \<notin> set perf) names \<and>
    map is_skip js = map (skipped_suite opts nsc) (map display_name js)"
proof -
  define ls where "ls = filter (\<lambda>s. s \<notin> set perf) names"
  have n: "list_all suite_name names" "list_all suite_name perf" using assms(5) by simp_all
  have d: "distinct (names @ [''''])" using assms(6) n(1) by (auto simp: suite_name_def list_all_iff)
  have l: "suite_list W C opts = Inr ls"
    using assms(1-4) remove_all_distinct [OF d, of "perf @ ['''']"] split_unlines [OF n(1)] split_unlines [OF n(2)] n
    by (auto simp: suite_list_def nothing_named_def Let_def ls_def suite_name_def list_all_iff intro!: filter_cong)
  have "\<exists>j. suite_job W C opts out_dir l = Inr j" for l
    by (simp add: suite_job_def assms(7,8) name_value_def Let_def)
  moreover have "list_all suite_name ls" using n(1) by (simp add: ls_def list_all_iff)
  ultimately obtain js where js: "suite_jobs W C opts out_dir ls = Inr js"
    "list_all2 (\<lambda>l j. suite_job W C opts out_dir l = Inr j) ls js"
    using suite_jobs_names by blast
  have "map display_name js = ls \<and> map is_skip js = map (skipped_suite opts nsc) ls"
    using js(2)
  proof (induction rule: list_all2_induct)
    case (Cons l ls j js)
    then show ?case
      by (auto simp: suite_job_def assms(7,8) name_value_def Let_def skipped_suite_def)
  qed simp
  with l js(1) show ?thesis unfolding ls_def by metis
qed

text \<open>A build with two suites, one of them a performance test, and one that valgrind rules out.\<close>

definition demo_ask :: "string \<Rightarrow> string \<Rightarrow> proc" where
  "demo_ask cmd dir =
     Exited 0 (Decoded (if cmd = ''/b/utils/ns-3-test-runner --print-test-name-list --test-type=performance''
                        then unlines [''many-uniform'']
                        else unlines [''aodv'', ''many-uniform'', ''routing-click''])) (Decoded '''') 0"

definition demo_outside :: outside where
  "demo_outside =
     \<lparr>tree = \<lparr>texts = Map.empty, present = (\<lambda>_. False), here = ''/''\<rparr>, platform = ''linux'', environment = Map.empty,
      run_waf = (\<lambda>_. 0), ask = demo_ask, online_processors = 2\<rparr>"

definition demo_build :: waf_config where
  "demo_build =
     \<lparr>NS3_BASEDIR = ''/'', NS3_BUILDDIR = ''/b'', globals = config_defaults(''APPNAME'' \<mapsto> LStr ''ns'', ''VERSION'' \<mapsto> LStr ''-3'')\<rparr>"

lemma demo_question:
  "ask_runner demo_outside demo_build q =
     decoded (case demo_ask (''/b/utils/ns-3-test-runner'' @ q) ''/'' of Exited _ t _ _ \<Rightarrow> t | Not_Started \<Rightarrow> Decoded '''')"
  by (simp add: ask_runner_def program_name_def name_str_def name_value_def str_of_def demo_build_def config_defaults_def
      job_command_def join_path_def demo_outside_def job_outcome_def demo_ask_def decoded_def)

lemma demo_build_names:
  "program_name (globals demo_build) ''test-runner'' = Inr ''ns-3-test-runner''"
  "globals demo_build ''NSC_ENABLED'' = Some (LBool False)"
  by (simp_all add: program_name_def name_str_def name_value_def str_of_def demo_build_def config_defaults_def)

theorem suites_selected_witness:
  "\<exists>suites js. suite_list demo_outside demo_build (default_options\<lparr>opt_valgrind := True\<rparr>) = Inr suites \<and>
    suite_jobs demo_outside demo_build (default_options\<lparr>opt_valgrind := True\<rparr>) ''d'' suites = Inr js \<and>
    map display_name js = [''aodv'', ''routing-click''] \<and> map is_skip js = [False, True]"
proof -
  have "\<exists>suites js. suite_list demo_outside demo_build (default_options\<lparr>opt_valgrind := True\<rparr>) = Inr suites \<and>
    suite_jobs demo_outside demo_build (default_options\<lparr>opt_valgrind := True\<rparr>) ''d'' suites = Inr js \<and>
    map display_name js = filter (\<lambda>s. s \<notin> set [''many-uniform'']) [''aodv'', ''many-uniform'', ''routing-click''] \<and>
    map is_skip js = map (skipped_suite (default_options\<lparr>opt_valgrind := True\<rparr>) (LBool False)) (map display_name js)"
    by (rule suites_selected [where runner = "''ns-3-test-runner''"])
      (simp_all add: nothing_named_def default_options_def demo_question demo_ask_def decoded_def suite_name_def is_white_def
        demo_build_names)
  then show ?thesis
    by (auto simp: skipped_suite_def core_valgrind_skip_tests_def core_nsc_missing_skip_tests_def default_options_def)
qed

text \<open>
  The status of the runner is not looked at: when it crashes before it prints a name, no suite is run, and nothing is
  reported.
\<close>

lemma crashed_runner_runs_nothing:
  assumes "nothing_named opts" and "\<And>q. ask_runner W C q = Inr ''''"
  shows "\<exists>suites. suite_list W C opts = Inr suites \<and> suite_jobs W C opts d suites = Inr []"
  using assms
  by (auto simp: suite_list_def nothing_named_def Let_def remove_all_def suite_jobs_def py_strip_def)

text \<open>The search path of Python that the user had set is overwritten before it is extended.\<close>

lemma python_path_lost:
  assumes "environ ''PYTHONPATH'' = Some user" and "name_strs (globals C) ''NS3_MODULE_PATH'' = Inr ps"
    and "platform_name \<in> {''linux'', ''darwin''}"
  shows "\<exists>e. make_paths C platform_name environ = Inr e \<and>
    (let p = join_path (join_path (NS3_BUILDDIR C) ''bindings'') ''python'' in e ''PYTHONPATH'' = Some (p @ '':'' @ p))"
  using assms by (auto simp: make_paths_def path_variable_def Let_def)

end
