(* ===== verification/TestPool.thy ===== *)
theory TestPool
  imports TestPlan "HOL-Library.Multiset"
begin

text \<open>
  The threads of \<open>test.py\<close>: the main thread puts the jobs and one break marker for each worker into a queue and then
  takes as many results as there were jobs out of another; the workers take jobs, run them and return them. The
  steps of the threads and the signal handler interleave freely; taking an item out of a queue and
  reading the flag of the signal handler are separate steps. Then the main thread's count of the results.
\<close>

section \<open>Workers\<close>

text \<open>What running a command in a directory may do: any of several things.\<close>

type_synonym programs = "string \<Rightarrow> string \<Rightarrow> proc \<Rightarrow> bool"

text \<open>The command a worker starts for a job: examples run as they are, suites get the place for their results.\<close>

definition worker_command :: "waf_config \<Rightarrow> test_options \<Rightarrow> job \<Rightarrow> string result" where
  "worker_command C opts j =
     (if is_example j \<or> is_pyexample j
      then job_command C (shell_command j) (opt_valgrind opts) (is_pyexample j) (build_path j)
      else job_command C
             (shell_command j @ '' --xml --tempdir='' @ tempdir j @ '' --out='' @ tmp_file_name j @ '' '' @
              (if opt_update_data opts then ''--update-data'' else ''''))
             (opt_valgrind opts) False '''')"

text \<open>What comes of running a job: the job with its results, or an exception.\<close>

definition job_run :: "waf_config \<Rightarrow> test_options \<Rightarrow> programs \<Rightarrow> job \<Rightarrow> job result \<Rightarrow> bool" where
  "job_run C opts runs j r \<longleftrightarrow>
     (case worker_command C opts j of
        Inl e \<Rightarrow> r = Inl e
      | Inr cmd \<Rightarrow>
          (\<exists>p. runs cmd (job_cwd j) p \<and>
             r = ebind (job_outcome p) (\<lambda>(rc, _, _, et). Inr (j\<lparr>returncode := rc, elapsed_time := et\<rparr>))))"

datatype worker = Waiting | Holding job | Running job | Ended | Died job

record thread_pool =
  to_put :: "job list"
  input_queue :: "job list"
  workers :: "worker list"
  output_queue :: "job list"
  thread_exit :: bool
  results :: "job list"
  jobs :: nat

definition break_job :: job where
  "break_job = Job\<lparr>is_break := True\<rparr>"

definition start_pool :: "job list \<Rightarrow> nat \<Rightarrow> thread_pool" where
  "start_pool js n =
     \<lparr>to_put = js @ replicate n break_job, input_queue = [], workers = replicate n Waiting, output_queue = [],
      thread_exit = False, results = [], jobs = length js\<rparr>"

inductive pool_step :: "waf_config \<Rightarrow> test_options \<Rightarrow> programs \<Rightarrow> thread_pool \<Rightarrow> thread_pool \<Rightarrow> bool"
  for C opts runs where
  put: "to_put s = j # js \<Longrightarrow>
    pool_step C opts runs s (s\<lparr>to_put := js, input_queue := input_queue s @ [j]\<rparr>)"
| get: "i < length (workers s) \<Longrightarrow> workers s ! i = Waiting \<Longrightarrow> input_queue s = j # q \<Longrightarrow>
    pool_step C opts runs s
      (s\<lparr>input_queue := q, workers := (workers s)[i := (if is_break j then Ended else Holding j)]\<rparr>)"
| interrupted: "i < length (workers s) \<Longrightarrow> workers s ! i = Holding j \<Longrightarrow> thread_exit s \<Longrightarrow>
    pool_step C opts runs s
      (s\<lparr>output_queue := output_queue s @ [j\<lparr>is_break := True\<rparr>], workers := (workers s)[i := Waiting]\<rparr>)"
| skip: "i < length (workers s) \<Longrightarrow> workers s ! i = Holding j \<Longrightarrow> \<not> thread_exit s \<Longrightarrow> is_skip j \<Longrightarrow>
    pool_step C opts runs s
      (s\<lparr>output_queue := output_queue s @ [j], workers := (workers s)[i := Waiting]\<rparr>)"
| launch: "i < length (workers s) \<Longrightarrow> workers s ! i = Holding j \<Longrightarrow> \<not> thread_exit s \<Longrightarrow> \<not> is_skip j \<Longrightarrow>
    pool_step C opts runs s (s\<lparr>workers := (workers s)[i := Running j]\<rparr>)"
| finish: "i < length (workers s) \<Longrightarrow> workers s ! i = Running j \<Longrightarrow> job_run C opts runs j (Inr j') \<Longrightarrow>
    pool_step C opts runs s
      (s\<lparr>output_queue := output_queue s @ [j'], workers := (workers s)[i := Waiting]\<rparr>)"
| die: "i < length (workers s) \<Longrightarrow> workers s ! i = Running j \<Longrightarrow> job_run C opts runs j (Inl e) \<Longrightarrow>
    pool_step C opts runs s (s\<lparr>workers := (workers s)[i := Died j]\<rparr>)"
| collect: "to_put s = [] \<Longrightarrow> length (results s) < jobs s \<Longrightarrow> output_queue s = j # q \<Longrightarrow>
    pool_step C opts runs s (s\<lparr>output_queue := q, results := results s @ [j]\<rparr>)"

text \<open>The handler of the interrupt signal may run between any two steps.\<close>

definition sigint_hook :: "thread_pool \<Rightarrow> thread_pool" where
  "sigint_hook s = s\<lparr>thread_exit := True\<rparr>"

inductive pool_reach :: "waf_config \<Rightarrow> test_options \<Rightarrow> programs \<Rightarrow> thread_pool \<Rightarrow> nat \<Rightarrow> thread_pool \<Rightarrow> bool"
  for C opts runs s0 where
  start: "pool_reach C opts runs s0 0 s0"
| step: "pool_reach C opts runs s0 n s \<Longrightarrow> pool_step C opts runs s t \<Longrightarrow> pool_reach C opts runs s0 (Suc n) t"
| signal: "pool_reach C opts runs s0 n s \<Longrightarrow> pool_reach C opts runs s0 n (sigint_hook s)"

inductive_cases pool_stepE: "pool_step C opts runs s t"

text \<open>
  The main thread has all its results and has joined every worker. A worker that died of an exception can be joined.
\<close>

definition joined :: "worker \<Rightarrow> bool" where
  "joined w \<longleftrightarrow> (case w of Ended \<Rightarrow> True | Died _ \<Rightarrow> True | _ \<Rightarrow> False)"

definition pool_finished :: "thread_pool \<Rightarrow> bool" where
  "pool_finished s \<longleftrightarrow> to_put s = [] \<and> length (results s) = jobs s \<and> list_all joined (workers s)"

section \<open>Invariants of the pool\<close>

text \<open>The job a worker has in hand, and how a returned job relates to the one that was sent.\<close>

fun in_hand :: "worker \<Rightarrow> job list" where
  "in_hand (Holding j) = [j]"
| "in_hand (Running j) = [j]"
| "in_hand (Died j) = [j]"
| "in_hand w = []"

definition answers :: "waf_config \<Rightarrow> test_options \<Rightarrow> programs \<Rightarrow> bool \<Rightarrow> job \<Rightarrow> job \<Rightarrow> bool" where
  "answers C opts runs exiting j j' \<longleftrightarrow>
     exiting \<and> j' = j\<lparr>is_break := True\<rparr> \<or> is_skip j \<and> j' = j \<or> \<not> is_skip j \<and> job_run C opts runs j (Inr j')"

definition open_jobs :: "thread_pool \<Rightarrow> job multiset" where
  "open_jobs s =
     mset (filter (\<lambda>j. \<not> is_break j) (input_queue s @ to_put s)) + mset (concat (map in_hand (workers s)))"

text \<open>Every job is in one place: still to come, in the hand of a worker, or answered.\<close>

definition conserved :: "waf_config \<Rightarrow> test_options \<Rightarrow> programs \<Rightarrow> job list \<Rightarrow> thread_pool \<Rightarrow> bool" where
  "conserved C opts runs js s \<longleftrightarrow>
     (\<exists>Q. mset js = open_jobs s + Q \<and>
        rel_mset (answers C opts runs (thread_exit s)) Q (mset (output_queue s @ results s)))"

text \<open>
  The queue holds the jobs before the markers, and there is a marker left for each worker that has not ended; no worker
  ends before the last job is taken.
\<close>

definition markers_ok :: "nat \<Rightarrow> thread_pool \<Rightarrow> bool" where
  "markers_ok n s \<longleftrightarrow>
     (\<exists>rest k. input_queue s @ to_put s = rest @ replicate k break_job \<and> list_all (\<lambda>j. \<not> is_break j) rest \<and>
        k + count_list (workers s) Ended = n \<and> (0 < count_list (workers s) Ended \<longrightarrow> rest = []))"

definition hands_ok :: "worker list \<Rightarrow> bool" where
  "hands_ok ws \<longleftrightarrow>
     list_all (\<lambda>w. list_all (\<lambda>j. \<not> is_break j) (in_hand w)) ws \<and>
     list_all (\<lambda>w. case w of Running j \<Rightarrow> \<not> is_skip j | Died j \<Rightarrow> \<not> is_skip j | _ \<Rightarrow> True) ws"

definition pool_ok :: "waf_config \<Rightarrow> test_options \<Rightarrow> programs \<Rightarrow> job list \<Rightarrow> nat \<Rightarrow> thread_pool \<Rightarrow> bool" where
  "pool_ok C opts runs js n s \<longleftrightarrow>
     conserved C opts runs js s \<and> markers_ok n s \<and> hands_ok (workers s) \<and>
     jobs s = length js \<and> length (results s) \<le> jobs s \<and> length (workers s) = n"

lemma hands_set:
  assumes "i < length ws"
  shows "mset (concat (map in_hand (ws[i := w]))) + mset (in_hand (ws ! i)) = mset (concat (map in_hand ws)) + mset (in_hand w)"
  using assms
proof (induction ws arbitrary: i)
  case (Cons v ws)
  show ?case
  proof (cases i)
    case (Suc m)
    with Cons.prems have "m < length ws" by simp
    from Cons.IH [OF this] Suc show ?thesis by (simp add: ac_simps)
  qed (simp add: ac_simps)
qed simp

lemma count_set:
  assumes "i < length ws"
  shows "count_list (ws[i := w]) x + (if ws ! i = x then 1 else 0) = count_list ws x + (if w = x then 1 else 0)"
  using assms
proof (induction ws arbitrary: i)
  case (Cons v ws)
  show ?case
  proof (cases i)
    case (Suc m)
    with Cons.prems have "m < length ws" by simp
    from Cons.IH [OF this] Suc show ?thesis by (auto split: if_splits)
  qed simp
qed simp

lemma hands_ok_set:
  assumes "hands_ok ws" and "hands_ok [w]"
  shows "hands_ok (ws[i := w])"
  using assms by (induction ws arbitrary: i) (auto simp: hands_ok_def split: nat.splits)

lemma hands_ok_one [simp]:
  "hands_ok [Waiting]" "hands_ok [Ended]" "hands_ok [Holding j] \<longleftrightarrow> \<not> is_break j"
  "hands_ok [Running j] \<longleftrightarrow> \<not> is_break j \<and> \<not> is_skip j" "hands_ok [Died j] \<longleftrightarrow> \<not> is_break j \<and> \<not> is_skip j"
  by (simp_all add: hands_ok_def)

lemma hands_ok_nth: "hands_ok ws \<Longrightarrow> i < length ws \<Longrightarrow> hands_ok [ws ! i]"
  by (simp add: hands_ok_def list_all_length)

lemma break_job_simps [simp]: "is_break break_job" "\<not> is_break Job"
  by (simp_all add: break_job_def Job_def)

lemma filter_breaks [simp]: "filter (\<lambda>j. \<not> is_break j) (replicate k break_job) = []"
  by (induction k) simp_all

lemma start_inv:
  assumes "list_all (\<lambda>j. \<not> is_break j) js"
  shows "pool_ok C opts runs js n (start_pool js n)"
proof -
  have f: "filter (\<lambda>j. \<not> is_break j) js = js" using assms by (simp add: list_all_iff)
  have c: "concat (map in_hand (replicate n Waiting)) = []" by (induction n) simp_all
  have e: "count_list (replicate n Waiting) Ended = 0" by (induction n) simp_all
  have "conserved C opts runs js (start_pool js n)"
    unfolding conserved_def open_jobs_def by (rule exI [of _ "{#}"]) (simp add: start_pool_def f c)
  moreover have "markers_ok n (start_pool js n)"
    unfolding markers_ok_def
    by (rule exI [of _ js], rule exI [of _ n]) (simp add: start_pool_def e assms)
  ultimately show ?thesis by (simp add: pool_ok_def start_pool_def hands_ok_def list_all_iff)
qed

text \<open>A step that only moves jobs between the places that are still open keeps the conservation.\<close>

lemma conserved_move:
  assumes "conserved C opts runs js s" and "open_jobs t = open_jobs s"
    and "mset (output_queue t @ results t) = mset (output_queue s @ results s)" and "thread_exit t = thread_exit s"
  shows "conserved C opts runs js t"
  using assms by (simp add: conserved_def)

text \<open>A step that answers a job.\<close>

lemma conserved_answer:
  assumes "conserved C opts runs js s" and "open_jobs s = add_mset j (open_jobs t)"
    and "answers C opts runs (thread_exit s) j j'"
    and "mset (output_queue t @ results t) = add_mset j' (mset (output_queue s @ results s))"
    and "thread_exit t = thread_exit s"
  shows "conserved C opts runs js t"
proof -
  from assms(1) obtain Q where Q: "mset js = open_jobs s + Q"
    "rel_mset (answers C opts runs (thread_exit s)) Q (mset (output_queue s @ results s))"
    by (auto simp: conserved_def)
  have "mset js = open_jobs t + add_mset j Q" using Q(1) assms(2) by simp
  moreover have "rel_mset (answers C opts runs (thread_exit t)) (add_mset j Q) (mset (output_queue t @ results t))"
    unfolding assms(4,5) by (rule rel_mset_Plus [OF assms(3) Q(2)])
  ultimately show ?thesis unfolding conserved_def by blast
qed

lemma conserved_signal:
  assumes "conserved C opts runs js s"
  shows "conserved C opts runs js (sigint_hook s)"
proof -
  have "answers C opts runs e \<le> answers C opts runs True" for e
    by (auto simp: answers_def)
  then have "rel_mset (answers C opts runs e) A B \<Longrightarrow> rel_mset (answers C opts runs True) A B" for e A B
    using multiset.rel_mono by blast
  with assms show ?thesis
    unfolding conserved_def by (auto simp: sigint_hook_def open_jobs_def)
qed

text \<open>Replacing one worker: the open jobs before and after.\<close>

lemma open_jobs_set:
  assumes "i < length (workers s)"
  shows "open_jobs (s\<lparr>workers := (workers s)[i := w]\<rparr>) + mset (in_hand (workers s ! i)) = open_jobs s + mset (in_hand w)"
  using hands_set [OF assms, of w] by (simp add: open_jobs_def ac_simps)

lemma open_jobs_output [simp]:
  "open_jobs (s\<lparr>output_queue := q, workers := ws\<rparr>) = open_jobs (s\<lparr>workers := ws\<rparr>)"
  "open_jobs (s\<lparr>output_queue := q, results := rs\<rparr>) = open_jobs s"
  by (simp_all add: open_jobs_def)

lemma conserved_step:
  assumes "pool_step C opts runs s t" and "conserved C opts runs js s" and "hands_ok (workers s)"
  shows "conserved C opts runs js t"
  using assms(1)
proof cases
  case (put j ks)
  then show ?thesis by (intro conserved_move [OF assms(2)]) (simp_all add: open_jobs_def ac_simps)
next
  case (get i j q)
  have "open_jobs t = open_jobs s"
    using hands_set [OF get(2), of "if is_break j then Ended else Holding j"] get
    by (simp add: open_jobs_def split: if_splits)
  with get show ?thesis by (intro conserved_move [OF assms(2)]) simp_all
next
  case (interrupted i j)
  have "open_jobs s = add_mset j (open_jobs t)"
    using open_jobs_set [OF interrupted(2), of Waiting] interrupted by simp
  with interrupted show ?thesis
    by (intro conserved_answer [OF assms(2), of j t "j\<lparr>is_break := True\<rparr>"]) (simp_all add: answers_def)
next
  case (skip i j)
  have "open_jobs s = add_mset j (open_jobs t)"
    using open_jobs_set [OF skip(2), of Waiting] skip by simp
  with skip show ?thesis
    by (intro conserved_answer [OF assms(2), of j t j]) (simp_all add: answers_def)
next
  case (launch i j)
  have "open_jobs t = open_jobs s"
    using open_jobs_set [OF launch(2), of "Running j"] launch by simp
  with launch show ?thesis by (intro conserved_move [OF assms(2)]) simp_all
next
  case (finish i j j')
  have "open_jobs s = add_mset j (open_jobs t)"
    using open_jobs_set [OF finish(2), of Waiting] finish by simp
  moreover have "\<not> is_skip j" using hands_ok_nth [OF assms(3) finish(2)] finish by (simp add: hands_ok_def)
  ultimately show ?thesis
    using finish by (intro conserved_answer [OF assms(2), of j t j']) (simp_all add: answers_def)
next
  case (die i j e)
  have "open_jobs t = open_jobs s"
    using open_jobs_set [OF die(2), of "Died j"] die by simp
  with die show ?thesis by (intro conserved_move [OF assms(2)]) simp_all
next
  case (collect j q)
  then show ?thesis by (intro conserved_move [OF assms(2)]) simp_all
qed

lemma markers_step:
  assumes "pool_step C opts runs s t" and "markers_ok n s"
  shows "markers_ok n t"
proof -
  from assms(2) obtain rest k where m: "input_queue s @ to_put s = rest @ replicate k break_job"
    "list_all (\<lambda>j. \<not> is_break j) rest" "k + count_list (workers s) Ended = n"
    "0 < count_list (workers s) Ended \<longrightarrow> rest = []"
    by (auto simp: markers_ok_def)
  have keep: "markers_ok n t" if "input_queue t @ to_put t = input_queue s @ to_put s"
    and "count_list (workers t) Ended = count_list (workers s) Ended"
    using m that unfolding markers_ok_def by metis
  have same: "count_list ((workers s)[i := w]) Ended = count_list (workers s) Ended"
    if "i < length (workers s)" "workers s ! i \<noteq> Ended" "w \<noteq> Ended" for i w
    using count_set [OF that(1), of w Ended] that by simp
  from assms(1) show ?thesis
  proof cases
    case (get i j q)
    show ?thesis
    proof (cases rest)
      case Nil
      then have "j = break_job" and q: "q @ to_put s = replicate (k - 1) break_job" and "0 < k"
        using m(1) get(4) by (cases k; simp)+
      then have "count_list (workers t) Ended = Suc (count_list (workers s) Ended)"
        using count_set [OF get(2), of Ended Ended] get by simp
      with m(3) \<open>0 < k\<close> q get(1) show ?thesis
        unfolding markers_ok_def by (intro exI [of _ "[]"] exI [of _ "k - 1"]) simp
    next
      case (Cons j' rest')
      then have "j = j'" and q: "q @ to_put s = rest' @ replicate k break_job" using m(1) get(4) by simp_all
      with m(2) Cons have "\<not> is_break j" by simp
      then have "count_list (workers t) Ended = count_list (workers s) Ended"
        using same [OF get(2), of "Holding j"] get by simp
      moreover have "count_list (workers s) Ended = 0" using m(4) Cons by simp
      ultimately show ?thesis
        using m(2,3) Cons q get(1) unfolding markers_ok_def
        by (intro exI [of _ rest'] exI [of _ k]) simp
    qed
  qed (rule keep; simp add: same)+
qed

lemma hands_step:
  assumes "pool_step C opts runs s t" and "hands_ok (workers s)"
  shows "hands_ok (workers t)"
  using assms(1)
proof cases
  case (launch i j)
  then show ?thesis using hands_ok_nth [OF assms(2) launch(2)] by (simp add: hands_ok_set [OF assms(2)])
next
  case (die i j e)
  then show ?thesis using hands_ok_nth [OF assms(2) die(2)] by (simp add: hands_ok_set [OF assms(2)])
qed (use assms(2) in \<open>simp_all add: hands_ok_set [OF assms(2)]\<close>)

lemma pool_ok_step:
  assumes "pool_step C opts runs s t" and "pool_ok C opts runs js n s"
  shows "pool_ok C opts runs js n t"
proof -
  have "jobs t = jobs s \<and> length (workers t) = length (workers s) \<and>
      (length (results s) \<le> jobs s \<longrightarrow> length (results t) \<le> jobs t)"
    using assms(1) by cases simp_all
  with assms show ?thesis
    using conserved_step markers_step hands_step by (auto simp: pool_ok_def)
qed

lemma pool_ok_signal: "pool_ok C opts runs js n s \<Longrightarrow> pool_ok C opts runs js n (sigint_hook s)"
  using conserved_signal by (fastforce simp: pool_ok_def sigint_hook_def markers_ok_def)

lemma pool_ok_reach:
  assumes "pool_reach C opts runs (start_pool js n) k s" and "list_all (\<lambda>j. \<not> is_break j) js"
  shows "pool_ok C opts runs js n s"
  using assms(1)
proof induction
  case start
  show ?case by (rule start_inv [OF assms(2)])
qed (auto intro: pool_ok_step pool_ok_signal)

section \<open>Progress\<close>

text \<open>An upper bound of the steps the threads can still make.\<close>

fun hand_weight :: "worker \<Rightarrow> nat" where
  "hand_weight (Holding j) = 4"
| "hand_weight (Running j) = 3"
| "hand_weight w = 0"

definition weight :: "thread_pool \<Rightarrow> nat" where
  "weight s =
     6 * length (to_put s) + 5 * length (input_queue s) + sum_list (map hand_weight (workers s)) + length (output_queue s)"

lemma hand_weight_set:
  assumes "i < length ws"
  shows "sum_list (map hand_weight (ws[i := w])) + hand_weight (ws ! i) = sum_list (map hand_weight ws) + hand_weight w"
  using assms
proof (induction ws arbitrary: i)
  case (Cons v ws)
  show ?case
  proof (cases i)
    case (Suc m)
    with Cons.prems have "m < length ws" by simp
    from Cons.IH [OF this] Suc show ?thesis by simp
  qed simp
qed simp

lemma weight_step:
  assumes "pool_step C opts runs s t"
  shows "Suc (weight t) \<le> weight s"
  using assms
proof cases
  case (get i j q)
  then show ?thesis using hand_weight_set [OF get(2), of "if is_break j then Ended else Holding j"]
    by (simp add: weight_def split: if_splits)
next
  case (interrupted i j)
  then show ?thesis using hand_weight_set [OF interrupted(2), of Waiting] by (simp add: weight_def)
next
  case (skip i j)
  then show ?thesis using hand_weight_set [OF skip(2), of Waiting] by (simp add: weight_def)
next
  case (launch i j)
  then show ?thesis using hand_weight_set [OF launch(2), of "Running j"] by (simp add: weight_def)
next
  case (finish i j j')
  then show ?thesis using hand_weight_set [OF finish(2), of Waiting] by (simp add: weight_def)
next
  case (die i j e)
  then show ?thesis using hand_weight_set [OF die(2), of "Died j"] by (simp add: weight_def)
qed (simp_all add: weight_def)

lemma weight_start: "weight (start_pool js n) = 6 * (length js + n)"
proof -
  have "sum_list (map hand_weight (replicate n Waiting)) = 0" by (induction n) simp_all
  then show ?thesis by (simp add: weight_def start_pool_def)
qed

lemma steps_bounded:
  assumes "pool_reach C opts runs (start_pool js n) k s"
  shows "k + weight s \<le> 6 * (length js + n)"
  using assms
proof induction
  case start
  show ?case by (simp add: weight_start)
next
  case (step k s t)
  then show ?case using weight_step [of C opts runs s t] by simp
qed (simp add: weight_def sigint_hook_def)

text \<open>Every program that is started does something: it ends with a status or does not start.\<close>

definition programs_end :: "programs \<Rightarrow> bool" where
  "programs_end runs \<longleftrightarrow> (\<forall>cmd dir. \<exists>p. runs cmd dir p)"

text \<open>A worker with a job in hand can go on.\<close>

lemma job_run_some:
  assumes "programs_end runs"
  shows "\<exists>r. job_run C opts runs j r"
proof (cases "worker_command C opts j")
  case (Inr cmd)
  obtain p where "runs cmd (job_cwd j) p" using assms by (auto simp: programs_end_def)
  then show ?thesis unfolding job_run_def Inr by auto
qed (simp add: job_run_def)

lemma busy_worker_steps:
  assumes "w \<in> set (workers s)" and "in_hand w \<noteq> []" and "\<not> joined w" and "programs_end runs"
  shows "\<exists>t. pool_step C opts runs s t"
proof -
  from assms(1) obtain i where i: "i < length (workers s)" "workers s ! i = w" by (auto simp: in_set_conv_nth)
  show ?thesis
  proof (cases w)
    case (Holding j)
    with i show ?thesis
      by (cases "thread_exit s"; cases "is_skip j") (blast intro: interrupted skip launch)+
  next
    case (Running j)
    obtain r where "job_run C opts runs j r" using job_run_some [OF assms(4)] by blast
    with i Running show ?thesis by (cases r) (blast intro: finish die)+
  qed (use assms in \<open>simp_all add: joined_def\<close>)
qed

lemma waiting_worker_steps:
  assumes "Waiting \<in> set (workers s)" and "input_queue s \<noteq> []"
  shows "\<exists>t. pool_step C opts runs s t"
proof -
  from assms(1) obtain i where "i < length (workers s)" "workers s ! i = Waiting" by (auto simp: in_set_conv_nth)
  moreover from assms(2) obtain j q where "input_queue s = j # q" by (cases "input_queue s") simp_all
  ultimately show ?thesis by (blast intro: get)
qed

lemma count_all: "(\<forall>w \<in> set ws. w = x) \<Longrightarrow> count_list ws x = length ws"
  by (induction ws) auto

lemma count_less: "w \<in> set ws \<Longrightarrow> w \<noteq> x \<Longrightarrow> count_list ws x < length ws"
proof (induction ws)
  case (Cons v ws)
  have "count_list ws x \<le> length ws" by (rule count_le_length)
  with Cons show ?case by auto
qed simp

lemma conserved_size:
  assumes "conserved C opts runs js s"
  shows "size (open_jobs s) + length (output_queue s) + length (results s) = length js"
proof -
  from assms obtain Q where "mset js = open_jobs s + Q"
    and "rel_mset (answers C opts runs (thread_exit s)) Q (mset (output_queue s @ results s))"
    by (auto simp: conserved_def)
  then have "size (mset js) = size (open_jobs s) + size Q"
    and "size Q = length (output_queue s) + length (results s)"
    by (simp_all add: rel_mset_size)
  then show ?thesis by simp
qed

lemma pool_not_stuck:
  assumes "pool_ok C opts runs js n s" and "0 < n \<or> js = []" and "programs_end runs"
    and "\<And>j. Died j \<notin> set (workers s)"
  shows "pool_finished s \<or> (\<exists>t. pool_step C opts runs s t)"
proof (rule ccontr)
  assume "\<not> ?thesis"
  then have nf: "\<not> pool_finished s" and st: "\<And>t. \<not> pool_step C opts runs s t" by auto
  have p: "to_put s = []" using st pool_step.put [of s _ _ C opts runs] by (cases "to_put s") blast+
  have idle: "w = Waiting \<or> w = Ended" if "w \<in> set (workers s)" for w
  proof -
    have "in_hand w = [] \<or> joined w"
      using busy_worker_steps [OF that _ _ assms(3), of C opts] st by blast
    then show ?thesis using that assms(4) by (cases w) (simp_all add: joined_def)
  qed
  obtain rest k where m: "input_queue s @ to_put s = rest @ replicate k break_job"
    "k + count_list (workers s) Ended = n" "0 < count_list (workers s) Ended \<longrightarrow> rest = []"
    using assms(1) by (auto simp: pool_ok_def markers_ok_def)
  have len: "length (workers s) = n" "jobs s = length js" "length (results s) \<le> jobs s"
    and c: "conserved C opts runs js s" using assms(1) by (simp_all add: pool_ok_def)
  have ended: "\<forall>w \<in> set (workers s). w = Ended"
  proof (rule ccontr)
    assume "\<not> ?thesis"
    then obtain w where "w \<in> set (workers s)" "w \<noteq> Ended" by blast
    then have w: "Waiting \<in> set (workers s)" and "count_list (workers s) Ended < n"
      using idle count_less len(1) by fastforce+
    then have "input_queue s \<noteq> []" using m p by auto
    with waiting_worker_steps [OF w] st show False by blast
  qed
  then have "count_list (workers s) Ended = n" using count_all len(1) by metis
  then have "input_queue s = []" if "0 < n" using m p that by simp
  moreover have hand: "in_hand w = []" if "w \<in> set (workers s)" for w using bspec [OF ended that] by simp
  have "concat (map in_hand (workers s)) = []" using hand by simp
  ultimately have "open_jobs s = {#}" if "0 < n" using p that by (simp add: open_jobs_def)
  then have "length (output_queue s) + length (results s) = length js"
    using conserved_size [OF c] assms(2) by auto
  moreover have "length (results s) < jobs s"
    using nf p len ended by (auto simp: pool_finished_def joined_def list_all_iff)
  ultimately have "output_queue s \<noteq> []" using len(2) by auto
  then obtain j q where "output_queue s = j # q" by (cases "output_queue s") simp_all
  with st pool_step.collect [OF p \<open>length (results s) < jobs s\<close>] show False by blast
qed

lemma finished_answers:
  assumes "pool_ok C opts runs js n s" and "pool_finished s"
  shows "rel_mset (answers C opts runs (thread_exit s)) (mset js) (mset (results s))"
    and "output_queue s = []" and "open_jobs s = {#}"
proof -
  from assms have c: "conserved C opts runs js s" and l: "length (results s) = length js"
    by (simp_all add: pool_ok_def pool_finished_def)
  from conserved_size [OF c] l show o: "output_queue s = []" and e: "open_jobs s = {#}" by simp_all
  from c show "rel_mset (answers C opts runs (thread_exit s)) (mset js) (mset (results s))"
    by (auto simp: conserved_def o e)
qed

lemma died_open: "Died j \<in> set (workers s) \<Longrightarrow> open_jobs s \<noteq> {#}"
proof -
  assume "Died j \<in> set (workers s)"
  then have "j \<in> set (concat (map in_hand (workers s)))" by force
  then show "open_jobs s \<noteq> {#}" by (auto simp: open_jobs_def)
qed

lemma pool_reach_trans:
  assumes "pool_reach C opts runs s k' t" and "pool_reach C opts runs s0 k s"
  shows "pool_reach C opts runs s0 (k + k') t"
  using assms
proof (induction rule: pool_reach.induct)
  case (step n s' t)
  then show ?case using pool_reach.step [of C opts runs s0 "k + n" s' t] by simp
qed (auto intro: pool_reach.signal)

lemma died_step:
  assumes "pool_step C opts runs s t" and "Died j \<in> set (workers s)"
  shows "Died j \<in> set (workers t)"
proof -
  have keep: "Died j \<in> set ((workers s)[i := w])" if "i < length (workers s)" "workers s ! i \<noteq> Died j" for i w
  proof -
    obtain m where "m < length (workers s)" "workers s ! m = Died j" using assms(2) by (auto simp: in_set_conv_nth)
    with that show ?thesis by (metis length_list_update nth_list_update_neq nth_mem)
  qed
  from assms(1) show ?thesis
  proof cases
    case (get i j' q)
    then show ?thesis using keep [OF get(2)] by simp
  next
    case (interrupted i j')
    then show ?thesis using keep [OF interrupted(2)] by simp
  next
    case (skip i j')
    then show ?thesis using keep [OF skip(2)] by simp
  next
    case (launch i j')
    then show ?thesis using keep [OF launch(2)] by simp
  next
    case (finish i j' r)
    then show ?thesis using keep [OF finish(2)] by simp
  next
    case (die i j' e)
    then show ?thesis using keep [OF die(2)] by simp
  qed (use assms(2) in simp_all)
qed

lemma died_reach:
  assumes "pool_reach C opts runs s k t" and "Died j \<in> set (workers s)"
  shows "Died j \<in> set (workers t)"
  using assms by (induction rule: pool_reach.induct) (auto intro: died_step simp: sigint_hook_def)

lemma no_workers:
  assumes "pool_reach C opts runs (start_pool js 0) k s"
  shows "workers s = [] \<and> output_queue s = [] \<and> results s = [] \<and> jobs s = length js"
  using assms
proof induction
  case start
  show ?case by (simp add: start_pool_def)
next
  case (step n s t)
  from step.hyps(2) step.IH show ?case by cases auto
qed (simp add: sigint_hook_def)

lemma not_finished:
  assumes "pool_reach C opts runs (start_pool js n) k s" and "list_all (\<lambda>j. \<not> is_break j) js"
    and "(\<exists>j. Died j \<in> set (workers s)) \<or> n = 0 \<and> js \<noteq> []"
  shows "\<not> pool_finished s"
proof
  assume f: "pool_finished s"
  from finished_answers(3) [OF pool_ok_reach [OF assms(1,2)] f] have "n = 0" "js \<noteq> []"
    using assms(3) died_open by blast+
  with no_workers [of C opts runs js k s] assms(1) f show False by (simp add: pool_finished_def)
qed

section \<open>Properties of the pool\<close>

text \<open>
  C24. While no worker has died, the threads are never stuck: from every reachable state either everything is finished or
  some thread can go on, and the number of steps is bounded by six for each job and each worker.
\<close>

theorem pool_progress:
  assumes "pool_reach C opts runs (start_pool js n) k s" and "list_all (\<lambda>j. \<not> is_break j) js"
    and "0 < n \<or> js = []" and "programs_end runs" and "list_all (\<lambda>w. \<forall>j. w \<noteq> Died j) (workers s)"
  shows "k + weight s \<le> 6 * (length js + n) \<and> (pool_finished s \<or> (\<exists>t. pool_step C opts runs s t))"
proof -
  have "Died j \<notin> set (workers s)" for j using assms(5) by (auto simp: list_all_iff)
  with pool_not_stuck [OF pool_ok_reach [OF assms(1,2)] assms(3,4)] steps_bounded [OF assms(1)]
  show ?thesis by blast
qed

text \<open>
  A worker that dies of an exception takes its job with it, and a negative limit of the option \<open>--jobs\<close> starts no
  worker: in both cases the main thread waits forever, whatever happens next.
\<close>

theorem lost_job_hangs:
  assumes "pool_reach C opts runs (start_pool js n) k s" and "list_all (\<lambda>j. \<not> is_break j) js"
    and "(\<exists>j. Died j \<in> set (workers s)) \<or> n = 0 \<and> js \<noteq> []"
    and "pool_reach C opts runs s i t"
  shows "\<not> pool_finished t"
proof (rule not_finished [OF pool_reach_trans [OF assms(4,1)] assms(2)])
  show "(\<exists>j. Died j \<in> set (workers t)) \<or> n = 0 \<and> js \<noteq> []"
    using assms(3) died_reach [OF assms(4)] by blast
qed

text \<open>One example whose directory is missing, one worker\<close>

definition demo_waf :: waf_config where
  "demo_waf = \<lparr>NS3_BASEDIR = ''/ns3'', NS3_BUILDDIR = ''/ns3/build'', globals = config_defaults\<rparr>"

definition demo_job :: job where
  "demo_job = Job\<lparr>is_example := True, display_name := ''udp'', shell_command := ''udp''\<rparr>"

definition demo_pool :: "job list \<Rightarrow> worker \<Rightarrow> job list \<Rightarrow> job list \<Rightarrow> job list \<Rightarrow> thread_pool" where
  "demo_pool q w out_q rs tp =
     \<lparr>to_put = tp, input_queue = q, workers = [w], output_queue = out_q, thread_exit = False, results = rs, jobs = 1\<rparr>"

definition not_started :: programs where
  "not_started cmd dir p \<longleftrightarrow> p = Not_Started"

definition exits :: "int \<Rightarrow> programs" where
  "exits rc cmd dir p \<longleftrightarrow> p = Exited rc (Decoded []) (Decoded []) 1"

lemma demo_simps [simp]:
  "\<not> is_break demo_job" "\<not> is_skip demo_job" "is_example demo_job" "\<not> is_pyexample demo_job"
  by (simp_all add: demo_job_def Job_def)

lemma demo_command: "worker_command demo_waf default_options demo_job = Inr ''/ns3/build/udp''"
  by (simp add: worker_command_def job_command_def demo_waf_def demo_job_def Job_def default_options_def join_path_def)

lemma demo_launched:
  "pool_reach demo_waf default_options runs (start_pool [demo_job] 1) 4 (demo_pool [break_job] (Running demo_job) [] [] [])"
proof -
  let ?R = "pool_reach demo_waf default_options runs (start_pool [demo_job] 1)"
  let ?S = "pool_step demo_waf default_options runs"
  have a: "start_pool [demo_job] 1 = demo_pool [] Waiting [] [] [demo_job, break_job]"
    by (simp add: start_pool_def demo_pool_def)
  have "?R 0 (demo_pool [] Waiting [] [] [demo_job, break_job])" unfolding a by (rule pool_reach.start)
  moreover have "?S (demo_pool [] Waiting [] [] [demo_job, break_job]) (demo_pool [demo_job] Waiting [] [] [break_job])"
    using pool_step.put [of "demo_pool [] Waiting [] [] [demo_job, break_job]"] by (simp add: demo_pool_def)
  moreover have "?S (demo_pool [demo_job] Waiting [] [] [break_job]) (demo_pool [demo_job, break_job] Waiting [] [] [])"
    using pool_step.put [of "demo_pool [demo_job] Waiting [] [] [break_job]"] by (simp add: demo_pool_def)
  moreover have "?S (demo_pool [demo_job, break_job] Waiting [] [] []) (demo_pool [break_job] (Holding demo_job) [] [] [])"
    using pool_step.get [of 0 "demo_pool [demo_job, break_job] Waiting [] [] []"] by (simp add: demo_pool_def)
  moreover have "?S (demo_pool [break_job] (Holding demo_job) [] [] []) (demo_pool [break_job] (Running demo_job) [] [] [])"
    using pool_step.launch [of 0 "demo_pool [break_job] (Holding demo_job) [] [] []"] by (simp add: demo_pool_def)
  ultimately have "?R (Suc (Suc (Suc (Suc 0)))) (demo_pool [break_job] (Running demo_job) [] [] [])"
    by (blast intro: pool_reach.step)
  then show ?thesis by (simp add: numeral_eq_Suc)
qed

theorem pool_progress_witness:
  "4 + weight (demo_pool [break_job] (Running demo_job) [] [] []) \<le> 6 * (length [demo_job] + 1) \<and>
   (pool_finished (demo_pool [break_job] (Running demo_job) [] [] []) \<or>
    (\<exists>t. pool_step demo_waf default_options (exits 0) (demo_pool [break_job] (Running demo_job) [] [] []) t))"
  by (rule pool_progress [OF demo_launched]) (simp_all add: programs_end_def exits_def demo_pool_def)

lemma demo_died:
  "pool_reach demo_waf default_options not_started (start_pool [demo_job] 1) 5 (demo_pool [break_job] (Died demo_job) [] [] [])"
proof -
  have "job_run demo_waf default_options not_started demo_job (Inl OSError)"
    by (simp add: job_run_def demo_command not_started_def job_outcome_def)
  then have "pool_step demo_waf default_options not_started (demo_pool [break_job] (Running demo_job) [] [] [])
      (demo_pool [break_job] (Died demo_job) [] [] [])"
    using pool_step.die [of 0 "demo_pool [break_job] (Running demo_job) [] [] []" demo_job] by (simp add: demo_pool_def)
  with demo_launched have "pool_reach demo_waf default_options not_started (start_pool [demo_job] 1) (Suc 4)
      (demo_pool [break_job] (Died demo_job) [] [] [])" by (rule pool_reach.step)
  then show ?thesis by simp
qed

theorem lost_job_hangs_witness:
  "\<not> pool_finished (demo_pool [break_job] (Died demo_job) [] [] [])"
  by (rule lost_job_hangs [OF demo_died _ _ pool_reach.start]) (auto simp: demo_pool_def)

definition demo_answer :: "int \<Rightarrow> job" where
  "demo_answer rc = demo_job\<lparr>returncode := rc, elapsed_time := 1\<rparr>"

lemma demo_finished:
  shows "pool_reach demo_waf default_options (exits rc) (start_pool [demo_job] 1) 7 (demo_pool [] Ended [] [demo_answer rc] [])"
    and "pool_finished (demo_pool [] Ended [] [demo_answer rc] [])"
proof -
  let ?S = "pool_step demo_waf default_options (exits rc)"
  let ?R = "pool_reach demo_waf default_options (exits rc) (start_pool [demo_job] 1)"
  have "job_run demo_waf default_options (exits rc) demo_job (Inr (demo_answer rc))"
    by (simp add: job_run_def demo_command exits_def job_outcome_def demo_answer_def)
  then have "?S (demo_pool [break_job] (Running demo_job) [] [] []) (demo_pool [break_job] Waiting [demo_answer rc] [] [])"
    using pool_step.finish [of 0 "demo_pool [break_job] (Running demo_job) [] [] []" demo_job] by (simp add: demo_pool_def)
  moreover have "?S (demo_pool [break_job] Waiting [demo_answer rc] [] []) (demo_pool [] Ended [demo_answer rc] [] [])"
    using pool_step.get [of 0 "demo_pool [break_job] Waiting [demo_answer rc] [] []"] by (simp add: demo_pool_def)
  moreover have "?S (demo_pool [] Ended [demo_answer rc] [] []) (demo_pool [] Ended [] [demo_answer rc] [])"
    using pool_step.collect [of "demo_pool [] Ended [demo_answer rc] [] []"] by (simp add: demo_pool_def)
  ultimately have "?R (Suc (Suc (Suc 4))) (demo_pool [] Ended [] [demo_answer rc] [])"
    using demo_launched by (blast intro: pool_reach.step)
  then show "?R 7 (demo_pool [] Ended [] [demo_answer rc] [])" by simp
  show "pool_finished (demo_pool [] Ended [] [demo_answer rc] [])" by (simp add: pool_finished_def demo_pool_def joined_def)
qed

end
