(* ===== verification/TestTally.thy ===== *)
theory TestTally
  imports TestPool
begin

text \<open>
  What the main thread of \<open>test.py\<close> does with the jobs that come back: it classifies and counts them, prints a line
  for each, collects their results in one XML file and ends with a summary and the exit code.
\<close>

section \<open>Classification\<close>

datatype status = PASS | FAIL | VALGR | CRASH | SKIP

definition job_status :: "job \<Rightarrow> status" where
  "job_status j =
     (if is_skip j then SKIP else if returncode j = 0 then PASS else if returncode j = 1 then FAIL
      else if returncode j = 2 then VALGR else CRASH)"

fun status_name :: "status \<Rightarrow> string" where
  "status_name PASS = ''PASS''"
| "status_name FAIL = ''FAIL''"
| "status_name VALGR = ''VALGR''"
| "status_name CRASH = ''CRASH''"
| "status_name SKIP = ''SKIP''"

text \<open>The escape sequences of the colors, when colors are used.\<close>

definition colors_lst :: "string \<rightharpoonup> string" where
  "colors_lst =
     (let e = CHR 0x1B in
      [''BOLD'' \<mapsto> e # ''[01;1m'', ''RED'' \<mapsto> e # ''[01;31m'', ''GREEN'' \<mapsto> e # ''[32m'', ''YELLOW'' \<mapsto> e # ''[33m'',
       ''PINK'' \<mapsto> e # ''[35m'', ''BLUE'' \<mapsto> e # ''[01;34m'', ''CYAN'' \<mapsto> e # ''[36m'', ''GREY'' \<mapsto> e # ''[37m'',
       ''NORMAL'' \<mapsto> e # ''[0m'', ''cursor_on'' \<mapsto> e # ''[?25h'', ''cursor_off'' \<mapsto> e # ''[?25l''])"

definition get_color :: "bool \<Rightarrow> string \<Rightarrow> string" where
  "get_color used cl = (if used then (case colors_lst cl of None \<Rightarrow> '''' | Some s \<Rightarrow> s) else '''')"

fun status_color :: "status \<Rightarrow> string" where
  "status_color PASS = ''GREEN''"
| "status_color FAIL = ''RED''"
| "status_color VALGR = ''CYAN''"
| "status_color CRASH = ''PINK''"
| "status_color SKIP = ''GREY''"

definition status_print :: "bool \<Rightarrow> status \<Rightarrow> string" where
  "status_print used st = get_color used (status_color st) @ status_name st @ get_color used ''NORMAL''"

text \<open>\<open>"%.3f" % x\<close>: three decimals, rounded half to even.\<close>

definition fixed3 :: "double \<Rightarrow> string" where
  "fixed3 x =
     (let m = nat (rhe (\<bar>x\<bar> * 1000)); d = digits (m mod 1000)
      in (if x < 0 then ''-'' else '''') @ digits (m div 1000) @ ''.'' @ replicate (3 - length d) CHR ''0'' @ d)"

section \<open>Counting\<close>

record tally =
  passed_tests :: nat
  failed_testnames :: "string list"
  crashed_testnames :: "string list"
  valgrind_testnames :: "string list"
  skipped_testnames :: "string list"
  xml_results :: string
  printed :: "string list"

text \<open>The counters of failures, crashes, valgrind errors and skipped tests are the lengths of the lists of their names.\<close>

definition failed_tests :: "tally \<Rightarrow> nat" where "failed_tests t = length (failed_testnames t)"

definition crashed_tests :: "tally \<Rightarrow> nat" where "crashed_tests t = length (crashed_testnames t)"

definition valgrind_errors :: "tally \<Rightarrow> nat" where "valgrind_errors t = length (valgrind_testnames t)"

definition skipped_tests :: "tally \<Rightarrow> nat" where "skipped_tests t = length (skipped_testnames t)"

definition new_tally :: tally where
  "new_tally =
     \<lparr>passed_tests = 0, failed_testnames = [], crashed_testnames = [], valgrind_testnames = [], skipped_testnames = [],
      xml_results = text_line (''<?xml version='' @ dquote # ''1.0'' @ dquote # ''?>'') @ text_line ''<Results>'', printed = []\<rparr>"

definition count_job :: "job \<Rightarrow> tally \<Rightarrow> tally" where
  "count_job j t =
     (case job_status j of
        SKIP \<Rightarrow> t\<lparr>skipped_testnames := skipped_testnames t @ [display_name j @ '' ('' @ skip_reason j @ '')'']\<rparr>
      | PASS \<Rightarrow> t\<lparr>passed_tests := passed_tests t + 1\<rparr>
      | FAIL \<Rightarrow> t\<lparr>failed_testnames := failed_testnames t @ [display_name j]\<rparr>
      | VALGR \<Rightarrow> t\<lparr>valgrind_testnames := valgrind_testnames t @ [display_name j]\<rparr>
      | CRASH \<Rightarrow> t\<lparr>crashed_testnames := crashed_testnames t @ [display_name j]\<rparr>)"

definition progress_line :: "bool \<Rightarrow> test_options \<Rightarrow> nat \<Rightarrow> job \<Rightarrow> tally \<Rightarrow> string" where
  "progress_line used opts total_tests j t =
     ''['' @ digits (passed_tests t + failed_tests t + skipped_tests t + crashed_tests t) @ ''/'' @ digits total_tests @ ''] '' @
     status_print used (job_status j) @
     (if opt_duration opts \<or> opt_constrain opts = ''performance'' then '' ('' @ fixed3 (elapsed_time j) @ '')'' else '''') @
     '': '' @ (if is_example j \<or> is_pyexample j then ''Example'' else ''TestSuite'') @ '' '' @ display_name j"

text \<open>The entry of a job in the XML file: that of a suite which ran is the file it saved.\<close>

definition job_xml :: "files \<Rightarrow> job \<Rightarrow> string result" where
  "job_xml saved j =
     (if is_example j \<or> is_pyexample j then
        Inr (text_line ''<Example>'' @ text_line (''  <Name>'' @ display_name j @ ''</Name>'') @
             text_line (''  <Result>'' @ status_name (job_status j) @ ''</Result>'') @
             text_line (''  <Time real='' @ dquote # fixed3 (elapsed_time j) @ dquote # ''/>'') @ text_line ''</Example>'')
      else if is_skip j then
        Inr (text_line ''<Test>'' @ text_line (''  <Name>'' @ display_name j @ ''</Name>'') @ text_line ''  <Result>SKIP</Result>'' @
             text_line (''  <Reason>'' @ skip_reason j @ ''</Reason>'') @ text_line ''</Test>'')
      else if returncode j = 0 \<or> returncode j = 1 \<or> returncode j = 2 then
        (case saved (tmp_file_name j) of None \<Rightarrow> Inl OSError | Some s \<Rightarrow> Inr s)
      else
        Inr (text_line ''<Test>'' @ text_line (''  <Name>'' @ display_name j @ ''</Name>'') @ text_line ''  <Result>CRASH</Result>'' @
             text_line ''</Test>''))"

definition tally_job :: "bool \<Rightarrow> test_options \<Rightarrow> files \<Rightarrow> nat \<Rightarrow> job \<Rightarrow> tally \<Rightarrow> tally result" where
  "tally_job used opts saved total_tests j t =
     (if is_break j then Inr t
      else let t = count_job j t; t = t\<lparr>printed := printed t @ [progress_line used opts total_tests j t]\<rparr>
           in ebind (job_xml saved j) (\<lambda>x. Inr (t\<lparr>xml_results := xml_results t @ x\<rparr>)))"

definition tally_jobs :: "bool \<Rightarrow> test_options \<Rightarrow> files \<Rightarrow> nat \<Rightarrow> job list \<Rightarrow> tally result" where
  "tally_jobs used opts saved total_tests js = add_each (tally_job used opts saved total_tests) js new_tally"

section \<open>The summary\<close>

definition name_list :: "string \<Rightarrow> string list \<Rightarrow> string list" where
  "name_list heading names =
     (if names \<noteq> [] then [heading @ [newline] @ ''    '' @ join_with (newline # ''    '') (sort names)] else [])"

definition summary :: "nat \<Rightarrow> tally \<Rightarrow> string list" where
  "summary total_tests t =
     [digits (passed_tests t) @ '' of '' @ digits total_tests @ '' tests passed ('' @ digits (passed_tests t) @ '' passed, '' @
      digits (skipped_tests t) @ '' skipped, '' @ digits (failed_tests t) @ '' failed, '' @
      digits (crashed_tests t) @ '' crashed, '' @ digits (valgrind_errors t) @ '' valgrind errors)''] @
     name_list ''List of SKIPped tests:'' (skipped_testnames t) @ name_list ''List of FAILed tests:'' (failed_testnames t) @
     name_list ''List of CRASHed tests:'' (crashed_testnames t) @
     name_list ''List of VALGR failures:'' (valgrind_testnames t)"

definition exit_status :: "nat \<Rightarrow> tally \<Rightarrow> int" where
  "exit_status total_tests t = (if passed_tests t + skipped_tests t = total_tests then 0 else 1)"

definition finish_xml :: "tally \<Rightarrow> tally" where
  "finish_xml t = t\<lparr>xml_results := xml_results t @ text_line ''</Results>''\<rparr>"

definition disabled_note :: "string \<Rightarrow> string list" where
  "disabled_note what =
     [''***  Note: ns-3 '' @ what @ '' are currently disabled. Enable them by adding'',
      ''***  '' @ dquote # ''--enable-'' @ what @ dquote # '' to ./waf configure or modifying your .ns3rc file.'', '''']"

definition closing_notes :: "names \<Rightarrow> test_options \<Rightarrow> string list result" where
  "closing_notes N opts =
     ebind (name_value N ''ENABLE_TESTS'') (\<lambda>te. ebind (name_value N ''ENABLE_EXAMPLES'') (\<lambda>en.
     ebind (name_value N ''VALGRIND_FOUND'') (\<lambda>vf.
     Inr ((if \<not> truth te \<or> \<not> truth en then [''''] else []) @
          (if \<not> truth te then disabled_note ''tests'' else []) @
          (if \<not> truth en then disabled_note ''examples'' else []) @
          (if opt_valgrind opts \<and> \<not> truth vf
           then ['''', ''***  Note: you are trying to use valgrind, but valgrind could not be found'',
                 ''***  on your machine.  All tests and examples will crash or be skipped.'', '''']
           else [])))))"

text \<open>What a finished pool ends with: the lines of the summary and the exit code.\<close>

definition final_report :: "bool \<Rightarrow> test_options \<Rightarrow> files \<Rightarrow> nat \<Rightarrow> job list \<Rightarrow> (string list \<times> int) result" where
  "final_report used opts saved total_tests rs =
     ebind (tally_jobs used opts saved total_tests rs) (\<lambda>t. Inr (summary total_tests t, exit_status total_tests t))"

text \<open>Running the jobs one after the other, in their order.\<close>

definition run_one :: "waf_config \<Rightarrow> test_options \<Rightarrow> (string \<Rightarrow> string \<Rightarrow> proc) \<Rightarrow> job \<Rightarrow> job result" where
  "run_one C opts w j =
     (if is_skip j then Inr j
      else ebind (worker_command C opts j) (\<lambda>cmd. ebind (job_outcome (w cmd (job_cwd j))) (\<lambda>(rc, _, _, et).
             Inr (j\<lparr>returncode := rc, elapsed_time := et\<rparr>))))"

fun run_in_order :: "waf_config \<Rightarrow> test_options \<Rightarrow> (string \<Rightarrow> string \<Rightarrow> proc) \<Rightarrow> job list \<Rightarrow> job list result" where
  "run_in_order C opts w [] = Inr []"
| "run_in_order C opts w (j # js) =
     ebind (run_one C opts w j) (\<lambda>j'. ebind (run_in_order C opts w js) (\<lambda>rs. Inr (j' # rs)))"

section \<open>The count does not depend on the order\<close>

definition of_status :: "status \<Rightarrow> job \<Rightarrow> bool" where
  "of_status st j \<longleftrightarrow> \<not> is_break j \<and> job_status j = st"

definition skip_text :: "job \<Rightarrow> string" where
  "skip_text j = display_name j @ '' ('' @ skip_reason j @ '')''"

definition adds_counts :: "tally \<Rightarrow> job list \<Rightarrow> tally \<Rightarrow> bool" where
  "adds_counts t0 js t \<longleftrightarrow>
     passed_tests t = passed_tests t0 + length (filter (of_status PASS) js) \<and>
     failed_testnames t = failed_testnames t0 @ map display_name (filter (of_status FAIL) js) \<and>
     crashed_testnames t = crashed_testnames t0 @ map display_name (filter (of_status CRASH) js) \<and>
     valgrind_testnames t = valgrind_testnames t0 @ map display_name (filter (of_status VALGR) js) \<and>
     skipped_testnames t = skipped_testnames t0 @ map skip_text (filter (of_status SKIP) js)"

lemma tally_job_counts:
  assumes "tally_job used opts saved n j t0 = Inr t"
  shows "adds_counts t0 [j] t"
proof (cases "is_break j")
  case True
  with assms show ?thesis by (simp add: tally_job_def adds_counts_def of_status_def)
next
  case False
  with assms show ?thesis
    by (cases "job_status j")
      (auto simp: tally_job_def adds_counts_def of_status_def count_job_def skip_text_def Let_def ebind_Inr_iff)
qed

lemma tally_counts: "add_each (tally_job used opts saved n) js t0 = Inr t \<Longrightarrow> adds_counts t0 js t"
proof (induction js arbitrary: t0)
  case Nil
  then show ?case by (simp add: adds_counts_def)
next
  case (Cons j js)
  from Cons.prems obtain t1 where t1: "tally_job used opts saved n j t0 = Inr t1"
    and t: "add_each (tally_job used opts saved n) js t1 = Inr t"
    by (auto simp: ebind_Inr_iff)
  from tally_job_counts [OF t1] Cons.IH [OF t] show ?case by (auto simp: adds_counts_def)
qed

lemma tally_jobs_counts: "tally_jobs used opts saved n js = Inr t \<Longrightarrow> adds_counts new_tally js t"
  unfolding tally_jobs_def by (rule tally_counts)

lemma tally_jobs_ok:
  assumes "\<forall>j \<in> set js. \<exists>x. job_xml saved j = Inr x"
  shows "\<exists>t. tally_jobs used opts saved n js = Inr t"
proof -
  have "\<exists>t. add_each (tally_job used opts saved n) js t0 = Inr t" for t0
    using assms
  proof (induction js arbitrary: t0)
    case (Cons j js)
    then obtain x where "job_xml saved j = Inr x" by auto
    then have "\<exists>t1. tally_job used opts saved n j t0 = Inr t1" by (simp add: tally_job_def Let_def)
    with Cons show ?case by fastforce
  qed simp
  then show ?thesis by (simp add: tally_jobs_def)
qed

lemma name_list_mset:
  assumes "mset xs = mset ys"
  shows "name_list h xs = name_list h ys"
proof -
  have "sort xs = sort ys" using assms by (metis sorted_list_of_multiset_mset)
  moreover have "xs = [] \<longleftrightarrow> ys = []" using assms by auto
  ultimately show ?thesis by (simp add: name_list_def)
qed

lemma summary_perm:
  assumes "adds_counts new_tally js t" and "adds_counts new_tally ks u" and "mset js = mset ks"
  shows "summary n t = summary n u \<and> exit_status n t = exit_status n u"
proof -
  have f: "mset (filter P js) = mset (filter P ks)" for P using assms(3) by simp
  have m: "mset (map g (filter P js)) = mset (map g (filter P ks))" for P and g :: "job \<Rightarrow> string"
    using f by simp
  have l: "length (filter P js) = length (filter P ks)" for P using f [of P] by (rule mset_eq_length)
  show ?thesis
    using assms(1,2) l
    by (simp add: adds_counts_def new_tally_def summary_def exit_status_def failed_tests_def crashed_tests_def
        valgrind_errors_def skipped_tests_def name_list_mset [OF m])
qed

section \<open>The answers of a finished pool\<close>

lemma finished_results:
  assumes "pool_reach C opts runs (start_pool js n) k s" and "list_all (\<lambda>j. \<not> is_break j) js" and "pool_finished s"
  obtains rs where "list_all2 (answers C opts runs (thread_exit s)) js rs" and "mset rs = mset (results s)"
proof -
  from finished_answers(1) [OF pool_ok_reach [OF assms(1,2)] assms(3)] obtain xs ys
    where "mset xs = mset js" "mset ys = mset (results s)" "list_all2 (answers C opts runs (thread_exit s)) xs ys"
    by (auto simp: rel_mset_def)
  with list_all2_reorder_left_invariance [of "answers C opts runs (thread_exit s)" xs ys js] that
  show ?thesis by metis
qed

text \<open>Every program behaves in one way.\<close>

definition runs_as :: "(string \<Rightarrow> string \<Rightarrow> proc) \<Rightarrow> programs \<Rightarrow> bool" where
  "runs_as w runs \<longleftrightarrow> (\<forall>cmd dir p. runs cmd dir p \<longleftrightarrow> p = w cmd dir)"

lemma answers_run_one:
  assumes "runs_as w runs"
  shows "answers C opts runs False = (\<lambda>j r. run_one C opts w j = Inr r)"
proof (intro ext)
  show "answers C opts runs False j r \<longleftrightarrow> run_one C opts w j = Inr r" for j r
    using assms
    by (cases "worker_command C opts j") (auto simp: answers_def run_one_def job_run_def runs_as_def)
qed

lemma job_run_job: "job_run C opts runs j (Inr r) \<Longrightarrow> \<exists>rc et. r = j\<lparr>returncode := rc, elapsed_time := et\<rparr>"
proof (cases "worker_command C opts j")
  case (Inr cmd)
  assume "job_run C opts runs j (Inr r)"
  with Inr obtain p where p: "Inr r = ebind (job_outcome p) (\<lambda>(rc, _, _, et). Inr (j\<lparr>returncode := rc, elapsed_time := et\<rparr>))"
    by (auto simp: job_run_def)
  then show ?thesis by (cases "job_outcome p") (auto split: prod.splits)
qed (simp add: job_run_def)

lemma run_in_order_iff: "run_in_order C opts w js = Inr rs \<longleftrightarrow> list_all2 (\<lambda>j r. run_one C opts w j = Inr r) js rs"
proof (induction js arbitrary: rs)
  case Nil
  show ?case by auto
next
  case (Cons j js)
  show ?case by (cases rs) (auto simp: ebind_Inr_iff Cons.IH)
qed

text \<open>What a suite saved is there when its job came back without crashing.\<close>

definition results_saved :: "files \<Rightarrow> job list \<Rightarrow> bool" where
  "results_saved saved js \<longleftrightarrow> list_all (\<lambda>j. is_example j \<or> is_pyexample j \<or> saved (tmp_file_name j) \<noteq> None) js"

lemma answer_saved:
  assumes "answers C opts runs e j r" and "is_example j \<or> is_pyexample j \<or> saved (tmp_file_name j) \<noteq> None"
  shows "\<exists>x. job_xml saved r = Inr x"
proof -
  have "is_example r = is_example j \<and> is_pyexample r = is_pyexample j \<and> tmp_file_name r = tmp_file_name j"
    using assms(1) unfolding answers_def by (auto dest: job_run_job)
  with assms(2) show ?thesis by (auto simp: job_xml_def)
qed

lemma results_ok:
  assumes "list_all2 (answers C opts runs e) js rs" and "results_saved saved js"
  shows "\<forall>r \<in> set rs. \<exists>x. job_xml saved r = Inr x"
  using assms by (induction rule: list_all2_induct) (auto simp: results_saved_def dest: answer_saved)

text \<open>
  C25. The summary and the exit code of an uninterrupted run do not depend on how the threads were scheduled or on the
  number of workers: they are those of running the jobs one after the other.
\<close>

theorem schedule_irrelevant:
  assumes "pool_reach C opts runs (start_pool js n) k s" and "list_all (\<lambda>j. \<not> is_break j) js"
    and "pool_finished s" and "\<not> thread_exit s" and "runs_as w runs" and "results_saved saved js"
  shows "\<exists>rs report. run_in_order C opts w js = Inr rs \<and>
    final_report used opts saved (length js) (results s) = Inr report \<and>
    final_report used opts saved (length js) rs = Inr report"
proof -
  obtain rs where rs: "list_all2 (answers C opts runs (thread_exit s)) js rs" and m: "mset rs = mset (results s)"
    using finished_results [OF assms(1-3)] .
  have ok: "\<forall>r \<in> set rs. \<exists>x. job_xml saved r = Inr x" by (rule results_ok [OF rs assms(6)])
  have "set rs = set (results s)" using m by (rule mset_eq_setD)
  with ok have ok': "\<forall>r \<in> set (results s). \<exists>x. job_xml saved r = Inr x" by simp
  obtain t where t: "tally_jobs used opts saved (length js) rs = Inr t" using tally_jobs_ok [OF ok] by blast
  obtain u where u: "tally_jobs used opts saved (length js) (results s) = Inr u" using tally_jobs_ok [OF ok'] by blast
  have "run_in_order C opts w js = Inr rs"
    using rs assms(4) by (simp add: run_in_order_iff answers_run_one [OF assms(5)])
  with t u summary_perm [OF tally_jobs_counts [OF t] tally_jobs_counts [OF u] m] show ?thesis
    by (simp add: final_report_def)
qed

definition demo_runs :: "string \<Rightarrow> string \<Rightarrow> proc" where
  "demo_runs cmd dir = Exited 1 (Decoded []) (Decoded []) 1"

theorem schedule_irrelevant_witness:
  "\<exists>rs report. run_in_order demo_waf default_options demo_runs [demo_job] = Inr rs \<and>
    final_report True default_options Map.empty (length [demo_job]) (results (demo_pool [] Ended [] [demo_answer 1] [])) = Inr report \<and>
    final_report True default_options Map.empty (length [demo_job]) rs = Inr report"
  by (rule schedule_irrelevant [OF demo_finished(1) _ demo_finished(2)])
    (simp_all add: demo_pool_def runs_as_def exits_def demo_runs_def results_saved_def)

text \<open>
  C26. The exit code of a finished run, interrupted or not, is 0 exactly when every job came back, and each was skipped or
  ended with status 0; every job that came back is in one of the five counts.
\<close>

theorem exit_status_exact:
  assumes "pool_reach C opts runs (start_pool js n) k s" and "list_all (\<lambda>j. \<not> is_break j) js"
    and "pool_finished s" and "tally_jobs used opts saved (length js) (results s) = Inr t"
  shows "exit_status (length js) t = (if list_all (\<lambda>r. \<not> is_break r \<and> (is_skip r \<or> returncode r = 0)) (results s) then 0 else 1) \<and>
    passed_tests t + failed_tests t + crashed_tests t + valgrind_errors t + skipped_tests t +
      length (filter is_break (results s)) = length js"
proof -
  have len: "length (results s) = length js"
    using assms(3) pool_ok_reach [OF assms(1,2)] by (simp add: pool_finished_def pool_ok_def)
  have part: "length (filter (of_status PASS) rs) + length (filter (of_status FAIL) rs) + length (filter (of_status CRASH) rs) +
      length (filter (of_status VALGR) rs) + length (filter (of_status SKIP) rs) + length (filter is_break rs) = length rs" for rs
  proof (induction rs)
    case (Cons r rs)
    then show ?case by (cases "job_status r") (simp_all add: of_status_def)
  qed simp
  have good: "length (filter (of_status PASS) rs) + length (filter (of_status SKIP) rs) = length rs \<longleftrightarrow>
      list_all (\<lambda>r. \<not> is_break r \<and> (is_skip r \<or> returncode r = 0)) rs" for rs
  proof (induction rs)
    case (Cons r rs)
    have "length (filter (of_status PASS) rs) + length (filter (of_status SKIP) rs) \<le> length rs"
      using part [of rs] by linarith
    moreover have "of_status PASS r \<or> of_status SKIP r \<longleftrightarrow> \<not> is_break r \<and> (is_skip r \<or> returncode r = 0)"
      by (simp add: of_status_def job_status_def)
    moreover have "\<not> (of_status PASS r \<and> of_status SKIP r)" by (simp add: of_status_def)
    ultimately show ?case using Cons by (cases "of_status PASS r"; cases "of_status SKIP r") auto
  qed simp
  from tally_jobs_counts [OF assms(4)] part [of "results s"] good [of "results s"] len show ?thesis
    by (simp add: adds_counts_def new_tally_def exit_status_def failed_tests_def crashed_tests_def valgrind_errors_def skipped_tests_def)
qed

theorem exit_status_exact_witness:
  "\<exists>t. tally_jobs True default_options Map.empty (length [demo_job]) [demo_answer 1] = Inr t \<and>
    exit_status (length [demo_job]) t = 1 \<and>
    passed_tests t + failed_tests t + crashed_tests t + valgrind_errors t + skipped_tests t + 0 = length [demo_job]"
proof -
  have x: "\<forall>j \<in> set [demo_answer 1]. \<exists>x. job_xml Map.empty j = Inr x"
    by (simp add: job_xml_def demo_answer_def)
  obtain t where t: "tally_jobs True default_options Map.empty (length [demo_job]) [demo_answer 1] = Inr t"
    using tally_jobs_ok [OF x] by blast
  have r: "results (demo_pool [] Ended [] [demo_answer 1] []) = [demo_answer 1]" by (simp add: demo_pool_def)
  have "tally_jobs True default_options Map.empty (length [demo_job]) (results (demo_pool [] Ended [] [demo_answer 1] [])) = Inr t"
    using t r by simp
  from exit_status_exact [OF demo_finished(1) _ demo_finished(2) this] t show ?thesis
    unfolding r by (auto simp: demo_answer_def)
qed

text \<open>The jobs that \<open>plan_tests\<close> selects, on as many workers as it starts, never get stuck while no worker dies.\<close>

lemma planned_run_goes_on:
  assumes "plan_tests W opts d = Inr (Jobs js)" and "0 < worker_count W opts" and "programs_end runs"
    and "pool_reach C opts runs (start_pool js (worker_count W opts)) k s" and "\<And>j. Died j \<notin> set (workers s)"
  shows "pool_finished s \<or> (\<exists>t. pool_step C opts runs s t)"
  by (rule pool_not_stuck [OF pool_ok_reach [OF assms(4) plan_no_breaks [OF assms(1)]] _ assms(3,5)]) (simp add: assms(2))

text \<open>
  The progress line counts the tests that passed, failed, crashed or were skipped, but not the valgrind errors: after
  one, the counter repeats itself and never reaches the number of tests.
\<close>

lemma counter_forgets_valgrind:
  assumes "job_status j = VALGR"
  shows "passed_tests (count_job j t) + failed_tests (count_job j t) + skipped_tests (count_job j t) + crashed_tests (count_job j t) =
    passed_tests t + failed_tests t + skipped_tests t + crashed_tests t"
  using assms by (simp add: count_job_def failed_tests_def skipped_tests_def crashed_tests_def)

end
