(* ===== verification/TestReport.thy ===== *)
theory TestReport
  imports TestTally
begin

text \<open>
  The reports of \<open>test.py\<close>: the XML file of the results, as the tree that ElementTree reads, is translated to text
  (\<open>translate_to_text\<close>) or to HTML (\<open>translate_to_html\<close>). A report is the text written to its file.
\<close>

section \<open>The tree of the results\<close>

datatype elem =
  Elem (elem_tag: string) (elem_attrs: "(string \<times> string) list") (elem_text: "string option") (elem_children: "elem list")

definition findall :: "string \<Rightarrow> elem \<Rightarrow> elem list" where
  "findall t e = filter (\<lambda>c. elem_tag c = t) (elem_children e)"

definition find_elem :: "string \<Rightarrow> elem \<Rightarrow> elem option" where
  "find_elem t e = (case findall t e of [] \<Rightarrow> None | c # _ \<Rightarrow> Some c)"

text \<open>\<open>e.find(t).text\<close>; an element without text has the text \<open>None\<close>, which prints as such.\<close>

definition text_of :: "string \<Rightarrow> elem \<Rightarrow> string option result" where
  "text_of t e = (case find_elem t e of None \<Rightarrow> Inl AttributeError | Some c \<Rightarrow> Inr (elem_text c))"

definition shown :: "string option \<Rightarrow> string" where
  "shown t = (case t of None \<Rightarrow> ''None'' | Some s \<Rightarrow> s)"

definition time_of :: "elem \<Rightarrow> string option" where
  "time_of e = (case find_elem ''Time'' e of None \<Rightarrow> Some '''' | Some c \<Rightarrow> map_of (elem_attrs c) ''real'')"

definition read_test :: "elem \<Rightarrow> (string option \<times> string option \<times> string option \<times> string option) result" where
  "read_test e =
     ebind (text_of ''Result'' e) (\<lambda>r. ebind (text_of ''Name'' e) (\<lambda>n.
     Inr (r, n, (case find_elem ''Reason'' e of None \<Rightarrow> Some '''' | Some c \<Rightarrow> elem_text c), time_of e)))"

section \<open>Text\<close>

fun concat_results :: "('a \<Rightarrow> string result) \<Rightarrow> 'a list \<Rightarrow> string result" where
  "concat_results f [] = Inr ''''"
| "concat_results f (x # xs) = ebind (f x) (\<lambda>a. ebind (concat_results f xs) (\<lambda>b. Inr (a @ b)))"

definition quoted :: "string \<Rightarrow> string" where
  "quoted s = dquote # s @ [dquote]"

definition test_header :: "string \<Rightarrow> elem \<Rightarrow> string result" where
  "test_header test_type e =
     ebind (read_test e) (\<lambda>(result, name, reason, time_real).
     let reason = (case reason of None \<Rightarrow> ''None'' | Some r \<Rightarrow> if r \<noteq> '''' then '' ('' @ r @ '')'' else '''')
     in Inr (text_line (shown result @ '': Test '' @ test_type @ '' '' @ quoted (shown name) @ '' ('' @ shown time_real @ '')'' @ reason)))"

definition details_text :: "elem \<Rightarrow> string result" where
  "details_text d =
     ebind (concat_results (\<lambda>(label, t). ebind (text_of t d) (\<lambda>x. Inr (text_line (label @ shown x))))
       [(''      Message:   '', ''Message''), (''      Condition: '', ''Condition''), (''      Actual:    '', ''Actual''),
        (''      Limit:     '', ''Limit''), (''      File:      '', ''File''), (''      Line:      '', ''Line'')])
       (\<lambda>s. Inr (text_line ''    Details:'' @ s))"

fun node_to_text :: "string \<Rightarrow> elem \<Rightarrow> string result"
  and nodes_to_text :: "elem list \<Rightarrow> string result" where
  "node_to_text test_type (Elem tag attrs t cs) =
     ebind (test_header test_type (Elem tag attrs t cs)) (\<lambda>h.
     ebind (concat_results details_text (findall ''FailureDetails'' (Elem tag attrs t cs))) (\<lambda>d.
     ebind (nodes_to_text cs) (\<lambda>c. Inr (h @ d @ c))))"
| "nodes_to_text [] = Inr ''''"
| "nodes_to_text (c # cs) =
     (if elem_tag c = ''Test''
      then ebind (node_to_text ''Case'' c) (\<lambda>a. ebind (nodes_to_text cs) (\<lambda>b. Inr (a @ b)))
      else nodes_to_text cs)"

definition example_text :: "elem \<Rightarrow> string result" where
  "example_text e =
     ebind (text_of ''Result'' e) (\<lambda>r. ebind (text_of ''Name'' e) (\<lambda>n.
     Inr (text_line (shown r @ '': Example '' @ quoted (shown n) @ '' ('' @ shown (time_of e) @ '')''))))"

definition translate_to_text :: "elem \<Rightarrow> string result" where
  "translate_to_text et =
     ebind (concat_results (node_to_text ''Suite'') (findall ''Test'' et)) (\<lambda>a.
     ebind (concat_results example_text (findall ''Example'' et)) (\<lambda>b. Inr (a @ b)))"

section \<open>HTML\<close>

definition styled :: "string \<Rightarrow> string \<Rightarrow> string" where
  "styled tag colour = ''<'' @ tag @ '' style='' @ quoted (''color:'' @ colour) @ ''>''"

definition cell :: "string \<Rightarrow> string" where
  "cell s = text_line (''<td>'' @ s @ ''</td>'')"

definition suite_heading :: "string option \<times> string option \<times> string option \<times> string option \<Rightarrow> string" where
  "suite_heading r =
     (case r of (result, name, reason, time) \<Rightarrow>
      if result = Some ''PASS'' then
        text_line (styled ''h3'' ''green'' @ shown result @ '': '' @ shown name @ '' ('' @ shown time @ '')</h3>'')
      else if result = Some ''SKIP'' then
        text_line (styled ''h3'' ''#ff6600'' @ shown result @ '': '' @ shown name @ '' ('' @ shown time @ '') ('' @ shown reason @ '')</h3>'')
      else text_line (styled ''h3'' ''red'' @ shown result @ '': '' @ shown name @ '' ('' @ shown time @ '')</h3>''))"

text \<open>The rows of the failures of a test case; the first one shows the case. The row is closed by the end tag of a cell.\<close>

definition details_cell :: "elem \<Rightarrow> string result" where
  "details_cell d =
     ebind (concat_results (\<lambda>(label, t, sep). ebind (text_of t d) (\<lambda>x. Inr (''<b>'' @ label @ '': </b>'' @ shown x @ sep)))
       [(''Message'', ''Message'', '', ''), (''Condition'', ''Condition'', '', ''), (''Actual'', ''Actual'', '', ''),
        (''Limit'', ''Limit'', '', ''), (''File'', ''File'', '', ''), (''Line'', ''Line'', '''')])
       (\<lambda>s. Inr (''<td>'' @ s @ text_line ''</td>''))"

fun failure_rows :: "string \<Rightarrow> elem list \<Rightarrow> string result" where
  "failure_rows cells [] = Inr ''''"
| "failure_rows cells (d # ds) =
     ebind (details_cell d) (\<lambda>c. ebind (failure_rows (cell '''' @ cell '''' @ cell '''') ds) (\<lambda>r.
     Inr (text_line ''<tr>'' @ cells @ c @ text_line ''</td>'' @ r)))"

definition case_rows :: "elem \<Rightarrow> string result" where
  "case_rows c =
     ebind (read_test c) (\<lambda>(result, name, reason, time).
     if result = Some ''FAIL'' then
       failure_rows (text_line (styled ''td'' ''red'' @ shown result @ ''</td>'') @ cell (shown name) @ cell (shown time))
         (findall ''FailureDetails'' c)
     else
       Inr (text_line ''<tr>'' @ text_line (styled ''td'' ''green'' @ shown result @ ''</td>'') @ cell (shown name) @
            cell (shown time) @ cell (shown reason) @ text_line ''</tr>''))"

definition border_table :: string where
  "border_table = text_line (''<table border='' @ quoted ''1'' @ ''>'')"

definition suite_html :: "elem \<Rightarrow> string result" where
  "suite_html e =
     ebind (read_test e) (\<lambda>r. case r of (result, name, reason, time) \<Rightarrow>
     let top = suite_heading r @ border_table @ text_line ''<th> Result </th>'' in
     if result \<in> {Some ''CRASH'', Some ''SKIP'', Some ''VALGR''} then
       Inr (top @ text_line ''<tr>'' @
            text_line (styled ''td'' (if result = Some ''SKIP'' then ''#ff6600'' else ''red'') @ shown result @ ''</td>'') @
            text_line ''</tr>'' @ text_line ''</table>'')
     else
       ebind (concat_results case_rows (findall ''Test'' e)) (\<lambda>rows.
       Inr (top @ text_line ''<th>Test Case Name</th>'' @ text_line ''<th> Time </th>'' @
            (if result = Some ''FAIL'' then text_line ''<th>Failure Details</th>'' else '''') @ rows @ text_line ''</table>'')))"

definition example_html :: "elem \<Rightarrow> string result" where
  "example_html e =
     ebind (read_test e) (\<lambda>(result, name, reason, time).
     Inr (text_line ''<tr>'' @
          (if result = Some ''PASS'' then text_line (styled ''td'' ''green'' @ shown result @ ''</td>'')
           else if result = Some ''SKIP'' then text_line (styled ''td'' ''#ff6600'' @ shown result @ ''</fd>'')
           else text_line (styled ''td'' ''red'' @ shown result @ ''</td>'')) @
          cell (shown name) @ cell (shown time) @ cell (shown reason) @ text_line ''</tr>''))"

definition translate_to_html :: "elem \<Rightarrow> string result" where
  "translate_to_html et =
     ebind (concat_results suite_html (findall ''Test'' et)) (\<lambda>suites.
     ebind (concat_results example_html (findall ''Example'' et)) (\<lambda>examples.
     Inr (text_line ''<html>'' @ text_line ''<body>'' @ text_line ''<center><h1>ns-3 Test Results</h1></center>'' @
          text_line ''<h2>Test Suites</h2>'' @ suites @ text_line ''<h2>Examples</h2>'' @ border_table @
          text_line ''<th> Result </th>'' @ text_line ''<th>Example Name</th>'' @ text_line ''<th>Elapsed Time</th>'' @
          text_line ''<th>Details</th>'' @ examples @ text_line ''</table>'' @ text_line ''</body>'' @ text_line ''</html>'')))"

section \<open>The HTML report is well formed\<close>

text \<open>
  A reader of tags: outside of a tag, or inside one with the characters read so far, and the stack of the open
  elements. A closing tag must close the innermost element.
\<close>

datatype mode = Outside | Inside string

definition end_tag :: "string \<Rightarrow> string list \<Rightarrow> (mode \<times> string list) option" where
  "end_tag t st =
     (if take 1 t = ''/'' then (case st of [] \<Rightarrow> None | x # xs \<Rightarrow> if x = drop 1 t then Some (Outside, xs) else None)
      else Some (Outside, takeWhile (\<lambda>c. c \<noteq> CHR '' '') t # st))"

fun read_char :: "(mode \<times> string list) option \<Rightarrow> char \<Rightarrow> (mode \<times> string list) option" where
  "read_char None c = None"
| "read_char (Some (Outside, st)) c = (if c = CHR ''<'' then Some (Inside [], st) else Some (Outside, st))"
| "read_char (Some (Inside t, st)) c = (if c = CHR ''>'' then end_tag t st else Some (Inside (t @ [c]), st))"

definition read_tags :: "string \<Rightarrow> (mode \<times> string list) option \<Rightarrow> (mode \<times> string list) option" where
  "read_tags s r = foldl read_char r s"

definition balanced :: "string \<Rightarrow> bool" where
  "balanced s \<longleftrightarrow> read_tags s (Some (Outside, [])) = Some (Outside, [])"

lemma read_tags_simps [simp]:
  "read_tags [] r = r" "read_tags (c # s) r = read_tags s (read_char r c)"
  "read_tags (a @ b) r = read_tags b (read_tags a r)"
  by (simp_all add: read_tags_def)

text \<open>A text that leaves the open elements as they are.\<close>

definition whole :: "string \<Rightarrow> bool" where
  "whole s \<longleftrightarrow> (\<forall>st. read_tags s (Some (Outside, st)) = Some (Outside, st))"


lemma wholeD [simp]: "whole s \<Longrightarrow> read_tags s (Some (Outside, st)) = Some (Outside, st)"
  by (simp add: whole_def)

lemma whole_append: "whole a \<Longrightarrow> whole b \<Longrightarrow> whole (a @ b)"
  by (simp add: whole_def)

lemma whole_text: "CHR ''<'' \<notin> set s \<Longrightarrow> whole s"
  by (induction s) (auto simp: whole_def)

lemma read_line: "read_tags (text_line s) r = read_char (read_tags s r) newline"
  by (simp add: text_line_def)

lemma newline_neq [simp]: "newline \<noteq> CHR ''<''" "newline \<noteq> CHR ''>''"
  by (simp_all add: newline_def)

lemma whole_line: "whole s \<Longrightarrow> whole (text_line s)"
  by (simp add: whole_def read_line)

lemma read_styled [simp]:
  assumes "tag \<in> {''h3'', ''td''}" and "colour \<in> {''green'', ''red'', ''#ff6600''}"
  shows "read_tags (styled tag colour) (Some (Outside, st)) = Some (Outside, tag # st)"
  using assms by (auto simp: styled_def quoted_def dquote_def end_tag_def)

lemma whole_cell: "whole s \<Longrightarrow> whole (cell s)"
  by (simp add: whole_def cell_def read_line end_tag_def)

lemma whole_styled:
  assumes "tag \<in> {''h3'', ''td''}" and "colour \<in> {''green'', ''red'', ''#ff6600''}" and "whole s"
  shows "whole (styled tag colour @ s @ ''</'' @ tag @ ''>'')"
  using assms by (auto simp: whole_def end_tag_def)

lemma whole_status_cell:
  assumes "whole s" and "colour \<in> {''green'', ''red'', ''#ff6600''}"
  shows "whole (text_line (styled ''td'' colour @ s @ ''</td>''))"
  using whole_styled [of "''td''" colour s] assms by (intro whole_line) simp

lemma whole_row: "whole s \<Longrightarrow> whole (text_line ''<tr>'' @ s @ text_line ''</tr>'')"
  by (simp add: whole_def read_line end_tag_def)

lemma whole_table: "whole s \<Longrightarrow> whole (border_table @ s @ text_line ''</table>'')"
  by (simp add: whole_def read_line end_tag_def border_table_def quoted_def dquote_def)

lemma whole_headers:
  "whole (text_line ''<th> Result </th>'')" "whole (text_line ''<th>Test Case Name</th>'')" "whole (text_line ''<th> Time </th>'')"
  "whole (text_line ''<th>Failure Details</th>'')" "whole (text_line ''<th>Example Name</th>'')"
  "whole (text_line ''<th>Elapsed Time</th>'')" "whole (text_line ''<th>Details</th>'')"
  "whole (text_line ''<h2>Test Suites</h2>'')" "whole (text_line ''<h2>Examples</h2>'')"
  "whole (text_line ''<center><h1>ns-3 Test Results</h1></center>'')"
  by (simp_all add: whole_def read_line end_tag_def)

lemma whole_concat:
  assumes "concat_results f xs = Inr s" and "\<And>x y. x \<in> set xs \<Longrightarrow> f x = Inr y \<Longrightarrow> whole y"
  shows "whole s"
  using assms
proof (induction xs arbitrary: s)
  case Nil
  then show ?case by (simp add: whole_def)
next
  case (Cons x xs)
  from Cons.prems(1) obtain a b where "f x = Inr a" "concat_results f xs = Inr b" "s = a @ b"
    by (auto simp: ebind_Inr_iff)
  moreover have "whole b" by (rule Cons.IH) (use \<open>concat_results f xs = Inr b\<close> Cons.prems(2) in auto)
  ultimately show ?case using Cons.prems(2) [of x a] by (simp add: whole_append)
qed

text \<open>The names, reasons and times of a tree are written as they are; they must not look like tags.\<close>

fun no_tags :: "elem \<Rightarrow> bool" where
  "no_tags (Elem tag attrs t cs) \<longleftrightarrow>
     CHR ''<'' \<notin> set (shown t) \<and> list_all (\<lambda>(_, v). CHR ''<'' \<notin> set v) attrs \<and> list_all no_tags cs"

lemma no_tags_children: "no_tags e \<Longrightarrow> c \<in> set (findall t e) \<Longrightarrow> no_tags c"
  by (cases e) (auto simp: findall_def list_all_iff)

lemma no_tags_find: "no_tags e \<Longrightarrow> find_elem t e = Some c \<Longrightarrow> no_tags c"
  using no_tags_children [of e c t] by (auto simp: find_elem_def split: list.splits)

lemma no_tags_text: "no_tags e \<Longrightarrow> CHR ''<'' \<notin> set (shown (elem_text e))"
  by (cases e) simp

lemma whole_read_test:
  assumes "no_tags e" and "read_test e = Inr (result, name, reason, time)"
  shows "whole (shown result)" "whole (shown name)" "whole (shown reason)" "whole (shown time)"
proof -
  have tx: "whole (shown x)" if "text_of t e = Inr x" for t x
    using that no_tags_text no_tags_find [OF assms(1)]
    by (auto simp: text_of_def intro!: whole_text split: option.splits)
  show "whole (shown result)" "whole (shown name)"
    using assms(2) tx by (auto simp: read_test_def ebind_Inr_iff)
  have empty: "whole (shown (Some ''''))" "whole (shown None)"
    by (simp_all add: shown_def whole_text)
  show "whole (shown reason)"
    using assms(2) no_tags_text no_tags_find [OF assms(1)] empty
    by (auto simp: read_test_def ebind_Inr_iff intro!: whole_text split: option.splits)
  have "CHR ''<'' \<notin> set v" if "find_elem ''Time'' e = Some c" "map_of (elem_attrs c) k = Some v" for c k v
    using no_tags_find [OF assms(1) that(1)] map_of_SomeD [OF that(2)] by (cases c) (auto simp: list_all_iff)
  then have "whole (shown (time_of e))"
    using empty by (auto simp: time_of_def shown_def intro!: whole_text split: option.splits)
  then show "whole (shown time)" using assms(2) by (auto simp: read_test_def ebind_Inr_iff)
qed

text \<open>
  What the report closes wrongly: a row of failure details ends with the end tag of a cell, and the cell of a skipped
  example with an element that does not exist.
\<close>

definition details_shown :: "elem \<Rightarrow> bool" where
  "details_shown suite \<longleftrightarrow>
     list_ex (\<lambda>c. text_of ''Result'' c = Inr (Some ''FAIL'') \<and> findall ''FailureDetails'' c \<noteq> []) (findall ''Test'' suite)"

definition skipped_example :: "elem \<Rightarrow> bool" where
  "skipped_example e \<longleftrightarrow> text_of ''Result'' e = Inr (Some ''SKIP'')"

lemma read_test_result: "read_test e = Inr (result, name, reason, time) \<Longrightarrow> text_of ''Result'' e = Inr result"
  by (auto simp: read_test_def ebind_Inr_iff)

lemma whole_case_rows:
  assumes "no_tags c" and "case_rows c = Inr s"
    and "text_of ''Result'' c = Inr (Some ''FAIL'') \<Longrightarrow> findall ''FailureDetails'' c = []"
  shows "whole s"
proof -
  obtain result name reason time where r: "read_test c = Inr (result, name, reason, time)"
    using assms(2) by (auto simp: case_rows_def ebind_Inr_iff)
  note w = whole_read_test [OF assms(1) r]
  show ?thesis
  proof (cases "result = Some ''FAIL''")
    case True
    then have "findall ''FailureDetails'' c = []" using assms(3) read_test_result [OF r] by simp
    with True r assms(2) show ?thesis by (simp add: case_rows_def whole_text)
  next
    case False
    have "whole (text_line (styled ''td'' ''green'' @ shown result @ ''</td>'') @ cell (shown name) @ cell (shown time) @
        cell (shown reason))"
      by (rule whole_append [OF whole_status_cell]) (auto intro!: whole_append whole_cell w)
    from whole_row [OF this] False r assms(2) show ?thesis by (simp add: case_rows_def)
  qed
qed

lemma whole_heading:
  assumes "whole (shown result)" "whole (shown name)" "whole (shown reason)" "whole (shown time)"
  shows "whole (suite_heading (result, name, reason, time))"
proof -
  have sep: "whole '': ''" "whole '' (''" "whole '')''" "whole '') (''" by (simp_all add: whole_text)
  have *: "whole (text_line (styled ''h3'' col @ s @ ''</h3>''))" if "whole s" "col \<in> {''green'', ''red'', ''#ff6600''}" for col s
    using whole_line [OF whole_styled [of "''h3''" col s]] that by simp
  have a: "whole (shown result @ '': '' @ shown name @ '' ('' @ shown time @ '')'')"
    and b: "whole (shown result @ '': '' @ shown name @ '' ('' @ shown time @ '') ('' @ shown reason @ '')'')"
    by (intro whole_append assms sep)+
  from * [OF a, of "''green''"] * [OF a, of "''red''"] * [OF b, of "''#ff6600''"] show ?thesis
    by (auto simp: suite_heading_def)
qed

lemma whole_suite:
  assumes "no_tags e" and "suite_html e = Inr s" and "\<not> details_shown e"
  shows "whole s"
proof -
  obtain result name reason time where r: "read_test e = Inr (result, name, reason, time)"
    using assms(2) by (auto simp: suite_html_def ebind_Inr_iff)
  note w = whole_read_test [OF assms(1) r]
  note h = whole_heading [OF w(1) w(2) w(3) w(4)]
  show ?thesis
  proof (cases "result \<in> {Some ''CRASH'', Some ''SKIP'', Some ''VALGR''}")
    case True
    define col where "col = (if result = Some ''SKIP'' then ''#ff6600'' else ''red'')"
    have "whole (text_line (styled ''td'' col @ shown result @ ''</td>''))"
      by (rule whole_status_cell) (simp_all add: w col_def)
    from whole_table [OF whole_append [OF whole_headers(1) whole_row [OF this]]] h True r assms(2) show ?thesis
      by (auto simp: suite_html_def Let_def col_def intro: whole_append)
  next
    case False
    then obtain rows where rows: "concat_results case_rows (findall ''Test'' e) = Inr rows"
      and s: "s = suite_heading (result, name, reason, time) @ (border_table @ (text_line ''<th> Result </th>'' @
        text_line ''<th>Test Case Name</th>'' @ text_line ''<th> Time </th>'' @
        (if result = Some ''FAIL'' then text_line ''<th>Failure Details</th>'' else '''') @ rows) @ text_line ''</table>'')"
      using assms(2) r by (auto simp: suite_html_def Let_def ebind_Inr_iff)
    have "whole rows"
    proof (rule whole_concat [OF rows])
      fix c y assume c: "c \<in> set (findall ''Test'' e)" and y: "case_rows c = Inr y"
      show "whole y"
        using assms(3) c by (intro whole_case_rows [OF no_tags_children [OF assms(1) c] y]) (auto simp: details_shown_def list_ex_iff)
    qed
    then show ?thesis unfolding s by (intro whole_append h whole_table whole_headers) (simp_all add: whole_headers whole_text)
  qed
qed

lemma whole_example:
  assumes "no_tags e" and "example_html e = Inr s" and "\<not> skipped_example e"
  shows "whole s"
proof -
  obtain result name reason time where r: "read_test e = Inr (result, name, reason, time)"
    using assms(2) by (auto simp: example_html_def ebind_Inr_iff)
  note w = whole_read_test [OF assms(1) r]
  have "result \<noteq> Some ''SKIP''" using assms(3) read_test_result [OF r] by (simp add: skipped_example_def)
  define col where "col = (if result = Some ''PASS'' then ''green'' else ''red'')"
  have "whole (text_line (styled ''td'' col @ shown result @ ''</td>''))"
    by (rule whole_status_cell) (simp_all add: w col_def)
  then have "whole (text_line ''<tr>'' @ (text_line (styled ''td'' col @ shown result @ ''</td>'') @ cell (shown name) @
      cell (shown time) @ cell (shown reason)) @ text_line ''</tr>'')"
    by (intro whole_row whole_append whole_cell w)
  with r assms(2) \<open>result \<noteq> Some ''SKIP''\<close> show ?thesis by (auto simp: example_html_def col_def)
qed

text \<open>
  When no failing test case with details and no skipped example is reported, and no text looks like a tag, the
  elements of the HTML report are closed in the order in which they were opened.
\<close>

theorem html_report_balanced:
  assumes "translate_to_html et = Inr h" and "no_tags et"
    and "\<not> list_ex details_shown (findall ''Test'' et)" and "\<not> list_ex skipped_example (findall ''Example'' et)"
  shows "balanced h"
proof -
  obtain suites examples where s: "concat_results suite_html (findall ''Test'' et) = Inr suites"
    and e: "concat_results example_html (findall ''Example'' et) = Inr examples"
    using assms(1) by (auto simp: translate_to_html_def ebind_Inr_iff)
  have "whole suites"
    using whole_concat [OF s] whole_suite no_tags_children [OF assms(2)] assms(3) by (metis list_ex_iff)
  moreover have "whole examples"
    using whole_concat [OF e] whole_example no_tags_children [OF assms(2)] assms(4) by (metis list_ex_iff)
  ultimately have "whole (text_line ''<center><h1>ns-3 Test Results</h1></center>'' @ text_line ''<h2>Test Suites</h2>'' @ suites @
      text_line ''<h2>Examples</h2>'' @ (border_table @ (text_line ''<th> Result </th>'' @ text_line ''<th>Example Name</th>'' @
      text_line ''<th>Elapsed Time</th>'' @ text_line ''<th>Details</th>'' @ examples) @ text_line ''</table>''))"
    (is "whole ?b") by (intro whole_append whole_table whole_headers)
  moreover have "h = text_line ''<html>'' @ text_line ''<body>'' @ ?b @ text_line ''</body>'' @ text_line ''</html>''"
    using assms(1) by (simp add: translate_to_html_def s e)
  ultimately obtain b where b: "whole b" and h: "h = text_line ''<html>'' @ text_line ''<body>'' @ b @ text_line ''</body>'' @ text_line ''</html>''"
    by blast
  from b show ?thesis by (simp add: h balanced_def read_line end_tag_def)
qed

definition leaf :: "string \<Rightarrow> string \<Rightarrow> elem" where
  "leaf t s = Elem t [] (Some s) []"

definition demo_results :: elem where
  "demo_results = Elem ''Results'' [] None
     [Elem ''Test'' [] None [leaf ''Name'' ''aodv'', leaf ''Result'' ''PASS'',
        Elem ''Test'' [] None [leaf ''Name'' ''loop'', leaf ''Result'' ''PASS'']],
      Elem ''Example'' [] None [leaf ''Name'' ''udp'', leaf ''Result'' ''CRASH'', Elem ''Time'' [(''real'', ''0.5'')] None []]]"

theorem html_report_balanced_witness:
  "\<exists>h. translate_to_html demo_results = Inr h \<and> balanced h"
proof -
  have "\<exists>h. translate_to_html demo_results = Inr h"
    by (simp add: demo_results_def leaf_def translate_to_html_def findall_def suite_html_def case_rows_def example_html_def
        read_test_def text_of_def find_elem_def Let_def)
  then obtain h where h: "translate_to_html demo_results = Inr h" ..
  have "balanced h"
    by (rule html_report_balanced [OF h])
      (simp_all add: demo_results_def leaf_def details_shown_def skipped_example_def findall_def text_of_def find_elem_def shown_def)
  with h show ?thesis by blast
qed

lemma skipped_example_unbalanced:
  "translate_to_html (Elem ''Results'' [] None [Elem ''Example'' [] None [leaf ''Name'' ''e'', leaf ''Result'' ''SKIP'']]) = Inr h \<Longrightarrow>
   \<not> balanced h"
  by (auto simp: translate_to_html_def leaf_def findall_def example_html_def read_test_def text_of_def find_elem_def shown_def
      time_of_def balanced_def read_line end_tag_def border_table_def quoted_def dquote_def styled_def cell_def)

lemma failure_row_unbalanced:
  assumes "details_cell d = Inr c" and "whole c"
  shows "\<exists>s. failure_rows cells [d] = Inr s \<and> (whole cells \<longrightarrow> \<not> balanced s)"
  using assms by (auto simp: balanced_def read_line end_tag_def)

section \<open>The text report\<close>

text \<open>The tests of a suite in the order in which they are reported: each one before the tests it contains.\<close>

fun test_nodes :: "string \<Rightarrow> elem \<Rightarrow> (string \<times> elem) list"
  and test_nodes_list :: "elem list \<Rightarrow> (string \<times> elem) list" where
  "test_nodes test_type (Elem tag attrs t cs) = (test_type, Elem tag attrs t cs) # test_nodes_list cs"
| "test_nodes_list [] = []"
| "test_nodes_list (c # cs) = (if elem_tag c = ''Test'' then test_nodes ''Case'' c @ test_nodes_list cs else test_nodes_list cs)"

definition test_entry :: "string \<times> elem \<Rightarrow> string result" where
  "test_entry n =
     (case n of (test_type, e) \<Rightarrow>
      ebind (test_header test_type e) (\<lambda>h. ebind (concat_results details_text (findall ''FailureDetails'' e)) (\<lambda>d. Inr (h @ d))))"

lemma concat_results_append:
  "concat_results f (xs @ ys) = ebind (concat_results f xs) (\<lambda>a. ebind (concat_results f ys) (\<lambda>b. Inr (a @ b)))"
proof (induction xs)
  case Nil
  show ?case by (cases "concat_results f ys") simp_all
next
  case (Cons x xs)
  show ?case by (cases "f x"; cases "concat_results f xs"; cases "concat_results f ys") (simp_all add: Cons.IH)
qed

lemma node_to_text_nodes:
  "node_to_text test_type e = concat_results test_entry (test_nodes test_type e)"
  "nodes_to_text es = concat_results test_entry (test_nodes_list es)"
proof (induction test_type e and es rule: node_to_text_nodes_to_text.induct)
  case (1 test_type tag attrs t cs)
  then show ?case
    by (cases "test_header test_type (Elem tag attrs t cs)";
        cases "concat_results details_text (findall ''FailureDetails'' (Elem tag attrs t cs))")
      (simp_all add: test_entry_def ebind_assoc)
next
  case (3 c cs)
  then show ?case by (simp add: concat_results_append)
qed simp_all

lemma concat_results_concat:
  "concat_results (\<lambda>x. concat_results g (h x)) xs = concat_results g (concat (map h xs))"
  by (induction xs) (simp_all add: concat_results_append)

text \<open>
  The text report has one entry for every test, a suite before its cases and a case before the cases in it, and then
  one line for every example.
\<close>

theorem text_report_preorder:
  "translate_to_text et =
     ebind (concat_results test_entry (concat (map (test_nodes ''Suite'') (findall ''Test'' et)))) (\<lambda>a.
     ebind (concat_results example_text (findall ''Example'' et)) (\<lambda>b. Inr (a @ b)))"
proof -
  have "node_to_text ''Suite'' = (\<lambda>e. concat_results test_entry (test_nodes ''Suite'' e))"
    by (rule ext) (rule node_to_text_nodes)
  then show ?thesis by (simp add: translate_to_text_def concat_results_concat)
qed

section \<open>What the driver writes is what the reports read\<close>

text \<open>An element with text children, written the way the driver writes it.\<close>

definition example_elem :: "job \<Rightarrow> elem" where
  "example_elem j = Elem ''Example'' [] None
     [leaf ''Name'' (display_name j), leaf ''Result'' (status_name (job_status j)),
      Elem ''Time'' [(''real'', fixed3 (elapsed_time j))] None []]"

definition print_child :: "elem \<Rightarrow> string" where
  "print_child c =
     (case elem_text c of
        Some t \<Rightarrow> text_line (''  <'' @ elem_tag c @ ''>'' @ t @ ''</'' @ elem_tag c @ ''>'')
      | None \<Rightarrow> text_line (''  <'' @ elem_tag c @ concat (map (\<lambda>(k, v). '' '' @ k @ ''='' @ quoted v) (elem_attrs c)) @ ''/>''))"

definition print_entry :: "elem \<Rightarrow> string" where
  "print_entry e =
     text_line (''<'' @ elem_tag e @ ''>'') @ concat (map print_child (elem_children e)) @ text_line (''</'' @ elem_tag e @ ''>'')"

lemma example_entry:
  assumes "is_example j \<or> is_pyexample j"
  shows "job_xml saved j = Inr (print_entry (example_elem j))"
    and "example_text (example_elem j) =
      Inr (text_line (status_name (job_status j) @ '': Example '' @ quoted (display_name j) @ '' ('' @ fixed3 (elapsed_time j) @ '')''))"
  using assms
  by (simp_all add: job_xml_def print_entry_def print_child_def example_elem_def leaf_def quoted_def example_text_def
      text_of_def find_elem_def findall_def time_of_def shown_def)

text \<open>The entries the driver makes for suites that were skipped or crashed\<close>

definition suite_elem :: "job \<Rightarrow> elem" where
  "suite_elem j = Elem ''Test'' []
     None ([leaf ''Name'' (display_name j), leaf ''Result'' (if is_skip j then ''SKIP'' else ''CRASH'')] @
      (if is_skip j then [leaf ''Reason'' (skip_reason j)] else []))"

lemma suite_entry:
  assumes "\<not> is_example j" "\<not> is_pyexample j" and "is_skip j \<or> returncode j \<notin> {0, 1, 2}"
  shows "job_xml saved j = Inr (print_entry (suite_elem j))"
  using assms by (auto simp: job_xml_def print_entry_def print_child_def suite_elem_def leaf_def)

end
