(* ===== verification/CreateModule.thy ===== *)
theory CreateModule
  imports PyText "HOL-Library.Sublist"
begin

text \<open>
  \<open>utils/create-module.py\<close>: the templates of the files of a new module, \<open>str.format\<close> on them, the functions that
  create the files, the rollback of a module that could not be completed, and the checks of the names on the command
  line. Paths are lists of components from the root; the operating system may refuse any single operation. Names are
  ASCII text.
\<close>

section \<open>Templates\<close>

datatype field = Chr char | Field string bool

text \<open>
  The syntax of \<open>str.format\<close> that the templates use: doubled braces, and names in braces, with the conversion \<open>!r\<close> or
  without.
\<close>

definition parse_field :: "string \<Rightarrow> field result" where
  "parse_field t =
     (case split_once CHR ''!'' t of
        (name, None) \<Rightarrow> Inr (Field name False)
      | (name, Some conv) \<Rightarrow> if conv = ''r'' then Inr (Field name True) else Inl ValueError)"

definition add_field :: "field \<Rightarrow> field list result \<Rightarrow> field list result" where
  "add_field x r = ebind r (\<lambda>xs. Inr (x # xs))"

fun parse_template :: "string option \<Rightarrow> string \<Rightarrow> field list result" where
  "parse_template (Some t) [] = Inl ValueError"
| "parse_template (Some t) (c # s) =
     (if c = CHR ''}'' then ebind (parse_field (rev t)) (\<lambda>x. add_field x (parse_template None s))
      else if c = CHR ''{'' then Inl ValueError
      else parse_template (Some (c # t)) s)"
| "parse_template None [] = Inr []"
| "parse_template None [c] = (if c = CHR ''{'' \<or> c = CHR ''}'' then Inl ValueError else Inr [Chr c])"
| "parse_template None (c # d # s) =
     (if c = CHR ''{'' then (if d = CHR ''{'' then add_field (Chr c) (parse_template None s) else parse_template (Some []) (d # s))
      else if c = CHR ''}'' then (if d = CHR ''}'' then add_field (Chr c) (parse_template None s) else Inl ValueError)
      else add_field (Chr c) (parse_template None (d # s)))"

text \<open>\<open>repr\<close> of a text of letters, digits, hyphens and underscores\<close>

definition py_repr :: "string \<Rightarrow> string" where
  "py_repr s = squote # s @ [squote]"

fun fill :: "(string \<rightharpoonup> string) \<Rightarrow> field list \<Rightarrow> string result" where
  "fill kwargs [] = Inr ''''"
| "fill kwargs (Chr c # xs) = ebind (fill kwargs xs) (\<lambda>s. Inr (c # s))"
| "fill kwargs (Field name r # xs) =
     (case kwargs name of
        None \<Rightarrow> Inl KeyError
      | Some v \<Rightarrow> ebind (fill kwargs xs) (\<lambda>s. Inr ((if r then py_repr v else v) @ s)))"

definition format :: "(string \<rightharpoonup> string) \<Rightarrow> string \<Rightarrow> string result" where
  "format kwargs template = ebind (parse_template None template) (fill kwargs)"

definition WSCRIPT_TEMPLATE :: string where
  "WSCRIPT_TEMPLATE = concat (map text_line
     [
      ''# -*- Mode: python; py-indent-offset: 4; indent-tabs-mode: nil; coding: utf-8; -*-'',
      '''',
      ''# def options(opt):'',
      ''#     pass'',
      '''',
      ''# def configure(conf):'',
      ''#     conf.check_nonfatal(header_name='stdint.h', define_name='HAVE_STDINT_H')'',
      '''',
      ''def build(bld):'',
      ''    module = bld.create_ns3_module({MODULE!r}, ['core'])'',
      ''    module.source = ['',
      ''        'model/{MODULE}.cc','',
      ''        'helper/{MODULE}-helper.cc','',
      ''        ]'',
      '''',
      ''    module_test = bld.create_ns3_module_test_library('{MODULE}')'',
      ''    module_test.source = ['',
      ''        'test/{MODULE}-test-suite.cc','',
      ''        ]'',
      ''    # Tests encapsulating example programs should be listed here'',
      ''    if (bld.env['ENABLE_EXAMPLES']):'',
      ''        module_test.source.extend(['',
      ''        #    'test/{MODULE}-examples-test-suite.cc','',
      ''             ])'',
      '''',
      ''    headers = bld(features='ns3header')'',
      ''    headers.module = {MODULE!r}'',
      ''    headers.source = ['',
      ''        'model/{MODULE}.h','',
      ''        'helper/{MODULE}-helper.h','',
      ''        ]'',
      '''',
      ''    if bld.env.ENABLE_EXAMPLES:'',
      ''        bld.recurse('examples')'',
      '''',
      ''    # bld.ns3_python_bindings()'',
      ''''])"

definition MODEL_CC_TEMPLATE :: string where
  "MODEL_CC_TEMPLATE = concat (map text_line
     [
      ''/* -*- Mode:C++; c-file-style:\"gnu\"; indent-tabs-mode:nil; -*- */'',
      '''',
      ''#include \"{MODULE}.h\"'',
      '''',
      ''namespace ns3 {{'',
      '''',
      ''/* ... */'',
      '''',
      '''',
      ''}}'',
      ''''])"

definition MODEL_H_TEMPLATE :: string where
  "MODEL_H_TEMPLATE = concat (map text_line
     [
      ''/* -*- Mode:C++; c-file-style:\"gnu\"; indent-tabs-mode:nil; -*- */'',
      ''#ifndef {INCLUDE_GUARD}'',
      ''#define {INCLUDE_GUARD}'',
      '''',
      ''namespace ns3 {{'',
      '''',
      ''/* ... */'',
      '''',
      ''}}'',
      '''',
      ''#endif /* {INCLUDE_GUARD} */'',
      ''''])"

definition HELPER_CC_TEMPLATE :: string where
  "HELPER_CC_TEMPLATE = concat (map text_line
     [
      ''/* -*- Mode:C++; c-file-style:\"gnu\"; indent-tabs-mode:nil; -*- */'',
      '''',
      ''#include \"{MODULE}-helper.h\"'',
      '''',
      ''namespace ns3 {{'',
      '''',
      ''/* ... */'',
      '''',
      '''',
      ''}}'',
      ''''])"

definition HELPER_H_TEMPLATE :: string where
  "HELPER_H_TEMPLATE = concat (map text_line
     [
      ''/* -*- Mode:C++; c-file-style:\"gnu\"; indent-tabs-mode:nil; -*- */'',
      ''#ifndef {INCLUDE_GUARD}'',
      ''#define {INCLUDE_GUARD}'',
      '''',
      ''#include \"ns3/{MODULE}.h\"'',
      '''',
      ''namespace ns3 {{'',
      '''',
      ''/* ... */'',
      '''',
      ''}}'',
      '''',
      ''#endif /* {INCLUDE_GUARD} */'',
      ''''])"

definition EXAMPLES_WSCRIPT_TEMPLATE :: string where
  "EXAMPLES_WSCRIPT_TEMPLATE = concat (map text_line
     [
      ''# -*- Mode: python; py-indent-offset: 4; indent-tabs-mode: nil; coding: utf-8; -*-'',
      '''',
      ''def build(bld):'',
      ''    obj = bld.create_ns3_program('{MODULE}-example', [{MODULE!r}])'',
      ''    obj.source = '{MODULE}-example.cc'' @ [squote],
      ''''])"

definition EXAMPLE_CC_TEMPLATE :: string where
  "EXAMPLE_CC_TEMPLATE = concat (map text_line
     [
      ''/* -*- Mode:C++; c-file-style:\"gnu\"; indent-tabs-mode:nil; -*- */'',
      '''',
      ''#include \"ns3/core-module.h\"'',
      ''#include \"ns3/{MODULE}-helper.h\"'',
      '''',
      ''using namespace ns3;'',
      '''',
      '''',
      ''int '',
      ''main (int argc, char *argv[])'',
      ''{{'',
      ''  bool verbose = true;'',
      '''',
      ''  CommandLine cmd (__FILE__);'',
      ''  cmd.AddValue (\"verbose\", \"Tell application to log if true\", verbose);'',
      '''',
      ''  cmd.Parse (argc,argv);'',
      '''',
      ''  /* ... */'',
      '''',
      ''  Simulator::Run ();'',
      ''  Simulator::Destroy ();'',
      ''  return 0;'',
      ''}}'',
      '''',
      ''''])"

definition TEST_CC_TEMPLATE :: string where
  "TEST_CC_TEMPLATE = concat (map text_line
     [
      ''/* -*- Mode:C++; c-file-style:\"gnu\"; indent-tabs-mode:nil; -*- */'',
      '''',
      ''// Include a header file from your module to test.'',
      ''#include \"ns3/{MODULE}.h\"'',
      '''',
      ''// An essential include is test.h'',
      ''#include \"ns3/test.h\"'',
      '''',
      ''// Do not put your test classes in namespace ns3.  You may find it useful'',
      ''// to use the using directive to access the ns3 namespace directly'',
      ''using namespace ns3;'',
      '''',
      ''// This is an example TestCase.'',
      ''class {CAPITALIZED}TestCase1 : public TestCase'',
      ''{{'',
      ''public:'',
      ''  {CAPITALIZED}TestCase1 ();'',
      ''  virtual ~{CAPITALIZED}TestCase1 ();'',
      '''',
      ''private:'',
      ''  virtual void DoRun (void);'',
      ''}};'',
      '''',
      ''// Add some help text to this case to describe what it is intended to test'',
      ''{CAPITALIZED}TestCase1::{CAPITALIZED}TestCase1 ()'',
      ''  : TestCase (\"{CAPITALIZED} test case (does nothing)\")'',
      ''{{'',
      ''}}'',
      '''',
      ''// This destructor does nothing but we include it as a reminder that'',
      ''// the test case should clean up after itself'',
      ''{CAPITALIZED}TestCase1::~{CAPITALIZED}TestCase1 ()'',
      ''{{'',
      ''}}'',
      '''',
      ''//'',
      ''// This method is the pure virtual method from class TestCase that every'',
      ''// TestCase must implement'',
      ''//'',
      ''void'',
      ''{CAPITALIZED}TestCase1::DoRun (void)'',
      ''{{'',
      ''  // A wide variety of test macros are available in src/core/test.h'',
      ''  NS_TEST_ASSERT_MSG_EQ (true, true, \"true doesn't equal true for some reason\");'',
      ''  // Use this one for floating point comparisons'',
      ''  NS_TEST_ASSERT_MSG_EQ_TOL (0.01, 0.01, 0.001, \"Numbers are not equal within tolerance\");'',
      ''}}'',
      '''',
      ''// The TestSuite class names the TestSuite, identifies what type of TestSuite,'',
      ''// and enables the TestCases to be run.  Typically, only the constructor for'',
      ''// this class must be defined'',
      ''//'',
      ''class {CAPITALIZED}TestSuite : public TestSuite'',
      ''{{'',
      ''public:'',
      ''  {CAPITALIZED}TestSuite ();'',
      ''}};'',
      '''',
      ''{CAPITALIZED}TestSuite::{CAPITALIZED}TestSuite ()'',
      ''  : TestSuite (\"{MODULE}\", UNIT)'',
      ''{{'',
      ''  // TestDuration for TestCase can be QUICK, EXTENSIVE or TAKES_FOREVER'',
      ''  AddTestCase (new {CAPITALIZED}TestCase1, TestCase::QUICK);'',
      ''}}'',
      '''',
      ''// Do not forget to allocate an instance of this TestSuite'',
      ''static {CAPITALIZED}TestSuite s{COMPOUND}TestSuite;'',
      ''''])"

definition DOC_RST_TEMPLATE :: string where
  "DOC_RST_TEMPLATE = concat (map text_line
     [
      ''Example Module Documentation'',
      ''----------------------------'',
      '''',
      ''.. include:: replace.txt'',
      ''.. highlight:: cpp'',
      '''',
      ''.. heading hierarchy:'',
      ''   ------------- Chapter'',
      ''   ************* Section (#.#)'',
      ''   ============= Subsection (#.#.#)'',
      ''   ############# Paragraph (no number)'',
      '''',
      ''This is a suggested outline for adding new module documentation to |ns3|.'',
      ''See ``src/click/doc/click.rst`` for an example.'',
      '''',
      ''The introductory paragraph is for describing what this code is trying to'',
      ''model.'',
      '''',
      ''For consistency (italicized formatting), please use |ns3| to refer to'',
      ''ns-3 in the documentation (and likewise, |ns2| for ns-2).  These macros'',
      ''are defined in the file ``replace.txt``.'',
      '''',
      ''Model Description'',
      ''*****************'',
      '''',
      ''The source code for the new module lives in the directory ``{MODULE_DIR}``.'',
      '''',
      ''Add here a basic description of what is being modeled.'',
      '''',
      ''Design'',
      ''======'',
      '''',
      ''Briefly describe the software design of the model and how it fits into '',
      ''the existing ns-3 architecture. '',
      '''',
      ''Scope and Limitations'',
      ''====================='',
      '''',
      ''What can the model do?  What can it not do?  Please use this section to'',
      ''describe the scope and limitations of the model.'',
      '''',
      ''References'',
      ''=========='',
      '''',
      ''Add academic citations here, such as if you published a paper on this'',
      ''model, or if readers should read a particular specification or other work.'',
      '''',
      ''Usage'',
      ''*****'',
      '''',
      ''This section is principally concerned with the usage of your model, using'',
      ''the public API.  Focus first on most common usage patterns, then go'',
      ''into more advanced topics.'',
      '''',
      ''Building New Module'',
      ''==================='',
      '''',
      ''Include this subsection only if there are special build instructions or'',
      ''platform limitations.'',
      '''',
      ''Helpers'',
      ''======='',
      '''',
      ''What helper API will users typically use?  Describe it here.'',
      '''',
      ''Attributes'',
      ''=========='',
      '''',
      ''What classes hold attributes, and what are the key ones worth mentioning?'',
      '''',
      ''Output'',
      ''======'',
      '''',
      ''What kind of data does the model generate?  What are the key trace'',
      ''sources?   What kind of logging output can be enabled?'',
      '''',
      ''Advanced Usage'',
      ''=============='',
      '''',
      ''Go into further details (such as using the API outside of the helpers)'',
      ''in additional sections, as needed.'',
      '''',
      ''Examples'',
      ''========'',
      '''',
      ''What examples using this new code are available?  Describe them here.'',
      '''',
      ''Troubleshooting'',
      ''==============='',
      '''',
      ''Add any tips for avoiding pitfalls, etc.'',
      '''',
      ''Validation'',
      ''**********'',
      '''',
      ''Describe how the model has been tested/validated.  What tests run in the'',
      ''test suite?  How much API and code is covered by the tests?  Again, '',
      ''references to outside published work may help here.''])"

section \<open>The file system\<close>

datatype fs_entry = Dir | File string

type_synonym path = "string list"

type_synonym fs = "path \<Rightarrow> fs_entry option"

text \<open>
  What the operating system allows in the present state: creating a directory, opening a file for writing, writing it to the
  end (\<open>bytes_written\<close> otherwise), and removing a tree; when a removal is refused on the way, \<open>removed\<close> says what is gone
  already.
\<close>

record os =
  may_mkdir :: "fs \<Rightarrow> path \<Rightarrow> bool"
  may_open :: "fs \<Rightarrow> path \<Rightarrow> bool"
  may_write :: "fs \<Rightarrow> path \<Rightarrow> bool"
  bytes_written :: "fs \<Rightarrow> path \<Rightarrow> nat"
  may_remove :: "fs \<Rightarrow> path \<Rightarrow> bool"
  removed :: "fs \<Rightarrow> path \<Rightarrow> path \<Rightarrow> bool"

text \<open>An operation ends with an exception or without one, and with the files as they are then.\<close>

type_synonym op = "fs \<Rightarrow> py_error option \<times> fs"

definition andthen :: "op \<Rightarrow> op \<Rightarrow> op" where
  "andthen a b F = (case a F of (Some e, F') \<Rightarrow> (Some e, F') | (None, F') \<Rightarrow> b F')"

fun run_ops :: "op list \<Rightarrow> op" where
  "run_ops [] F = (None, F)"
| "run_ops (a # as) F = andthen a (run_ops as) F"

definition os_mkdir :: "os \<Rightarrow> path \<Rightarrow> op" where
  "os_mkdir os p F =
     (if F p = None \<and> F (butlast p) = Some Dir \<and> p \<noteq> [] \<and> may_mkdir os F p then (None, F(p \<mapsto> Dir)) else (Some OSError, F))"

text \<open>\<open>Path.mkdir(parents=True)\<close>: missing parents are created first; a parent may exist, the directory itself may not.\<close>

function ensure_dir :: "os \<Rightarrow> path \<Rightarrow> op" where
  "ensure_dir os p F =
     (if F p = Some Dir then (None, F)
      else if p \<noteq> [] \<and> F (butlast p) = None then andthen (ensure_dir os (butlast p)) (os_mkdir os p) F
      else os_mkdir os p F)"
  by pat_completeness auto
termination
  by (relation "measure (\<lambda>(os, p, F). length p)") auto

declare ensure_dir.simps [simp del]

definition mkdir_parents :: "os \<Rightarrow> path \<Rightarrow> op" where
  "mkdir_parents os p F =
     (if p \<noteq> [] \<and> F p = None \<and> F (butlast p) = None then andthen (ensure_dir os (butlast p)) (os_mkdir os p) F
      else os_mkdir os p F)"

text \<open>\<open>shutil.rmtree\<close>, which removes the directory itself last\<close>

definition drop_tree :: "path \<Rightarrow> fs \<Rightarrow> fs" where
  "drop_tree p F q = (if take (length p) q = p then None else F q)"

definition rmtree :: "os \<Rightarrow> path \<Rightarrow> op" where
  "rmtree os p F =
     (if may_remove os F p then (None, drop_tree p F)
      else (Some OSError, \<lambda>q. if take (length p) q = p \<and> q \<noteq> p \<and> removed os F p q then None else F q))"

text \<open>The file is opened, and so truncated, before the template is filled in.\<close>

definition create_file :: "os \<Rightarrow> path \<Rightarrow> string \<Rightarrow> (string \<rightharpoonup> string) \<Rightarrow> op" where
  "create_file os p template kwargs F =
     (if F (butlast p) = Some Dir \<and> F p \<noteq> Some Dir \<and> p \<noteq> [] \<and> may_open os F p then
        (let F = F(p \<mapsto> File '''') in
         case format kwargs template of
           Inl e \<Rightarrow> (Some e, F)
         | Inr s \<Rightarrow> if may_write os F p then (None, F(p \<mapsto> File s))
             else (Some OSError, F(p \<mapsto> File (take (bytes_written os F p) s))))
      else (Some OSError, F))"

section \<open>The files of a module\<close>

definition is_lower :: "char \<Rightarrow> bool" where
  "is_lower c \<longleftrightarrow> of_char c \<in> ({97..122} :: nat set)"

definition is_upper :: "char \<Rightarrow> bool" where
  "is_upper c \<longleftrightarrow> of_char c \<in> ({65..90} :: nat set)"

definition upper_char :: "char \<Rightarrow> char" where
  "upper_char c = (if is_lower c then char_of (of_char c - (32 :: nat)) else c)"

definition lower_char :: "char \<Rightarrow> char" where
  "lower_char c = (if is_upper c then char_of (of_char c + (32 :: nat)) else c)"

fun capitalize :: "string \<Rightarrow> string" where
  "capitalize [] = []"
| "capitalize (c # s) = upper_char c # map lower_char s"

definition replace_hyphens :: "string \<Rightarrow> string" where
  "replace_hyphens s = map (\<lambda>c. if c = CHR ''-'' then CHR ''_'' else c) s"

definition guard_name :: "string \<Rightarrow> string \<Rightarrow> string" where
  "guard_name modname ending = map upper_char (replace_hyphens modname) @ ending"

definition capitalized :: "string \<Rightarrow> string" where
  "capitalized modname = concat (map capitalize (split_on CHR ''-'' modname))"

definition compound :: "string \<Rightarrow> string" where
  "compound modname =
     (case split_on CHR ''-'' modname of [] \<Rightarrow> '''' | w # ws \<Rightarrow> w @ concat (map capitalize ws))"

definition make_wscript :: "os \<Rightarrow> path \<Rightarrow> string \<Rightarrow> op" where
  "make_wscript os d m = create_file os (d @ [''wscript'']) WSCRIPT_TEMPLATE [''MODULE'' \<mapsto> m]"

definition make_model :: "os \<Rightarrow> path \<Rightarrow> string \<Rightarrow> op" where
  "make_model os d m =
     run_ops
       [mkdir_parents os (d @ [''model'']),
        create_file os (d @ [''model'', m @ ''.cc'']) MODEL_CC_TEMPLATE [''MODULE'' \<mapsto> m],
        create_file os (d @ [''model'', m @ ''.h'']) MODEL_H_TEMPLATE [''MODULE'' \<mapsto> m, ''INCLUDE_GUARD'' \<mapsto> guard_name m ''_H'']]"

definition make_test :: "os \<Rightarrow> path \<Rightarrow> string \<Rightarrow> op" where
  "make_test os d m =
     run_ops
       [mkdir_parents os (d @ [''test'']),
        create_file os (d @ [''test'', m @ ''-test-suite.cc'']) TEST_CC_TEMPLATE
          [''MODULE'' \<mapsto> m, ''CAPITALIZED'' \<mapsto> capitalized m, ''COMPOUND'' \<mapsto> compound m]]"

definition make_helper :: "os \<Rightarrow> path \<Rightarrow> string \<Rightarrow> op" where
  "make_helper os d m =
     run_ops
       [mkdir_parents os (d @ [''helper'']),
        create_file os (d @ [''helper'', m @ ''-helper.cc'']) HELPER_CC_TEMPLATE [''MODULE'' \<mapsto> m],
        create_file os (d @ [''helper'', m @ ''-helper.h'']) HELPER_H_TEMPLATE
          [''MODULE'' \<mapsto> m, ''INCLUDE_GUARD'' \<mapsto> guard_name m ''_HELPER_H'']]"

definition make_examples :: "os \<Rightarrow> path \<Rightarrow> string \<Rightarrow> op" where
  "make_examples os d m =
     run_ops
       [mkdir_parents os (d @ [''examples'']),
        create_file os (d @ [''examples'', ''wscript'']) EXAMPLES_WSCRIPT_TEMPLATE [''MODULE'' \<mapsto> m],
        create_file os (d @ [''examples'', m @ ''-example.cc'']) EXAMPLE_CC_TEMPLATE [''MODULE'' \<mapsto> m]]"

definition path_string :: "path \<Rightarrow> string" where
  "path_string p = ''/'' @ join_with ''/'' p"

definition make_doc :: "os \<Rightarrow> path \<Rightarrow> path \<Rightarrow> string \<Rightarrow> op" where
  "make_doc os here d m =
     andthen (mkdir_parents os (d @ [''doc'']))
       (\<lambda>F. case relpath (path_string here) (path_string d) ''.'' of
              Inl e \<Rightarrow> (Some e, F)
            | Inr rel \<Rightarrow>
                create_file os (d @ [''doc'', m @ ''.rst'']) DOC_RST_TEMPLATE [''MODULE'' \<mapsto> m, ''MODULE_DIR'' \<mapsto> rel] F)"

definition module_ops :: "os \<Rightarrow> path \<Rightarrow> path \<Rightarrow> string \<Rightarrow> op list" where
  "module_ops os here d m =
     [make_wscript os d m, make_model os d m, make_test os d m, make_helper os d m, make_examples os d m, make_doc os here d m]"

text \<open>
  The answer is whether the module was made. An exception inside removes the module's directory; one that the removal
  raises leaves the function.
\<close>

definition make_module :: "os \<Rightarrow> path \<Rightarrow> path \<Rightarrow> string \<Rightarrow> fs \<Rightarrow> bool result \<times> fs" where
  "make_module os here modpath modname F =
     (let p = modpath @ [modname] in
      if F p \<noteq> None then (Inr False, F)
      else case run_ops (mkdir_parents os p # module_ops os here p modname) F of
             (None, F') \<Rightarrow> (Inr True, F')
           | (Some e, F') \<Rightarrow>
               if F' p \<noteq> None then
                 (case rmtree os p F' of (None, F'') \<Rightarrow> (Inr False, F'') | (Some e', F'') \<Rightarrow> (Inl e', F''))
               else (Inr False, F'))"

fun make_all :: "os \<Rightarrow> path \<Rightarrow> (path \<times> string) list \<Rightarrow> fs \<Rightarrow> bool result \<times> fs" where
  "make_all os here [] F = (Inr True, F)"
| "make_all os here ((modpath, modname) # ms) F =
     (case make_module os here modpath modname F of
        (Inr True, F') \<Rightarrow> make_all os here ms F'
      | r \<Rightarrow> r)"

section \<open>The command line\<close>

text \<open>\<open>Path(s).parts\<close> without the root: components that are empty or a single dot are dropped.\<close>

definition path_parts :: "string \<Rightarrow> path" where
  "path_parts s = filter (\<lambda>c. c \<noteq> '''' \<and> c \<noteq> ''.'') (split_on CHR ''/'' s)"

text \<open>\<open>^(\w|-)+$\<close>, whose end also stands before a final newline\<close>

definition allowedRE :: "string \<Rightarrow> bool" where
  "allowedRE s =
     (let t = (if s \<noteq> [] \<and> last s = newline then butlast s else s)
      in t \<noteq> [] \<and> list_all (\<lambda>c. name_char c \<or> c = CHR ''-'') t)"

definition strip_seps :: "string \<Rightarrow> string" where
  "strip_seps s = rev (dropWhile (\<lambda>c. c = CHR ''/'') (rev (dropWhile (\<lambda>c. c = CHR ''/'') s)))"

text \<open>
  The project directory, as components below \<open>contrib\<close>. Two leading slashes are a root of their own, to which no path is
  relative.
\<close>

definition project_parts :: "string \<Rightarrow> path result" where
  "project_parts project =
     (if initial_slashes project = 2 then Inl ValueError
      else if list_all allowedRE (path_parts project) then Inr (path_parts project) else Inl SystemExit)"

text \<open>One name of the command line: skipped (\<open>None\<close>), accepted, or the end of the program.\<close>

definition plan_module :: "path \<Rightarrow> string \<Rightarrow> string \<Rightarrow> (path \<times> string) option result" where
  "plan_module base project name =
     (let name = strip_seps name; parts = path_parts name in
      if name = '''' then Inr None
      else if 2 < length parts then Inr None
      else if parts = [] then Inl IndexError
      else if hd parts = ''src'' \<and> project \<noteq> '''' then Inl SystemExit
      else
        let special = (hd parts = ''src'' \<or> hd parts = ''contrib'');
            target = base @ [if hd parts = ''src'' then ''src'' else ''contrib''];
            rest = (if special then tl parts else parts)
        in ebind (if project \<noteq> '''' then ebind (project_parts project) (\<lambda>pp. Inr (base @ [''contrib''] @ pp)) else Inr target)
             (\<lambda>modpath. case rest of
                [] \<Rightarrow> Inl IndexError
              | modname # _ \<Rightarrow> Inr (if allowedRE modname then Some (modpath, modname) else None)))"

fun plan_modules :: "path \<Rightarrow> string \<Rightarrow> string list \<Rightarrow> (path \<times> string) list result" where
  "plan_modules base project [] = Inr []"
| "plan_modules base project (n # ns) =
     ebind (plan_module base project n) (\<lambda>m. ebind (plan_modules base project ns) (\<lambda>ms.
     Inr (case m of None \<Rightarrow> ms | Some x \<Rightarrow> x # ms)))"

text \<open>The exit code of the program and the files it leaves. An exception is caught at the top and gives 1.\<close>

definition create_module :: "os \<Rightarrow> path \<Rightarrow> string \<Rightarrow> string list \<Rightarrow> fs \<Rightarrow> int \<times> fs" where
  "create_module os base project names F =
     (if F (base @ [''src'']) \<noteq> Some Dir \<or> F (base @ [''contrib'']) \<noteq> Some Dir then (2, F)
      else
        case (if project \<noteq> '''' then project_parts project else Inr []) of
          Inl e \<Rightarrow> (if e = SystemExit then 2 else 1, F)
        | Inr _ \<Rightarrow>
            (case plan_modules base project names of
               Inl e \<Rightarrow> (if e = SystemExit then 2 else 1, F)
             | Inr ms \<Rightarrow>
                 (case make_all os base ms F of (Inr b, F') \<Rightarrow> (0, F') | (Inl e, F') \<Rightarrow> (1, F'))))"

section \<open>The templates can be filled in\<close>

fun field_names :: "field list \<Rightarrow> string list" where
  "field_names [] = []"
| "field_names (Chr c # xs) = field_names xs"
| "field_names (Field name r # xs) = name # field_names xs"

lemma field_names_append: "field_names (xs @ ys) = field_names xs @ field_names ys"
  by (induction xs rule: field_names.induct) simp_all

lemma fill_ok: "set (field_names xs) \<subseteq> dom kwargs \<Longrightarrow> \<exists>s. fill kwargs xs = Inr s"
proof (induction xs rule: field_names.induct)
  case (3 name r xs)
  then obtain v where "kwargs name = Some v" by auto
  with 3 show ?case by auto
qed auto

text \<open>The text is a template that uses no other names than the given ones.\<close>

definition uses :: "string list \<Rightarrow> string \<Rightarrow> bool" where
  "uses names template =
     (case parse_template None template of Inl e \<Rightarrow> False | Inr xs \<Rightarrow> list_all (\<lambda>n. List.member names n) (field_names xs))"

lemma format_ok:
  assumes "uses names template" and "set names \<subseteq> dom kwargs"
  shows "\<exists>s. format kwargs template = Inr s"
proof -
  from assms(1) obtain xs where "parse_template None template = Inr xs" "set (field_names xs) \<subseteq> set names"
    by (auto simp: uses_def list_all_iff List.member_iff split: sum.splits)
  with fill_ok [of xs kwargs] assms(2) show ?thesis by (auto simp: format_def)
qed

text \<open>A text that is a template can be read on its own, so that a file can be checked line by line.\<close>

lemma parse_template_append:
  "parse_template t a = Inr xs \<Longrightarrow>
   parse_template t (a @ b) = ebind (parse_template None b) (\<lambda>ys. Inr (xs @ ys))"
proof (induction t a arbitrary: xs rule: parse_template.induct)
  case (2 t c s)
  then show ?case by (auto simp: add_field_def ebind_assoc ebind_Inr_iff split: if_splits)
next
  case 3
  then show ?case by (cases "parse_template None b") simp_all
next
  case (4 c)
  then show ?case by (cases b) (auto simp: add_field_def split: if_splits)
next
  case (5 c d s)
  then show ?case by (auto simp: add_field_def ebind_assoc ebind_Inr_iff split: if_splits)
qed simp_all

lemma uses_append: "uses ns a \<Longrightarrow> uses ns b \<Longrightarrow> uses ns (a @ b)"
  by (auto simp: uses_def parse_template_append field_names_append split: sum.splits)

lemma uses_lines: "list_all (\<lambda>l. uses ns (text_line l)) ls \<Longrightarrow> uses ns (concat (map text_line ls))"
  by (induction ls) (simp_all add: uses_append, simp add: uses_def)

lemma wscript_uses: "uses [''MODULE''] WSCRIPT_TEMPLATE"
  unfolding WSCRIPT_TEMPLATE_def by (rule uses_lines) code_simp

lemma model_cc_uses: "uses [''MODULE''] MODEL_CC_TEMPLATE"
  unfolding MODEL_CC_TEMPLATE_def by (rule uses_lines) code_simp

lemma model_h_uses: "uses [''INCLUDE_GUARD''] MODEL_H_TEMPLATE"
  unfolding MODEL_H_TEMPLATE_def by (rule uses_lines) code_simp

lemma test_cc_uses: "uses [''MODULE'', ''CAPITALIZED'', ''COMPOUND''] TEST_CC_TEMPLATE"
  unfolding TEST_CC_TEMPLATE_def by (rule uses_lines) code_simp

lemma helper_cc_uses: "uses [''MODULE''] HELPER_CC_TEMPLATE"
  unfolding HELPER_CC_TEMPLATE_def by (rule uses_lines) code_simp

lemma helper_h_uses: "uses [''MODULE'', ''INCLUDE_GUARD''] HELPER_H_TEMPLATE"
  unfolding HELPER_H_TEMPLATE_def by (rule uses_lines) code_simp

lemma examples_wscript_uses: "uses [''MODULE''] EXAMPLES_WSCRIPT_TEMPLATE"
  unfolding EXAMPLES_WSCRIPT_TEMPLATE_def by (rule uses_lines) code_simp

lemma example_cc_uses: "uses [''MODULE''] EXAMPLE_CC_TEMPLATE"
  unfolding EXAMPLE_CC_TEMPLATE_def by (rule uses_lines) code_simp

lemma doc_rst_uses: "uses [''MODULE_DIR''] DOC_RST_TEMPLATE"
  unfolding DOC_RST_TEMPLATE_def by (rule uses_lines) code_simp

lemmas templates_use =
  wscript_uses model_cc_uses model_h_uses test_cc_uses helper_cc_uses
  helper_h_uses examples_wscript_uses example_cc_uses doc_rst_uses

text \<open>The text a template gives for the arguments, and what the templates need of them\<close>

definition filled :: "(string \<rightharpoonup> string) \<Rightarrow> string \<Rightarrow> string" where
  "filled kwargs template = (case format kwargs template of Inr s \<Rightarrow> s | Inl e \<Rightarrow> '''')"

lemma format_filled:
  "uses names template \<Longrightarrow> set names \<subseteq> dom kwargs \<Longrightarrow> format kwargs template = Inr (filled kwargs template)"
  using format_ok [of names template kwargs] by (auto simp: filled_def)

section \<open>What the operations change\<close>

text \<open>Only directories above \<open>p\<close> were added.\<close>

definition grown :: "path \<Rightarrow> fs \<Rightarrow> fs \<Rightarrow> bool" where
  "grown p F F' \<longleftrightarrow> (\<forall>q. F' q = F q \<or> (F q = None \<and> F' q = Some Dir \<and> strict_prefix q p))"

lemma grown_refl [simp]: "grown p F F"
  by (simp add: grown_def)

lemma grown_upd: "grown p F F' \<Longrightarrow> F' q = None \<Longrightarrow> strict_prefix q p \<Longrightarrow> grown p F (F'(q \<mapsto> Dir))"
  by (auto simp: grown_def) (metis option.distinct(1))

lemma os_mkdir_cases:
  obtains e where "os_mkdir os p F = (Some e, F)"
  | "os_mkdir os p F = (None, F(p \<mapsto> Dir))" "F p = None" "F (butlast p) = Some Dir"
  by (cases "os_mkdir os p F = (Some OSError, F)") (auto simp: os_mkdir_def split: if_splits)

lemma ensure_dir_grown:
  "strict_prefix d p \<Longrightarrow> grown p F (snd (ensure_dir os d F))"
proof (induction os d F rule: ensure_dir.induct)
  case (1 os d F)
  have one: "grown p F (snd (os_mkdir os d G))" if "grown p F G" for G
    using that 1(2) by (cases os d G rule: os_mkdir_cases) (auto intro: grown_upd)
  consider "F d = Some Dir" | "F d \<noteq> Some Dir" "d \<noteq> []" "F (butlast d) = None"
    | "F d \<noteq> Some Dir" "\<not> (d \<noteq> [] \<and> F (butlast d) = None)" by argo
  then show ?case
  proof cases
    case 2
    then have "grown p F (snd (ensure_dir os (butlast d) F))"
      using 1 by (meson prefixeq_butlast prefix_order.le_less_trans)
    with 2 show ?thesis
      by (subst ensure_dir.simps) (auto simp: andthen_def one split: prod.splits option.splits)
  qed (simp add: ensure_dir.simps one, subst ensure_dir.simps, auto simp: one)
qed

lemma mkdir_parents_cases:
  assumes "p \<noteq> []"
  obtains e F' where "mkdir_parents os p F = (Some e, F')" "grown p F F'"
  | F' where "mkdir_parents os p F = (None, F'(p \<mapsto> Dir))" "grown p F F'" "F p = None"
proof -
  have sp: "strict_prefix (butlast p) p"
    using assms by (metis append_butlast_last_id not_Cons_self2 prefixeq_butlast same_append_eq self_append_conv strict_prefixI)
  show thesis
  proof (cases "F p = None \<and> F (butlast p) = None")
    case True
    obtain r F' where r: "ensure_dir os (butlast p) F = (r, F')" by fastforce
    with ensure_dir_grown [OF sp, of F os] have g: "grown p F F'" by simp
    show thesis
    proof (cases r)
      case None
      with True assms r have "mkdir_parents os p F = os_mkdir os p F'" by (simp add: mkdir_parents_def andthen_def)
      with that g True show thesis by (cases os p F' rule: os_mkdir_cases) metis+
    next
      case (Some e)
      with True assms r have "mkdir_parents os p F = (Some e, F')" by (simp add: mkdir_parents_def andthen_def)
      with that g show thesis by blast
    qed
  next
    case False
    then have "mkdir_parents os p F = os_mkdir os p F" by (auto simp: mkdir_parents_def)
    with that show thesis by (cases os p F rule: os_mkdir_cases) (metis grown_refl)+
  qed
qed

text \<open>With the directory \<open>d\<close> there, it stays and nothing outside it changes.\<close>

definition stays_in :: "path \<Rightarrow> op \<Rightarrow> bool" where
  "stays_in d a \<longleftrightarrow>
     (\<forall>F. F d = Some Dir \<longrightarrow> snd (a F) d = Some Dir \<and> (\<forall>q. \<not> prefix d q \<longrightarrow> snd (a F) q = F q))"

lemma stays_inD: "stays_in d a \<Longrightarrow> F d = Some Dir \<Longrightarrow> a F = (r, F') \<Longrightarrow> F' d = Some Dir \<and> (\<forall>q. \<not> prefix d q \<longrightarrow> F' q = F q)"
  by (metis stays_in_def snd_conv)

lemma stays_in_andthen: "stays_in d a \<Longrightarrow> stays_in d b \<Longrightarrow> stays_in d (andthen a b)"
  unfolding stays_in_def
proof (intro allI impI, goal_cases)
  case (1 F)
  show ?case
  proof (cases "a F")
    case (Pair r G)
    with 1 have "G d = Some Dir" "\<forall>q. \<not> prefix d q \<longrightarrow> G q = F q" by (metis snd_conv)+
    with 1 Pair show ?thesis by (cases r) (auto simp: andthen_def)
  qed
qed
lemma stays_in_run_ops: "list_all (stays_in d) as \<Longrightarrow> stays_in d (run_ops as)"
proof (induction as)
  case (Cons a as)
  then have "stays_in d (andthen a (run_ops as))" by (simp add: stays_in_andthen)
  then show ?case by (simp add: stays_in_def)
qed (simp add: stays_in_def)

lemma mkdir_inside: "F d = Some Dir \<Longrightarrow> mkdir_parents os (d @ [x]) F = os_mkdir os (d @ [x]) F"
  by (simp add: mkdir_parents_def)

lemma stays_in_mkdir: "stays_in d (mkdir_parents os (d @ [x]))"
  by (auto simp: stays_in_def mkdir_inside os_mkdir_def)

lemma stays_in_create: "stays_in d (create_file os (d @ x # xs) t kwargs)"
  by (auto simp: stays_in_def create_file_def Let_def split: sum.splits)

lemma stays_in_make_doc: "stays_in d (make_doc os here d m)"
proof -
  have "stays_in d (\<lambda>F. case relpath (path_string here) (path_string d) ''.'' of
              Inl e \<Rightarrow> (Some e, F)
            | Inr rel \<Rightarrow>
                create_file os (d @ [''doc'', m @ ''.rst'']) DOC_RST_TEMPLATE [''MODULE'' \<mapsto> m, ''MODULE_DIR'' \<mapsto> rel] F)"
    by (cases "relpath (path_string here) (path_string d) ''.''") (simp_all add: stays_in_create, simp add: stays_in_def)
  then show ?thesis unfolding make_doc_def by (intro stays_in_andthen stays_in_mkdir)
qed

lemma stays_in_module: "stays_in d (run_ops (module_ops os here d m))"
  unfolding module_ops_def make_wscript_def make_model_def make_test_def make_helper_def make_examples_def
  by (intro stays_in_run_ops) (simp add: stays_in_create stays_in_mkdir stays_in_make_doc stays_in_run_ops)

section \<open>The files of a complete module\<close>

definition module_tree :: "path \<Rightarrow> path \<Rightarrow> string \<Rightarrow> (path \<times> fs_entry) list" where
  "module_tree here d m =
     (let module = [''MODULE'' \<mapsto> m];
          rel = (case relpath (path_string here) (path_string d) ''.'' of Inr r \<Rightarrow> r | Inl e \<Rightarrow> '''')
      in [(d, Dir),
          (d @ [''wscript''], File (filled module WSCRIPT_TEMPLATE)),
          (d @ [''model''], Dir),
          (d @ [''model'', m @ ''.cc''], File (filled module MODEL_CC_TEMPLATE)),
          (d @ [''model'', m @ ''.h''], File (filled (module(''INCLUDE_GUARD'' \<mapsto> guard_name m ''_H'')) MODEL_H_TEMPLATE)),
          (d @ [''test''], Dir),
          (d @ [''test'', m @ ''-test-suite.cc''],
             File (filled (module(''CAPITALIZED'' \<mapsto> capitalized m, ''COMPOUND'' \<mapsto> compound m)) TEST_CC_TEMPLATE)),
          (d @ [''helper''], Dir),
          (d @ [''helper'', m @ ''-helper.cc''], File (filled module HELPER_CC_TEMPLATE)),
          (d @ [''helper'', m @ ''-helper.h''],
             File (filled (module(''INCLUDE_GUARD'' \<mapsto> guard_name m ''_HELPER_H'')) HELPER_H_TEMPLATE)),
          (d @ [''examples''], Dir),
          (d @ [''examples'', ''wscript''], File (filled module EXAMPLES_WSCRIPT_TEMPLATE)),
          (d @ [''examples'', m @ ''-example.cc''], File (filled module EXAMPLE_CC_TEMPLATE)),
          (d @ [''doc''], Dir),
          (d @ [''doc'', m @ ''.rst''], File (filled (module(''MODULE_DIR'' \<mapsto> rel)) DOC_RST_TEMPLATE))])"

lemma run_ops_ConsD:
  "run_ops (a # as) F = (None, F') \<Longrightarrow> \<exists>G. a F = (None, G) \<and> run_ops as G = (None, F')"
  by (auto simp: andthen_def split: prod.splits option.splits)

lemma mkdir_result: "mkdir_parents os (d @ [x]) F = (None, G) \<Longrightarrow> F d = Some Dir \<Longrightarrow> G = F(d @ [x] \<mapsto> Dir)"
  by (auto simp: mkdir_inside os_mkdir_def split: if_splits)

lemma create_result:
  "create_file os p t kwargs F = (None, G) \<Longrightarrow> G = F(p \<mapsto> File (filled kwargs t))"
  by (auto simp: create_file_def Let_def filled_def split: if_splits sum.splits)

lemma make_wscript_result:
  "make_wscript os d m F = (None, G) \<Longrightarrow> G = F(d @ [''wscript''] \<mapsto> File (filled [''MODULE'' \<mapsto> m] WSCRIPT_TEMPLATE))"
  by (auto simp: make_wscript_def dest: create_result)

lemma made2:
  assumes "run_ops [mkdir_parents os (d @ [x]), create_file os p t kwargs] F = (None, G)" "F d = Some Dir"
  shows "G = F(d @ [x] \<mapsto> Dir, p \<mapsto> File (filled kwargs t))"
  using assms by (auto simp del: run_ops.simps(2) dest!: run_ops_ConsD mkdir_result create_result)

lemma made3:
  assumes "run_ops [mkdir_parents os (d @ [x]), create_file os p t kwargs, create_file os p' t' kwargs'] F = (None, G)"
    and "F d = Some Dir"
  shows "G = F(d @ [x] \<mapsto> Dir, p \<mapsto> File (filled kwargs t), p' \<mapsto> File (filled kwargs' t'))"
  using assms by (auto simp del: run_ops.simps(2) dest!: run_ops_ConsD mkdir_result create_result)

lemma make_doc_result:
  assumes "make_doc os here d m F = (None, G)" "F d = Some Dir"
  obtains rel where "relpath (path_string here) (path_string d) ''.'' = Inr rel"
    "G = F(d @ [''doc''] \<mapsto> Dir, d @ [''doc'', m @ ''.rst''] \<mapsto>
           File (filled [''MODULE'' \<mapsto> m, ''MODULE_DIR'' \<mapsto> rel] DOC_RST_TEMPLATE))"
  using assms
  by (auto simp: make_doc_def andthen_def split: prod.splits option.splits sum.splits dest!: mkdir_result create_result)

lemma module_ops_result:
  assumes "run_ops (module_ops os here d m) F = (None, F')" "F d = Some Dir"
  shows "F' = F ++ map_of (rev (module_tree here d m))"
proof -
  from assms(1) obtain G1 G2 G3 G4 G5 where
    ops: "make_wscript os d m F = (None, G1)" "make_model os d m G1 = (None, G2)" "make_test os d m G2 = (None, G3)"
      "make_helper os d m G3 = (None, G4)" "make_examples os d m G4 = (None, G5)" "make_doc os here d m G5 = (None, F')"
    unfolding module_ops_def by (auto simp del: run_ops.simps(2) dest!: run_ops_ConsD)
  note r1 = make_wscript_result [OF ops(1)]
  note r2 = made3 [OF ops(2) [unfolded make_model_def]]
  note r3 = made2 [OF ops(3) [unfolded make_test_def]]
  note r4 = made3 [OF ops(4) [unfolded make_helper_def]]
  note r5 = made3 [OF ops(5) [unfolded make_examples_def]]
  have d1: "G1 d = Some Dir" by (simp add: r1 assms(2))
  have d2: "G2 d = Some Dir" using r2 [OF d1] by (simp add: d1)
  have d3: "G3 d = Some Dir" using r3 [OF d2] by (simp add: d2)
  have d4: "G4 d = Some Dir" using r4 [OF d3] by (simp add: d3)
  have d5: "G5 d = Some Dir" using r5 [OF d4] by (simp add: d4)
  from make_doc_result [OF ops(6) d5] obtain rel where rel: "relpath (path_string here) (path_string d) ''.'' = Inr rel"
    and r6: "F' = G5(d @ [''doc''] \<mapsto> Dir, d @ [''doc'', m @ ''.rst''] \<mapsto>
           File (filled [''MODULE'' \<mapsto> m, ''MODULE_DIR'' \<mapsto> rel] DOC_RST_TEMPLATE))" .
  have "F = F(d \<mapsto> Dir)" using assms(2) by auto
  with r1 r2 [OF d1] r3 [OF d2] r4 [OF d3] r5 [OF d4] r6 rel show ?thesis
    by (simp add: module_tree_def Let_def)
qed

section \<open>A module is made completely or not at all\<close>

text \<open>Nothing lies below a path that does not exist.\<close>

definition rooted :: "fs \<Rightarrow> bool" where
  "rooted F \<longleftrightarrow> (\<forall>p x. F (p @ [x]) \<noteq> None \<longrightarrow> F p \<noteq> None)"

lemma rooted_below: "rooted F \<Longrightarrow> F p = None \<Longrightarrow> prefix p q \<Longrightarrow> F q = None"
proof (induction q rule: rev_induct)
  case (snoc x q)
  then show ?case by (auto simp: rooted_def prefix_snoc) (metis not_None_eq)
qed simp

lemma grown_missing: "grown p F F' \<Longrightarrow> F p = None \<Longrightarrow> F' p = None"
  by (metis grown_def prefix_order.less_irrefl)

lemma rollback_grown:
  assumes "rooted F" "F p = None" "grown p F F1" "\<And>q. \<not> prefix p q \<Longrightarrow> F2 q = F1 q"
  shows "grown p F (drop_tree p F2)"
  unfolding grown_def
proof
  fix q
  show "drop_tree p F2 q = F q \<or> F q = None \<and> drop_tree p F2 q = Some Dir \<and> strict_prefix q p"
  proof (cases "prefix p q")
    case True
    then have "take (length p) q = p" by (auto simp: prefix_def)
    with True assms(1,2) show ?thesis by (simp add: drop_tree_def rooted_below)
  next
    case False
    then have "take (length p) q \<noteq> p" by (metis append_take_drop_id prefixI)
    with False assms(3,4) show ?thesis by (simp add: drop_tree_def grown_def)
  qed
qed

text \<open>
  C27. A module is made completely or not at all, whichever operation the system refuses, as long as it lets the directory of the module be
  removed: with the answer \<open>True\<close> the module did not exist, and its directory then holds exactly the documented files, every template filled
  in; with the answer \<open>False\<close> nothing is left of it. In both cases the only other changes are new directories on the way to
  it, which the rollback does not take back. The function raises only when that removal is refused; then a part of the
  module may be left, in its own directory.
\<close>

theorem make_module_all_or_nothing:
  assumes "rooted F" and "make_module os here modpath modname F = (r, F')"
  shows "case r of
      Inr True \<Rightarrow> F (modpath @ [modname]) = None \<and>
        (\<exists>F1. grown (modpath @ [modname]) F F1 \<and> F' = F1 ++ map_of (rev (module_tree here (modpath @ [modname]) modname)))
    | Inr False \<Rightarrow> grown (modpath @ [modname]) F F'
    | Inl e \<Rightarrow> e = OSError \<and> F (modpath @ [modname]) = None \<and> (\<exists>G. \<not> may_remove os G (modpath @ [modname])) \<and>
        F' (modpath @ [modname]) = Some Dir \<and> grown (modpath @ [modname]) F (drop_tree (modpath @ [modname]) F')"
proof (cases "F (modpath @ [modname]) = None")
  case False
  with assms show ?thesis by (auto simp: make_module_def Let_def)
next
  case True
  let ?p = "modpath @ [modname]"
  let ?ops = "run_ops (module_ops os here ?p modname)"
  have "?p \<noteq> []" by simp
  then show ?thesis
  proof (cases rule: mkdir_parents_cases [of ?p os F])
    case (1 e G)
    with True have "G ?p = None" by (intro grown_missing [where F' = G])
    with True 1 assms(2) show ?thesis
      by (auto simp: make_module_def Let_def andthen_def)
  next
    case (2 F1)
    obtain oe G where ops: "?ops (F1(?p \<mapsto> Dir)) = (oe, G)" by fastforce
    have G: "G ?p = Some Dir" "\<And>q. \<not> prefix ?p q \<Longrightarrow> G q = F1 q"
      using stays_inD [OF stays_in_module _ ops] by auto
    show ?thesis
    proof (cases oe)
      case None
      with ops have "G = F1(?p \<mapsto> Dir) ++ map_of (rev (module_tree here ?p modname))"
        by (intro module_ops_result [where os = os]) simp_all
      moreover have "F1(?p \<mapsto> Dir) ++ map_of (rev (module_tree here ?p modname)) = F1 ++ map_of (rev (module_tree here ?p modname))"
        by (simp add: module_tree_def Let_def)
      ultimately have F': "r = Inr True" "F' = F1 ++ map_of (rev (module_tree here ?p modname))"
        using True assms(2) 2(1) ops None by (simp_all add: make_module_def Let_def andthen_def)
      show ?thesis unfolding F'(1) using True 2(2) F'(2) by auto
    next
      case (Some e)
      have undone: "grown ?p F (drop_tree ?p G)" by (rule rollback_grown [OF assms(1) True 2(2) G(2)])
      show ?thesis
      proof (cases "may_remove os G ?p")
        case True
        with \<open>F ?p = None\<close> Some assms(2) 2 ops G(1) have "r = Inr False \<and> F' = drop_tree ?p G"
          by (auto simp: make_module_def Let_def andthen_def rmtree_def)
        with undone show ?thesis by simp
      next
        case False
        with \<open>F ?p = None\<close> Some assms(2) 2 ops G(1) have
          "r = Inl OSError \<and> F' = (\<lambda>q. if take (length ?p) q = ?p \<and> q \<noteq> ?p \<and> removed os G ?p q then None else G q)"
          by (auto simp: make_module_def Let_def andthen_def rmtree_def)
        moreover from this have "drop_tree ?p F' = drop_tree ?p G" by (auto simp: drop_tree_def fun_eq_iff)
        ultimately show ?thesis using undone False G(1) True by (simp add: \<open>F ?p = None\<close>) blast
      qed
    qed
  qed
qed

text \<open>An operating system that refuses nothing\<close>

definition allow_all :: os where
  "allow_all = \<lparr>may_mkdir = \<lambda>F p. True, may_open = \<lambda>F p. True, may_write = \<lambda>F p. True, bytes_written = \<lambda>F p. 0,
     may_remove = \<lambda>F p. True, removed = \<lambda>F p q. False\<rparr>"

lemma allow_all_simps [simp]:
  "may_mkdir allow_all F p" "may_open allow_all F p" "may_write allow_all F p" "may_remove allow_all F p"
  by (simp_all add: allow_all_def)

lemma create_allowed:
  assumes "uses names t" "set names \<subseteq> dom kwargs" "F (butlast p) = Some Dir" "F p \<noteq> Some Dir" "p \<noteq> []"
  shows "create_file allow_all p t kwargs F = (None, F(p \<mapsto> File (filled kwargs t)))"
  using assms by (simp add: create_file_def Let_def format_filled)

lemma relpath_total: "path \<noteq> '''' \<Longrightarrow> \<exists>r. relpath here path begin = Inr r"
  by (simp add: relpath_def Let_def)

lemma make_module_allowed:
  assumes "F modpath = Some Dir" "\<And>q. prefix (modpath @ [modname]) q \<Longrightarrow> F q = None"
  shows "\<exists>F'. make_module allow_all here modpath modname F = (Inr True, F') \<and> F' (modpath @ [modname]) = Some Dir"
proof -
  let ?p = "modpath @ [modname]"
  have N: "F (modpath @ modname # xs) = None" for xs using assms(2) [of "modpath @ modname # xs"] by simp
  have "path_string ?p \<noteq> ''''" by (simp add: path_string_def)
  with relpath_total obtain rel where rel: "relpath (path_string here) (path_string ?p) ''.'' = Inr rel" by blast
  have "\<exists>F'. run_ops (mkdir_parents allow_all ?p # module_ops allow_all here ?p modname) F = (None, F') \<and> F' ?p = Some Dir"
    by (simp add: module_ops_def make_wscript_def make_model_def make_test_def make_helper_def make_examples_def
        make_doc_def andthen_def mkdir_parents_def os_mkdir_def assms(1) N rel butlast_append
        create_allowed [OF wscript_uses] create_allowed [OF model_cc_uses] create_allowed [OF model_h_uses]
        create_allowed [OF test_cc_uses] create_allowed [OF helper_cc_uses] create_allowed [OF helper_h_uses]
        create_allowed [OF examples_wscript_uses] create_allowed [OF example_cc_uses] create_allowed [OF doc_rst_uses])
  then show ?thesis by (auto simp: make_module_def Let_def N [of "[]", simplified])
qed

theorem make_module_all_or_nothing_witness:
  "\<exists>F' F1. make_module allow_all [''ns3''] [''ns3'', ''contrib''] ''lte-x'' (map_of [([''ns3'', ''contrib''], Dir), ([''ns3''], Dir), ([], Dir)]) = (Inr True, F') \<and>
     grown [''ns3'', ''contrib'', ''lte-x''] (map_of [([''ns3'', ''contrib''], Dir), ([''ns3''], Dir), ([], Dir)]) F1 \<and>
     F' = F1 ++ map_of (rev (module_tree [''ns3''] [''ns3'', ''contrib'', ''lte-x''] ''lte-x''))"
proof -
  let ?F = "map_of [([''ns3'', ''contrib''], Dir), ([''ns3''], Dir), ([], Dir)] :: fs"
  have "\<exists>F'. make_module allow_all [''ns3''] [''ns3'', ''contrib''] ''lte-x'' ?F = (Inr True, F') \<and>
    F' ([''ns3'', ''contrib''] @ [''lte-x'']) = Some Dir"
    by (rule make_module_allowed) (auto simp: prefix_def)
  then obtain F' where F': "make_module allow_all [''ns3''] [''ns3'', ''contrib''] ''lte-x'' ?F = (Inr True, F')" by blast
  have "rooted ?F" by (auto simp: rooted_def append_eq_Cons_conv split: if_splits)
  from make_module_all_or_nothing [OF this F'] F' show ?thesis by auto
qed

section \<open>What the program may touch\<close>

text \<open>A module changes its own directory and adds missing ones above it, whatever happens.\<close>

lemma make_module_touches:
  assumes "make_module os here modpath modname F = (r, F')" "F' q \<noteq> F q"
  shows "prefix (modpath @ [modname]) q \<or> (F q = None \<and> strict_prefix q (modpath @ [modname]))"
proof -
  let ?p = "modpath @ [modname]"
  let ?ops = "run_ops (module_ops os here ?p modname)"
  have drop: "drop_tree ?p G q = G q \<or> prefix ?p q" for G
    by (metis drop_tree_def append_take_drop_id prefixI)
  have below: "take (length ?p) q = ?p \<Longrightarrow> prefix ?p q" by (metis append_take_drop_id prefixI)
  show ?thesis
  proof (cases "F ?p = None")
    case False
    with assms show ?thesis by (auto simp: make_module_def Let_def)
  next
    case True
    have "?p \<noteq> []" by simp
    then show ?thesis
    proof (cases rule: mkdir_parents_cases [of ?p os F])
      case (1 e G)
      with True have "G ?p = None" by (intro grown_missing [where F' = G])
      with 1 True assms have "F' = G" by (auto simp: make_module_def Let_def andthen_def)
      with 1 assms(2) show ?thesis by (auto simp: grown_def)
    next
      case (2 F1)
      obtain s G where ops: "?ops (F1(?p \<mapsto> Dir)) = (s, G)" by fastforce
      have G: "G ?p = Some Dir" "\<not> prefix ?p q \<Longrightarrow> G q = F1 q"
        using stays_inD [OF stays_in_module _ ops] by auto
      have "F' q = G q \<or> prefix ?p q"
        using assms(1) 2 True ops G(1) drop [of G] below
        by (cases s) (auto simp: make_module_def Let_def andthen_def rmtree_def split: if_splits)
      with G(2) 2 assms(2) show ?thesis by (auto simp: grown_def)
    qed
  qed
qed

lemma make_all_touches:
  assumes "make_all os here ms F = (r, F')" "F' q \<noteq> F q"
  shows "\<exists>(modpath, modname) \<in> set ms. prefix (modpath @ [modname]) q \<or> (F q = None \<and> strict_prefix q (modpath @ [modname]))"
  using assms
proof (induction os here ms F rule: make_all.induct)
  case (2 os here modpath modname ms F)
  obtain b G where G: "make_module os here modpath modname F = (b, G)" by fastforce
  show ?case
  proof (cases "G q = F q")
    case False
    with make_module_touches [OF G] show ?thesis by auto
  next
    case True
    with 2(2,3) G have "b = Inr True \<and> make_all os here ms G = (r, F')"
      by (cases b) (auto split: bool.splits)
    with 2(1) 2(3) G True show ?thesis by fastforce
  qed
qed simp

text \<open>A planned module lies below \<open>contrib\<close> or, with no project, in \<open>src\<close>, on a path of allowed names.\<close>

definition planned :: "path \<Rightarrow> path \<times> string \<Rightarrow> bool" where
  "planned base pm \<longleftrightarrow>
     allowedRE (snd pm) \<and>
     (fst pm = base @ [''src''] \<or>
      (take (Suc (length base)) (fst pm) = base @ [''contrib''] \<and> list_all allowedRE (drop (Suc (length base)) (fst pm))))"

lemma planned_places:
  "planned base (modpath, modname) \<Longrightarrow> prefix (base @ [''src'']) modpath \<or> prefix (base @ [''contrib'']) modpath"
  by (metis append_take_drop_id fst_conv planned_def prefixI prefix_order.order_refl)

lemma plan_module_planned: "plan_module base project name = Inr (Some pm) \<Longrightarrow> planned base pm"
  by (auto simp: plan_module_def Let_def planned_def project_parts_def ebind_Inr_iff split: if_splits list.splits)

lemma plan_modules_planned: "plan_modules base project names = Inr ms \<Longrightarrow> \<forall>pm \<in> set ms. planned base pm"
proof (induction base project names arbitrary: ms rule: plan_modules.induct)
  case (2 base project n ns)
  then show ?case by (auto simp: ebind_Inr_iff plan_module_planned split: option.splits)
qed simp

lemma rooted_prefix: "rooted F \<Longrightarrow> F p \<noteq> None \<Longrightarrow> prefix q p \<Longrightarrow> F q \<noteq> None"
  using rooted_below by metis

text \<open>
  Whatever names and project are given and however the program ends, it changes nothing outside \<open>src\<close> and \<open>contrib\<close>:
  each change is in the directory of a module with an allowed name in an allowed place, or adds a missing directory on
  the way to it.
\<close>
theorem create_module_confined:
  assumes "rooted F" and "snd (create_module os base project names F) q \<noteq> F q"
  shows "(prefix (base @ [''src'']) q \<or> prefix (base @ [''contrib'']) q) \<and>
         (\<exists>modpath modname. planned base (modpath, modname) \<and>
            (prefix (modpath @ [modname]) q \<or> (F q = None \<and> strict_prefix q (modpath @ [modname]))))"
proof -
  from assms(2) obtain ms r where places: "F (base @ [''src'']) = Some Dir" "F (base @ [''contrib'']) = Some Dir"
    and ms: "plan_modules base project names = Inr ms"
    and make: "make_all os base ms F = (r, snd (create_module os base project names F))"
    by (auto simp: create_module_def split: if_splits sum.splits prod.splits)
  from make_all_touches [OF make assms(2)] plan_modules_planned [OF ms] obtain modpath modname
    where pl: "planned base (modpath, modname)"
      and q: "prefix (modpath @ [modname]) q \<or> (F q = None \<and> strict_prefix q (modpath @ [modname]))" by blast
  from planned_places [OF pl] obtain s where s: "s \<in> {''src'', ''contrib''}" "prefix (base @ [s]) modpath" by auto
  then have in_p: "prefix (base @ [s]) (modpath @ [modname])" by (simp add: prefix_prefix)
  have "prefix (base @ [s]) q"
  proof (cases "prefix (modpath @ [modname]) q")
    case True
    with in_p show ?thesis by (rule prefix_order.order_trans)
  next
    case False
    with q have "F q = None" "prefix q (modpath @ [modname])" by (metis prefix_order.less_imp_le)+
    moreover have "\<not> prefix q (base @ [s])"
      using rooted_prefix [OF assms(1), of "base @ [s]" q] places s(1) \<open>F q = None\<close> by auto
    ultimately show ?thesis using in_p prefix_same_cases by blast
  qed
  with s(1) pl q show ?thesis by auto
qed

text \<open>
  A module that cannot be made, for example because it exists, ends the work: the modules after it are skipped, and the
  exit code is 0 all the same. Of a name with a directory in it the last part is dropped in silence, and the name of one
  of the two roots alone ends the program by an \<open>IndexError\<close>.
\<close>

lemma existing_module_stops:
  "F (modpath @ [modname]) \<noteq> None \<Longrightarrow> make_all os here ((modpath, modname) # ms) F = (Inr False, F)"
  by (simp add: make_module_def)

lemma failure_exit_code:
  assumes "F (base @ [''src'']) = Some Dir" "F (base @ [''contrib'']) = Some Dir"
    and "plan_modules base '''' names = Inr ms" "make_all os base ms F = (Inr False, F')"
  shows "create_module os base '''' names F = (0, F')"
  using assms by (simp add: create_module_def)

lemma nested_name_cut: "plan_module base '''' ''a/b'' = Inr (Some (base @ [''contrib''], ''a''))"
proof -
  have "path_parts (strip_seps ''a/b'') = [''a'', ''b'']" "strip_seps ''a/b'' \<noteq> ''''" "allowedRE ''a''" by code_simp+
  then show ?thesis by (simp add: plan_module_def Let_def)
qed

lemma src_alone_fails: "plan_module base '''' ''src'' = Inl IndexError"
proof -
  have "path_parts (strip_seps ''src'') = [''src'']" "strip_seps ''src'' \<noteq> ''''" by code_simp+
  then show ?thesis by (simp add: plan_module_def Let_def)
qed

theorem create_module_confined_witness:
  "\<exists>modpath modname. planned [''ns3''] (modpath, modname) \<and>
     (prefix (modpath @ [modname]) [''ns3'', ''contrib'', ''lte-x''] \<or>
      (map_of [([''ns3'', ''contrib''], Dir), ([''ns3'', ''src''], Dir), ([''ns3''], Dir), ([], Dir)]
         [''ns3'', ''contrib'', ''lte-x''] = None \<and>
       strict_prefix [''ns3'', ''contrib'', ''lte-x''] (modpath @ [modname])))"
proof -
  let ?F = "map_of [([''ns3'', ''contrib''], Dir), ([''ns3'', ''src''], Dir), ([''ns3''], Dir), ([], Dir)] :: fs"
  let ?q = "[''ns3'', ''contrib'', ''lte-x'']"
  have "\<exists>F'. make_module allow_all [''ns3''] [''ns3'', ''contrib''] ''lte-x'' ?F = (Inr True, F') \<and>
    F' ([''ns3'', ''contrib''] @ [''lte-x'']) = Some Dir"
    by (rule make_module_allowed) (auto simp: prefix_def)
  then obtain F' where F': "make_module allow_all [''ns3''] [''ns3'', ''contrib''] ''lte-x'' ?F = (Inr True, F')" "F' ?q = Some Dir"
    by auto
  have "plan_module [''ns3''] '''' ''lte-x'' = Inr (Some ([''ns3'', ''contrib''], ''lte-x''))" by code_simp
  then have "create_module allow_all [''ns3''] '''' [''lte-x''] ?F = (0, F')"
    using F'(1) by (simp add: create_module_def)
  with F'(2) have "snd (create_module allow_all [''ns3''] '''' [''lte-x''] ?F) ?q \<noteq> ?F ?q" by simp
  moreover have "rooted ?F" by (auto simp: rooted_def append_eq_Cons_conv split: if_splits)
  ultimately show ?thesis using create_module_confined by blast
qed

end
