(* ===== verification/VizThreads.thy ===== *)
theory VizThreads
  imports Prelude PyFloat
begin

text \<open>
  The two threads of \<open>src/visualizer/visualizer/core.py\<close>: the simulation thread, and the main thread with the event loop of
  gtk, whose callbacks can be nested because \<open>update_view_timeout\<close> handles events while the simulator is busy. They share a
  lock, an event and the flag to quit. Every access to what they share is one step.
\<close>

section \<open>State\<close>

datatype owner = Sim | Gui

text \<open>Where the simulation thread is in \<open>run\<close>\<close>

datatype sim_point = Loop_test | Wait_go | Clear_go | Quit_test | Acquire | Run_until | Idle_add | Release | Ended_run

text \<open>
  The calls the main thread is in, the innermost first. A call of \<open>update_view_timeout\<close> carries the number of its source. A
  short callback is one that takes the lock, works and gives it back: \<open>update_model\<close>, \<open>set_nodes_of_interest\<close> and the other
  handlers of that form. \<open>Unlocked_read\<close> is one that reads the simulator without the lock: \<open>autoscale_view\<close>, which a timer
  calls after the simulation thread has been started, and the menu of a node (\<open>olsr.py\<close>).
\<close>

datatype gui_call =
  Try_lock nat | Nested_events nat | Viewing nat | Viewed nat "string list"
| Wait_lock | Locked_call | Unlocked_read | Quitting | Joining

text \<open>Times of the simulator are in nanoseconds; the library converts them from and to seconds.\<close>

record sim_clock =
  seconds :: "int \<Rightarrow> double"
  nanoseconds :: "double \<Rightarrow> int"

record viz =
  sim_lock :: "owner option"
  go :: bool
  quit :: bool
  target_time :: double
  pause_messages :: "string list"
  sim_at :: sim_point
  sim_now :: int
  frames :: "gui_call list"
  idle_updates :: nat
  timers :: "nat set"
  timeout_id :: "nat option"
  next_source :: nat
  play_active :: bool
  sample_period :: double
  main_ended :: bool
  seen_time :: "int option"

text \<open>\<open>seen_time\<close> is the time of the simulator the last update of the view has shown; no code reads it.\<close>

section \<open>The simulation thread\<close>

text \<open>\<open>PyViz::SimulatorRunUntil\<close> stops at its target time at the latest, earlier when the simulation pauses.\<close>

inductive sim_step :: "sim_clock \<Rightarrow> viz \<Rightarrow> viz \<Rightarrow> bool" for C where
  loop_test: "sim_at s = Loop_test \<Longrightarrow> sim_step C s (s\<lparr>sim_at := (if quit s then Ended_run else Wait_go)\<rparr>)"
| woken: "sim_at s = Wait_go \<Longrightarrow> go s \<Longrightarrow> sim_step C s (s\<lparr>sim_at := Clear_go\<rparr>)"
| clear: "sim_at s = Clear_go \<Longrightarrow> sim_step C s (s\<lparr>go := False, sim_at := Quit_test\<rparr>)"
| quit_test: "sim_at s = Quit_test \<Longrightarrow> sim_step C s (s\<lparr>sim_at := (if quit s then Ended_run else Acquire)\<rparr>)"
| acquire: "sim_at s = Acquire \<Longrightarrow> sim_lock s = None \<Longrightarrow> sim_step C s (s\<lparr>sim_lock := Some Sim, sim_at := Run_until\<rparr>)"
| run_until: "sim_at s = Run_until \<Longrightarrow> sim_now s \<le> t \<Longrightarrow> t \<le> max (sim_now s) (nanoseconds C (target_time s)) \<Longrightarrow>
    sim_step C s (s\<lparr>sim_now := t, pause_messages := pause_messages s @ ms, sim_at := Idle_add\<rparr>)"
| idle_add: "sim_at s = Idle_add \<Longrightarrow> sim_step C s (s\<lparr>idle_updates := idle_updates s + 1, sim_at := Release\<rparr>)"
| release: "sim_at s = Release \<Longrightarrow> sim_step C s (s\<lparr>sim_lock := None, sim_at := Loop_test\<rparr>)"

section \<open>The main thread\<close>

text \<open>An update of the view that raises gives the lock back, and gtk removes the source of the call.\<close>

definition source_remove :: "nat option \<Rightarrow> viz \<Rightarrow> viz" where
  "source_remove i s = (case i of None \<Rightarrow> s | Some i \<Rightarrow> s\<lparr>timers := timers s - {i}\<rparr>)"

definition start_update_timer :: "viz \<Rightarrow> viz" where
  "start_update_timer s =
     (let s = source_remove (timeout_id s) s
      in s\<lparr>timers := insert (next_source s) (timers s), timeout_id := Some (next_source s), next_source := next_source s + 1\<rparr>)"

definition play_button_toggled :: "viz \<Rightarrow> viz" where
  "play_button_toggled s = (if play_active s then start_update_timer s else source_remove (timeout_id s) s)"

definition set_active :: "bool \<Rightarrow> viz \<Rightarrow> viz" where
  "set_active b s = (if play_active s = b then s else play_button_toggled (s\<lparr>play_active := b\<rparr>))"

definition SAMPLE_PERIOD :: double where
  "SAMPLE_PERIOD = fl (1 / 10)"

definition speed_changed :: "double \<Rightarrow> viz \<Rightarrow> viz" where
  "speed_changed v s = start_update_timer (s\<lparr>sample_period := py_mul SAMPLE_PERIOD v\<rparr>)"

text \<open>\<open>update_view_timeout\<close> with the lock: the view is drawn, and the next target is one period from now.\<close>

definition view_updated :: "sim_clock \<Rightarrow> viz \<Rightarrow> viz" where
  "view_updated C s =
     s\<lparr>pause_messages := [], seen_time := Some (sim_now s),
       target_time := py_add (seconds C (sim_now s)) (sample_period s), sim_lock := None\<rparr>"

text \<open>
  And without it: a pause message releases the play button; while it is released the source is removed by the answer
  \<open>False\<close>, otherwise the simulation may go on.
\<close>

definition view_done :: "nat \<Rightarrow> string list \<Rightarrow> viz \<Rightarrow> viz" where
  "view_done i ms s =
     (let s = (if ms \<noteq> [] then set_active False s else s)
      in if \<not> play_active s then s\<lparr>timeout_id := None, timers := timers s - {i}\<rparr> else s\<lparr>go := True\<rparr>)"

definition quit_begun :: "viz \<Rightarrow> viz" where
  "quit_begun s = (source_remove (timeout_id s) s)\<lparr>timeout_id := None, quit := True\<rparr>"

text \<open>Events are handled by the main loop, and by a call of \<open>update_view_timeout\<close> that could not get the lock.\<close>

definition handles_events :: "viz \<Rightarrow> bool" where
  "handles_events s \<longleftrightarrow> (case frames s of [] \<Rightarrow> \<not> main_ended s | Nested_events _ # _ \<Rightarrow> True | _ \<Rightarrow> False)"

text \<open>The speed stays in the bounds of its adjustment. A source is not called again while a call of it is running.\<close>

fun source_of :: "gui_call \<Rightarrow> nat option" where
  "source_of (Try_lock i) = Some i"
| "source_of (Nested_events i) = Some i"
| "source_of (Viewing i) = Some i"
| "source_of (Viewed i ms) = Some i"
| "source_of _ = None"

definition call :: "gui_call \<Rightarrow> viz \<Rightarrow> viz" where
  "call f s = s\<lparr>frames := f # frames s\<rparr>"

definition goto :: "gui_call \<Rightarrow> viz \<Rightarrow> viz" where
  "goto f s = s\<lparr>frames := f # tl (frames s)\<rparr>"

definition return :: "viz \<Rightarrow> viz" where
  "return s = s\<lparr>frames := tl (frames s)\<rparr>"

inductive gui_step :: "sim_clock \<Rightarrow> viz \<Rightarrow> viz \<Rightarrow> bool" for C where
  timer: "handles_events s \<Longrightarrow> i \<in> timers s \<Longrightarrow> Some i \<notin> set (map source_of (frames s)) \<Longrightarrow> gui_step C s (call (Try_lock i) s)"
| idle: "handles_events s \<Longrightarrow> 0 < idle_updates s \<Longrightarrow>
    gui_step C s (call Wait_lock (s\<lparr>idle_updates := idle_updates s - 1\<rparr>))"
| handler: "handles_events s \<Longrightarrow> gui_step C s (call Wait_lock s)"
| read: "handles_events s \<Longrightarrow> gui_step C s (call Unlocked_read s)"
| toggle: "handles_events s \<Longrightarrow> gui_step C s (set_active (\<not> play_active s) s)"
| speed: "handles_events s \<Longrightarrow> fl (1 / 100) \<le> v \<Longrightarrow> v \<le> 10 \<Longrightarrow> gui_step C s (speed_changed v s)"
| delete_event: "handles_events s \<Longrightarrow> gui_step C s (call Quitting (quit_begun s))"
| lock_free: "frames s = Try_lock i # fs \<Longrightarrow> sim_lock s = None \<Longrightarrow> gui_step C s (goto (Viewing i) (s\<lparr>sim_lock := Some Gui\<rparr>))"
| lock_busy: "frames s = Try_lock i # fs \<Longrightarrow> sim_lock s \<noteq> None \<Longrightarrow> gui_step C s (goto (Nested_events i) s)"
| no_events: "frames s = Nested_events i # fs \<Longrightarrow> gui_step C s (goto (Try_lock i) s)"
| view: "frames s = Viewing i # fs \<Longrightarrow> gui_step C s (goto (Viewed i (pause_messages s)) (view_updated C s))"
| view_failed: "frames s = Viewing i # fs \<Longrightarrow>
    gui_step C s (return (s\<lparr>pause_messages := [], sim_lock := None, timers := timers s - {i}\<rparr>))"
| viewed: "frames s = Viewed i ms # fs \<Longrightarrow> gui_step C s (return (view_done i ms s))"
| lock: "frames s = Wait_lock # fs \<Longrightarrow> sim_lock s = None \<Longrightarrow> gui_step C s (goto Locked_call (s\<lparr>sim_lock := Some Gui\<rparr>))"
| unlock: "frames s = Locked_call # fs \<Longrightarrow> gui_step C s (return (s\<lparr>sim_lock := None\<rparr>))"
| read_done: "frames s = Unlocked_read # fs \<Longrightarrow> gui_step C s (return s)"
| wake: "frames s = Quitting # fs \<Longrightarrow> gui_step C s (goto Joining (s\<lparr>go := True\<rparr>))"
| join: "frames s = Joining # fs \<Longrightarrow> sim_at s = Ended_run \<Longrightarrow> gui_step C s (return (s\<lparr>main_ended := True\<rparr>))"

text \<open>
  The visualizer as \<open>start\<close> hands it to the main loop: the speed has been set to 1, which has started a timer, and
  the simulation thread runs.
\<close>

definition viz_start :: "int \<Rightarrow> viz" where
  "viz_start t =
     speed_changed 1
       \<lparr>sim_lock = None, go = False, quit = False, target_time = 0, pause_messages = [], sim_at = Loop_test, sim_now = t,
        frames = [], idle_updates = 0, timers = {}, timeout_id = None, next_source = 1, play_active = False,
        sample_period = SAMPLE_PERIOD, main_ended = False, seen_time = None\<rparr>"

inductive viz_reach :: "sim_clock \<Rightarrow> int \<Rightarrow> viz \<Rightarrow> bool" for C t where
  start: "viz_reach C t (viz_start t)"
| sim: "viz_reach C t s \<Longrightarrow> sim_step C s s' \<Longrightarrow> viz_reach C t s'"
| gui: "viz_reach C t s \<Longrightarrow> gui_step C s s' \<Longrightarrow> viz_reach C t s'"

inductive_cases sim_stepE: "sim_step C s s'"
inductive_cases gui_stepE: "gui_step C s s'"

named_theorems timer_simps "what the functions on the timers leave as it is"

section \<open>Invariants\<close>

text \<open>Only the innermost call can be doing something else than handling events.\<close>

fun nests :: "gui_call \<Rightarrow> bool" where
  "nests (Nested_events i) = True"
| "nests _ = False"

definition frames_ok :: "viz \<Rightarrow> bool" where
  "frames_ok s \<longleftrightarrow> list_all nests (tl (frames s))"

text \<open>Who holds the lock can be seen from where the threads are.\<close>

definition sim_has_lock :: "viz \<Rightarrow> bool" where
  "sim_has_lock s \<longleftrightarrow> sim_at s \<in> {Run_until, Idle_add, Release}"

fun holding :: "gui_call list \<Rightarrow> bool" where
  "holding (Viewing i # fs) = True"
| "holding (Locked_call # fs) = True"
| "holding _ = False"

definition gui_has_lock :: "viz \<Rightarrow> bool" where
  "gui_has_lock s \<longleftrightarrow> holding (frames s)"

definition lock_ok :: "viz \<Rightarrow> bool" where
  "lock_ok s \<longleftrightarrow> (sim_lock s = Some Sim \<longleftrightarrow> sim_has_lock s) \<and> (sim_lock s = Some Gui \<longleftrightarrow> gui_has_lock s)"

text \<open>A simulation thread that waits is woken once the main thread waits for its end.\<close>

fun leaving :: "gui_call list \<Rightarrow> bool" where
  "leaving (Quitting # fs) = True"
| "leaving (Joining # fs) = True"
| "leaving _ = False"

fun joining :: "gui_call list \<Rightarrow> bool" where
  "joining (Joining # fs) = True"
| "joining _ = False"

definition quit_ok :: "viz \<Rightarrow> bool" where
  "quit_ok s \<longleftrightarrow> (leaving (frames s) \<longrightarrow> quit s) \<and> (joining (frames s) \<and> sim_at s = Wait_go \<longrightarrow> go s)"

text \<open>
  Before the first update of the view the simulation thread is not let go but to end; after it the simulator is between
  the time shown and the target, which was set at most a second later.
\<close>

fun showing :: "gui_call list \<Rightarrow> bool" where
  "showing (Viewed i ms # fs) = True"
| "showing _ = False"

definition not_seen_ok :: "int \<Rightarrow> viz \<Rightarrow> bool" where
  "not_seen_ok t s \<longleftrightarrow>
     (seen_time s = None \<longrightarrow>
        sim_now s = t \<and> \<not> showing (frames s) \<and> sim_at s \<in> {Loop_test, Wait_go, Clear_go, Quit_test, Ended_run} \<and>
        (go s \<or> sim_at s \<in> {Clear_go, Quit_test} \<longrightarrow> quit s))"

definition ahead_ok :: "sim_clock \<Rightarrow> viz \<Rightarrow> bool" where
  "ahead_ok C s \<longleftrightarrow>
     (\<forall>v. seen_time s = Some v \<longrightarrow>
        v \<le> sim_now s \<and> sim_now s \<le> max v (nanoseconds C (target_time s)) \<and>
        (\<exists>p \<in> {0..1}. target_time s = py_add (seconds C v) p))"

definition viz_ok :: "sim_clock \<Rightarrow> int \<Rightarrow> viz \<Rightarrow> bool" where
  "viz_ok C t s \<longleftrightarrow>
     frames_ok s \<and> lock_ok s \<and> quit_ok s \<and> not_seen_ok t s \<and> ahead_ok C s \<and> sample_period s \<in> {0..1}"

text \<open>The functions on the timers change nothing the simulation thread sees.\<close>



lemma source_remove_frame [timer_simps]:
  "sim_lock (source_remove i s) = sim_lock s" "go (source_remove i s) = go s" "quit (source_remove i s) = quit s"
  "target_time (source_remove i s) = target_time s" "sim_at (source_remove i s) = sim_at s"
  "sim_now (source_remove i s) = sim_now s" "seen_time (source_remove i s) = seen_time s" "sample_period (source_remove i s) = sample_period s"
  "frames (source_remove i s) = frames s" "play_active (source_remove i s) = play_active s"
  by (simp_all add: source_remove_def split: option.splits)

lemma start_update_timer_frame [timer_simps]:
  "sim_lock (start_update_timer s) = sim_lock s" "go (start_update_timer s) = go s" "quit (start_update_timer s) = quit s"
  "target_time (start_update_timer s) = target_time s" "sim_at (start_update_timer s) = sim_at s"
  "sim_now (start_update_timer s) = sim_now s" "seen_time (start_update_timer s) = seen_time s" "sample_period (start_update_timer s) = sample_period s"
  "frames (start_update_timer s) = frames s" "play_active (start_update_timer s) = play_active s"
  by (simp_all add: start_update_timer_def Let_def timer_simps)

lemma set_active_frame [timer_simps]:
  "sim_lock (set_active b s) = sim_lock s" "go (set_active b s) = go s" "quit (set_active b s) = quit s"
  "target_time (set_active b s) = target_time s" "sim_at (set_active b s) = sim_at s"
  "sim_now (set_active b s) = sim_now s" "seen_time (set_active b s) = seen_time s" "sample_period (set_active b s) = sample_period s" "frames (set_active b s) = frames s"
  by (simp_all add: set_active_def play_button_toggled_def timer_simps)

lemma speed_changed_frame [timer_simps]:
  "sim_lock (speed_changed v s) = sim_lock s" "go (speed_changed v s) = go s" "quit (speed_changed v s) = quit s"
  "target_time (speed_changed v s) = target_time s" "sim_at (speed_changed v s) = sim_at s"
  "sim_now (speed_changed v s) = sim_now s" "seen_time (speed_changed v s) = seen_time s"
  "frames (speed_changed v s) = frames s" "sample_period (speed_changed v s) = py_mul SAMPLE_PERIOD v"
  by (simp_all add: speed_changed_def timer_simps)

lemma view_done_frame [timer_simps]:
  "sim_lock (view_done i ms s) = sim_lock s" "quit (view_done i ms s) = quit s"
  "target_time (view_done i ms s) = target_time s" "sim_at (view_done i ms s) = sim_at s"
  "sim_now (view_done i ms s) = sim_now s" "seen_time (view_done i ms s) = seen_time s" "sample_period (view_done i ms s) = sample_period s" "frames (view_done i ms s) = frames s"
  by (simp_all add: view_done_def Let_def timer_simps)

lemma quit_begun_frame [timer_simps]:
  "sim_lock (quit_begun s) = sim_lock s" "go (quit_begun s) = go s" "quit (quit_begun s)"
  "target_time (quit_begun s) = target_time s" "sim_at (quit_begun s) = sim_at s"
  "sim_now (quit_begun s) = sim_now s" "seen_time (quit_begun s) = seen_time s" "sample_period (quit_begun s) = sample_period s" "frames (quit_begun s) = frames s"
  by (simp_all add: quit_begun_def timer_simps)

lemma periods:
  assumes "0 \<le> v" "v \<le> 10"
  shows "0 \<le> py_mul SAMPLE_PERIOD v" "py_mul SAMPLE_PERIOD v \<le> 1"
proof -
  have pos: "0 \<le> SAMPLE_PERIOD" by (simp add: SAMPLE_PERIOD_def b64.rnd_nonneg)
  with assms(1) show "0 \<le> py_mul SAMPLE_PERIOD v" by (simp add: py_mul_def b64.rnd_nonneg)
  have "fl (SAMPLE_PERIOD * v) \<le> fl (SAMPLE_PERIOD * 10)" using assms pos by (intro b64.rnd_mono mult_left_mono) simp_all
  also have "\<dots> = 1" by code_simp
  finally show "py_mul SAMPLE_PERIOD v \<le> 1" by (simp add: py_mul_def)
qed

lemma fl_speed_pos: "fl (1 / 100) \<le> v \<Longrightarrow> 0 \<le> v"
  using b64.rnd_nonneg [of "1 / 100"] by simp

lemma viz_ok_start: "viz_ok C t (viz_start t)"
  using periods [of 1]
  by (simp add: viz_ok_def frames_ok_def lock_ok_def quit_ok_def not_seen_ok_def ahead_ok_def sim_has_lock_def gui_has_lock_def
      viz_start_def timer_simps)

lemma joining_leaving: "joining fs \<Longrightarrow> leaving fs"
  by (cases fs rule: joining.cases) auto

lemma viz_ok_sim: "sim_step C s s' \<Longrightarrow> viz_ok C t s \<Longrightarrow> viz_ok C t s'"
  unfolding viz_ok_def
  by (erule sim_step.cases)
    (auto simp: frames_ok_def lock_ok_def quit_ok_def not_seen_ok_def ahead_ok_def sim_has_lock_def gui_has_lock_def
      dest: joining_leaving)

lemma nests_hd: "list_all nests fs \<Longrightarrow> \<not> holding fs \<and> \<not> leaving fs \<and> \<not> joining fs \<and> \<not> showing fs \<and> list_all nests (tl fs)"
  by (cases fs rule: list.exhaust; cases "hd fs") auto

lemma handles_events_nests: "handles_events s \<Longrightarrow> list_all nests (tl (frames s)) \<Longrightarrow> list_all nests (frames s)"
  by (auto simp: handles_events_def split: list.splits gui_call.splits)

lemma frames_ok_gui: "gui_step C s s' \<Longrightarrow> frames_ok s \<Longrightarrow> frames_ok s'"
  by (erule gui_step.cases)
    (auto simp: frames_ok_def timer_simps call_def goto_def return_def view_updated_def handles_events_nests dest: nests_hd)

lemma lock_ok_gui: "gui_step C s s' \<Longrightarrow> frames_ok s \<Longrightarrow> lock_ok s \<Longrightarrow> lock_ok s'"
  by (erule gui_step.cases)
    (auto simp: lock_ok_def frames_ok_def sim_has_lock_def gui_has_lock_def timer_simps call_def goto_def return_def view_updated_def
      dest!: handles_events_nests dest: nests_hd)

lemma quit_ok_gui: "gui_step C s s' \<Longrightarrow> frames_ok s \<Longrightarrow> quit_ok s \<Longrightarrow> quit_ok s'"
  by (erule gui_step.cases)
    (auto simp: quit_ok_def frames_ok_def timer_simps call_def goto_def return_def view_updated_def
      dest!: handles_events_nests dest: nests_hd)

lemma not_seen_ok_gui: "gui_step C s s' \<Longrightarrow> frames_ok s \<Longrightarrow> quit_ok s \<Longrightarrow> not_seen_ok t s \<Longrightarrow> not_seen_ok t s'"
  by (erule gui_step.cases)
    (auto simp: not_seen_ok_def quit_ok_def frames_ok_def timer_simps call_def goto_def return_def view_updated_def
      dest!: handles_events_nests dest: nests_hd)

lemma ahead_ok_gui: "gui_step C s s' \<Longrightarrow> sample_period s \<in> {0..1} \<Longrightarrow> ahead_ok C s \<Longrightarrow> ahead_ok C s'"
  by (erule gui_step.cases)
    (auto simp: ahead_ok_def timer_simps call_def goto_def return_def view_updated_def)

lemma sample_period_gui: "gui_step C s s' \<Longrightarrow> sample_period s \<in> {0..1} \<Longrightarrow> sample_period s' \<in> {0..1}"
  by (erule gui_step.cases)
    (auto simp: timer_simps call_def goto_def return_def view_updated_def intro!: periods dest: fl_speed_pos)

lemma viz_reach_ok: "viz_reach C t s \<Longrightarrow> viz_ok C t s"
proof (induction rule: viz_reach.induct)
  case (gui s s')
  then show ?case
    unfolding viz_ok_def
    by (blast intro: frames_ok_gui lock_ok_gui quit_ok_gui not_seen_ok_gui ahead_ok_gui sample_period_gui)
qed (auto intro: viz_ok_start viz_ok_sim)

section \<open>Properties\<close>

text \<open>
  C28. The lock excludes: it belongs to the simulation thread exactly from before \<open>SimulatorRunUntil\<close> to its release, and to the
  main thread exactly while it draws the view or is in a handler that took the lock, so that neither of these happens while the
  simulator runs. The thread that holds the lock can always go on, so that no wait for it is forever. (The two handlers that
  read without the lock are not covered: \<open>unlocked_read_races\<close>.)
\<close>

theorem viz_lock_safe:
  assumes "viz_reach C t s"
  shows "(sim_lock s = Some Sim \<longleftrightarrow> sim_has_lock s) \<and> (sim_lock s = Some Gui \<longleftrightarrow> gui_has_lock s) \<and>
         \<not> (sim_has_lock s \<and> gui_has_lock s) \<and>
         (sim_lock s = Some Sim \<longrightarrow> (\<exists>s'. sim_step C s s')) \<and> (sim_lock s = Some Gui \<longrightarrow> (\<exists>s'. gui_step C s s'))"
proof -
  have lock: "lock_ok s" using viz_reach_ok [OF assms] by (simp add: viz_ok_def)
  have "\<exists>s'. sim_step C s s'" if "sim_has_lock s"
    using that sim_step.run_until [of s "sim_now s"] by (auto simp: sim_has_lock_def intro: sim_step.intros)
  moreover have "\<exists>s'. gui_step C s s'" if "gui_has_lock s"
    using that by (cases "frames s" rule: holding.cases) (auto simp: gui_has_lock_def intro: gui_step.intros)
  ultimately show ?thesis using lock by (auto simp: lock_ok_def)
qed

text \<open>
  C29. The simulator never runs away from the view: before the first update of the view it stands still, and then it is
  never behind the time shown and never beyond the target set with it, which is at most one second later.
\<close>
theorem viz_never_ahead:
  assumes "viz_reach C t s"
  shows "case seen_time s of
           None \<Rightarrow> sim_now s = t
         | Some v \<Rightarrow> v \<le> sim_now s \<and> (\<exists>p \<in> {0..1}. sim_now s \<le> max v (nanoseconds C (py_add (seconds C v) p)))"
proof (cases "seen_time s")
  case None
  with viz_reach_ok [OF assms] show ?thesis by (simp add: viz_ok_def not_seen_ok_def)
next
  case (Some v)
  with viz_reach_ok [OF assms] have "v \<le> sim_now s" "sim_now s \<le> max v (nanoseconds C (target_time s))"
    "\<exists>p \<in> {0..1}. target_time s = py_add (seconds C v) p" by (auto simp: viz_ok_def ahead_ok_def)
  with Some show ?thesis by force
qed

text \<open>The steps the simulation thread has left once it is to quit\<close>

fun steps_left :: "sim_point \<Rightarrow> nat" where
  "steps_left Ended_run = 0"
| "steps_left Loop_test = 1"
| "steps_left Release = 2"
| "steps_left Idle_add = 3"
| "steps_left Run_until = 4"
| "steps_left Acquire = 5"
| "steps_left Quit_test = 6"
| "steps_left Clear_go = 7"
| "steps_left Wait_go = 8"

lemma quit_step: "sim_step C s s' \<Longrightarrow> quit s \<Longrightarrow> steps_left (sim_at s') < steps_left (sim_at s) \<and> quit s' \<and> frames s' = frames s"
  by (erule sim_step.cases) auto

lemma joining_moves:
  assumes "viz_ok C t s" "joining (frames s)"
  shows "sim_at s = Ended_run \<or> (\<exists>s'. sim_step C s s')"
proof -
  from assms have "quit s" "sim_at s = Wait_go \<Longrightarrow> go s" "sim_lock s \<noteq> Some Gui"
    by (auto simp: viz_ok_def quit_ok_def lock_ok_def gui_has_lock_def dest: joining_leaving elim!: joining.elims)
  moreover have "sim_lock s = Some Sim \<Longrightarrow> sim_at s \<noteq> Acquire" using assms by (auto simp: viz_ok_def lock_ok_def sim_has_lock_def)
  then have "sim_at s = Acquire \<Longrightarrow> sim_lock s = None"
    using \<open>sim_lock s \<noteq> Some Gui\<close> by (cases "sim_lock s") (auto intro: owner.exhaust)
  ultimately show ?thesis
    using sim_step.run_until [of s "sim_now s"]
    by (cases "sim_at s") (auto intro: sim_step.intros)
qed

lemma joining_gui: "gui_step C s s' \<Longrightarrow> joining (frames s) \<Longrightarrow> sim_at s = Ended_run"
  by (erule gui_step.cases) (auto simp: handles_events_def elim!: joining.elims)

text \<open>
  C30. Closing the window always ends the simulation thread: while the main thread waits in \<open>join\<close>, it stands until the thread
  has ended, and the thread, wherever it is, is never blocked and ends within eight of its steps.
\<close>
theorem viz_quit_ends:
  assumes "viz_reach C t s" "joining (frames s)" "(sim_step C ^^ n) s s'"
  shows "n \<le> 8 \<and> joining (frames s') \<and> (sim_at s' = Ended_run \<or> (\<exists>s''. sim_step C s' s'')) \<and>
         (\<forall>u. gui_step C s' u \<longrightarrow> sim_at s' = Ended_run)"
proof -
  have "viz_ok C t s' \<and> quit s' \<and> frames s' = frames s \<and> n + steps_left (sim_at s') \<le> steps_left (sim_at s)"
    using assms(3)
  proof (induction n arbitrary: s')
    case 0
    with viz_reach_ok [OF assms(1)] assms(2) show ?case by (auto simp: viz_ok_def quit_ok_def dest: joining_leaving)
  next
    case (Suc n)
    then obtain u where "(sim_step C ^^ n) s u" and u: "sim_step C u s'" by (auto elim: relpowp_Suc_E)
    with Suc.IH [of u] quit_step [OF u] viz_ok_sim [OF u, of t] show ?case by auto
  qed
  moreover have "steps_left (sim_at s) \<le> 8" by (cases "sim_at s") simp_all
  ultimately show ?thesis using assms(2) joining_moves [of C t s'] joining_gui by auto
qed

section \<open>Concrete runs\<close>

lemma then_gui: "viz_reach C t s \<Longrightarrow> gui_step C s s' \<Longrightarrow> s' = u \<Longrightarrow> viz_reach C t u"
  by (auto intro: viz_reach.gui)

lemma then_sim: "viz_reach C t s \<Longrightarrow> sim_step C s s' \<Longrightarrow> s' = u \<Longrightarrow> viz_reach C t u"
  by (auto intro: viz_reach.sim)

lemma viz_start_simps [simp]:
  "sim_lock (viz_start t) = None" "go (viz_start t) = False" "quit (viz_start t) = False" "pause_messages (viz_start t) = []"
  "sim_at (viz_start t) = Loop_test" "sim_now (viz_start t) = t" "frames (viz_start t) = []" "idle_updates (viz_start t) = 0"
  "timers (viz_start t) = {1}" "timeout_id (viz_start t) = Some 1" "next_source (viz_start t) = 2"
  "play_active (viz_start t) = False" "main_ended (viz_start t) = False" "seen_time (viz_start t) = None"
  by (simp_all add: viz_start_def speed_changed_def start_update_timer_def source_remove_def Let_def)

lemmas run_simps =
  handles_events_def call_def goto_def return_def set_active_def play_button_toggled_def start_update_timer_def
  source_remove_def view_updated_def view_done_def quit_begun_def speed_changed_def Let_def

text \<open>A window closed at once\<close>

definition closing :: "int \<Rightarrow> viz" where
  "closing t = goto Joining ((call Quitting (quit_begun (viz_start t)))\<lparr>go := True\<rparr>)"

lemma closing_reached: "viz_reach C t (closing t)"
proof -
  have "gui_step C (viz_start t) (call Quitting (quit_begun (viz_start t)))"
    by (rule gui_step.delete_event) (simp add: handles_events_def)
  from viz_reach.gui [OF viz_reach.start this]
  have "viz_reach C t (call Quitting (quit_begun (viz_start t)))" .
  then show ?thesis
    unfolding closing_def by (rule viz_reach.gui) (rule gui_step.wake, simp add: call_def quit_begun_def timer_simps)
qed

theorem viz_quit_ends_witness:
  "(1::nat) \<le> 8 \<and> joining (frames (closing 0\<lparr>sim_at := Ended_run\<rparr>)) \<and>
   sim_at (closing 0\<lparr>sim_at := Ended_run\<rparr>) = Ended_run"
proof -
  fix C
  have j: "joining (frames (closing 0))" by (simp add: closing_def goto_def)
  have "sim_step C (closing 0) (closing 0\<lparr>sim_at := Ended_run\<rparr>)"
    using sim_step.loop_test [of "closing 0" C] by (simp add: closing_def goto_def call_def quit_begun_def timer_simps)
  then have "(sim_step C ^^ 1) (closing 0) (closing 0\<lparr>sim_at := Ended_run\<rparr>)" by (simp only: relpowp_1)
  from viz_quit_ends [OF closing_reached j this] show ?thesis by simp
qed

text \<open>The first update of the view\<close>

definition first_view :: "sim_clock \<Rightarrow> int \<Rightarrow> viz" where
  "first_view C t =
     (let s = (call (Try_lock 1) (viz_start t))\<lparr>sim_lock := Some Gui\<rparr>
      in goto (Viewed 1 []) (view_updated C (goto (Viewing 1) s)))"

lemma first_view_reached: "viz_reach C t (first_view C t)" and viewing_reached: 
  "viz_reach C t (goto (Viewing 1) ((call (Try_lock 1) (viz_start t))\<lparr>sim_lock := Some Gui\<rparr>))"
proof -
  have "gui_step C (viz_start t) (call (Try_lock 1) (viz_start t))"
    by (rule gui_step.timer) (simp_all add: handles_events_def)
  from viz_reach.gui [OF viz_reach.start this] have "viz_reach C t (call (Try_lock 1) (viz_start t))" .
  then have "viz_reach C t (goto (Viewing 1) ((call (Try_lock 1) (viz_start t))\<lparr>sim_lock := Some Gui\<rparr>))"
    by (rule viz_reach.gui) (rule gui_step.lock_free, simp_all add: call_def)
  then show "viz_reach C t (goto (Viewing 1) ((call (Try_lock 1) (viz_start t))\<lparr>sim_lock := Some Gui\<rparr>))" .
  then show "viz_reach C t (first_view C t)"
    unfolding first_view_def Let_def
    by (rule then_gui) (rule gui_step.view, simp_all add: call_def goto_def)
qed

theorem viz_lock_safe_witness:
  "\<exists>s. sim_lock s = Some Gui \<and> \<not> sim_has_lock s \<and> gui_has_lock s \<and>
     (\<exists>s'. gui_step \<lparr>seconds = \<lambda>t. of_int t, nanoseconds = floor\<rparr> s s')"
proof -
  let ?C = "\<lparr>seconds = \<lambda>t. of_int t, nanoseconds = floor\<rparr> :: sim_clock"
  let ?s = "goto (Viewing 1) ((call (Try_lock 1) (viz_start 0))\<lparr>sim_lock := Some Gui\<rparr>)"
  have "sim_lock ?s = Some Gui" by (simp add: goto_def call_def)
  with viz_lock_safe [OF viewing_reached [of ?C 0]] show ?thesis by auto
qed

theorem viz_never_ahead_witness:
  "\<exists>s :: viz. seen_time s = Some 0 \<and> 0 \<le> sim_now s \<and>
     (\<exists>p \<in> {0..1}. sim_now s \<le> max 0 (floor (py_add 0 p)))"
proof -
  let ?C = "\<lparr>seconds = \<lambda>t. of_int t, nanoseconds = floor\<rparr> :: sim_clock"
  have "seen_time (first_view ?C 0) = Some 0" by (simp add: first_view_def goto_def view_updated_def call_def Let_def)
  with viz_never_ahead [OF first_view_reached [of ?C 0]]
  have "seen_time (first_view ?C 0) = Some 0 \<and> 0 \<le> sim_now (first_view ?C 0) \<and>
     (\<exists>p \<in> {0..1}. sim_now (first_view ?C 0) \<le> max 0 (floor (py_add 0 p)))" by simp
  then show ?thesis by blast
qed

text \<open>
  A first run: \<open>autoscale_view\<close> reads the positions of the nodes without the lock, while the simulator runs. Another one:
  pausing does not forget the number of the removed source, and the answer \<open>False\<close> of a call of a source that has been
  replaced forgets the number of its successor. So two timers can run: a click on pause and a change of the speed while
  \<open>update_view_timeout\<close> waits for the simulator, and then a click on play.
\<close>

lemma troubles:
  shows "\<exists>s. viz_reach C t s \<and> sim_at s = Run_until \<and> frames s = [Unlocked_read]"
    and "\<exists>s. viz_reach C t s \<and> timers s = {3, 4} \<and> play_active s"
proof -
  define P where "P = py_mul SAMPLE_PERIOD 1"
  have P: "sample_period (viz_start t) = P" by (simp add: viz_start_def timer_simps P_def)
  define B where "B = (viz_start t)\<lparr>play_active := True, timers := {2}, timeout_id := Some 2, next_source := 3\<rparr>"
  let ?V = "B\<lparr>seen_time := Some t, target_time := py_add (seconds C t) P\<rparr>"
  let ?W = "?V\<lparr>play_active := False, timers := {3}, timeout_id := Some 3, next_source := 4\<rparr>"
  have "fl (1 / 100) \<le> 1" by code_simp
  note defs = B_def run_simps P P_def [symmetric] this
  have r0: "viz_reach C t B"
    by (rule then_gui [OF viz_reach.start gui_step.toggle]) (auto intro!: viz.equality simp: defs)
  have r1: "viz_reach C t (B\<lparr>frames := [Try_lock 2]\<rparr>)"
    by (rule then_gui [OF r0 gui_step.timer [where i = 2]]) (auto intro!: viz.equality simp: defs)
  have r2: "viz_reach C t (B\<lparr>frames := [Viewing 2], sim_lock := Some Gui\<rparr>)"
    by (rule then_gui [OF r1 gui_step.lock_free]) (auto intro!: viz.equality simp: defs)
  have r3: "viz_reach C t (?V\<lparr>frames := [Viewed 2 []]\<rparr>)"
    by (rule then_gui [OF r2 gui_step.view]) (auto intro!: viz.equality simp: defs)
  have r4: "viz_reach C t (?V\<lparr>go := True\<rparr>)"
    by (rule then_gui [OF r3 gui_step.viewed]) (auto intro!: viz.equality simp: defs)
  have r5: "viz_reach C t (?V\<lparr>go := True, sim_at := Wait_go\<rparr>)"
    by (rule then_sim [OF r4 sim_step.loop_test]) (auto intro!: viz.equality simp: defs)
  have r6: "viz_reach C t (?V\<lparr>go := True, sim_at := Clear_go\<rparr>)"
    by (rule then_sim [OF r5 sim_step.woken]) (auto intro!: viz.equality simp: defs)
  have r7: "viz_reach C t (?V\<lparr>sim_at := Quit_test\<rparr>)"
    by (rule then_sim [OF r6 sim_step.clear]) (auto intro!: viz.equality simp: defs)
  have r8: "viz_reach C t (?V\<lparr>sim_at := Acquire\<rparr>)"
    by (rule then_sim [OF r7 sim_step.quit_test]) (auto intro!: viz.equality simp: defs)
  have r9: "viz_reach C t (?V\<lparr>sim_at := Run_until, sim_lock := Some Sim\<rparr>)"
    by (rule then_sim [OF r8 sim_step.acquire]) (auto intro!: viz.equality simp: defs)
  have "viz_reach C t (?V\<lparr>sim_at := Run_until, sim_lock := Some Sim, frames := [Unlocked_read]\<rparr>)"
    by (rule then_gui [OF r9 gui_step.read]) (auto intro!: viz.equality simp: defs)
  then show "\<exists>s. viz_reach C t s \<and> sim_at s = Run_until \<and> frames s = [Unlocked_read]"
    by (intro exI conjI) (assumption, simp_all)
  have r10: "viz_reach C t (?V\<lparr>sim_at := Run_until, sim_lock := Some Sim, frames := [Try_lock 2]\<rparr>)"
    by (rule then_gui [OF r9 gui_step.timer [where i = 2]]) (auto intro!: viz.equality simp: defs)
  have r11: "viz_reach C t (?V\<lparr>sim_at := Run_until, sim_lock := Some Sim, frames := [Nested_events 2]\<rparr>)"
    by (rule then_gui [OF r10 gui_step.lock_busy]) (auto intro!: viz.equality simp: defs)
  have r12: "viz_reach C t (?V\<lparr>sim_at := Run_until, sim_lock := Some Sim, frames := [Nested_events 2], play_active := False, timers := {}\<rparr>)"
    by (rule then_gui [OF r11 gui_step.toggle]) (auto intro!: viz.equality simp: defs)
  have r13: "viz_reach C t (?W\<lparr>sim_at := Run_until, sim_lock := Some Sim, frames := [Nested_events 2]\<rparr>)"
    by (rule then_gui [OF r12 gui_step.speed [where v = 1]]) (auto intro!: viz.equality simp: defs)
  have r14: "viz_reach C t (?W\<lparr>sim_at := Run_until, sim_lock := Some Sim, frames := [Try_lock 2]\<rparr>)"
    by (rule then_gui [OF r13 gui_step.no_events]) (auto intro!: viz.equality simp: defs)
  have r15: "viz_reach C t (?W\<lparr>sim_at := Idle_add, sim_lock := Some Sim, frames := [Try_lock 2]\<rparr>)"
    by (rule then_sim [OF r14 sim_step.run_until [where t = t and ms = "[]"]]) (auto intro!: viz.equality simp: defs)
  have r16: "viz_reach C t (?W\<lparr>sim_at := Release, sim_lock := Some Sim, frames := [Try_lock 2], idle_updates := 1\<rparr>)"
    by (rule then_sim [OF r15 sim_step.idle_add]) (auto intro!: viz.equality simp: defs)
  have r17: "viz_reach C t (?W\<lparr>frames := [Try_lock 2], idle_updates := 1\<rparr>)"
    by (rule then_sim [OF r16 sim_step.release]) (auto intro!: viz.equality simp: defs)
  have r18: "viz_reach C t (?W\<lparr>frames := [Viewing 2], idle_updates := 1, sim_lock := Some Gui\<rparr>)"
    by (rule then_gui [OF r17 gui_step.lock_free]) (auto intro!: viz.equality simp: defs)
  have r19: "viz_reach C t (?W\<lparr>frames := [Viewed 2 []], idle_updates := 1\<rparr>)"
    by (rule then_gui [OF r18 gui_step.view]) (auto intro!: viz.equality simp: defs)
  have r20: "viz_reach C t (?W\<lparr>idle_updates := 1, timeout_id := None\<rparr>)"
    by (rule then_gui [OF r19 gui_step.viewed]) (auto intro!: viz.equality simp: defs)
  have r21: "viz_reach C t (?W\<lparr>idle_updates := 1, play_active := True, timers := {3, 4}, timeout_id := Some 4, next_source := 5\<rparr>)"
    by (rule then_gui [OF r20 gui_step.toggle]) (auto intro!: viz.equality simp: defs)
  from r21 show "\<exists>s. viz_reach C t s \<and> timers s = {3, 4} \<and> play_active s" by (intro exI conjI) (assumption, simp_all)
qed

lemma unlocked_read_races: "\<exists>s. viz_reach C t s \<and> sim_at s = Run_until \<and> frames s = [Unlocked_read]"
  by (rule troubles(1))

lemma two_timers: "\<exists>s. viz_reach C t s \<and> timers s = {3, 4} \<and> play_active s"
  by (rule troubles(2))

end
