(* ===== verification/VizScene.thy ===== *)
theory VizScene
  imports PyFloat
begin

text \<open>
  The scene of the visualizer: the views of nodes and channels in \<open>core.py\<close> and \<open>base.py\<close> of
  \<open>src/visualizer/visualizer\<close>, the links between them, \<open>scan_topology\<close>, which creates and places them, and
  \<open>_update_node_positions\<close>, which moves them. The topology of the simulation and the layout of graphviz are parameters; of
  the items of the canvas the model keeps the positions and the lines.
\<close>

section \<open>Views and links\<close>

type_synonym point = "double \<times> double"

datatype view = Node_view nat | Channel_view nat

text \<open>The line of a link is what \<open>update_points\<close> has drawn last.\<close>

record wired_link =
  node1 :: view
  node2 :: view
  drawn :: "(point \<times> point) option"

record traits =
  is_wireless :: bool
  is_virtual :: bool

definition NetDeviceTraits :: "bool option \<Rightarrow> bool \<Rightarrow> traits" where
  "NetDeviceTraits wireless virt = \<lparr>is_wireless = (wireless = Some True), is_virtual = virt\<rparr>"

definition netdevice_traits :: "(string \<times> traits) list" where
  "netdevice_traits =
     [(''PointToPointNetDevice'', NetDeviceTraits (Some False) False),
      (''CsmaNetDevice'', NetDeviceTraits (Some False) False),
      (''WifiNetDevice'', NetDeviceTraits (Some True) False),
      (''BridgeNetDevice'', NetDeviceTraits None True),
      (''LoopbackNetDevice'', NetDeviceTraits (Some False) True),
      (''MeshPointDevice'', NetDeviceTraits None True),
      (''SubscriberStationNetDevice'', NetDeviceTraits (Some True) False),
      (''BaseStationNetDevice'', NetDeviceTraits (Some True) False),
      (''LteUeNetDevice'', NetDeviceTraits (Some True) False),
      (''LteEnbNetDevice'', NetDeviceTraits (Some True) False)]"

text \<open>
  What the simulation tells: for each node its position, if it has a model of mobility, and its devices, each with its type
  and channel; for each channel the nodes of its devices.
\<close>

record topology =
  n_nodes :: nat
  mobility :: "nat \<Rightarrow> point option"
  devices :: "nat \<Rightarrow> (string \<times> nat) list"
  channel_nodes :: "nat \<Rightarrow> nat list"

definition moves :: "topology \<Rightarrow> nat \<Rightarrow> bool" where
  "moves T i \<longleftrightarrow> mobility T i \<noteq> None"

text \<open>
  The dictionaries are lists of keys in the order of insertion. The bounds of the canvas are \<open>None\<close> where the
  library returns them in a form that cannot be unpacked.
\<close>

record scene =
  known_traits :: "string \<Rightarrow> traits option"
  node_views :: "nat list"
  channel_views :: "nat list"
  position :: "view \<Rightarrow> point"
  red_nodes :: "nat set"
  has_mobility_cache :: "nat \<Rightarrow> bool option"
  links :: "wired_link list"
  canvas_bounds :: "(double \<times> double \<times> double \<times> double) option"
  graph_nodes :: "view list"
  graph_edges :: "(view \<times> view) list"

section \<open>Operations\<close>

definition lookup_netdevice_traits :: "string \<Rightarrow> scene \<Rightarrow> traits \<times> scene" where
  "lookup_netdevice_traits ty s =
     (case known_traits s ty of
        Some t \<Rightarrow> (t, s)
      | None \<Rightarrow> let t = NetDeviceTraits (Some True) False in (t, s\<lparr>known_traits := (known_traits s)(ty \<mapsto> t)\<rparr>))"

definition PIXELS_PER_METER :: double where
  "PIXELS_PER_METER = 3"

definition transform_point_simulation_to_canvas :: "point \<Rightarrow> point" where
  "transform_point_simulation_to_canvas p = (py_mul (fst p) PIXELS_PER_METER, py_mul (snd p) PIXELS_PER_METER)"

definition get_node :: "nat \<Rightarrow> scene \<Rightarrow> scene" where
  "get_node i s = (if i \<in> set (node_views s) then s else s\<lparr>node_views := node_views s @ [i]\<rparr>)"

definition get_channel :: "nat \<Rightarrow> scene \<Rightarrow> scene" where
  "get_channel c s = (if c \<in> set (channel_views s) then s else s\<lparr>channel_views := channel_views s @ [c]\<rparr>)"

definition create_link :: "view \<Rightarrow> view \<Rightarrow> scene \<Rightarrow> scene" where
  "create_link a b s = s\<lparr>links := links s @ [\<lparr>node1 = a, node2 = b, drawn = None\<rparr>]\<rparr>"

definition update_points :: "(view \<Rightarrow> point) \<Rightarrow> wired_link \<Rightarrow> wired_link" where
  "update_points pos l = l\<lparr>drawn := Some (pos (node1 l), pos (node2 l))\<rparr>"

definition of_view :: "view \<Rightarrow> wired_link \<Rightarrow> bool" where
  "of_view v l \<longleftrightarrow> node1 l = v \<or> node2 l = v"

definition grow_bounds :: "point \<Rightarrow> double \<times> double \<times> double \<times> double \<Rightarrow> double \<times> double \<times> double \<times> double" where
  "grow_bounds p b = (case b of (x1, y1, x2, y2) \<Rightarrow> (min (fst p) x1, min (snd p) y1, max (fst p) x2, max (snd p) y2))"

text \<open>\<open>Node.set_position\<close> and \<open>Channel.set_position\<close>; only the first widens the canvas.\<close>

definition set_position :: "view \<Rightarrow> point \<Rightarrow> scene \<Rightarrow> scene" where
  "set_position v p s =
     (let pos = (position s)(v := p)
      in s\<lparr>position := pos,
           links := map (\<lambda>l. if of_view v l then update_points pos l else l) (links s),
           canvas_bounds :=
             (case v of Node_view _ \<Rightarrow> map_option (grow_bounds p) (canvas_bounds s) | Channel_view _ \<Rightarrow> canvas_bounds s)\<rparr>)"

definition has_mobility :: "topology \<Rightarrow> nat \<Rightarrow> scene \<Rightarrow> bool \<times> scene" where
  "has_mobility T i s =
     (case has_mobility_cache s i of
        Some b \<Rightarrow> (b, s)
      | None \<Rightarrow> let b = moves T i in (b, s\<lparr>has_mobility_cache := (has_mobility_cache s)(i \<mapsto> b)\<rparr>))"

definition graph_add_node :: "view \<Rightarrow> scene \<Rightarrow> scene" where
  "graph_add_node v s = (if v \<in> set (graph_nodes s) then s else s\<lparr>graph_nodes := graph_nodes s @ [v]\<rparr>)"

definition graph_add_edge :: "view \<Rightarrow> view \<Rightarrow> scene \<Rightarrow> scene" where
  "graph_add_edge a b s =
     (let s = graph_add_node b (graph_add_node a s) in s\<lparr>graph_edges := graph_edges s @ [(a, b)]\<rparr>)"

section \<open>Scanning the topology\<close>

definition scan_other :: "topology \<Rightarrow> nat \<Rightarrow> nat \<Rightarrow> scene \<Rightarrow> scene" where
  "scan_other T i j s =
     (let s = get_node j s
      in if j = i then s
         else
           let s = (if \<not> moves T i
                    then (case has_mobility T j s of
                            (b, s) \<Rightarrow> if b then s else graph_add_edge (Node_view i) (Node_view j) s)
                    else s)
           in create_link (Node_view i) (Node_view j) s)"

definition scan_device :: "topology \<Rightarrow> nat \<Rightarrow> string \<times> nat \<Rightarrow> scene \<Rightarrow> scene" where
  "scan_device T i d s =
     (case d of (ty, c) \<Rightarrow>
       (case lookup_netdevice_traits ty s of (t, s) \<Rightarrow>
          if is_wireless t then s
          else if is_virtual t then s
          else if 2 < length (channel_nodes T c) then
            (let s = (if \<not> moves T i then graph_add_edge (Node_view i) (Channel_view c) s else s)
             in create_link (Node_view i) (Channel_view c) (get_channel c s))
          else fold (scan_other T i) (channel_nodes T c) s))"

definition scan_node :: "topology \<Rightarrow> nat \<Rightarrow> scene \<Rightarrow> scene" where
  "scan_node T i s =
     (let s = get_node i s;
          s = (case mobility T i of
                 Some p \<Rightarrow> set_position (Node_view i) (transform_point_simulation_to_canvas p)
                            (s\<lparr>red_nodes := insert i (red_nodes s)\<rparr>)
               | None \<Rightarrow> graph_add_node (Node_view i) s)
      in fold (scan_device T i) (devices T i) s)"

type_synonym graph_layout = "view list \<Rightarrow> (view \<times> view) list \<Rightarrow> view \<Rightarrow> point"

definition scan_topology :: "topology \<Rightarrow> graph_layout \<Rightarrow> scene \<Rightarrow> scene" where
  "scan_topology T layout s =
     (let s = fold (scan_node T) [0..<n_nodes T] (s\<lparr>graph_nodes := [], graph_edges := []\<rparr>);
          place = layout (graph_nodes s) (graph_edges s)
      in fold (\<lambda>v. set_position v (place v)) (graph_nodes s) s)"

definition update_node :: "topology \<Rightarrow> nat \<Rightarrow> scene \<Rightarrow> scene" where
  "update_node T i s =
     (case has_mobility T i s of (b, s) \<Rightarrow>
        if \<not> b then s
        else (case mobility T i of
                None \<Rightarrow> s
              | Some p \<Rightarrow> set_position (Node_view i) (transform_point_simulation_to_canvas p) s))"

definition update_node_positions :: "topology \<Rightarrow> scene \<Rightarrow> scene" where
  "update_node_positions T s = fold (update_node T) (node_views s) s"

text \<open>The scene of a new visualizer; new items stand at the origin.\<close>

definition empty_scene :: "(double \<times> double \<times> double \<times> double) option \<Rightarrow> scene" where
  "empty_scene b =
     \<lparr>known_traits = map_of netdevice_traits, node_views = [], channel_views = [], position = (\<lambda>v. (0, 0)), red_nodes = {},
      has_mobility_cache = (\<lambda>i. None), links = [], canvas_bounds = b, graph_nodes = [], graph_edges = []\<rparr>"

section \<open>What a scan leaves\<close>

definition ends :: "wired_link \<Rightarrow> view \<times> view" where
  "ends l = (node1 l, node2 l)"

definition undrawn :: "view \<times> view \<Rightarrow> wired_link" where
  "undrawn e = \<lparr>node1 = fst e, node2 = snd e, drawn = None\<rparr>"

lemma ends_undrawn [simp]: "ends (undrawn e) = e" "drawn (undrawn e) = None"
  by (simp_all add: ends_def undrawn_def)

text \<open>The line of a link joins the present positions of its ends.\<close>

definition fits :: "(view \<Rightarrow> point) \<Rightarrow> wired_link \<Rightarrow> bool" where
  "fits pos l \<longleftrightarrow> drawn l = Some (pos (node1 l), pos (node2 l))"

definition traits_in :: "(string \<rightharpoonup> traits) \<Rightarrow> string \<Rightarrow> traits" where
  "traits_in m ty = (case m ty of Some t \<Rightarrow> t | None \<Rightarrow> NetDeviceTraits (Some True) False)"

lemma traits_in_default: "m ty = None \<Longrightarrow> traits_in (m(ty \<mapsto> NetDeviceTraits (Some True) False)) = traits_in m"
  by (auto simp: traits_in_def fun_eq_iff split: option.splits)

definition traits_of :: "string \<Rightarrow> traits" where
  "traits_of = traits_in (map_of netdevice_traits)"

text \<open>
  The links of the topology: a device of a wired, real kind on a channel of more than two devices is linked to the
  channel, any other of that kind to each other node of its channel.
\<close>

definition device_links :: "topology \<Rightarrow> nat \<Rightarrow> string \<times> nat \<Rightarrow> (view \<times> view) list" where
  "device_links T i d =
     (case d of (ty, c) \<Rightarrow>
       if is_wireless (traits_of ty) \<or> is_virtual (traits_of ty) then []
       else if 2 < length (channel_nodes T c) then [(Node_view i, Channel_view c)]
       else map (\<lambda>j. (Node_view i, Node_view j)) (filter (\<lambda>j. j \<noteq> i) (channel_nodes T c)))"

definition topology_links :: "topology \<Rightarrow> (view \<times> view) list" where
  "topology_links T = concat (map (\<lambda>i. concat (map (device_links T i) (devices T i))) [0..<n_nodes T])"

fun static_view :: "topology \<Rightarrow> view \<Rightarrow> bool" where
  "static_view T (Node_view i) = (\<not> moves T i)"
| "static_view T (Channel_view c) = True"

definition scene_ok :: "topology \<Rightarrow> scene \<Rightarrow> bool" where
  "scene_ok T s \<longleftrightarrow>
     traits_in (known_traits s) = traits_of \<and>
     (\<forall>i. has_mobility_cache s i \<in> {None, Some (moves T i)}) \<and>
     (\<forall>v \<in> set (graph_nodes s). static_view T v)"

text \<open>What an operation that moves nothing adds\<close>

definition extends :: "topology \<Rightarrow> (view \<times> view) list \<Rightarrow> scene \<Rightarrow> scene \<Rightarrow> bool" where
  "extends T es s s' \<longleftrightarrow>
     scene_ok T s' \<and> position s' = position s \<and> links s' = links s @ map undrawn es \<and>
     set (node_views s) \<subseteq> set (node_views s') \<and> set (graph_nodes s) \<subseteq> set (graph_nodes s')"

lemma extends_refl: "scene_ok T s \<Longrightarrow> extends T [] s s"
  by (simp add: extends_def)

lemma extends_trans: "extends T es s s1 \<Longrightarrow> extends T es' s1 s2 \<Longrightarrow> extends T (es @ es') s s2"
  by (auto simp: extends_def)

lemma extends_ok: "extends T es s s' \<Longrightarrow> scene_ok T s'"
  by (simp add: extends_def)

lemma extends_then:
  "extends T [] s s1 \<Longrightarrow> (scene_ok T s1 \<Longrightarrow> extends T es s1 s2) \<Longrightarrow> extends T es s s2"
  using extends_trans [of T "[]" s s1 es s2] extends_ok by simp

lemma extends_fold:
  assumes "\<And>x s. scene_ok T s \<Longrightarrow> extends T (e x) s (f x s)" "scene_ok T s"
  shows "extends T (concat (map e xs)) s (fold f xs s)"
  using assms(2)
proof (induction xs arbitrary: s)
  case (Cons x xs)
  have "extends T (e x) s (f x s)" by (rule assms(1) [OF Cons.prems])
  moreover from this have "extends T (concat (map e xs)) (f x s) (fold f xs (f x s))"
    by (intro Cons.IH) (simp add: extends_def)
  ultimately show ?case by (auto intro: extends_trans)
qed (simp add: extends_refl)

lemma extends_get_node: "scene_ok T s \<Longrightarrow> extends T [] s (get_node i s) \<and> i \<in> set (node_views (get_node i s))"
  by (auto simp: extends_def get_node_def scene_ok_def)

lemma extends_get_channel: "scene_ok T s \<Longrightarrow> extends T [] s (get_channel c s)"
  by (auto simp: extends_def get_channel_def scene_ok_def)

lemma extends_create_link: "scene_ok T s \<Longrightarrow> extends T [(a, b)] s (create_link a b s)"
  by (auto simp: extends_def create_link_def scene_ok_def undrawn_def)

lemma extends_graph_add_node:
  "scene_ok T s \<Longrightarrow> static_view T v \<Longrightarrow> extends T [] s (graph_add_node v s) \<and> v \<in> set (graph_nodes (graph_add_node v s))"
  by (auto simp: extends_def graph_add_node_def scene_ok_def)

lemma extends_graph_add_edge:
  assumes "scene_ok T s" "static_view T a" "static_view T b"
  shows "extends T [] s (graph_add_edge a b s)"
proof -
  have "extends T [] s (graph_add_node b (graph_add_node a s))"
    by (rule extends_then, rule extends_graph_add_node [THEN conjunct1, OF assms(1,2)],
        rule extends_graph_add_node [THEN conjunct1, OF _ assms(3)])
  then show ?thesis by (simp add: extends_def graph_add_edge_def Let_def scene_ok_def)
qed

lemma has_mobility_eq:
  "scene_ok T s \<Longrightarrow> has_mobility T i s = (b, s') \<Longrightarrow> b = moves T i \<and> extends T [] s s'"
proof (cases "has_mobility_cache s i")
  case None
  assume "scene_ok T s" "has_mobility T i s = (b, s')"
  with None show ?thesis by (auto simp: has_mobility_def Let_def extends_def scene_ok_def) blast+
next
  case (Some c)
  assume ok: "scene_ok T s" and h: "has_mobility T i s = (b, s')"
  from ok have "has_mobility_cache s i \<in> {None, Some (moves T i)}" by (simp add: scene_ok_def)
  with Some ok h show ?thesis by (simp add: has_mobility_def extends_refl)
qed

lemma lookup_eq:
  "scene_ok T s \<Longrightarrow> lookup_netdevice_traits ty s = (t, s') \<Longrightarrow> t = traits_of ty \<and> extends T [] s s'"
proof (cases "known_traits s ty")
  case None
  assume "scene_ok T s" "lookup_netdevice_traits ty s = (t, s')"
  with None show ?thesis
    by (auto simp: lookup_netdevice_traits_def Let_def extends_def scene_ok_def traits_in_default)
      (metis option.simps(4) traits_in_def)
next
  case (Some u)
  assume "scene_ok T s" "lookup_netdevice_traits ty s = (t, s')"
  with Some show ?thesis
    by (auto simp: lookup_netdevice_traits_def extends_def scene_ok_def) (metis option.simps(5) traits_in_def)
qed

lemma extends_scan_other:
  assumes "scene_ok T s"
  shows "extends T (map (\<lambda>j. (Node_view i, Node_view j)) (filter (\<lambda>j. j \<noteq> i) [j])) s (scan_other T i j s)"
proof -
  have g: "extends T [] s (get_node j s)" using extends_get_node [OF assms] by simp
  obtain b s1 where h: "has_mobility T j (get_node j s) = (b, s1)" by fastforce
  have ok: "scene_ok T (get_node j s)" using g by (simp add: extends_def)
  from has_mobility_eq [OF ok h] have b: "b = moves T j" "extends T [] (get_node j s) s1" by auto
  from extends_then [OF g b(2)] have s1: "extends T [] s s1" .
  then have ok1: "scene_ok T s1" by (simp add: extends_def)
  show ?thesis
  proof (cases "j = i")
    case True
    with g show ?thesis by (simp add: scan_other_def Let_def)
  next
    case False
    define u where "u = (if \<not> moves T i then (if b then s1 else graph_add_edge (Node_view i) (Node_view j) s1) else get_node j s)"
    have "extends T [] s (graph_add_edge (Node_view i) (Node_view j) s1)" if "\<not> moves T i" "\<not> b"
      by (rule extends_then [OF s1 extends_graph_add_edge]) (use that b(1) in simp_all)
    then have "extends T [] s u" using g s1 by (simp add: u_def)
    then have "extends T [(Node_view i, Node_view j)] s (create_link (Node_view i) (Node_view j) u)"
      by (rule extends_then [OF _ extends_create_link])
    with False h show ?thesis by (auto simp: scan_other_def Let_def u_def split: if_splits)
  qed
qed

lemma extends_scan_device:
  assumes "scene_ok T s"
  shows "extends T (device_links T i d) s (scan_device T i d s)"
proof -
  obtain ty c where d: "d = (ty, c)" by (cases d)
  obtain t s1 where l: "lookup_netdevice_traits ty s = (t, s1)" by fastforce
  from lookup_eq [OF assms l] have t: "t = traits_of ty" and s1: "extends T [] s s1" by auto
  then have ok1: "scene_ok T s1" by (simp add: extends_def)
  define u where "u = (if \<not> moves T i then graph_add_edge (Node_view i) (Channel_view c) s1 else s1)"
  have u: "extends T [] s u"
    using s1 extends_then [OF s1 extends_graph_add_edge [of T s1 "Node_view i" "Channel_view c"]]
    by (simp add: u_def)
  have "extends T [] s (get_channel c u)" by (rule extends_then [OF u extends_get_channel])
  then have shared: "extends T [(Node_view i, Channel_view c)] s (create_link (Node_view i) (Channel_view c) (get_channel c u))"
    by (rule extends_then [OF _ extends_create_link])
  have "extends T (concat (map (\<lambda>j. map (\<lambda>j. (Node_view i, Node_view j)) (filter (\<lambda>j. j \<noteq> i) [j])) (channel_nodes T c))) s1
    (fold (scan_other T i) (channel_nodes T c) s1)"
    by (rule extends_fold [OF extends_scan_other ok1])
  moreover have "concat (map (\<lambda>j. map (\<lambda>j. (Node_view i, Node_view j)) (filter (\<lambda>j. j \<noteq> i) [j])) js) =
    map (\<lambda>j. (Node_view i, Node_view j)) (filter (\<lambda>j. j \<noteq> i) js)" for js by (induction js) auto
  ultimately have other: "extends T (map (\<lambda>j. (Node_view i, Node_view j)) (filter (\<lambda>j. j \<noteq> i) (channel_nodes T c))) s
    (fold (scan_other T i) (channel_nodes T c) s1)"
    using extends_then [OF s1] by simp
  show ?thesis
    using s1 shared other by (simp add: scan_device_def d l t device_links_def Let_def u_def)
qed

section \<open>Positions and lines\<close>

lemma ends_update_points [simp]: "ends (update_points pos l) = ends l"
  by (simp add: ends_def update_points_def)

lemma set_position_simps [simp]:
  "position (set_position v p s) = (position s)(v := p)"
  "map ends (links (set_position v p s)) = map ends (links s)"
  "node_views (set_position v p s) = node_views s" "graph_nodes (set_position v p s) = graph_nodes s"
  "graph_edges (set_position v p s) = graph_edges s"
  "has_mobility_cache (set_position v p s) = has_mobility_cache s" "known_traits (set_position v p s) = known_traits s"
  by (simp_all add: set_position_def Let_def)

lemma scene_ok_position [simp]: "scene_ok T (set_position v p s) = scene_ok T s"
  by (simp add: scene_ok_def)

text \<open>Moving a view redraws its links and keeps the others as they are.\<close>

definition redrawn :: "view set \<Rightarrow> scene \<Rightarrow> bool" where
  "redrawn V s \<longleftrightarrow> (\<forall>l \<in> set (links s). node1 l \<in> V \<longrightarrow> fits (position s) l)"

lemma redrawn_set_position: "redrawn V s \<Longrightarrow> redrawn (insert v V) (set_position v p s)"
  by (auto simp: redrawn_def set_position_def Let_def of_view_def fits_def update_points_def)

lemma redrawn_fold:
  "redrawn V s \<Longrightarrow>
   (\<And>x s W. redrawn W s \<Longrightarrow> redrawn (g x \<union> W) (f x s)) \<Longrightarrow> redrawn (\<Union> (g ` set xs) \<union> V) (fold f xs s)"
proof (induction xs arbitrary: s V)
  case (Cons x xs)
  then have "redrawn (g x \<union> V) (f x s)" by blast
  from Cons.IH [OF this Cons.prems(2)] show ?case by (simp add: Un_ac)
qed simp

lemma place_all:
  "position (fold (\<lambda>v. set_position v (place v)) vs s) = (\<lambda>v. if v \<in> set vs then place v else position s v)"
  "map ends (links (fold (\<lambda>v. set_position v (place v)) vs s)) = map ends (links s)"
  "node_views (fold (\<lambda>v. set_position v (place v)) vs s) = node_views s"
  "graph_nodes (fold (\<lambda>v. set_position v (place v)) vs s) = graph_nodes s"
  "graph_edges (fold (\<lambda>v. set_position v (place v)) vs s) = graph_edges s"
  "scene_ok T (fold (\<lambda>v. set_position v (place v)) vs s) = scene_ok T s"
  by (induction vs arbitrary: s) (auto simp: fun_eq_iff)

text \<open>What the scan of one node adds\<close>


definition placed :: "topology \<Rightarrow> scene \<Rightarrow> nat \<Rightarrow> bool" where
  "placed T s i \<longleftrightarrow>
     i \<in> set (node_views s) \<and>
     (case mobility T i of
        None \<Rightarrow> Node_view i \<in> set (graph_nodes s)
      | Some p \<Rightarrow> position s (Node_view i) = transform_point_simulation_to_canvas p)"

lemma placed_extends: "placed T s i \<Longrightarrow> extends T es s s' \<Longrightarrow> placed T s' i"
  by (auto simp: placed_def extends_def split: option.splits)

lemma placed_set_position: "placed T s i \<Longrightarrow> i \<noteq> j \<Longrightarrow> placed T (set_position (Node_view j) p s) i"
  by (auto simp: placed_def split: option.splits)

lemma placed_red: "placed T (s\<lparr>red_nodes := R\<rparr>) i = placed T s i"
  by (simp add: placed_def split: option.splits)

definition scanned :: "topology \<Rightarrow> nat \<Rightarrow> (view \<times> view) list \<Rightarrow> scene \<Rightarrow> bool" where
  "scanned T n es s \<longleftrightarrow>
     scene_ok T s \<and> map ends (links s) = es \<and> (\<forall>i < n. placed T s i)"

lemma scanned_extends:
  assumes "scanned T n es s" "extends T es' s s'"
  shows "scanned T n (es @ es') s'"
proof -
  have "map ends (links s') = es @ es'" using assms by (simp add: scanned_def extends_def comp_def)
  with assms show ?thesis by (auto simp: scanned_def extends_ok intro: placed_extends)
qed

lemma moves_None: "mobility T i = None \<Longrightarrow> \<not> moves T i"
  by (simp add: moves_def)

lemma scan_node_scanned:
  assumes "scanned T i es s"
  shows "scanned T (Suc i) (es @ concat (map (device_links T i) (devices T i))) (scan_node T i s)"
proof -
  let ?g = "get_node i s"
  have g: "extends T [] s ?g" "i \<in> set (node_views ?g)"
    using extends_get_node assms by (auto simp: scanned_def)
  define u where "u =
    (case mobility T i of
       Some p \<Rightarrow> set_position (Node_view i) (transform_point_simulation_to_canvas p) (?g\<lparr>red_nodes := insert i (red_nodes ?g)\<rparr>)
     | None \<Rightarrow> graph_add_node (Node_view i) ?g)"
  have u: "scanned T (Suc i) es u"
  proof (cases "mobility T i")
    case None
    then have "extends T [] ?g u \<and> Node_view i \<in> set (graph_nodes u)"
      using extends_graph_add_node [OF extends_ok [OF g(1)], of "Node_view i"] by (simp add: u_def moves_None)
    then have "scanned T i es u" and "placed T u i"
      using scanned_extends [OF scanned_extends [OF assms g(1)], of "[]" u] g(2) None
      by (auto simp: placed_def extends_def)
    then show ?thesis by (auto simp: scanned_def less_Suc_eq)
  next
    case (Some p)
    from scanned_extends [OF assms g(1)] have "scanned T i es ?g" by simp
    with Some have "scanned T i es u"
      by (auto simp: scanned_def u_def placed_red intro!: placed_set_position) (simp add: scene_ok_def)
    moreover have "placed T u i" using Some g(2) by (simp add: placed_def u_def)
    ultimately show ?thesis by (auto simp: scanned_def less_Suc_eq)
  qed
  have "extends T (concat (map (device_links T i) (devices T i))) u (fold (scan_device T i) (devices T i) u)"
    by (rule extends_fold [OF extends_scan_device]) (use u in \<open>simp_all add: scanned_def\<close>)
  from scanned_extends [OF u this] show ?thesis
    by (simp add: scan_node_def Let_def u_def)
qed

lemma scan_all:
  assumes "scanned T 0 [] s"
  shows "scanned T n (concat (map (\<lambda>i. concat (map (device_links T i) (devices T i))) [0..<n])) (fold (scan_node T) [0..<n] s)"
proof (induction n)
  case (Suc n)
  then show ?case using scan_node_scanned by fastforce
qed (use assms in simp)

section \<open>The updates of the view\<close>

lemma update_node_eq:
  assumes "scene_ok T s" "mobility T' i = None \<longleftrightarrow> mobility T i = None"
  obtains s1 where "extends T [] s s1"
    "update_node T' i s =
      (case mobility T' i of
         None \<Rightarrow> s1
       | Some p \<Rightarrow> set_position (Node_view i) (transform_point_simulation_to_canvas p) s1)"
proof -
  have "moves T' i = moves T i" using assms(2) by (simp add: moves_def)
  then have "has_mobility T' i s = has_mobility T i s" by (simp add: has_mobility_def split: option.splits)
  moreover obtain b s1 where h: "has_mobility T i s = (b, s1)" by fastforce
  moreover from has_mobility_eq [OF assms(1) h] have "b = moves T i" "extends T [] s s1" by auto
  ultimately show thesis
    using that [of s1] assms(2) by (auto simp: update_node_def moves_def split: option.splits)
qed

text \<open>After the scan and an update each node stands where it should, and each link joins its ends.\<close>

lemma links_of_topology:
  "(a, b) \<in> set (topology_links T) \<Longrightarrow> \<exists>i < n_nodes T. a = Node_view i"
  by (auto simp: topology_links_def device_links_def split: prod.splits if_splits)


lemma update_fold:
  assumes "\<And>i. mobility T' i = None \<longleftrightarrow> mobility T i = None" "scene_ok T s" "redrawn V s"
  shows "scene_ok T (fold (update_node T') is s) \<and>
    redrawn (V \<union> {Node_view i |i. i \<in> set is \<and> mobility T' i \<noteq> None}) (fold (update_node T') is s) \<and>
    map ends (links (fold (update_node T') is s)) = map ends (links s) \<and>
    position (fold (update_node T') is s) =
      (\<lambda>v. case v of
             Node_view i \<Rightarrow> (if i \<in> set is then (case mobility T' i of None \<Rightarrow> position s v | Some p \<Rightarrow> transform_point_simulation_to_canvas p)
                            else position s v)
           | Channel_view c \<Rightarrow> position s v)"
  using assms(2,3)
proof (induction "is" arbitrary: s V)
  case Nil
  then show ?case by (auto simp: fun_eq_iff split: view.splits)
next
  case (Cons i "is")
  from update_node_eq [OF Cons.prems(1) assms(1)] obtain s1 where s1: "extends T [] s s1"
    and u: "update_node T' i s =
      (case mobility T' i of
         None \<Rightarrow> s1
       | Some p \<Rightarrow> set_position (Node_view i) (transform_point_simulation_to_canvas p) s1)" by metis
  from s1 Cons.prems have s1': "scene_ok T s1" "redrawn V s1" "position s1 = position s" "links s1 = links s"
    by (auto simp: extends_def redrawn_def)
  show ?case
  proof (cases "mobility T' i")
    case None
    with u Cons.IH [OF s1'(1,2)] s1'(3,4) show ?thesis
      by (auto simp: fun_eq_iff split: view.splits option.splits elim: back_subst [of "\<lambda>V. redrawn V _"])
  next
    case (Some p)
    have "scene_ok T (update_node T' i s)" "redrawn (insert (Node_view i) V) (update_node T' i s)"
      using u Some s1' redrawn_set_position by auto
    from Cons.IH [OF this] u Some s1'(3,4) show ?thesis
      by (auto simp: fun_eq_iff split: view.splits option.splits elim: back_subst [of "\<lambda>V. redrawn V _"])
  qed
qed

lemma scanned_start: "scanned T 0 [] ((empty_scene b)\<lparr>graph_nodes := [], graph_edges := []\<rparr>)"
  by (simp add: scanned_def scene_ok_def empty_scene_def traits_of_def)

lemma scan_topology_ok:
  fixes T layout b
  defines "s \<equiv> scan_topology T layout (empty_scene b)"
  shows "scene_ok T s" "map ends (links s) = topology_links T" "redrawn (set (graph_nodes s)) s"
    and "i < n_nodes T \<Longrightarrow> i \<in> set (node_views s)"
    and "i < n_nodes T \<Longrightarrow> mobility T i = None \<Longrightarrow>
      Node_view i \<in> set (graph_nodes s) \<and> position s (Node_view i) = layout (graph_nodes s) (graph_edges s) (Node_view i)"
proof -
  define u where "u = fold (scan_node T) [0..<n_nodes T] ((empty_scene b)\<lparr>graph_nodes := [], graph_edges := []\<rparr>)"
  define place where "place = layout (graph_nodes u) (graph_edges u)"
  have s: "s = fold (\<lambda>v. set_position v (place v)) (graph_nodes u) u"
    by (simp add: s_def scan_topology_def Let_def u_def place_def)
  have u: "scanned T (n_nodes T) (topology_links T) u"
    unfolding u_def topology_links_def by (rule scan_all [OF scanned_start])
  then show "scene_ok T s" "map ends (links s) = topology_links T" by (simp_all add: s place_all scanned_def)
  have "redrawn {} u" by (simp add: redrawn_def)
  from redrawn_fold [OF this, of "\<lambda>v. {v}" "\<lambda>v. set_position v (place v)" "graph_nodes u"]
  show "redrawn (set (graph_nodes s)) s" by (simp add: s place_all redrawn_set_position)
  show "i \<in> set (node_views s)" if "i < n_nodes T" using u that by (simp add: s place_all scanned_def placed_def)
  show "Node_view i \<in> set (graph_nodes s) \<and> position s (Node_view i) = layout (graph_nodes s) (graph_edges s) (Node_view i)"
    if "i < n_nodes T" "mobility T i = None"
    using u that by (auto simp: s place_all scanned_def placed_def place_def)
qed

text \<open>
  C31. After the scan of the topology and an update of the view with the nodes anywhere, each node with a model of mobility
  stands at its position and each other one where the layout puts it, the links are those of the topology, and
  the line of every link joins the two places where its ends stand.
\<close>
theorem scene_links_follow:
  assumes "\<And>i. mobility T' i = None \<longleftrightarrow> mobility T i = None"
  shows "let s0 = scan_topology T layout (empty_scene b); s = update_node_positions T' s0
         in map ends (links s) = topology_links T \<and> (\<forall>l \<in> set (links s). fits (position s) l) \<and>
            (\<forall>i < n_nodes T. position s (Node_view i) =
               (case mobility T' i of
                  Some p \<Rightarrow> transform_point_simulation_to_canvas p
                | None \<Rightarrow> layout (graph_nodes s0) (graph_edges s0) (Node_view i)))"
proof -
  define s0 where "s0 = scan_topology T layout (empty_scene b)"
  define s where "s = update_node_positions T' s0"
  note ok = scan_topology_ok [where T = T and layout = layout and b = b, folded s0_def]
  note upd = update_fold [OF assms ok(1,3), of "node_views s0", folded update_node_positions_def s_def]
  have ends: "map ends (links s) = topology_links T" using upd ok(2) by simp
  have "fits (position s) l" if l: "l \<in> set (links s)" for l
  proof -
    have "ends l \<in> set (topology_links T)" using l by (simp flip: ends)
    then obtain i where i: "i < n_nodes T" "node1 l = Node_view i"
      using links_of_topology [of "node1 l" "node2 l" T] by (auto simp: ends_def)
    with ok(4,5) [of i] assms [of i]
    have "node1 l \<in> set (graph_nodes s0) \<union> {Node_view i |i. i \<in> set (node_views s0) \<and> mobility T' i \<noteq> None}"
      by (cases "mobility T' i") auto
    with upd l show ?thesis unfolding redrawn_def by blast
  qed
  moreover have "position s (Node_view i) =
     (case mobility T' i of
        Some p \<Rightarrow> transform_point_simulation_to_canvas p
      | None \<Rightarrow> layout (graph_nodes s0) (graph_edges s0) (Node_view i))" if "i < n_nodes T" for i
    using upd ok(4,5) [of i] assms [of i] that by (auto split: option.splits)
  ultimately show ?thesis using ends by (simp add: Let_def flip: s0_def s_def)
qed

text \<open>Two nodes on one link: the link is created from either end, and so drawn twice.\<close>

definition two_nodes :: "double \<Rightarrow> topology" where
  "two_nodes x =
     \<lparr>n_nodes = 2, mobility = (\<lambda>i. if i = 0 then Some (x, 0) else None), devices = (\<lambda>i. [(''PointToPointNetDevice'', 7)]),
      channel_nodes = (\<lambda>c. [0, 1])\<rparr>"

lemma point_to_point_drawn_twice:
  "topology_links (two_nodes x) = [(Node_view 0, Node_view 1), (Node_view 1, Node_view 0)]"
proof -
  have "is_wireless (traits_of ''PointToPointNetDevice'') = False" "is_virtual (traits_of ''PointToPointNetDevice'') = False"
    by code_simp+
  then show ?thesis by (simp add: topology_links_def two_nodes_def device_links_def upt_rec)
qed

theorem scene_links_follow_witness:
  "let s0 = scan_topology (two_nodes 0) (\<lambda>vs es v. (7, 8)) (empty_scene None); s = update_node_positions (two_nodes 1) s0
   in map ends (links s) = topology_links (two_nodes 0) \<and> list_all (fits (position s)) (links s) \<and>
      position s (Node_view 0) = (py_mul 1 3, py_mul 0 3) \<and> position s (Node_view 1) = (7, 8)"
proof -
  have "mobility (two_nodes 1) i = None \<longleftrightarrow> mobility (two_nodes 0) i = None" for i by (simp add: two_nodes_def)
  from scene_links_follow [OF this, of "\<lambda>vs es v. (7, 8)" None]
  show ?thesis
    by (simp add: Let_def list_all_iff two_nodes_def transform_point_simulation_to_canvas_def PIXELS_PER_METER_def)
qed

text \<open>A channel all of whose nodes move is not laid out: its view stays at the origin.\<close>

definition three_moving :: topology where
  "three_moving =
     \<lparr>n_nodes = 3, mobility = (\<lambda>i. Some (of_nat (5 * i), 9)), devices = (\<lambda>i. [(''CsmaNetDevice'', 7)]),
      channel_nodes = (\<lambda>c. [0, 1, 2])\<rparr>"

lemma channel_left_at_origin:
  "channel_views (scan_topology three_moving layout (empty_scene None)) = [7] \<and>
   position (scan_topology three_moving layout (empty_scene None)) (Channel_view 7) = (0, 0)"
  by (simp add: scan_topology_def three_moving_def upt_rec scan_node_def scan_device_def get_node_def get_channel_def create_link_def
      lookup_netdevice_traits_def empty_scene_def netdevice_traits_def NetDeviceTraits_def moves_def set_position_def Let_def)

end
