(* ===== verification/VizTraffic.thy ===== *)
theory VizTraffic
  imports VizScene
begin

text \<open>
  The traffic the visualizer shows: \<open>do_simulation_periodic_update\<close>, \<open>_update_transmissions_view\<close> and \<open>_update_drops_view\<close> of
  \<open>core.py\<close>, and the statistics of \<open>plugins/interface_statistics.py\<close>. Arrows are items of the canvas that are used again: of
  each the model keeps whether it is visible and what it was set to. The logarithm is a parameter.
\<close>

section \<open>The last samples\<close>

text \<open>\<open>while len(xs) > k: xs.pop(0)\<close>\<close>

fun pop_front :: "int \<Rightarrow> 'a list \<Rightarrow> 'a list result" where
  "pop_front k [] = (if k < 0 then Inl IndexError else Inr [])"
| "pop_front k (x # xs) = (if k < int (length (x # xs)) then pop_front k xs else Inr (x # xs))"

definition push_sample :: "int \<Rightarrow> 'a \<Rightarrow> 'a list \<Rightarrow> 'a list result" where
  "push_sample k x xs = pop_front k (xs @ [x])"

definition smooth_factor :: "double \<Rightarrow> int" where
  "smooth_factor v = trunc (py_mul v 10)"

text \<open>Transmitter, receiver and bytes; and transmitter and bytes.\<close>

type_synonym transmission = "nat \<times> nat \<times> int"

type_synonym packet_drop = "nat \<times> int"

record samples =
  last_transmissions :: "transmission list list"
  last_drops :: "packet_drop list list"

definition simulation_periodic_update :: "double \<Rightarrow> transmission list \<Rightarrow> packet_drop list \<Rightarrow> samples \<Rightarrow> samples result" where
  "simulation_periodic_update v transmissions drops s =
     ebind (push_sample (smooth_factor v) transmissions (last_transmissions s)) (\<lambda>ts.
     ebind (push_sample (smooth_factor v) drops (last_drops s)) (\<lambda>ds.
     Inr \<lparr>last_transmissions = ts, last_drops = ds\<rparr>))"

section \<open>Averages\<close>

text \<open>A dictionary from keys to bytes and counts\<close>

fun count_bytes :: "'k \<Rightarrow> int \<Rightarrow> ('k \<times> int \<times> int) list \<Rightarrow> ('k \<times> int \<times> int) list" where
  "count_bytes key b [] = [(key, b, 1)]"
| "count_bytes key b ((key', b', n) # d) = (if key = key' then (key, b' + b, n + 1) # d else (key', b', n) # count_bytes key b d)"

definition transmissions_average :: "transmission list list \<Rightarrow> ((nat \<times> nat) \<times> int \<times> int) list" where
  "transmissions_average sets = fold (\<lambda>ts. fold (\<lambda>(t, r, b). count_bytes (t, r) b) ts) sets []"

definition drops_average :: "packet_drop list list \<Rightarrow> (nat \<times> int \<times> int) list" where
  "drops_average sets = fold (\<lambda>ds. fold (\<lambda>(t, b). count_bytes t b) ds) sets []"

section \<open>Arrows\<close>

record arrow =
  line_width :: double
  points :: "point \<times> point"
  kbps :: double
  text_to_right :: bool

definition blank_arrow :: arrow where
  "blank_arrow = \<lparr>line_width = 2, points = ((0, 0), (0, 0)), kbps = 0, text_to_right = True\<rparr>"

record arrows =
  pool :: "nat list"
  visible :: "nat set"
  look :: "nat \<Rightarrow> arrow"
  next_arrow :: nat
  viz_scene :: scene

text \<open>\<open>max(0.1, math.log(float(rx_bytes)/rx_count/self.sample_period)*k)\<close>\<close>

definition arrow_width :: "(double \<Rightarrow> double) \<Rightarrow> double \<Rightarrow> double \<Rightarrow> int \<Rightarrow> int \<Rightarrow> double result" where
  "arrow_width lg period k bytes n =
     ebind (py_div (fl (of_int bytes)) (fl (of_int n))) (\<lambda>x.
     ebind (py_div x period) (\<lambda>y.
     if y \<le> 0 then Inl ValueError else Inr (max (fl (1 / 10)) (py_mul (lg y) k))))"

definition arrow_kbps :: "double \<Rightarrow> int \<Rightarrow> int \<Rightarrow> double result" where
  "arrow_kbps period bytes n =
     ebind (py_div (fl (of_int (bytes * 8))) 1000) (\<lambda>x. ebind (py_div x (fl (of_int n))) (\<lambda>y. py_div y period))"

text \<open>An angle of at most a right angle is one that does not point to the left.\<close>

definition transmission_arrow ::
  "(double \<Rightarrow> double) \<Rightarrow> double \<Rightarrow> double \<Rightarrow> (nat \<times> nat) \<times> int \<times> int \<Rightarrow> scene \<Rightarrow> arrow result" where
  "transmission_arrow lg period k item s =
     (case item of ((t, r), b, n) \<Rightarrow>
       ebind (arrow_width lg period k b n) (\<lambda>w.
       ebind (arrow_kbps period b n) (\<lambda>v.
       let p = position s (Node_view t); q = position s (Node_view r)
       in Inr \<lparr>line_width = w, points = (p, q), kbps = v, text_to_right = (fst p \<le> fst q)\<rparr>)))"

definition drop_arrow ::
  "(double \<Rightarrow> double) \<Rightarrow> double \<Rightarrow> double \<Rightarrow> double \<Rightarrow> nat \<times> int \<times> int \<Rightarrow> scene \<Rightarrow> arrow result" where
  "drop_arrow lg period k edge_y item s =
     (case item of (t, b, n) \<Rightarrow>
       ebind (arrow_width lg period k b n) (\<lambda>w.
       ebind (arrow_kbps period b n) (\<lambda>v.
       let p = position s (Node_view t)
       in Inr \<lparr>line_width = w, points = (p, (fst p, edge_y)), kbps = v, text_to_right = True\<rparr>)))"

text \<open>
  The loop of both functions: each item takes the last arrow of the old ones, or a new one, makes it visible and sets it. The
  old arrows are the list of the object itself, so that an exception leaves it without the arrows taken from it.
\<close>

fun show_arrows :: "('i \<Rightarrow> nat list) \<Rightarrow> ('i \<Rightarrow> scene \<Rightarrow> arrow result) \<Rightarrow> 'i list \<Rightarrow> nat list \<Rightarrow> arrows \<Rightarrow> py_error option \<times> arrows" where
  "show_arrows nodes_of arrow_of [] new s = (None, s\<lparr>pool := new @ pool s\<rparr>)"
| "show_arrows nodes_of arrow_of (i # items) new s =
     (let scene = fold get_node (nodes_of i) (viz_scene s);
          fresh = (pool s = []);
          a = (if fresh then next_arrow s else last (pool s));
          s = s\<lparr>pool := butlast (pool s), next_arrow := (if fresh then next_arrow s + 1 else next_arrow s),
                look := (if fresh then (look s)(a := blank_arrow) else look s),
                visible := insert a (visible s), viz_scene := scene\<rparr>
      in case arrow_of i scene of
           Inl e \<Rightarrow> (Some e, s)
         | Inr v \<Rightarrow> show_arrows nodes_of arrow_of items (new @ [a]) (s\<lparr>look := (look s)(a := v)\<rparr>))"

definition hide_arrows :: "arrows \<Rightarrow> arrows" where
  "hide_arrows s = s\<lparr>visible := visible s - set (pool s)\<rparr>"

definition update_transmissions_view ::
  "(double \<Rightarrow> double) \<Rightarrow> double \<Rightarrow> double \<Rightarrow> transmission list list \<Rightarrow> arrows \<Rightarrow> py_error option \<times> arrows" where
  "update_transmissions_view lg period node_size sets s =
     show_arrows (\<lambda>((t, r), bn). [t, r]) (transmission_arrow lg period (fl (node_size / 5))) (transmissions_average sets) []
       (hide_arrows s)"

definition update_drops_view ::
  "(double \<Rightarrow> double) \<Rightarrow> double \<Rightarrow> double \<Rightarrow> double \<Rightarrow> packet_drop list list \<Rightarrow> arrows \<Rightarrow> py_error option \<times> arrows" where
  "update_drops_view lg period node_size edge_y sets s =
     show_arrows (\<lambda>(t, bn). [t]) (drop_arrow lg period (fl (node_size / 5)) edge_y) (drops_average sets) [] (hide_arrows s)"

section \<open>Statistics of the interfaces\<close>

record if_stats =
  transmittedPackets :: int
  transmittedBytes :: int
  receivedPackets :: int
  receivedBytes :: int

record dev_stats =
  raw :: if_stats
  txPacketRate :: double
  rxPacketRate :: double
  txBitRate :: double
  rxBitRate :: double

definition NODE_STATISTICS_MEMORY :: nat where
  "NODE_STATISTICS_MEMORY = 10"

type_synonym node_statistics = "nat \<Rightarrow> if_stats list list option"

definition statistics_update_node :: "nat \<times> if_stats list \<Rightarrow> node_statistics \<Rightarrow> node_statistics result" where
  "statistics_update_node ns d =
     (case ns of (i, st) \<Rightarrow>
       let old = (case d i of None \<Rightarrow> [] | Some xs \<Rightarrow> xs)
       in ebind (push_sample (int NODE_STATISTICS_MEMORY) st old) (\<lambda>xs. Inr (d(i \<mapsto> xs))))"

fun statistics_update :: "(nat \<times> if_stats list) list \<Rightarrow> node_statistics \<Rightarrow> node_statistics result" where
  "statistics_update [] d = Inr d"
| "statistics_update (x # xs) d = ebind (statistics_update_node x d) (statistics_update xs)"

definition rate :: "int \<Rightarrow> int \<Rightarrow> int \<Rightarrow> double \<Rightarrow> double result" where
  "rate f now before k = py_div (fl (of_int ((now - before) * f))) k"

definition interface_rates :: "double \<Rightarrow> if_stats option \<Rightarrow> if_stats \<Rightarrow> dev_stats result" where
  "interface_rates k before now =
     (case before of
        None \<Rightarrow> Inl IndexError
      | Some b \<Rightarrow>
          ebind (rate 1 (transmittedPackets now) (transmittedPackets b) k) (\<lambda>tp.
          ebind (rate 1 (receivedPackets now) (receivedPackets b) k) (\<lambda>rp.
          ebind (rate 8 (transmittedBytes now) (transmittedBytes b) k) (\<lambda>tb.
          ebind (rate 8 (receivedBytes now) (receivedBytes b) k) (\<lambda>rb.
          Inr \<lparr>raw = now, txPacketRate = tp, rxPacketRate = rp, txBitRate = tb, rxBitRate = rb\<rparr>)))))"

fun rates_from :: "double \<Rightarrow> if_stats list \<Rightarrow> if_stats list \<Rightarrow> dev_stats list result" where
  "rates_from k befores [] = Inr []"
| "rates_from k befores (now # nows) =
     ebind (interface_rates k (case befores of [] \<Rightarrow> None | b # _ \<Rightarrow> Some b) now) (\<lambda>r.
     ebind (rates_from k (drop 1 befores) nows) (\<lambda>rs. Inr (r # rs)))"

definition get_interface_statistics :: "double \<Rightarrow> nat \<Rightarrow> node_statistics \<Rightarrow> dev_stats list result" where
  "get_interface_statistics period i d =
     (case d i of
        None \<Rightarrow> Inr []
      | Some xs \<Rightarrow>
          if length xs < NODE_STATISTICS_MEMORY then Inr []
          else rates_from (py_mul period (of_nat (NODE_STATISTICS_MEMORY - 1))) (hd xs) (last xs))"

section \<open>Windows\<close>

lemma pop_front_last: "0 \<le> k \<Longrightarrow> pop_front k xs = Inr (last_n (nat k) xs)"
  by (induction k xs rule: pop_front.induct) (auto simp: last_n_def Suc_diff_le)

lemma push_sample_last: "0 \<le> k \<Longrightarrow> push_sample k x xs = Inr (last_n (nat k) (xs @ [x]))"
  by (simp add: push_sample_def pop_front_last)

section \<open>Averages\<close>

lemma count_bytes_keys:
  "distinct (map fst d) \<Longrightarrow> distinct (map fst (count_bytes key b d)) \<and>
     set (map fst (count_bytes key b d)) = insert key (set (map fst d))"
  by (induction key b d rule: count_bytes.induct) auto

text \<open>The entry of a key holds the sum and the number of what was counted for it.\<close>

definition entry_of :: "'k \<Rightarrow> ('k \<times> int) list \<Rightarrow> (int \<times> int) option" where
  "entry_of key xs =
     (let ys = filter (\<lambda>x. fst x = key) xs
      in if ys = [] then None else Some (\<Sum>y \<leftarrow> ys. snd y, int (length ys)))"

lemma count_bytes_lookup:
  "map_of (count_bytes key b d) key' =
     (if key' = key then (case map_of d key of None \<Rightarrow> Some (b, 1) | Some (b', n) \<Rightarrow> Some (b' + b, n + 1)) else map_of d key')"
  by (induction key b d rule: count_bytes.induct) (auto split: option.splits)

lemma count_bytes_all:
  "map_of (fold (\<lambda>(key, b). count_bytes key b) xs []) key = entry_of key xs"
proof (induction xs rule: rev_induct)
  case (snoc x xs)
  then show ?case by (cases x) (auto simp: count_bytes_lookup entry_of_def Let_def)
qed (simp add: entry_of_def)

lemma count_bytes_distinct: "distinct (map fst (fold (\<lambda>(key, b). count_bytes key b) xs []))"
proof (induction xs rule: rev_induct)
  case (snoc x xs)
  then show ?case by (cases x) (simp add: count_bytes_keys)
qed simp

definition pair_bytes :: "transmission list list \<Rightarrow> ((nat \<times> nat) \<times> int) list" where
  "pair_bytes sets = map (\<lambda>(t, r, b). ((t, r), b)) (concat sets)"

lemma fold_concat_sets: "fold (\<lambda>ts. fold f ts) sets d = fold f (concat sets) d"
  by (induction sets arbitrary: d) simp_all

lemma transmissions_average_eq:
  "transmissions_average sets = fold (\<lambda>(key, b). count_bytes key b) (pair_bytes sets) []"
  by (simp add: transmissions_average_def fold_concat_sets pair_bytes_def fold_map comp_def split_def)

lemma drops_average_eq: "drops_average sets = fold (\<lambda>(key, b). count_bytes key b) (concat sets) []"
  by (simp add: drops_average_def fold_concat_sets)

section \<open>Arrows\<close>

text \<open>Every arrow ever made is in the pool, and no other is visible.\<close>

definition arrows_ok :: "arrows \<Rightarrow> bool" where
  "arrows_ok s \<longleftrightarrow> distinct (pool s) \<and> set (pool s) = {..<next_arrow s} \<and> visible s \<subseteq> set (pool s)"

lemma position_get_nodes: "position (fold get_node is s) = position s"
  by (induction "is" arbitrary: s) (simp_all add: get_node_def)

lemma show_arrows_ok:
  assumes "\<And>i sc sc'. position sc = position sc' \<Longrightarrow> arrow_of i sc = arrow_of i sc'"
    and "\<forall>i \<in> set items. \<exists>v. arrow_of i (viz_scene s) = Inr v"
    and "distinct (new @ pool s)" "set new \<union> set (pool s) = {..<next_arrow s}" "visible s = set new"
  shows "\<exists>s'. show_arrows nodes_of arrow_of items new s = (None, s') \<and>
    distinct (pool s') \<and> set (pool s') = {..<next_arrow s'} \<and>
    length (pool s') = max (length new + length (pool s)) (length new + length items) \<and>
    visible s' = set (take (length new + length items) (pool s')) \<and>
    take (length new) (pool s') = new \<and> (\<forall>a \<in> set new. look s' a = look s a) \<and>
    map (\<lambda>a. Inr (look s' a)) (take (length items) (drop (length new) (pool s'))) = map (\<lambda>i. arrow_of i (viz_scene s)) items"
  using assms(2-)
proof (induction items arbitrary: new s)
  case Nil
  then show ?case by auto
next
  case (Cons i items)
  define sc where "sc = fold get_node (nodes_of i) (viz_scene s)"
  define a where "a = (if pool s = [] then next_arrow s else last (pool s))"
  from Cons.prems(1) obtain v where v: "arrow_of i (viz_scene s) = Inr v" by auto
  have pos: "position sc = position (viz_scene s)" by (simp add: sc_def position_get_nodes)
  with v assms(1) have v': "arrow_of i sc = Inr v" by metis
  define s1 where "s1 = s\<lparr>pool := butlast (pool s), next_arrow := (if pool s = [] then next_arrow s + 1 else next_arrow s),
    look := (if pool s = [] then (look s)(a := blank_arrow) else look s), visible := insert a (visible s), viz_scene := sc\<rparr>"
  define u where "u = s1\<lparr>look := (look s1)(a := v)\<rparr>"
  have step: "show_arrows nodes_of arrow_of (i # items) new s = show_arrows nodes_of arrow_of items (new @ [a]) u"
    by (cases "pool s = []"; subst show_arrows.simps; simp add: Let_def u_def s1_def a_def v' flip: sc_def)
  have u: "pool u = butlast (pool s)" "next_arrow u = (if pool s = [] then next_arrow s + 1 else next_arrow s)"
    "visible u = insert a (visible s)" "viz_scene u = sc" "look u = (look s)(a := v)"
    by (simp_all add: u_def s1_def)
  have pool: "pool s = [] \<and> pool u = [] \<or> pool s = pool u @ [a]" by (auto simp: u a_def)
  have P: "\<forall>i \<in> set items. \<exists>v. arrow_of i (viz_scene u) = Inr v"
    using Cons.prems(1) assms(1) [OF pos] by (simp add: u)
  have D: "distinct ((new @ [a]) @ pool u)"
  proof (cases "pool s = []")
    case True
    with Cons.prems(2,3) show ?thesis by (auto simp: u a_def)
  next
    case False
    with pool have "pool s = pool u @ [a]" by simp
    with Cons.prems(2) show ?thesis by auto
  qed
  have S: "set (new @ [a]) \<union> set (pool u) = {..<next_arrow u}"
  proof (cases "pool s = []")
    case True
    with Cons.prems(3) have "set new = {..<next_arrow s}" by simp
    with True show ?thesis by (simp add: u a_def lessThan_Suc)
  next
    case False
    with pool have p: "set (pool s) = insert a (set (pool u))" by simp
    have "next_arrow u = next_arrow s" using False by (simp add: u)
    with Cons.prems(3) p show ?thesis by simp
  qed
  have V: "visible u = set (new @ [a])" using Cons.prems(4) by (simp add: u)
  from Cons.IH [OF P D S V] obtain s' where s': "show_arrows nodes_of arrow_of items (new @ [a]) u = (None, s')"
    "distinct (pool s')" "set (pool s') = {..<next_arrow s'}"
    "length (pool s') = max (length (new @ [a]) + length (pool u)) (length (new @ [a]) + length items)"
    "visible s' = set (take (length (new @ [a]) + length items) (pool s'))"
    "take (length (new @ [a])) (pool s') = new @ [a]" "\<forall>b \<in> set (new @ [a]). look s' b = look u b"
    "map (\<lambda>a. Inr (look s' a)) (take (length items) (drop (length (new @ [a])) (pool s'))) = map (\<lambda>i. arrow_of i (viz_scene u)) items"
    by (elim exE conjE)
  have look: "look u a = v" "a \<notin> set new" using D by (simp_all add: u)
  have "pool s' = (new @ [a]) @ drop (length (new @ [a])) (pool s')" using s'(6) by (metis append_take_drop_id)
  then obtain zs where zs: "pool s' = new @ a # zs" by simp
  have tail: "map (\<lambda>a. Inr (look s' a)) (take (length items) zs) = map (\<lambda>i. arrow_of i (viz_scene s)) items"
    using s'(8) assms(1) [OF pos] by (simp add: zs u)
  show ?case
  proof (intro exI [of _ s'] conjI)
    show "length (pool s') = max (length new + length (pool s)) (length new + length (i # items))"
      using s'(4) pool by auto
    show "take (length new) (pool s') = new" using zs by simp
    show "\<forall>b \<in> set new. look s' b = look s b" using s'(7) look(2) by (auto simp: u)
    show "map (\<lambda>a. Inr (look s' a)) (take (length (i # items)) (drop (length new) (pool s'))) = map (\<lambda>i. arrow_of i (viz_scene s)) (i # items)"
      using s'(7) tail look(1) v by (simp add: zs)
  qed (use s' step in simp_all)
qed

lemma sum_at_least_length: "\<forall>y \<in> set ys. (1::int) \<le> y \<Longrightarrow> int (length ys) \<le> (\<Sum>y \<leftarrow> ys. y)"
  by (induction ys) auto

lemma entry_of_positive:
  assumes "entry_of key xs = Some (b, n)" "\<forall>x \<in> set xs. 0 < snd x"
  shows "1 \<le> n \<and> n \<le> b"
proof -
  let ?ys = "filter (\<lambda>x. fst x = key) xs"
  from assms(1) have ne: "?ys \<noteq> []" and b: "b = (\<Sum>y \<leftarrow> ?ys. snd y)" and n: "n = int (length ?ys)"
    by (auto simp: entry_of_def Let_def split: if_splits)
  have "int (length (map snd ?ys)) \<le> (\<Sum>y \<leftarrow> map snd ?ys. y)" using assms(2) by (intro sum_at_least_length) auto
  moreover have "1 \<le> length ?ys" using ne by (cases ?ys) simp_all
  ultimately show ?thesis using b n by simp
qed

lemma arrow_width_ok:
  assumes "1 \<le> n" "n \<le> b" "0 < period" "period \<le> 1"
  shows "\<exists>w. arrow_width lg period k b n = Inr w"
proof -
  have one: "fl 1 = 1" using b64.rnd_int [of 1] by simp
  have n: "1 \<le> fl (of_int n)" using assms by (intro b64.rnd_ge_rep [OF one]) simp
  have "fl (of_int n) \<le> fl (of_int b)" using assms by (intro b64.rnd_mono) simp
  with n have "1 \<le> fl (of_int b) / fl (of_int n)" by simp
  then have x: "1 \<le> fl (fl (of_int b) / fl (of_int n))" by (rule b64.rnd_ge_rep [OF one])
  then have "1 \<le> fl (fl (of_int b) / fl (of_int n)) / period" using assms(3,4) by (simp add: le_divide_eq)
  then have "1 \<le> fl (fl (fl (of_int b) / fl (of_int n)) / period)" by (rule b64.rnd_ge_rep [OF one])
  with n assms(3) show ?thesis by (simp add: arrow_width_def py_div_def)
qed

lemma arrow_kbps_ok:
  assumes "1 \<le> n" "0 < period"
  shows "\<exists>v. arrow_kbps period b n = Inr v"
proof -
  have one: "fl 1 = 1" using b64.rnd_int [of 1] by simp
  have "1 \<le> fl (of_int n)" using assms by (intro b64.rnd_ge_rep [OF one]) simp
  with assms(2) show ?thesis by (simp add: arrow_kbps_def py_div_def)
qed

lemma transmission_arrow_position:
  "position sc = position sc' \<Longrightarrow> transmission_arrow lg period k i sc = transmission_arrow lg period k i sc'"
  by (simp add: transmission_arrow_def split: prod.splits)

text \<open>
  C32. One update shows the traffic of the last periods exactly: if every transmission has carried some bytes, the update cannot
  fail, it leaves visible one arrow for each pair of nodes between which there was a transmission and no other, each set from
  the sum of the bytes and the number of the transmissions of its pair, and it uses old arrows before it makes new ones; every
  arrow ever made stays in the pool.
\<close>
theorem transmissions_shown:
  assumes "arrows_ok s" "0 < period" "period \<le> 1" "\<forall>(t, r, b) \<in> set (concat sets). 0 < b"
  shows "\<exists>s'. update_transmissions_view lg period node_size sets s = (None, s') \<and> arrows_ok s' \<and>
    length (pool s') = max (length (pool s)) (length (transmissions_average sets)) \<and>
    visible s' = set (take (length (transmissions_average sets)) (pool s')) \<and>
    map (\<lambda>a. Inr (look s' a)) (take (length (transmissions_average sets)) (pool s')) =
      map (\<lambda>i. transmission_arrow lg period (fl (node_size / 5)) i (viz_scene s)) (transmissions_average sets) \<and>
    distinct (map fst (transmissions_average sets)) \<and>
    (\<forall>key. map_of (transmissions_average sets) key = entry_of key (pair_bytes sets))"
proof -
  let ?avg = "transmissions_average sets"
  let ?arrow = "transmission_arrow lg period (fl (node_size / 5))"
  have look: "map_of ?avg key = entry_of key (pair_bytes sets)" for key by (simp add: transmissions_average_eq count_bytes_all)
  have dist: "distinct (map fst ?avg)" by (simp add: transmissions_average_eq count_bytes_distinct)
  have pos: "\<forall>x \<in> set (pair_bytes sets). 0 < snd x" using assms(4) by (fastforce simp: pair_bytes_def)
  have "\<exists>v. ?arrow i (viz_scene (hide_arrows s)) = Inr v" if i: "i \<in> set ?avg" for i
  proof -
    obtain t r b n where [simp]: "i = ((t, r), b, n)" by (metis prod.exhaust)
    have "map_of ?avg (t, r) = Some (b, n)" using i dist by simp
    then have "1 \<le> n \<and> n \<le> b" using entry_of_positive [OF _ pos] by (simp add: look)
    with assms(2,3) arrow_width_ok [of n b period lg "fl (node_size / 5)"] arrow_kbps_ok [of n period b]
    show ?thesis by (auto simp: transmission_arrow_def Let_def)
  qed
  then have P: "\<forall>i \<in> set ?avg. \<exists>v. ?arrow i (viz_scene (hide_arrows s)) = Inr v" by blast
  have D: "distinct ([] @ pool (hide_arrows s))" "set [] \<union> set (pool (hide_arrows s)) = {..<next_arrow (hide_arrows s)}"
    "visible (hide_arrows s) = set []"
    using assms(1) by (auto simp: arrows_ok_def hide_arrows_def)
  from show_arrows_ok [where arrow_of = ?arrow and nodes_of = "\<lambda>((t, r), bn). [t, r]", OF transmission_arrow_position P D] obtain s' where
    s': "update_transmissions_view lg period node_size sets s = (None, s')"
    "distinct (pool s')" "set (pool s') = {..<next_arrow s'}"
    "length (pool s') = max (length (pool s)) (length ?avg)"
    "visible s' = set (take (length ?avg) (pool s'))"
    "map (\<lambda>a. Inr (look s' a)) (take (length ?avg) (pool s')) = map (\<lambda>i. ?arrow i (viz_scene s)) ?avg"
    by (auto simp: update_transmissions_view_def hide_arrows_def)
  have "arrows_ok s'" using s' by (auto simp: arrows_ok_def dest: in_set_takeD)
  with s' look dist show ?thesis by blast
qed

definition no_arrows :: arrows where
  "no_arrows = \<lparr>pool = [], visible = {}, look = (\<lambda>a. blank_arrow), next_arrow = 0, viz_scene = empty_scene None\<rparr>"

theorem transmissions_shown_witness:
  "\<exists>s'. update_transmissions_view (\<lambda>x. x) (1 / 2) 1 [[(0, 1, 500), (1, 0, 20)], [(0, 1, 300)]] no_arrows = (None, s') \<and>
     card (visible s') = 2"
proof -
  let ?sets = "[[(0, 1, 500), (1, 0, 20)], [(0, 1, 300)]] :: transmission list list"
  have ok: "arrows_ok no_arrows" by (simp add: arrows_ok_def no_arrows_def)
  have pos: "\<forall>(t, r, b) \<in> set (concat ?sets). 0 < b" by simp
  have len: "length (transmissions_average ?sets) = 2" by code_simp
  have half: "0 < (1 / 2 :: double)" "(1 / 2 :: double) \<le> 1" by simp_all
  from transmissions_shown [OF ok half pos, of "\<lambda>x. x" 1, unfolded len] obtain s' where
    s': "update_transmissions_view (\<lambda>x. x) (1 / 2) 1 ?sets no_arrows = (None, s')" "arrows_ok s'"
    "length (pool s') = max (length (pool no_arrows)) 2" "visible s' = set (take 2 (pool s'))"
    by (elim exE conjE)
  then have "distinct (take 2 (pool s'))" "length (take 2 (pool s')) = 2" by (simp_all add: arrows_ok_def no_arrows_def)
  with s'(4) have "card (visible s') = 2" by (metis distinct_card)
  with s'(1) show ?thesis by blast
qed

text \<open>
  A pair whose transmissions carried no bytes has no logarithm: the update ends by an exception, and the arrow it had taken is
  visible, but in no list any more.
\<close>

lemma empty_transmission_loses_arrow:
  "\<exists>s'. update_transmissions_view lg (1 / 2) 1 [[(0, 1, 0)]] (no_arrows\<lparr>pool := [0], next_arrow := 1\<rparr>) = (Some ValueError, s') \<and>
     visible s' = {0} \<and> pool s' = []"
proof -
  have "transmissions_average [[(0, 1, 0)]] = [((0, 1), 0, 1)]" by code_simp
  moreover have "arrow_width lg (1 / 2) (fl (1 / 5)) 0 1 = Inl ValueError"
    using b64.rnd_int [of 1] by (simp add: arrow_width_def py_div_def)
  ultimately show ?thesis
    by (simp add: update_transmissions_view_def hide_arrows_def no_arrows_def transmission_arrow_def Let_def)
qed

section \<open>Rates\<close>

definition reports_of :: "nat \<Rightarrow> (nat \<times> if_stats list) list \<Rightarrow> if_stats list list" where
  "reports_of i xs = map snd (filter (\<lambda>x. fst x = i) xs)"

lemma statistics_window:
  assumes "\<And>i. d i = (if h i = [] then None else Some (last_n 10 (h i)))"
  shows "\<exists>d'. statistics_update xs d = Inr d' \<and>
    (\<forall>i. d' i = (if h i @ reports_of i xs = [] then None else Some (last_n 10 (h i @ reports_of i xs))))"
  using assms
proof (induction xs arbitrary: d h)
  case (Cons x xs)
  obtain i st where x: "x = (i, st)" by (cases x)
  have w: "last_n 10 (last_n 10 ys @ [st]) = last_n 10 (ys @ [st])" for ys :: "if_stats list list"
    by (cases "length ys \<le> 10") (auto simp: last_n_def intro: arg_cong2 [of _ _ _ _ drop])
  have "push_sample 10 st (case d i of None \<Rightarrow> [] | Some xs \<Rightarrow> xs) = Inr (last_n 10 (h i @ [st]))"
    using Cons.prems [of i] w [of "h i"] by (simp add: push_sample_last split: option.splits)
  then have step: "statistics_update_node x d = Inr (d(i \<mapsto> last_n 10 (h i @ [st])))"
    by (simp add: statistics_update_node_def x Let_def NODE_STATISTICS_MEMORY_def)
  have "(d(i \<mapsto> last_n 10 (h i @ [st]))) j =
      (if (h(i := h i @ [st])) j = [] then None else Some (last_n 10 ((h(i := h i @ [st])) j)))" for j
    using Cons.prems [of j] by simp
  from Cons.IH [of "d(i \<mapsto> last_n 10 (h i @ [st]))" "h(i := h i @ [st])", OF this]
  obtain d' where d': "statistics_update xs (d(i \<mapsto> last_n 10 (h i @ [st]))) = Inr d'"
    "\<forall>j. d' j = (if (h(i := h i @ [st])) j @ reports_of j xs = [] then None else Some (last_n 10 ((h(i := h i @ [st])) j @ reports_of j xs)))"
    by blast
  have "(h(i := h i @ [st])) j @ reports_of j xs = h j @ reports_of j (x # xs)" for j by (simp add: reports_of_def x)
  with d'(2) have "\<forall>j. d' j = (if h j @ reports_of j (x # xs) = [] then None else Some (last_n 10 (h j @ reports_of j (x # xs))))"
    by metis
  moreover have "statistics_update (x # xs) d = Inr d'" using d'(1) step by simp
  ultimately show ?case by blast
qed (simp add: reports_of_def)

text \<open>
  The rates shown of a node are those between its last report and the ninth before it, and nothing is shown before the tenth.
\<close>

theorem interface_rates_window:
  "\<exists>d. statistics_update xs (\<lambda>i. None) = Inr d \<and>
     get_interface_statistics period i d =
       (let rs = reports_of i xs
        in if length rs < 10 then Inr [] else rates_from (py_mul period 9) (rs ! (length rs - 10)) (last rs))"
proof -
  from statistics_window [of "\<lambda>i. None" "\<lambda>i. []" xs] obtain d where
    d: "statistics_update xs (\<lambda>i. None) = Inr d"
    "\<forall>i. d i = (if reports_of i xs = [] then None else Some (last_n 10 (reports_of i xs)))" by auto
  have "hd (last_n 10 rs) = rs ! (length rs - 10)" "last (last_n 10 rs) = last rs" if "10 \<le> length rs" for rs :: "if_stats list list"
    using that by (auto simp: last_n_def hd_drop_conv_nth)
  with d show ?thesis
    by (auto simp: get_interface_statistics_def NODE_STATISTICS_MEMORY_def Let_def)
qed

text \<open>An interface that was not there nine reports ago makes the table fail.\<close>

lemma new_interface_fails: "rates_from k [] (st # sts) = Inl IndexError"
  by (simp add: interface_rates_def)

end
