(* ===== verification/VizWifi.thy ===== *)
theory VizWifi
  imports VizScene
begin

text \<open>
  \<open>src/visualizer/visualizer/plugins/wifi_intrastructure_link.py\<close>: the dashed lines from wireless stations to the access
  points they are associated with. Links are objects that the monitor and the views of the access points refer to: they are
  numbered and kept in a store. The wireless devices of the simulation are parameters.
\<close>

section \<open>State\<close>

text \<open>A link that was destroyed has neither end.\<close>

record wifi_link =
  station :: "nat option"
  access_point :: "nat option"
  link_hidden :: bool
  wifi_line :: "(point \<times> point) option"

datatype mac = Sta_mac | Ap_mac string | Other_mac

text \<open>For each node its wireless devices; for each station device whether its link is up, and its BSSID.\<close>

record wifi_devices =
  macs :: "nat \<Rightarrow> (nat \<times> mac) list"
  link_up :: "nat \<Rightarrow> bool"
  bssid_of :: "nat \<Rightarrow> string"

record wifi_monitor =
  access_points :: "string \<Rightarrow> nat option"
  stations :: "(nat \<times> nat \<times> nat) list"
  wifi_links :: "nat \<Rightarrow> wifi_link"
  next_link :: nat
  links_at :: "nat \<Rightarrow> nat list"

section \<open>Operations\<close>

definition wifi_points :: "(nat \<Rightarrow> point) \<Rightarrow> wifi_link \<Rightarrow> wifi_link" where
  "wifi_points pos l =
     (case (station l, access_point l) of (Some a, Some b) \<Rightarrow> l\<lparr>wifi_line := Some (pos a, pos b)\<rparr> | _ \<Rightarrow> l)"

definition put_link :: "nat \<Rightarrow> wifi_link \<Rightarrow> wifi_monitor \<Rightarrow> wifi_monitor" where
  "put_link k l s = s\<lparr>wifi_links := (wifi_links s)(k := l)\<rparr>"

text \<open>\<open>list.remove\<close> raises a \<open>ValueError\<close> for an item that is not in the list.\<close>

definition remove_link :: "nat \<Rightarrow> nat \<Rightarrow> wifi_monitor \<Rightarrow> wifi_monitor result" where
  "remove_link n k s =
     (if k \<in> set (links_at s n) then Inr (s\<lparr>links_at := (links_at s)(n := remove1 k (links_at s n))\<rparr>) else Inl ValueError)"

definition add_link :: "nat \<Rightarrow> nat \<Rightarrow> wifi_monitor \<Rightarrow> wifi_monitor" where
  "add_link n k s = s\<lparr>links_at := (links_at s)(n := links_at s n @ [k])\<rparr>"

definition set_ap :: "(nat \<Rightarrow> point) \<Rightarrow> nat \<Rightarrow> nat option \<Rightarrow> wifi_monitor \<Rightarrow> wifi_monitor result" where
  "set_ap pos k ap s =
     (let l = wifi_links s k in
      if ap = access_point l then Inr s
      else
        ebind (case access_point l of None \<Rightarrow> Inr s | Some n \<Rightarrow> remove_link n k s) (\<lambda>s.
        let l = l\<lparr>access_point := ap, link_hidden := (ap = None)\<rparr>;
            s = (case ap of None \<Rightarrow> s | Some n \<Rightarrow> add_link n k s)
        in Inr (put_link k (wifi_points pos l) s)))"

text \<open>A new link has no access point, so that its first \<open>set_ap(None)\<close> does nothing.\<close>

definition new_wifi_link :: "nat \<Rightarrow> wifi_link" where
  "new_wifi_link n = \<lparr>station = Some n, access_point = None, link_hidden = False, wifi_line = None\<rparr>"

definition scan_wifi :: "nat \<Rightarrow> nat \<times> mac \<Rightarrow> wifi_monitor \<Rightarrow> wifi_monitor" where
  "scan_wifi n d s =
     (case d of
        (dev, Sta_mac) \<Rightarrow>
          (put_link (next_link s) (new_wifi_link n) s)\<lparr>stations := stations s @ [(dev, n, next_link s)], next_link := next_link s + 1\<rparr>
      | (dev, Ap_mac bssid) \<Rightarrow> s\<lparr>access_points := (access_points s)(bssid \<mapsto> n)\<rparr>
      | (dev, Other_mac) \<Rightarrow> s)"

definition destroy_link :: "nat \<times> nat \<times> nat \<Rightarrow> wifi_monitor \<Rightarrow> wifi_monitor" where
  "destroy_link st s =
     (case st of (dev, n, k) \<Rightarrow> put_link k ((wifi_links s k)\<lparr>station := None, access_point := None\<rparr>) s)"

definition scan_nodes :: "wifi_devices \<Rightarrow> nat list \<Rightarrow> wifi_monitor \<Rightarrow> wifi_monitor" where
  "scan_nodes W nodes s =
     (let s = fold destroy_link (stations s) s;
          s = s\<lparr>access_points := (\<lambda>b. None), stations := []\<rparr>
      in fold (\<lambda>n. fold (scan_wifi n) (macs W n)) nodes s)"

text \<open>The access point a station is associated with, if any\<close>

definition associated :: "wifi_devices \<Rightarrow> wifi_monitor \<Rightarrow> nat \<Rightarrow> nat option result" where
  "associated W s dev =
     (if \<not> link_up W dev then Inr None
      else if bssid_of W dev = ''00:00:00:00:00:00'' then Inr None
      else (case access_points s (bssid_of W dev) of None \<Rightarrow> Inl KeyError | Some n \<Rightarrow> Inr (Some n)))"

text \<open>The exception of one station ends the loop: the stations after it keep their links.\<close>

fun wifi_periodic_update ::
  "wifi_devices \<Rightarrow> (nat \<Rightarrow> point) \<Rightarrow> (nat \<times> nat \<times> nat) list \<Rightarrow> wifi_monitor \<Rightarrow> py_error option \<times> wifi_monitor" where
  "wifi_periodic_update W pos [] s = (None, s)"
| "wifi_periodic_update W pos ((dev, n, k) # sts) s =
     (case ebind (associated W s dev) (\<lambda>ap. set_ap pos k ap s) of
        Inl e \<Rightarrow> (Some e, s)
      | Inr s' \<Rightarrow> wifi_periodic_update W pos sts s')"

definition wifi_update_view :: "(nat \<Rightarrow> point) \<Rightarrow> wifi_monitor \<Rightarrow> wifi_monitor" where
  "wifi_update_view pos s = fold (\<lambda>(dev, n, k) s. put_link k (wifi_points pos (wifi_links s k)) s) (stations s) s"

definition new_monitor :: wifi_monitor where
  "new_monitor =
     \<lparr>access_points = (\<lambda>b. None), stations = [], wifi_links = new_wifi_link, next_link = 0, links_at = (\<lambda>n. [])\<rparr>"

section \<open>Invariant\<close>

text \<open>A link is in the list of a node exactly once if the node is its access point, and else in no list.\<close>

definition wifi_ok :: "wifi_monitor \<Rightarrow> bool" where
  "wifi_ok s \<longleftrightarrow>
     (\<forall>n. distinct (links_at s n)) \<and>
     (\<forall>n k. k \<in> set (links_at s n) \<longleftrightarrow> k < next_link s \<and> access_point (wifi_links s k) = Some n) \<and>
     distinct (map (\<lambda>(dev, n, k). k) (stations s)) \<and>
     (\<forall>(dev, n, k) \<in> set (stations s). k < next_link s \<and> station (wifi_links s k) = Some n) \<and>
     (\<forall>k < next_link s. access_point (wifi_links s k) \<noteq> None \<longrightarrow> \<not> link_hidden (wifi_links s k)) \<and>
     (\<forall>k < next_link s. wifi_line (wifi_links s k) \<noteq> None \<longrightarrow> link_hidden (wifi_links s k) = (access_point (wifi_links s k) = None))"

lemma wifi_points_simps [simp]:
  "station (wifi_points pos l) = station l" "access_point (wifi_points pos l) = access_point l"
  "link_hidden (wifi_points pos l) = link_hidden l"
  by (simp_all add: wifi_points_def split: option.splits)

lemma wifi_points_line: "wifi_line (wifi_points pos l) \<noteq> None \<longleftrightarrow> wifi_line l \<noteq> None \<or> (station l \<noteq> None \<and> access_point l \<noteq> None)"
  by (auto simp: wifi_points_def split: option.splits)

lemma scan_wifi_ok:
  assumes "wifi_ok s" "\<And>k. access_point (wifi_links s k) = None" 
  shows "wifi_ok (scan_wifi n d s) \<and> (\<forall>k. access_point (wifi_links (scan_wifi n d s) k) = None)"
  using assms by (auto simp: wifi_ok_def scan_wifi_def put_link_def new_wifi_link_def less_Suc_eq split: prod.splits mac.splits)

lemma wifi_ok_start: "wifi_ok (scan_nodes W nodes new_monitor)"
proof -
  have one: "wifi_ok (fold (scan_wifi n) ds s) \<and> (\<forall>k. access_point (wifi_links (fold (scan_wifi n) ds s) k) = None)"
    if "wifi_ok s" "\<forall>k. access_point (wifi_links s k) = None" for n ds s
    using that
  proof (induction ds arbitrary: s)
    case (Cons d ds)
    with scan_wifi_ok [of s n d] have "wifi_ok (scan_wifi n d s)" "\<forall>k. access_point (wifi_links (scan_wifi n d s) k) = None"
      by blast+
    from Cons.IH [OF this] show ?case by simp
  qed simp
  have "wifi_ok (fold (\<lambda>n. fold (scan_wifi n) (macs W n)) nodes s)"
    if "wifi_ok s" "\<forall>k. access_point (wifi_links s k) = None" for s
    using that by (induction nodes arbitrary: s) (simp_all add: one)
  moreover have "wifi_ok (new_monitor\<lparr>access_points := (\<lambda>b. None), stations := []\<rparr>)"
    by (simp add: wifi_ok_def new_monitor_def)
  ultimately show ?thesis by (simp add: scan_nodes_def Let_def new_monitor_def new_wifi_link_def)
qed

text \<open>A station whose access point changes moves from one list to the other.\<close>

lemma set_ap_ok:
  assumes ok: "wifi_ok s" and k: "k < next_link s"
  obtains s' where "set_ap pos k ap s = Inr s'" "wifi_ok s'" "access_point (wifi_links s' k) = ap"
    "\<And>j. j \<noteq> k \<Longrightarrow> wifi_links s' j = wifi_links s j"
    "stations s' = stations s" "access_points s' = access_points s" "next_link s' = next_link s"
proof (cases "ap = access_point (wifi_links s k)")
  case True
  then have "set_ap pos k ap s = Inr s" by (simp add: set_ap_def)
  then show thesis by (rule that) (use ok True in simp_all)
next
  case False
  let ?old = "access_point (wifi_links s k)"
  have inl: "j \<in> set (links_at s n) \<longleftrightarrow> j < next_link s \<and> access_point (wifi_links s j) = Some n"
    and dist: "distinct (links_at s n)" for j n using ok by (simp_all add: wifi_ok_def)
  define s1 where "s1 = (case ?old of None \<Rightarrow> s | Some n \<Rightarrow> s\<lparr>links_at := (links_at s)(n := remove1 k (links_at s n))\<rparr>)"
  have rem: "(case ?old of None \<Rightarrow> Inr s | Some n \<Rightarrow> remove_link n k s) = Inr s1"
  proof (cases ?old)
    case (Some n)
    with inl [of k n] k have "k \<in> set (links_at s n)" by simp
    with Some show ?thesis by (simp add: s1_def remove_link_def)
  qed (simp add: s1_def)
  have at: "links_at s1 n = (if ?old = Some n then remove1 k (links_at s n) else links_at s n)" for n
    by (simp add: s1_def split: option.splits)
  have "k \<notin> set (links_at s n)" if "?old \<noteq> Some n" for n using inl [of k n] that by simp
  then have s1: "j \<in> set (links_at s1 n) \<longleftrightarrow> j \<noteq> k \<and> j \<in> set (links_at s n)" "distinct (links_at s1 n)" for j n
    using dist [of n] unfolding at by (auto simp: set_remove1_eq)
  have s1': "wifi_links s1 = wifi_links s" "stations s1 = stations s" "access_points s1 = access_points s" "next_link s1 = next_link s"
    by (simp_all add: s1_def split: option.splits)
  define l where "l = (wifi_links s k)\<lparr>access_point := ap, link_hidden := (ap = None)\<rparr>"
  define s2 where "s2 = (case ap of None \<Rightarrow> s1 | Some n \<Rightarrow> add_link n k s1)"
  have s2: "j \<in> set (links_at s2 n) \<longleftrightarrow> (if j = k then ap = Some n else j \<in> set (links_at s n))" "distinct (links_at s2 n)" for j n
    using s1(1) [of j n] s1(1) [of k n] s1(2) [of n] by (auto simp: s2_def add_link_def split: option.splits)
  have s2': "wifi_links s2 = wifi_links s" "stations s2 = stations s" "access_points s2 = access_points s" "next_link s2 = next_link s"
    using s1' by (simp_all add: s2_def add_link_def split: option.splits)
  define s' where "s' = put_link k (wifi_points pos l) s2"
  have res: "set_ap pos k ap s = Inr s'"
    using False rem by (simp add: set_ap_def Let_def s'_def s2_def l_def s1' cong: option.case_cong)
  have links: "wifi_links s' j = (if j = k then wifi_points pos l else wifi_links s j)" for j
    by (simp add: s'_def put_link_def s2')
  have other: "stations s' = stations s" "access_points s' = access_points s" "next_link s' = next_link s" "links_at s' = links_at s2"
    by (simp_all add: s'_def put_link_def s2')
  have "wifi_ok s'"
    unfolding wifi_ok_def other
  proof (intro conjI allI ballI)
    fix n j
    show "distinct (links_at s2 n)" by (rule s2(2))
    show "j \<in> set (links_at s2 n) \<longleftrightarrow> j < next_link s \<and> access_point (wifi_links s' j) = Some n"
      using s2(1) [of j n] inl [of j n] k by (simp add: links l_def)
  qed (use ok k in \<open>auto simp: wifi_ok_def links l_def wifi_points_line split: prod.splits\<close>)
  then show thesis by (rule that [OF res]) (simp_all add: links other l_def)
qed

text \<open>
  After an update each station is linked to the access point it is associated with, or to none, if every BSSID is
  that of an access point; and each link is then in the list of its access point exactly once.
\<close>

theorem wifi_links_current:
  assumes "wifi_ok s" "\<forall>(dev, n, k) \<in> set (stations s). associated W s dev = Inr (a dev)"
  shows "\<exists>s'. wifi_periodic_update W pos (stations s) s = (None, s') \<and> wifi_ok s' \<and>
    (\<forall>(dev, n, k) \<in> set (stations s). access_point (wifi_links s' k) = a dev)"
proof -
  have "\<exists>s'. wifi_periodic_update W pos sts u = (None, s') \<and> wifi_ok s' \<and>
      (\<forall>(dev, n, k) \<in> set sts. access_point (wifi_links s' k) = a dev) \<and>
      (\<forall>j. j \<notin> (\<lambda>(dev, n, k). k) ` set sts \<longrightarrow> wifi_links s' j = wifi_links u j)"
    if "wifi_ok u" "stations u = stations s" "access_points u = access_points s" "set sts \<subseteq> set (stations s)"
      "distinct (map (\<lambda>(dev, n, k). k) sts)" for sts u
    using that
  proof (induction sts arbitrary: u)
    case (Cons st sts)
    obtain dev n k where st: "st = (dev, n, k)" by (cases st)
    with Cons.prems have mem: "(dev, n, k) \<in> set (stations u)" by auto
    then have k: "k < next_link u" using Cons.prems(1) by (auto simp: wifi_ok_def)
    have "associated W u dev = Inr (a dev)"
      using assms(2) mem Cons.prems(2,3) by (auto simp: associated_def)
    moreover obtain v where v: "set_ap pos k (a dev) u = Inr v" "wifi_ok v" "access_point (wifi_links v k) = a dev"
      "\<And>j. j \<noteq> k \<Longrightarrow> wifi_links v j = wifi_links u j" "stations v = stations u" "access_points v = access_points u"
      using set_ap_ok [OF Cons.prems(1) k] by metis
    ultimately have step: "wifi_periodic_update W pos (st # sts) u = wifi_periodic_update W pos sts v" by (simp add: st)
    have "stations v = stations s" "access_points v = access_points s" "set sts \<subseteq> set (stations s)"
      "distinct (map (\<lambda>(dev, n, k). k) sts)" using v Cons.prems by auto
    from Cons.IH [OF v(2) this] obtain s' where s': "wifi_periodic_update W pos sts v = (None, s')" "wifi_ok s'"
      "\<forall>(dev, n, k) \<in> set sts. access_point (wifi_links s' k) = a dev"
      "\<forall>j. j \<notin> (\<lambda>(dev, n, k). k) ` set sts \<longrightarrow> wifi_links s' j = wifi_links v j" by blast
    have "k \<notin> (\<lambda>(dev, n, k). k) ` set sts" using Cons.prems(5) st by auto
    with s'(4) v(3) have "access_point (wifi_links s' k) = a dev" by metis
    moreover have "\<forall>j. j \<notin> (\<lambda>(dev, n, k). k) ` set (st # sts) \<longrightarrow> wifi_links s' j = wifi_links u j"
      using s'(4) v(4) st by auto
    ultimately show ?case using s' step st by auto
  qed simp
  from this [of s "stations s"] assms(1) show ?thesis by (auto simp: wifi_ok_def)
qed

text \<open>
  A station that is associated with a BSSID of no access point of the simulation ends the update: the stations after it keep
  the links they had.
\<close>

lemma unknown_bssid_fails:
  "link_up W dev \<Longrightarrow> bssid_of W dev \<noteq> ''00:00:00:00:00:00'' \<Longrightarrow> access_points s (bssid_of W dev) = None \<Longrightarrow>
   wifi_periodic_update W pos ((dev, n, k) # sts) s = (Some KeyError, s)"
  by (simp add: associated_def)

text \<open>The lines follow the stations only with the next update of the view, which draws them all.\<close>

lemma wifi_view_drawn:
  assumes "wifi_ok s" "(dev, n, k) \<in> set (stations s)" "access_point (wifi_links s k) = Some m"
  shows "wifi_line (wifi_links (wifi_update_view pos s) k) = Some (pos n, pos m)"
proof -
  have one: "wifi_links (fold (\<lambda>(dev, n, k) s. put_link k (wifi_points pos (wifi_links s k)) s) sts u) k =
      (if k \<in> (\<lambda>(dev, n, k). k) ` set sts then wifi_points pos (wifi_links u k) else wifi_links u k)" for sts u
  proof (induction sts arbitrary: u)
    case (Cons st sts)
    have "wifi_points pos (wifi_points pos l) = wifi_points pos l" for l by (simp add: wifi_points_def split: option.splits)
    with Cons show ?case by (cases st) (auto simp: put_link_def)
  qed simp
  have "station (wifi_links s k) = Some n" using assms by (auto simp: wifi_ok_def)
  moreover have "k \<in> (\<lambda>(dev, n, k). k) ` set (stations s)" using assms(2) by force
  ultimately show ?thesis using assms(3) by (simp add: wifi_update_view_def one) (simp add: wifi_points_def)
qed

end
