(* ===== verification/FlowMonitor.thy ===== *)
theory FlowMonitor
  imports TestReport CheckStyle
begin

text \<open>
  \<open>src/flow-monitor/examples/flowmon-parse-results.py\<close>: the file of the flow monitor, as the tree that ElementTree reads, becomes a
  list of flows with their mean values, and a line of the report for each. Numbers are read from their usual spelling; the
  format of the numbers printed is left out.
\<close>

section \<open>Numbers\<close>

definition sign_split :: "string \<Rightarrow> int \<times> string" where
  "sign_split s =
     (case s of
        [] \<Rightarrow> (1, [])
      | c # r \<Rightarrow> if c = CHR ''-'' then (- 1, r) else if c = CHR ''+'' then (1, r) else (1, s))"

definition py_long :: "string \<Rightarrow> int result" where
  "py_long s =
     (case sign_split s of (sg, r) \<Rightarrow> if r \<noteq> [] \<and> list_all is_digit r then Inr (sg * dec_value r) else Inl ValueError)"

definition ten_to :: "int \<Rightarrow> rat" where
  "ten_to k = (if 0 \<le> k then 10 ^ nat k else 1 / 10 ^ nat (- k))"

definition py_float_text :: "string \<Rightarrow> double result" where
  "py_float_text s =
     (case sign_split s of (sg, r) \<Rightarrow>
       (case split_once CHR ''e'' r of (m, e) \<Rightarrow>
         (case split_once CHR ''.'' m of (a, f) \<Rightarrow>
           (let f = (case f of None \<Rightarrow> [] | Some f \<Rightarrow> f) in
            if a @ f = [] \<or> \<not> list_all is_digit (a @ f) then Inl ValueError
            else ebind (case e of None \<Rightarrow> Inr 0 | Some e \<Rightarrow> py_long e) (\<lambda>k.
              Inr (fl (of_int (sg * dec_value (a @ f)) * ten_to (k - int (length f)))))))))"

text \<open>\<open>tm[:-4]\<close>\<close>

definition chop4 :: "string \<Rightarrow> string" where
  "chop4 s = take (length s - 4) s"

definition parse_time_ns :: "string \<Rightarrow> int result" where
  "parse_time_ns tm = (if 2 \<le> length tm \<and> drop (length tm - 2) tm = ''ns'' then py_long (chop4 tm) else Inl ValueError)"

text \<open>An attribute that is missing is \<open>None\<close>, of which neither a number nor a slice can be taken.\<close>

definition attr :: "string \<Rightarrow> elem \<Rightarrow> string result" where
  "attr k e = (case map_of (elem_attrs e) k of None \<Rightarrow> Inl TypeError | Some v \<Rightarrow> Inr v)"

definition long_attr :: "string \<Rightarrow> elem \<Rightarrow> int result" where
  "long_attr k e = ebind (attr k e) py_long"

definition float_attr :: "string \<Rightarrow> elem \<Rightarrow> double result" where
  "float_attr k e = ebind (attr k e) py_float_text"

definition time_attr :: "string \<Rightarrow> elem \<Rightarrow> int result" where
  "time_attr k e = ebind (attr k e) (\<lambda>v. py_long (chop4 v))"

section \<open>Flows\<close>

record five_tuple =
  sourceAddress :: "string option"
  destinationAddress :: "string option"
  sourcePort :: int
  destinationPort :: int
  protocol :: int

definition FiveTuple :: "elem \<Rightarrow> five_tuple result" where
  "FiveTuple el =
     ebind (long_attr ''sourcePort'' el) (\<lambda>sp.
     ebind (long_attr ''destinationPort'' el) (\<lambda>dp.
     ebind (long_attr ''protocol'' el) (\<lambda>pr.
     Inr \<lparr>sourceAddress = map_of (elem_attrs el) ''sourceAddress'', destinationAddress = map_of (elem_attrs el) ''destinationAddress'',
          sourcePort = sp, destinationPort = dp, protocol = pr\<rparr>)))"

fun map_ok :: "('a \<Rightarrow> 'b result) \<Rightarrow> 'a list \<Rightarrow> 'b list result" where
  "map_ok f [] = Inr []"
| "map_ok f (x # xs) = ebind (f x) (\<lambda>y. ebind (map_ok f xs) (\<lambda>ys. Inr (y # ys)))"

type_synonym bins = "(double \<times> double \<times> int) list"

definition Histogram :: "elem \<Rightarrow> bins result" where
  "Histogram el =
     map_ok (\<lambda>b. ebind (float_attr ''start'' b) (\<lambda>s. ebind (float_attr ''width'' b) (\<lambda>w. ebind (long_attr ''count'' b) (\<lambda>c. Inr (s, w, c)))))
       (findall ''bin'' el)"

record probe_flow_stats =
  probeId :: int
  probe_packets :: int
  probe_bytes :: int
  delayFromFirstProbe :: double

record flow =
  flowId :: int
  delayMean :: "double option"
  packetLossRatio :: "double option"
  rxBitrate :: "double option"
  txBitrate :: "double option"
  fiveTuple :: "five_tuple option"
  packetSizeMean :: "double option"
  probe_stats_unsorted :: "probe_flow_stats list"
  hopCount :: double
  flowInterruptionsHistogram :: "bins option"
  rx_duration :: double

definition duration :: "int \<Rightarrow> int \<Rightarrow> double" where
  "duration t2 t1 = py_mul (fl (of_int (t2 - t1))) (fl (1 / 10 ^ 9))"

definition bitrate :: "string \<Rightarrow> elem \<Rightarrow> double \<Rightarrow> double option result" where
  "bitrate k el d =
     (if 0 < d then ebind (long_attr k el) (\<lambda>b. ebind (py_div (fl (of_int (b * 8))) d) (\<lambda>r. Inr (Some r))) else Inr None)"

definition mean_values :: "elem \<Rightarrow> int \<Rightarrow> (double \<times> double option \<times> double option) result" where
  "mean_values el rx =
     (if rx \<noteq> 0 then
        ebind (float_attr ''timesForwarded'' el) (\<lambda>tf. ebind (py_div tf (fl (of_int rx))) (\<lambda>h.
        ebind (ebind (attr ''delaySum'' el) (\<lambda>v. py_float_text (chop4 v))) (\<lambda>ds. ebind (py_div ds (fl (of_int rx))) (\<lambda>d.
        ebind (float_attr ''rxBytes'' el) (\<lambda>b. ebind (py_div b (fl (of_int rx))) (\<lambda>sz.
        Inr (py_add h 1, Some (py_mul d (fl (1 / 10 ^ 9))), Some sz)))))))
      else Inr (- 1000, None, None))"

definition loss_ratio :: "int \<Rightarrow> double \<Rightarrow> double option result" where
  "loss_ratio rx lost =
     (if rx = 0 then Inr None else ebind (py_div lost (py_add (fl (of_int rx)) lost)) (\<lambda>r. Inr (Some r)))"

definition Flow :: "elem \<Rightarrow> flow result" where
  "Flow el =
     ebind (long_attr ''flowId'' el) (\<lambda>i.
     ebind (long_attr ''rxPackets'' el) (\<lambda>rx.
     ebind (long_attr ''txPackets'' el) (\<lambda>tx.
     ebind (time_attr ''timeLastTxPacket'' el) (\<lambda>t2.
     ebind (time_attr ''timeFirstTxPacket'' el) (\<lambda>t1.
     ebind (time_attr ''timeLastRxPacket'' el) (\<lambda>r2.
     ebind (time_attr ''timeFirstRxPacket'' el) (\<lambda>r1.
     ebind (mean_values el rx) (\<lambda>(hops, delay, sz).
     ebind (bitrate ''rxBytes'' el (duration r2 r1)) (\<lambda>rxb.
     ebind (bitrate ''txBytes'' el (duration t2 t1)) (\<lambda>txb.
     ebind (float_attr ''lostPackets'' el) (\<lambda>lost.
     ebind (loss_ratio rx lost) (\<lambda>ratio.
     ebind (case find_elem ''flowInterruptionsHistogram'' el of
              None \<Rightarrow> Inr None
            | Some h \<Rightarrow> ebind (Histogram h) (\<lambda>b. Inr (Some b))) (\<lambda>hist.
     Inr \<lparr>flowId = i, delayMean = delay, packetLossRatio = ratio, rxBitrate = rxb, txBitrate = txb, fiveTuple = None,
          packetSizeMean = sz, probe_stats_unsorted = [], hopCount = hops, flowInterruptionsHistogram = hist,
          rx_duration = duration r2 r1\<rparr>)))))))))))))"

section \<open>Simulations\<close>

text \<open>The map from identifiers to flows refers to the flows of the list: the last one with the identifier.\<close>

fun last_with :: "int \<Rightarrow> flow list \<Rightarrow> nat option" where
  "last_with i [] = None"
| "last_with i (f # fs) =
     (case last_with i fs of Some k \<Rightarrow> Some (k + 1) | None \<Rightarrow> if flowId f = i then Some 0 else None)"

definition update_flow :: "int \<Rightarrow> (flow \<Rightarrow> flow) \<Rightarrow> flow list \<Rightarrow> flow list result" where
  "update_flow i g fs = (case last_with i fs of None \<Rightarrow> Inl KeyError | Some k \<Rightarrow> Inr (fs[k := g (fs ! k)]))"

text \<open>The map is looked up after the five-tuple is read.\<close>

definition classify :: "elem \<Rightarrow> flow list \<Rightarrow> flow list result" where
  "classify el fs =
     ebind (long_attr ''flowId'' el) (\<lambda>i. ebind (FiveTuple el) (\<lambda>t. update_flow i (\<lambda>f. f\<lparr>fiveTuple := Some t\<rparr>) fs))"

definition probe_stats :: "int \<Rightarrow> elem \<Rightarrow> flow list \<Rightarrow> flow list result" where
  "probe_stats probe el fs =
     ebind (long_attr ''flowId'' el) (\<lambda>i.
     ebind (long_attr ''packets'' el) (\<lambda>p.
     ebind (long_attr ''bytes'' el) (\<lambda>b.
     ebind (if 0 < p
            then ebind (attr ''delayFromFirstProbeSum'' el) (\<lambda>v. ebind (parse_time_ns v) (\<lambda>t.
                 py_div (fl (of_int t)) (fl (of_int p))))
            else Inr 0) (\<lambda>d.
     update_flow i (\<lambda>f. f\<lparr>probe_stats_unsorted := probe_stats_unsorted f @
       [\<lparr>probeId = probe, probe_packets = p, probe_bytes = b, delayFromFirstProbe = d\<rparr>]\<rparr>) fs))))"

fun fold_ok :: "('a \<Rightarrow> 'b \<Rightarrow> 'b result) \<Rightarrow> 'a list \<Rightarrow> 'b \<Rightarrow> 'b result" where
  "fold_ok f [] s = Inr s"
| "fold_ok f (x # xs) s = ebind (f x s) (fold_ok f xs)"

definition probe_all :: "elem \<Rightarrow> flow list \<Rightarrow> flow list result" where
  "probe_all el fs = ebind (long_attr ''index'' el) (\<lambda>p. fold_ok (probe_stats p) (findall ''FlowStats'' el) fs)"

definition Simulation :: "elem \<Rightarrow> flow list result" where
  "Simulation el =
     (case findall ''Ipv4FlowClassifier'' el of
        [c] \<Rightarrow>
          ebind (map_ok Flow (concat (map (findall ''Flow'') (findall ''FlowStats'' el)))) (\<lambda>fs.
          ebind (fold_ok classify (findall ''Flow'' c) fs) (\<lambda>fs.
          fold_ok probe_all (concat (map (findall ''FlowProbe'') (findall ''FlowProbes'' el))) fs))
      | _ \<Rightarrow> Inl ValueError)"

section \<open>The report\<close>

datatype xml_event = Start elem | End elem

fun events_of :: "elem \<Rightarrow> xml_event list" where
  "events_of (Elem t as x cs) = Start (Elem t as x cs) # concat (map events_of cs) @ [End (Elem t as x cs)]"

fun iterparse :: "xml_event list \<Rightarrow> int \<Rightarrow> elem list" where
  "iterparse [] level = []"
| "iterparse (Start e # es) level = iterparse es (level + 1)"
| "iterparse (End e # es) level =
     (if level - 1 = 0 \<and> elem_tag e = ''FlowMonitor'' then e # iterparse es (level - 1) else iterparse es (level - 1))"

record report_line =
  line_flow :: int
  line_proto :: string
  line_tuple :: five_tuple
  tx_kbits :: "double option"
  rx_kbits :: "double option"
  delay_ms :: "double option"
  loss_percent :: "double option"

definition report_flow :: "flow \<Rightarrow> report_line result" where
  "report_flow f =
     (case fiveTuple f of
        None \<Rightarrow> Inl AttributeError
      | Some t \<Rightarrow>
          ebind (if protocol t = 6 then Inr ''TCP'' else if protocol t = 17 then Inr ''UDP'' else Inl KeyError) (\<lambda>proto.
          Inr \<lparr>line_flow = flowId f, line_proto = proto, line_tuple = t,
               tx_kbits = map_option (\<lambda>r. py_mul r (fl (1 / 1000))) (txBitrate f),
               rx_kbits = map_option (\<lambda>r. py_mul r (fl (1 / 1000))) (rxBitrate f),
               delay_ms = map_option (\<lambda>d. py_mul d 1000) (delayMean f),
               loss_percent = map_option (\<lambda>r. py_mul r 100) (packetLossRatio f)\<rparr>))"

definition flowmon_report :: "elem \<Rightarrow> report_line list result" where
  "flowmon_report el =
     ebind (map_ok Simulation (iterparse (events_of el) 0)) (\<lambda>sims. map_ok report_flow (concat sims))"

section \<open>Reading\<close>

text \<open>The level of the parser picks out the root alone.\<close>

lemma iterparse_events: "0 < level \<Longrightarrow> iterparse (events_of e @ es) level = iterparse es level"
proof (induction e arbitrary: es level)
  case (Elem t as x cs)
  have "0 < l \<Longrightarrow> set cs' \<subseteq> set cs \<Longrightarrow> iterparse (concat (map events_of cs') @ es') l = iterparse es' l" for cs' es' l
    by (induction cs' arbitrary: es' l) (use Elem.IH in auto)
  from this [of "level + 1" cs "End (Elem t as x cs) # es"] Elem.prems show ?case by simp
qed

lemma iterparse_root: "iterparse (events_of e) 0 = (if elem_tag e = ''FlowMonitor'' then [e] else [])"
proof (cases e)
  case (Elem t as x cs)
  have "iterparse (concat (map events_of cs') @ es) 1 = iterparse es 1" for cs' es
    by (induction cs' arbitrary: es) (simp_all add: iterparse_events)
  from this [of cs "[End e]"] Elem show ?thesis by simp
qed

lemma sign_split_digits: "sign_split (digits n) = (1, digits n)"
proof -
  obtain c r where r: "digits n = c # r" "is_digit c" using digits_number [of n] by (cases "digits n") auto
  then have "c \<noteq> CHR ''-''" "c \<noteq> CHR ''+''" by (auto simp: is_digit_def)
  with r(1) show ?thesis by (simp add: sign_split_def)
qed

lemma long_digits: "py_long (digits n) = Inr (int n)" "py_long (CHR ''+'' # digits n) = Inr (int n)"
  using digits_number [of n] sign_split_digits [of n] by (simp_all add: py_long_def) (simp add: sign_split_def)

text \<open>
  A time as the documentation of the flow monitor shows it is read exactly. A time as \<open>time.cc\<close> of this tree prints it has no
  fraction: below a hundred nanoseconds it cannot be read, up to a millisecond it loses its last two digits, and from there
  on it is printed with an exponent and cannot be read again.
\<close>

definition documented_time :: "nat \<Rightarrow> string" where
  "documented_time n = ''+'' @ digits n @ ''.0ns''"

definition printed_time :: "nat \<Rightarrow> string" where
  "printed_time n = ''+'' @ digits n @ ''ns''"

lemma digits_two: "100 \<le> n \<Longrightarrow> \<exists>a b. digits n = digits (n div 100) @ [a, b]"
proof -
  assume n: "100 \<le> n"
  then have "digits n = digits (n div 10) @ [char_of (48 + n mod 10)]" by (simp add: digits.simps [of n])
  moreover have "digits (n div 10) = digits (n div 10 div 10) @ [char_of (48 + n div 10 mod 10)]"
    using n by (simp add: digits.simps [of "n div 10"])
  moreover have "n div 10 div 10 = n div 100" by (simp add: div_mult2_eq [symmetric])
  ultimately show ?thesis by simp
qed

lemma digits_short: "n < 100 \<Longrightarrow> length (digits n) \<le> 2"
  by (simp add: digits.simps [of n] digits.simps [of "n div 10"])

lemma py_long_no_digits: "py_long '''' = Inl ValueError" "py_long ''+'' = Inl ValueError"
  by (simp_all add: py_long_def sign_split_def)

theorem documented_time_read: "parse_time_ns (documented_time n) = Inr (int n)"
  by (simp add: parse_time_ns_def documented_time_def chop4_def long_digits)

theorem printed_time_misread:
  "parse_time_ns (printed_time n) = (if n < 100 then Inl ValueError else Inr (int (n div 100)))"
proof (cases "n < 100")
  case True
  then have "length (digits n) \<le> 2" by (rule digits_short)
  then have "chop4 (printed_time n) = '''' \<or> chop4 (printed_time n) = ''+''"
    by (auto simp: chop4_def printed_time_def take_Cons')
  with True show ?thesis by (auto simp: parse_time_ns_def printed_time_def py_long_no_digits)
next
  case False
  then obtain a b where "digits n = digits (n div 100) @ [a, b]" using digits_two by force
  then have "chop4 (printed_time n) = CHR ''+'' # digits (n div 100)" by (simp add: chop4_def printed_time_def)
  with False show ?thesis by (simp add: parse_time_ns_def printed_time_def long_digits(2))
qed

lemma exponent_time_fails: "parse_time_ns ''+2.00672e+07ns'' = Inl ValueError"
  by code_simp

text \<open>A flow of packets over IPv4 that is neither TCP nor UDP ends the report.\<close>

lemma other_protocol_fails:
  "fiveTuple f = Some t \<Longrightarrow> protocol t \<notin> {6, 17} \<Longrightarrow> report_flow f = Inl KeyError"
  by (simp add: report_flow_def)

end
