(* ===== verification/PyRegex.thy ===== *)
theory PyRegex
  imports PyText
begin

text \<open>
  Regular expressions of Python's \<open>re\<close>, for the patterns that the programs use: repetition is over single
  characters. A pattern has a list of ways to match at the front of a text, in the order in which the
  backtracking matcher tries them; \<open>re.match\<close> takes the first one, so that greedy and lazy repetition differ.
  The rules \<open>first_*\<close> and \<open>none_*\<close> tell the first way of a pattern without listing the others.
\<close>

named_theorems rx_rules \<open>the first way of a pattern to match\<close>

section \<open>Patterns and their matches\<close>

datatype rx =
    Lit string
  | Class "char \<Rightarrow> bool"
  | Greedy nat "char \<Rightarrow> bool"
  | Lazy nat "char \<Rightarrow> bool"
  | Group nat rx
  | Then rx rx
  | Maybe rx
  | Alt rx rx

type_synonym groups = "nat \<rightharpoonup> string"

definition run_of :: "(char \<Rightarrow> bool) \<Rightarrow> string \<Rightarrow> nat" where
  "run_of p s = length (takeWhile p s)"

fun ways :: "rx \<Rightarrow> string \<Rightarrow> (groups \<times> string) list" where
  "ways (Lit w) s = (if take (length w) s = w then [(Map.empty, drop (length w) s)] else [])"
| "ways (Class p) s = (case s of [] \<Rightarrow> [] | c # r \<Rightarrow> if p c then [(Map.empty, r)] else [])"
| "ways (Greedy n p) s = map (\<lambda>k. (Map.empty, drop k s)) (rev [n..<Suc (run_of p s)])"
| "ways (Lazy n p) s = map (\<lambda>k. (Map.empty, drop k s)) [n..<Suc (run_of p s)]"
| "ways (Group n a) s = map (\<lambda>(g, r). (g(n \<mapsto> take (length s - length r) s), r)) (ways a s)"
| "ways (Then a b) s = concat (map (\<lambda>(g, r). map (\<lambda>(h, q). (g ++ h, q)) (ways b r)) (ways a s))"
| "ways (Maybe a) s = ways a s @ [(Map.empty, s)]"
| "ways (Alt a b) s = ways a s @ ways b s"

definition re_match :: "rx \<Rightarrow> string \<Rightarrow> (groups \<times> string) option" where
  "re_match a s = (case ways a s of [] \<Rightarrow> None | w # ws \<Rightarrow> Some w)"

text \<open>
  Searching from left to right: the texts between the matches, with the groups of each match, and the text after the
  last one. The patterns searched for match no empty text.
\<close>

function scan :: "rx \<Rightarrow> string \<Rightarrow> string \<Rightarrow> (string \<times> groups) list \<times> string" where
  "scan a u [] = ([], u)"
| "scan a u (c # s) =
     (case re_match a (c # s) of
        None \<Rightarrow> scan a (u @ [c]) s
      | Some (g, r) \<Rightarrow>
          if length r < length (c # s) then (case scan a [] r of (ms, t) \<Rightarrow> ((u, g) # ms, t))
          else scan a (u @ [c]) s)"
  by pat_completeness auto
termination by (relation "measure (\<lambda>(a, u, s). length s)") auto

definition group_text :: "groups \<Rightarrow> nat \<Rightarrow> string" where
  "group_text g n = (case g n of None \<Rightarrow> '''' | Some t \<Rightarrow> t)"

text \<open>\<open>findall\<close> and \<open>split\<close> for a pattern of one group, and \<open>sub\<close> with a function of the groups.\<close>

definition re_findall :: "rx \<Rightarrow> string \<Rightarrow> string list" where
  "re_findall a s = map (\<lambda>(u, g). group_text g 1) (fst (scan a [] s))"

definition re_split :: "rx \<Rightarrow> string \<Rightarrow> string list" where
  "re_split a s = (case scan a [] s of (ms, t) \<Rightarrow> concat (map (\<lambda>(u, g). [u, group_text g 1]) ms) @ [t])"

fun sub_parts :: "(groups \<Rightarrow> string result) \<Rightarrow> (string \<times> groups) list \<Rightarrow> string \<Rightarrow> string result" where
  "sub_parts f [] t = Inr t"
| "sub_parts f ((u, g) # ms) t = ebind (f g) (\<lambda>v. ebind (sub_parts f ms t) (\<lambda>w. Inr (u @ v @ w)))"

definition re_sub :: "rx \<Rightarrow> (groups \<Rightarrow> string result) \<Rightarrow> string \<Rightarrow> string result" where
  "re_sub a f s = (case scan a [] s of (ms, t) \<Rightarrow> sub_parts f ms t)"

section \<open>Character classes\<close>

definition digit_char :: "char \<Rightarrow> bool" where
  "digit_char c \<longleftrightarrow> of_char c \<in> ({48..57} :: nat set)"

definition is_hex :: "char \<Rightarrow> bool" where
  "is_hex c \<longleftrightarrow> of_char c \<in> ({48..57} \<union> {65..70} \<union> {97..102} :: nat set)"

definition no_newline :: "char \<Rightarrow> bool" where
  "no_newline c \<longleftrightarrow> c \<noteq> newline"

section \<open>The first match\<close>

definition first_way :: "rx \<Rightarrow> string \<Rightarrow> groups \<Rightarrow> string \<Rightarrow> bool" where
  "first_way a s g r \<longleftrightarrow> re_match a s = Some (g, r)"

definition no_way :: "rx \<Rightarrow> string \<Rightarrow> bool" where
  "no_way a s \<longleftrightarrow> re_match a s = None"

lemma no_way_iff: "no_way a s \<longleftrightarrow> ways a s = []"
  by (simp add: no_way_def re_match_def split: list.splits)

lemma first_way_iff: "first_way a s g r \<longleftrightarrow> (\<exists>ws. ways a s = (g, r) # ws)"
  by (auto simp: first_way_def re_match_def split: list.splits)

lemma first_wayD: "first_way a s g r \<Longrightarrow> re_match a s = Some (g, r)"
  by (simp add: first_way_def)

lemma no_wayD: "no_way a s \<Longrightarrow> re_match a s = None"
  by (simp add: no_way_def)

lemma first_Lit [rx_rules]: "first_way (Lit w) (w @ s) Map.empty s"
  by (simp add: first_way_iff)

lemma none_Lit: "take (length w) s \<noteq> w \<Longrightarrow> no_way (Lit w) s"
  by (simp add: no_way_iff)

lemma first_Class [rx_rules]: "p c \<Longrightarrow> first_way (Class p) (c # s) Map.empty s"
  by (simp add: first_way_iff)

lemma run_of_append:
  assumes "\<forall>c \<in> set u. p c" and "v = [] \<or> \<not> p (hd v)"
  shows "run_of p (u @ v) = length u"
proof -
  have "takeWhile p v = []" using assms(2) by (cases v) auto
  with assms(1) show ?thesis by (simp add: run_of_def takeWhile_append2)
qed

lemma first_Greedy:
  assumes "\<forall>c \<in> set u. p c" and "v = [] \<or> \<not> p (hd v)" and "n \<le> length u"
  shows "first_way (Greedy n p) (u @ v) Map.empty v"
proof -
  have "run_of p (u @ v) = length u" by (rule run_of_append) (use assms in auto)
  with assms(3) show ?thesis by (simp add: first_way_iff)
qed

lemma none_Greedy: "run_of p s < n \<Longrightarrow> no_way (Greedy n p) s"
  by (simp add: no_way_iff)

lemma first_Group [rx_rules]: "first_way a (u @ r) g r \<Longrightarrow> first_way (Group n a) (u @ r) (g(n \<mapsto> u)) r"
  by (auto simp: first_way_iff)

lemma none_Group: "no_way a s \<Longrightarrow> no_way (Group n a) s"
  by (simp add: no_way_iff)

lemma first_Then [rx_rules]:
  assumes "first_way a s g r" and "first_way b r h q"
  shows "first_way (Then a b) s (g ++ h) q"
  using assms by (auto simp: first_way_iff)

lemma none_Then_left: "no_way a s \<Longrightarrow> no_way (Then a b) s"
  by (simp add: no_way_iff)

lemma none_Then: "(\<And>g r. (g, r) \<in> set (ways a s) \<Longrightarrow> no_way b r) \<Longrightarrow> no_way (Then a b) s"
  by (auto simp: no_way_iff)

lemma first_Maybe [rx_rules]: "first_way a s g r \<Longrightarrow> first_way (Maybe a) s g r"
  by (auto simp: first_way_iff)

lemma first_Maybe_none [rx_rules]: "no_way a s \<Longrightarrow> first_way (Maybe a) s Map.empty s"
  by (simp add: first_way_iff no_way_iff)

lemma first_Alt: "first_way a s g r \<Longrightarrow> first_way (Alt a b) s g r"
  by (auto simp: first_way_iff)

lemma first_Alt_other: "no_way a s \<Longrightarrow> first_way b s g r \<Longrightarrow> first_way (Alt a b) s g r"
  by (auto simp: first_way_iff no_way_iff)

lemma none_Alt: "no_way a s \<Longrightarrow> no_way b s \<Longrightarrow> no_way (Alt a b) s"
  by (simp add: no_way_iff)

text \<open>
  Backtracking: a greedy group before a pattern gives up characters until the pattern matches, so that the
  match is the longest after which it does.
\<close>

lemma concat_map_first:
  assumes "\<And>x. x \<in> set xs \<Longrightarrow> f x = []" and "f y = z # zs"
  shows "\<exists>ws. concat (map f (xs @ y # ys)) = z # ws"
proof -
  have "concat (map f xs) = []" using assms(1) by simp
  with assms(2) show ?thesis by (simp only: map_append concat_append list.map concat.simps append_Nil append_Cons) blast
qed

lemma first_greedy_group:
  assumes b: "first_way b v h q" and n: "n \<le> length u" and u: "\<And>c. c \<in> set u \<Longrightarrow> p c"
    and longer: "\<And>w v'. v = w @ v' \<Longrightarrow> w \<noteq> [] \<Longrightarrow> (\<And>c. c \<in> set w \<Longrightarrow> p c) \<Longrightarrow> no_way b v'"
  shows "first_way (Then (Group m (Greedy n p)) b) (u @ v) (Map.empty(m \<mapsto> u) ++ h) q"
proof -
  let ?s = "u @ v" and ?k = "length u" and ?l = "run_of p v"
  have run: "run_of p ?s = ?k + ?l" using u by (simp add: run_of_def takeWhile_append2)
  have "[n..<Suc (run_of p ?s)] = [n..<?k] @ ?k # [Suc ?k..<Suc (run_of p ?s)]"
    using n run upt_add_eq_append [of n ?k "Suc ?l"] by (simp add: upt_conv_Cons del: upt_Suc)
  then have ks: "rev [n..<Suc (run_of p ?s)] = rev [Suc ?k..<Suc (run_of p ?s)] @ ?k # rev [n..<?k]"
    by (simp del: upt_Suc)
  define f where "f = (\<lambda>k. map (\<lambda>(h, q). ((Map.empty(m \<mapsto> take (length ?s - length (drop k ?s)) ?s)) ++ h, q))
      (ways b (drop k ?s)))"
  have w: "ways (Then (Group m (Greedy n p)) b) ?s = concat (map f (rev [n..<Suc (run_of p ?s)]))"
    by (simp only: ways.simps map_map comp_def case_prod_conv f_def)
  have later: "f k = []" if k: "k \<in> set (rev [Suc ?k..<Suc (run_of p ?s)])" for k
  proof -
    from k run have lt: "?k < k" and le: "k - ?k \<le> ?l" by auto
    have d: "drop k ?s = drop (k - ?k) v" using lt by simp
    have all: "p c" if c: "c \<in> set (take (k - ?k) v)" for c
    proof -
      have "take (k - ?k) v = take (k - ?k) (takeWhile p v)"
        using le by (metis run_of_def takeWhile_eq_take take_take min.absorb1)
      with c show ?thesis by (metis in_set_takeD set_takeWhileD)
    qed
    have "?l \<le> length v" by (simp add: run_of_def length_takeWhile_le)
    with lt le have ne: "take (k - ?k) v \<noteq> []" by auto
    have "no_way b (drop (k - ?k) v)"
      by (rule longer [OF append_take_drop_id [symmetric] ne all])
    then show ?thesis by (simp only: f_def d no_way_iff) simp
  qed
  from b obtain ws where b': "ways b v = (h, q) # ws" by (auto simp: first_way_iff)
  then have "\<exists>zs. f ?k = (Map.empty(m \<mapsto> u) ++ h, q) # zs" by (simp add: f_def)
  then obtain zs where here: "f ?k = (Map.empty(m \<mapsto> u) ++ h, q) # zs" by blast
  have "\<exists>ws. concat (map f (rev [Suc ?k..<Suc (run_of p ?s)] @ ?k # rev [n..<?k])) = (Map.empty(m \<mapsto> u) ++ h, q) # ws"
    by (rule concat_map_first [where f = f, OF later here])
  then show ?thesis unfolding first_way_iff w ks .
qed

section \<open>The parts of a text\<close>

lemma scan_no_match:
  assumes "\<And>v w. s = v @ w \<Longrightarrow> no_way a w"
  shows "scan a u s = ([], u @ s)"
  using assms
proof (induction s arbitrary: u)
  case Nil
  show ?case by simp
next
  case (Cons c s)
  have "no_way a (c # s)" using Cons.prems [of "[]"] by simp
  moreover have "scan a (u @ [c]) s = ([], (u @ [c]) @ s)"
    by (rule Cons.IH) (use Cons.prems in \<open>force simp: Cons_eq_append_conv\<close>)
  ultimately show ?case by (simp add: no_wayD)
qed

lemma scan_first:
  assumes first: "first_way a s g r" and shorter: "length r < length s"
  shows "scan a u s = (case scan a [] r of (ms, t) \<Rightarrow> ((u, g) # ms, t))"
  using assms by (cases s) (simp_all add: first_wayD)

end
