(* ===== verification/Versioning.thy ===== *)
theory Versioning
  imports PyRegex
begin

text \<open>
  \<open>waf-tools/versioning.py\<close>: the version of the simulator from the tags of its repository, and from the file
  \<open>version.cache\<close> where there is no repository. The answers of git, the files found and what the file holds after a
  store are parameters; the configuration sets of waf are maps from names to texts.
\<close>

type_synonym fields = "string \<rightharpoonup> string"

type_synonym git = "string list \<Rightarrow> string result"

record version_ctx =
  cfg_env :: fields
  have_git_repo :: "bool option"
  have_ns3_repo :: "bool option"
  cache_file :: "fields option"

definition in_quotes :: "string \<Rightarrow> string" where
  "in_quotes s = [dquote] @ s @ [dquote]"

section \<open>Tags\<close>

text \<open>The pattern \<open>ns-(\d+)\.(\d+)(?:.(\d+))?(?:-(RC.+))?.*\<close>; the dot before the patch number is any character.\<close>

definition version_rx :: rx where
  "version_rx = Then (Lit ''ns-'') (Then (Group 1 (Greedy 1 digit_char)) (Then (Lit ''.'') (Then (Group 2 (Greedy 1 digit_char))
     (Then (Maybe (Then (Class no_newline) (Group 3 (Greedy 1 digit_char))))
     (Then (Maybe (Then (Lit ''-'') (Group 4 (Then (Lit ''RC'') (Greedy 1 no_newline)))))
     (Greedy 0 no_newline))))))"

definition parse_version_tag :: "fields \<Rightarrow> string \<Rightarrow> fields \<times> bool" where
  "parse_version_tag F tag =
     (let safe_tag = py_strip tag in
      case re_match version_rx safe_tag of
        None \<Rightarrow> (F, False)
      | Some (g, r) \<Rightarrow>
          (F(''VERSION_TAG'' \<mapsto> in_quotes safe_tag,
             ''VERSION_MAJOR'' \<mapsto> group_text g 1,
             ''VERSION_MINOR'' \<mapsto> group_text g 2,
             ''VERSION_PATCH'' \<mapsto> (if group_text g 3 = '''' then ''0'' else group_text g 3),
             ''VERSION_RELEASE_CANDIDATE'' \<mapsto> in_quotes (group_text g 4)), True))"

text \<open>The pattern \<open>(.+)-(\d+)-(g[a-fA-F0-9]+)(?:-(dirty))?\<close> of the answers of \<open>git describe --long\<close>.\<close>

definition describe_tail :: rx where
  "describe_tail = Then (Lit ''-'') (Then (Group 2 (Greedy 1 digit_char)) (Then (Lit ''-'')
     (Then (Group 3 (Then (Lit ''g'') (Greedy 1 is_hex))) (Maybe (Then (Lit ''-'') (Group 4 (Lit ''dirty'')))))))"

definition describe_rx :: rx where
  "describe_rx = Then (Group 1 (Greedy 1 no_newline)) describe_tail"

definition describe_cmd :: "string list" where
  "describe_cmd = [''git'', ''describe'', ''--tags'', ''--dirty'', ''--long'']"

definition closest_ns3_cmd :: "string list" where
  "closest_ns3_cmd = [''git'', ''describe'', ''--tags'', ''--abbrev=0'', ''--match'', ''ns-3*'', ''HEAD'']"

definition find_closest_tag :: "git \<Rightarrow> fields \<Rightarrow> fields result" where
  "find_closest_tag git F =
     ebind (git describe_cmd) (\<lambda>out.
       case re_match describe_rx out of
         None \<Rightarrow> Inl ValueError
       | Some (g, r) \<Rightarrow>
           Inr (fst (parse_version_tag
             (F(''CLOSEST_TAG'' \<mapsto> in_quotes (group_text g 1),
                ''VERSION_TAG_DISTANCE'' \<mapsto> group_text g 2,
                ''VERSION_COMMIT_HASH'' \<mapsto> in_quotes (group_text g 3),
                ''VERSION_DIRTY_FLAG'' \<mapsto> (if group_text g 4 = '''' then ''0'' else ''1'')))
             (group_text g 1))))"

definition find_closest_ns3_tag :: "git \<Rightarrow> fields \<Rightarrow> fields result" where
  "find_closest_ns3_tag git F =
     ebind (git closest_ns3_cmd) (\<lambda>out.
       case parse_version_tag F (py_strip out) of (F', ok) \<Rightarrow> if ok then Inr F' else Inl ValueError)"

section \<open>The task and the configuration\<close>

text \<open>
  \<open>run\<close> of the task, for the two searches of its class. \<open>store F\<close> is what the cache file holds after storing \<open>F\<close> and
  whether the store succeeded. Whatever is raised is caught; then nothing reaches the environment.
\<close>

definition version_run ::
    "(fields \<Rightarrow> fields result) \<Rightarrow> (fields \<Rightarrow> fields result) \<Rightarrow> (fields \<Rightarrow> fields option \<times> bool) \<Rightarrow> version_ctx \<Rightarrow> version_ctx \<times> int" where
  "version_run closest closest_ns3 store w =
     (case ebind (closest Map.empty) (\<lambda>F. if F ''VERSION_TAG'' = None then closest_ns3 F else Inr F) of
        Inl e \<Rightarrow> (w, 1)
      | Inr F \<Rightarrow>
          (case store F of (c, stored) \<Rightarrow>
             if stored then (w\<lparr>cache_file := c, cfg_env := cfg_env w ++ F\<rparr>, 0)
             else (w\<lparr>cache_file := c\<rparr>, 1)))"

text \<open>The searches of the base class do nothing, those of \<open>git_ns3_version_info\<close> ask git.\<close>

definition base_search :: "fields \<Rightarrow> fields result" where
  "base_search F = Inr F"

definition git_version_run :: "git \<Rightarrow> (fields \<Rightarrow> fields option \<times> bool) \<Rightarrow> version_ctx \<Rightarrow> version_ctx \<times> int" where
  "git_version_run git store w = version_run (find_closest_tag git) (find_closest_ns3_tag git) store w"

text \<open>The header is substituted after the version task, if there is one; a task that does not return 0 fails the build.\<close>

definition generate_version_defines :: "git \<Rightarrow> (fields \<Rightarrow> fields option \<times> bool) \<Rightarrow> version_ctx \<Rightarrow> version_ctx result" where
  "generate_version_defines git store w =
     (if have_ns3_repo w = Some True
      then (case git_version_run git store w of (w', status) \<Rightarrow> if status = 0 then Inr w' else Inl RuntimeError)
      else Inr w)"

definition check_git_repo :: "bool \<Rightarrow> git \<Rightarrow> bool" where
  "check_git_repo found git =
     (found \<and> (case git [''git'', ''rev-parse'', ''--show-toplevel''] of Inl e \<Rightarrow> False | Inr out \<Rightarrow> py_strip out \<noteq> ''''))"

definition check_git_repo_has_ns3_tags :: "git \<Rightarrow> bool" where
  "check_git_repo_has_ns3_tags git =
     (case git [''git'', ''describe'', ''--tags'', ''--abbrev=0'', ''--match'', ''ns-3.[0-9]*''] of
        Inl e \<Rightarrow> False | Inr out \<Rightarrow> py_strip out \<noteq> '''')"

text \<open>\<open>caches\<close> are the contents of the files \<open>version.cache\<close> found below the top directory.\<close>

definition version_configure :: "bool \<Rightarrow> bool \<Rightarrow> git \<Rightarrow> fields result list \<Rightarrow> version_ctx \<Rightarrow> version_ctx result" where
  "version_configure enabled found git caches w =
     (if \<not> enabled then Inr w
      else let has_git = check_git_repo found git;
               has_tags = (has_git \<and> check_git_repo_has_ns3_tags git);
               w' = w\<lparr>have_git_repo := Some has_git, have_ns3_repo := Some has_tags\<rparr>
           in if has_tags then Inr w'
              else case caches of
                     [] \<Rightarrow> Inl (GenericException ''fatal'')
                   | c # cs \<Rightarrow> ebind c (\<lambda>F. Inr (w'\<lparr>cfg_env := cfg_env w' ++ F\<rparr>)))"

section \<open>Reading the tag of a release\<close>

text \<open>Tags of releases, as the release scripts of the simulator name them.\<close>

record release =
  rel_major :: string
  rel_minor :: string
  rel_patch :: "string option"
  rel_rc :: "string option"

definition all_digits :: "string \<Rightarrow> bool" where
  "all_digits s \<longleftrightarrow> s \<noteq> '''' \<and> (\<forall>c \<in> set s. digit_char c)"

definition plain_text :: "string \<Rightarrow> bool" where
  "plain_text s \<longleftrightarrow> s \<noteq> '''' \<and> (\<forall>c \<in> set s. no_newline c) \<and> \<not> is_white (last s)"

definition rc_text :: "release \<Rightarrow> string" where
  "rc_text R = (case rel_rc R of None \<Rightarrow> '''' | Some x \<Rightarrow> ''RC'' @ x)"

definition release_tag :: "release \<Rightarrow> string" where
  "release_tag R = ''ns-'' @ rel_major R @ ''.'' @ rel_minor R @
     (case rel_patch R of None \<Rightarrow> '''' | Some p \<Rightarrow> ''.'' @ p) @ (if rel_rc R = None then '''' else ''-'' @ rc_text R)"

definition release_ok :: "release \<Rightarrow> bool" where
  "release_ok R \<longleftrightarrow> all_digits (rel_major R) \<and> all_digits (rel_minor R) \<and>
     (\<forall>p. rel_patch R = Some p \<longrightarrow> all_digits p) \<and> (\<forall>x. rel_rc R = Some x \<longrightarrow> plain_text x)"

definition release_fields :: "release \<Rightarrow> fields" where
  "release_fields R = [''VERSION_TAG'' \<mapsto> in_quotes (release_tag R), ''VERSION_MAJOR'' \<mapsto> rel_major R,
     ''VERSION_MINOR'' \<mapsto> rel_minor R, ''VERSION_PATCH'' \<mapsto> (case rel_patch R of None \<Rightarrow> ''0'' | Some p \<Rightarrow> p),
     ''VERSION_RELEASE_CANDIDATE'' \<mapsto> in_quotes (rc_text R)]"

lemma digit_plain: "digit_char c \<Longrightarrow> no_newline c \<and> \<not> is_white c \<and> c \<noteq> CHR ''-'' \<and> c \<noteq> CHR ''.''"
  by (auto simp: digit_char_def no_newline_def is_white_def newline_def)

lemma digits_nonempty: "all_digits s \<Longrightarrow> s \<noteq> ''''"
  by (simp add: all_digits_def)

lemma first_digits:
  assumes "all_digits u" and "v = [] \<or> \<not> digit_char (hd v)"
  shows "first_way (Group n (Greedy 1 digit_char)) (u @ v) (Map.empty(n \<mapsto> u)) v"
  by (rule first_Group, rule first_Greedy)
    (use assms in \<open>auto simp: all_digits_def Suc_le_eq\<close>)

definition rest_rx :: rx where
  "rest_rx = Then (Maybe (Then (Lit ''-'') (Group 4 (Then (Lit ''RC'') (Greedy 1 no_newline))))) (Greedy 0 no_newline)"

lemma first_rc:
  assumes "\<And>x. rel_rc R = Some x \<Longrightarrow> plain_text x"
  shows "first_way rest_rx (if rel_rc R = None then '''' else ''-'' @ rc_text R)
           (case rel_rc R of None \<Rightarrow> Map.empty | Some x \<Rightarrow> [4 \<mapsto> ''RC'' @ x]) ''''"
proof (cases "rel_rc R")
  case None
  then show ?thesis by (simp add: first_way_def rest_rx_def re_match_def run_of_def)
next
  case (Some x)
  with assms have x: "x \<noteq> []" "\<forall>c \<in> set x. no_newline c" by (auto simp: plain_text_def)
  have g: "first_way (Greedy 1 no_newline) (x @ []) Map.empty []"
    by (rule first_Greedy) (use x in \<open>auto simp: Suc_le_eq\<close>)
  have "first_way (Then (Lit ''RC'') (Greedy 1 no_newline)) (''RC'' @ x @ []) (Map.empty ++ Map.empty) []"
    by (rule first_Then [OF first_Lit g])
  then have "first_way (Group 4 (Then (Lit ''RC'') (Greedy 1 no_newline))) ((''RC'' @ x) @ []) ((Map.empty ++ Map.empty)(4 \<mapsto> ''RC'' @ x)) []"
    by (intro first_Group) simp
  then have "first_way (Then (Lit ''-'') (Group 4 (Then (Lit ''RC'') (Greedy 1 no_newline)))) (''-'' @ ((''RC'' @ x) @ []))
      (Map.empty ++ (Map.empty ++ Map.empty)(4 \<mapsto> ''RC'' @ x)) []"
    by (rule first_Then [OF first_Lit])
  moreover have "first_way (Greedy 0 no_newline) '''' Map.empty ''''" by (simp add: first_way_def re_match_def run_of_def)
  ultimately have "first_way rest_rx (''-'' @ ((''RC'' @ x) @ [])) ((Map.empty ++ (Map.empty ++ Map.empty)(4 \<mapsto> ''RC'' @ x)) ++ Map.empty) ''''"
    unfolding rest_rx_def by (rule first_Then [OF first_Maybe])
  with Some show ?thesis by (simp add: rc_text_def)
qed

lemma rest_not_digit: "(if rel_rc R = None then '''' else ''-'' @ rc_text R) = [] \<or>
    \<not> digit_char (hd (if rel_rc R = None then '''' else ''-'' @ rc_text R))"
  by (simp add: digit_char_def)

lemma first_patch:
  assumes "\<And>p. rel_patch R = Some p \<Longrightarrow> all_digits p" and "s = (if rel_rc R = None then '''' else ''-'' @ rc_text R)"
  shows "first_way (Maybe (Then (Class no_newline) (Group 3 (Greedy 1 digit_char))))
      ((case rel_patch R of None \<Rightarrow> '''' | Some p \<Rightarrow> ''.'' @ p) @ s)
      (case rel_patch R of None \<Rightarrow> Map.empty | Some p \<Rightarrow> [3 \<mapsto> p]) s"
proof (cases "rel_patch R")
  case None
  have "no_way (Then (Class no_newline) (Group 3 (Greedy 1 digit_char))) s"
  proof (cases "rel_rc R")
    case None
    with assms(2) show ?thesis by (simp add: no_way_def re_match_def)
  next
    case (Some x)
    have "run_of digit_char (''RC'' @ x) = 0" by (simp add: run_of_def digit_char_def)
    with Some assms(2) show ?thesis by (simp add: no_way_iff rc_text_def no_newline_def newline_def)
  qed
  with None show ?thesis by (simp add: first_Maybe_none)
next
  case (Some p)
  have "first_way (Group 3 (Greedy 1 digit_char)) (p @ s) (Map.empty(3 \<mapsto> p)) s"
    by (rule first_digits) (use assms Some rest_not_digit [of R] in auto)
  moreover have "first_way (Class no_newline) (CHR ''.'' # (p @ s)) Map.empty (p @ s)"
    by (rule first_Class) (simp add: no_newline_def newline_def)
  ultimately have "first_way (Then (Class no_newline) (Group 3 (Greedy 1 digit_char))) (CHR ''.'' # (p @ s)) (Map.empty ++ Map.empty(3 \<mapsto> p)) s"
    by (rule first_Then [rotated])
  from first_Maybe [OF this] Some show ?thesis by simp
qed

lemma version_match:
  assumes R: "release_ok R"
  shows "\<exists>g. re_match version_rx (release_tag R) = Some (g, '''') \<and> g 1 = Some (rel_major R) \<and> g 2 = Some (rel_minor R) \<and>
    g 3 = rel_patch R \<and> g 4 = (if rel_rc R = None then None else Some (rc_text R))"
proof -
  define s where "s = (if rel_rc R = None then '''' else ''-'' @ rc_text R)"
  define q where "q = (case rel_patch R of None \<Rightarrow> '''' | Some p \<Rightarrow> ''.'' @ p)"
  define g3 :: groups where "g3 = (case rel_patch R of None \<Rightarrow> Map.empty | Some p \<Rightarrow> [3 \<mapsto> p])"
  define g4 :: groups where "g4 = (case rel_rc R of None \<Rightarrow> Map.empty | Some x \<Rightarrow> [4 \<mapsto> ''RC'' @ x])"
  have ok: "all_digits (rel_major R)" "all_digits (rel_minor R)" "\<And>p. rel_patch R = Some p \<Longrightarrow> all_digits p"
      "\<And>x. rel_rc R = Some x \<Longrightarrow> plain_text x"
    using R by (auto simp: release_ok_def)
  have 4: "first_way rest_rx s g4 ''''" unfolding s_def g4_def by (rule first_rc) (rule ok(4))
  have 3: "first_way (Maybe (Then (Class no_newline) (Group 3 (Greedy 1 digit_char)))) (q @ s) g3 s"
    unfolding q_def g3_def by (rule first_patch) (use ok(3) s_def in auto)
  have qs: "q @ s = [] \<or> \<not> digit_char (hd (q @ s))"
    by (auto simp: q_def s_def digit_char_def split: option.splits)
  have 2: "first_way (Group 2 (Greedy 1 digit_char)) (rel_minor R @ (q @ s)) (Map.empty(2 \<mapsto> rel_minor R)) (q @ s)"
    by (rule first_digits [OF ok(2) qs])
  have 1: "first_way (Group 1 (Greedy 1 digit_char)) (rel_major R @ (''.'' @ (rel_minor R @ (q @ s)))) (Map.empty(1 \<mapsto> rel_major R))
      (''.'' @ (rel_minor R @ (q @ s)))"
    by (rule first_digits [OF ok(1)]) (simp add: digit_char_def)
  have tag: "release_tag R = ''ns-'' @ (rel_major R @ (''.'' @ (rel_minor R @ (q @ s))))"
    unfolding release_tag_def q_def s_def by (simp only: append_assoc)
  have "first_way version_rx (release_tag R)
      (Map.empty ++ ((Map.empty(1 \<mapsto> rel_major R)) ++ (Map.empty ++ ((Map.empty(2 \<mapsto> rel_minor R)) ++ (g3 ++ g4))))) ''''"
    unfolding version_rx_def tag rest_rx_def [symmetric]
    by (intro first_Then [OF first_Lit] first_Then [OF 1] first_Then [OF 2] first_Then [OF 3] 4)
  then show ?thesis
    by (intro exI conjI) (erule first_wayD, auto simp: g3_def g4_def rc_text_def map_add_def split: option.splits)
qed

lemma py_strip_id: "s \<noteq> [] \<Longrightarrow> \<not> is_white (hd s) \<Longrightarrow> \<not> is_white (last s) \<Longrightarrow> py_strip s = s"
proof -
  assume s: "s \<noteq> []" "\<not> is_white (hd s)" "\<not> is_white (last s)"
  then have "dropWhile is_white s = s" by (cases s) auto
  moreover have "dropWhile is_white (rev s) = rev s" using s by (cases s rule: rev_cases) auto
  ultimately show ?thesis by (simp add: py_strip_def)
qed

lemma py_strip_newline:
  assumes "s \<noteq> []" and "\<not> is_white (hd s)" and "\<not> is_white (last s)"
  shows "py_strip (s @ [newline]) = s"
proof -
  have "dropWhile is_white (s @ [newline]) = s @ [newline]" using assms by (cases s) auto
  moreover have "is_white newline" by (simp add: is_white_def newline_def)
  moreover have "dropWhile is_white (rev s) = rev s" using assms by (cases s rule: rev_cases) auto
  ultimately show ?thesis by (simp add: py_strip_def)
qed

lemma release_tag_ends:
  assumes "release_ok R"
  shows "release_tag R \<noteq> []" "\<not> is_white (hd (release_tag R))" "\<not> is_white (last (release_tag R))"
proof -
  have dl: "\<not> is_white (last p)" if "all_digits p" for p
    using that by (simp add: all_digits_def digit_plain)
  show "release_tag R \<noteq> []" by (simp add: release_tag_def)
  show "\<not> is_white (hd (release_tag R))" by (simp add: release_tag_def is_white_def)
  from assms show "\<not> is_white (last (release_tag R))"
    by (auto simp: release_tag_def release_ok_def rc_text_def dl plain_text_def digits_nonempty split: option.splits)
qed

lemma release_tag_stripped: "release_ok R \<Longrightarrow> py_strip (release_tag R) = release_tag R"
  by (rule py_strip_id) (auto dest: release_tag_ends)

text \<open>The tag of a release is read back into its parts, whatever the fields were before.\<close>

theorem release_tag_read:
  assumes "release_ok R"
  shows "parse_version_tag F (release_tag R) = (F ++ release_fields R, True)"
proof -
  from version_match [OF assms] obtain g where g: "re_match version_rx (release_tag R) = Some (g, '''')"
    "g 1 = Some (rel_major R)" "g 2 = Some (rel_minor R)" "g 3 = rel_patch R"
    "g 4 = (if rel_rc R = None then None else Some (rc_text R))" by blast
  have p: "rel_patch R = Some p \<Longrightarrow> p \<noteq> ''''" for p using assms by (auto simp: release_ok_def all_digits_def)
  have gt: "group_text g 1 = rel_major R" "group_text g 2 = rel_minor R"
      "(if group_text g 3 = '''' then ''0'' else group_text g 3) = (case rel_patch R of None \<Rightarrow> ''0'' | Some p \<Rightarrow> p)"
      "group_text g 4 = rc_text R"
    unfolding group_text_def g(2-) using p by (auto simp: rc_text_def split: option.splits)
  show ?thesis
    unfolding parse_version_tag_def Let_def release_tag_stripped [OF assms] g(1) option.case prod.case gt release_fields_def
    by simp
qed

section \<open>Reading the answer of git\<close>

definition commit :: "string \<Rightarrow> bool" where
  "commit h \<longleftrightarrow> h \<noteq> '''' \<and> (\<forall>c \<in> set h. is_hex c)"

definition dirty_text :: "bool \<Rightarrow> string" where
  "dirty_text d = (if d then ''-dirty'' else '''')"

definition describe_text :: "string \<Rightarrow> string \<Rightarrow> string \<Rightarrow> bool \<Rightarrow> string" where
  "describe_text tag n h dirty = tag @ ''-'' @ n @ ''-'' @ (''g'' @ h) @ dirty_text dirty @ [newline]"

lemma hex_plain: "is_hex c \<Longrightarrow> c \<noteq> CHR ''-'' \<and> c \<noteq> newline \<and> c \<noteq> CHR ''g''"
  by (auto simp: is_hex_def newline_def)

lemma first_describe_tail:
  assumes n: "all_digits n" and h: "commit h"
  shows "first_way describe_tail (''-'' @ n @ ''-'' @ (''g'' @ h) @ dirty_text d @ [newline])
    ([2 \<mapsto> n, 3 \<mapsto> ''g'' @ h] ++ (if d then [4 \<mapsto> ''dirty''] else Map.empty)) [newline]"
proof -
  let ?m = "Maybe (Then (Lit ''-'') (Group 4 (Lit ''dirty'')))" and ?z = "dirty_text d @ [newline]"
  let ?gh = "Group 3 (Then (Lit ''g'') (Greedy 1 is_hex))"
  have m: "first_way ?m ?z (if d then [4 \<mapsto> ''dirty''] else Map.empty) [newline]"
    by (simp add: first_way_def re_match_def dirty_text_def newline_def)
  have "first_way (Greedy 1 is_hex) (h @ ?z) Map.empty ?z"
    by (rule first_Greedy) (use h in \<open>auto simp: commit_def Suc_le_eq dirty_text_def is_hex_def newline_def\<close>)
  then have "first_way (Then (Lit ''g'') (Greedy 1 is_hex)) (''g'' @ (h @ ?z)) (Map.empty ++ Map.empty) ?z"
    by (rule first_Then [OF first_Lit])
  then have gh: "first_way ?gh ((''g'' @ h) @ ?z) ((Map.empty ++ Map.empty)(3 \<mapsto> ''g'' @ h)) ?z"
    by (intro first_Group) simp
  have d: "first_way (Group 2 (Greedy 1 digit_char)) (n @ (''-'' @ ((''g'' @ h) @ ?z))) (Map.empty(2 \<mapsto> n)) (''-'' @ ((''g'' @ h) @ ?z))"
    by (rule first_digits [OF n]) (simp add: digit_char_def)
  have "first_way describe_tail (''-'' @ (n @ (''-'' @ ((''g'' @ h) @ ?z))))
      (Map.empty ++ ((Map.empty(2 \<mapsto> n)) ++ (Map.empty ++ ((Map.empty ++ Map.empty)(3 \<mapsto> ''g'' @ h) ++
        (if d then [4 \<mapsto> ''dirty''] else Map.empty))))) [newline]"
    unfolding describe_tail_def
    by (rule first_Then [OF first_Lit first_Then [OF d first_Then [OF first_Lit first_Then [OF gh m]]]])
  moreover have "Map.empty ++ ((Map.empty(2 \<mapsto> n)) ++ (Map.empty ++ ((Map.empty ++ Map.empty)(3 \<mapsto> ''g'' @ h) ++
        (if d then [4 \<mapsto> ''dirty''] else Map.empty))))
      = [2 \<mapsto> n, 3 \<mapsto> ''g'' @ h] ++ (if d then [4 \<mapsto> ''dirty''] else Map.empty)"
    by (auto simp: map_add_def fun_eq_iff)
  ultimately show ?thesis by simp
qed

text \<open>No other place of the answer looks like a distance and a commit: the tag is the longest text before one.\<close>

lemma no_tail_dash:
  assumes "take 1 s \<noteq> ''-''"
  shows "no_way describe_tail s"
  unfolding describe_tail_def by (rule none_Then_left, rule none_Lit) (use assms in simp)

lemma no_tail_digit:
  assumes "\<not> digit_char (hd s)" and "s \<noteq> []"
  shows "no_way describe_tail (''-'' @ s)"
proof -
  have "run_of digit_char s = 0" using assms by (cases s) (simp_all add: run_of_def)
  then show ?thesis by (simp add: describe_tail_def no_way_iff)
qed

lemma separator_split:
  assumes "a @ c # b = w @ c # v" and "c \<notin> set a"
  shows "b = v \<or> (\<exists>u. b = u @ c # v)"
  using assms by (induction a arbitrary: w) (auto simp: Cons_eq_append_conv append_eq_Cons_conv)

lemma no_later_tail:
  assumes n: "all_digits n" and h: "commit h"
    and w: "''-'' @ n @ ''-'' @ (''g'' @ h) @ dirty_text d @ [newline] = w @ v" "w \<noteq> []"
  shows "no_way describe_tail v"
proof (cases "take 1 v = ''-''")
  case False
  then show ?thesis by (rule no_tail_dash)
next
  case True
  then obtain v' where v: "v = CHR ''-'' # v'" by (cases v) auto
  from w obtain w' where w': "n @ CHR ''-'' # ((''g'' @ h) @ dirty_text d @ [newline]) = w' @ CHR ''-'' # v'"
    unfolding v by (cases w) auto
  have nd: "CHR ''-'' \<notin> set n" using n digit_plain by (auto simp: all_digits_def)
  have hd': "CHR ''-'' \<notin> set (''g'' @ h)" using h hex_plain by (auto simp: commit_def)
  from separator_split [OF w' nd]
  have "v' = (''g'' @ h) @ dirty_text d @ [newline] \<or> v' = ''dirty'' @ [newline]"
  proof (elim disjE exE)
    fix u assume u: "(''g'' @ h) @ dirty_text d @ [newline] = u @ CHR ''-'' # v'"
    show ?thesis
    proof (cases d)
      case False
      from u have "CHR ''-'' \<in> set ((''g'' @ h) @ dirty_text d @ [newline])" by simp
      with False hd' show ?thesis by (simp add: dirty_text_def newline_def)
    next
      case True
      with u have "(''g'' @ h) @ CHR ''-'' # (''dirty'' @ [newline]) = u @ CHR ''-'' # v'" by (simp add: dirty_text_def)
      from separator_split [OF this hd'] show ?thesis
        by (auto simp: Cons_eq_append_conv newline_def)
    qed
  qed simp
  then show ?thesis
    using v no_tail_digit [of "(''g'' @ h) @ dirty_text d @ [newline]"] no_tail_digit [of "''dirty'' @ [newline]"]
    by (auto simp: digit_char_def)
qed

lemma describe_match:
  assumes tag: "tag \<noteq> ''''" "\<forall>c \<in> set tag. no_newline c" and n: "all_digits n" and h: "commit h"
  shows "re_match describe_rx (describe_text tag n h d) =
    Some (Map.empty(1 \<mapsto> tag) ++ ([2 \<mapsto> n, 3 \<mapsto> ''g'' @ h] ++ (if d then [4 \<mapsto> ''dirty''] else Map.empty)), [newline])"
  unfolding describe_text_def describe_rx_def
  by (rule first_wayD, rule first_greedy_group [OF first_describe_tail [OF n h]])
    (use tag no_later_tail [OF n h] in \<open>auto simp: Suc_le_eq\<close>)

section \<open>The task\<close>

definition describe_fields :: "string \<Rightarrow> string \<Rightarrow> string \<Rightarrow> bool \<Rightarrow> fields" where
  "describe_fields tag n h d = [''CLOSEST_TAG'' \<mapsto> in_quotes tag, ''VERSION_TAG_DISTANCE'' \<mapsto> n,
     ''VERSION_COMMIT_HASH'' \<mapsto> in_quotes (''g'' @ h), ''VERSION_DIRTY_FLAG'' \<mapsto> (if d then ''1'' else ''0'')]"

definition version_fields :: "release \<Rightarrow> string \<Rightarrow> string \<Rightarrow> bool \<Rightarrow> fields" where
  "version_fields R n h d = describe_fields (release_tag R) n h d ++ release_fields R"

lemma find_closest_tag_match:
  assumes git: "git describe_cmd = Inr (describe_text tag n h d)"
    and tag: "tag \<noteq> ''''" "\<forall>c \<in> set tag. no_newline c" and n: "all_digits n" and h: "commit h"
  shows "find_closest_tag git F = Inr (fst (parse_version_tag (F ++ describe_fields tag n h d) tag))"
proof -
  let ?g = "Map.empty(1 \<mapsto> tag) ++ ([2 \<mapsto> n, 3 \<mapsto> ''g'' @ h] ++ (if d then [4 \<mapsto> ''dirty''] else Map.empty))"
  have gt: "group_text ?g 1 = tag" "group_text ?g 2 = n" "group_text ?g 3 = ''g'' @ h"
    "(if group_text ?g 4 = '''' then ''0'' else ''1'') = (if d then ''1'' else ''0'')"
    by (auto simp: group_text_def map_add_def)
  show ?thesis
    unfolding find_closest_tag_def git ebind_simps describe_match [OF tag n h] option.case prod.case gt describe_fields_def
    by simp
qed

lemma release_tag_text: "release_ok R \<Longrightarrow> release_tag R \<noteq> '''' \<and> (\<forall>c \<in> set (release_tag R). no_newline c)"
proof -
  assume R: "release_ok R"
  have d: "all_digits p \<Longrightarrow> \<forall>c \<in> set p. no_newline c" for p using digit_plain by (auto simp: all_digits_def)
  have l: "\<forall>c \<in> set (''ns-''). no_newline c" "\<forall>c \<in> set (''.''). no_newline c" "\<forall>c \<in> set (''-''). no_newline c"
      "\<forall>c \<in> set (''RC''). no_newline c"
    by (simp_all add: no_newline_def newline_def)
  have "\<forall>c \<in> set (case rel_patch R of None \<Rightarrow> '''' | Some p \<Rightarrow> ''.'' @ p). no_newline c"
    using R l(2) d by (auto simp only: release_ok_def set_append option.case list.set split: option.splits)
  moreover have "\<forall>c \<in> set (if rel_rc R = None then '''' else ''-'' @ rc_text R). no_newline c"
    using R l(3,4) by (auto simp only: release_ok_def plain_text_def rc_text_def set_append option.case list.set split: option.splits if_splits)
  ultimately have "\<forall>c \<in> set (release_tag R). no_newline c"
    using R l d unfolding release_tag_def release_ok_def set_append ball_Un by blast
  then show ?thesis by (simp add: release_tag_def)
qed

lemma find_release:
  assumes "git describe_cmd = Inr (describe_text (release_tag R) n h d)" and "release_ok R" and "all_digits n" and "commit h"
  shows "find_closest_tag git Map.empty = Inr (version_fields R n h d)"
proof -
  note t = release_tag_text [OF assms(2)]
  show ?thesis
    unfolding find_closest_tag_match [where git = git, OF assms(1) conjunct1 [OF t] conjunct2 [OF t] assms(3,4)]
      empty_map_add release_tag_read [OF assms(2)] fst_conv version_fields_def ..
qed

lemma version_fields_tag: "version_fields R n h d ''VERSION_TAG'' = Some (in_quotes (release_tag R))"
  by (simp add: version_fields_def release_fields_def)

lemma release_run:
  assumes "git describe_cmd = Inr (describe_text (release_tag R) n h d)" and "release_ok R" and "all_digits n" and "commit h"
    and "\<And>F. store F = (Some F, True)"
  shows "git_version_run git store w =
    (w\<lparr>cache_file := Some (version_fields R n h d), cfg_env := cfg_env w ++ version_fields R n h d\<rparr>, 0)"
  by (simp add: git_version_run_def version_run_def find_release [where git = git, OF assms(1-4)] version_fields_tag assms(5))

text \<open>Between releases the closest tag may be another one: the version then comes from the closest release.\<close>

lemma other_tag_run:
  assumes tag: "tag \<noteq> ''''" "\<forall>c \<in> set tag. no_newline c" "no_way version_rx (py_strip tag)"
    and git: "git describe_cmd = Inr (describe_text tag n h d)" "git closest_ns3_cmd = Inr (release_tag R @ [newline])"
    and ok: "release_ok R" "all_digits n" "commit h" "store (describe_fields tag n h d ++ release_fields R) = (c, True)"
  shows "git_version_run git store w =
    (w\<lparr>cache_file := c, cfg_env := cfg_env w ++ (describe_fields tag n h d ++ release_fields R)\<rparr>, 0)"
proof -
  have "find_closest_tag git Map.empty = Inr (describe_fields tag n h d)"
    using find_closest_tag_match [where git = git, OF git(1) tag(1,2) ok(2,3)] tag(3)
    by (simp add: parse_version_tag_def no_way_def)
  moreover have "py_strip (release_tag R @ [newline]) = release_tag R"
    by (rule py_strip_newline) (use release_tag_stripped [OF ok(1)] release_tag_ends [OF ok(1)] in auto)
  then have "find_closest_ns3_tag git (describe_fields tag n h d) = Inr (describe_fields tag n h d ++ release_fields R)"
    by (simp add: find_closest_ns3_tag_def git(2) release_tag_read [OF ok(1)])
  moreover have "describe_fields tag n h d ''VERSION_TAG'' = None" by (simp add: describe_fields_def)
  ultimately show ?thesis
    by (simp add: git_version_run_def version_run_def ok(4))
qed

text \<open>A task that fails leaves the environment alone.\<close>

lemma version_run_failed:
  assumes "git_version_run git store w = (w', status)" and "status \<noteq> 0"
  shows "cfg_env w' = cfg_env w \<and> status = 1"
  using assms by (auto simp: git_version_run_def version_run_def split: sum.splits prod.splits if_splits)

lemma base_class_stores_nothing:
  "version_run base_search base_search store w =
     (case store Map.empty of (c, ok) \<Rightarrow> if ok then (w\<lparr>cache_file := c\<rparr>, 0) else (w\<lparr>cache_file := c\<rparr>, 1))"
  by (simp add: version_run_def base_search_def split: prod.splits)

text \<open>
  C36. A build from a repository at or after a release reads the version out of the tag, and a copy of the source
  without the repository, but with the cache file of that build, gets the same version.
\<close>

theorem version_survives_export:
  assumes repo: "check_git_repo found git" "check_git_repo_has_ns3_tags git"
    and git: "git describe_cmd = Inr (describe_text (release_tag R) n h d)"
    and ok: "release_ok R" "all_digits n" "commit h"
    and store: "\<And>F. store F = (Some F, True)"
    and copy: "\<not> check_git_repo found' git'"
  shows "\<exists>w1. ebind (version_configure True found git caches w) (generate_version_defines git store) = Inr w1 \<and>
    cfg_env w1 = cfg_env w ++ version_fields R n h d \<and>
    (\<exists>w2. ebind (version_configure True found' git' [Inr (the (cache_file w1))] v) (generate_version_defines git' store') = Inr w2 \<and>
      cfg_env w2 = cfg_env v ++ version_fields R n h d)"
  using repo copy
  by (simp add: version_configure_def generate_version_defines_def release_run [where git = git and store = store, OF git ok store] split: prod.splits)

definition sample_release :: release where
  "sample_release = \<lparr>rel_major = ''3'', rel_minor = ''30'', rel_patch = Some ''1'', rel_rc = Some ''2''\<rparr>"

definition sample_git :: git where
  "sample_git cmd = Inr ((if cmd = describe_cmd then ''ns-3.30.1-RC2-26-g82e7f5d-dirty'' else ''ns-3.30.1'') @ [newline])"

definition fresh_ctx :: version_ctx where
  "fresh_ctx = \<lparr>cfg_env = Map.empty, have_git_repo = None, have_ns3_repo = None, cache_file = None\<rparr>"

lemma sample_ok: "release_ok sample_release" "all_digits ''26''" "commit ''82e7f5d''"
  by (simp_all add: sample_release_def release_ok_def all_digits_def commit_def plain_text_def digit_char_def is_hex_def
      no_newline_def newline_def is_white_def)

lemma sample_git_repo:
  "check_git_repo True sample_git" "check_git_repo_has_ns3_tags sample_git"
  "sample_git describe_cmd = Inr (describe_text (release_tag sample_release) ''26'' ''82e7f5d'' True)"
  by (simp_all add: check_git_repo_def check_git_repo_has_ns3_tags_def sample_git_def describe_cmd_def py_strip_def
      is_white_def newline_def describe_text_def release_tag_def rc_text_def dirty_text_def sample_release_def)

lemma sample_fields:
  "version_fields sample_release ''26'' ''82e7f5d'' True ''VERSION_PATCH'' = Some ''1''"
  "version_fields sample_release ''26'' ''82e7f5d'' True ''VERSION_TAG_DISTANCE'' = Some ''26''"
  by (simp_all add: version_fields_def describe_fields_def release_fields_def sample_release_def)

theorem version_survives_export_witness:
  "\<exists>w1. ebind (version_configure True True sample_git [] fresh_ctx) (generate_version_defines sample_git (\<lambda>F. (Some F, True))) = Inr w1 \<and>
     (\<exists>w2. ebind (version_configure True False sample_git [Inr (the (cache_file w1))] fresh_ctx)
        (generate_version_defines sample_git (\<lambda>F. (Some F, True))) = Inr w2 \<and>
      cfg_env w2 ''VERSION_PATCH'' = Some ''1'' \<and> cfg_env w2 ''VERSION_TAG_DISTANCE'' = Some ''26'')"
proof -
  have copy: "\<not> check_git_repo False sample_git" by (simp add: check_git_repo_def)
  from version_survives_export [where git = sample_git and store = "\<lambda>F. (Some F, True)" and found = True and found' = False
      and git' = sample_git and caches = "[]" and w = fresh_ctx and v = fresh_ctx and store' = "\<lambda>F. (Some F, True)",
      OF sample_git_repo sample_ok refl copy]
  show ?thesis
    by (elim exE conjE) (intro exI conjI, assumption, assumption, simp_all add: fresh_ctx_def sample_fields)
qed

section \<open>Printing the version\<close>

text \<open>\<open>print_version\<close> of \<open>src/core/wscript\<close>, which is behind \<open>--check-version\<close>.\<close>

definition strip_quotes :: "string \<Rightarrow> string" where
  "strip_quotes s = rev (dropWhile (\<lambda>c. c = dquote) (rev (dropWhile (\<lambda>c. c = dquote) s)))"

definition field_text :: "fields \<Rightarrow> string \<Rightarrow> (string \<Rightarrow> string) \<Rightarrow> string" where
  "field_text F k f = (case F k of None \<Rightarrow> '''' | Some v \<Rightarrow> f v)"

definition print_version :: "fields \<Rightarrow> string" where
  "print_version F =
     (let tag = field_text F ''VERSION_TAG'' strip_quotes;
          closest = field_text F ''CLOSEST_TAG'' strip_quotes
      in tag @ (if closest \<noteq> tag then ''+'' @ closest else '''') @
         field_text F ''VERSION_TAG_DISTANCE'' (\<lambda>s. if s = ''0'' then '''' else ''+'' @ s) @
         field_text F ''VERSION_COMMIT_HASH'' (\<lambda>s. ''@'' @ strip_quotes s) @
         field_text F ''VERSION_DIRTY_FLAG'' (\<lambda>s. if s = ''0'' then '''' else ''-dirty'') @
         field_text F ''BUILD_PROFILE'' (\<lambda>s. ''-'' @ s))"

lemma strip_quotes_in_quotes:
  assumes "s \<noteq> ''''" and "hd s \<noteq> dquote" and "last s \<noteq> dquote"
  shows "strip_quotes (in_quotes s) = s"
proof -
  have "dropWhile (\<lambda>c. c = dquote) (s @ [dquote]) = s @ [dquote]" using assms by (cases s) auto
  moreover have "dropWhile (\<lambda>c. c = dquote) (rev s) = rev s" using assms by (cases s rule: rev_cases) auto
  ultimately show ?thesis by (simp add: strip_quotes_def in_quotes_def)
qed

lemma release_tag_quotes:
  assumes "release_ok R" and "dquote \<notin> set (release_tag R)"
  shows "strip_quotes (in_quotes (release_tag R)) = release_tag R"
proof (rule strip_quotes_in_quotes)
  show ne: "release_tag R \<noteq> ''''" by (rule release_tag_ends [OF assms(1)])
  show "hd (release_tag R) \<noteq> dquote" "last (release_tag R) \<noteq> dquote"
    using assms(2) hd_in_set [OF ne] last_in_set [OF ne] by auto
qed

text \<open>The version of a release, in the format of the manual: \<open>ns-3.31+26@g82e7f5d-debug\<close>.\<close>

theorem print_release_version:
  assumes R: "release_ok R" "dquote \<notin> set (release_tag R)" and h: "commit h"
    and F: "F ''BUILD_PROFILE'' = Some p"
  shows "print_version (F ++ version_fields R n h d) =
    release_tag R @ (if n = ''0'' then '''' else ''+'' @ n) @ ''@'' @ (''g'' @ h) @ (if d then ''-dirty'' else '''') @ ''-'' @ p"
proof -
  have "last (''g'' @ h) \<noteq> dquote"
    using h by (cases h rule: rev_cases) (auto simp: commit_def is_hex_def dquote_def)
  then have hash: "strip_quotes (in_quotes (''g'' @ h)) = ''g'' @ h"
    by (intro strip_quotes_in_quotes) (simp_all add: dquote_def)
  show ?thesis
    using F hash release_tag_quotes [OF R]
    by (simp add: print_version_def Let_def field_text_def version_fields_def describe_fields_def release_fields_def)
qed

text \<open>The dot before the patch number matches any character, so that a tag outside the documented format has a patch number.\<close>

theorem dash_taken_for_patch:
  "snd (parse_version_tag Map.empty ''ns-3.30-1'')"
  "fst (parse_version_tag Map.empty ''ns-3.30-1'') ''VERSION_PATCH'' = Some ''1''"
  by (simp_all add: parse_version_tag_def py_strip_def is_white_def re_match_def version_rx_def run_of_def digit_char_def
      no_newline_def newline_def group_text_def Let_def upt_rec)

end
