(* ===== verification/WafRun.thy ===== *)
theory WafRun
  imports Shell PyText
begin

text \<open>
  \<open>wutils.py\<close>: how the build runs a program of the tree (\<open>--run\<close>, \<open>--pyrun\<close>, with \<open>--command-template\<close>,
  \<open>--gdb\<close> and \<open>--valgrind\<close>): the program is looked up among the targets, its command line is formed, the
  environment of the process is extended by the directories of the build, and its exit status is judged. The targets, the
  environment and what a process does are parameters. A branch for Windows errors and a second \<open>relpath\<close>
  for Python before 2.6 are left out.
\<close>

section \<open>The options and the results\<close>

record run_options =
  opt_template :: "string option"
  opt_valgrind :: bool
  opt_gdb :: bool
  opt_cwd_launch :: "string option"

datatype run_failure =
    Conflict string string
  | ValgrindMissing
  | NoProgram
  | Signalled string
  | Exited int
  | Raised py_error

type_synonym 'a run_result = "run_failure + 'a"

definition raise_py :: "'a result \<Rightarrow> ('a \<Rightarrow> 'b run_result) \<Rightarrow> 'b run_result" where
  "raise_py r f = (case r of Inl e \<Rightarrow> Inl (Raised e) | Inr x \<Rightarrow> f x)"

lemma raise_py_simps [simp]: "raise_py (Inl e) f = Inl (Raised e)" "raise_py (Inr x) f = f x"
  by (simp_all add: raise_py_def)


section \<open>Finding the program\<close>

record task_gen =
  tg_name :: string
  tg_path :: string
  tg_bld :: string
  tg_target :: string
  tg_node :: string
  is_ns3_program :: bool

definition in_launch_dir :: "string \<Rightarrow> task_gen \<Rightarrow> bool" where
  "in_launch_dir launch obj \<longleftrightarrow> take (length launch) (tg_path obj) = launch \<or> take (length launch) (tg_bld obj) = launch"

definition program_names :: "string \<Rightarrow> string \<Rightarrow> task_gen \<Rightarrow> string list result" where
  "program_names here launch obj =
     ebind (relpath here (tg_path obj) launch) (\<lambda>d. Inr [tg_name obj, join_path d (tg_name obj)])"

text \<open>A name that is not found raises a \<open>ValueError\<close>, like a path that has no relative form.\<close>

fun find_program :: "string \<Rightarrow> string \<Rightarrow> string \<Rightarrow> task_gen list \<Rightarrow> task_gen result" where
  "find_program here launch name [] = Inl ValueError"
| "find_program here launch name (obj # objs) =
     (if \<not> is_ns3_program obj \<or> \<not> in_launch_dir launch obj then find_program here launch name objs
      else ebind (program_names here launch obj) (\<lambda>names.
        if name \<in> set names then Inr obj else find_program here launch name objs))"




text \<open>The first program of a name is found, as long as the paths before it have a relative form.\<close>

lemma find_program_first:
  assumes "\<And>o'. o' \<in> set us \<Longrightarrow> \<not> is_ns3_program o' \<or> \<not> in_launch_dir launch o' \<or>
      (\<exists>names. program_names here launch o' = Inr names \<and> name \<notin> set names)"
    and "is_ns3_program obj" and "in_launch_dir launch obj" and "program_names here launch obj = Inr names" and "name \<in> set names"
  shows "find_program here launch name (us @ obj # vs) = Inr obj"
  using assms by (induction us) fastforce+

lemma launch_dir_is_a_prefix:
  "in_launch_dir ''/ns3/scratch'' \<lparr>tg_name = ''p'', tg_path = ''/ns3/scratch-old'', tg_bld = ''/ns3/build/scratch-old'',
     tg_target = ''p'', tg_node = ''/ns3/build/scratch-old/p'', is_ns3_program = True\<rparr>"
  by (simp add: in_launch_dir_def)

section \<open>The command line\<close>

text \<open>
  \<open>template % (path,)\<close> for the conversions \<open>%s\<close> and \<open>%%\<close>; any other conversion is \<open>conv\<close>, which gets the
  template from there on. The path must be used exactly once.
\<close>

fun format_once :: "(string \<Rightarrow> string option \<Rightarrow> string result) \<Rightarrow> string \<Rightarrow> string option \<Rightarrow> string result" where
  "format_once conv [] path = (if path = None then Inr '''' else Inl TypeError)"
| "format_once conv [c] path =
     (if c = CHR ''%'' then Inl ValueError else ebind (format_once conv [] path) (\<lambda>s. Inr (c # s)))"
| "format_once conv (c # d # t) path =
     (if c \<noteq> CHR ''%'' then ebind (format_once conv (d # t) path) (\<lambda>s. Inr (c # s))
      else if d = CHR ''%'' then ebind (format_once conv t path) (\<lambda>s. Inr (CHR ''%'' # s))
      else if d = CHR ''s'' then
        (case path of None \<Rightarrow> Inl TypeError | Some p \<Rightarrow> ebind (format_once conv t None) (\<lambda>s. Inr (p @ s)))
      else conv (c # d # t) path)"

definition strip_cc :: "string \<Rightarrow> string" where
  "strip_cc s = (if 3 \<le> length s \<and> drop (length s - 3) s = ''.cc'' then take (length s - 3) s else s)"

definition double_backslashes :: "string \<Rightarrow> string" where
  "double_backslashes s = concat (map (\<lambda>c. if c = backslash then [backslash, backslash] else [c]) s)"

definition get_run_program ::
    "(string \<Rightarrow> task_gen result) \<Rightarrow> (string \<Rightarrow> string option \<Rightarrow> string result) \<Rightarrow> string \<Rightarrow> string option \<Rightarrow>
     (string \<times> string list) run_result" where
  "get_run_program lookup conv program_string command_template =
     (if command_template = None \<or> command_template = Some ''%s'' then
        raise_py (shlex_split program_string) (\<lambda>words.
        raise_py (py_nth words 0) (\<lambda>program_name.
          case lookup (strip_cc program_name) of
            Inl e \<Rightarrow> Inl (if e = ValueError then NoProgram else Raised e)
          | Inr obj \<Rightarrow> Inr (strip_cc program_name, tg_node obj # drop 1 words)))
      else
        (case lookup (strip_cc program_string) of
           Inl e \<Rightarrow> Inl (if e = ValueError then NoProgram else Raised e)
         | Inr obj \<Rightarrow>
             raise_py (format_once conv (the command_template) (Some (tg_node obj))) (\<lambda>tmpl.
             raise_py (shlex_split (double_backslashes tmpl)) (\<lambda>execvec. Inr (strip_cc program_string, execvec)))))"

section \<open>The environment of the process\<close>

type_synonym vars = "string \<rightharpoonup> string"

definition pathvar :: "string \<Rightarrow> string" where
  "pathvar platform =
     (if platform = ''linux2'' \<or> platform = ''linux'' then ''LD_LIBRARY_PATH''
      else if platform = ''darwin'' then ''DYLD_LIBRARY_PATH''
      else if platform = ''win32'' then ''PATH''
      else if platform = ''cygwin'' then ''PATH''
      else ''LD_LIBRARY_PATH'')"

definition extend_path :: "string \<Rightarrow> string \<Rightarrow> string list \<Rightarrow> vars \<Rightarrow> vars" where
  "extend_path pathsep var dirs env =
     (case env var of
        Some old \<Rightarrow> env(var \<mapsto> join_with pathsep (dirs @ [old]))
      | None \<Rightarrow> env(var \<mapsto> join_with pathsep dirs))"

record build_dirs =
  NS3_MODULE_PATH :: "string list"
  NS3_EXECUTABLE_PATH :: "string list"
  pymoddir :: string
  pyvizdir :: string

definition get_proc_env :: "string \<Rightarrow> string \<Rightarrow> build_dirs \<Rightarrow> vars \<Rightarrow> vars option \<Rightarrow> vars" where
  "get_proc_env platform pathsep B environ os_env =
     (let e0 = (case os_env of None \<Rightarrow> environ | Some f \<Rightarrow> environ ++ f);
          e1 = extend_path pathsep (pathvar platform) (NS3_MODULE_PATH B) e0;
          e2 = extend_path pathsep ''PYTHONPATH'' [pymoddir B, pyvizdir B] e1
      in extend_path pathsep ''PATH'' (NS3_EXECUTABLE_PATH B) e2)"

lemma extend_path_other: "v \<noteq> var \<Longrightarrow> extend_path pathsep var dirs env v = env v"
  by (simp add: extend_path_def split: option.splits)

lemma split_join_with:
  assumes "\<And>d. d \<in> set ds \<Longrightarrow> c \<notin> set d" and "ds \<noteq> []"
  shows "split_on c (join_with [c] (ds @ [e])) = ds @ split_on c e"
proof -
  have one: "split_on c (d @ c # s) = d # split_on c s" if "c \<notin> set d" for d s
    using that by (induction d) auto
  have ne: "join_with [c] (d # xs) = d @ [c] @ join_with [c] xs" if "xs \<noteq> []" for d xs
    using that by (cases xs) auto
  from assms show ?thesis by (induction ds) (auto simp: ne one split: if_splits, metis append_Nil join_with.simps(2))
qed

text \<open>A search path keeps the directories of the user, behind those of the build.\<close>

lemma extend_path_dirs:
  assumes "\<And>d. d \<in> set dirs \<Longrightarrow> CHR '':'' \<notin> set d" and "dirs \<noteq> []" and "env var = Some old"
  shows "split_on CHR '':'' (the (extend_path '':'' var dirs env var)) = dirs @ split_on CHR '':'' old"
  using split_join_with [OF assms(1,2)] assms(3) by (simp add: extend_path_def)

text \<open>
  C0. On Linux the process finds the libraries, the Python modules and the programs of the build before those of the
  user, whose search paths stay as they were behind them, and every other variable is passed on.
\<close>

theorem proc_env_search_paths:
  assumes sep: "\<And>d. d \<in> set (NS3_MODULE_PATH B) \<union> set (NS3_EXECUTABLE_PATH B) \<union> {pymoddir B, pyvizdir B} \<Longrightarrow> CHR '':'' \<notin> set d"
    and ne: "NS3_MODULE_PATH B \<noteq> []" "NS3_EXECUTABLE_PATH B \<noteq> []"
    and user: "environ ''LD_LIBRARY_PATH'' = Some l" "environ ''PYTHONPATH'' = Some p" "environ ''PATH'' = Some q"
  shows "\<exists>L P Q. get_proc_env ''linux'' '':'' B environ None =
      environ(''LD_LIBRARY_PATH'' \<mapsto> L, ''PYTHONPATH'' \<mapsto> P, ''PATH'' \<mapsto> Q) \<and>
    split_on CHR '':'' L = NS3_MODULE_PATH B @ split_on CHR '':'' l \<and>
    split_on CHR '':'' P = [pymoddir B, pyvizdir B] @ split_on CHR '':'' p \<and>
    split_on CHR '':'' Q = NS3_EXECUTABLE_PATH B @ split_on CHR '':'' q"
proof (intro exI conjI)
  show "get_proc_env ''linux'' '':'' B environ None =
      environ(''LD_LIBRARY_PATH'' \<mapsto> join_with '':'' (NS3_MODULE_PATH B @ [l]),
        ''PYTHONPATH'' \<mapsto> join_with '':'' ([pymoddir B, pyvizdir B] @ [p]),
        ''PATH'' \<mapsto> join_with '':'' (NS3_EXECUTABLE_PATH B @ [q]))"
    using user by (simp add: get_proc_env_def pathvar_def extend_path_def)
  show "split_on CHR '':'' (join_with '':'' (NS3_MODULE_PATH B @ [l])) = NS3_MODULE_PATH B @ split_on CHR '':'' l"
    by (rule split_join_with) (use sep ne in auto)
  show "split_on CHR '':'' (join_with '':'' ([pymoddir B, pyvizdir B] @ [p])) = [pymoddir B, pyvizdir B] @ split_on CHR '':'' p"
    by (rule split_join_with) (use sep in auto)
  show "split_on CHR '':'' (join_with '':'' (NS3_EXECUTABLE_PATH B @ [q])) = NS3_EXECUTABLE_PATH B @ split_on CHR '':'' q"
    by (rule split_join_with) (use sep ne in auto)
qed

theorem proc_env_search_paths_witness:
  "\<exists>L P Q. get_proc_env ''linux'' '':'' \<lparr>NS3_MODULE_PATH = [''/b/lib''], NS3_EXECUTABLE_PATH = [''/b/bin''], pymoddir = ''/b/py'', pyvizdir = ''/s/viz''\<rparr>
      [''LD_LIBRARY_PATH'' \<mapsto> ''/lib'', ''PYTHONPATH'' \<mapsto> ''/py'', ''PATH'' \<mapsto> ''/bin:/usr/bin''] None =
      [''LD_LIBRARY_PATH'' \<mapsto> L, ''PYTHONPATH'' \<mapsto> P, ''PATH'' \<mapsto> Q] \<and>
    split_on CHR '':'' Q = [''/b/bin'', ''/bin'', ''/usr/bin'']"
proof -
  let ?B = "\<lparr>NS3_MODULE_PATH = [''/b/lib''], NS3_EXECUTABLE_PATH = [''/b/bin''], pymoddir = ''/b/py'', pyvizdir = ''/s/viz''\<rparr>"
  let ?e = "[''LD_LIBRARY_PATH'' \<mapsto> ''/lib'', ''PYTHONPATH'' \<mapsto> ''/py'', ''PATH'' \<mapsto> ''/bin:/usr/bin'']"
  have "\<exists>L P Q. get_proc_env ''linux'' '':'' ?B ?e None = ?e(''LD_LIBRARY_PATH'' \<mapsto> L, ''PYTHONPATH'' \<mapsto> P, ''PATH'' \<mapsto> Q) \<and>
    split_on CHR '':'' L = NS3_MODULE_PATH ?B @ split_on CHR '':'' ''/lib'' \<and>
    split_on CHR '':'' P = [pymoddir ?B, pyvizdir ?B] @ split_on CHR '':'' ''/py'' \<and>
    split_on CHR '':'' Q = NS3_EXECUTABLE_PATH ?B @ split_on CHR '':'' ''/bin:/usr/bin''"
    by (rule proc_env_search_paths) auto
  then show ?thesis
    by (elim exE conjE) (intro exI conjI, simp only: fun_upd_twist fun_upd_upd, simp_all)
qed

section \<open>Running\<close>

text \<open>
  What a process does: \<open>exec words env dir\<close> is its exit status (negative for a signal) and the text of its standard error, or
  the error of a program that cannot be started.
\<close>

type_synonym exec = "string list \<Rightarrow> vars \<Rightarrow> string option \<Rightarrow> (int \<times> string) result"

text \<open>The loop over \<open>stderrdata\<close>, which is one string, takes its characters for lines.\<close>

definition leak_reported :: "string \<Rightarrow> bool" where
  "leak_reported stderrdata = list_ex (\<lambda>line. occurs ''== LEAK SUMMARY'' line) (map (\<lambda>c. [c]) stderrdata)"

definition signal_name :: "(string \<times> int) list \<Rightarrow> int \<Rightarrow> string option" where
  "signal_name signals retval =
     (if retval < 0 then
        map_option fst (find (\<lambda>(name, val). 3 < length name \<and> take 3 name = ''SIG'' \<and> name ! 3 \<noteq> CHR ''_'' \<and> val = - retval) signals)
      else None)"

definition judge_exit :: "(string \<times> int) list \<Rightarrow> int \<Rightarrow> int run_result" where
  "judge_exit signals retval =
     (if retval = 0 then Inr 0
      else case signal_name signals retval of Some n \<Rightarrow> Inl (Signalled n) | None \<Rightarrow> Inl (Exited retval))"

definition has_template :: "run_options \<Rightarrow> bool" where
  "has_template opts \<longleftrightarrow> opt_template opts \<noteq> None \<and> opt_template opts \<noteq> Some ''''"

definition run_argv ::
    "run_options \<Rightarrow> (string \<times> int) list \<Rightarrow> string list \<Rightarrow> exec \<Rightarrow> vars \<Rightarrow> string list \<Rightarrow> string option \<Rightarrow> bool \<Rightarrow> int run_result" where
  "run_argv opts signals valgrind exec proc_env words dir force_no_valgrind =
     (if opt_valgrind opts \<and> has_template opts then Inl (Conflict ''--command-template'' ''--valgrind'')
      else if opt_gdb opts \<and> has_template opts then Inl (Conflict ''--command-template'' ''--gdb'')
      else if opt_gdb opts \<and> opt_valgrind opts then Inl (Conflict ''--valgrind'' ''--gdb'')
      else if opt_gdb opts then
        raise_py (exec ([''gdb'', ''--args''] @ words) proc_env dir) (\<lambda>(retval, err). Inr retval)
      else if opt_valgrind opts \<and> \<not> force_no_valgrind then
        (case valgrind of
           [] \<Rightarrow> Inl ValgrindMissing
         | v # vs \<Rightarrow>
             raise_py (exec ([v, ''--leak-check=full'', ''--show-reachable=yes'', ''--error-exitcode=1''] @ words) proc_env dir)
               (\<lambda>(retval, err). judge_exit signals (if retval = 0 \<and> leak_reported err then 1 else retval)))
      else raise_py (exec words proc_env dir) (\<lambda>(retval, err). judge_exit signals retval))"

definition visual_flag :: "bool \<Rightarrow> string list" where
  "visual_flag visualize = (if visualize then [''--SimulatorImplementationType=ns3::VisualSimulatorImpl''] else [])"

definition launch_cwd :: "run_options \<Rightarrow> string \<Rightarrow> string option" where
  "launch_cwd opts default_cwd =
     Some (case opt_cwd_launch opts of None \<Rightarrow> default_cwd | Some d \<Rightarrow> if d = '''' then default_cwd else d)"


definition run_python_program ::
    "run_options \<Rightarrow> (string \<times> int) list \<Rightarrow> string list \<Rightarrow> exec \<Rightarrow> vars \<Rightarrow> string \<Rightarrow> string list \<Rightarrow> string \<Rightarrow> bool \<Rightarrow> int run_result" where
  "run_python_program opts signals valgrind exec proc_env default_cwd python program_string visualize =
     raise_py (shlex_split program_string) (\<lambda>execvec.
     raise_py (py_nth python 0) (\<lambda>interpreter.
       run_argv opts signals valgrind exec proc_env (interpreter # execvec @ visual_flag visualize)
         (launch_cwd opts default_cwd) False))"


text \<open>No leak is ever seen: a character is not a line of the report.\<close>

theorem leak_never_reported: "\<not> leak_reported err"
proof -
  have "\<not> occurs ''== LEAK SUMMARY'' [c]" for c by simp
  then show ?thesis by (simp add: leak_reported_def list_ex_iff)
qed

lemma run_under_valgrind:
  assumes "opt_valgrind opts" and "\<not> has_template opts" and "\<not> opt_gdb opts" and "exec ([v, ''--leak-check=full'', ''--show-reachable=yes'', ''--error-exitcode=1''] @ words) env dir = Inr (retval, err)"
  shows "run_argv opts signals (v # vs) exec env words dir False = judge_exit signals retval"
  using assms leak_never_reported by (simp add: run_argv_def)


text \<open>Under the debugger the status is returned, not judged: a program that fails does not fail the build.\<close>

lemma run_gdb_status:
  assumes "opt_gdb opts" and "\<not> opt_valgrind opts" and "\<not> has_template opts"
    and "exec ([''gdb'', ''--args''] @ words) env dir = Inr (retval, err)"
  shows "run_argv opts signals valgrind exec env words dir force = Inr retval"
  using assms by (simp add: run_argv_def)

section \<open>From the command line to the process\<close>

definition plain_word :: "string \<Rightarrow> bool" where
  "plain_word t \<longleftrightarrow> t \<noteq> '''' \<and> (\<forall>c \<in> set t. c \<notin> set whitespace \<and> c \<notin> set quotes \<and> c \<noteq> backslash)"

definition spells :: "string \<Rightarrow> string \<Rightarrow> bool" where
  "spells w t \<longleftrightarrow> (w = quote t \<and> CHR 0x27 \<notin> set t) \<or> (w = t \<and> plain_word t)"

lemma shlex_plain:
  assumes "\<forall>c \<in> set t. c \<notin> set whitespace \<and> c \<notin> set quotes \<and> c \<noteq> backslash" and "token \<noteq> []"
  shows "shlex Word token q (t @ s) = shlex Word (token @ t) q s"
  using assms by (induction t arbitrary: token) auto

lemma shlex_spelled:
  assumes "spells w t"
  shows "\<exists>b. (t \<noteq> [] \<or> b) \<and> (\<forall>s. shlex Space [] False (w @ s) = shlex Word t b s)"
  using assms unfolding spells_def
proof (elim disjE conjE)
  assume "w = quote t" "CHR 0x27 \<notin> set t"
  then have "shlex Space [] False (w @ s) = shlex Word t True s" for s
    using shlex_quoted [of t "[]" s] by (simp add: quote_def whitespace_def quotes_def backslash_def)
  then show ?thesis by auto
next
  assume w: "w = t" and t: "plain_word t"
  then obtain c r where c: "t = c # r" by (cases t) (auto simp: plain_word_def)
  have "shlex Space [] False (w @ s) = shlex Word t False s" for s
    using t shlex_plain [of r "[c]" False s] by (simp add: w c plain_word_def)
  with c show ?thesis by auto
qed

lemma shlex_spelled_words:
  assumes "list_all2 spells ws ts"
  shows "shlex_split (join_spaces ws) = Inr ts"
  using assms
proof (induction ws arbitrary: ts rule: join_spaces.induct)
  case 1
  then show ?case by (simp add: shlex_split_def)
next
  case (2 w)
  then obtain t where t: "ts = [t]" "spells w t" by (auto simp: list_all2_Cons1)
  from shlex_spelled [OF t(2)] obtain b where b: "t \<noteq> [] \<or> b" "shlex Space [] False (w @ []) = shlex Word t b []" by blast
  then show ?case by (auto simp: shlex_split_def t(1))
next
  case (3 w v ws)
  then obtain t ts' where t: "ts = t # ts'" "spells w t" "list_all2 spells (v # ws) ts'" by (auto simp: list_all2_Cons1)
  from shlex_spelled [OF t(2)] obtain b where
    b: "t \<noteq> [] \<or> b" "\<And>s. shlex Space [] False (w @ s) = shlex Word t b s" by blast
  from 3(1) [OF t(3)] have "shlex Space [] False (join_spaces (v # ws)) = Inr ts'" by (simp add: shlex_split_def)
  with b t(1) show ?case by (auto simp: shlex_split_def whitespace_def)
qed


definition sample_obj :: task_gen where
  "sample_obj = \<lparr>tg_name = ''run'', tg_path = ''/ns3/scratch'', tg_bld = ''/ns3/build/scratch'', tg_target = ''run'',
     tg_node = ''/ns3/build/scratch/run'', is_ns3_program = True\<rparr>"




text \<open>With a template, the words of the template are kept and the path takes the place of \<open>%s\<close>, if it is a plain word.\<close>

lemma join_spaces_append:
  "as \<noteq> [] \<Longrightarrow> bs \<noteq> [] \<Longrightarrow> join_spaces (as @ bs) = join_spaces as @ '' '' @ join_spaces bs"
  by (induction as rule: join_spaces.induct) (auto simp: neq_Nil_conv)

definition around :: "string list \<Rightarrow> string list \<Rightarrow> string \<times> string" where
  "around pre post = (if pre = [] then '''' else join_spaces pre @ '' '', if post = [] then '''' else '' '' @ join_spaces post)"

lemma join_spaces_around: "join_spaces (pre @ [w] @ post) = fst (around pre post) @ w @ snd (around pre post)"
proof -
  have "post \<noteq> [] \<Longrightarrow> join_spaces (w # post) = w @ '' '' @ join_spaces post" by (cases post) simp_all
  then show ?thesis by (cases "pre = []"; cases "post = []") (simp_all add: around_def join_spaces_append)
qed

lemma set_join_spaces: "set (join_spaces ws) \<subseteq> (\<Union>w \<in> set ws. set w) \<union> {CHR '' ''}"
  by (induction ws rule: join_spaces.induct) auto

lemma format_once_literal:
  "CHR ''%'' \<notin> set u \<Longrightarrow> format_once conv (u @ t) path = ebind (format_once conv t path) (\<lambda>s. Inr (u @ s))"
proof (induction u)
  case Nil
  show ?case by (cases "format_once conv t path") simp_all
next
  case (Cons c u)
  have "format_once conv (c # (u @ t)) path = ebind (format_once conv (u @ t) path) (\<lambda>s. Inr (c # s))"
    using Cons.prems by (cases "u @ t") auto
  with Cons show ?case by (simp add: ebind_assoc)
qed

lemma format_once_path:
  assumes "CHR ''%'' \<notin> set u" and "CHR ''%'' \<notin> set v"
  shows "format_once conv (u @ ''%s'' @ v) (Some p) = Inr (u @ p @ v)"
  using format_once_literal [OF assms(1), of conv "''%s'' @ v" "Some p"] format_once_literal [OF assms(2), of conv "[]" None]
  by simp

lemma double_backslashes_id: "backslash \<notin> set s \<Longrightarrow> double_backslashes s = s"
  by (induction s) (auto simp: double_backslashes_def)

lemma run_with_template:
  assumes found: "lookup (strip_cc name) = Inr obj" and p: "plain_word (tg_node obj)"
    and ws: "list_all2 spells pre ps" "list_all2 spells post qs"
    and chars: "\<forall>w \<in> set (pre @ post). CHR ''%'' \<notin> set w \<and> backslash \<notin> set w" and more: "pre @ post \<noteq> []"
  shows "get_run_program lookup conv name (Some (join_spaces (pre @ [''%s''] @ post))) =
    Inr (strip_cc name, ps @ [tg_node obj] @ qs)"
proof -
  have free: "c \<notin> set (join_spaces pre)" "c \<notin> set (join_spaces post)" if "c = CHR ''%'' \<or> c = backslash" for c
    using that chars set_join_spaces [of pre] set_join_spaces [of post] by (auto simp: backslash_def)
  have u: "c \<notin> set (fst (around pre post))" "c \<notin> set (snd (around pre post))" if "c = CHR ''%'' \<or> c = backslash" for c
    using that free [OF that] by (auto simp: around_def backslash_def)
  have ne: "join_spaces (pre @ [''%s''] @ post) \<noteq> ''%s''"
  proof
    assume "join_spaces (pre @ [''%s''] @ post) = ''%s''"
    then have "length (fst (around pre post) @ ''%s'' @ snd (around pre post)) = 2" by (simp only: join_spaces_around) simp
    with more show False by (auto simp: around_def split: if_splits)
  qed
  have f: "format_once conv (join_spaces (pre @ [''%s''] @ post)) (Some (tg_node obj)) = Inr (join_spaces (pre @ [tg_node obj] @ post))"
    unfolding join_spaces_around by (rule format_once_path) (use u in auto)
  have b: "double_backslashes (join_spaces (pre @ [tg_node obj] @ post)) = join_spaces (pre @ [tg_node obj] @ post)"
    unfolding join_spaces_around by (rule double_backslashes_id) (use u p in \<open>auto simp: plain_word_def\<close>)
  have "list_all2 spells (pre @ [tg_node obj] @ post) (ps @ [tg_node obj] @ qs)"
    using ws p by (auto intro!: list_all2_appendI simp: spells_def)
  from shlex_spelled_words [OF this] ne found f b show ?thesis
    by (simp add: get_run_program_def del: append.simps)
qed

text \<open>A path with a blank, which is put into the template without quotes, falls into two words.\<close>

theorem path_with_blank_split:
  "get_run_program (\<lambda>n. Inr (sample_obj\<lparr>tg_node := ''/my ns3/run''\<rparr>)) conv ''run'' (Some ''nice %s'') =
    Inr (''run'', [''nice'', ''/my'', ''ns3/run''])"
  by (simp add: get_run_program_def strip_cc_def double_backslashes_def shlex_split_def whitespace_def quotes_def backslash_def)

section \<open>Duplicates\<close>

fun uniquify_seen :: "'a list \<Rightarrow> 'a set \<Rightarrow> 'a list" where
  "uniquify_seen [] seen = []"
| "uniquify_seen (x # xs) seen = (if x \<in> seen then uniquify_seen xs seen else x # uniquify_seen xs (insert x seen))"

definition uniquify_list :: "'a list \<Rightarrow> 'a list" where
  "uniquify_list xs = uniquify_seen xs {}"

lemma uniquify_seen_rev: "uniquify_seen xs seen = filter (\<lambda>x. x \<notin> seen) (rev (remdups (rev xs)))"
proof (induction xs arbitrary: seen)
  case Nil
  show ?case by simp
next
  case (Cons x xs)
  have "rev (remdups (rev xs @ [x])) = x # filter (\<lambda>y. y \<noteq> x) (rev (remdups (rev xs)))"
    by (induction xs rule: rev_induct) (auto simp: remdups_append2)
  then show ?case using Cons by (auto simp: filter_filter intro!: filter_cong)
qed

lemma uniquify_list_correct: "distinct (uniquify_list xs) \<and> set (uniquify_list xs) = set xs \<and> uniquify_list xs = rev (remdups (rev xs))"
  by (simp add: uniquify_list_def uniquify_seen_rev)

end
