(* ===== verification/BuildTools.thy ===== *)
theory BuildTools
  imports Shell PyRegex
begin

text \<open>
  Two tools of the build: \<open>waf-tools/command.py\<close>, the tasks that run a command string of the small shell after
  substituting the names of their files, and \<open>waf-tools/cflags.py\<close>, the flags of the compilers for the profiles of the
  build. The evaluation of a Python expression and the nodes of waf are parameters.
\<close>

section \<open>Substitution\<close>

text \<open>
  What an expression inside \<open>${...}\<close> evaluates to: a file of the tree (with its path in the source and the path of
  its place in the build), the list of inputs or outputs of the task, another list, a text or something else.
\<close>

datatype subst_value =
    FileNode string string
  | TaskInputs
  | TaskOutputs
  | OtherList "subst_value list"
  | TextValue string
  | NoneValue
  | OtherValue

type_synonym task_files = "(string \<times> string) list"

text \<open>The pattern \<open>(?P<dollar>\$\$)|(?P<subst>\$\{(?P<var>\w+)(?P<code>.*?)\})\<close>.\<close>

definition arg_rx :: rx where
  "arg_rx = Alt (Group 1 (Lit ''$$''))
     (Group 2 (Then (Lit ''${'') (Then (Group 3 (Greedy 1 name_char)) (Then (Group 4 (Lazy 0 no_newline)) (Lit ''}'')))))"

text \<open>\<open>re.sub\<close> takes a text from its function, and \<open>None\<close> for the empty text.\<close>

fun sub_text :: "subst_value \<Rightarrow> string result" where
  "sub_text (TextValue s) = Inr s"
| "sub_text NoneValue = Inr ''''"
| "sub_text _ = Inl TypeError"

fun repl_value :: "task_files \<Rightarrow> task_files \<Rightarrow> string \<Rightarrow> subst_value \<Rightarrow> string result" where
  "repl_value inputs outputs var (FileNode src bld) =
     (if var = ''TGT'' then Inr bld else if var = ''SRC'' then Inr src else Inl ValueError)"
| "repl_value inputs outputs var TaskInputs = (if length inputs = 1 then Inr (fst (hd inputs)) else Inl ValueError)"
| "repl_value inputs outputs var TaskOutputs = (if length outputs = 1 then Inr (snd (hd outputs)) else Inl ValueError)"
| "repl_value inputs outputs var (OtherList vs) = (case vs of [v] \<Rightarrow> sub_text v | _ \<Rightarrow> Inl AssertionError)"
| "repl_value inputs outputs var v = sub_text v"

definition repl :: "(string \<Rightarrow> subst_value result) \<Rightarrow> task_files \<Rightarrow> task_files \<Rightarrow> groups \<Rightarrow> string result" where
  "repl eval inputs outputs g =
     (if group_text g 1 \<noteq> '''' then Inr ''$''
      else if group_text g 2 \<noteq> '''' then
        ebind (eval (group_text g 3 @ group_text g 4)) (repl_value inputs outputs (group_text g 3))
      else Inr '''')"

definition subst_arg :: "(string \<Rightarrow> subst_value result) \<Rightarrow> task_files \<Rightarrow> task_files \<Rightarrow> string \<Rightarrow> string result" where
  "subst_arg eval inputs outputs arg = re_sub arg_rx (repl eval inputs outputs) arg"

section \<open>The task\<close>

fun each :: "('a \<Rightarrow> 'b result) \<Rightarrow> 'a list \<Rightarrow> 'b list result" where
  "each f [] = Inr []"
| "each f (x # xs) = ebind (f x) (\<lambda>y. ebind (each f xs) (\<lambda>ys. Inr (y # ys)))"

fun each_opt :: "('a \<Rightarrow> 'b result) \<Rightarrow> 'a option \<Rightarrow> 'b option result" where
  "each_opt f None = Inr None"
| "each_opt f (Some x) = ebind (f x) (\<lambda>y. Inr (Some y))"

fun subst_redirect :: "(string \<Rightarrow> string result) \<Rightarrow> redirect \<Rightarrow> redirect result" where
  "subst_redirect f (File n) = ebind (f n) (\<lambda>m. Inr (File m))"
| "subst_redirect f r = Inr r"

definition subst_command :: "(string \<Rightarrow> string result) \<Rightarrow> command \<Rightarrow> command result" where
  "subst_command f c =
     ebind (each_opt f (cmd_stdin c)) (\<lambda>i.
     ebind (each_opt (subst_redirect f) (cmd_stdout c)) (\<lambda>out.
     ebind (each_opt (subst_redirect f) (cmd_stderr c)) (\<lambda>err.
     ebind (each f (argv c)) (\<lambda>ws.
     ebind (each_opt (each (\<lambda>(name, v). ebind (f v) (\<lambda>w. Inr (name, w)))) (env_vars c)) (\<lambda>vars.
       Inr (c\<lparr>cmd_stdin := i, cmd_stdout := out, cmd_stderr := err, argv := ws, env_vars := vars\<rparr>))))))"

fun subst_node :: "(string \<Rightarrow> string result) \<Rightarrow> node \<Rightarrow> node result" where
  "subst_node f (Command c) = ebind (subst_command f c) (\<lambda>c'. Inr (Command c'))"
| "subst_node f (Chdir None) = Inl TypeError"
| "subst_node f (Chdir (Some d)) = ebind (f d) (\<lambda>d'. Inr (Chdir (Some d')))"
| "subst_node f n = Inr n"

text \<open>The names an expression can use: the configuration, the variables of the target, and the files.\<close>

definition task_namespace :: "(string \<rightharpoonup> subst_value) \<Rightarrow> (string \<rightharpoonup> subst_value) option \<Rightarrow> string \<rightharpoonup> subst_value" where
  "task_namespace env variables =
     (env ++ (case variables of None \<Rightarrow> Map.empty | Some v \<Rightarrow> v))
       (''env'' \<mapsto> OtherValue, ''SRC'' \<mapsto> TaskInputs, ''TGT'' \<mapsto> TaskOutputs)"

definition command_run ::
    "sh_world \<Rightarrow> bool \<Rightarrow> ((string \<rightharpoonup> subst_value) \<Rightarrow> string \<Rightarrow> subst_value result) \<Rightarrow> (string \<rightharpoonup> subst_value) \<Rightarrow>
     (string \<rightharpoonup> subst_value) option \<Rightarrow> task_files \<Rightarrow> task_files \<Rightarrow> string \<Rightarrow> (int option \<times> event list) result" where
  "command_run W verbose eval env variables inputs outputs cmd =
     ebind (parse cmd) (\<lambda>ns.
     ebind (each (subst_node (subst_arg (eval (task_namespace env variables)) inputs outputs)) ns) (\<lambda>ns'.
       run_pipeline W verbose ns'))"

section \<open>What substitution does\<close>

lemma each_Inr_iff: "each f xs = Inr ys \<longleftrightarrow> list_all2 (\<lambda>x y. f x = Inr y) xs ys"
  by (induction xs arbitrary: ys) (auto simp: ebind_Inr_iff list_all2_Cons1)

lemma no_dollar_no_way:
  assumes "take 1 s \<noteq> ''$''"
  shows "no_way arg_rx s"
proof -
  have "take 2 s \<noteq> ''$$'' \<and> take 2 s \<noteq> ''${''" using assms by (cases s) (auto simp: numeral_2_eq_2)
  then show ?thesis
    unfolding arg_rx_def by (intro none_Alt none_Group none_Then_left none_Lit) (simp_all add: numeral_2_eq_2)
qed

text \<open>Texts of the part before the first dollar sign are copied.\<close>

lemma scan_copies:
  assumes "CHR ''$'' \<notin> set v"
  shows "scan arg_rx u (v @ s) = scan arg_rx (u @ v) s"
  using assms
proof (induction v arbitrary: u)
  case Nil
  show ?case by simp
next
  case (Cons c v)
  have "no_way arg_rx (c # (v @ s))" by (rule no_dollar_no_way) (use Cons.prems in auto)
  with Cons show ?case by (simp add: no_wayD)
qed

definition sub_from :: "(groups \<Rightarrow> string result) \<Rightarrow> string \<Rightarrow> string \<Rightarrow> string result" where
  "sub_from f u s = (case scan arg_rx u s of (ms, t) \<Rightarrow> sub_parts f ms t)"

lemma subst_arg_from: "subst_arg eval inputs outputs s = sub_from (repl eval inputs outputs) '''' s"
  by (simp add: subst_arg_def re_sub_def sub_from_def)

lemma sub_from_nil: "sub_from f u '''' = Inr u"
  by (simp add: sub_from_def)

lemma sub_from_copies: "CHR ''$'' \<notin> set v \<Longrightarrow> sub_from f u (v @ s) = sub_from f (u @ v) s"
  by (simp add: sub_from_def scan_copies)

lemma sub_from_match:
  assumes "first_way arg_rx (w @ s) g s" and "w \<noteq> []"
  shows "sub_from f u (w @ s) = ebind (f g) (\<lambda>v. ebind (sub_from f '''' s) (\<lambda>r. Inr (u @ v @ r)))"
  using scan_first [OF assms(1)] assms(2) by (cases "scan arg_rx [] s") (simp add: sub_from_def)

lemma first_dollars: "first_way arg_rx (''$$'' @ s) (Map.empty(1 \<mapsto> ''$$'')) s"
  unfolding arg_rx_def by (rule first_Alt, rule first_Group, rule first_Lit)

lemma first_Lazy:
  assumes "\<forall>c \<in> set u. p c \<and> c \<noteq> e"
  shows "first_way (Then (Group m (Lazy 0 p)) (Lit [e])) (u @ e # s) (Map.empty(m \<mapsto> u)) s"
proof -
  let ?s = "u @ e # s"
  have run: "length u \<le> run_of p ?s" using assms(1) by (auto simp: run_of_def takeWhile_append2)
  define f :: "nat \<Rightarrow> (groups \<times> string) list" where
    "f = (\<lambda>k. map (\<lambda>(h, q). ((Map.empty(m \<mapsto> take (length ?s - length (drop k ?s)) ?s)) ++ h, q)) (ways (Lit [e]) (drop k ?s)))"
  have w: "ways (Then (Group m (Lazy 0 p)) (Lit [e])) ?s = concat (map f [0..<Suc (run_of p ?s)])"
    by (simp only: ways.simps map_map comp_def case_prod_conv f_def)
  have "[0..<Suc (run_of p ?s)] = [0..<length u] @ length u # [Suc (length u)..<Suc (run_of p ?s)]"
    using run upt_add_eq_append [of 0 "length u" "Suc (run_of p ?s) - length u"] by (simp add: upt_conv_Cons del: upt_Suc)
  moreover have "f k = []" if k: "k \<in> set [0..<length u]" for k
  proof -
    from k have lt: "k < length u" by simp
    then have "u ! k \<noteq> e" using assms(1) nth_mem by blast
    moreover have "drop k ?s = ?s ! k # drop (Suc k) ?s" by (rule Cons_nth_drop_Suc [symmetric]) (use lt in simp)
    moreover have "?s ! k = u ! k" using lt by (simp add: nth_append)
    ultimately have "ways (Lit [e]) (drop k ?s) = []" by (simp del: drop_append)
    then show ?thesis by (simp only: f_def list.map)
  qed
  moreover have "f (length u) = (Map.empty(m \<mapsto> u), s) # []" by (simp add: f_def)
  ultimately show ?thesis
    unfolding first_way_iff w using concat_map_first [of "[0..<length u]" f "length u" "(Map.empty(m \<mapsto> u), s)" "[]"] by metis
qed

lemma first_braces:
  assumes v: "v \<noteq> ''''" "\<forall>c \<in> set v. name_char c"
    and code: "\<forall>c \<in> set code. no_newline c \<and> c \<noteq> CHR ''}''" "code = [] \<or> \<not> name_char (hd code)"
  shows "\<exists>g. first_way arg_rx (''${'' @ v @ code @ ''}'' @ s) g s \<and>
    group_text g 1 = '''' \<and> group_text g 2 = ''${'' @ v @ code @ ''}'' \<and> group_text g 3 = v \<and> group_text g 4 = code"
proof -
  have c: "first_way (Then (Group 4 (Lazy 0 no_newline)) (Lit ''}'')) (code @ CHR ''}'' # s) (Map.empty(4 \<mapsto> code)) s"
    by (rule first_Lazy) (use code in auto)
  have "first_way (Greedy 1 name_char) (v @ (code @ CHR ''}'' # s)) Map.empty (code @ CHR ''}'' # s)"
  proof (rule first_Greedy)
    show "code @ CHR ''}'' # s = [] \<or> \<not> name_char (hd (code @ CHR ''}'' # s))"
      using code(2) by (cases code) (auto simp: name_char_def)
  qed (use v in \<open>auto simp: Suc_le_eq\<close>)
  then have g: "first_way (Group 3 (Greedy 1 name_char)) (v @ (code @ CHR ''}'' # s)) (Map.empty(3 \<mapsto> v)) (code @ CHR ''}'' # s)"
    by (rule first_Group)
  let ?b = "Then (Lit ''${'') (Then (Group 3 (Greedy 1 name_char)) (Then (Group 4 (Lazy 0 no_newline)) (Lit ''}'')))"
  let ?w = "''${'' @ v @ code @ ''}''"
  have "first_way ?b (''${'' @ (v @ (code @ CHR ''}'' # s))) (Map.empty ++ ((Map.empty(3 \<mapsto> v)) ++ (Map.empty(4 \<mapsto> code)))) s"
    by (intro first_Then [OF first_Lit] first_Then [OF g c])
  then have b: "first_way (Group 2 ?b) (?w @ s) ((Map.empty ++ ((Map.empty(3 \<mapsto> v)) ++ (Map.empty(4 \<mapsto> code))))(2 \<mapsto> ?w)) s"
    by (intro first_Group) simp
  have "no_way (Group 1 (Lit ''$$'')) (?w @ s)" by (simp add: no_way_iff)
  from first_Alt_other [OF this b] show ?thesis
    unfolding arg_rx_def by (intro exI conjI) (assumption | simp add: group_text_def map_add_def)+
qed

text \<open>A text in which every dollar sign is doubled comes back as it was.\<close>

definition double_dollars :: "string \<Rightarrow> string" where
  "double_dollars s = concat (map (\<lambda>c. if c = CHR ''$'' then ''$$'' else [c]) s)"

lemma sub_from_doubled:
  assumes "\<And>g. group_text g 1 \<noteq> '''' \<Longrightarrow> f g = Inr ''$''"
  shows "sub_from f u (double_dollars s) = Inr (u @ s)"
proof (induction s arbitrary: u)
  case Nil
  show ?case by (simp add: double_dollars_def sub_from_nil)
next
  case (Cons c s)
  show ?case
  proof (cases "c = CHR ''$''")
    case True
    have "f (Map.empty(1 \<mapsto> ''$$'')) = Inr ''$''" by (rule assms) (simp add: group_text_def)
    with Cons sub_from_match [OF first_dollars, where f = f] True show ?thesis by (simp add: double_dollars_def)
  next
    case False
    with Cons sub_from_copies [of "[c]" f u "double_dollars s"] show ?thesis by (simp add: double_dollars_def)
  qed
qed

theorem doubled_dollars_read: "subst_arg eval inputs outputs (double_dollars s) = Inr s"
  unfolding subst_arg_from by (subst sub_from_doubled) (simp_all add: repl_def)

lemma double_dollars_id: "CHR ''$'' \<notin> set s \<Longrightarrow> double_dollars s = s"
  by (induction s) (auto simp: double_dollars_def)

corollary plain_text_kept: "CHR ''$'' \<notin> set s \<Longrightarrow> subst_arg eval inputs outputs s = Inr s"
  using doubled_dollars_read [of eval inputs outputs s] by (simp add: double_dollars_id)

text \<open>An expression in braces is replaced by its value, and the text around it is substituted on its own.\<close>

theorem braces_replaced:
  assumes "CHR ''$'' \<notin> set u" and v: "v \<noteq> ''''" "\<forall>c \<in> set v. name_char c"
    and code: "\<forall>c \<in> set code. no_newline c \<and> c \<noteq> CHR ''}''" "code = [] \<or> \<not> name_char (hd code)"
    and x: "eval (v @ code) = Inr x"
  shows "subst_arg eval inputs outputs (u @ ''${'' @ v @ code @ ''}'' @ s) =
    ebind (repl_value inputs outputs v x) (\<lambda>t. ebind (subst_arg eval inputs outputs s) (\<lambda>r. Inr (u @ t @ r)))"
proof -
  let ?w = "''${'' @ v @ code @ ''}''" and ?f = "repl eval inputs outputs"
  from first_braces [OF v code] obtain g where
    g: "first_way arg_rx (''${'' @ v @ code @ ''}'' @ s) g s" "group_text g 1 = ''''" "group_text g 2 = ?w"
      "group_text g 3 = v" "group_text g 4 = code" by blast
  have "?f g = repl_value inputs outputs v x"
    unfolding repl_def g(2-) by (simp add: x)
  moreover have "first_way arg_rx (?w @ s) g s" using g(1) by simp
  ultimately show ?thesis
    using sub_from_copies [OF assms(1), of ?f "''''" "?w @ s"] sub_from_match [of ?w s g ?f u]
    by (simp add: subst_arg_from)
qed

section \<open>Files of a task\<close>

text \<open>
  Command strings as the build writes them: every word is a text, with its dollar signs doubled, or the file read
  or written by the task; the output of a command may go to such a word.
\<close>

datatype task_word = TextWord string | SourceFile | TargetFile

datatype task_out = ToParent | ToFile task_word | ToPipe

datatype task_node = TCommand string "task_word list" task_out | TOp node

fun word_text :: "task_word \<Rightarrow> string" where
  "word_text (TextWord s) = double_dollars s"
| "word_text SourceFile = ''${SRC}''"
| "word_text TargetFile = ''${TGT}''"

fun word_value :: "string \<Rightarrow> string \<Rightarrow> task_word \<Rightarrow> string" where
  "word_value src tgt (TextWord s) = s"
| "word_value src tgt SourceFile = src"
| "word_value src tgt TargetFile = tgt"

fun fill_node :: "(task_word \<Rightarrow> string) \<Rightarrow> task_node \<Rightarrow> node" where
  "fill_node f (TCommand name ws out) =
     Command \<lparr>cmd_name = name, argv = map f ws, cmd_stdin = None,
       cmd_stdout = (case out of ToParent \<Rightarrow> None | ToFile w \<Rightarrow> Some (File (f w)) | ToPipe \<Rightarrow> Some PIPE), cmd_stderr = None, env_vars = None\<rparr>"
| "fill_node f (TOp n) = n"

fun task_node_ok :: "task_node \<Rightarrow> bool" where
  "task_node_ok (TCommand name ws out) = True"
| "task_node_ok (TOp n) = (n \<in> {Pipe, And, Or})"

text \<open>Python's evaluation of a name.\<close>

definition evaluates_names :: "((string \<rightharpoonup> subst_value) \<Rightarrow> string \<Rightarrow> subst_value result) \<Rightarrow> bool" where
  "evaluates_names eval \<longleftrightarrow> (\<forall>ns x v. ns x = Some v \<longrightarrow> eval ns x = Inr v)"

lemma file_words:
  assumes "eval ''SRC'' = Inr TaskInputs" and "eval ''TGT'' = Inr TaskOutputs"
  shows "subst_arg eval [(src, b)] [(a, tgt)] (word_text w) = Inr (word_value src tgt w)"
proof -
  have n: "subst_arg eval [(src, b)] [(a, tgt)] '''' = Inr ''''" by (rule plain_text_kept) simp
  have "subst_arg eval [(src, b)] [(a, tgt)] ('''' @ ''${'' @ ''SRC'' @ '''' @ ''}'' @ '''') =
      ebind (repl_value [(src, b)] [(a, tgt)] ''SRC'' TaskInputs) (\<lambda>t. ebind (subst_arg eval [(src, b)] [(a, tgt)] '''') (\<lambda>r. Inr ('''' @ t @ r)))"
    by (rule braces_replaced) (simp_all add: assms name_char_def)
  moreover have "subst_arg eval [(src, b)] [(a, tgt)] ('''' @ ''${'' @ ''TGT'' @ '''' @ ''}'' @ '''') =
      ebind (repl_value [(src, b)] [(a, tgt)] ''TGT'' TaskOutputs) (\<lambda>t. ebind (subst_arg eval [(src, b)] [(a, tgt)] '''') (\<lambda>r. Inr ('''' @ t @ r)))"
    by (rule braces_replaced) (simp_all add: assms name_char_def)
  ultimately show ?thesis by (cases w) (simp_all add: doubled_dollars_read n)
qed

lemma each_words:
  assumes "\<And>w. f (word_text w) = Inr (g w)"
  shows "each f (map word_text ws) = Inr (map g ws)"
  by (induction ws) (simp_all add: assms)

lemma subst_filled:
  assumes "\<And>w. f (word_text w) = Inr (g w)" and "task_node_ok t"
  shows "subst_node f (fill_node word_text t) = Inr (fill_node g t)"
proof (cases t)
  case (TCommand name ws out)
  then show ?thesis by (cases out) (simp_all add: subst_command_def each_words assms(1))
next
  case (TOp n)
  with assms(2) show ?thesis by auto
qed

text \<open>
  C35. The commands of a task run with the names of its files in place of \<open>${SRC}\<close> and \<open>${TGT}\<close>, each as one word
  whatever characters it has, since the substitution comes after the command string was parsed.
\<close>

theorem task_runs_on_its_files:
  assumes "evaluates_names eval" and "parse cmd = Inr (map (fill_node word_text) ts)" and "\<forall>t \<in> set ts. task_node_ok t"
  shows "command_run W verbose eval env variables [(src, b)] [(a, tgt)] cmd =
    run_pipeline W verbose (map (fill_node (word_value src tgt)) ts)"
proof -
  let ?e = "eval (task_namespace env variables)"
  have "?e ''SRC'' = Inr TaskInputs" "?e ''TGT'' = Inr TaskOutputs"
    using assms(1) by (simp_all add: evaluates_names_def task_namespace_def)
  then have f: "subst_arg ?e [(src, b)] [(a, tgt)] (word_text w) = Inr (word_value src tgt w)" for w
    by (rule file_words)
  have "each (subst_node (subst_arg ?e [(src, b)] [(a, tgt)])) (map (fill_node word_text) ts) =
      Inr (map (fill_node (word_value src tgt)) ts)"
    using assms(3) by (induction ts) (simp_all add: subst_filled f)
  with assms(2) show ?thesis by (simp add: command_run_def)
qed

definition name_eval :: "(string \<rightharpoonup> subst_value) \<Rightarrow> string \<Rightarrow> subst_value result" where
  "name_eval ns x = (case ns x of Some v \<Rightarrow> Inr v | None \<Rightarrow> Inl (NameError x))"

lemma name_eval_names: "evaluates_names name_eval"
  by (simp add: evaluates_names_def name_eval_def)

lemma sample_task_parsed:
  "parse ''sed s/x$$/y/ ${SRC} | sort > ${TGT}'' = Inr (map (fill_node word_text)
     [TCommand ''sed'' [TextWord ''sed'', TextWord ''s/x$/y/'', SourceFile] ToPipe, TOp Pipe, TCommand ''sort'' [TextWord ''sort''] (ToFile TargetFile)])"
  by (simp add: parse_def shlex_split_def parse_tokens_def whitespace_def quotes_def backslash_def double_dollars_def
      parse_token_def begin_token_def command_token_def env_var_match_def on_command_def set_stdout_def operator_def
      commit_command_def new_command_def Let_def)

theorem task_runs_on_its_files_witness:
  "\<forall>W. command_run W False name_eval Map.empty None [(''my file.txt'', '''')] [('''', ''/build/out'')] ''sed s/x$$/y/ ${SRC} | sort > ${TGT}'' =
     run_pipeline W False (map (fill_node (word_value ''my file.txt'' ''/build/out''))
       [TCommand ''sed'' [TextWord ''sed'', TextWord ''s/x$/y/'', SourceFile] ToPipe, TOp Pipe,
        TCommand ''sort'' [TextWord ''sort''] (ToFile TargetFile)])"
  using task_runs_on_its_files [OF name_eval_names sample_task_parsed] by simp

text \<open>A task of several inputs that asks for \<open>${SRC}\<close> without an index fails.\<close>

lemma ambiguous_source_fails:
  assumes "evaluates_names eval" and "length inputs \<noteq> 1" and "word = ''${SRC}''"
  shows "subst_arg (eval (task_namespace env variables)) inputs outputs word = Inl ValueError"
proof -
  let ?e = "eval (task_namespace env variables)"
  have "?e (''SRC'' @ '''') = Inr TaskInputs" using assms(1) by (simp add: evaluates_names_def task_namespace_def)
  then have "subst_arg ?e inputs outputs ('''' @ ''${'' @ ''SRC'' @ '''' @ ''}'' @ '''') =
      ebind (repl_value inputs outputs ''SRC'' TaskInputs) (\<lambda>t. ebind (subst_arg ?e inputs outputs '''') (\<lambda>r. Inr ('''' @ t @ r)))"
    by (intro braces_replaced) (simp_all add: name_char_def)
  with assms(2,3) show ?thesis by simp
qed

section \<open>The flags of the compilers\<close>

datatype compiler_traits = GccTraits | IccTraits | MsvcTraits

fun warnings_flags :: "compiler_traits \<Rightarrow> string list list" where
  "warnings_flags GccTraits = [[''-Wall''], [''-Werror''], [''-Wextra'']]"
| "warnings_flags IccTraits = [[], [], [''-Wall'']]"
| "warnings_flags MsvcTraits = [[''/W2''], [''/WX''], [''/Wall'']]"

text \<open>The loop over \<open>range(level)\<close> with its \<open>break\<close>.\<close>

fun warnings_loop :: "string list list \<Rightarrow> nat list \<Rightarrow> string list \<Rightarrow> string list" where
  "warnings_loop flags [] warnings = warnings"
| "warnings_loop flags (l # ls) warnings =
     (if l < length flags then warnings_loop flags ls (warnings @ flags ! l) else warnings)"

definition get_warnings_flags :: "compiler_traits \<Rightarrow> nat \<Rightarrow> string list" where
  "get_warnings_flags t level = warnings_loop (warnings_flags t) [0..<level] []"

fun get_optimization_flags :: "compiler_traits \<Rightarrow> nat \<Rightarrow> string list option" where
  "get_optimization_flags MsvcTraits level =
     (if level = 0 then Some [''/Od''] else if level = 1 then Some [] else if level = 2 then Some [''/O2'']
      else if level = 3 then Some [''/Ox''] else None)"
| "get_optimization_flags t level =
     (if level = 0 then Some [''-O0''] else if level = 1 then Some [''-O''] else if level = 2 then Some [''-O2'']
      else if level = 3 then Some [''-O3''] else None)"

fun get_debug_flags :: "compiler_traits \<Rightarrow> nat \<Rightarrow> string list \<times> string list" where
  "get_debug_flags MsvcTraits level =
     (if level = 0 then ([], [''NDEBUG'']) else if level = 1 then ([''/ZI'', ''/RTC1''], [])
      else ([''/ZI'', ''/RTC1''], [''_DEBUG'']))"
| "get_debug_flags t level =
     (if level = 0 then ([''-g0''], [''NDEBUG'']) else if level = 1 then ([''-g''], [])
      else ([''-ggdb'', ''-g3''], [''_DEBUG'']))"

definition compiler_mapping :: "string \<rightharpoonup> compiler_traits" where
  "compiler_mapping = [''gcc'' \<mapsto> GccTraits, ''g++'' \<mapsto> GccTraits, ''msvc'' \<mapsto> MsvcTraits, ''icc'' \<mapsto> IccTraits,
     ''icpc'' \<mapsto> IccTraits, ''clang'' \<mapsto> GccTraits, ''clang++'' \<mapsto> GccTraits]"

text \<open>The profiles of the tool, and those by which the main script replaces them.\<close>

definition tool_profiles :: "string \<rightharpoonup> nat \<times> nat \<times> nat" where
  "tool_profiles = [''default'' \<mapsto> (2, 1, 1), ''debug'' \<mapsto> (0, 2, 3), ''release'' \<mapsto> (3, 1, 0)]"

definition ns3_profiles :: "string \<rightharpoonup> nat \<times> nat \<times> nat" where
  "ns3_profiles = [''debug'' \<mapsto> (0, 2, 3), ''optimized'' \<mapsto> (3, 2, 1), ''release'' \<mapsto> (3, 2, 0)]"

record flag_env =
  COMPILER_CC :: string
  COMPILER_CXX :: string
  CCFLAGS :: "string list"
  CCDEFINES :: "string list"
  CXXFLAGS :: "string list"
  CXXDEFINES :: "string list"

definition known_compiler :: "string \<Rightarrow> string \<Rightarrow> compiler_traits option" where
  "known_compiler cc cxx = (case compiler_mapping cc of Some t \<Rightarrow> Some t | None \<Rightarrow> compiler_mapping cxx)"

definition cc_flags :: "string list \<Rightarrow> string list \<Rightarrow> string list \<Rightarrow> string list \<Rightarrow> flag_env \<Rightarrow> flag_env" where
  "cc_flags opts dbg defs warn e =
     (if COMPILER_CC e \<noteq> '''' \<and> CCFLAGS e = []
      then e\<lparr>CCFLAGS := opts @ dbg @ warn, CCDEFINES := CCDEFINES e @ defs\<rparr> else e)"

definition cxx_flags :: "string list \<Rightarrow> string list \<Rightarrow> string list \<Rightarrow> string list \<Rightarrow> flag_env \<Rightarrow> flag_env" where
  "cxx_flags opts dbg defs warn e =
     (if COMPILER_CXX e \<noteq> '''' \<and> CXXFLAGS e = []
      then e\<lparr>CXXFLAGS := opts @ dbg @ warn, CXXDEFINES := CXXDEFINES e @ defs\<rparr> else e)"

text \<open>An empty name of a compiler is none, and is in no mapping; \<open>warnings.remove\<close> takes out the first entry.\<close>

definition cflags_configure :: "(string \<rightharpoonup> nat \<times> nat \<times> nat) \<Rightarrow> string \<Rightarrow> bool \<Rightarrow> flag_env \<Rightarrow> flag_env result" where
  "cflags_configure profiles build_profile disable_werror e =
     (if COMPILER_CC e = '''' \<and> COMPILER_CXX e = '''' then Inl (GenericException ''WafError'')
      else case known_compiler (COMPILER_CC e) (COMPILER_CXX e) of
        None \<Rightarrow> Inr e
      | Some t \<Rightarrow>
          (case profiles build_profile of
             None \<Rightarrow> Inl KeyError
           | Some (opt_level, warn_level, dbg_level) \<Rightarrow>
               (case get_optimization_flags t opt_level of
                  None \<Rightarrow> Inl TypeError
                | Some opts \<Rightarrow>
                    (let dbg = fst (get_debug_flags t dbg_level); defs = snd (get_debug_flags t dbg_level);
                         warn = (if disable_werror then remove1 ''-Werror'' (get_warnings_flags t warn_level)
                                 else get_warnings_flags t warn_level)
                     in Inr (cxx_flags opts dbg defs warn (cc_flags opts dbg defs warn e))))))"

lemma warnings_loop_take:
  "m \<le> length flags \<Longrightarrow> warnings_loop flags [m..<n] ws = ws @ concat (drop m (take n flags))"
proof (induction "n - m" arbitrary: m ws)
  case 0
  then show ?case by simp
next
  case (Suc d)
  then have l: "[m..<n] = m # [Suc m..<n]" by (simp add: upt_conv_Cons)
  show ?case
  proof (cases "m < length flags")
    case True
    have "warnings_loop flags [Suc m..<n] (ws @ flags ! m) = (ws @ flags ! m) @ concat (drop (Suc m) (take n flags))"
      by (rule Suc.hyps(1)) (use Suc.hyps(2) True in auto)
    moreover have "drop m (take n flags) = flags ! m # drop (Suc m) (take n flags)"
      using Suc.hyps(2) True by (subst Cons_nth_drop_Suc [symmetric]) auto
    ultimately show ?thesis using l True by simp
  next
    case False
    then show ?thesis using l by simp
  qed
qed

text \<open>The warnings are those of all levels up to the one asked for.\<close>

lemma warnings_cumulative: "get_warnings_flags t level = concat (take level (warnings_flags t))"
  by (simp add: get_warnings_flags_def warnings_loop_take)

text \<open>Flags the user has set are left alone.\<close>

lemma user_flags_kept:
  assumes "cflags_configure profiles p d e = Inr e'"
  shows "(CCFLAGS e \<noteq> [] \<longrightarrow> CCFLAGS e' = CCFLAGS e \<and> CCDEFINES e' = CCDEFINES e) \<and>
    (CXXFLAGS e \<noteq> [] \<longrightarrow> CXXFLAGS e' = CXXFLAGS e \<and> CXXDEFINES e' = CXXDEFINES e)"
  using assms
  by (auto simp: cflags_configure_def cc_flags_def cxx_flags_def Let_def split: if_splits option.splits prod.splits)

text \<open>The flags of the profiles of the build, for the usual compilers and no flags of the user.\<close>

theorem profile_flags:
  assumes "COMPILER_CC e = ''gcc''" and "COMPILER_CXX e = ''g++''" and "CCFLAGS e = []" and "CXXFLAGS e = []" and "CXXDEFINES e = []"
  shows "\<exists>a b c. cflags_configure ns3_profiles ''debug'' False e = Inr a \<and> CXXFLAGS a = [''-O0'', ''-ggdb'', ''-g3'', ''-Wall'', ''-Werror''] \<and>
      CXXDEFINES a = [''_DEBUG''] \<and>
    cflags_configure ns3_profiles ''optimized'' False e = Inr b \<and> CXXFLAGS b = [''-O3'', ''-g'', ''-Wall'', ''-Werror''] \<and> CXXDEFINES b = [] \<and>
    cflags_configure ns3_profiles ''release'' True e = Inr c \<and> CXXFLAGS c = [''-O3'', ''-g0'', ''-Wall''] \<and> CXXDEFINES c = [''NDEBUG'']"
  using assms
  by (simp add: cflags_configure_def known_compiler_def compiler_mapping_def ns3_profiles_def warnings_cumulative
      cc_flags_def cxx_flags_def Let_def)

text \<open>\<open>--disable-werror\<close> does not reach the compiler of Microsoft, whose flag has another name.\<close>

lemma msvc_werror_stays:
  assumes "COMPILER_CC e = ''msvc''" and "COMPILER_CXX e = ''msvc''" and "CXXFLAGS e = []" and "CCFLAGS e = []"
  shows "\<exists>a. cflags_configure ns3_profiles ''debug'' True e = Inr a \<and> ''/WX'' \<in> set (CXXFLAGS a)"
  using assms
  by (simp add: cflags_configure_def known_compiler_def compiler_mapping_def ns3_profiles_def warnings_cumulative
      cc_flags_def cxx_flags_def Let_def)

text \<open>Both compilers get the flags of the first one that is known.\<close>

lemma flags_of_the_other_compiler:
  assumes "COMPILER_CC e = ''gcc''" and "COMPILER_CXX e = ''icpc''" and "CXXFLAGS e = []" and "CCFLAGS e = []"
  shows "\<exists>a. cflags_configure ns3_profiles ''optimized'' False e = Inr a \<and> ''-Werror'' \<in> set (CXXFLAGS a)"
  using assms
  by (simp add: cflags_configure_def known_compiler_def compiler_mapping_def ns3_profiles_def warnings_cumulative
      cc_flags_def cxx_flags_def Let_def)

end
