(* ===== verification/BuildModules.thy ===== *)
theory BuildModules
  imports PyText
begin

text \<open>
  The modules that a build makes, from \<open>build\<close> of the main \<open>wscript\<close>: the modules asked for are completed by those
  they depend on, and the programs, libraries, headers and bindings of the other modules are taken out of the
  build. The targets declared by the scripts of the directories are a parameter.
\<close>

section \<open>Targets\<close>

record target =
  t_name :: string
  t_module :: string
  t_use :: "string list"
  t_features :: "string list"
  t_program_deps :: "string list option"
  t_is_module :: bool
  t_test_library_of :: "string option"
  t_mode :: string

definition get_tgen :: "target list \<Rightarrow> string \<Rightarrow> target option" where
  "get_tgen ts name = find (\<lambda>t. t_name t = name) ts"

definition module_uses :: "target list \<Rightarrow> string \<Rightarrow> string list option" where
  "module_uses ts name = map_option t_use (get_tgen ts name)"

definition is_ns3 :: "string \<Rightarrow> bool" where
  "is_ns3 d \<longleftrightarrow> take 4 d = ''ns3-''"

section \<open>Dependencies\<close>

text \<open>
  The loop over the dependencies of a module, the loop over the modules (a snapshot of both lists), and the repetition
  until nothing changes. \<open>K\<close> and \<open>C\<close> are the modules and contributed modules that exist.
\<close>

type_synonym enabled = "string list \<times> string list \<times> bool"

fun add_deps :: "string list \<Rightarrow> string list \<Rightarrow> string list \<Rightarrow> enabled \<Rightarrow> enabled result" where
  "add_deps K C [] st = Inr st"
| "add_deps K C (d # ds) (m, c, changed) =
     (if \<not> is_ns3 d then add_deps K C ds (m, c, changed)
      else if d \<notin> set m \<and> d \<notin> set c then
        (if d \<in> set K then add_deps K C ds (m @ [d], c, True)
         else if d \<in> set C then add_deps K C ds (m, c @ [d], True)
         else Inl SystemExit)
      else add_deps K C ds (m, c, changed))"

fun dep_pass :: "(string \<Rightarrow> string list option) \<Rightarrow> string list \<Rightarrow> string list \<Rightarrow> string list \<Rightarrow> enabled \<Rightarrow> enabled result" where
  "dep_pass uses K C [] st = Inr st"
| "dep_pass uses K C (x # xs) st =
     (case uses x of
        None \<Rightarrow> Inl ValueError
      | Some us \<Rightarrow> ebind (add_deps K C us st) (dep_pass uses K C xs))"

definition grows :: "string set \<Rightarrow> string set \<Rightarrow> string set \<Rightarrow> enabled \<Rightarrow> enabled \<Rightarrow> bool" where
  "grows K C D s s' \<longleftrightarrow>
     (case s of (m, c, ch) \<Rightarrow> case s' of (m', c', ch') \<Rightarrow>
        \<exists>u v. m' = m @ u \<and> c' = c @ v \<and> set u \<subseteq> K \<and> set v \<subseteq> C \<and> set u \<union> set v \<subseteq> D - (set m \<union> set c) \<and>
          distinct (u @ v) \<and> ch' = (ch \<or> u @ v \<noteq> []))"

lemma grows_refl: "grows K C D s s"
  by (cases s) (simp add: grows_def)

lemma grows_trans:
  assumes "grows K C D s t" and "grows K C E t r"
  shows "grows K C (D \<union> E) s r"
proof -
  obtain m c ch where s: "s = (m, c, ch)" by (cases s)
  obtain m' c' ch' where t: "t = (m', c', ch')" by (cases t)
  obtain m2 c2 ch2 where r: "r = (m2, c2, ch2)" by (cases r)
  from assms(1) s t obtain u v where 1: "m' = m @ u" "c' = c @ v" "set u \<subseteq> K" "set v \<subseteq> C"
    "set u \<union> set v \<subseteq> D - (set m \<union> set c)" "distinct (u @ v)" "ch' = (ch \<or> u @ v \<noteq> [])" by (auto simp: grows_def)
  from assms(2) t r obtain u' v' where 2: "m2 = m' @ u'" "c2 = c' @ v'" "set u' \<subseteq> K" "set v' \<subseteq> C"
    "set u' \<union> set v' \<subseteq> E - (set m' \<union> set c')" "distinct (u' @ v')" "ch2 = (ch' \<or> u' @ v' \<noteq> [])" by (auto simp: grows_def)
  show ?thesis
    unfolding grows_def s r prod.case
    by (rule exI [of _ "u @ u'"], rule exI [of _ "v @ v'"]) (use 1 2 in auto)
qed

lemma add_deps_grows:
  assumes "add_deps K C ds s = Inr s'"
  shows "grows (set K) (set C) {d \<in> set ds. is_ns3 d} s s' \<and> (\<forall>d \<in> set ds. is_ns3 d \<longrightarrow> d \<in> set (fst s') \<union> set (fst (snd s')))"
  using assms
proof (induction K C ds s rule: add_deps.induct)
  case (1 K C st)
  then show ?case by (simp add: grows_refl)
next
  case (2 K C d ds m c ch)
  let ?D = "{d' \<in> set (d # ds). is_ns3 d'}"
  have more: "grows (set K) (set C) ?D (m, c, ch) s'"
    if "grows (set K) (set C) ({d} \<inter> ?D) (m, c, ch) t" and "grows (set K) (set C) {d' \<in> set ds. is_ns3 d'} t s'" for t
  proof -
    have "?D = ({d} \<inter> ?D) \<union> {d' \<in> set ds. is_ns3 d'}" by auto
    with grows_trans [OF that] show ?thesis by simp
  qed
  have keep: "set (fst t) \<union> set (fst (snd t)) \<subseteq> set (fst s') \<union> set (fst (snd s'))"
    if "grows (set K) (set C) E t s'" for t E using that by (cases t; cases s') (auto simp: grows_def)
  consider (skip) "\<not> is_ns3 d \<or> d \<in> set m \<or> d \<in> set c" "add_deps K C ds (m, c, ch) = Inr s'"
    | (src) "is_ns3 d" "d \<notin> set m" "d \<notin> set c" "d \<in> set K" "add_deps K C ds (m @ [d], c, True) = Inr s'"
    | (contrib) "is_ns3 d" "d \<notin> set m" "d \<notin> set c" "d \<notin> set K" "d \<in> set C" "add_deps K C ds (m, c @ [d], True) = Inr s'"
    using 2(5) by (auto split: if_splits)
  then show ?case
  proof cases
    case skip
    have IH: "grows (set K) (set C) {d' \<in> set ds. is_ns3 d'} (m, c, ch) s' \<and>
        (\<forall>d \<in> set ds. is_ns3 d \<longrightarrow> d \<in> set (fst s') \<union> set (fst (snd s')))"
      using 2(1) 2(4) skip by (cases "is_ns3 d") auto
    with more [OF grows_refl] keep skip(1) show ?thesis by fastforce
  next
    case src
    have IH: "grows (set K) (set C) {d' \<in> set ds. is_ns3 d'} (m @ [d], c, True) s' \<and>
        (\<forall>d \<in> set ds. is_ns3 d \<longrightarrow> d \<in> set (fst s') \<union> set (fst (snd s')))"
      by (rule 2(2)) (use src in auto)
    have "grows (set K) (set C) ({d} \<inter> ?D) (m, c, ch) (m @ [d], c, True)"
      unfolding grows_def prod.case by (rule exI [of _ "[d]"], rule exI [of _ "[]"]) (use src in auto)
    with IH more keep src show ?thesis by fastforce
  next
    case contrib
    have IH: "grows (set K) (set C) {d' \<in> set ds. is_ns3 d'} (m, c @ [d], True) s' \<and>
        (\<forall>d \<in> set ds. is_ns3 d \<longrightarrow> d \<in> set (fst s') \<union> set (fst (snd s')))"
      by (rule 2(3)) (use contrib in auto)
    have "grows (set K) (set C) ({d} \<inter> ?D) (m, c, ch) (m, c @ [d], True)"
      unfolding grows_def prod.case by (rule exI [of _ "[]"], rule exI [of _ "[d]"]) (use contrib in auto)
    with IH more keep contrib show ?thesis by fastforce
  qed
qed

definition used_by :: "(string \<Rightarrow> string list option) \<Rightarrow> string \<Rightarrow> string \<Rightarrow> bool" where
  "used_by uses x d \<longleftrightarrow> is_ns3 d \<and> (case uses x of None \<Rightarrow> False | Some us \<Rightarrow> d \<in> set us)"

lemma dep_pass_grows:
  assumes "dep_pass uses K C xs s = Inr s'"
  shows "grows (set K) (set C) {d. \<exists>x \<in> set xs. used_by uses x d} s s' \<and>
    (\<forall>x \<in> set xs. uses x \<noteq> None \<and> (\<forall>d. used_by uses x d \<longrightarrow> d \<in> set (fst s') \<union> set (fst (snd s'))))"
  using assms
proof (induction xs arbitrary: s)
  case Nil
  then show ?case by (simp add: grows_refl)
next
  case (Cons x xs)
  then obtain us t where us: "uses x = Some us" and t: "add_deps K C us s = Inr t" and r: "dep_pass uses K C xs t = Inr s'"
    by (auto simp: ebind_Inr_iff split: option.splits)
  note A = add_deps_grows [OF t] and B = Cons.IH [OF r]
  have "{d \<in> set us. is_ns3 d} \<union> {d. \<exists>x \<in> set xs. used_by uses x d} = {d. \<exists>y \<in> set (x # xs). used_by uses y d}"
    using us by (auto simp: used_by_def)
  with grows_trans [OF conjunct1 [OF A] conjunct1 [OF B]]
  have g: "grows (set K) (set C) {d. \<exists>y \<in> set (x # xs). used_by uses y d} s s'" by simp
  have "set (fst t) \<union> set (fst (snd t)) \<subseteq> set (fst s') \<union> set (fst (snd s'))"
    using conjunct1 [OF B] by (cases t; cases s') (auto simp: grows_def)
  with A B g us show ?case by (fastforce simp: used_by_def)
qed

lemma grows_shrinks:
  assumes "grows (set K) (set C) D (m, c, False) (m', c', True)"
  shows "card ((set K \<union> set C) - (set m' \<union> set c')) < card ((set K \<union> set C) - (set m \<union> set c))"
proof (rule psubset_card_mono)
  from assms obtain u v where uv: "m' = m @ u" "c' = c @ v" "set u \<subseteq> set K" "set v \<subseteq> set C"
    "set u \<union> set v \<subseteq> D - (set m \<union> set c)" "u @ v \<noteq> []" by (auto simp: grows_def)
  then obtain x where "x \<in> set u \<union> set v" by (cases u; cases v) auto
  with uv show "(set K \<union> set C) - (set m' \<union> set c') \<subset> (set K \<union> set C) - (set m \<union> set c)" by auto
qed simp

function enable_deps :: "(string \<Rightarrow> string list option) \<Rightarrow> string list \<Rightarrow> string list \<Rightarrow> string list \<Rightarrow> string list \<Rightarrow> (string list \<times> string list) result" where
  "enable_deps uses K C m c =
     (case dep_pass uses K C (m @ c) (m, c, False) of
        Inl e \<Rightarrow> Inl e
      | Inr (m', c', changed) \<Rightarrow> if changed then enable_deps uses K C m' c' else Inr (m', c'))"
  by pat_completeness auto
termination
  by (relation "measure (\<lambda>(uses, K, C, m, c). card ((set K \<union> set C) - (set m \<union> set c)))")
    (auto dest!: dep_pass_grows grows_shrinks)

declare enable_deps.simps [simp del]

section \<open>The modules that are built\<close>

definition needed :: "(string \<Rightarrow> string list option) \<Rightarrow> string set \<Rightarrow> string set" where
  "needed uses S = {d. \<exists>x \<in> S. (used_by uses)\<^sup>*\<^sup>* x d}"

lemma needed_step: "x \<in> needed uses S \<Longrightarrow> used_by uses x d \<Longrightarrow> d \<in> needed uses S"
  by (auto simp: needed_def intro: rtranclp.rtrancl_into_rtrancl)

lemma needed_least:
  assumes "S \<subseteq> T" and "\<And>x d. x \<in> T \<Longrightarrow> used_by uses x d \<Longrightarrow> d \<in> T"
  shows "needed uses S \<subseteq> T"
proof
  fix d assume "d \<in> needed uses S"
  then obtain x where "x \<in> T" and "(used_by uses)\<^sup>*\<^sup>* x d" using assms(1) by (auto simp: needed_def)
  from this(2,1) show "d \<in> T" by (induction rule: rtranclp_induct) (auto intro: assms(2))
qed

lemma enable_deps_invariant:
  assumes "enable_deps uses K C m c = Inr (m', c')" and "set m \<union> set c \<subseteq> needed uses S"
  shows "\<exists>u v. m' = m @ u \<and> c' = c @ v \<and> set u \<subseteq> set K \<and> set v \<subseteq> set C \<and> distinct (u @ v) \<and>
    (set u \<union> set v) \<inter> (set m \<union> set c) = {} \<and> set m' \<union> set c' \<subseteq> needed uses S \<and>
    (\<forall>x \<in> set m' \<union> set c'. uses x \<noteq> None \<and> (\<forall>d. used_by uses x d \<longrightarrow> d \<in> set m' \<union> set c'))"
  using assms
proof (induction uses K C m c rule: enable_deps.induct)
  case (1 uses K C m c)
  from 1(2) obtain m1 c1 ch where p: "dep_pass uses K C (m @ c) (m, c, False) = Inr (m1, c1, ch)"
    by (auto simp: enable_deps.simps [of uses K C m c] split: sum.splits)
  note G = dep_pass_grows [OF p]
  from conjunct1 [OF G] obtain u v where uv: "m1 = m @ u" "c1 = c @ v" "set u \<subseteq> set K" "set v \<subseteq> set C"
    "set u \<union> set v \<subseteq> {d. \<exists>x \<in> set (m @ c). used_by uses x d} - (set m \<union> set c)" "distinct (u @ v)" "ch = (u @ v \<noteq> [])"
    by (auto simp: grows_def)
  have "{d. \<exists>x \<in> set (m @ c). used_by uses x d} \<subseteq> needed uses S" using 1(3) by (auto intro: needed_step)
  with uv(1,2,5) 1(3) have n: "set m1 \<union> set c1 \<subseteq> needed uses S" by auto
  show ?case
  proof (cases ch)
    case True
    with 1(2) p have e: "enable_deps uses K C m1 c1 = Inr (m', c')" by (simp add: enable_deps.simps [of uses K C m c])
    from 1(1) [OF p refl refl True e n] obtain u' v' where
      q: "m' = m1 @ u'" "c' = c1 @ v'" "set u' \<subseteq> set K" "set v' \<subseteq> set C" "distinct (u' @ v')"
      "(set u' \<union> set v') \<inter> (set m1 \<union> set c1) = {}" "set m' \<union> set c' \<subseteq> needed uses S"
      "\<forall>x \<in> set m' \<union> set c'. uses x \<noteq> None \<and> (\<forall>d. used_by uses x d \<longrightarrow> d \<in> set m' \<union> set c')" by blast
    show ?thesis
    proof (intro exI conjI)
      show "m' = m @ (u @ u')" "c' = c @ (v @ v')" using q(1,2) uv(1,2) by simp_all
      show "set (u @ u') \<subseteq> set K" "set (v @ v') \<subseteq> set C" using q(3,4) uv(3,4) by auto
      show "distinct ((u @ u') @ (v @ v'))" using q(5,6) uv(6) unfolding uv(1,2) by (auto simp only: distinct_append set_append)
      show "(set (u @ u') \<union> set (v @ v')) \<inter> (set m \<union> set c) = {}" using q(6) uv(5) unfolding uv(1,2) set_append by blast
      show "set m' \<union> set c' \<subseteq> needed uses S" by (rule q(7))
      show "\<forall>x \<in> set m' \<union> set c'. uses x \<noteq> None \<and> (\<forall>d. used_by uses x d \<longrightarrow> d \<in> set m' \<union> set c')" by (rule q(8))
    qed
  next
    case False
    with 1(2) p have e: "m' = m1" "c' = c1" by (simp_all add: enable_deps.simps [of uses K C m c])
    from False uv have "u = []" "v = []" by auto
    with e uv n conjunct2 [OF G] show ?thesis by (intro exI [of _ "[]"]) simp
  qed
qed

section \<open>What is taken out of the build\<close>

definition disabled :: "string list \<Rightarrow> string list \<Rightarrow> string \<Rightarrow> bool" where
  "disabled m c name \<longleftrightarrow> name \<notin> set m \<and> name \<notin> set c"

definition program_built :: "string list \<Rightarrow> string list \<Rightarrow> string list \<Rightarrow> bool" where
  "program_built m c deps \<longleftrightarrow> list_all (\<lambda>d. \<not> disabled m c d) deps"

text \<open>The calls of \<open>exclude_taskgen\<close> for one target; removing a target twice is removing it once.\<close>

definition excluded :: "string list \<Rightarrow> string list \<Rightarrow> bool \<Rightarrow> target \<Rightarrow> bool" where
  "excluded m c tests t \<longleftrightarrow>
     (case t_program_deps t of None \<Rightarrow> False | Some deps \<Rightarrow> \<not> program_built m c deps) \<or>
     (t_is_module t \<and> disabled m c (t_name t)) \<or>
     (case t_test_library_of t of None \<Rightarrow> False | Some owner \<Rightarrow> \<not> tests \<or> disabled m c owner) \<or>
     (''ns3pcfile'' \<in> set (t_features t) \<and> disabled m c (t_module t)) \<or>
     (occurs ''pybindgen'' (t_name t) \<and> disabled m c (''ns3-'' @ t_module t)) \<or>
     (''pyext'' \<in> set (t_features t) \<and> disabled m c (''ns3-'' @ t_module t))"

text \<open>The headers of a module that is not built are removed where they would be installed.\<close>

definition header_mode :: "string list \<Rightarrow> string list \<Rightarrow> target \<Rightarrow> target" where
  "header_mode m c t =
     (if (''ns3moduleheader'' \<in> set (t_features t) \<or> ''ns3header'' \<in> set (t_features t) \<or> ''ns3privateheader'' \<in> set (t_features t)) \<and>
         disabled m c (''ns3-'' @ t_module t)
      then t\<lparr>t_mode := ''remove''\<rparr> else t)"

record build_env =
  known_modules :: "string list"
  known_contrib :: "string list"
  enabled_modules :: "string list"
  enabled_contrib :: "string list"
  enable_tests :: bool
  test_libraries :: "(string \<times> string) list"
  script_dependencies :: "(string \<times> string list) list"
  app_name :: string
  app_version :: string
  build_suffix :: string

record build_result =
  built_modules :: "string list"
  built_contrib :: "string list"
  built_test_libraries :: "string list"
  built_targets :: "target list"
  runnable_programs :: "string list"
  runnable_scripts :: "string list"

definition object_name :: "build_env \<Rightarrow> target \<Rightarrow> string" where
  "object_name E t = app_name E @ app_version E @ ''-'' @ t_name t @ build_suffix E"

text \<open>\<open>place t\<close> is the directory of the program relative to the launch directory.\<close>

definition program_paths :: "build_env \<Rightarrow> (target \<Rightarrow> string) \<Rightarrow> string list \<Rightarrow> string list \<Rightarrow> target list \<Rightarrow> string list" where
  "program_paths E place m c ts =
     map (\<lambda>t. join_path (place t) (object_name E t))
       (filter (\<lambda>t. case t_program_deps t of None \<Rightarrow> False | Some deps \<Rightarrow> program_built m c deps) ts)"

definition scripts_built :: "string list \<Rightarrow> string list \<Rightarrow> (string \<times> string list) list \<Rightarrow> string list" where
  "scripts_built m c ss = map fst (filter (\<lambda>(s, deps). program_built m c deps) ss)"

text \<open>
  Without an enabled module the names \<open>modules\<close> and \<open>contribModules\<close> are not bound, so that a script that depends on
  something raises.
\<close>

definition build_modules :: "build_env \<Rightarrow> (target \<Rightarrow> string) \<Rightarrow> target list \<Rightarrow> build_result result" where
  "build_modules E place ts =
     (if enabled_modules E = [] \<and> enabled_contrib E = [] then
        (if list_ex (\<lambda>(s, deps). deps \<noteq> []) (script_dependencies E) then Inl (NameError ''modules'')
         else Inr \<lparr>built_modules = [], built_contrib = [], built_test_libraries = [], built_targets = ts,
                   runnable_programs = [], runnable_scripts = map fst (script_dependencies E)\<rparr>)
      else
        (case enable_deps (module_uses ts) (known_modules E) (known_contrib E) (enabled_modules E) (enabled_contrib E) of
           Inl e \<Rightarrow> Inl e
         | Inr (m, c) \<Rightarrow>
             Inr \<lparr>built_modules = m, built_contrib = c,
                  built_test_libraries =
                    (if enable_tests E then map snd (filter (\<lambda>(owner, lib). \<not> disabled m c owner) (test_libraries E)) else []),
                  built_targets = map (header_mode m c) (filter (\<lambda>t. \<not> excluded m c (enable_tests E) t) ts),
                  runnable_programs = program_paths E place m c ts,
                  runnable_scripts = scripts_built m c (script_dependencies E)\<rparr>))"

section \<open>The build links\<close>

text \<open>A target as \<open>create_ns3_module\<close> makes it.\<close>

definition module_target :: "target \<Rightarrow> bool" where
  "module_target t \<longleftrightarrow> t_is_module t \<and> t_program_deps t = None \<and> t_test_library_of t = None \<and>
     ''ns3pcfile'' \<notin> set (t_features t) \<and> ''pyext'' \<notin> set (t_features t) \<and> \<not> occurs ''pybindgen'' (t_name t)"

definition modules_declared :: "build_env \<Rightarrow> target list \<Rightarrow> bool" where
  "modules_declared E ts \<longleftrightarrow>
     set (enabled_modules E) \<union> set (enabled_contrib E) \<subseteq> set (known_modules E) \<union> set (known_contrib E) \<and>
     (\<forall>d \<in> set (known_modules E) \<union> set (known_contrib E). \<exists>t. get_tgen ts d = Some t \<and> module_target t)"

text \<open>The modules a target links against: those a program names, those a module uses.\<close>

definition links :: "target \<Rightarrow> string set" where
  "links t = (case t_program_deps t of Some deps \<Rightarrow> set deps | None \<Rightarrow> {d \<in> set (t_use t). is_ns3 d})"

lemma get_tgen_SomeD: "get_tgen ts d = Some t \<Longrightarrow> t \<in> set ts \<and> t_name t = d"
  by (auto simp: get_tgen_def find_Some_iff)

lemma header_mode_simps [simp]:
  "t_name (header_mode m c t) = t_name t" "t_is_module (header_mode m c t) = t_is_module t"
  "t_program_deps (header_mode m c t) = t_program_deps t" "t_use (header_mode m c t) = t_use t"
  by (simp_all add: header_mode_def)

lemma links_header [simp]: "links (header_mode m c t) = links t"
  by (simp add: links_def split: option.split)

lemma module_kept:
  assumes "module_target t" and "\<not> disabled m c (t_name t)"
  shows "\<not> excluded m c tests t"
  using assms by (simp add: module_target_def excluded_def)

text \<open>
  C33. The modules that are built are those asked for and all that these need, none twice and no other; and every
  program and module that stays in the build finds the libraries of all modules it needs, directly or through
  others, among what stays.
\<close>

theorem build_links_closed:
  assumes ok: "build_modules E place ts = Inr r" and some: "enabled_modules E \<noteq> [] \<or> enabled_contrib E \<noteq> []"
    and d: "distinct (enabled_modules E @ enabled_contrib E)" and decl: "modules_declared E ts"
    and uniq: "distinct (map t_name ts)"
  shows "set (built_modules r) \<union> set (built_contrib r) =
      needed (module_uses ts) (set (enabled_modules E) \<union> set (enabled_contrib E)) \<and>
    distinct (built_modules r @ built_contrib r) \<and>
    (\<forall>t \<in> set (built_targets r). t_is_module t \<or> t_program_deps t \<noteq> None \<longrightarrow>
      (\<forall>x \<in> needed (module_uses ts) (links t). \<exists>t' \<in> set (built_targets r). t_is_module t' \<and> t_name t' = x))"
proof -
  let ?U = "module_uses ts" and ?S = "set (enabled_modules E) \<union> set (enabled_contrib E)"
  have S: "?S \<subseteq> needed ?U ?S" by (auto simp: needed_def)
  from ok some obtain m c where mc: "enable_deps ?U (known_modules E) (known_contrib E) (enabled_modules E) (enabled_contrib E) = Inr (m, c)"
    and r: "built_modules r = m" "built_contrib r = c"
      "built_targets r = map (header_mode m c) (filter (\<lambda>t. \<not> excluded m c (enable_tests E) t) ts)"
    by (auto simp: build_modules_def split: sum.splits if_splits)
  from enable_deps_invariant [OF mc S] obtain u v where
    uv: "m = enabled_modules E @ u" "c = enabled_contrib E @ v" "set u \<subseteq> set (known_modules E)" "set v \<subseteq> set (known_contrib E)"
      "distinct (u @ v)" "(set u \<union> set v) \<inter> ?S = {}" and n: "set m \<union> set c \<subseteq> needed ?U ?S"
    and closed: "\<And>x d. x \<in> set m \<union> set c \<Longrightarrow> used_by ?U x d \<Longrightarrow> d \<in> set m \<union> set c" by blast
  have least: "needed ?U T \<subseteq> set m \<union> set c" if "T \<subseteq> set m \<union> set c" for T
    by (rule needed_least [OF that]) (rule closed)
  have eq: "set m \<union> set c = needed ?U ?S" using n least [of ?S] uv(1,2) by auto
  have known: "set m \<union> set c \<subseteq> set (known_modules E) \<union> set (known_contrib E)"
    using uv decl by (auto simp: modules_declared_def)
  have there: "\<exists>t' \<in> set (built_targets r). t_is_module t' \<and> t_name t' = x" if x: "x \<in> set m \<union> set c" for x
  proof -
    have "x \<in> set (known_modules E) \<union> set (known_contrib E)" using x known by blast
    with decl obtain t where t: "get_tgen ts x = Some t" "module_target t" unfolding modules_declared_def by blast
    from get_tgen_SomeD [OF t(1)] have m: "t \<in> set ts" "t_name t = x" by auto
    with x have "\<not> disabled m c (t_name t)" by (auto simp: disabled_def)
    from module_kept [OF t(2) this] m have "header_mode m c t \<in> set (built_targets r)" by (auto simp: r(3))
    moreover have "t_is_module (header_mode m c t)" using t(2) by (simp add: module_target_def)
    moreover have "t_name (header_mode m c t) = x" using m by simp
    ultimately show ?thesis by blast
  qed
  have linked: "links t \<subseteq> set m \<union> set c" if t: "t \<in> set ts" "\<not> excluded m c tests t" "t_is_module t \<or> t_program_deps t \<noteq> None" for t tests
  proof (cases "t_program_deps t")
    case None
    with t have "t_name t \<in> set m \<union> set c" by (auto simp: excluded_def disabled_def)
    moreover have "get_tgen ts (t_name t) = Some t"
      using t(1) uniq unfolding get_tgen_def
      by (induction ts) auto
    ultimately show ?thesis
      using None closed [of "t_name t"] by (auto simp: links_def used_by_def module_uses_def)
  next
    case (Some deps)
    with t(2) show ?thesis by (auto simp: excluded_def links_def program_built_def disabled_def list_all_iff)
  qed
  show ?thesis
  proof (intro conjI ballI impI)
    show "set (built_modules r) \<union> set (built_contrib r) = needed ?U ?S" using eq r by simp
    show "distinct (built_modules r @ built_contrib r)" using d uv unfolding r(1,2) uv(1,2) by (auto simp only: distinct_append set_append)
    fix t x assume t: "t \<in> set (built_targets r)" "t_is_module t \<or> t_program_deps t \<noteq> None" and x: "x \<in> needed ?U (links t)"
    from t(1) r(3) obtain t0 where "t = header_mode m c t0" "t0 \<in> set ts" "\<not> excluded m c (enable_tests E) t0" by auto
    with t(2) linked [of t0] have "links t \<subseteq> set m \<union> set c" by auto
    with least x there show "\<exists>t' \<in> set (built_targets r). t_is_module t' \<and> t_name t' = x" by blast
  qed
qed

definition plain_target :: "string \<Rightarrow> string list \<Rightarrow> target" where
  "plain_target n us = \<lparr>t_name = n, t_module = n, t_use = us, t_features = [], t_program_deps = None, t_is_module = True,
     t_test_library_of = None, t_mode = ''''\<rparr>"

definition sample_targets :: "target list" where
  "sample_targets =
     [plain_target ''ns3-core'' [], plain_target ''ns3-network'' [''ns3-core'', ''GSL''], plain_target ''ns3-lte'' [''ns3-network''],
      plain_target ''ns3-wifi'' [''ns3-network''],
      (plain_target ''first'' [])\<lparr>t_is_module := False, t_program_deps := Some [''ns3-wifi'']\<rparr>,
      (plain_target ''second'' [])\<lparr>t_is_module := False, t_program_deps := Some [''ns3-lte'', ''ns3-core'']\<rparr>]"

definition sample_env :: build_env where
  "sample_env = \<lparr>known_modules = [''ns3-core'', ''ns3-network'', ''ns3-wifi'', ''ns3-lte''], known_contrib = [],
     enabled_modules = [''ns3-lte''], enabled_contrib = [], enable_tests = False, test_libraries = [], script_dependencies = [],
     app_name = ''ns'', app_version = ''3.33'', build_suffix = ''-debug''\<rparr>"

lemma sample_build:
  "\<exists>r. build_modules sample_env (\<lambda>t. ''build'') sample_targets = Inr r \<and> built_modules r = [''ns3-lte'', ''ns3-network'', ''ns3-core''] \<and>
     built_contrib r = [] \<and> runnable_programs r = [''build/ns3.33-second-debug'']"
  by (simp add: build_modules_def sample_env_def sample_targets_def enable_deps.simps module_uses_def get_tgen_def plain_target_def
      is_ns3_def program_paths_def program_built_def disabled_def join_path_def object_name_def)

theorem build_links_closed_witness:
  "needed (module_uses sample_targets) {''ns3-lte''} = {''ns3-lte'', ''ns3-network'', ''ns3-core''}"
proof -
  from sample_build obtain r where r: "build_modules sample_env (\<lambda>t. ''build'') sample_targets = Inr r"
    "built_modules r = [''ns3-lte'', ''ns3-network'', ''ns3-core'']" "built_contrib r = []" by blast
  have "enabled_modules sample_env \<noteq> [] \<or> enabled_contrib sample_env \<noteq> []" by (simp add: sample_env_def)
  moreover have "distinct (enabled_modules sample_env @ enabled_contrib sample_env)" by (simp add: sample_env_def)
  moreover have "modules_declared sample_env sample_targets"
    by (simp add: modules_declared_def sample_env_def sample_targets_def get_tgen_def plain_target_def module_target_def)
  moreover have "distinct (map t_name sample_targets)" by (simp add: sample_targets_def plain_target_def)
  ultimately have "set (built_modules r) \<union> set (built_contrib r) =
      needed (module_uses sample_targets) (set (enabled_modules sample_env) \<union> set (enabled_contrib sample_env))"
    using build_links_closed [OF r(1)] by blast
  then show ?thesis by (auto simp: r sample_env_def)
qed

text \<open>The completion fails only at a module that is needed and does not exist.\<close>

lemma add_deps_total:
  assumes "\<And>d. d \<in> set ds \<Longrightarrow> is_ns3 d \<Longrightarrow> d \<in> set K \<union> set C"
  shows "\<exists>s'. add_deps K C ds s = Inr s'"
  using assms
proof (induction ds arbitrary: s)
  case Nil
  show ?case by (rule exI) (rule add_deps.simps)
next
  case (Cons d ds)
  obtain m c ch where s: "s = (m, c, ch)" by (cases s)
  have IH: "\<exists>s'. add_deps K C ds t = Inr s'" for t by (rule Cons.IH) (use Cons.prems in auto)
  have "is_ns3 d \<Longrightarrow> d \<in> set K \<or> d \<in> set C" using Cons.prems [of d] by simp
  with IH show ?case unfolding s by auto
qed

lemma dep_pass_total:
  assumes "\<And>x. x \<in> set xs \<Longrightarrow> uses x \<noteq> None"
    and "\<And>x d. x \<in> set xs \<Longrightarrow> used_by uses x d \<Longrightarrow> d \<in> set K \<union> set C"
  shows "\<exists>s'. dep_pass uses K C xs s = Inr s'"
  using assms
proof (induction xs arbitrary: s)
  case Nil
  show ?case by (rule exI) (rule dep_pass.simps)
next
  case (Cons x xs)
  from Cons.prems(1) [of x] obtain us where us: "uses x = Some us" by auto
  have "\<exists>t. add_deps K C us s = Inr t"
    by (rule add_deps_total) (use Cons.prems(2) [of x] us in \<open>auto simp: used_by_def\<close>)
  then obtain t where t: "add_deps K C us s = Inr t" by blast
  have "\<exists>s'. dep_pass uses K C xs t = Inr s'" by (rule Cons.IH) (use Cons.prems in auto)
  with us t show ?case by simp
qed

lemma enable_deps_total:
  assumes "set m \<union> set c \<subseteq> set K \<union> set C" and "\<And>x. x \<in> set K \<union> set C \<Longrightarrow> uses x \<noteq> None"
    and "\<And>x d. x \<in> set K \<union> set C \<Longrightarrow> used_by uses x d \<Longrightarrow> d \<in> set K \<union> set C"
  shows "\<exists>m' c'. enable_deps uses K C m c = Inr (m', c')"
  using assms
proof (induction uses K C m c rule: enable_deps.induct)
  case (1 uses K C m c)
  have "\<exists>s'. dep_pass uses K C (m @ c) (m, c, False) = Inr s'"
  proof (rule dep_pass_total)
    show "uses x \<noteq> None" if "x \<in> set (m @ c)" for x using that 1(2) 1(3) [of x] by auto
    show "d \<in> set K \<union> set C" if "x \<in> set (m @ c)" "used_by uses x d" for x d using that 1(2) 1(4) [of x d] by auto
  qed
  then obtain m1 c1 ch where p: "dep_pass uses K C (m @ c) (m, c, False) = Inr (m1, c1, ch)" by (metis prod_cases3)
  show ?case
  proof (cases ch)
    case False
    with p show ?thesis by (simp add: enable_deps.simps [of uses K C m c])
  next
    case True
    have "set m1 \<union> set c1 \<subseteq> set K \<union> set C"
      using conjunct1 [OF dep_pass_grows [OF p]] 1(2) by (auto simp: grows_def)
    from 1(1) [OF p refl refl True this 1(3,4)] p True show ?thesis by (simp add: enable_deps.simps [of uses K C m c])
  qed
qed

end
