(* ===== verification/PortTests.thy ===== *)
theory PortTests
  imports PyText
begin

text \<open>
  \<open>utils/tests\<close>: the suites that try the options of waf (\<open>test-waf.py\<close>) and of \<open>test.py\<close> (\<open>test-test.py\<close>) on
  top of \<open>TestBase.py\<close>. The interpreter is \<open>python\<close> (\<open>sys.executable\<close>); what a command returns, and the directory, are
  parameters. Parsing of the options and the text printed are left out.
\<close>

section \<open>Running the commands\<close>

record port_options =
  list_cmds :: bool
  custcmd :: "string option"

record port_result =
  ran :: "string list"
  passed :: nat
  failed_cases :: "string list"
  final_return :: nat

text \<open>\<open>cmd.replace(sys.executable, '')\<close>.\<close>

fun remove_text :: "string \<Rightarrow> string \<Rightarrow> nat \<Rightarrow> string" where
  "remove_text w [] k = []"
| "remove_text w (c # s) (Suc k) = remove_text w s k"
| "remove_text w (c # s) 0 =
     (if w \<noteq> [] \<and> take (length w) (c # s) = w then remove_text w s (length w - 1) else c # remove_text w s 0)"

definition case_string :: "string \<Rightarrow> string \<Rightarrow> string" where
  "case_string python cmd = remove_text python cmd 0"

definition run_cmd :: "string \<Rightarrow> (string \<Rightarrow> int) \<Rightarrow> string \<Rightarrow> port_result \<Rightarrow> port_result" where
  "run_cmd python call cmd r =
     (let ret = call cmd; r = r\<lparr>ran := ran r @ [cmd]\<rparr> in
      if ret = 0 then r\<lparr>passed := passed r + 1\<rparr>
      else r\<lparr>final_return := 1, failed_cases := failed_cases r @ [case_string python cmd]\<rparr>)"

text \<open>With \<open>-c\<close> the commands are listed and nothing is returned, which \<open>sys.exit\<close> takes for success.\<close>

definition runtests :: "string \<Rightarrow> (string \<Rightarrow> int) \<Rightarrow> port_options \<Rightarrow> string list \<Rightarrow> port_result option" where
  "runtests python call opts cmds =
     (if list_cmds opts then None
      else Some (fold (run_cmd python call) cmds \<lparr>ran = [], passed = 0, failed_cases = [], final_return = 0\<rparr>))"

definition port_exit_status :: "port_result option \<Rightarrow> nat" where
  "port_exit_status r = (case r of None \<Rightarrow> 0 | Some p \<Rightarrow> final_return p)"

text \<open>\<open>set_workdir\<close>: the directory to change to, or the exit.\<close>

definition set_workdir :: "string list \<Rightarrow> string \<Rightarrow> string result" where
  "set_workdir dir_files here =
     (if ''VERSION'' \<notin> set dir_files \<and> ''waf'' \<notin> set dir_files then
        (if basename here = ''tests'' \<and> basename (normpath (join_path here ''..'')) = ''utils''
         then Inr (normpath (join_path here ''../../''))
         else Inl SystemExit)
      else Inr here)"

section \<open>The suite for waf\<close>

definition wrap_cmds :: "string option \<Rightarrow> string option \<Rightarrow> string list \<Rightarrow> string list" where
  "wrap_cmds pre post main_cmd_list =
     (let p = (case pre of None \<Rightarrow> '''' | Some t \<Rightarrow> if t = '''' then '''' else t @ '' && '');
          q = (case post of None \<Rightarrow> '''' | Some t \<Rightarrow> if t = '''' then '''' else '' && '' @ t)
      in map (\<lambda>main_cmd. p @ main_cmd @ q) main_cmd_list)"

definition config_test_cases :: "string list" where
  "config_test_cases = [''--enable-gcov'', ''--enable-sudo'', ''--enable-sudo'', ''--enable-tests'', ''--disable-tests'',
     ''--enable-examples'', ''--disable-examples'', ''--doxygen-no-build'', ''--enable-static'', ''--enable-mpi'', ''--enable-rpath'',
     ''--enable-modules=build/utils/test-runner.cc.1.o'', ''--boost-static'', ''--boost-mt'', ''--boost-linkage_autodetect'',
     ''--boost-python=33'', ''--disable-gtk'', ''--int64x64=cairo'', ''--disable-pthread'', ''--force-planetlab'', ''--nopyc'',
     ''--nopyo'', ''--disable-python'', ''--apiscan=all'', ''--with-python=/usr/bin/python2.7'', ''-o test_out && rm -rf test_out'',
     ''--out=test_out && rm -rf test_out'', ''-t test_top && rm -rf test_top'', ''--top=test_top && rm -rf test_top'', ''--download'',
     ''--check-c-compiler=gc'', ''--check-cxx-compiler=g++'']"

definition basic_test_cases :: "string list" where
  "basic_test_cases = [''--version'', ''-h'', ''--help'']"

definition build_test_cases :: "string list" where
  "build_test_cases = [''-j10'', ''--jobs=10'', ''-d optimized'', ''-d debug'', ''-d release'', ''--build-profile optimized'',
     ''--build-profile debug'', ''--build-profile release'', ''-p'', ''--progress'']"

definition step_test_cases :: "string list" where
  "step_test_cases = [''--files='' @ [dquote] @ ''*/main.c,*/test/main.o'' @ [dquote]]"

definition install_test_cases :: "string list" where
  "install_test_cases = [''-f'', ''--force'', ''--prefix=./test-prefix && rm -rf ./test-prefix'', ''--exec-prefix=.'',
     ''--bindir=./test-prefix/bin --sbindir=./test-prefix/sbin --libexecdir=./test-prefix/libexec --sysconfdir=./test-prefix/etc --sharedstatedir=./test-prefix/com --localstatedir=./test-prefix/var --libdir=./test-prefix/lib --includedir=./test-prefix/include --oldincludedir=./test-prefix/usr/include --datarootdir=./test-prefix/share --datadir=./test-prefix/share_root --infodir=./test-prefix/info --localedir=./test-prefix/locale --mandir=./test-prefix/man --docdir=./test-prefix/doc/package --htmldir=./test-prefix/doc --dvidir=./test-prefix/doc --pdfdir=./test-prefix/doc --psdir=./test-prefix/doc && rm -rf ./test-prefix'']"

definition common_test_cases :: "string list" where
  "common_test_cases = ['''', ''-k'', ''--keep'', ''-v'', ''--verbose'', ''--nocache'', ''--zones=task_gen'', ''--zones=deps'',
     ''--zones=tasks'', ''--no-task-lines'']"

definition test_case_mappings :: "string \<rightharpoonup> string list" where
  "test_case_mappings = [''basic'' \<mapsto> basic_test_cases, ''configure'' \<mapsto> config_test_cases, ''build'' \<mapsto> build_test_cases,
     ''step'' \<mapsto> step_test_cases, ''install'' \<mapsto> install_test_cases]"

definition waf_string :: "string \<Rightarrow> string" where
  "waf_string python = python @ '' waf''"

definition option_cmds :: "string \<Rightarrow> string \<Rightarrow> string list \<Rightarrow> string list" where
  "option_cmds python cmd options = map (\<lambda>option. waf_string python @ '' '' @ cmd @ '' '' @ option) options"

text \<open>The commands for one command of waf, in the order of the branches.\<close>

definition waf_cmd_list :: "string \<Rightarrow> string \<Rightarrow> string list" where
  "waf_cmd_list python cmd =
     (let w = waf_string python;
          base = (if cmd = ''basic'' then [] else option_cmds python cmd common_test_cases) @
                 (case test_case_mappings cmd of None \<Rightarrow> [] | Some options \<Rightarrow> option_cmds python cmd options);
          base = (if cmd = ''basic'' then base @ [w @ '' configure && '' @ w @ '' build && '' @ w @ '' --run scratch/myfirst'',
                                                  w @ '' configure && '' @ w @ '' build && '' @ w @ '' --pyrun scratch/myfirst.py'']
                  else base)
      in if cmd = ''build'' then
           wrap_cmds (Some (w @ '' configure'')) (Some (w @ '' clean'')) base @
             [w @ '' configure --enable-gcov && '' @ w @ '' build --lcov-report && '' @ w @ '' clean'']
         else if cmd = ''configure'' then wrap_cmds None (Some (w @ '' distclean'')) base
         else if cmd = ''distcheck'' then wrap_cmds (Some (w @ '' dist'')) (Some ''rm -rf ns-3*.tar.bz2'') base
         else if cmd \<in> {''docs'', ''list'', ''shell'', ''step''} then wrap_cmds (Some (w @ '' configure'')) (Some (w @ '' distclean'')) base
         else if cmd = ''install'' then wrap_cmds (Some (w @ '' configure'')) (Some (w @ '' uninstall'')) base
         else if cmd = ''uninstall'' then wrap_cmds (Some (w @ '' install'')) None base
         else base)"

definition default_cmds :: "string list" where
  "default_cmds = [''basic'', ''build'', ''configure'', ''step'', ''clean'', ''dist'', ''list'']"

definition test_waf_main :: "string \<Rightarrow> (string \<Rightarrow> int) \<Rightarrow> port_options \<Rightarrow> port_result option" where
  "test_waf_main python call opts =
     (let cmds = (case custcmd opts of None \<Rightarrow> default_cmds | Some t \<Rightarrow> if t = '''' then default_cmds else split_on CHR '','' t)
      in runtests python call opts (concat (map (waf_cmd_list python) cmds)))"

section \<open>The suite for test.py\<close>

text \<open>Two adjacent literals of Python are one: a comma is missing after \<open>--fullness=EXTENSIVE\<close>.\<close>

definition test_test_cases :: "string list" where
  "test_test_cases = ['''', ''-h'', ''--help'', ''-b build/'', ''--buildpath=build/'', ''-c performance'', ''--constrain=performance'',
     ''-d'', ''--duration'', ''-e socket-options-ipv6'', ''--example=socket-options-ipv6'', ''-u'', ''--update-data'',
     ''-f EXTENSIVE --fullness=EXTENSIVE'' @ ''-g'', ''--grind'', ''-l'', ''--list'', ''-m'', ''--multiple'', ''-n'', ''--nowaf'',
     ''-p first'', ''--pyexample=first'', ''-r'', ''--retain'', ''-s ns3-tcp-interoperability'', ''--suite=ns3-tcp-interoperability'',
     ''-t t_opt.txt'', ''--text=t_opt.txt && rm -rf t_opt.txt'', ''-v'', ''--verbose'', ''-w t_opt.html && rm -rf t_opt.html'',
     ''--web=t_opt.html && rm -rf t_opt.html'', ''--html=t_opt.html && rm -rf t_opt.html'', ''-x t_opt.xml && rm -rf t_opt.xml'',
     ''--xml=t_opt.xml && rm -rf t_opt.xml'']"

definition test_test_main :: "string \<Rightarrow> (string \<Rightarrow> int) \<Rightarrow> port_options \<Rightarrow> port_result option" where
  "test_test_main python call opts =
     runtests python call opts
       (map (\<lambda>option. python @ '' waf configure --enable-tests --enable-examples'' @ '' && '' @ python @ '' test.py '' @ option @
          '' && '' @ python @ '' waf clean'') test_test_cases)"

section \<open>Properties\<close>

lemma run_fold:
  "fold (run_cmd python call) cmds r =
     r\<lparr>ran := ran r @ cmds,
       passed := passed r + length (filter (\<lambda>c. call c = 0) cmds),
       failed_cases := failed_cases r @ map (case_string python) (filter (\<lambda>c. call c \<noteq> 0) cmds),
       final_return := (if \<exists>c \<in> set cmds. call c \<noteq> 0 then 1 else final_return r)\<rparr>"
  by (induction cmds arbitrary: r) (simp_all add: run_cmd_def Let_def)

text \<open>Every command is run once, in order, and the suite succeeds exactly when they all do.\<close>

theorem runtests_exact:
  assumes "\<not> list_cmds opts"
  shows "\<exists>r. runtests python call opts cmds = Some r \<and> ran r = cmds \<and>
    passed r + length (failed_cases r) = length cmds \<and>
    failed_cases r = map (case_string python) (filter (\<lambda>c. call c \<noteq> 0) cmds) \<and>
    (port_exit_status (Some r) = 0 \<longleftrightarrow> (\<forall>c \<in> set cmds. call c = 0))"
  using assms sum_length_filter_compl [of "\<lambda>c. call c = 0" cmds]
  by (auto simp: runtests_def run_fold port_exit_status_def)

text \<open>Each command of waf is tried with every common option.\<close>

lemma wrap_cmds_length [simp]: "length (wrap_cmds pre post cs) = length cs"
  by (simp add: wrap_cmds_def Let_def)

lemma waf_suite_sizes:
  "length (waf_cmd_list python ''build'') = 21" "length (waf_cmd_list python ''configure'') = 42"
  "length (waf_cmd_list python ''basic'') = 5" "length (waf_cmd_list python ''step'') = 11"
  "length (waf_cmd_list python ''clean'') = 10"
  by (simp_all add: waf_cmd_list_def option_cmds_def common_test_cases_def test_case_mappings_def build_test_cases_def
      config_test_cases_def basic_test_cases_def step_test_cases_def Let_def)

text \<open>The option \<open>-g\<close> is never tried on its own, and \<open>--fullness\<close> is tried with a value that \<open>test.py\<close> does not know.\<close>

theorem missing_comma:
  "''-g'' \<notin> set test_test_cases" "''--fullness=EXTENSIVE'' \<notin> set test_test_cases"
  "''-f EXTENSIVE --fullness=EXTENSIVE-g'' \<in> set test_test_cases"
  by (simp_all add: test_test_cases_def)

text \<open>The working directory may be the top directory or \<open>utils/tests\<close>, from where the suites move to the top.\<close>

lemma workdir_from_tests: "set_workdir [''TestBase.py''] ''/ns3/utils/tests'' = Inr ''/ns3''"
  by (simp add: set_workdir_def basename_def normpath_def initial_slashes_def norm_component_def join_path_def Let_def)

end
