(* ===== verification/VizNodes.thy ===== *)
theory VizNodes
  imports VizScene
begin

text \<open>
  What the user does to the nodes of the visualizer (\<open>core.py\<close>): selecting, highlighting, sizing, colouring and dragging
  them, the choice whose transmissions are recorded, and the information windows, which every update of the view
  refreshes. Where the pointer is, and what a window raises, are parameters; menus and widgets are left out.
\<close>

section \<open>Nodes and their appearance\<close>

datatype stroke = Yellow | Black

record appearance =
  radius :: double
  fill_color :: int
  line_width :: double
  stroke_color :: stroke

record node_ui =
  n_selected :: bool
  n_highlighted :: bool
  n_color :: int
  n_size :: double
  n_svg :: bool
  shown :: appearance

definition transform_distance_simulation_to_canvas :: "double \<Rightarrow> double" where
  "transform_distance_simulation_to_canvas d = py_mul d PIXELS_PER_METER"

definition transform_distance_canvas_to_simulation :: "double \<Rightarrow> double" where
  "transform_distance_canvas_to_simulation d = fl (d / PIXELS_PER_METER)"

definition appearance_of :: "node_ui \<Rightarrow> appearance" where
  "appearance_of n =
     (let sz = transform_distance_simulation_to_canvas (n_size n);
          alpha = (if n_svg n then 128 else 255)
      in \<lparr>radius = sz,
          fill_color = or (and (n_color n) 0xffffff00) alpha,
          line_width = (if n_selected n then py_mul sz (fl (3 / 10)) else py_mul sz (fl (15 / 100))),
          stroke_color = (if n_highlighted n then Yellow else Black)\<rparr>)"

definition update_appearance :: "node_ui \<Rightarrow> node_ui" where
  "update_appearance n = n\<lparr>shown := appearance_of n\<rparr>"

definition DEFAULT_NODE_SIZE :: double where
  "DEFAULT_NODE_SIZE = 1"

definition new_node_ui :: node_ui where
  "new_node_ui = update_appearance \<lparr>n_selected = False, n_highlighted = False, n_color = 0x808080ff, n_size = DEFAULT_NODE_SIZE,
     n_svg = False, shown = \<lparr>radius = 0, fill_color = 0, line_width = 0, stroke_color = Black\<rparr>\<rparr>"

definition set_selected :: "bool \<Rightarrow> node_ui \<Rightarrow> node_ui" where
  "set_selected v n = update_appearance (n\<lparr>n_selected := v\<rparr>)"

definition set_highlighted :: "bool \<Rightarrow> node_ui \<Rightarrow> node_ui" where
  "set_highlighted v n = update_appearance (n\<lparr>n_highlighted := v\<rparr>)"

definition set_node_size :: "double \<Rightarrow> node_ui \<Rightarrow> node_ui" where
  "set_node_size v n = update_appearance (n\<lparr>n_size := v\<rparr>)"

text \<open>A colour is a number, or what \<open>Gdk.color_parse\<close> makes of a text: three numbers of 16 bits.\<close>

datatype color_arg = Number int | Parsed int int int

definition color_value :: "color_arg \<Rightarrow> int" where
  "color_value c =
     (case c of
        Number k \<Rightarrow> k
      | Parsed r g b \<Rightarrow> or (or (or (push_bit 24 (drop_bit 8 r)) (push_bit 16 (drop_bit 8 g))) (push_bit 8 (drop_bit 8 b))) 0xff)"

definition set_color :: "color_arg \<Rightarrow> node_ui \<Rightarrow> node_ui" where
  "set_color c n = update_appearance (n\<lparr>n_color := color_value c\<rparr>)"

text \<open>An icon needs a width or a height.\<close>

definition set_svg_icon :: "double option \<Rightarrow> double option \<Rightarrow> node_ui \<Rightarrow> node_ui result" where
  "set_svg_icon width height n =
     (if width = None \<and> height = None then Inl ValueError else Inr (update_appearance (n\<lparr>n_svg := True\<rparr>)))"

text \<open>\<open>set_label\<close> asserts the type \<open>basestring\<close>, a name that Python 3 does not have.\<close>

definition set_label :: "string \<Rightarrow> node_ui \<Rightarrow> node_ui result" where
  "set_label t n = Inl (NameError ''basestring'')"

section \<open>Selection and nodes of interest\<close>

datatype transmissions_mode = Mode_ALL | Mode_NONE | Mode_SELECTED

record drag =
  canvas_x0 :: double
  canvas_y0 :: double
  sim_x0 :: double
  sim_y0 :: double
  motion_signal :: nat

record viz_ui =
  ui_nodes :: "nat \<rightharpoonup> node_ui"
  selected_node :: "nat option"
  show_mode :: transmissions_mode
  interest :: "nat list"
  node_drag_state :: "drag option"
  motion_handlers :: "(nat \<times> nat) list"
  next_signal :: nat
  information_windows :: "nat list"
  ui_topology :: topology
  ui_scene :: scene

text \<open>
  A handler of the motions over a node is \<open>(number, node)\<close>; \<open>connect\<close> gives every handler a number of its own, and
  \<open>disconnect\<close> on an item that has no handler of the number only prints a warning.
  The nodes whose transmissions the simulator records.
\<close>

fun interest_of :: "transmissions_mode \<Rightarrow> nat \<Rightarrow> nat option \<Rightarrow> nat list" where
  "interest_of Mode_ALL n sel = [0..<n]"
| "interest_of Mode_NONE n sel = []"
| "interest_of Mode_SELECTED n None = []"
| "interest_of Mode_SELECTED n (Some i) = [i]"

definition set_show_transmissions_mode :: "transmissions_mode \<Rightarrow> viz_ui \<Rightarrow> viz_ui" where
  "set_show_transmissions_mode mode s =
     s\<lparr>show_mode := mode,
       interest := interest_of mode (n_nodes (ui_topology s)) (selected_node s)\<rparr>"

definition on_node :: "(node_ui \<Rightarrow> node_ui) \<Rightarrow> nat \<Rightarrow> viz_ui \<Rightarrow> viz_ui" where
  "on_node f i s = s\<lparr>ui_nodes := (ui_nodes s)(i := map_option f (ui_nodes s i))\<rparr>"

datatype node_arg = NsNode nat | Index int | ViewNode nat | NoNode | OtherArg

definition node_of_arg :: "viz_ui \<Rightarrow> node_arg \<Rightarrow> nat option result" where
  "node_of_arg s a =
     (case a of
        NsNode i \<Rightarrow> if ui_nodes s i = None then Inl KeyError else Inr (Some i)
      | Index k \<Rightarrow> if k < 0 \<or> ui_nodes s (nat k) = None then Inl KeyError else Inr (Some (nat k))
      | ViewNode i \<Rightarrow> Inr (Some i)
      | NoNode \<Rightarrow> Inr None
      | OtherArg \<Rightarrow> Inl TypeError)"

definition unselect :: "viz_ui \<Rightarrow> viz_ui" where
  "unselect s = (case selected_node s of None \<Rightarrow> s | Some i \<Rightarrow> on_node (set_selected False) i s)"

definition select_node :: "node_arg \<Rightarrow> viz_ui \<Rightarrow> viz_ui result" where
  "select_node a s =
     ebind (node_of_arg s a) (\<lambda>node.
       if node = selected_node s then Inr s
       else let s = (unselect s)\<lparr>selected_node := node\<rparr>;
                s = (case node of None \<Rightarrow> s | Some i \<Rightarrow> on_node (set_selected True) i s)
            in Inr (if show_mode s = Mode_SELECTED
                    then s\<lparr>interest := interest_of Mode_SELECTED (n_nodes (ui_topology s)) node\<rparr> else s))"

section \<open>Dragging\<close>

text \<open>
  The position of a node in the simulation is the start of the drag moved by the way of the pointer; the view of the
  node follows at once.
\<close>

definition begin_node_drag :: "nat \<Rightarrow> point \<Rightarrow> viz_ui \<Rightarrow> viz_ui" where
  "begin_node_drag i pointer s =
     (case mobility (ui_topology s) i of
        None \<Rightarrow> s
      | Some pos \<Rightarrow>
          if node_drag_state s \<noteq> None then s
          else s\<lparr>node_drag_state := Some \<lparr>canvas_x0 = fst pointer, canvas_y0 = snd pointer, sim_x0 = fst pos, sim_y0 = snd pos,
                   motion_signal = next_signal s\<rparr>,
                 motion_handlers := motion_handlers s @ [(next_signal s, i)], next_signal := next_signal s + 1\<rparr>)"

definition dragged_to :: "drag \<Rightarrow> point \<Rightarrow> point" where
  "dragged_to d pointer =
     (py_add (sim_x0 d) (transform_distance_canvas_to_simulation (py_sub (fst pointer) (canvas_x0 d))),
      py_add (sim_y0 d) (transform_distance_canvas_to_simulation (py_sub (snd pointer) (canvas_y0 d))))"

definition node_drag_motion :: "nat \<Rightarrow> point \<Rightarrow> viz_ui \<Rightarrow> bool \<times> viz_ui" where
  "node_drag_motion i pointer s =
     (case mobility (ui_topology s) i of
        None \<Rightarrow> (False, s)
      | Some _ \<Rightarrow>
          (case node_drag_state s of
             None \<Rightarrow> (False, s)
           | Some d \<Rightarrow>
               let p = dragged_to d pointer in
               (True, s\<lparr>ui_topology := (ui_topology s)\<lparr>mobility := (mobility (ui_topology s))(i \<mapsto> p)\<rparr>,
                        ui_scene := set_position (Node_view i) (transform_point_simulation_to_canvas p) (ui_scene s)\<rparr>)))"

definition end_node_drag :: "nat \<Rightarrow> viz_ui \<Rightarrow> viz_ui" where
  "end_node_drag i s =
     (case node_drag_state s of
        None \<Rightarrow> s
      | Some d \<Rightarrow> s\<lparr>motion_handlers := remove1 (motion_signal d, i) (motion_handlers s), node_drag_state := None\<rparr>)"

text \<open>The buttons of the pointer on a node and on the background.\<close>

definition on_node_button_press :: "nat \<Rightarrow> point \<Rightarrow> nat \<Rightarrow> viz_ui \<Rightarrow> viz_ui result" where
  "on_node_button_press button pointer i s =
     (if button = 1 then select_node (ViewNode i) s
      else if button = 2 then Inr (begin_node_drag i pointer s)
      else Inr s)"

definition on_node_button_release :: "nat \<Rightarrow> nat \<Rightarrow> viz_ui \<Rightarrow> viz_ui" where
  "on_node_button_release button i s = (if button = 2 then end_node_drag i s else s)"

definition on_root_button_press :: "nat \<Rightarrow> viz_ui \<Rightarrow> viz_ui result" where
  "on_root_button_press button s = (if button = 1 then select_node NoNode s else Inr s)"

section \<open>Information windows\<close>

text \<open>\<open>upd w\<close> is what the update of a window raises, if anything.\<close>

definition add_information_window :: "(nat \<Rightarrow> py_error option) \<Rightarrow> nat \<Rightarrow> viz_ui \<Rightarrow> py_error option \<times> viz_ui" where
  "add_information_window upd w s = (upd w, s\<lparr>information_windows := information_windows s @ [w]\<rparr>)"

definition remove_information_window :: "nat \<Rightarrow> viz_ui \<Rightarrow> viz_ui result" where
  "remove_information_window w s =
     (if w \<in> set (information_windows s) then Inr (s\<lparr>information_windows := remove1 w (information_windows s)\<rparr>) else Inl ValueError)"

datatype refresh = Positions | Window nat | Transmissions | Drops | Signal

fun refresh_windows :: "(nat \<Rightarrow> py_error option) \<Rightarrow> nat list \<Rightarrow> py_error option \<times> refresh list" where
  "refresh_windows upd [] = (None, [])"
| "refresh_windows upd (w # ws) =
     (case upd w of
        Some e \<Rightarrow> (Some e, [Window w])
      | None \<Rightarrow> (case refresh_windows upd ws of (e, done) \<Rightarrow> (e, Window w # done)))"

text \<open>The steps of \<open>update_view\<close> that are begun, and the error that ends it.\<close>

definition update_view :: "(nat \<Rightarrow> py_error option) \<Rightarrow> viz_ui \<Rightarrow> py_error option \<times> refresh list \<times> viz_ui" where
  "update_view upd s =
     (let s' = s\<lparr>ui_scene := update_node_positions (ui_topology s) (ui_scene s)\<rparr> in
      case refresh_windows upd (information_windows s) of
        (Some e, ws) \<Rightarrow> (Some e, Positions # ws, s')
      | (None, ws) \<Rightarrow> (None, Positions # ws @ [Transmissions, Drops, Signal], s'))"

section \<open>What holds\<close>

definition drawn_right :: "viz_ui \<Rightarrow> bool" where
  "drawn_right s \<longleftrightarrow> (\<forall>i n. ui_nodes s i = Some n \<longrightarrow> shown n = appearance_of n)"

definition selection_right :: "viz_ui \<Rightarrow> bool" where
  "selection_right s \<longleftrightarrow> (\<forall>i n. ui_nodes s i = Some n \<longrightarrow> (n_selected n \<longleftrightarrow> selected_node s = Some i)) \<and>
     (\<forall>i. selected_node s = Some i \<longrightarrow> ui_nodes s i \<noteq> None)"

definition interest_right :: "viz_ui \<Rightarrow> bool" where
  "interest_right s \<longleftrightarrow> interest s = interest_of (show_mode s) (n_nodes (ui_topology s)) (selected_node s)"

text \<open>
  The handlers: their numbers are distinct and were all given; of a drag under way there is a handler; and a handler left
  from an earlier drag has another number.
\<close>

definition drag_right :: "viz_ui \<Rightarrow> bool" where
  "drag_right s \<longleftrightarrow> distinct (map fst (motion_handlers s)) \<and> (\<forall>h \<in> set (motion_handlers s). fst h < next_signal s) \<and>
     (\<forall>d. node_drag_state s = Some d \<longrightarrow> motion_signal d \<in> fst ` set (motion_handlers s))"

text \<open>No handler but that of the drag under way.\<close>

definition handlers_clean :: "viz_ui \<Rightarrow> bool" where
  "handlers_clean s \<longleftrightarrow>
     (node_drag_state s = None \<longrightarrow> motion_handlers s = []) \<and>
     (\<forall>d. node_drag_state s = Some d \<longrightarrow> (\<exists>i. motion_handlers s = [(motion_signal d, i)]))"

text \<open>The button is released over the node on which it was pressed.\<close>

definition released_there :: "nat \<Rightarrow> viz_ui \<Rightarrow> bool" where
  "released_there i s \<longleftrightarrow> (\<forall>d. node_drag_state s = Some d \<longrightarrow> (motion_signal d, i) \<in> set (motion_handlers s))"

text \<open>
  The steps of the user and of the simulator, which moves nodes. The views of nodes are those of the scan; events reach
  existing views. A button may be released over any node; with \<open>anywhere\<close> unset, the runs are those in which a drag ends over its own node.
\<close>

inductive ui_step :: "bool \<Rightarrow> viz_ui \<Rightarrow> viz_ui \<Rightarrow> bool" for anywhere where
  press: "ui_nodes s i \<noteq> None \<Longrightarrow> on_node_button_press b p i s = Inr s' \<Longrightarrow> ui_step anywhere s s'"
| press_root: "on_root_button_press b s = Inr s' \<Longrightarrow> ui_step anywhere s s'"
| motion: "(h, i) \<in> set (motion_handlers s) \<Longrightarrow> ui_step anywhere s (snd (node_drag_motion i p s))"
| release: "ui_nodes s i \<noteq> None \<Longrightarrow> anywhere \<or> released_there i s \<Longrightarrow> ui_step anywhere s (on_node_button_release b i s)"
| choose_mode: "ui_step anywhere s (set_show_transmissions_mode m s)"
| programmed: "(\<And>i. a \<noteq> ViewNode i) \<Longrightarrow> select_node a s = Inr s' \<Longrightarrow> ui_step anywhere s s'"
| enter: "ui_step anywhere s (on_node (set_highlighted v) i s)"
| resize: "ui_step anywhere s (on_node (set_node_size v) i s)"
| recolor: "ui_step anywhere s (on_node (set_color c) i s)"
| add_window: "ui_step anywhere s (snd (add_information_window upd w s))"
| close_window: "remove_information_window w s = Inr s' \<Longrightarrow> ui_step anywhere s s'"
| refresh_view: "ui_step anywhere s (snd (snd (update_view upd s)))"
| simulated: "ui_step anywhere s (s\<lparr>ui_topology := (ui_topology s)\<lparr>mobility := m\<rparr>\<rparr>)"

definition new_ui :: "topology \<Rightarrow> scene \<Rightarrow> viz_ui" where
  "new_ui T S = set_show_transmissions_mode Mode_ALL
     \<lparr>ui_nodes = (\<lambda>i. if i < n_nodes T then Some new_node_ui else None), selected_node = None, show_mode = Mode_NONE, interest = [],
      node_drag_state = None, motion_handlers = [], next_signal = 1, information_windows = [], ui_topology = T, ui_scene = S\<rparr>"

inductive ui_reach :: "bool \<Rightarrow> topology \<Rightarrow> scene \<Rightarrow> viz_ui \<Rightarrow> bool" for anywhere T S where
  new: "ui_reach anywhere T S (new_ui T S)"
| step: "ui_reach anywhere T S s \<Longrightarrow> ui_step anywhere s s' \<Longrightarrow> ui_reach anywhere T S s'"

definition ui_ok :: "bool \<Rightarrow> viz_ui \<Rightarrow> bool" where
  "ui_ok anywhere s \<longleftrightarrow> drawn_right s \<and> selection_right s \<and> interest_right s \<and> drag_right s \<and> (\<not> anywhere \<longrightarrow> handlers_clean s)"

lemmas ui_defs = ui_ok_def drawn_right_def selection_right_def interest_right_def drag_right_def handlers_clean_def

lemma update_appearance_shown [simp]: "shown (update_appearance n) = appearance_of (update_appearance n)"
  by (simp add: update_appearance_def appearance_of_def Let_def)

lemma update_appearance_fields [simp]:
  "n_selected (update_appearance n) = n_selected n" "n_highlighted (update_appearance n) = n_highlighted n"
  "n_color (update_appearance n) = n_color n" "n_size (update_appearance n) = n_size n" "n_svg (update_appearance n) = n_svg n"
  by (simp_all add: update_appearance_def)

lemma setters_shown [simp]:
  "shown (set_selected v n) = appearance_of (set_selected v n)" "shown (set_highlighted v n) = appearance_of (set_highlighted v n)"
  "shown (set_node_size z n) = appearance_of (set_node_size z n)" "shown (set_color c n) = appearance_of (set_color c n)"
  by (simp_all add: set_selected_def set_highlighted_def set_node_size_def set_color_def)

lemma setters_selected [simp]:
  "n_selected (set_selected v n) = v" "n_selected (set_highlighted v n) = n_selected n"
  "n_selected (set_node_size z n) = n_selected n" "n_selected (set_color c n) = n_selected n"
  by (simp_all add: set_selected_def set_highlighted_def set_node_size_def set_color_def)

lemma on_node_simps [simp]:
  "selected_node (on_node f i s) = selected_node s" "show_mode (on_node f i s) = show_mode s"
  "interest (on_node f i s) = interest s" "node_drag_state (on_node f i s) = node_drag_state s"
  "motion_handlers (on_node f i s) = motion_handlers s" "next_signal (on_node f i s) = next_signal s"
  "ui_topology (on_node f i s) = ui_topology s"
  "ui_nodes (on_node f i s) j = (if j = i then map_option f (ui_nodes s i) else ui_nodes s j)"
  by (simp_all add: on_node_def)

lemma ui_ok_on_node:
  assumes "ui_ok any s" and "\<And>n. shown (f n) = appearance_of (f n)" and "\<And>n. n_selected (f n) = n_selected n"
  shows "ui_ok any (on_node f i s)"
  using assms by (auto simp: ui_defs)

lemma ui_ok_select:
  assumes ok: "ui_ok any s" and sel: "select_node a s = Inr s'" and here: "\<And>i. a = ViewNode i \<Longrightarrow> ui_nodes s i \<noteq> None"
  shows "ui_ok any s'"
proof -
  from sel obtain node where node: "node_of_arg s a = Inr node" by (auto simp: select_node_def ebind_Inr_iff)
  have exists: "ui_nodes s i \<noteq> None" if "node = Some i" for i
    using node here that by (auto simp: node_of_arg_def split: node_arg.splits if_splits)
  show ?thesis
  proof (cases "node = selected_node s")
    case True
    with sel node ok show ?thesis by (simp add: select_node_def)
  next
    case False
    define s1 where "s1 = (unselect s)\<lparr>selected_node := node\<rparr>"
    define s2 where "s2 = (case node of None \<Rightarrow> s1 | Some i \<Rightarrow> on_node (set_selected True) i s1)"
    have s': "s' = (if show_mode s2 = Mode_SELECTED then s2\<lparr>interest := interest_of Mode_SELECTED (n_nodes (ui_topology s2)) node\<rparr> else s2)"
      using sel node False unfolding select_node_def node ebind_simps Let_def s1_def [symmetric] s2_def [symmetric]
      by (simp only: if_False sum.inject)
    have f1: "show_mode s1 = show_mode s" "interest s1 = interest s" "node_drag_state s1 = node_drag_state s"
      "motion_handlers s1 = motion_handlers s" "next_signal s1 = next_signal s" "ui_topology s1 = ui_topology s" "selected_node s1 = node"
      by (simp_all add: s1_def unselect_def split: option.split)
    have n1: "ui_nodes s1 i = Some n \<Longrightarrow> \<not> n_selected n \<and> shown n = appearance_of n" for i n
      using ok by (cases "selected_node s") (auto simp: s1_def unselect_def ui_defs split: if_splits)
    have d1: "ui_nodes s1 i = None \<longleftrightarrow> ui_nodes s i = None" for i
      by (simp add: s1_def unselect_def split: option.split)
    have f2: "show_mode s2 = show_mode s" "interest s2 = interest s" "node_drag_state s2 = node_drag_state s"
      "motion_handlers s2 = motion_handlers s" "next_signal s2 = next_signal s" "ui_topology s2 = ui_topology s" "selected_node s2 = node"
      using f1 by (simp_all add: s2_def split: option.split)
    have "drawn_right s2 \<and> selection_right s2"
    proof (cases node)
      case None
      with n1 f1 show ?thesis by (auto simp: s2_def drawn_right_def selection_right_def)
    next
      case (Some i)
      with n1 f1 d1 exists [OF Some] show ?thesis
        by (auto simp: s2_def drawn_right_def selection_right_def split: if_splits)
    qed
    moreover have "drag_right s2 \<and> (\<not> any \<longrightarrow> handlers_clean s2)"
      using ok unfolding ui_ok_def drag_right_def handlers_clean_def f2 by blast
    moreover have "interest_right s2" if "show_mode s2 \<noteq> Mode_SELECTED"
      using ok f2 that by (cases "show_mode s") (simp_all add: ui_ok_def interest_right_def)
    ultimately show ?thesis
      unfolding s' by (auto simp: ui_ok_def drawn_right_def selection_right_def interest_right_def drag_right_def handlers_clean_def f2)
  qed
qed

lemma ui_ok_new: "ui_ok any (new_ui T S)"
  by (auto simp: ui_defs new_ui_def set_show_transmissions_mode_def new_node_ui_def)

lemma ui_ok_drag:
  assumes ok: "ui_ok any s"
  shows "ui_ok any (begin_node_drag i p s)"
proof (cases "mobility (ui_topology s) i = None \<or> node_drag_state s \<noteq> None")
  case True
  with ok show ?thesis by (auto simp: begin_node_drag_def split: option.split)
next
  case False
  then obtain x y where "mobility (ui_topology s) i = Some (x, y)" "node_drag_state s = None" by auto
  with ok show ?thesis by (auto simp: begin_node_drag_def ui_defs)
qed

lemma distinct_fst_remove1: "distinct (map fst xs) \<Longrightarrow> distinct (map fst (remove1 x xs))"
  by (induction xs) (auto dest: in_set_remove1 set_remove1_subset [THEN subsetD])

lemma ui_ok_end:
  assumes ok: "ui_ok any s" and there: "any \<or> released_there i s"
  shows "ui_ok any (end_node_drag i s)"
proof (cases "node_drag_state s")
  case None
  with ok show ?thesis by (simp add: end_node_drag_def)
next
  case (Some d)
  have "drag_right (end_node_drag i s)"
    using ok Some
    by (auto simp: end_node_drag_def ui_ok_def drag_right_def distinct_fst_remove1 dest: set_remove1_subset [THEN subsetD])
  moreover have "handlers_clean (end_node_drag i s)" if "\<not> any"
    using ok Some that there by (auto simp: end_node_drag_def ui_ok_def handlers_clean_def released_there_def)
  moreover have "drawn_right (end_node_drag i s) \<and> selection_right (end_node_drag i s) \<and> interest_right (end_node_drag i s)"
    using ok Some by (simp add: end_node_drag_def ui_ok_def drawn_right_def selection_right_def interest_right_def)
  ultimately show ?thesis by (simp add: ui_ok_def)
qed

lemma ui_ok_step:
  assumes "ui_step any s s'" and ok: "ui_ok any s"
  shows "ui_ok any s'"
  using assms(1)
proof cases
  case (press i b p)
  then show ?thesis
    using ok ui_ok_select [OF ok, of "ViewNode i"] ui_ok_drag [OF ok, of i p]
    by (auto simp: on_node_button_press_def split: if_splits)
next
  case (press_root b)
  then show ?thesis using ok ui_ok_select [OF ok, of NoNode] by (auto simp: on_root_button_press_def split: if_splits)
next
  case (motion h i p)
  then show ?thesis using ok by (auto simp: node_drag_motion_def Let_def ui_defs split: option.splits transmissions_mode.splits)
next
  case (release i b)
  then show ?thesis using ok ui_ok_end [OF ok, of i] by (simp add: on_node_button_release_def)
next
  case (choose_mode m)
  then show ?thesis using ok by (auto simp: set_show_transmissions_mode_def ui_defs)
next
  case (programmed a)
  then show ?thesis using ui_ok_select [OF ok] by blast
next
  case (enter v i)
  then show ?thesis using ui_ok_on_node [OF ok] by simp
next
  case (resize v i)
  then show ?thesis using ui_ok_on_node [OF ok] by simp
next
  case (recolor c i)
  then show ?thesis using ui_ok_on_node [OF ok] by simp
next
  case (add_window upd w)
  then show ?thesis using ok by (auto simp: add_information_window_def ui_defs)
next
  case (close_window w)
  then have "s' = s\<lparr>information_windows := remove1 w (information_windows s)\<rparr>"
    by (simp add: remove_information_window_def split: if_split_asm)
  then show ?thesis using ok by (simp add: ui_defs)
next
  case (refresh_view upd)
  then show ?thesis using ok by (auto simp: update_view_def Let_def ui_defs split: prod.splits option.splits)
next
  case (simulated m)
  then show ?thesis using ok by (auto simp: ui_defs)
qed

lemma ui_reach_ok: "ui_reach any T S s \<Longrightarrow> ui_ok any s"
  by (induction rule: ui_reach.induct) (auto intro: ui_ok_new ui_ok_step)

text \<open>
  C37. Whatever the user does, at most one node is marked as selected, and it is the selected one; the simulator records
  the transmissions that the chosen mode asks for; every node is drawn as its state says; and a drag has exactly one
  handler of motions, on one node. When every drag is ended over the node that it began on, there is no other handler,
  so that the motions are followed on the dragged node only.
\<close>

theorem viz_selection_consistent:
  assumes "ui_reach anywhere T S s"
  shows "(\<forall>i n. ui_nodes s i = Some n \<longrightarrow> (n_selected n \<longleftrightarrow> selected_node s = Some i) \<and> shown n = appearance_of n) \<and>
    interest s = interest_of (show_mode s) (n_nodes (ui_topology s)) (selected_node s) \<and>
    (\<forall>d. node_drag_state s = Some d \<longrightarrow> (\<exists>!i. (motion_signal d, i) \<in> set (motion_handlers s))) \<and>
    (\<not> anywhere \<longrightarrow>
      (case node_drag_state s of
         None \<Rightarrow> motion_handlers s = []
       | Some d \<Rightarrow> (\<exists>i. motion_handlers s = [(motion_signal d, i)])))"
proof -
  have ok: "ui_ok anywhere s" using assms by (rule ui_reach_ok)
  have "\<exists>!i. (motion_signal d, i) \<in> set (motion_handlers s)" if "node_drag_state s = Some d" for d
    using ok that by (auto simp: ui_ok_def drag_right_def dest: eq_key_imp_eq_value)
  moreover have "handlers_clean s" if "\<not> anywhere" using ok that by (simp add: ui_ok_def)
  ultimately show ?thesis
    using ok by (cases "node_drag_state s") (auto simp: ui_ok_def drawn_right_def selection_right_def interest_right_def handlers_clean_def)
qed

definition pair_of_nodes :: topology where
  "pair_of_nodes = \<lparr>n_nodes = 2, mobility = (\<lambda>i. if i = 1 then Some (6, 0) else None), devices = (\<lambda>i. []), channel_nodes = (\<lambda>c. [])\<rparr>"

theorem viz_selection_consistent_witness:
  "\<exists>s :: viz_ui. ui_reach False pair_of_nodes (empty_scene None) s \<and> selected_node s = Some 1 \<and> interest s = [1] \<and>
     motion_handlers s = [(1, 1)] \<and> node_drag_state s \<noteq> None"
proof -
  let ?s0 = "new_ui pair_of_nodes (empty_scene None)" and ?R = "ui_reach False pair_of_nodes (empty_scene None)"
  let ?s1 = "set_show_transmissions_mode Mode_SELECTED ?s0"
  have r1: "?R ?s1" by (rule ui_reach.step [OF ui_reach.new choose_mode])
  have "ui_nodes ?s1 1 \<noteq> None" "selected_node ?s1 = None" "show_mode ?s1 = Mode_SELECTED" "node_drag_state ?s1 = None"
      "motion_handlers ?s1 = []" "next_signal ?s1 = 1" "ui_topology ?s1 = pair_of_nodes"
    by (simp_all add: new_ui_def set_show_transmissions_mode_def pair_of_nodes_def)
  note s1 = this
  from s1 obtain s2 where s2: "on_node_button_press 1 (30, 30) 1 ?s1 = Inr s2" "selected_node s2 = Some 1" "show_mode s2 = Mode_SELECTED"
      "node_drag_state s2 = None" "motion_handlers s2 = []" "next_signal s2 = 1" "ui_topology s2 = pair_of_nodes" "ui_nodes s2 1 \<noteq> None"
    by (simp add: on_node_button_press_def select_node_def node_of_arg_def unselect_def del: interest_of.simps)
  have r2: "?R s2" by (rule ui_reach.step [OF r1 press [OF s1(1) s2(1)]])
  from s2 obtain s3 where s3: "on_node_button_press 2 (30, 30) 1 s2 = Inr s3" "selected_node s3 = Some 1" "show_mode s3 = Mode_SELECTED"
      "\<exists>d. node_drag_state s3 = Some d \<and> motion_signal d = 1" "(1, 1) \<in> set (motion_handlers s3)"
    by (simp add: on_node_button_press_def begin_node_drag_def pair_of_nodes_def)
  have r3: "?R s3" by (rule ui_reach.step [OF r2 press [OF s2(8) s3(1)]])
  from viz_selection_consistent [OF r3] s3 r3 show ?thesis by (intro exI [of _ s3]) auto
qed

text \<open>
  A drag that is ended over another node leaves its handler behind: \<open>disconnect\<close> is called on the wrong item. When another
  node is dragged later, the motions over the first node, which still has the handler, move it too, from the place of the
  second.
\<close>

lemma release_ends_drag:
  assumes "drag_right s" and "node_drag_state s = Some d"
  shows "node_drag_state (end_node_drag i s) = None \<and>
    (if (motion_signal d, i) \<in> set (motion_handlers s)
     then motion_signal d \<notin> fst ` set (motion_handlers (end_node_drag i s))
     else motion_handlers (end_node_drag i s) = motion_handlers s)"
proof -
  have "m \<notin> fst ` set (remove1 (m, i) xs)" if "distinct (map fst xs)" "(m, i) \<in> set xs" for m and xs :: "(nat \<times> nat) list"
  proof
    have d: "distinct xs" using that(1) by (simp add: distinct_map)
    assume "m \<in> fst ` set (remove1 (m, i) xs)"
    then obtain k where "(m, k) \<in> set xs" "k \<noteq> i" by (fastforce simp: distinct_remove1_removeAll [OF d])
    from eq_key_imp_eq_value [OF that(1,2) this(1)] this(2) show False by simp
  qed
  with assms show ?thesis by (auto simp: end_node_drag_def drag_right_def remove1_idem)
qed

lemma handler_left_behind:
  assumes "(h, i) \<in> set (motion_handlers s)" and "node_drag_state s = None"
    and "mobility (ui_topology s) i \<noteq> None" and "mobility (ui_topology s) j = Some (x, y)"
  shows "\<exists>s' d. begin_node_drag j p s = s' \<and> (h, i) \<in> set (motion_handlers s') \<and> node_drag_state s' = Some d \<and>
    sim_x0 d = x \<and> sim_y0 d = y \<and> mobility (ui_topology (snd (node_drag_motion i q s'))) i = Some (dragged_to d q)"
  using assms by (auto simp: begin_node_drag_def node_drag_motion_def Let_def)

text \<open>A node that is dragged is where the pointer took it, in the simulation and on the canvas, and its links with it.\<close>

lemma begin_drag_state:
  assumes "mobility (ui_topology s) i = Some (x, y)" and "node_drag_state s = None"
  shows "node_drag_state (begin_node_drag i p s) = Some \<lparr>canvas_x0 = fst p, canvas_y0 = snd p, sim_x0 = x, sim_y0 = y, motion_signal = next_signal s\<rparr> \<and>
    ui_topology (begin_node_drag i p s) = ui_topology s \<and> ui_scene (begin_node_drag i p s) = ui_scene s"
  using assms by (simp add: begin_node_drag_def)

theorem drag_moves_node:
  assumes m: "mobility (ui_topology s) i \<noteq> None" and d: "node_drag_state s = Some d"
  shows "\<exists>s'. node_drag_motion i p s = (True, s') \<and> mobility (ui_topology s') i = Some (dragged_to d p) \<and>
    position (ui_scene s') (Node_view i) = transform_point_simulation_to_canvas (dragged_to d p) \<and>
    (\<forall>l \<in> set (links (ui_scene s')). of_view (Node_view i) l \<longrightarrow> fits (position (ui_scene s')) l)"
proof -
  from m obtain q where q: "mobility (ui_topology s) i = Some q" by blast
  show ?thesis
    by (intro exI conjI, simp add: node_drag_motion_def q d Let_def)
      (auto simp: set_position_def Let_def fits_def update_points_def of_view_def split: if_splits)
qed

text \<open>Taken back to where the drag began, the node stands where it stood.\<close>

lemma drag_back:
  assumes "fl (sim_x0 d) = sim_x0 d" and "fl (sim_y0 d) = sim_y0 d"
  shows "dragged_to d (canvas_x0 d, canvas_y0 d) = (sim_x0 d, sim_y0 d)"
  using assms by (simp add: dragged_to_def py_sub_def py_add_def transform_distance_canvas_to_simulation_def fl_def)

text \<open>
  A window whose update raises, for instance that of the routing table of a node without IPv4, ends every update of the
  view as long as it is open: the windows after it, the transmissions, the drops and the plugins are not refreshed.
\<close>

lemma refresh_windows_ok:
  "fst (refresh_windows upd ws) = None \<longleftrightarrow> (\<forall>w \<in> set ws. upd w = None)"
  by (induction ws) (auto split: option.splits prod.splits)

lemma refresh_windows_stop:
  assumes "upd w = Some e" and "\<And>v. v \<in> set us \<Longrightarrow> upd v = None"
  shows "refresh_windows upd (us @ w # vs) = (Some e, map Window us @ [Window w])"
  using assms by (induction us) simp_all

theorem failing_window_stops_view:
  assumes "information_windows s = us @ w # vs" and "upd w = Some e" and "\<And>v. v \<in> set us \<Longrightarrow> upd v = None"
  shows "fst (update_view upd s) = Some e \<and> fst (snd (update_view upd s)) = Positions # map Window us @ [Window w] \<and>
    information_windows (snd (snd (update_view upd s))) = information_windows s"
  using refresh_windows_stop [where upd = upd, OF assms(2,3)] assms(1) by (simp add: update_view_def Let_def)

lemma view_complete:
  assumes "\<forall>w \<in> set (information_windows s). upd w = None"
  shows "fst (update_view upd s) = None \<and> set (fst (snd (update_view upd s))) \<supseteq> {Transmissions, Drops, Signal}"
  using refresh_windows_ok [of upd "information_windows s"] assms
  by (auto simp: update_view_def Let_def split: prod.splits option.splits)

end
