(* ===== verification/VizTables.thy ===== *)
theory VizTables
  imports VizTraffic VizNodes Ns3Util
begin

text \<open>
  The information windows of the visualizer: the last packets of a node (\<open>plugins/show_last_packets.py\<close>) with the
  capture of the packets in \<open>model/pyviz.cc\<close>, the routing tables (\<open>plugins/ipv4_routing_table.py\<close>,
  \<open>plugins/olsr.py\<close>) and the table of \<open>plugins/interface_statistics.py\<close>. The names that users give to devices, and
  the texts of numbers, are parameters; the widgets are left out.
\<close>

section \<open>Types of headers\<close>

text \<open>
  The climb to the parents of a type, \<open>while 1\<close> in the source. The types are numbers; \<open>parent\<close> is the parent a type was
  registered with.
\<close>

partial_function (option) header_type :: "(nat \<rightharpoonup> nat) \<Rightarrow> nat \<Rightarrow> nat \<Rightarrow> nat \<Rightarrow> bool option" where
  "header_type parent H T t =
     (if t = H \<or> t = T then Some True
      else case parent t of Some p \<Rightarrow> header_type parent H T p | None \<Rightarrow> Some False)"

fun filter_list :: "(nat \<rightharpoonup> nat) \<Rightarrow> nat \<Rightarrow> nat \<Rightarrow> nat list \<Rightarrow> (nat \<times> bool) list option" where
  "filter_list parent H T [] = Some []"
| "filter_list parent H T (t # ts) =
     (case header_type parent H T t of
        None \<Rightarrow> None
      | Some good \<Rightarrow>
          (case filter_list parent H T ts of
             None \<Rightarrow> None
           | Some cs \<Rightarrow> Some (if good \<and> t \<noteq> H \<and> t \<noteq> T then (t, True) # cs else cs)))"

section \<open>Capture of packets in the simulator\<close>

record packet =
  pkt_headers :: "nat list"
  pkt_size :: nat
  pkt_text :: string

record packet_sample =
  smp_time :: double
  smp_device :: "nat option"
  smp_packet :: packet

datatype capture_mode = CAPTURE_DISABLED | FILTER_HEADERS_OR | FILTER_HEADERS_AND

record capture_options =
  cap_headers :: "nat set"
  numLastPackets :: nat
  cap_mode :: capture_mode

fun any_header :: "nat set \<Rightarrow> nat list \<Rightarrow> bool" where
  "any_header hs [] = False"
| "any_header hs (i # is) = (if i \<in> hs then True else any_header hs is)"

fun missing_headers :: "nat set \<Rightarrow> nat list \<Rightarrow> nat set" where
  "missing_headers hs [] = hs"
| "missing_headers hs (i # is) = missing_headers (if i \<in> hs then hs - {i} else hs) is"

fun filter_mode :: "capture_mode \<Rightarrow> nat set \<Rightarrow> nat list \<Rightarrow> bool" where
  "filter_mode CAPTURE_DISABLED hs items = False"
| "filter_mode FILTER_HEADERS_OR hs items = any_header hs items"
| "filter_mode FILTER_HEADERS_AND hs items = (missing_headers hs items = {})"

definition filter_packet :: "packet \<Rightarrow> capture_options \<Rightarrow> bool" where
  "filter_packet p opts = filter_mode (cap_mode opts) (cap_headers opts) (pkt_headers p)"

function trim_packets :: "nat \<Rightarrow> packet_sample list \<Rightarrow> packet_sample list" where
  "trim_packets n xs = (if n < length xs then trim_packets n (tl xs) else xs)"
  by pat_completeness auto

termination by (relation "measure (\<lambda>(n, xs). length xs)") auto

declare trim_packets.simps [simp del]

record capture =
  capture_opts :: "nat \<rightharpoonup> capture_options"
  last_tx :: "nat \<Rightarrow> packet_sample list"
  last_rx :: "nat \<Rightarrow> packet_sample list"
  last_drop :: "nat \<Rightarrow> packet_sample list"

definition push_packet :: "capture \<Rightarrow> nat \<Rightarrow> packet_sample \<Rightarrow> packet_sample list \<Rightarrow> packet_sample list" where
  "push_packet S n smp xs =
     (case capture_opts S n of
        None \<Rightarrow> xs
      | Some opts \<Rightarrow> if filter_packet (smp_packet smp) opts then trim_packets (numLastPackets opts) (xs @ [smp]) else xs)"

text \<open>
  The trace functions. A dropped packet is recorded without its device, and only when its node or the packet itself is
  of interest (\<open>i\<close>).
\<close>

datatype traced = Tx | Rx | Dropped bool

fun trace_packet :: "traced \<Rightarrow> nat \<Rightarrow> packet_sample \<Rightarrow> capture \<Rightarrow> capture" where
  "trace_packet Tx n smp S = S\<lparr>last_tx := (last_tx S)(n := push_packet S n smp (last_tx S n))\<rparr>"
| "trace_packet Rx n smp S = S\<lparr>last_rx := (last_rx S)(n := push_packet S n smp (last_rx S n))\<rparr>"
| "trace_packet (Dropped i) n smp S =
     (if i then S\<lparr>last_drop := (last_drop S)(n := push_packet S n (smp\<lparr>smp_device := None\<rparr>) (last_drop S n))\<rparr> else S)"

definition SetPacketCaptureOptions :: "nat \<Rightarrow> capture_options \<Rightarrow> capture \<Rightarrow> capture" where
  "SetPacketCaptureOptions n opts S = S\<lparr>capture_opts := (capture_opts S)(n \<mapsto> opts)\<rparr>"

section \<open>The window of the last packets\<close>

type_synonym row = "string list"

record packets_window =
  pw_node :: nat
  packet_filter_list :: "(nat \<times> bool) list"
  op_AND :: bool
  tx_rows :: "row list"
  rx_rows :: "row list"
  drop_rows :: "row list"

definition selected_headers :: "packets_window \<Rightarrow> nat list" where
  "selected_headers w = map fst (filter snd (packet_filter_list w))"

definition capture_options_of :: "packets_window \<Rightarrow> capture_options" where
  "capture_options_of w =
     \<lparr>cap_headers = set (selected_headers w), numLastPackets = 100,
      cap_mode = (if op_AND w then FILTER_HEADERS_AND else FILTER_HEADERS_OR)\<rparr>"

definition update_capture_options :: "packets_window \<Rightarrow> capture \<Rightarrow> capture" where
  "update_capture_options w S = SetPacketCaptureOptions (pw_node w) (capture_options_of w) S"

datatype click = SelAll | SelNone | CellEdited nat bool | Toggled bool

fun clicked :: "click \<Rightarrow> packets_window \<Rightarrow> packets_window" where
  "clicked SelAll w = w\<lparr>packet_filter_list := map (\<lambda>(t, b). (t, True)) (packet_filter_list w)\<rparr>"
| "clicked SelNone w = w\<lparr>packet_filter_list := map (\<lambda>(t, b). (t, False)) (packet_filter_list w)\<rparr>"
| "clicked (CellEdited i b) w =
     w\<lparr>packet_filter_list := (if i < length (packet_filter_list w)
        then (packet_filter_list w)[i := (fst (packet_filter_list w ! i), b)] else packet_filter_list w)\<rparr>"
| "clicked (Toggled b) w = w\<lparr>op_AND := b\<rparr>"

record labels =
  FindName :: "nat \<Rightarrow> string"
  GetIfIndex :: "nat \<Rightarrow> nat"
  float_text :: "double \<Rightarrow> string"

definition interface_text :: "nat \<Rightarrow> string" where
  "interface_text i = ''(interface '' @ digits i @ '')''"

definition packet_row :: "labels \<Rightarrow> packet_sample \<Rightarrow> row" where
  "packet_row L smp =
     [float_text L (smp_time smp),
      (case smp_device smp of
         None \<Rightarrow> ''(unknown)''
       | Some d \<Rightarrow> if FindName L d = '''' then interface_text (GetIfIndex L d) else FindName L d),
      digits (pkt_size (smp_packet smp)),
      pkt_text (smp_packet smp)]"

definition packets_window_update :: "labels \<Rightarrow> capture \<Rightarrow> packets_window \<Rightarrow> packets_window" where
  "packets_window_update L S w =
     w\<lparr>tx_rows := map (packet_row L) (last_tx S (pw_node w)),
       rx_rows := map (packet_row L) (last_rx S (pw_node w)),
       drop_rows := map (packet_row L) (last_drop S (pw_node w))\<rparr>"

text \<open>Opening the window: every header is selected, \<open>OR\<close> is active, and the options are sent before the first update.\<close>

definition ShowLastPackets :: "labels \<Rightarrow> (nat \<times> bool) list \<Rightarrow> nat \<Rightarrow> capture \<Rightarrow> packets_window \<times> capture" where
  "ShowLastPackets L headers n S =
     (let w = \<lparr>pw_node = n, packet_filter_list = headers, op_AND = False, tx_rows = [], rx_rows = [], drop_rows = []\<rparr>;
          S = update_capture_options w S
      in (packets_window_update L S w, S))"

text \<open>What happens while the window is open: packets of any node, clicks, and updates of the view.\<close>

datatype window_event = Packet traced nat packet_sample | Click click | Refresh

fun handle_event :: "labels \<Rightarrow> window_event \<Rightarrow> packets_window \<times> capture \<Rightarrow> packets_window \<times> capture" where
  "handle_event L (Packet k n smp) (w, S) = (w, trace_packet k n smp S)"
| "handle_event L (Click c) (w, S) = (clicked c w, update_capture_options (clicked c w) S)"
| "handle_event L Refresh (w, S) = (packets_window_update L S w, S)"

definition window_run :: "labels \<Rightarrow> window_event list \<Rightarrow> packets_window \<times> capture \<Rightarrow> packets_window \<times> capture" where
  "window_run L es wS = fold (handle_event L) es wS"

section \<open>What the window shows\<close>

lemma trim_packets_last: "trim_packets n xs = last_n n xs"
proof (induction n xs rule: trim_packets.induct)
  case (1 n xs)
  have "last_n n (tl xs) = last_n n xs" if "n < length xs"
    using that by (cases xs) (simp_all add: last_n_def Suc_diff_le)
  with 1 show ?case by (subst trim_packets.simps) (simp add: last_n_all)
qed

lemma any_header_iff: "any_header hs items \<longleftrightarrow> hs \<inter> set items \<noteq> {}"
  by (induction items) auto

lemma missing_headers_diff: "missing_headers hs items = hs - set items"
  by (induction items arbitrary: hs) auto

text \<open>
  The headers that a window asks for, as its buttons say: a packet with one of the selected headers, or one with all of
  them.
\<close>

definition wanted :: "packets_window \<Rightarrow> packet \<Rightarrow> bool" where
  "wanted w p \<longleftrightarrow> (if op_AND w then set (selected_headers w) \<subseteq> set (pkt_headers p)
                  else \<exists>h \<in> set (selected_headers w). h \<in> set (pkt_headers p))"

lemma filter_packet_wanted: "filter_packet p (capture_options_of w) \<longleftrightarrow> wanted w p"
  by (auto simp: filter_packet_def capture_options_of_def wanted_def any_header_iff missing_headers_diff)

text \<open>The samples of one kind that the window should have seen: those of its node that it asked for at their time.\<close>

fun kept_sample :: "traced \<Rightarrow> packet_sample \<Rightarrow> packet_sample option" where
  "kept_sample (Dropped i) smp = (if i then Some (smp\<lparr>smp_device := None\<rparr>) else None)"
| "kept_sample k smp = Some smp"

fun kind_of :: "traced \<Rightarrow> nat" where
  "kind_of Tx = 0" | "kind_of Rx = 1" | "kind_of (Dropped i) = 2"

fun asked_for :: "nat \<Rightarrow> packets_window \<Rightarrow> window_event list \<Rightarrow> packet_sample list" where
  "asked_for kind w [] = []"
| "asked_for kind w (Packet k n smp # es) =
     (if kind_of k = kind \<and> n = pw_node w \<and> wanted w (smp_packet smp)
      then (case kept_sample k smp of None \<Rightarrow> [] | Some s \<Rightarrow> [s]) else []) @ asked_for kind w es"
| "asked_for kind w (Click c # es) = asked_for kind (clicked c w) es"
| "asked_for kind w (Refresh # es) = asked_for kind w es"

lemma window_run_simps [simp]:
  "window_run L [] wS = wS" "window_run L (e # es) wS = window_run L es (handle_event L e wS)"
  "window_run L (es @ fs) wS = window_run L fs (window_run L es wS)"
  by (simp_all add: window_run_def)

lemma clicked_node [simp]: "pw_node (clicked c w) = pw_node w"
  by (cases c) simp_all

lemma last_n_append: "last_n n (last_n n xs @ ys) = last_n n (xs @ ys)"
  by (cases "n \<le> length xs") (auto simp: last_n_def add.commute)

definition same_choice :: "packets_window \<Rightarrow> packets_window \<Rightarrow> bool" where
  "same_choice w v \<longleftrightarrow> pw_node w = pw_node v \<and> packet_filter_list w = packet_filter_list v \<and> op_AND w = op_AND v"

lemma same_choice_clicked: "same_choice w v \<Longrightarrow> same_choice (clicked c w) (clicked c v)"
  by (cases c) (auto simp: same_choice_def)

lemma same_choice_eq:
  assumes "same_choice w v"
  shows "wanted w p = wanted v p" and "capture_options_of w = capture_options_of v"
  using assms by (simp_all add: same_choice_def wanted_def capture_options_of_def selected_headers_def)

lemma asked_for_same: "same_choice w v \<Longrightarrow> asked_for k w es = asked_for k v es"
proof (induction k w es arbitrary: v rule: asked_for.induct)
  case (2 kind w k n smp es)
  then show ?case using same_choice_eq(1) [OF 2(2)] by (simp add: same_choice_def)
qed (auto simp: same_choice_clicked)

lemma same_choice_update: "same_choice (packets_window_update L S w) w"
  by (simp add: same_choice_def packets_window_update_def)

definition last_of :: "nat \<Rightarrow> capture \<Rightarrow> nat \<Rightarrow> packet_sample list" where
  "last_of k S = (if k = 0 then last_tx S else if k = 1 then last_rx S else last_drop S)"

lemma push_packet_asked:
  assumes "capture_opts S (pw_node w) = Some (capture_options_of w)" and "length xs \<le> 100"
  shows "push_packet S (pw_node w) smp xs = last_n 100 (xs @ (if wanted w (smp_packet smp) then [smp] else []))"
  using assms filter_packet_wanted [of "smp_packet smp" w]
  by (simp add: push_packet_def trim_packets_last last_n_all capture_options_of_def)

lemma trace_packet_asked:
  assumes "capture_opts S (pw_node w) = Some (capture_options_of w)" and "length (last_of j S (pw_node w)) \<le> 100" and "j < 3"
  shows "last_of j (trace_packet k n smp S) (pw_node w) =
    last_n 100 (last_of j S (pw_node w) @ asked_for j w [Packet k n smp])"
proof -
  have j: "j = 0 \<or> j = 1 \<or> j = 2" using assms(3) by auto
  have m: "wanted w (smp_packet (smp\<lparr>smp_device := None\<rparr>)) = wanted w (smp_packet smp)" by simp
  show ?thesis
    using j assms(2) push_packet_asked [OF assms(1), of "last_of j S (pw_node w)"]
    by (cases k) (auto simp: last_of_def last_n_all)
qed

lemma capture_opts_trace [simp]: "capture_opts (trace_packet k n smp S) = capture_opts S"
  by (cases k) simp_all

lemma last_of_options [simp]: "last_of j (update_capture_options w S) = last_of j S"
  by (simp add: update_capture_options_def SetPacketCaptureOptions_def last_of_def)

lemma capture_opts_sent: "capture_opts (update_capture_options w S) (pw_node w) = Some (capture_options_of w)"
  by (simp add: update_capture_options_def SetPacketCaptureOptions_def)

lemma window_run_lists:
  assumes "capture_opts S (pw_node w) = Some (capture_options_of w)" and "length (last_of j S (pw_node w)) \<le> 100" and "j < 3"
    and "window_run L es (w, S) = (w', S')"
  shows "pw_node w' = pw_node w \<and> capture_opts S' (pw_node w') = Some (capture_options_of w') \<and>
    last_of j S' (pw_node w) = last_n 100 (last_of j S (pw_node w) @ asked_for j w es)"
  using assms(1,2,4)
proof (induction es arbitrary: w S)
  case Nil
  then show ?case by (auto simp: last_n_all)
next
  case (Cons e es)
  show ?case
  proof (cases e)
    case (Packet k n smp)
    have t: "last_of j (trace_packet k n smp S) (pw_node w) =
        last_n 100 (last_of j S (pw_node w) @ asked_for j w [Packet k n smp])"
      by (rule trace_packet_asked [OF Cons.prems(1,2) assms(3)])
    have l: "length (last_of j (trace_packet k n smp S) (pw_node w)) \<le> 100" unfolding t by simp
    have o: "capture_opts (trace_packet k n smp S) (pw_node w) = Some (capture_options_of w)"
      using Cons.prems(1) by simp
    have run: "window_run L es (w, trace_packet k n smp S) = (w', S')" using Cons.prems(3) Packet by simp
    have a: "asked_for j w (Packet k n smp # es) = asked_for j w [Packet k n smp] @ asked_for j w es" by simp
    show ?thesis
      using Cons.IH [OF o l run] unfolding t Packet a last_n_append append_assoc .
  next
    case (Click c)
    then show ?thesis
      using Cons.IH [where w = "clicked c w" and S = "update_capture_options (clicked c w) S"] Cons.prems
        capture_opts_sent [of "clicked c w" S] by auto
  next
    case Refresh
    have "asked_for j (packets_window_update L S w) es = asked_for j w es"
      by (rule asked_for_same [OF same_choice_update])
    then show ?thesis
      using Cons.IH [where w = "packets_window_update L S w" and S = S] Cons.prems Refresh same_choice_eq(2) [OF same_choice_update [of L S w]]
      by (auto simp: packets_window_update_def)
  qed
qed

text \<open>
  C38. At every update the window of a node shows, for each kind, the last hundred packets of the node that the
  buttons of the window asked for at the time of the packet: with \<open>OR\<close> those with a selected header, with \<open>AND\<close>
  those with all selected headers.
\<close>

theorem packets_window_shows:
  assumes opened: "ShowLastPackets L headers n S = (w0, S0)"
    and run: "window_run L (es @ [Refresh]) (w0, S0) = (w, S')"
    and small: "length (last_tx S n) \<le> 100" "length (last_rx S n) \<le> 100" "length (last_drop S n) \<le> 100"
  shows "tx_rows w = map (packet_row L) (last_n 100 (last_tx S n @ asked_for 0 w0 es)) \<and>
    rx_rows w = map (packet_row L) (last_n 100 (last_rx S n @ asked_for 1 w0 es)) \<and>
    drop_rows w = map (packet_row L) (last_n 100 (last_drop S n @ asked_for 2 w0 es))"
proof -
  obtain w1 S1 where r: "window_run L es (w0, S0) = (w1, S1)" by fastforce
  have n: "pw_node w0 = n" and o: "capture_opts S0 (pw_node w0) = Some (capture_options_of w0)"
    using opened by (auto simp: ShowLastPackets_def Let_def packets_window_update_def update_capture_options_def
        SetPacketCaptureOptions_def capture_options_of_def selected_headers_def)
  have same: "last_of j S0 = last_of j S" for j
    using opened by (auto simp: ShowLastPackets_def Let_def)
  have w: "w = packets_window_update L S1 w1" using run r by auto
  have l: "pw_node w1 = n \<and> last_of j S1 n = last_n 100 (last_of j S n @ asked_for j w0 es)" if "j < 3" for j
  proof -
    from small have "length (last_of j S0 (pw_node w0)) \<le> 100" unfolding same n by (simp add: last_of_def)
    from window_run_lists [OF o this that r] show ?thesis unfolding n same by simp
  qed
  from l [of 0] l [of 1] l [of 2] show ?thesis by (simp add: w packets_window_update_def last_of_def)
qed
definition sample_packet :: "nat list \<Rightarrow> string \<Rightarrow> packet_sample" where
  "sample_packet hs t = \<lparr>smp_time = 1, smp_device = Some 0, smp_packet = \<lparr>pkt_headers = hs, pkt_size = 40, pkt_text = t\<rparr>\<rparr>"

definition sample_labels :: labels where
  "sample_labels = \<lparr>FindName = (\<lambda>d. ''eth0''), GetIfIndex = id, float_text = (\<lambda>x. ''1.0'')\<rparr>"

definition no_capture :: capture where
  "no_capture = \<lparr>capture_opts = Map.empty, last_tx = (\<lambda>_. []), last_rx = (\<lambda>_. []), last_drop = (\<lambda>_. [])\<rparr>"

theorem packets_window_shows_witness:
  "\<exists>w S'. window_run sample_labels
      ([Packet Tx 3 (sample_packet [5] ''tcp''), Click (CellEdited 0 False), Packet Tx 3 (sample_packet [5] ''gone''),
        Packet Tx 4 (sample_packet [6] ''other node''), Click (Toggled True), Packet Tx 3 (sample_packet [5, 6] ''both''),
        Packet (Dropped False) 3 (sample_packet [6] ''unseen'')] @ [Refresh])
      (ShowLastPackets sample_labels [(5, True), (6, True)] 3 no_capture) = (w, S') \<and>
     map last (tx_rows w) = [''tcp'', ''both''] \<and> drop_rows w = []"
proof -
  let ?es = "[Packet Tx 3 (sample_packet [5] ''tcp''), Click (CellEdited 0 False), Packet Tx 3 (sample_packet [5] ''gone''),
        Packet Tx 4 (sample_packet [6] ''other node''), Click (Toggled True), Packet Tx 3 (sample_packet [5, 6] ''both''),
        Packet (Dropped False) 3 (sample_packet [6] ''unseen'')]"
  obtain w0 S0 where o: "ShowLastPackets sample_labels [(5, True), (6, True)] 3 no_capture = (w0, S0)" by fastforce
  obtain w S' where r: "window_run sample_labels (?es @ [Refresh]) (w0, S0) = (w, S')" by fastforce
  have l: "length (last_tx no_capture 3) \<le> 100" "length (last_rx no_capture 3) \<le> 100" "length (last_drop no_capture 3) \<le> 100"
    by (simp_all add: no_capture_def)
  have w0: "w0 = \<lparr>pw_node = 3, packet_filter_list = [(5, True), (6, True)], op_AND = False, tx_rows = [], rx_rows = [], drop_rows = []\<rparr>"
    using o by (simp add: ShowLastPackets_def Let_def packets_window_update_def update_capture_options_def
        SetPacketCaptureOptions_def no_capture_def)
  have "asked_for 0 w0 ?es = [sample_packet [5] ''tcp'', sample_packet [5, 6] ''both'']" "asked_for 2 w0 ?es = []"
    by (simp_all add: w0 wanted_def selected_headers_def sample_packet_def)
  note asked = this
  from packets_window_shows [OF o r l, unfolded asked]
  have "tx_rows w = map (packet_row sample_labels) [sample_packet [5] ''tcp'', sample_packet [5, 6] ''both''] \<and> drop_rows w = []"
    by (simp add: no_capture_def last_n_all)
  then have "map last (tx_rows w) = [''tcp'', ''both''] \<and> drop_rows w = []"
    by (simp add: packet_row_def sample_packet_def)
  with r show ?thesis unfolding o by (intro exI conjI) (assumption | erule conjE)+
qed

text \<open>With nothing selected, \<open>OR\<close> asks for no packet and \<open>AND\<close> for every packet.\<close>

lemma nothing_selected:
  "\<not> op_AND w \<Longrightarrow> \<not> wanted (clicked SelNone w) p" "op_AND w \<Longrightarrow> wanted (clicked SelNone w) p"
  by (simp_all add: wanted_def selected_headers_def filter_map comp_def case_prod_unfold)

text \<open>
  Two windows of one node share its options: what the later one, or the last click, asks for is what both show. Closing
  a window leaves the options, so that its packets are kept on.
\<close>

lemma second_window_decides:
  assumes "ShowLastPackets L headers (pw_node w) S = (w2, S2)"
  shows "push_packet S2 (pw_node w) smp xs = trim_packets 100 (xs @ [smp]) \<or> push_packet S2 (pw_node w) smp xs = xs"
    "push_packet S2 (pw_node w) smp xs = (if wanted w2 (smp_packet smp) then trim_packets 100 (xs @ [smp]) else xs)"
proof -
  have o: "capture_opts S2 (pw_node w) = Some (capture_options_of w2)"
    using assms capture_opts_sent [of "\<lparr>pw_node = pw_node w, packet_filter_list = headers, op_AND = False, tx_rows = [], rx_rows = [], drop_rows = []\<rparr>" S]
    by (auto simp: ShowLastPackets_def Let_def packets_window_update_def capture_options_of_def selected_headers_def)
  then show "push_packet S2 (pw_node w) smp xs = (if wanted w2 (smp_packet smp) then trim_packets 100 (xs @ [smp]) else xs)"
    using filter_packet_wanted [of "smp_packet smp" w2] by (simp add: push_packet_def) (simp add: capture_options_of_def)
  then show "push_packet S2 (pw_node w) smp xs = trim_packets 100 (xs @ [smp]) \<or> push_packet S2 (pw_node w) smp xs = xs"
    by simp
qed

section \<open>The headers of the list\<close>

definition parents :: "(nat \<rightharpoonup> nat) \<Rightarrow> (nat \<times> nat) set" where
  "parents parent = {(p, t). parent t = Some p}"

lemma header_type_climb:
  assumes "wf (parents parent)"
  shows "header_type parent H T t = Some (H = t \<or> (H, t) \<in> (parents parent)\<^sup>+ \<or> T = t \<or> (T, t) \<in> (parents parent)\<^sup>+)"
  using assms
proof (induction t rule: wf_induct_rule)
  case (less t)
  have step: "(a, t) \<in> (parents parent)\<^sup>+ \<longleftrightarrow> (case parent t of None \<Rightarrow> False | Some p \<Rightarrow> a = p \<or> (a, p) \<in> (parents parent)\<^sup>+)" for a
    by (subst trancl_unfold_right) (auto simp: parents_def rtrancl_eq_or_trancl split: option.splits)
  show ?case
  proof (cases "parent t")
    case None
    then show ?thesis by (subst header_type.simps) (auto simp: step)
  next
    case (Some p)
    then have "(p, t) \<in> parents parent" by (simp add: parents_def)
    from less [OF this] Some show ?thesis by (subst header_type.simps) (auto simp: step)
  qed
qed

text \<open>
  If no type is its own ancestor, the search ends, and the list holds, once each and in order, the registered types that
  are proper descendants of the types of headers and trailers.
\<close>

theorem filter_list_complete:
  assumes "wf (parents parent)"
  shows "filter_list parent H T registered = Some (map (\<lambda>t. (t, True))
    (filter (\<lambda>t. t \<noteq> H \<and> t \<noteq> T \<and> ((H, t) \<in> (parents parent)\<^sup>+ \<or> (T, t) \<in> (parents parent)\<^sup>+)) registered))"
  by (induction registered) (auto simp: header_type_climb [OF assms])
section \<open>Routing tables\<close>

record ipv4_route =
  rt_dest :: string
  rt_gateway :: string
  rt_interface :: nat

datatype ipv4_routing =
    StaticRouting "ipv4_route list"
  | GlobalRouting "ipv4_route list"
  | ListRouting "(ipv4_routing \<times> int) list"
  | OtherRouting

record ipv4_stack =
  GetNetDevice :: "nat \<Rightarrow> nat option"
  GetRoutingProtocol :: "ipv4_routing option"

type_synonym protocol_entry = "ipv4_route list \<times> string \<times> int"

text \<open>The members of a list of protocols that are shown; a list inside a list is not looked into.\<close>

fun listed_protocols :: "(ipv4_routing \<times> int) list \<Rightarrow> protocol_entry list" where
  "listed_protocols [] = []"
| "listed_protocols ((StaticRouting rs, prio) # ps) = (rs, ''static'', prio) # listed_protocols ps"
| "listed_protocols ((GlobalRouting rs, prio) # ps) = (rs, ''global'', prio) # listed_protocols ps"
| "listed_protocols ((_, prio) # ps) = listed_protocols ps"

fun routing_protocols :: "ipv4_routing \<Rightarrow> protocol_entry list" where
  "routing_protocols (StaticRouting rs) = [(rs, ''static'', 0)]"
| "routing_protocols (ListRouting ps) = listed_protocols ps"
| "routing_protocols _ = []"

definition route_interface :: "labels \<Rightarrow> ipv4_stack \<Rightarrow> nat \<Rightarrow> string" where
  "route_interface L ipv4 i =
     (case GetNetDevice ipv4 i of
        None \<Rightarrow> ''lo''
      | Some d \<Rightarrow> if FindName L d = '''' then interface_text i else FindName L d)"

type_synonym routing_row = "string \<times> string \<times> string \<times> string \<times> int"

definition route_row :: "labels \<Rightarrow> ipv4_stack \<Rightarrow> string \<Rightarrow> int \<Rightarrow> ipv4_route \<Rightarrow> routing_row" where
  "route_row L ipv4 type_string prio r =
     (rt_dest r, rt_gateway r, route_interface L ipv4 (rt_interface r), type_string, prio)"

text \<open>An update gives what it raises, if anything, and the rows of the table after it.\<close>

definition ipv4_table_update :: "labels \<Rightarrow> ipv4_stack option \<Rightarrow> routing_row list \<Rightarrow> py_error option \<times> routing_row list" where
  "ipv4_table_update L ipv4 table =
     (case ipv4 of
        None \<Rightarrow> (Some AttributeError, table)
      | Some stack \<Rightarrow>
          (case GetRoutingProtocol stack of
             None \<Rightarrow> (None, table)
           | Some routing \<Rightarrow>
               if routing_protocols routing = [] then (None, table)
               else (None, concat (map (\<lambda>(rs, type_string, prio). map (route_row L stack type_string prio) rs)
                                       (routing_protocols routing)))))"

record olsr_route =
  destAddr :: string
  nextAddr :: string
  olsr_interface :: nat
  distance :: int

type_synonym olsr_row = "string \<times> string \<times> string \<times> int"

text \<open>The row of a route is appended before its interface is asked for.\<close>

definition olsr_table_update ::
    "labels \<Rightarrow> olsr_route list option \<Rightarrow> ipv4_stack option \<Rightarrow> olsr_row list \<Rightarrow> py_error option \<times> olsr_row list" where
  "olsr_table_update L olsr ipv4 table =
     (case olsr of
        None \<Rightarrow> (None, table)
      | Some routes \<Rightarrow>
          (case ipv4 of
             Some stack \<Rightarrow>
               (None, map (\<lambda>r. (destAddr r, nextAddr r, route_interface L stack (olsr_interface r), distance r)) routes)
           | None \<Rightarrow> if routes = [] then (None, []) else (Some AttributeError, [('''', '''', '''', 0)])))"

section \<open>The table of the interfaces\<close>

definition statistics_row :: "labels \<Rightarrow> (nat \<Rightarrow> nat) \<Rightarrow> nat \<Rightarrow> dev_stats \<Rightarrow> row" where
  "statistics_row L device iface st =
     [if FindName L (device iface) = '''' then interface_text iface else FindName L (device iface),
      py_str (PyInt (transmittedPackets (raw st))), py_str (PyInt (transmittedBytes (raw st))),
      float_text L (txPacketRate st), float_text L (txBitRate st),
      py_str (PyInt (receivedPackets (raw st))), py_str (PyInt (receivedBytes (raw st))),
      float_text L (rxPacketRate st), float_text L (rxBitRate st)]"

definition statistics_window_update ::
    "labels \<Rightarrow> (nat \<Rightarrow> nat) \<Rightarrow> double \<Rightarrow> nat \<Rightarrow> node_statistics \<Rightarrow> row list \<Rightarrow> py_error option \<times> row list" where
  "statistics_window_update L device period node d table =
     (case get_interface_statistics period node d of
        Inl e \<Rightarrow> (Some e, table)
      | Inr stats \<Rightarrow> (None, map (\<lambda>(i, st). statistics_row L device i st) (enumerate 0 stats)))"

section \<open>What the tables show\<close>

text \<open>A table whose protocols are known shows all their routes; other tables keep the rows they had.\<close>

lemma routing_table_rows:
  assumes "GetRoutingProtocol stack = Some (ListRouting ps)" and "listed_protocols ps \<noteq> []"
  shows "\<exists>rows. ipv4_table_update L (Some stack) table = (None, rows) \<and>
    length rows = sum_list (map (\<lambda>(rs, t, p). length rs) (listed_protocols ps)) \<and>
    (\<forall>(rs, t, p) \<in> set (listed_protocols ps). \<forall>r \<in> set rs. route_row L stack t p r \<in> set rows)"
  using assms
  by (fastforce simp: ipv4_table_update_def length_concat comp_def case_prod_unfold)

lemma unknown_routing_keeps_rows:
  assumes "GetRoutingProtocol stack = Some (GlobalRouting rs)"
  shows "ipv4_table_update L (Some stack) table = (None, table)"
  using assms by (simp add: ipv4_table_update_def)

text \<open>
  The routing tables of a node without IPv4, and the statistics of a node that has got a new interface, raise, and
  thereby end every update of the view.
\<close>

theorem table_without_ipv4_stops_view:
  assumes "information_windows s = us @ w # vs" and "\<And>v. v \<in> set us \<Longrightarrow> upd v = None"
    and "upd w = fst (ipv4_table_update L None table)"
  shows "fst (update_view upd s) = Some AttributeError \<and>
    Transmissions \<notin> set (fst (snd (update_view upd s))) \<and> Signal \<notin> set (fst (snd (update_view upd s)))"
proof -
  have "upd w = Some AttributeError" using assms(3) by (simp add: ipv4_table_update_def)
  from failing_window_stops_view [where upd = upd, OF assms(1) this assms(2)] show ?thesis by auto
qed

end
