(* ===== verification/GridView.thy ===== *)
theory GridView
  imports Timeline
begin

text \<open>
  The view of \<open>utils/grid.py\<close>: the layout of the legend, what is drawn of the events and ranges, the rectangles of the
  window, and the mouse. The numbers are those of Python 2, whole or binary64, because \<open>/\<close> means something else for
  each. The sizes of texts are parameters; a handler that raises leaves what it has changed, and the program
  goes on. Drawing on cairo and the dialog for a file name are left out.
\<close>

section \<open>Numbers of Python 2\<close>

datatype num = Whole int | Flt double

fun val :: "num \<Rightarrow> rat" where
  "val (Whole k) = of_int k"
| "val (Flt x) = x"

definition to_float :: "num \<Rightarrow> double" where
  "to_float a = fl (val a)"

fun num_add :: "num \<Rightarrow> num \<Rightarrow> num" where
  "num_add (Whole a) (Whole b) = Whole (a + b)"
| "num_add a b = Flt (py_add (to_float a) (to_float b))"

fun num_sub :: "num \<Rightarrow> num \<Rightarrow> num" where
  "num_sub (Whole a) (Whole b) = Whole (a - b)"
| "num_sub a b = Flt (py_sub (to_float a) (to_float b))"

fun num_mul :: "num \<Rightarrow> num \<Rightarrow> num" where
  "num_mul (Whole a) (Whole b) = Whole (a * b)"
| "num_mul a b = Flt (py_mul (to_float a) (to_float b))"

fun num_div :: "num \<Rightarrow> num \<Rightarrow> num result" where
  "num_div (Whole a) (Whole b) = (if b = 0 then Inl ZeroDivisionError else Inr (Whole (a div b)))"
| "num_div a b = ebind (py_div (to_float a) (to_float b)) (\<lambda>q. Inr (Flt q))"

definition num_less :: "num \<Rightarrow> num \<Rightarrow> bool" where
  "num_less a b \<longleftrightarrow> val a < val b"

text \<open>\<open>max\<close> and \<open>min\<close> return their first argument when both are equal.\<close>

definition num_max :: "num \<Rightarrow> num \<Rightarrow> num" where
  "num_max a b = (if num_less a b then b else a)"

definition num_min :: "num \<Rightarrow> num \<Rightarrow> num" where
  "num_min a b = (if num_less b a then b else a)"

definition num_int :: "num \<Rightarrow> int" where
  "num_int a = (if 0 \<le> val a then \<lfloor>val a\<rfloor> else \<lceil>val a\<rceil>)"

section \<open>The legend\<close>

text \<open>
  The loop of \<open>layout\<close>, which \<open>draw\<close> repeats: the places of the items \<open>(t_width, t_height)\<close>, and the height. A line that is
  full ends before the item; its height is that of the highest item so far.
\<close>

record legend_state =
  line_height :: double
  total_height :: double
  line_used :: double

definition legend_padding :: double where
  "legend_padding = 10"

definition item_width :: "double \<times> double \<Rightarrow> double" where
  "item_width t = py_add (py_add 20 (fst t)) legend_padding"

definition item_height :: "double \<times> double \<Rightarrow> double" where
  "item_height t = py_add (snd t) legend_padding"

definition legend_item :: "double \<Rightarrow> double \<times> double \<Rightarrow> legend_state \<Rightarrow> legend_state" where
  "legend_item width t s =
     (let w = item_width t; h = item_height t;
          s = (if line_height s < h then s\<lparr>line_height := h\<rparr> else s)
      in if width < py_add (line_used s) w
         then s\<lparr>line_used := py_add legend_padding w, total_height := py_add (total_height s) (line_height s)\<rparr>
         else s\<lparr>line_used := py_add (line_used s) w\<rparr>)"

definition legend_start :: legend_state where
  "legend_start = \<lparr>line_height = 0, total_height = legend_padding, line_used = legend_padding\<rparr>"

definition legend_layout :: "double \<Rightarrow> (double \<times> double) list \<Rightarrow> double" where
  "legend_layout width items =
     (let s = fold (legend_item width) items legend_start in py_add (total_height s) (line_height s))"

fun legend_places :: "double \<Rightarrow> (double \<times> double) list \<Rightarrow> legend_state \<Rightarrow> (double \<times> double) list" where
  "legend_places width [] s = []"
| "legend_places width (t # ts) s =
     (let s = legend_item width t s in (py_sub (line_used s) (item_width t), total_height s) # legend_places width ts s)"

section \<open>The layout of the timelines\<close>

text \<open>
  The texts of a line are given by their widths; the three lists are the ranges and the events of all timelines. The
  result is the height of the data and the place where they begin.
\<close>

definition widest :: "num list \<Rightarrow> num" where
  "widest ts = foldl num_max (Whole 0) ts"

definition timelines_layout :: "num \<Rightarrow> num list \<Rightarrow> num list \<Rightarrow> num list \<Rightarrow> num list \<Rightarrow> num \<times> num" where
  "timelines_layout max_text_height names range_names int_names str_names =
     (let left_n_lines = int (length names); range_n = int (length range_names);
          events_n = int (length int_names) + int (length str_names); right_n_lines = range_n + events_n;
          left_height = num_add (num_mul (Whole left_n_lines) max_text_height) (Whole ((left_n_lines - 1) * 10));
          right_height = num_add (Whole ((right_n_lines - 1) * 10)) (num_mul (Whole right_n_lines) max_text_height);
          right_data_height = num_add (num_add (num_mul (Whole events_n) (num_add max_text_height (Whole 5))) (Whole (range_n * 10)))
                                (Whole ((right_n_lines - 1) * 10));
          height = num_max (num_max left_height right_height) right_data_height
      in (num_add height (Whole 10),
          num_add (num_add (num_add (num_add (Whole 5) (widest names)) (Whole 10)) (widest (range_names @ int_names @ str_names))) (Whole 5)))"

text \<open>How far down \<open>draw\<close> comes: the lines of one timeline are its events and then its ranges.\<close>

fun draw_down :: "num \<Rightarrow> (nat \<times> nat) list \<Rightarrow> num \<Rightarrow> num" where
  "draw_down max_text_height [] cur_y = cur_y"
| "draw_down max_text_height ((events, rs) # lines) cur_y =
     draw_down max_text_height lines
       (((\<lambda>y. num_add y (num_add max_text_height (Whole 10))) ^^ rs)
        (((\<lambda>y. num_add y (num_add (num_add max_text_height (Whole 5)) (Whole 10))) ^^ events) cur_y))"

definition drawn_bottom :: "num \<Rightarrow> (nat \<times> nat) list \<Rightarrow> num" where
  "drawn_bottom max_text_height lines = num_sub (draw_down max_text_height lines (Whole 5)) (Whole 5)"

text \<open>The layout counts less for a range than the drawing takes, so that the data reach into the scale below them.\<close>

lemma drawing_exceeds_layout:
  "fst (timelines_layout (Whole 12) [Whole 40] [Whole 30, Whole 30] [Whole 30, Whole 30] []) = Whole 94"
  "drawn_bottom (Whole 12) [(2, 2)] = Whole 98"
  by (simp_all add: timelines_layout_def Let_def num_max_def num_less_def drawn_bottom_def eval_nat_numeral)

section \<open>Events and ranges\<close>

text \<open>
  The pixel of a time, and the loops over the entries that the search selects (Timeline). A mark is left out when it
  would be less than three pixels behind the last one.
\<close>

definition pixel :: "num \<Rightarrow> num \<Rightarrow> num \<Rightarrow> num \<Rightarrow> num \<Rightarrow> int result" where
  "pixel x width start end' t =
     ebind (num_div (num_mul (num_sub t start) width) (num_sub end' start)) (\<lambda>q. Inr (num_int (num_add x q)))"

fun event_marks :: "(num \<Rightarrow> int result) \<Rightarrow> int \<Rightarrow> 'v data_event list \<Rightarrow> (int \<times> 'v) list result" where
  "event_marks px last_x [] = Inr []"
| "event_marks px last_x (e # es) =
     ebind (px (Whole (ev_at e))) (\<lambda>real_x.
       if real_x > last_x + 2
       then ebind (event_marks px real_x es) (\<lambda>ms. Inr ((real_x, ev_value e) # ms))
       else event_marks px last_x es)"

definition draw_events :: "num \<Rightarrow> num \<Rightarrow> num \<Rightarrow> num \<Rightarrow> 'v data_event list \<Rightarrow> (int \<times> 'v) list result" where
  "draw_events x width start end' es = event_marks (pixel x width start end') (num_int x) es"

type_synonym palette = "(string \<rightharpoonup> colour) \<times> colour list"

fun range_bars :: "(num \<Rightarrow> int result) \<Rightarrow> num \<Rightarrow> num \<Rightarrow> int \<Rightarrow> data_range list \<Rightarrow> palette \<Rightarrow> ((int \<times> int \<times> colour) list \<times> palette) result" where
  "range_bars px start end' last_x [] P = Inr ([], P)"
| "range_bars px start end' last_x (r # rs) P =
     ebind (px (num_max (Whole (r_start r)) start)) (\<lambda>x_start.
     ebind (px (num_min (Whole (r_end r)) end')) (\<lambda>x_end.
       if x_end > last_x
       then ebind (lookup_colour (r_value r) P) (\<lambda>(c, P').
            ebind (range_bars px start end' x_end rs P') (\<lambda>(bars, P''). Inr ((x_start, x_end - x_start, c) # bars, P'')))
       else range_bars px start end' last_x rs P))"

definition draw_ranges :: "num \<Rightarrow> num \<Rightarrow> num \<Rightarrow> num \<Rightarrow> data_range list \<Rightarrow> palette \<Rightarrow> ((int \<times> int \<times> colour) list \<times> palette) result" where
  "draw_ranges x width start end' rs P =
     range_bars (pixel x width start end') start end' (num_int (num_sub x (Whole 1))) rs P"

section \<open>The window\<close>

text \<open>
  The heights of the parts, of which that of the legend depends on the width; \<open>g_data_x\<close> is where the data begin.
\<close>

record geometry =
  g_legend :: "num \<Rightarrow> num"
  g_data_height :: num
  g_data_x :: num
  g_mid :: num
  g_bot :: num

record grid_view =
  g_lo :: int
  g_hi :: int
  r_lo :: num
  r_hi :: num
  g_width :: num
  bot_width :: num
  moving_left :: bool
  moving_right :: bool
  moving_both :: bool
  moving_top :: bool
  left_cur :: "num option"
  right_cur :: "num option"
  both_start :: "num option"
  both_cur :: "num option"
  top_start :: "num option"
  top_cur :: "num option"
  force_redraw :: bool
  queued :: bool

text \<open>
  \<open>queue_draw\<close> and \<open>queue_draw_area\<close> ask for an exposure, which the main loop delivers; \<open>force_redraw\<close> says that the picture
  in the buffer is to be drawn anew.
\<close>

definition queue_area :: "grid_view \<Rightarrow> grid_view" where
  "queue_area s = s\<lparr>queued := True\<rparr>"

definition redraw :: "grid_view \<Rightarrow> grid_view" where
  "redraw s = s\<lparr>force_redraw := True, queued := True\<rparr>"

definition g_start :: "grid_view \<Rightarrow> num" where
  "g_start s = Flt (fl (of_int (g_lo s)))"

definition g_end :: "grid_view \<Rightarrow> num" where
  "g_end s = Flt (fl (of_int (g_hi s)))"

text \<open>The distance of the marks, by which a remainder is taken.\<close>

definition num_scale_delta :: "num \<Rightarrow> num \<Rightarrow> int result" where
  "num_scale_delta lo hi =
     (let data_delta = num_sub hi lo; closest = closest_loop \<lceil>val data_delta\<rceil> 1 in
      ebind (num_div data_delta (Whole closest)) (\<lambda>q.
        let delta = (if val q = 0 then closest else if val q = 1 then closest div 10 else closest)
        in if delta = 0 then Inl ZeroDivisionError else Inr delta))"

type_synonym handled = "py_error option \<times> grid_view"

definition then_do :: "'a result \<Rightarrow> grid_view \<Rightarrow> ('a \<Rightarrow> handled) \<Rightarrow> handled" where
  "then_do r s f = (case r of Inl e \<Rightarrow> (Some e, s) | Inr x \<Rightarrow> f x)"

definition then_redraw :: "handled \<Rightarrow> handled" where
  "then_redraw h = (case h of (Some e, s) \<Rightarrow> (Some e, s) | (None, s) \<Rightarrow> (None, redraw s))"

definition view_layout :: "num \<Rightarrow> grid_view \<Rightarrow> handled" where
  "view_layout w s =
     (let s = s\<lparr>g_width := w\<rparr> in
      then_do (num_scale_delta (r_lo s) (r_hi s)) s (\<lambda>_.
      then_do (num_scale_delta (Whole (g_lo s)) (Whole (g_hi s))) s (\<lambda>_. (None, s\<lparr>bot_width := w\<rparr>))))"

definition view_set_range :: "num \<Rightarrow> num \<Rightarrow> grid_view \<Rightarrow> handled" where
  "view_set_range a b s =
     view_layout (g_width s) (s\<lparr>r_lo := num_max (g_start s) (num_min a b), r_hi := num_min (g_end s) (num_max a b)\<rparr>)"

definition get_position :: "grid_view \<Rightarrow> num \<Rightarrow> num result" where
  "get_position s x = num_div (num_mul (num_sub x (Whole (g_lo s))) (bot_width s)) (Whole (g_hi s - g_lo s))"

definition get_data_rectangle :: "geometry \<Rightarrow> grid_view \<Rightarrow> num \<times> num \<times> num \<times> num" where
  "get_data_rectangle G s = (g_data_x G, g_legend G (g_width s), num_sub (g_width s) (g_data_x G), g_data_height G)"

definition get_selection_rectangle :: "geometry \<Rightarrow> grid_view \<Rightarrow> (num \<times> num \<times> num \<times> num) result" where
  "get_selection_rectangle G s =
     (let y_start = num_add (num_add (num_add (g_legend G (g_width s)) (g_data_height G)) (g_mid G)) (Whole 20) in
      ebind (get_position s (r_lo s)) (\<lambda>x_start.
      ebind (get_position s (r_hi s)) (\<lambda>x_end.
        Inr (x_start, y_start, num_sub x_end x_start, num_add (g_bot G) (Whole 20)))))"

definition scale_data :: "geometry \<Rightarrow> grid_view \<Rightarrow> num \<Rightarrow> num result" where
  "scale_data G s x =
     ebind (num_div x (num_sub (g_width s) (g_data_x G))) (\<lambda>q. Inr (num_mul q (num_sub (r_hi s) (r_lo s))))"

definition scale_selection :: "grid_view \<Rightarrow> num \<Rightarrow> num result" where
  "scale_selection s x =
     ebind (num_div x (g_width s)) (\<lambda>q. Inr (num_mul q (num_sub (g_end s) (g_start s))))"
section \<open>The mouse\<close>

definition near :: "num \<Rightarrow> num \<Rightarrow> bool" where
  "near a b \<longleftrightarrow> \<bar>val (num_sub a b)\<bar> < 5"

definition in_span :: "num \<Rightarrow> num \<Rightarrow> num \<Rightarrow> bool" where
  "in_span x a w \<longleftrightarrow> num_less a x \<and> num_less x (num_add a w)"

definition button_press :: "geometry \<Rightarrow> num \<Rightarrow> num \<Rightarrow> grid_view \<Rightarrow> handled" where
  "button_press G ex ey s =
     then_do (get_selection_rectangle G s) s (\<lambda>(x, y, width, height).
     case get_data_rectangle G s of (d_x, d_y, d_width, d_height) \<Rightarrow>
       if in_span ey y height \<and> near ex x then (None, s\<lparr>moving_left := True\<rparr>)
       else if in_span ey y height \<and> near ex (num_add x width) then (None, s\<lparr>moving_right := True\<rparr>)
       else if in_span ey y height \<and> in_span ex x width then
         (None, s\<lparr>moving_both := True, both_start := Some ex, both_cur := Some ex\<rparr>)
       else if in_span ey d_y d_height \<and> in_span ex d_x d_width then
         (None, s\<lparr>moving_top := True, top_start := Some ex, top_cur := Some ex\<rparr>)
       else (None, s))"

text \<open>An attribute that was never assigned.\<close>

definition attribute :: "num option \<Rightarrow> num result" where
  "attribute a = (case a of None \<Rightarrow> Inl AttributeError | Some v \<Rightarrow> Inr v)"

definition button_release :: "grid_view \<Rightarrow> handled" where
  "button_release s =
     (if moving_left s then
        let s = s\<lparr>moving_left := False\<rparr> in
        then_do (ebind (attribute (left_cur s)) (scale_selection s)) s (\<lambda>left. then_redraw (view_set_range left (r_hi s) s))
      else if moving_right s then
        let s = s\<lparr>moving_right := False\<rparr> in
        then_do (ebind (attribute (right_cur s)) (scale_selection s)) s (\<lambda>right. then_redraw (view_set_range (r_lo s) right s))
      else if moving_both s then
        let s = s\<lparr>moving_both := False\<rparr> in
        then_do (ebind (attribute (both_cur s)) (\<lambda>c. ebind (attribute (both_start s)) (\<lambda>b. scale_selection s (num_sub c b)))) s
          (\<lambda>delta. then_redraw (view_set_range (num_add (r_lo s) delta) (num_add (r_hi s) delta) s))
      else (None, s\<lparr>moving_top := False\<rparr>))"

text \<open>
  The motions. Beyond the right end of the window the flag and not the position is assigned the width. Without a
  motion under way only the shape of the pointer changes.
\<close>

definition move_left_edge :: "num \<Rightarrow> num \<Rightarrow> num \<Rightarrow> grid_view \<Rightarrow> grid_view" where
  "move_left_edge ex x width s =
     queue_area (s\<lparr>left_cur := Some (if \<not> num_less (Whole 0) ex then Whole 0
                        else if \<not> num_less ex (num_add x width) then num_add x width else ex)\<rparr>)"

definition move_right_edge :: "num \<Rightarrow> num \<Rightarrow> grid_view \<Rightarrow> grid_view" where
  "move_right_edge ex x s =
     queue_area
       (if \<not> num_less ex (g_width s) then s\<lparr>moving_right := val (g_width s) \<noteq> 0\<rparr>
        else s\<lparr>right_cur := Some (if num_less ex x then x else ex)\<rparr>)"

definition move_both :: "num \<Rightarrow> num \<Rightarrow> num \<Rightarrow> grid_view \<Rightarrow> handled" where
  "move_both ex x width s =
     then_do (attribute (both_start s)) s (\<lambda>b.
       let cur_e = num_sub (g_width s) (num_sub (num_add x width) b); cur_s = num_sub b x in
       (None, queue_area (s\<lparr>both_cur := Some (if num_less ex cur_s then cur_s else if num_less cur_e ex then cur_e else ex)\<rparr>)))"

definition move_top :: "geometry \<Rightarrow> num \<Rightarrow> grid_view \<Rightarrow> handled" where
  "move_top G ex s =
     (let s = s\<lparr>top_cur := Some ex\<rparr> in
      then_do (ebind (attribute (top_start s)) (\<lambda>b. scale_data G s (num_sub b ex))) s (\<lambda>delta.
      case view_set_range (num_add (r_lo s) delta) (num_add (r_hi s) delta) s of
        (Some e, s') \<Rightarrow> (Some e, s')
      | (None, s') \<Rightarrow> (None, redraw (s'\<lparr>top_start := Some ex\<rparr>))))"

definition motion_notify :: "geometry \<Rightarrow> num \<Rightarrow> grid_view \<Rightarrow> handled" where
  "motion_notify G ex s =
     then_do (get_selection_rectangle G s) s (\<lambda>(x, y, width, height).
       if moving_left s then (None, move_left_edge ex x width s)
       else if moving_right s then (None, move_right_edge ex x s)
       else if moving_both s then move_both ex x width s
       else if moving_top s then move_top G ex s
       else (None, s))"




text \<open>
  The exposure: the picture is drawn anew if it has to be, where \<open>drawing\<close> is what the drawing raises, if anything; then
  the lines over the picture while something moves, by their horizontal places.
\<close>

definition expose_lines :: "geometry \<Rightarrow> grid_view \<Rightarrow> num list result" where
  "expose_lines G s =
     ebind (get_selection_rectangle G s) (\<lambda>(x, y, width, height).
     ebind (if moving_left s then ebind (attribute (left_cur s)) (\<lambda>c. Inr [num_max c (Whole 2)]) else Inr []) (\<lambda>ls.
     ebind (if moving_right s then ebind (attribute (right_cur s)) (\<lambda>c. Inr [num_min c (num_sub (g_width s) (Whole 2))]) else Inr []) (\<lambda>rs.
     ebind (if moving_both s then ebind (attribute (both_cur s)) (\<lambda>c. ebind (attribute (both_start s)) (\<lambda>b.
              Inr [num_add x (num_sub c b), num_add (num_add x width) (num_sub c b)])) else Inr []) (\<lambda>bs.
       Inr (ls @ rs @ bs)))))"







section \<open>What the handlers keep\<close>

lemma val_max [simp]: "val (num_max a b) = max (val a) (val b)"
  by (auto simp: num_max_def num_less_def max_def)

lemma val_min [simp]: "val (num_min a b) = min (val a) (val b)"
  by (auto simp: num_min_def num_less_def min_def)

text \<open>
  The window is clipped at both ends; turned over, so that it ends before it begins, it lies at an end of the recording.
\<close>

definition upright :: "grid_view \<Rightarrow> bool" where
  "upright s \<longleftrightarrow> val (r_lo s) \<le> val (r_hi s)"


lemma redraw_fields [simp]:
  "g_lo (redraw s) = g_lo s" "g_hi (redraw s) = g_hi s" "r_lo (redraw s) = r_lo s" "r_hi (redraw s) = r_hi s"
  "moving_both (redraw s) = moving_both s" "both_start (redraw s) = both_start s" "both_cur (redraw s) = both_cur s"
  "moving_top (redraw s) = moving_top s" "top_start (redraw s) = top_start s" "top_cur (redraw s) = top_cur s"
  "g_lo (queue_area s) = g_lo s" "g_hi (queue_area s) = g_hi s" "r_lo (queue_area s) = r_lo s" "r_hi (queue_area s) = r_hi s"
  "moving_both (queue_area s) = moving_both s" "both_start (queue_area s) = both_start s" "both_cur (queue_area s) = both_cur s"
  "moving_top (queue_area s) = moving_top s" "top_start (queue_area s) = top_start s" "top_cur (queue_area s) = top_cur s"
  "moving_left (queue_area s) = moving_left s" "moving_right (queue_area s) = moving_right s"
  "left_cur (queue_area s) = left_cur s" "right_cur (queue_area s) = right_cur s" "queued (queue_area s)" "queued (redraw s)"
  by (simp_all add: redraw_def queue_area_def)




lemma g_start_frame [simp]:
  "g_start (s\<lparr>g_width := w\<rparr>) = g_start s" "g_start (s\<lparr>r_lo := a\<rparr>) = g_start s" "g_start (s\<lparr>r_hi := a\<rparr>) = g_start s"
  "g_start (s\<lparr>bot_width := w\<rparr>) = g_start s" "g_end (s\<lparr>g_width := w\<rparr>) = g_end s" "g_end (s\<lparr>r_lo := a\<rparr>) = g_end s"
  "g_end (s\<lparr>r_hi := a\<rparr>) = g_end s" "g_end (s\<lparr>bot_width := w\<rparr>) = g_end s"
  by (simp_all add: g_start_def g_end_def)










lemma attribute_error: "attribute a = Inl e \<Longrightarrow> e = AttributeError \<and> a = None"
  by (cases a) (auto simp: attribute_def)

lemma attribute_ok [simp]: "attribute (Some v) = Inr v"
  by (simp add: attribute_def)











lemma rectangle_frame [simp]:
  "get_selection_rectangle G (s\<lparr>queued := q\<rparr>) = get_selection_rectangle G s"
  "get_selection_rectangle G (s\<lparr>force_redraw := q\<rparr>) = get_selection_rectangle G s"
  "get_selection_rectangle G (s\<lparr>moving_right := q\<rparr>) = get_selection_rectangle G s"
  by (simp_all add: get_selection_rectangle_def get_position_def Let_def)

lemma expose_lines_frame [simp]:
  "expose_lines G (s\<lparr>queued := q\<rparr>) = expose_lines G s" "expose_lines G (s\<lparr>force_redraw := q\<rparr>) = expose_lines G s"
  by (simp_all add: expose_lines_def cong: if_cong)







section \<open>What the mouse can do to the window\<close>



lemma upright_redraw [simp]: "upright (snd (then_redraw h)) = upright (snd h)"
  by (auto simp: then_redraw_def upright_def split: prod.splits option.splits)


lemma layout_range [simp]: "r_lo (snd (view_layout w s)) = r_lo s" "r_hi (snd (view_layout w s)) = r_hi s"
  by (simp_all add: view_layout_def Let_def then_do_def split: sum.splits)















text \<open>Every motion of something that is held asks for an exposure.\<close>

lemma motion_asks_for_exposure:
  assumes "motion_notify G ex s = (None, s')" and "moving_left s \<or> moving_right s \<or> moving_both s \<or> moving_top s"
  shows "queued s'"
proof -
  from assms(1) obtain x y w h where r: "get_selection_rectangle G s = Inr (x, y, w, h)"
    by (auto simp: motion_notify_def then_do_def split: sum.splits prod.splits)
  have "queued t" if "move_top G ex s = (None, t)" for t
    using that by (auto simp: move_top_def Let_def then_do_def split: sum.splits prod.splits option.splits)
  moreover have "queued t" if "move_both ex x w s = (None, t)" for t
    using that by (auto simp: move_both_def Let_def then_do_def split: sum.splits)
  ultimately show ?thesis
    using assms r by (auto simp: motion_notify_def then_do_def move_left_edge_def move_right_edge_def split: if_splits)
qed

text \<open>
  An edge that was moved earlier is set, by a mere click on it, to where that motion ended; and beyond the right end of the
  window the right edge is not moved at all.
\<close>

lemma pressed_left:
  assumes press: "button_press G ex ey s = (None, s')" and "\<not> moving_left s" and "moving_left s'"
  shows "s' = s\<lparr>moving_left := True\<rparr>"
proof (cases "get_selection_rectangle G s")
  case (Inl e)
  with press show ?thesis by (simp add: button_press_def then_do_def)
next
  case (Inr r)
  obtain x y w h where r: "r = (x, y, w, h)" by (cases r)
  obtain dx dy dw dh where d: "get_data_rectangle G s = (dx, dy, dw, dh)" by (cases "get_data_rectangle G s")
  show ?thesis
  proof (cases "in_span ey y h \<and> near ex x")
    case False
    with press Inr r d have "moving_left s' = moving_left s"
      by (simp add: button_press_def then_do_def split: if_split_asm) (hypsubst, simp)+
    with assms(2,3) show ?thesis by simp
  qed (use press Inr r d in \<open>simp add: button_press_def then_do_def\<close>)
qed

lemma click_repeats_old_motion:
  assumes "left_cur s = Some c" and "\<not> moving_left s" and "button_press G ex ey s = (None, s')" and "moving_left s'"
    and "scale_selection s c = Inr left"
  shows "button_release s' = then_redraw (view_set_range left (r_hi s) (s'\<lparr>moving_left := False\<rparr>))"
proof -
  have "s' = s\<lparr>moving_left := True\<rparr>"
    using pressed_left [OF assms(3,2,4)] .
  moreover have "scale_selection (s\<lparr>moving_left := False\<rparr>) c = Inr left"
    using assms(5) by (simp add: scale_selection_def g_start_def g_end_def)
  ultimately show ?thesis using assms(1) by (simp add: button_release_def then_do_def)
qed

lemma right_edge_outside_window:
  assumes "moving_right s" and "\<not> moving_left s" and "val (g_width s) \<le> val ex" and "get_selection_rectangle G s = Inr r"
  shows "\<exists>s'. motion_notify G ex s = (None, s') \<and> right_cur s' = right_cur s"
  using assms by (cases r) (simp add: motion_notify_def then_do_def move_right_edge_def num_less_def)

text \<open>Data that are dragged past the beginning of the recording leave a window that ends before it begins.\<close>

lemma dragged_past_the_start:
  assumes "val a \<le> val b" and "val b < val (g_start s)"
  shows "val (r_hi (snd (view_set_range a b s))) < val (r_lo (snd (view_set_range a b s)))"
proof -
  have lo: "val (num_max (g_start s) (num_min a b)) = val (g_start s)" using assms by simp
  have hi: "val (num_min (g_end s) (num_max a b)) \<le> val b" using assms by simp
  show ?thesis
    using assms(2) lo hi
    by (auto simp: view_set_range_def view_layout_def Let_def then_do_def split: sum.splits)
qed

text \<open>An edge that was taken onto the other one while the numbers are whole goes to the beginning: the quotient is 0.\<close>

lemma whole_quotient_is_zero:
  assumes "g_width s = Whole w" and "0 \<le> c" and "c < w"
  shows "scale_selection s (Whole c) = Inr (num_mul (Whole 0) (num_sub (g_end s) (g_start s)))"
  using assms by (simp add: scale_selection_def)

section \<open>What is drawn\<close>

definition num_le :: "num \<Rightarrow> num \<Rightarrow> bool" where
  "num_le x y \<longleftrightarrow> val x \<le> val y \<and> ((\<exists>a b. x = Whole a \<and> y = Whole b) \<or> (\<exists>a b. x = Flt a \<and> y = Flt b))"

lemma num_le_sub: "num_le x y \<Longrightarrow> num_le (num_sub x c) (num_sub y c)"
  by (cases c) (auto simp: num_le_def to_float_def py_sub_def intro!: b64.rnd_mono diff_right_mono)

lemma num_le_add: "num_le x y \<Longrightarrow> num_le (num_add c x) (num_add c y)"
  by (cases c) (auto simp: num_le_def to_float_def py_add_def intro!: b64.rnd_mono add_left_mono)

lemma to_float_nonneg: "0 \<le> val c \<Longrightarrow> 0 \<le> to_float c"
  by (simp add: to_float_def b64.rnd_nonneg)

lemma num_le_mul: "num_le x y \<Longrightarrow> 0 \<le> val c \<Longrightarrow> num_le (num_mul x c) (num_mul y c)"
  using to_float_nonneg [of c]
  by (cases c) (auto simp: num_le_def to_float_def py_mul_def intro!: b64.rnd_mono mult_right_mono)

lemma num_le_div:
  assumes "num_le x y" and "0 < val c" and "num_div x c = Inr p" and "num_div y c = Inr q"
  shows "num_le p q"
proof (cases c)
  case (Whole k)
  show ?thesis
  proof (cases x)
    case (Whole a)
    with assms \<open>c = Whole k\<close> show ?thesis by (auto simp: num_le_def split: if_splits intro!: zdiv_mono1)
  next
    case (Flt a)
    with assms \<open>c = Whole k\<close> to_float_nonneg [of c] show ?thesis
      by (auto simp: num_le_def py_div_def to_float_def split: if_splits intro!: b64.rnd_mono divide_right_mono)
  qed
next
  case (Flt k)
  with assms to_float_nonneg [of c] show ?thesis
    by (auto simp: num_le_def py_div_def to_float_def split: if_splits intro!: b64.rnd_mono divide_right_mono)
qed

lemma num_int_mono: "num_le x y \<Longrightarrow> num_int x \<le> num_int y"
proof -
  assume "num_le x y"
  then have le: "val x \<le> val y" by (simp add: num_le_def)
  then have "\<lfloor>val x\<rfloor> \<le> \<lfloor>val y\<rfloor>" "\<lceil>val x\<rceil> \<le> \<lceil>val y\<rceil>" by (simp_all add: floor_mono ceiling_mono)
  moreover have "\<lceil>val x\<rceil> \<le> \<lfloor>val y\<rfloor>" if "val x < 0" "0 \<le> val y"
  proof -
    have "\<lceil>val x\<rceil> \<le> 0" using that(1) by (simp add: ceiling_le_iff)
    also have "0 \<le> \<lfloor>val y\<rfloor>" using that(2) by simp
    finally show ?thesis .
  qed
  ultimately show ?thesis using le unfolding num_int_def by (auto simp: not_le)
qed

text \<open>Later times are further to the right.\<close>

lemma pixel_mono:
  assumes "a \<le> b" and "0 \<le> val width" and "0 < val (num_sub end' start)"
    and "pixel x width start end' (Whole a) = Inr p" and "pixel x width start end' (Whole b) = Inr q"
  shows "p \<le> q"
proof -
  let ?n = "\<lambda>t. num_mul (num_sub (Whole t) start) width" and ?d = "num_sub end' start"
  have "num_le (?n a) (?n b)" using assms(1,2) by (intro num_le_mul num_le_sub) (simp_all add: num_le_def)
  moreover obtain u v where "num_div (?n a) ?d = Inr u" "num_div (?n b) ?d = Inr v" "p = num_int (num_add x u)" "q = num_int (num_add x v)"
    using assms(4,5) by (auto simp: pixel_def ebind_Inr_iff)
  ultimately show ?thesis using num_le_div [OF _ assms(3)] num_int_mono num_le_add by blast
qed
text \<open>The marks of events whose pixels are known.\<close>

lemma event_marks_gaps:
  assumes "event_marks px last_x es = Inr ms"
  shows "sorted_wrt (\<lambda>a b. fst a + 2 < fst b) ms \<and> (\<forall>m \<in> set ms. last_x + 2 < fst m) \<and>
    (\<forall>m \<in> set ms. \<exists>e \<in> set es. px (Whole (ev_at e)) = Inr (fst m) \<and> snd m = ev_value e)"
  using assms
proof (induction px last_x es arbitrary: ms rule: event_marks.induct)
  case (2 px last_x e es)
  from 2(3) obtain x where x: "px (Whole (ev_at e)) = Inr x" by (auto simp: ebind_Inr_iff)
  show ?case
  proof (cases "x > last_x + 2")
    case True
    then obtain ns where n: "event_marks px x es = Inr ns" "ms = (x, ev_value e) # ns"
      using 2(3) x by (auto simp: ebind_Inr_iff)
    show ?thesis using 2(1) [OF True n(1)] True n(2) x by fastforce
  next
    case False
    then have "event_marks px last_x es = Inr ms" using 2(3) x by simp
    from 2(2) [OF False this] show ?thesis by fastforce
  qed
qed simp

lemma event_marks_near:
  assumes "event_marks px last_x es = Inr ms" and "\<And>e. e \<in> set es \<Longrightarrow> px (Whole (ev_at e)) = Inr (f e)"
    and "sorted (map f es)" and "\<And>e. e \<in> set es \<Longrightarrow> last_x \<le> f e" and "e \<in> set es"
  shows "\<exists>p \<in> insert last_x (fst ` set ms). p \<le> f e \<and> f e \<le> p + 2"
  using assms
proof (induction px last_x es arbitrary: ms rule: event_marks.induct)
  case (2 px last_x a es)
  have a: "px (Whole (ev_at a)) = Inr (f a)" by (rule 2(4)) simp
  show ?case
  proof (cases "f a > last_x + 2")
    case True
    then obtain ns where n: "event_marks px (f a) es = Inr ns" "ms = (f a, ev_value a) # ns"
      using 2(3) a by (auto simp: ebind_Inr_iff)
    show ?thesis
    proof (cases "e = a")
      case False
      have "\<exists>p \<in> insert (f a) (fst ` set ns). p \<le> f e \<and> f e \<le> p + 2"
        by (rule 2(1) [OF True n(1)]) (use 2(4-7) False in auto)
      then show ?thesis using n(2) by auto
    qed (use n(2) in auto)
  next
    case False
    then have m: "event_marks px last_x es = Inr ms" using 2(3) a by simp
    show ?thesis
    proof (cases "e = a")
      case True
      then show ?thesis using False 2(6) [of a] by auto
    next
      case e: False
      show ?thesis by (rule 2(2) [OF False m]) (use 2(4-7) e in auto)
    qed
  qed
qed simp

text \<open>
  Of the events of the window, in the order of time, so many are marked that no two marks are less than three pixels
  apart, and every event is at most two pixels behind a mark or the left border; each mark stands at the pixel of
  its event.
\<close>

theorem events_drawn_apart:
  assumes "draw_events x width start end' es = Inr ms" and "sorted (map ev_at es)"
    and "0 \<le> val width" and "0 < val (num_sub end' start)"
    and pixels: "\<And>e. e \<in> set es \<Longrightarrow> pixel x width start end' (Whole (ev_at e)) = Inr (f e)" "\<And>e. e \<in> set es \<Longrightarrow> num_int x \<le> f e"
  shows "sorted_wrt (\<lambda>a b. fst a + 2 < fst b) ms \<and>
    (\<forall>m \<in> set ms. \<exists>e \<in> set es. fst m = f e \<and> snd m = ev_value e) \<and>
    (\<forall>e \<in> set es. \<exists>p \<in> insert (num_int x) (fst ` set ms). p \<le> f e \<and> f e \<le> p + 2)"
proof -
  have px: "event_marks (pixel x width start end') (num_int x) es = Inr ms" using assms(1) by (simp add: draw_events_def)
  have "sorted (map f es)"
  proof -
    have "f a \<le> f b" if "a \<in> set es" "b \<in> set es" "ev_at a \<le> ev_at b" for a b
      using pixel_mono [OF that(3) assms(3,4) pixels(1) [OF that(1)] pixels(1) [OF that(2)]] .
    note mono = this
    have "sorted_wrt (\<lambda>a b. ev_at a \<le> ev_at b) es" using assms(2) by (simp add: sorted_map)
    then have "sorted_wrt (\<lambda>a b. f a \<le> f b) es" by (rule sorted_wrt_mono_rel [rotated]) (rule mono)
    then show ?thesis by (simp add: sorted_map)
  qed
  from event_marks_near [where f = f, OF px pixels(1) this pixels(2)] event_marks_gaps [OF px] pixels(1)
  show ?thesis by fastforce
qed

theorem events_drawn_apart_witness:
  "\<exists>ms. draw_events (Whole 10) (Whole 100) (Whole 0) (Whole 50) [\<lparr>ev_at = 5, ev_value = ''a''\<rparr>, \<lparr>ev_at = 6, ev_value = ''b''\<rparr>, \<lparr>ev_at = 30, ev_value = ''c''\<rparr>] = Inr ms \<and>
     map snd ms = [''a'', ''c''] \<and> sorted_wrt (\<lambda>a b. fst a + 2 < fst b) ms"
proof -
  let ?es = "[\<lparr>ev_at = 5, ev_value = ''a''\<rparr>, \<lparr>ev_at = 6, ev_value = ''b''\<rparr>, \<lparr>ev_at = 30, ev_value = ''c''\<rparr>]"
  have d: "draw_events (Whole 10) (Whole 100) (Whole 0) (Whole 50) ?es = Inr [(20, ''a''), (70, ''c'')]"
    by (simp add: draw_events_def pixel_def num_int_def)
  have "sorted_wrt (\<lambda>a b. fst a + 2 < fst b) [(20 :: int, ''a''), (70, ''c'')]"
    by (rule events_drawn_apart [where f = "\<lambda>e. 10 + ev_at e * 2", OF d, THEN conjunct1])
      (auto simp: pixel_def num_int_def)
  with d show ?thesis by (intro exI conjI) (assumption | simp)+
qed

text \<open>An event at the beginning of the window is never marked.\<close>

lemma event_at_the_start_hidden:
  assumes "pixel x width start end' (Whole (ev_at e)) = Inr (num_int x)"
  shows "draw_events x width start end' [e] = Inr []"
  using assms by (simp add: draw_events_def)
text \<open>Every item of the legend stands, with its height, inside the height that the layout computes.\<close>

definition legend_ok :: "legend_state \<Rightarrow> bool" where
  "legend_ok s \<longleftrightarrow> 0 \<le> line_height s \<and> fl (total_height s) = total_height s"

lemma legend_item_grows:
  assumes "legend_ok s"
  shows "legend_ok (legend_item width t s) \<and> total_height s \<le> total_height (legend_item width t s) \<and>
    line_height s \<le> line_height (legend_item width t s) \<and> item_height t \<le> line_height (legend_item width t s)"
  using assms
  by (auto simp: legend_item_def Let_def legend_ok_def py_add_def b64.rnd_idem intro!: b64.rnd_ge_rep)

lemma legend_fold_grows:
  assumes "legend_ok s"
  shows "legend_ok (fold (legend_item width) ts s) \<and> total_height s \<le> total_height (fold (legend_item width) ts s) \<and>
    line_height s \<le> line_height (fold (legend_item width) ts s)"
  using assms
proof (induction ts arbitrary: s)
  case (Cons t ts)
  from legend_item_grows [OF Cons.prems, of width t] Cons.IH [of "legend_item width t s"] show ?case by auto
qed simp

lemma legend_fits:
  assumes "legend_ok s" and "(t, x, y) \<in> set (zip ts (legend_places width ts s))"
  shows "py_add y (item_height t) \<le>
    (let s' = fold (legend_item width) ts s in py_add (total_height s') (line_height s'))"
  using assms
proof (induction ts arbitrary: s)
  case (Cons u us)
  let ?s = "legend_item width u s"
  note g = legend_item_grows [OF Cons.prems(1), of width u]
  note f = legend_fold_grows [of ?s width us]
  show ?case
  proof (cases "(t, x, y) = (u, py_sub (line_used ?s) (item_width u), total_height ?s)")
    case True
    then have "y + item_height t \<le> total_height (fold (legend_item width) us ?s) + line_height (fold (legend_item width) us ?s)"
      using g f by auto
    then show ?thesis by (simp add: Let_def py_add_def b64.rnd_mono)
  next
    case False
    then have "(t, x, y) \<in> set (zip us (legend_places width us ?s))" using Cons.prems(2) by (auto simp: Let_def)
    from Cons.IH [OF _ this] g show ?thesis by (simp add: Let_def)
  qed
qed simp

end
