(* ===== verification/ScanHook.thy ===== *)
theory ScanHook
  imports TopSort PyText
begin

text \<open>
  What the scanners of the bindings do to each definition they meet: \<open>ns3modulescan.py\<close> for all modules at once and
  \<open>ns3modulescan-modular.py\<close> for one module. A hook of the scanner finds the header of the definition below \<open>ns3\<close>, and
  adds annotations that tell the generator what to wrap, partly from a table that both scanners share. The
  definitions, the functions on template names and the search for a declaration belong to the parser and are parameters.
\<close>

section \<open>Paths below ns3\<close>

text \<open>\<open>os.path.split\<close>: the last component, and what comes before it without its slashes, unless it is nothing else.\<close>

definition path_split :: "string \<Rightarrow> string \<times> string" where
  "path_split p =
     (let h = rev (dropWhile (\<lambda>c. c \<noteq> CHR ''/'') (rev p)); t = rev (takeWhile (\<lambda>c. c \<noteq> CHR ''/'') (rev p))
      in (if list_all (\<lambda>c. c = CHR ''/'') h then h else rev (dropWhile (\<lambda>c. c = CHR ''/'') (rev h)), t))"

text \<open>\<open>os.path.join(*l)\<close>\<close>

definition join_all :: "string list \<Rightarrow> string result" where
  "join_all l = (if l = [] then Inl TypeError else Inr (fold (\<lambda>c a. join_path a c) (tl l) (hd l)))"

text \<open>
  \<open>get_ns3_relative_path\<close> of \<open>ns3modulescan.py\<close>. The loop does not end when the head stays the same; then the
  value is \<open>None\<close>.
\<close>

partial_function (option) relative_loop :: "string list \<Rightarrow> string \<Rightarrow> string result option" where
  [code]: "relative_loop l head =
     (if head = '''' then Some (Inl AssertionError)
      else if snd (path_split head) = ''ns3'' then Some (join_all l)
      else relative_loop (snd (path_split head) # l) (fst (path_split head)))"

definition get_ns3_relative_path :: "string \<Rightarrow> string result option" where
  "get_ns3_relative_path path = relative_loop [] path"

lemma path_split_prefix: "\<exists>r. p = fst (path_split p) @ r"
proof -
  let ?h = "rev (dropWhile (\<lambda>c. c \<noteq> CHR ''/'') (rev p))"
  let ?k = "rev (dropWhile (\<lambda>c. c = CHR ''/'') (rev ?h))"
  have "p = ?h @ rev (takeWhile (\<lambda>c. c \<noteq> CHR ''/'') (rev p))"
    by (metis rev_append rev_rev_ident takeWhile_dropWhile_id)
  moreover have "?h = ?k @ rev (takeWhile (\<lambda>c. c = CHR ''/'') (rev ?h))"
    by (metis rev_append rev_rev_ident takeWhile_dropWhile_id)
  ultimately show ?thesis by (simp add: path_split_def Let_def) (metis append.assoc)
qed

lemma path_split_shorter: "fst (path_split p) \<noteq> p \<Longrightarrow> length (fst (path_split p)) < length p"
  using path_split_prefix [of p] by (metis append_Nil2 le_neq_implies_less length_append length_0_conv less_add_same_cancel1 length_greater_0_conv)

text \<open>\<open>get_ns3_relative_path\<close> of \<open>ns3modulescan-modular.py\<close>; an empty path has no header.\<close>

function relative_loop_modular :: "string list \<Rightarrow> string \<Rightarrow> string result" where
  "relative_loop_modular l head =
     (if head = '''' then Inl AssertionError
      else if fst (path_split head) = head then Inl ValueError
      else if snd (path_split head) = ''ns3'' then join_all l
      else relative_loop_modular (snd (path_split head) # l) (fst (path_split head)))"
  by pat_completeness auto
termination by (relation "measure (\<lambda>(l, head). length head)") (auto simp: path_split_shorter)

declare relative_loop_modular.simps [simp del]

definition relative_path_modular :: "string \<Rightarrow> string option result" where
  "relative_path_modular path =
     (if path = '''' then Inr None else ebind (relative_loop_modular [] path) (\<lambda>p. Inr (Some p)))"

text \<open>A path of plain components, from the root or not; what comes after the last \<open>ns3\<close> in it\<close>

definition path_text :: "bool \<Rightarrow> string list \<Rightarrow> string" where
  "path_text absolute cs = (if absolute then ''/'' else '''') @ join_with ''/'' cs"

definition plain_components :: "string list \<Rightarrow> bool" where
  "plain_components cs \<longleftrightarrow> (\<forall>c \<in> set cs. c \<noteq> '''' \<and> CHR ''/'' \<notin> set c)"

fun after_ns3 :: "string list \<Rightarrow> string list option" where
  "after_ns3 [] = None"
| "after_ns3 (c # cs) = (case after_ns3 cs of Some r \<Rightarrow> Some r | None \<Rightarrow> if c = ''ns3'' then Some cs else None)"

definition below_ns3 :: "string list \<Rightarrow> string result" where
  "below_ns3 cs = (if cs = [] then Inl TypeError else Inr (join_with ''/'' cs))"

lemma join_with_snoc: "join_with sep (cs @ [c]) = (if cs = [] then c else join_with sep cs @ sep @ c)"
proof (induction cs)
  case (Cons w ws)
  then show ?case by (cases ws) simp_all
qed simp

lemma join_with_plain:
  assumes "plain_components cs" "cs \<noteq> []"
  shows "join_with ''/'' cs \<noteq> '''' \<and> hd (join_with ''/'' cs) \<noteq> CHR ''/'' \<and> last (join_with ''/'' cs) \<noteq> CHR ''/''"
proof -
  have "join_with ''/'' cs \<noteq> '''' \<and> hd (join_with ''/'' cs) \<noteq> CHR ''/''"
    using assms by (cases "(''/'', cs)" rule: join_with.cases) (auto simp: plain_components_def neq_Nil_conv)
  moreover have "last (join_with ''/'' cs) \<noteq> CHR ''/''"
    using assms by (cases cs rule: rev_exhaust)
      (auto simp: join_with_snoc plain_components_def dest!: last_in_set split: if_splits)
  ultimately show ?thesis by simp
qed

lemma path_split_path:
  assumes "plain_components (cs @ [c])"
  shows "path_split (path_text a (cs @ [c])) = (path_text a cs, c)"
proof -
  have c: "CHR ''/'' \<notin> set c" using assms by (simp add: plain_components_def)
  have cs: "plain_components cs" using assms by (simp add: plain_components_def)
  have tail: "takeWhile (\<lambda>x. x \<noteq> CHR ''/'') (rev c @ CHR ''/'' # r) = rev c" for r
    using c by (subst takeWhile_append2) auto
  have tail0: "takeWhile (\<lambda>x. x \<noteq> CHR ''/'') (rev c) = rev c" using c by (auto simp: takeWhile_eq_all_conv)
  have head: "dropWhile (\<lambda>x. x \<noteq> CHR ''/'') (rev c @ CHR ''/'' # r) = CHR ''/'' # r" for r
    using c by (subst dropWhile_append2) auto
  have head0: "dropWhile (\<lambda>x. x \<noteq> CHR ''/'') (rev c) = []" using c by (auto simp: dropWhile_eq_Nil_conv)
  show ?thesis
  proof (cases "cs = []")
    case True
    then show ?thesis by (auto simp: path_text_def path_split_def tail tail0 head head0)
  next
    case False
    let ?p = "path_text a cs"
    have p: "path_text a (cs @ [c]) = ?p @ CHR ''/'' # c" using False by (simp add: path_text_def join_with_snoc)
    have l: "?p \<noteq> ''''" "last ?p \<noteq> CHR ''/''" using join_with_plain [OF cs False] by (auto simp: path_text_def)
    then obtain x xs where r: "rev ?p = x # xs" "x \<noteq> CHR ''/''" by (cases "rev ?p") (auto simp: rev_swap)
    have "\<not> list_all (\<lambda>x. x = CHR ''/'') (?p @ ''/'')" using l unfolding list_all_iff set_append using last_in_set [OF l(1)] l(2) by blast
    moreover have "dropWhile (\<lambda>x. x = CHR ''/'') (rev ?p) = rev ?p" by (simp add: r)
    ultimately show ?thesis by (simp add: p path_split_def tail head)
  qed
qed

lemma path_split_end: "path_split ''/'' = (''/'', '''')"
  by code_simp

lemma join_all_plain:
  assumes "plain_components l"
  shows "join_all l = below_ns3 l"
proof -
  have "fold (\<lambda>c a. join_path a c) cs b = join_with ''/'' (b # cs)" if "plain_components cs" "b \<noteq> ''''" "last b \<noteq> CHR ''/''" for b cs
    using that
  proof (induction cs arbitrary: b)
    case (Cons c cs)
    have "join_path b c = b @ ''/'' @ c" using Cons.prems by (cases c) (auto simp: join_path_def plain_components_def)
    moreover have "last (b @ ''/'' @ c) \<noteq> CHR ''/''" using Cons.prems by (auto simp: plain_components_def dest!: last_in_set)
    ultimately show ?case using Cons by (cases cs) (auto simp: plain_components_def)
  qed simp
  note folded = this
  show ?thesis
  proof (cases l)
    case (Cons b cs)
    then have "last b \<noteq> CHR ''/''" using assms by (auto simp: plain_components_def dest!: last_in_set)
    then show ?thesis using folded [of cs b] assms Cons by (simp add: join_all_def below_ns3_def plain_components_def)
  qed (simp add: join_all_def below_ns3_def)
qed
lemma after_ns3_snoc:
  "after_ns3 (cs @ [c]) = (if c = ''ns3'' then Some [] else map_option (\<lambda>r. r @ [c]) (after_ns3 cs))"
  by (induction cs) (auto split: option.splits)

lemma plain_snoc: "plain_components (cs @ [c]) \<longleftrightarrow> plain_components cs \<and> plain_components [c]"
  by (auto simp: plain_components_def)

lemma relative_loop_never: "relative_loop l ''/'' = None"
proof -
  have "relative_loop l head = Some y \<Longrightarrow> head \<noteq> ''/''" for l head y
    by (rule relative_loop.raw_induct [of "\<lambda>l head _. head \<noteq> ''/''"], auto simp: path_split_end split: if_splits, blast)
  then show ?thesis by (cases "relative_loop l ''/''") blast+
qed

lemma relative_loop_path:
  assumes "plain_components cs" "plain_components l"
  shows "relative_loop l (path_text a cs) =
    (case after_ns3 cs of Some r \<Rightarrow> Some (below_ns3 (r @ l)) | None \<Rightarrow> if a then None else Some (Inl AssertionError))"
  using assms
proof (induction cs arbitrary: l rule: rev_induct)
  case Nil
  have "relative_loop l '''' = Some (Inl AssertionError)" by (subst relative_loop.simps) simp
  then show ?case by (cases a) (simp_all add: path_text_def relative_loop_never)
next
  case (snoc c cs)
  have "path_text a (cs @ [c]) \<noteq> ''''"
    using snoc.prems(1) by (auto simp: path_text_def join_with_snoc plain_components_def)
  moreover have "plain_components (c # l)" using snoc.prems by (simp add: plain_components_def)
  moreover have "plain_components cs" using snoc.prems by (simp add: plain_snoc)
  ultimately have "relative_loop l (path_text a (cs @ [c])) =
      (if c = ''ns3'' then Some (join_all l) else relative_loop (c # l) (path_text a cs))"
    and "relative_loop (c # l) (path_text a cs) = (case after_ns3 cs of Some r \<Rightarrow> Some (below_ns3 (r @ c # l))
      | None \<Rightarrow> if a then None else Some (Inl AssertionError))"
    using path_split_path [OF snoc.prems(1), of a] snoc.IH by (simp_all add: relative_loop.simps [of l])
  then show ?case using snoc.prems(2) by (simp add: after_ns3_snoc join_all_plain split: option.splits)
qed

lemma relative_loop_modular_path:
  assumes "plain_components cs" "plain_components l"
  shows "relative_loop_modular l (path_text a cs) =
    (case after_ns3 cs of Some r \<Rightarrow> below_ns3 (r @ l) | None \<Rightarrow> Inl (if a then ValueError else AssertionError))"
  using assms
proof (induction cs arbitrary: l rule: rev_induct)
  case Nil
  have "relative_loop_modular l '''' = Inl AssertionError" by (subst relative_loop_modular.simps) simp
  moreover have "relative_loop_modular l ''/'' = Inl ValueError"
    by (subst relative_loop_modular.simps) (simp add: path_split_end)
  ultimately show ?case by (cases a) (simp_all add: path_text_def)
next
  case (snoc c cs)
  have p: "path_text a (cs @ [c]) \<noteq> ''''" "path_text a (cs @ [c]) \<noteq> path_text a cs"
    using snoc.prems(1) by (auto simp: path_text_def join_with_snoc plain_components_def)
  moreover have "plain_components (c # l)" using snoc.prems by (simp add: plain_components_def)
  moreover have "plain_components cs" using snoc.prems by (simp add: plain_snoc)
  ultimately show ?case using snoc.IH [of "c # l"] path_split_path [OF snoc.prems(1), of a] snoc.prems(2)
    by (subst relative_loop_modular.simps) (auto simp: after_ns3_snoc join_all_plain split: option.splits)
qed

text \<open>
  C40. A header below a directory \<open>ns3\<close> is named by its path below the last one, by both scanners. A path from the root without such a
  directory is refused by the scanner of one module, and the other scanner never returns on it; a directory \<open>ns3\<close>
  itself raises.
\<close>

theorem relative_path_exact:
  assumes "plain_components cs" "cs \<noteq> []"
  shows "get_ns3_relative_path (path_text a cs) =
      (case after_ns3 cs of Some r \<Rightarrow> Some (below_ns3 r) | None \<Rightarrow> if a then None else Some (Inl AssertionError)) \<and>
    relative_path_modular (path_text a cs) =
      (case after_ns3 cs of
         Some r \<Rightarrow> ebind (below_ns3 r) (\<lambda>p. Inr (Some p))
       | None \<Rightarrow> Inl (if a then ValueError else AssertionError))"
proof -
  have "path_text a cs \<noteq> ''''" using join_with_plain [OF assms] by (simp add: path_text_def)
  then show ?thesis using relative_loop_path [OF assms(1), of "[]" a] relative_loop_modular_path [OF assms(1), of "[]" a]
    by (simp add: get_ns3_relative_path_def relative_path_modular_def plain_components_def split: option.splits)
qed

theorem relative_path_exact_witness:
  "get_ns3_relative_path ''/build/ns3/core/object.h'' = Some (Inr ''core/object.h'') \<and>
   relative_path_modular ''/build/ns3/core/object.h'' = Inr (Some ''core/object.h'')"
  using relative_path_exact [of "[''build'', ''ns3'', ''core'', ''object.h'']" True]
  by (simp add: plain_components_def path_text_def below_ns3_def)

section \<open>Annotations\<close>

text \<open>The value of an annotation: a text, \<open>None\<close>, \<open>True\<close>, or a dictionary of parameters\<close>

datatype annotation = AText string | ANone | ATrue | AParams "(string \<times> (string \<times> string) list) list"

type_synonym annotations = "(string \<times> annotation) list"

definition ignore_it :: annotations where
  "ignore_it = [(''ignore'', ANone)]"

definition not_transferred :: "string \<Rightarrow> annotations" where
  "not_transferred p = [(''params'', AParams [(p, [(''transfer_ownership'', ''false'')])])]"

definition not_owned :: annotations where
  "not_owned = [(''params'', AParams [(''return'', [(''caller_owns_return'', ''false'')])])]"

definition type_annotations :: "(string \<times> annotations) list" where
  "type_annotations =
    [(''::ns3::AttributeChecker'', [(''automatic_type_narrowing'', AText ''true''), (''allow_subclassing'', AText ''false'')]),
     (''::ns3::AttributeValue'', [(''automatic_type_narrowing'', AText ''true''), (''allow_subclassing'', AText ''false'')]),
     (''::ns3::CommandLine'', [(''allow_subclassing'', AText ''true'')]),
     (''::ns3::NscTcpL4Protocol'', [(''ignore'', AText ''true'')]),
     (''ns3::RandomVariable::RandomVariable(ns3::RandomVariableBase const & variable) [constructor]'', ignore_it),
     (''ns3::RandomVariableBase * ns3::RandomVariable::Peek() const [member function]'', ignore_it),
     (''void ns3::RandomVariable::GetSeed(uint32_t * seed) const [member function]'',
      [(''params'', AParams [(''seed'', [(''direction'', ''out''), (''array_length'', ''6'')])])]),
     (''bool ns3::TypeId::LookupAttributeByName(std::string name, ns3::TypeId::AttributeInformation * info) const [member function]'',
      not_transferred ''info''),
     (''static bool ns3::TypeId::LookupByNameFailSafe(std::string name, ns3::TypeId * tid) [member function]'', ignore_it),
     (''bool ns3::TraceSourceAccessor::ConnectWithoutContext(ns3::ObjectBase * obj, ns3::CallbackBase const & cb) const [member function]'',
      not_transferred ''obj''),
     (''bool ns3::TraceSourceAccessor::Connect(ns3::ObjectBase * obj, std::string context, ns3::CallbackBase const & cb) const [member function]'',
      not_transferred ''obj''),
     (''bool ns3::TraceSourceAccessor::DisconnectWithoutContext(ns3::ObjectBase * obj, ns3::CallbackBase const & cb) const [member function]'',
      not_transferred ''obj''),
     (''bool ns3::TraceSourceAccessor::Disconnect(ns3::ObjectBase * obj, std::string context, ns3::CallbackBase const & cb) const [member function]'',
      not_transferred ''obj''),
     (''bool ns3::AttributeAccessor::Set(ns3::ObjectBase * object, ns3::AttributeValue const & value) const [member function]'',
      not_transferred ''object''),
     (''ns3::EmpiricalVariable::EmpiricalVariable(ns3::RandomVariableBase const & variable) [constructor]'', ignore_it),
     (''static ns3::AttributeList * ns3::AttributeList::GetGlobal() [member function]'', [(''caller_owns_return'', AText ''false'')]),
     (''void ns3::CommandLine::Parse(int argc, char * * argv) const [member function]'', ignore_it),
     (''extern void ns3::PythonCompleteConstruct(ns3::Ptr<ns3::Object> object, ns3::TypeId typeId, ns3::AttributeList const & attributes) [free function]'',
      ignore_it),
     (''ns3::Ptr<ns3::Ipv4RoutingProtocol> ns3::Ipv4ListRouting::GetRoutingProtocol(uint32_t index, int16_t & priority) const [member function]'',
      [(''params'', AParams [(''priority'', [(''direction'', ''out'')])])]),
     (''ns3::Ipv4RoutingTableEntry * ns3::GlobalRouter::GetInjectedRoute(uint32_t i) [member function]'', not_owned),
     (''ns3::Ipv4RoutingTableEntry * ns3::Ipv4GlobalRouting::GetRoute(uint32_t i) const [member function]'', not_owned),
     (''::ns3::TestCase'', [(''ignore'', AText ''true'')]),
     (''::ns3::TestRunner'', [(''ignore'', AText ''true'')]),
     (''::ns3::TestSuite'', [(''ignore'', AText ''true'')])]"

section \<open>Definitions\<close>

text \<open>The classes of definitions that the hooks tell apart; \<open>Operator\<close> stands for the other functions\<close>

datatype decl_kind = Class | Enumeration | FreeFunction | MemberFunction | Constructor | Operator | OtherDecl

record decl_item =
  decl_kind :: decl_kind
  decl_name :: string
  parent_name :: string
  decl_string :: string
  decl_text :: string
  demangled_name :: string
  decl_file :: string

definition calldef :: "decl_kind \<Rightarrow> bool" where
  "calldef k \<longleftrightarrow> k \<in> {FreeFunction, MemberFunction, Constructor, Operator}"

text \<open>\<open>pygccxml.declarations.templates\<close>\<close>

record template_lib =
  is_instantiation :: "string \<Rightarrow> bool"
  split_template :: "string \<Rightarrow> string \<times> string list"
  template_args :: "string \<Rightarrow> string list"

text \<open>What a hook changes: the annotations of the definition, the default values of its arguments, and the table\<close>

record scan_state =
  global_annotations :: "string \<rightharpoonup> annotation"
  parameter_annotations :: "string \<rightharpoonup> (string \<times> string) list"
  defaults :: "string option list"
  annotation_table :: "string \<rightharpoonup> annotations"

text \<open>A hook returns, or it raises, with what it has changed before.\<close>

type_synonym hook_result = "py_error option \<times> scan_state"

definition annotate :: "string \<Rightarrow> annotation \<Rightarrow> scan_state \<Rightarrow> scan_state" where
  "annotate k v s = s\<lparr>global_annotations := (global_annotations s)(k \<mapsto> v)\<rparr>"

definition annotate_all :: "annotations \<Rightarrow> scan_state \<Rightarrow> scan_state" where
  "annotate_all kvs s = s\<lparr>global_annotations := global_annotations s ++ map_of kvs\<rparr>"

definition name_begins :: "string \<Rightarrow> string \<Rightarrow> bool" where
  "name_begins t s \<longleftrightarrow> take (length t) s = t"

section \<open>Wrapped by hand\<close>

definition wrapped_by_hand :: "string list \<Rightarrow> decl_item \<Rightarrow> scan_state \<Rightarrow> scan_state" where
  "wrapped_by_hand args d s =
     (let s = (if decl_kind d = MemberFunction \<and> parent_name d = ''Object'' \<and> decl_name d = ''GetObject'' \<and> args = [''ns3::Object'']
               then annotate ''template_instance_names'' (AText ''ns3::Object=>GetObject'') s else s);
          s = (if decl_kind d = MemberFunction \<and> parent_name d = ''Simulator'' \<and> name_begins ''Schedule'' (decl_name d)
               then annotate ''ignore'' ANone s else s)
      in if decl_kind d = MemberFunction \<and> parent_name d = ''Simulator'' \<and> decl_name d = ''Run''
         then annotate ''ignore'' ATrue s else s)"

definition fix_default :: "string option \<Rightarrow> string option" where
  "fix_default v =
     (case v of
        None \<Rightarrow> None
      | Some t \<Rightarrow>
          let t = (if t = ''ns3::MilliSeconds( )'' then ''ns3::MilliSeconds(0)'' else t)
          in Some (if t = ''ns3::Seconds( )'' then ''ns3::Seconds(0)'' else t))"

definition fix_default_modular :: "string option \<Rightarrow> string option" where
  "fix_default_modular v =
     (if v = None then v
      else if v = Some ''ns3::MilliSeconds( )'' then Some ''ns3::MilliSeconds(0)''
      else if v = Some ''ns3::Seconds( )'' then Some ''ns3::Seconds(0)'' else v)"

definition fix_defaults :: "(string option \<Rightarrow> string option) \<Rightarrow> decl_item \<Rightarrow> scan_state \<Rightarrow> scan_state" where
  "fix_defaults f d s = (if calldef (decl_kind d) then s\<lparr>defaults := map f (defaults s)\<rparr> else s)"

section \<open>Classes\<close>

text \<open>The classes handled by their name; \<open>None\<close> when the hook goes on\<close>

definition special_class :: "decl_item \<Rightarrow> scan_state \<Rightarrow> scan_state option" where
  "special_class d s =
     (if name_begins ''::ns3::SimpleRefCount<'' (decl_string d)
      then Some (annotate ''automatic_type_narrowing'' (AText ''true'')
        (annotate ''peekref_method'' (AText ''GetReferenceCount'')
          (annotate ''decref_method'' (AText ''Unref'') (annotate ''incref_method'' (AText ''Ref'') s))))
      else if name_begins ''::ns3::Callback<'' (decl_string d) then Some (annotate ''ignore'' ANone s)
      else if name_begins ''::ns3::TracedCallback<'' (decl_string d) then Some (annotate ''ignore'' ANone s)
      else if name_begins ''::ns3::Ptr<'' (decl_string d) then Some (annotate ''ignore'' ANone s)
      else None)"

definition class_from_table :: "decl_item \<Rightarrow> scan_state \<Rightarrow> scan_state" where
  "class_from_table d s =
     (case annotation_table s (decl_string d) of None \<Rightarrow> s | Some kvs \<Rightarrow> annotate_all kvs s)"

section \<open>Functions\<close>

text \<open>\<open>parameter_annotations.update(value)\<close>, for each kind of value\<close>

definition update_parameters :: "annotation \<Rightarrow> scan_state \<Rightarrow> hook_result" where
  "update_parameters v s =
     (case v of
        AParams ps \<Rightarrow> (None, s\<lparr>parameter_annotations := parameter_annotations s ++ map_of ps\<rparr>)
      | AText t \<Rightarrow> (if t = '''' then None else Some ValueError, s)
      | _ \<Rightarrow> (Some TypeError, s))"

text \<open>\<open>del annotations['params']\<close>, on the entry of the table itself\<close>

definition delete_params :: "string \<Rightarrow> scan_state \<Rightarrow> hook_result" where
  "delete_params text s =
     (case annotation_table s text of
        None \<Rightarrow> (Some KeyError, s)
      | Some kvs \<Rightarrow> (if map_of kvs ''params'' = None then (Some KeyError, s)
          else (None, s\<lparr>annotation_table := (annotation_table s)(text \<mapsto> AList.delete ''params'' kvs)\<rparr>)))"

definition take_params :: "string \<Rightarrow> annotation \<Rightarrow> scan_state \<Rightarrow> hook_result" where
  "take_params text v s =
     (case update_parameters v s of (Some e, s) \<Rightarrow> (Some e, s) | (None, s) \<Rightarrow> delete_params text s)"

text \<open>The loop over \<open>annotations.items()\<close> itself: the next turn after a deletion raises.\<close>

fun items_loop :: "string \<Rightarrow> annotations \<Rightarrow> scan_state \<Rightarrow> hook_result" where
  "items_loop text [] s = (None, s)"
| "items_loop text ((k, v) # kvs) s =
     (if k = ''params'' then (case take_params text v s of (Some e, s) \<Rightarrow> (Some e, s) | (None, s) \<Rightarrow> (Some RuntimeError, s))
      else items_loop text kvs s)"

text \<open>The loop over a copy, \<open>list(annotations.items())\<close>\<close>

fun items_loop_copy :: "string \<Rightarrow> annotations \<Rightarrow> scan_state \<Rightarrow> hook_result" where
  "items_loop_copy text [] s = (None, s)"
| "items_loop_copy text ((k, v) # kvs) s =
     (if k = ''params'' then (case take_params text v s of (Some e, s) \<Rightarrow> (Some e, s) | (None, s) \<Rightarrow> items_loop_copy text kvs s)
      else items_loop_copy text kvs s)"

definition function_from_table ::
  "(string \<Rightarrow> annotations \<Rightarrow> scan_state \<Rightarrow> hook_result) \<Rightarrow> decl_item \<Rightarrow> scan_state \<Rightarrow> hook_result" where
  "function_from_table loop d s =
     (if decl_kind d \<in> {FreeFunction, MemberFunction, Constructor}
      then case annotation_table s (decl_text d) of
          None \<Rightarrow> (None, s)
        | Some kvs \<Rightarrow>
            (case loop (decl_text d) kvs s of
               (Some e, s) \<Rightarrow> (Some e, s)
             | (None, s) \<Rightarrow> (None, annotate_all (the (annotation_table s (decl_text d))) s))
      else (None, s))"

section \<open>The hooks\<close>

definition pygen_comment :: "string \<Rightarrow> decl_item \<Rightarrow> annotation" where
  "pygen_comment header d = AText (header @ '': '' @ decl_text d)"

text \<open>\<open>pre_scan_hook\<close> of \<open>ns3modulescan.py\<close>; \<open>None\<close> when the search for the header does not return\<close>

definition pre_scan_hook :: "template_lib \<Rightarrow> decl_item \<Rightarrow> scan_state \<Rightarrow> hook_result option" where
  "pre_scan_hook T d s =
     (case get_ns3_relative_path (decl_file d) of
        None \<Rightarrow> None
      | Some (Inl e) \<Rightarrow> Some (Some e, s)
      | Some (Inr header) \<Rightarrow>
          let s = annotate ''pygen_comment'' (pygen_comment header d) s;
              s = wrapped_by_hand (template_args T (demangled_name d)) d s;
              s = fix_defaults fix_default d s
          in Some (if decl_kind d = Class
              then (case special_class d s of
                  Some s \<Rightarrow> (None, s)
                | None \<Rightarrow> function_from_table items_loop d (class_from_table d s))
              else if decl_kind d = FreeFunction \<and> decl_name d = ''PeekPointer'' then (None, annotate ''ignore'' ANone s)
              else function_from_table items_loop d s))"

text \<open>
  The modules of the parameters of a template: \<open>located\<close> gives the file of a declaration with a place. A file outside
  \<open>ns3\<close> is passed over, one that is in no module raises.
\<close>

fun parameter_modules ::
  "(string \<Rightarrow> string option) \<Rightarrow> (string \<rightharpoonup> string) \<Rightarrow> string list \<Rightarrow> string list result" where
  "parameter_modules located headers_map [] = Inr []"
| "parameter_modules located headers_map (p # ps) =
     (case located p of
        None \<Rightarrow> parameter_modules located headers_map ps
      | Some file \<Rightarrow>
          (case relative_path_modular file of
             Inl e \<Rightarrow> (if e = ValueError then parameter_modules located headers_map ps else Inl e)
           | Inr h \<Rightarrow>
               (case Option.bind h headers_map of
                  None \<Rightarrow> Inl KeyError
                | Some m \<Rightarrow> ebind (parameter_modules located headers_map ps) (\<lambda>ms. Inr (m # ms)))))"

definition definition_module ::
  "template_lib \<Rightarrow> (string \<Rightarrow> string option) \<Rightarrow> (string \<rightharpoonup> string) \<Rightarrow> string \<Rightarrow> decl_item \<Rightarrow> string \<Rightarrow> string result" where
  "definition_module T located headers_map mine d m =
     (if is_instantiation T (decl_string d)
      then ebind (parameter_modules located headers_map (snd (split_template T (decl_name d))))
        (\<lambda>ms. Inr (if mine \<in> set ms then mine else m))
      else Inr m)"

definition underscores :: "string \<Rightarrow> string" where
  "underscores s = map (\<lambda>c. if c = CHR ''-'' then CHR ''_'' else c) s"

definition import_class :: "string \<Rightarrow> string \<Rightarrow> scan_state \<Rightarrow> scan_state" where
  "import_class mine m s =
     (if m \<noteq> mine then annotate ''import_from_module'' (AText (''ns.'' @ underscores m)) s else s)"

definition import_enum :: "string \<Rightarrow> string \<Rightarrow> scan_state \<Rightarrow> scan_state" where
  "import_enum mine m s =
     (if m \<noteq> mine then annotate ''import_from_module'' (AText (''ns.'' @ m)) s else s)"

definition pygen_comment_modular :: "string \<Rightarrow> string \<Rightarrow> decl_item \<Rightarrow> annotation" where
  "pygen_comment_modular header m d =
     AText (header @ '' (module '' @ [squote] @ m @ [squote] @ ''): '' @ decl_text d)"

text \<open>\<open>PreScanHook.__call__\<close> after the header and its module are known\<close>

definition hook_body ::
  "template_lib \<Rightarrow> (string \<Rightarrow> string option) \<Rightarrow> (string \<rightharpoonup> string) \<Rightarrow> string \<Rightarrow> decl_item \<Rightarrow> string \<Rightarrow> string \<Rightarrow>
   scan_state \<Rightarrow> hook_result" where
  "hook_body T located headers_map mine d header m s =
     (let s = annotate ''pygen_comment'' (pygen_comment_modular header m d) s;
          s = wrapped_by_hand (template_args T (decl_text d)) d s;
          s = fix_defaults fix_default_modular d s
      in case decl_kind d of
           Class \<Rightarrow>
             (case definition_module T located headers_map mine d m of
                Inl e \<Rightarrow> (Some e, s)
              | Inr m' \<Rightarrow>
                  let s = import_class mine m' s
                  in case special_class d s of Some s \<Rightarrow> (None, s) | None \<Rightarrow> (None, class_from_table d s))
         | Enumeration \<Rightarrow> (None, import_enum mine m s)
         | FreeFunction \<Rightarrow>
             (if m \<noteq> mine \<or> decl_name d = ''PeekPointer'' then (None, annotate ''ignore'' ANone s)
              else function_from_table items_loop_copy d s)
         | _ \<Rightarrow> function_from_table items_loop_copy d s)"

definition pre_scan_hook_modular ::
  "template_lib \<Rightarrow> (string \<Rightarrow> string option) \<Rightarrow> (string \<rightharpoonup> string) \<Rightarrow> string \<Rightarrow> decl_item \<Rightarrow> scan_state \<Rightarrow> hook_result" where
  "pre_scan_hook_modular T located headers_map mine d s =
     (case relative_path_modular (decl_file d) of
        Inl e \<Rightarrow> (if e = ValueError then None else Some e, s)
      | Inr None \<Rightarrow> (None, s)
      | Inr (Some header) \<Rightarrow>
          if header = '''' then (None, s)
          else (case headers_map header of
              None \<Rightarrow> (Some KeyError, s)
            | Some m \<Rightarrow> hook_body T located headers_map mine d header m s))"

section \<open>The list of callbacks\<close>

text \<open>\<open>repr\<close> of a list of type names\<close>

definition repr_names :: "string list \<Rightarrow> string" where
  "repr_names xs = ''['' @ join_with '', '' (map (\<lambda>x. squote # x @ [squote]) xs) @ '']''"

text \<open>
  \<open>scan_callback_classes\<close>: what is written before the end or the failed assertion. The classes are pairs of the
  name and the full name.
\<close>

fun callback_lines :: "template_lib \<Rightarrow> (string \<times> string) list \<Rightarrow> py_error option \<times> string list" where
  "callback_lines T [] = (None, ['']''])"
| "callback_lines T ((name, full) # cs) =
     (if \<not> name_begins ''Callback<'' name then callback_lines T cs
      else if \<not> is_instantiation T full then (Some AssertionError, [])
      else let (e, ls) = callback_lines T cs in (e, (''    '' @ repr_names (snd (split_template T full)) @ '','') # ls))"

definition scan_callback_classes :: "template_lib \<Rightarrow> (string \<times> string) list \<Rightarrow> py_error option \<times> string" where
  "scan_callback_classes T cs =
     (let (e, ls) = callback_lines T cs in (e, concat (map text_line (''callback_classes = ['' # ls))))"

section \<open>What is scanned\<close>

definition module_package :: "string \<Rightarrow> string" where
  "module_package module_name = ''ns.'' @ underscores module_name"

text \<open>The header that \<open>ns3_module_scan\<close> gives to the parser: one written for the bindings, if there is one\<close>

definition scan_header :: "(string \<Rightarrow> bool) \<Rightarrow> string \<Rightarrow> string \<Rightarrow> string \<Rightarrow> string" where
  "scan_header exists top_builddir module_name output_file_name =
     (let h = join_path (fst (path_split output_file_name)) ''scan-header.h''
      in if exists h then h
         else join_path (join_path top_builddir ''ns3'') (module_name @ ''-module.h''))"

section \<open>Sections\<close>

text \<open>\<open>MyPygenClassifier\<close> sends a definition to the section of its header; everything else comes before all modules.\<close>

definition classify_definition :: "(string \<rightharpoonup> string) \<Rightarrow> string \<Rightarrow> string" where
  "classify_definition headers_map file_name =
     (case headers_map (basename file_name) of Some s \<Rightarrow> s | None \<Rightarrow> ''__main__'')"

definition get_section_precedence :: "(string \<rightharpoonup> nat) \<Rightarrow> string \<Rightarrow> int result" where
  "get_section_precedence precedences sec =
     (if sec = ''__main__'' then Inr (- 1)
      else case precedences sec of None \<Rightarrow> Inl KeyError | Some n \<Rightarrow> Inr (int n))"

section \<open>The two scanners\<close>

text \<open>Where the scanner of one module finds a header, the other one finds the same.\<close>

lemma relative_loop_agrees: "relative_loop_modular l head = Inr h \<Longrightarrow> relative_loop l head = Some (Inr h)"
proof (induction l head rule: relative_loop_modular.induct)
  case (1 l head)
  then show ?case
    by (subst relative_loop.simps, subst (asm) relative_loop_modular.simps) (simp split: if_splits)
qed

lemma relative_path_agrees: "relative_path_modular p = Inr (Some h) \<Longrightarrow> get_ns3_relative_path p = Some (Inr h)"
  by (auto simp: relative_path_modular_def get_ns3_relative_path_def ebind_Inr_iff relative_loop_agrees split: if_splits)

lemma fix_default_agrees: "fix_default_modular = fix_default"
  by (auto simp: fun_eq_iff fix_default_def fix_default_modular_def split: option.splits)

text \<open>Two states that differ in the comment only\<close>

definition alike :: "scan_state \<Rightarrow> scan_state \<Rightarrow> bool" where
  "alike s t \<longleftrightarrow> parameter_annotations s = parameter_annotations t \<and> defaults s = defaults t \<and>
     annotation_table s = annotation_table t \<and>
     (\<forall>k. k \<noteq> ''pygen_comment'' \<longrightarrow> global_annotations s k = global_annotations t k)"

lemma alike_annotate [intro]: "alike s t \<Longrightarrow> alike (annotate k v s) (annotate k v t)"
  by (simp add: alike_def annotate_def)

lemma alike_comment [intro]: "alike (annotate ''pygen_comment'' v s) (annotate ''pygen_comment'' w s)"
  by (simp add: alike_def annotate_def)

lemma alike_annotate_all [intro]: "alike s t \<Longrightarrow> alike (annotate_all kvs s) (annotate_all kvs t)"
  by (simp add: alike_def annotate_all_def map_add_def split: option.splits)

lemma alike_wrapped [intro]: "alike s t \<Longrightarrow> alike (wrapped_by_hand args d s) (wrapped_by_hand args d t)"
  by (auto simp: wrapped_by_hand_def Let_def)

lemma alike_defaults [intro]: "alike s t \<Longrightarrow> alike (fix_defaults f d s) (fix_defaults f d t)"
  by (simp add: alike_def fix_defaults_def)

lemma alike_class [intro]: "alike s t \<Longrightarrow> alike (class_from_table d s) (class_from_table d t)"
  by (auto simp: class_from_table_def alike_def annotate_all_def map_add_def split: option.splits)

lemma special_class_alike:
  assumes "alike s t"
  shows "(special_class d s = None \<and> special_class d t = None) \<or>
    (\<exists>s' t'. special_class d s = Some s' \<and> special_class d t = Some t' \<and> alike s' t')"
  using assms by (simp add: special_class_def) blast

lemma wrapped_table [simp]: "annotation_table (wrapped_by_hand args d s) = annotation_table s"
  by (simp add: wrapped_by_hand_def annotate_def Let_def)

lemma wrapped_parameters [simp]: "parameter_annotations (wrapped_by_hand args d s) = parameter_annotations s"
  by (simp add: wrapped_by_hand_def annotate_def Let_def)

lemma annotate_other [simp]:
  "annotation_table (annotate k v s) = annotation_table s"
  "parameter_annotations (annotate k v s) = parameter_annotations s"
  "defaults (annotate k v s) = defaults s"
  "annotation_table (annotate_all kvs s) = annotation_table s"
  "parameter_annotations (annotate_all kvs s) = parameter_annotations s"
  by (simp_all add: annotate_def annotate_all_def)

lemma fix_defaults_other [simp]:
  "annotation_table (fix_defaults f d s) = annotation_table s"
  "parameter_annotations (fix_defaults f d s) = parameter_annotations s"
  by (simp_all add: fix_defaults_def)

definition takes_params :: "decl_item \<Rightarrow> scan_state \<Rightarrow> bool" where
  "takes_params d s \<longleftrightarrow> (\<exists>kvs. annotation_table s (decl_text d) = Some kvs \<and> map_of kvs ''params'' \<noteq> None)"

lemma items_loop_plain: "''params'' \<notin> fst ` set kvs \<Longrightarrow> items_loop text kvs s = (None, s)"
  by (induction kvs) auto

lemma items_loop_copy_plain: "''params'' \<notin> fst ` set kvs \<Longrightarrow> items_loop_copy text kvs s = (None, s)"
  by (induction kvs) auto

lemma function_from_table_plain:
  assumes "\<not> takes_params d s"
  shows "function_from_table items_loop_copy d s = function_from_table items_loop d s"
proof -
  have "''params'' \<notin> fst ` set kvs" if "annotation_table s (decl_text d) = Some kvs" for kvs
    using assms that unfolding takes_params_def by (metis map_of_eq_None_iff)
  then show ?thesis by (auto simp: function_from_table_def items_loop_plain items_loop_copy_plain split: option.splits)
qed

lemma function_from_table_alike:
  assumes "alike s t" "\<not> takes_params d s"
  shows "\<exists>e s' t'. function_from_table items_loop d s = (e, s') \<and> function_from_table items_loop d t = (e, t') \<and> alike s' t'"
proof -
  have t: "annotation_table t = annotation_table s" using assms(1) by (simp add: alike_def)
  have "''params'' \<notin> fst ` set kvs" if "annotation_table s (decl_text d) = Some kvs" for kvs
    using assms(2) that unfolding takes_params_def by (metis map_of_eq_None_iff)
  then show ?thesis using assms(1)
    by (auto simp: function_from_table_def t items_loop_plain split: option.splits)
qed

text \<open>
  Where no parameters are annotated, the two scanners treat a definition of the module in the same way, but for the
  comment: both end with the same annotations, default values and table.
\<close>

theorem scanners_agree:
  assumes header: "relative_path_modular (decl_file d) = Inr (Some header)" "header \<noteq> ''''" "headers_map header = Some mine"
    and params: "\<exists>ms. parameter_modules located headers_map (snd (split_template T (decl_name d))) = Inr ms"
    and args: "template_args T (demangled_name d) = template_args T (decl_text d)"
    and plain: "\<not> takes_params d s"
  shows "\<exists>e s1 s2. pre_scan_hook T d s = Some (e, s1) \<and> pre_scan_hook_modular T located headers_map mine d s = (e, s2) \<and>
    alike s1 s2"
proof -
  have own: "definition_module T located headers_map mine d mine = Inr mine"
    using params by (auto simp: definition_module_def)
  let ?s = "\<lambda>c. fix_defaults fix_default d (wrapped_by_hand (template_args T (decl_text d)) d (annotate ''pygen_comment'' c s))"
  let ?a = "?s (pygen_comment header d)" and ?b = "?s (pygen_comment_modular header mine d)"
  have ab: "alike ?a ?b" by blast
  have old: "pre_scan_hook T d s = Some (if decl_kind d = Class
      then (case special_class d ?a of Some s \<Rightarrow> (None, s) | None \<Rightarrow> function_from_table items_loop d (class_from_table d ?a))
      else if decl_kind d = FreeFunction \<and> decl_name d = ''PeekPointer'' then (None, annotate ''ignore'' ANone ?a)
      else function_from_table items_loop d ?a)"
    using header(1) args by (simp add: pre_scan_hook_def relative_path_agrees Let_def)
  have new: "pre_scan_hook_modular T located headers_map mine d s = hook_body T located headers_map mine d header mine s"
    using header by (simp add: pre_scan_hook_modular_def)
  have "takes_params d ?a = takes_params d s" "takes_params d ?b = takes_params d s" by (simp_all add: takes_params_def)
  with plain have p: "\<not> takes_params d ?a" "\<not> takes_params d ?b" by simp_all
  note fn = function_from_table_alike [OF ab p(1)] function_from_table_plain [OF p(2)]
  show ?thesis
  proof (cases "decl_kind d = Class")
    case True
    then have "function_from_table items_loop d s' = (None, s')" for s' by (simp add: function_from_table_def)
    then show ?thesis using True special_class_alike [OF ab, of d] alike_class [OF ab, of d] own
      by (auto simp: old new hook_body_def Let_def fix_default_agrees import_class_def)
  next
    case False
    then show ?thesis using fn alike_annotate [OF ab, of "''ignore''" ANone]
      by (cases "decl_kind d")
        (auto simp: old new hook_body_def Let_def fix_default_agrees import_enum_def function_from_table_def ab)
  qed
qed

text \<open>
  The parameters of a function are annotated once: the entry loses them, so that the next definition of the same text
  gets none. The scanner of all modules raises right after it has taken them, because it deletes from the dictionary
  that it goes through.
\<close>

lemma items_loop_copy_takes:
  assumes "map_of kvs ''params'' = Some (AParams ps)" and "distinct (map fst kvs)"
    and "annotation_table s text = Some kvs0" and "map_of kvs0 ''params'' \<noteq> None"
  shows "items_loop_copy text kvs s =
    (None, s\<lparr>parameter_annotations := parameter_annotations s ++ map_of ps,
             annotation_table := (annotation_table s)(text \<mapsto> AList.delete ''params'' kvs0)\<rparr>)"
  using assms
proof (induction kvs)
  case (Cons kv kvs)
  obtain k v where kv: "kv = (k, v)" by (cases kv)
  show ?case
  proof (cases "k = ''params''")
    case True
    then have "v = AParams ps" "''params'' \<notin> fst ` set kvs" using Cons.prems(1,2) kv by auto
    with True Cons.prems(3,4) kv show ?thesis
      by (simp add: take_params_def update_parameters_def delete_params_def items_loop_copy_plain fun_upd_def)
  next
    case False
    with Cons kv show ?thesis by simp
  qed
qed simp

lemma items_loop_raises:
  assumes "map_of kvs ''params'' = Some (AParams ps)"
    and "annotation_table s text = Some kvs0" and "map_of kvs0 ''params'' \<noteq> None"
  shows "fst (items_loop text kvs s) = Some RuntimeError"
  using assms by (induction kvs) (auto simp: take_params_def update_parameters_def delete_params_def)

theorem parameters_taken_once:
  assumes "decl_kind d \<in> {FreeFunction, MemberFunction, Constructor}" and "annotation_table s (decl_text d) = Some kvs"
    and "map_of kvs ''params'' = Some (AParams ps)" and "distinct (map fst kvs)"
  shows "\<exists>s'. function_from_table items_loop_copy d s = (None, s') \<and>
      parameter_annotations s' = parameter_annotations s ++ map_of ps \<and> \<not> takes_params d s' \<and>
      fst (function_from_table items_loop d s) = Some RuntimeError"
proof -
  have "map_of kvs ''params'' \<noteq> None" using assms(3) by simp
  note l = items_loop_copy_takes [OF assms(3,4,2) this] items_loop_raises [OF assms(3,2) this]
  have "map_of (AList.delete ''params'' kvs) ''params'' = None" by (simp add: AList.delete_conv)
  moreover have "fst (function_from_table items_loop d s) = Some RuntimeError"
    using assms(1,2) l(2) by (auto simp: function_from_table_def split: prod.splits option.splits)
  ultimately show ?thesis using assms(1,2) l(1) by (auto simp: function_from_table_def takes_params_def)
qed

end
