(* ===== verification/Spec2Isabelle.thy ===== *)
theory Spec2Isabelle
  imports Channel Layout Pool HandoverProps ConfigGen Analysis TcpRl Cqi TopSort Shell CheckStyle Timeline TestReport CreateModule
    VizThreads VizScene VizTraffic VizWifi FlowMonitor Versioning WafRun BuildTools BuildModules PortTests VizTables GridView
    ScanHook
begin

text \<open>
  A model of the Python programs of this ns-3 tree, with the theorems that make them correct. The
  tree is the ns-3 network simulator extended by an experiment on handovers: the C++ simulator and a Python
  learning agent run as two processes that exchange one structure through shared memory. This
  development models the Python side of that experiment, the library it stands on, the programs that
  prepare its input and read its output, and the Python tools of the build.

  \<^bold>\<open>The programs and how they interact.\<close> \<open>contrib/ns3-ai/py_interface\<close> is the library. \<open>py_interface.py\<close>
  wraps the lock of \<open>memory-pool.c\<close> in the classes \<open>Ns3AIRL\<close> and \<open>Ns3AIDL\<close> (theory Channel); both processes
  must agree on the layout of the structure (Layout) and on the blocks of the pool (Pool); \<open>ns3_util.py\<close>
  turns settings into command lines and picks processors (Ns3Util); the class \<open>Experiment\<close> starts and kills the
  simulator (Experiment). The scripts \<open>scratch/UW-working/run.py\<close>, \<open>run2.py\<close> to \<open>run11.py\<close> start the simulator through
  an \<open>Experiment\<close>, open an \<open>Ns3AIRL\<close> and answer every message of the simulator with handover parameters, which
  the agent of \<open>DQN.py\<close>, one for each mobile, chooses and learns from (Agent, Handover, Scripts,
  HandoverProps). \<open>jsonMaker.py\<close> and \<open>bootstrap_protocol_config.py\<close> write the scenario files the simulator reads
  (ConfigGen); \<open>Python_Analysis_Scripts/main.py\<close> reads the traces it wrote (Analysis). Two examples of the
  library are agents of their own: \<open>rl-tcp\<close> controls the window of TCP (TcpRl), \<open>lte_cqi\<close> predicts the
  channel quality (Cqi). The build uses \<open>rad_util.py\<close> and \<open>topsort.py\<close> to order the modules (RadUtil, TopSort), the
  two scanners of its bindings to annotate what is wrapped (ScanHook), and \<open>shellcmd.py\<close> to run command lines (Shell); \<open>check-style.py\<close> filters patches (CheckStyle) and \<open>grid.py\<close> shows
  recorded simulations (Timeline holds their data, GridView the layout, the window and the mouse). \<open>utils.py\<close> reads the configuration files of the build (Ns3Config). \<open>test.py\<close> runs
  the tests of the simulator: it plans the jobs (TestPlan), runs them on worker threads (TestPool), counts the results
  (TestTally) and translates them to text and HTML (TestReport). \<open>create-module.py\<close>
  writes the files of a new module (CreateModule). The visualizer of \<open>src/visualizer/visualizer\<close> runs the simulator in a thread
  beside the event loop of gtk (VizThreads), lays out its topology (VizScene), shows its traffic (VizTraffic) and the
  associations of wireless stations (VizWifi), lets the user select and drag its nodes (VizNodes) and shows tables in information
  windows (VizTables). \<open>flowmon-parse-results.py\<close> reads the file of the flow monitor (FlowMonitor). Of the build scripts, \<open>versioning.py\<close> derives the version of the simulator (Versioning), \<open>wutils.py\<close> runs a
  program of the tree (WafRun), \<open>command.py\<close> and \<open>cflags.py\<close> run command strings of the small shell and choose the flags of
  the compiler (BuildTools), \<open>build\<close> of \<open>wscript\<close> completes the modules of a build (BuildModules), and the suites of
  \<open>utils/tests\<close> try the options of waf and \<open>test.py\<close> (PortTests). PyText holds the operations of strings, paths and
  patterns of file names that these programs share, PyRegex the regular expressions.

  \<^bold>\<open>Conventions.\<close> Prelude holds the error values, the type \<open>result\<close> (an error or a value), sequences of
  statements over an explicit state (\<open>block\<close>) with rules for what they keep, and Python's indexing and slicing.
  A script's global names are one record, a statement is a function on it, a loop body is a block in the
  order of the source, so that a name which is not yet bound, a missing key and an index out of range are
  branches. PyFloat represents a finite float by its exact rational value and rounds every operation (\<open>fl\<close> for
  binary64, \<open>fl32\<close> for binary32); overflow, NaN and the sign of zero are left out. Python integers are \<open>int\<close>;
  the counters of the lock are 8-bit words and the fields of the TCP messages 32-bit words. Dictionaries
  are maps, or association lists where the order of the keys matters; an order that the interpreter may choose is
  the argument \<open>order\<close>. Python's shared references are written out where they matter: the lines of a patch chunk are
  positions in one list, the history of \<open>run.py\<close> is one list for all mobiles.

  \<^bold>\<open>What is a parameter.\<close> The networks and optimisers of torch and keras, the draws of numpy and random, the
  operating system, difflib and the formatter are arguments. What is assumed of them is named: \<open>ext_ok\<close> (Agent) and
  \<open>tcp_ext_ok\<close> (TcpRl) say that draws lie in their ranges and that layers and optimisers keep the shapes of the
  networks; every property with such an assumption has an instance on a concrete environment. Draws are numbered,
  so that a run is a function of the sequence of draws.

  \<^bold>\<open>Interfaces.\<close> Four locales state what one part needs of another. \<open>rounding\<close> (PyFloat) is the contract of a
  float format, given by both formats. \<open>turn_taking\<close> (Channel) is what the message loop needs of a channel class: it is
  proved once that a class which is ready on odd versions keeps mutual exclusion and the rendezvous with the
  simulator, and both classes are such. \<open>replay_memory\<close> (Agent) is a ring buffer, with the law that it holds the last
  transitions; the agent of the handover scripts and that of TCP provide it. \<open>named_entries\<close> (Timeline) is a list
  of entries found by name. Properties are stated on the definitions of the model and use these interfaces
  through their interpretations.

  \<^bold>\<open>What the lemmas show, by theory.\<close>

  Channel: \<open>chan_step\<close> interleaves the accesses of agent and simulator one by one. In every reachable state the two are never
  both inside, the agent receives the simulator's messages in order and without loss, each answer belongs to the
  message before it, and the agent is never stuck (\<open>channel_*\<close>).

  Pool: several processes attach to one segment and take blocks by number, with sizes and offsets of 32 bits and versions
  of 14. The blocks are disjoint and in bounds as long as nobody asks for more than the size of the pool; a request so
  large that the sum wraps is granted. Layout: the structures of the two sides have different sizes.

  Agent: the replay memory holds the last 500 transitions; a choice is in the action space and greedy
  outside exploration; the agent of any reachable state is well typed and no call on it fails but learning from an empty
  memory (\<open>agent_reach\<close>, \<open>agent_well_typed\<close>).

  Ns3Util, Experiment: settings enumerate all combinations; the bulk runner's wait ends exactly when single samples are
  free. A world is a tree of processes that fork and exit at any time; what an experiment
  started and still lives stands below its current process, or below one whose own parent ended before it, which \<open>kill\<close>
  does not reach (\<open>orphan_survives\<close>).

  Handover, Scripts, HandoverProps: the eleven loop bodies are total on well-formed messages; a run ends with its files
  or with the one error that is possible; the throughput window is exact; a message changes the agent of its own mobile
  only; two variants never learn; the end of a handover can raise in four variants; the sixty indices of
  \<open>run11.py\<close> decode to all pairs of actions.

  ConfigGen, Analysis: the stations form a hexagonal grid up to rounding; cell numbers decode to stations and
  sectors; times and serving cells stay aligned.

  TcpRl, Cqi: the classical rules are exact below 64 KiB; the agent's table holds the last 2000 transitions, each of whose
  next states is the state itself; the predictor trains on aligned windows and falls back on the measurement unless it
  was better.

  ScanHook: both scanners name a header by its path below \<open>ns3\<close>, or refuse it, or do not return; where no parameters are
  annotated they treat a definition alike, but for its comment; parameters are annotated once only.

  RadUtil, TopSort: the sort returns every item after its parents or raises on a cycle, the levels are the
  layers of the graph, and \<open>find_cycles\<close> yields every simple cycle once up to rotation; binary strings and
  numbers are inverse; and, as lemmas, fractions are reduced, permutations complete, ranges of binary numbers in order.

  Shell: parsing inverts printing; running a flat list of nodes is evaluating its groups, as the shell standard says when all
  operators agree; files are closed.

  CheckStyle: patches are read back as written; the white-space filter changes added lines only, and exactly
  those whose removed partner has one more blank.

  Ns3Config: a list written in the format of the configuration files is read back, with other lines and
  comments around it. TestPlan: the suites of the runner are queued once each, without the performance tests, and those that
  cannot run are marked. TestPool: \<open>pool_step\<close> interleaves the main thread, the workers and, between any two steps,
  the signal handler; every job is in exactly one place (\<open>conserved\<close>), each worker that lives has its break marker in the queue behind
  the last job (\<open>markers_ok\<close>), so that the threads are never stuck while no worker has died, and make at most six steps for each
  job and worker; a worker that dies leaves the main thread waiting forever. TestTally: the summary and the exit code are those of
  running the jobs one after the other, and the exit code says what it should. TestReport: the HTML report is
  well formed but for two wrong end tags, and the text report lists the tests in preorder.

  CreateModule: whichever operation the system refuses, a module is made with all its files or not at all, unless the removal of what
  was made is refused too, in which case a part of it may stay; and nothing outside \<open>src\<close> and \<open>contrib\<close> changes.

  Timeline: the two binary searches select what lies in the window, with the exact cases in which they do not; reading groups
  ranges by name; scales have two to twenty marks.

  VizThreads: \<open>sim_step\<close> and \<open>gui_step\<close> interleave the simulation thread and the calls of the main thread, which can be nested.
  The calls that take the lock and the simulation exclude each other, the calls that read without it do not
  (\<open>unlocked_read_races\<close>); the holder of the lock can always go on, the simulator is at most a second
  ahead of the view, and closing the window ends the thread; two update timers can run at once. VizScene: nodes stand at
  their positions or where the layout puts them, and links join them, though some are drawn twice. VizTraffic: one arrow for each
  pair of nodes with transmissions, of the averages of the last samples; the rates of the interfaces are those of ten reports. VizWifi: each station is
  linked to the access point it is associated with, once. VizNodes: exactly the selected node is marked, the nodes whose
  transmissions are recorded are those of the mode, and a dragged node follows the pointer, alone if every drag ends over its own node; an
  information window that fails stops the view. VizTables: the window of
  packets shows the last ones that the capture kept, the latest first, each filtered by the buttons as they were at its time.
  GridView: whatever the user does, the window begins and ends inside the recorded time, though a shift can turn it over at an
  end; with the cases in which a handler or an exposure raises.
  FlowMonitor: times are read in the documented format, and misread in the
  one this simulator prints.

  PyRegex, Versioning: the tag of a release, alone or as git describes a later commit, is read as the version it names, and
  a copy of the source without the repository gets the same version from the cache file.
  WafRun: what is run is the first program of the name that was asked for, in the environment of the build, and its exit status is judged.
  BuildTools: a task runs on its own files, and the flags follow the profile. BuildModules: the modules
  that are built are closed under their dependencies, and nothing of another module is left in the build. PortTests: a suite passes when each of its
  commands does.

  \<^bold>\<open>Loops.\<close> Recursion follows the data where the source does. \<open>topsort_loop\<close> and \<open>topsort_levels_core\<close> end because the
  dictionary of counts shrinks, \<open>explore\<close> because the multiset of the numbers of nodes off the paths decreases, the
  binary searches because their interval does, \<open>tokens\<close> and \<open>fnmatch\<close> because the text does,
  \<open>ensure_dir\<close> because the path does, \<open>trim_packets\<close> (the capture) and \<open>enable_deps\<close> (the modules) because the packets and the modules not
  yet enabled do. The threads of \<open>test.py\<close> are a
  step relation, whose runs are bounded by \<open>weight\<close>. Loops that may run forever are partial functions whose value \<open>None\<close> is not returning:
  \<open>wait_cpus\<close> (the wait for processors), \<open>grid_loop\<close> (the station grid), \<open>binary_loop\<close>,
  \<open>float_loop\<close>, \<open>relative_loop\<close> (the path of a header) and \<open>header_type\<close> (the type of a header and its parents); that they return is proved for \<open>grid_loop\<close> and
  \<open>binary_loop\<close>, for \<open>header_type\<close> when no type is its own ancestor, and characterised for \<open>wait_cpus\<close> and \<open>relative_loop\<close>. No fuel is used.

  \<^bold>\<open>Not modelled.\<close> The C++ simulator, apart from the getters, setters and the lock of the shared memory that the agent's side
  meets; the generated bindings \<open>modulegen__gcc_*.py\<close>, which are tables of calls of a third-party generator; of the waf build
  scripts, what is glue around the build library (configuration checks, \<open>misc.py\<close>, \<open>boost.py\<close>, \<open>relocation.py\<close>,
  \<open>clang_compilation_database.py\<close>); the widgets, icons and the shell of the visualizer; drawing and plotting; the text of
  JSON and CSV files and the parser of XML; real time. Of \<open>test.py\<close>, the parser of the options, the messages and the
  handling of the output directory. Three files do not
  parse as Python (\<open>Collin-Experiment-Wrapper.py\<close>, \<open>Collin-Python-Analysis.py\<close> and the copy of \<open>main.py\<close>) and so have
  no meaning to model.
\<close>

end
